(* ===== verification/Prelude.thy ===== *)
theory Prelude
  imports Main "HOL-Library.Word"
begin

text \<open>
  Shared ground of the development.

  \<^item> The C library's character classes and case folds.  The compiler never calls
    \<^verbatim>\<open>setlocale\<close>, so \<^verbatim>\<open>std::isalpha\<close> and its kin answer for the "C" locale: ASCII only.
    A source byte is a HOL \<^typ>\<open>char\<close> (eight bits), a \<^verbatim>\<open>std::string\<close> or
    \<^verbatim>\<open>std::string_view\<close> a \<^typ>\<open>char list\<close>.
  \<^item> The bounds of \<^verbatim>\<open>int64_t\<close>.  Signed overflow is undefined in C++, so a signed value is
    an \<^typ>\<open>int\<close> with its range written out, never a wrapped one.
  \<^item> The binary search of \<^verbatim>\<open>std::lower_bound\<close> and \<^verbatim>\<open>std::upper_bound\<close> and the fact every
    client rests on: over a partitioned list it finds the partition point.
  \<^item> The index loop \<^verbatim>\<open>while (Pos < size && p(Text[Pos])) ++Pos\<close> of the scanners, and the
    raw copy \<^verbatim>\<open>memcpy\<close> into a buffer.
\<close>

unbundle bit_operations_syntax

named_theorems cclass \<open>unfolds the character classes of the C library\<close>
named_theorems int64_simps \<open>unfolds the bounds of the 64-bit signed type\<close>

type_synonym bytes = "char list"

text \<open>\<^verbatim>\<open>SourceLocation\<close> and \<^verbatim>\<open>FileID\<close> are opaque 32-bit values, 0 for none.\<close>

type_synonym SourceLocation = nat
type_synonym FileID = nat

subsection \<open>Character classes\<close>

definition code_of :: "char \<Rightarrow> nat" where
  "code_of c = of_char c"

definition isdigit :: "char \<Rightarrow> bool" where
  [cclass]: "isdigit c \<longleftrightarrow> 48 \<le> code_of c \<and> code_of c \<le> 57"

definition isupper :: "char \<Rightarrow> bool" where
  [cclass]: "isupper c \<longleftrightarrow> 65 \<le> code_of c \<and> code_of c \<le> 90"

definition islower :: "char \<Rightarrow> bool" where
  [cclass]: "islower c \<longleftrightarrow> 97 \<le> code_of c \<and> code_of c \<le> 122"

definition isalpha :: "char \<Rightarrow> bool" where
  [cclass]: "isalpha c \<longleftrightarrow> isupper c \<or> islower c"

definition isalnum :: "char \<Rightarrow> bool" where
  [cclass]: "isalnum c \<longleftrightarrow> isalpha c \<or> isdigit c"

definition isspace :: "char \<Rightarrow> bool" where
  [cclass]: "isspace c \<longleftrightarrow> code_of c = 32 \<or> (9 \<le> code_of c \<and> code_of c \<le> 13)"

definition isxdigit :: "char \<Rightarrow> bool" where
  [cclass]: "isxdigit c \<longleftrightarrow> isdigit c \<or> (65 \<le> code_of c \<and> code_of c \<le> 70)
                         \<or> (97 \<le> code_of c \<and> code_of c \<le> 102)"

definition c_tolower :: "char \<Rightarrow> char" where
  [cclass]: "c_tolower c = (if isupper c then char_of (code_of c + 32) else c)"

definition c_toupper :: "char \<Rightarrow> char" where
  [cclass]: "c_toupper c = (if islower c then char_of (code_of c - 32) else c)"

lemma code_of_less [simp]: "code_of c < 256"
  by (simp add: code_of_def of_char_def take_bit_eq_mod nat_of_char_less_256 [unfolded of_char_def])

text \<open>\<^verbatim>\<open>c - '0'\<close> for a decimal digit.\<close>

definition digit_val :: "char \<Rightarrow> int" where
  "digit_val c = int (code_of c) - 48"

text \<open>\<^verbatim>\<open>isdigit(c) ? c - '0' : tolower(c) - 'a' + 10\<close>, the alphanumeric digit of a based literal.\<close>

definition alnum_val :: "char \<Rightarrow> int" where
  "alnum_val c = (if isdigit c then int (code_of c) - 48
                  else int (code_of (c_tolower c)) - 97 + 10)"

lemma code_of_char_of [simp]: "n < 256 \<Longrightarrow> code_of (char_of n) = n"
  by (simp add: code_of_def)

lemma char_of_code_of [simp]: "char_of (code_of c) = c"
  by (simp add: code_of_def)

lemma code_of_inject [simp]: "code_of a = code_of b \<longleftrightarrow> a = b"
  by (simp add: code_of_def)

lemma digit_val_bounds: "isdigit c \<Longrightarrow> 0 \<le> digit_val c \<and> digit_val c \<le> 9"
  by (auto simp: digit_val_def cclass)

lemma alnum_val_bounds: "isalnum c \<Longrightarrow> 0 \<le> alnum_val c \<and> alnum_val c \<le> 35"
  by (auto simp: alnum_val_def cclass)

lemma c_tolower_idem [simp]: "c_tolower (c_tolower c) = c_tolower c"
  by (auto simp: cclass)

lemma c_tolower_isalpha [simp]: "isalpha (c_tolower c) \<longleftrightarrow> isalpha c"
  by (auto simp: cclass)

lemma c_tolower_isalnum [simp]: "isalnum (c_tolower c) \<longleftrightarrow> isalnum c"
  by (auto simp: cclass)

subsection \<open>The 64-bit signed type\<close>

definition INT64_MIN :: int where [int64_simps]: "INT64_MIN = -9223372036854775808"
definition INT64_MAX :: int where [int64_simps]: "INT64_MAX = 9223372036854775807"
definition INT32_MAX :: int where [int64_simps]: "INT32_MAX = 2147483647"
definition UINT32_MAX :: nat where [int64_simps]: "UINT32_MAX = 4294967295"

text \<open>Arithmetic on a 32-bit unsigned value.\<close>

definition u32 :: "nat \<Rightarrow> nat" where "u32 n = n mod 2 ^ 32"
definition u32_sub :: "nat \<Rightarrow> nat \<Rightarrow> nat" where "u32_sub a b = (a + 2 ^ 32 - b) mod 2 ^ 32"

lemma u32_id [simp]: "n \<le> UINT32_MAX \<Longrightarrow> u32 n = n"
  by (simp add: u32_def UINT32_MAX_def)

lemma u32_sub_id [simp]: "b \<le> a \<Longrightarrow> a \<le> UINT32_MAX \<Longrightarrow> u32_sub a b = a - b"
  by (simp add: u32_sub_def UINT32_MAX_def mod_if)

definition in64 :: "int \<Rightarrow> bool" where
  [int64_simps]: "in64 x \<longleftrightarrow> INT64_MIN \<le> x \<and> x \<le> INT64_MAX"

text \<open>C++ integer division and remainder truncate toward zero.\<close>

definition cdiv :: "int \<Rightarrow> int \<Rightarrow> int" where
  "cdiv a b = sgn a * sgn b * (\<bar>a\<bar> div \<bar>b\<bar>)"

definition cmod :: "int \<Rightarrow> int \<Rightarrow> int" where
  "cmod a b = a - cdiv a b * b"

lemma cdiv_nonneg [simp]: "0 \<le> a \<Longrightarrow> 0 < b \<Longrightarrow> cdiv a b = a div b"
  by (cases "a = 0") (auto simp: cdiv_def)

text \<open>The overflow-before-multiply guard the literal scanners use.\<close>

lemma le_zdiv_iff: "0 < b \<Longrightarrow> v \<le> a div b \<longleftrightarrow> v * b \<le> a" for a b v :: int
proof
  assume b: "0 < b" and "v \<le> a div b"
  then have "v * b \<le> a div b * b" by simp
  also have "\<dots> \<le> a" using b by (metis minus_mod_eq_div_mult pos_mod_sign le_add_same_cancel1 diff_le_eq)
  finally show "v * b \<le> a" .
next
  assume b: "0 < b" and "v * b \<le> a"
  then have "v * b div b \<le> a div b" by (intro zdiv_mono1)
  with b show "v \<le> a div b" by simp
qed

lemma mul_guard:
  fixes v d m b :: int
  assumes "0 < b" "d \<le> m"
  shows "v > cdiv (m - d) b \<longleftrightarrow> v * b + d > m"
proof -
  have "v \<le> (m - d) div b \<longleftrightarrow> v * b \<le> m - d"
    using assms by (simp add: le_zdiv_iff)
  then show ?thesis using assms by (simp add: not_le [symmetric]) arith
qed

subsection \<open>Binary search\<close>

text \<open>
  \<^verbatim>\<open>std::lower_bound\<close> and \<^verbatim>\<open>std::upper_bound\<close> halve the range until it is empty, moving right
  while \<open>p\<close> holds of the middle element; \<open>p\<close> is \<^verbatim>\<open>comp(*it, value)\<close> for the one and
  \<^verbatim>\<open>!comp(value, *it)\<close> for the other.  The answer is an index, the list's length for
  \<^verbatim>\<open>end()\<close>.
\<close>

function bsearch :: "('a \<Rightarrow> bool) \<Rightarrow> 'a list \<Rightarrow> nat \<Rightarrow> nat \<Rightarrow> nat" where
  "bsearch p xs first len =
     (if len = 0 then first
      else let half = len div 2; middle = first + half in
           if p (xs ! middle) then bsearch p xs (middle + 1) (len - half - 1)
           else bsearch p xs first half)"
  by pat_completeness auto
termination
  by (relation "measure (\<lambda>(p, xs, first, len). len)") auto

declare bsearch.simps [simp del]

definition lower_bound_by :: "('a \<Rightarrow> bool) \<Rightarrow> 'a list \<Rightarrow> nat" where
  "lower_bound_by less_than_key xs = bsearch less_than_key xs 0 (length xs)"

definition upper_bound_by :: "('a \<Rightarrow> bool) \<Rightarrow> 'a list \<Rightarrow> nat" where
  "upper_bound_by key_less_than xs = bsearch (\<lambda>x. \<not> key_less_than x) xs 0 (length xs)"

definition partitioned :: "('a \<Rightarrow> bool) \<Rightarrow> 'a list \<Rightarrow> bool" where
  "partitioned p xs \<longleftrightarrow> (\<forall>i j. i < j \<longrightarrow> j < length xs \<longrightarrow> p (xs ! j) \<longrightarrow> p (xs ! i))"

lemma bsearch_partition_point:
  assumes "partitioned p xs" "first + len \<le> length xs"
    and "\<forall>i < first. p (xs ! i)"
    and "\<forall>i. first + len \<le> i \<longrightarrow> i < length xs \<longrightarrow> \<not> p (xs ! i)"
  shows "bsearch p xs first len \<le> length xs
       \<and> (\<forall>i < bsearch p xs first len. p (xs ! i))
       \<and> (\<forall>i. bsearch p xs first len \<le> i \<longrightarrow> i < length xs \<longrightarrow> \<not> p (xs ! i))"
  using assms
proof (induction p xs first len rule: bsearch.induct)
  case (1 p xs first len)
  let ?h = "len div 2" and ?m = "first + len div 2"
  show ?case
  proof (cases "len = 0")
    case True
    with "1.prems" show ?thesis by (simp add: bsearch.simps [of p xs first 0])
  next
    case False
    then have m: "?m < length xs" using "1.prems"(2) by simp
    show ?thesis
    proof (cases "p (xs ! ?m)")
      case True
      have "\<forall>i < ?m + 1. p (xs ! i)"
        using True "1.prems"(1) m by (auto simp: partitioned_def less_Suc_eq)
      moreover have r: "?m + 1 + (len - ?h - 1) = first + len" using False by simp
      ultimately have "?m + 1 + (len - ?h - 1) \<le> length xs" "\<forall>i < ?m + 1. p (xs ! i)"
          "\<forall>i. ?m + 1 + (len - ?h - 1) \<le> i \<longrightarrow> i < length xs \<longrightarrow> \<not> p (xs ! i)"
        using "1.prems"(2,4) unfolding r by auto
      note IH = "1.IH"(1) [OF False refl refl True "1.prems"(1) this]
      have eq: "bsearch p xs first len = bsearch p xs (?m + 1) (len - ?h - 1)"
        using False True by (subst bsearch.simps) (simp add: Let_def)
      show ?thesis unfolding eq by (rule IH)
    next
      case np: False
      have "\<forall>i. first + ?h \<le> i \<longrightarrow> i < length xs \<longrightarrow> \<not> p (xs ! i)"
        using np "1.prems"(1) by (auto simp: partitioned_def le_less)
      note IH = "1.IH"(2) [OF False refl refl np "1.prems"(1) less_imp_le [OF m] "1.prems"(3) this]
      have eq: "bsearch p xs first len = bsearch p xs first ?h"
        using False np by (subst bsearch.simps) (simp add: Let_def)
      show ?thesis unfolding eq by (rule IH)
    qed
  qed
qed

lemma partition_point_unique:
  assumes "k \<le> length xs" "\<forall>i < k. p (xs ! i)"
    and "\<forall>i. k \<le> i \<longrightarrow> i < length xs \<longrightarrow> \<not> p (xs ! i)"
  shows "k = length (takeWhile p xs)"
proof -
  have "take k xs = takeWhile p xs"
    using assms by (intro takeWhile_eq_take_P_nth [symmetric]) auto
  with assms(1) show ?thesis by (metis length_take min.absorb2)
qed

theorem bsearch_takeWhile:
  assumes "partitioned p xs"
  shows "bsearch p xs 0 (length xs) = length (takeWhile p xs)"
proof -
  have "bsearch p xs 0 (length xs) \<le> length xs
      \<and> (\<forall>i < bsearch p xs 0 (length xs). p (xs ! i))
      \<and> (\<forall>i. bsearch p xs 0 (length xs) \<le> i \<longrightarrow> i < length xs \<longrightarrow> \<not> p (xs ! i))"
    using assms by (intro bsearch_partition_point) auto
  then show ?thesis by (intro partition_point_unique) auto
qed

lemma lower_bound_by_eq:
  "partitioned p xs \<Longrightarrow> lower_bound_by p xs = length (takeWhile p xs)"
  by (simp add: lower_bound_by_def bsearch_takeWhile)

lemma upper_bound_by_eq:
  "partitioned (\<lambda>x. \<not> q x) xs \<Longrightarrow> upper_bound_by q xs = length (takeWhile (\<lambda>x. \<not> q x) xs)"
  by (simp add: upper_bound_by_def bsearch_takeWhile)

text \<open>A list sorted by a key is partitioned by every threshold on the key.\<close>

lemma sorted_partitioned_less:
  "sorted_wrt (<) (map f xs) \<Longrightarrow> partitioned (\<lambda>x. f x < (k::'b::linorder)) xs"
  by (fastforce simp: partitioned_def sorted_wrt_iff_nth_less dest: less_trans)

lemma sorted_partitioned_le:
  "sorted_wrt (<) (map f xs) \<Longrightarrow> partitioned (\<lambda>x. \<not> (k::'b::linorder) < f x) xs"
  by (fastforce simp: partitioned_def sorted_wrt_iff_nth_less dest: less_trans)

subsection \<open>Scanning loops and raw copies\<close>

text \<open>\<^verbatim>\<open>while (Pos < Text.size() && p(Text[Pos])) ++Pos;\<close>\<close>

function advance_while :: "(char \<Rightarrow> bool) \<Rightarrow> bytes \<Rightarrow> nat \<Rightarrow> nat" where
  "advance_while p tx pos =
     (if pos < length tx \<and> p (tx ! pos) then advance_while p tx (pos + 1) else pos)"
  by pat_completeness auto
termination
  by (relation "measure (\<lambda>(p, tx, pos). length tx - pos)") auto

declare advance_while.simps [simp del]

lemma advance_while_takeWhile:
  "advance_while p tx pos = pos + length (takeWhile p (drop pos tx))"
proof (induction p tx pos rule: advance_while.induct)
  case (1 p tx pos)
  show ?case
  proof (cases "pos < length tx")
    case True
    then have "drop pos tx = tx ! pos # drop (pos + 1) tx"
      by (simp add: Cons_nth_drop_Suc)
    with "1.IH" True show ?thesis
      by (simp add: advance_while.simps [of p tx pos])
  next
    case False
    then show ?thesis by (simp add: advance_while.simps [of p tx pos])
  qed
qed

lemma advance_while_ge [simp]: "pos \<le> advance_while p tx pos"
  by (simp add: advance_while_takeWhile)

lemma advance_while_le: "pos \<le> length tx \<Longrightarrow> advance_while p tx pos \<le> length tx"
  using length_takeWhile_le [of p "drop pos tx"] by (simp add: advance_while_takeWhile)

lemma advance_while_gt:
  "pos < length tx \<Longrightarrow> p (tx ! pos) \<Longrightarrow> pos < advance_while p tx pos"
  by (subst advance_while.simps) (simp add: less_le_trans [OF _ advance_while_ge] less_eq_Suc_le)

text \<open>\<^verbatim>\<open>text.substr(from, to - from)\<close> for \<open>from \<le> to\<close>.\<close>

definition substr :: "bytes \<Rightarrow> nat \<Rightarrow> nat \<Rightarrow> bytes" where
  "substr tx i j = take (j - i) (drop i tx)"

lemma substr_advance_while: "substr tx pos (advance_while p tx pos) = takeWhile p (drop pos tx)"
  by (simp add: substr_def advance_while_takeWhile takeWhile_eq_take [symmetric])

text \<open>\<^verbatim>\<open>memcpy(dst + off, bs, |bs|)\<close> into a buffer of fixed size.\<close>

definition memcpy_at :: "'a list \<Rightarrow> nat \<Rightarrow> 'a list \<Rightarrow> 'a list" where
  "memcpy_at dst off bs = take off dst @ bs @ drop (off + length bs) dst"

lemma length_memcpy_at [simp]:
  "off + length bs \<le> length dst \<Longrightarrow> length (memcpy_at dst off bs) = length dst"
  by (simp add: memcpy_at_def)

lemma replicate_2: "replicate 2 x = [x, x]"
  by (simp add: numeral_2_eq_2)

lemma memcpy_at_Nil [simp]: "memcpy_at dst off [] = dst"
  by (simp add: memcpy_at_def)

lemma take_memcpy_at_0 [simp]: "take (length bs) (memcpy_at dst 0 bs) = bs"
  by (simp add: memcpy_at_def)

lemma take_take_append: "take n (take n xs @ ys) = take n (xs @ ys)"
  by (cases "n \<le> length xs") auto

lemma take_nat_min: "take (nat (min a b)) xs = take (nat b) (take (nat a) xs)"
  by (cases "a \<le> b") (simp_all add: min.absorb1 min.absorb2 nat_mono)

end
