(* ===== verification/Arith.thy ===== *)
theory Arith
  imports Prelude
begin

text \<open>
  The integer helpers of \<^verbatim>\<open>include/plang/Basic/Arith.h\<close>, shared by the constant folders, the
  code generator and the runtime: Pascal's \<open>mod\<close>, checked addition, subtraction,
  multiplication and negation at a declared width, square-and-multiply \<open>pow\<close>, the number of
  values of an ordinal range, and the checked 64-bit product.

  A signed value is an \<^typ>\<open>int\<close> whose range is written out, because C++ leaves signed overflow
  undefined and \<^verbatim>\<open>__builtin_*_overflow\<close> reports it; an unsigned 64-bit value is a
  \<^typ>\<open>64 word\<close>, whose arithmetic wraps as C++ defines.  The interface \<open>checked_op\<close> states what a
  caller of a checked operation relies on and is interpreted on each of the three.
\<close>

subsection \<open>Definitions\<close>

definition isoMod :: "int \<Rightarrow> int \<Rightarrow> int" where
  "isoMod I J = (let R = cmod I J in if R < 0 then R + (if J < 0 then - J else J) else R)"

definition divOverflows :: "int \<Rightarrow> int \<Rightarrow> bool" where
  "divOverflows I J \<longleftrightarrow> J = -1 \<and> I = INT64_MIN"

definition narrowIntBounds :: "nat \<Rightarrow> bool \<Rightarrow> int \<times> int" where
  "narrowIntBounds Width Signed =
     (if \<not> Signed then (0, if Width \<ge> 64 then INT64_MAX else push_bit Width 1 - 1)
      else if Width \<ge> 64 then (INT64_MIN, INT64_MAX)
      else let Half = push_bit (Width - 1) 1 in (- Half, Half - 1))"

text \<open>\<^verbatim>\<open>__builtin_{add,sub,mul}_overflow\<close>: \<open>None\<close> where the exact result leaves \<^verbatim>\<open>int64_t\<close>.\<close>

definition builtin_overflow :: "int \<Rightarrow> int option" where
  "builtin_overflow exact = (if in64 exact then Some exact else None)"

definition narrow_check :: "nat \<Rightarrow> bool \<Rightarrow> int \<Rightarrow> int option" where
  "narrow_check Width Signed Result =
     (if Width < 64
      then (let (Lo, Hi) = narrowIntBounds Width Signed in
            if Result < Lo \<or> Result > Hi then None else Some Result)
      else Some Result)"

definition checkedAdd :: "int \<Rightarrow> int \<Rightarrow> nat \<Rightarrow> bool \<Rightarrow> int option" where
  "checkedAdd L R Width Signed =
     (case builtin_overflow (L + R) of None \<Rightarrow> None | Some Result \<Rightarrow> narrow_check Width Signed Result)"

definition checkedSub :: "int \<Rightarrow> int \<Rightarrow> nat \<Rightarrow> bool \<Rightarrow> int option" where
  "checkedSub L R Width Signed =
     (case builtin_overflow (L - R) of None \<Rightarrow> None | Some Result \<Rightarrow> narrow_check Width Signed Result)"

definition checkedMul :: "int \<Rightarrow> int \<Rightarrow> nat \<Rightarrow> bool \<Rightarrow> int option" where
  "checkedMul L R Width Signed =
     (case builtin_overflow (L * R) of None \<Rightarrow> None | Some Result \<Rightarrow> narrow_check Width Signed Result)"

definition checkedNeg :: "int \<Rightarrow> nat \<Rightarrow> bool \<Rightarrow> int option" where
  "checkedNeg V Width Signed = checkedSub 0 V Width Signed"

text \<open>The loop of \<^verbatim>\<open>isoPow\<close>; \<open>Exp & 1\<close> and \<open>Exp >>= 1\<close> on a positive \<open>Exp\<close>.\<close>

function isoPow_loop :: "int \<Rightarrow> int \<Rightarrow> int \<Rightarrow> nat \<Rightarrow> bool \<Rightarrow> int option" where
  "isoPow_loop Result Base Exp Width Signed =
     (if Exp > 0 then
        (case (if odd Exp then checkedMul Result Base Width Signed else Some Result) of
           None \<Rightarrow> None
         | Some Result' \<Rightarrow>
             (let Exp' = Exp div 2 in
              if Exp' \<noteq> 0
              then (case checkedMul Base Base Width Signed of
                      None \<Rightarrow> None
                    | Some Base' \<Rightarrow> isoPow_loop Result' Base' Exp' Width Signed)
              else isoPow_loop Result' Base Exp' Width Signed))
      else Some Result)"
  by pat_completeness auto
termination
  by (relation "measure (\<lambda>(Result, Base, Exp, Width, Signed). nat Exp)") auto

definition isoPow :: "int \<Rightarrow> int \<Rightarrow> nat \<Rightarrow> bool \<Rightarrow> int option" where
  "isoPow Base Exp Width Signed = isoPow_loop 1 Base Exp Width Signed"

definition ordinalRangeCount :: "int \<Rightarrow> int \<Rightarrow> 64 word option" where
  "ordinalRangeCount Lo Hi =
     (if Hi < Lo then Some 0
      else let Diff = (word_of_int Hi :: 64 word) - word_of_int Lo in
           if Diff = - 1 then None else Some (Diff + 1))"

definition checkedMul64 :: "64 word \<Rightarrow> 64 word \<Rightarrow> 64 word option" where
  "checkedMul64 A B = (if A \<noteq> 0 \<and> B > (- 1) div A then None else Some (A * B))"

declare isoPow_loop.simps [simp del]

subsection \<open>The interface of a checked operation\<close>

text \<open>A value \<open>v\<close> is representable in a \<open>Width\<close>-bit ordinal of the given signedness.\<close>

definition fits :: "nat \<Rightarrow> bool \<Rightarrow> int \<Rightarrow> bool" where
  "fits Width Signed v \<longleftrightarrow>
     in64 v \<and> (Width < 64 \<longrightarrow> fst (narrowIntBounds Width Signed) \<le> v
                            \<and> v \<le> snd (narrowIntBounds Width Signed))"

locale checked_op =
  fixes exact :: "int \<Rightarrow> int \<Rightarrow> int"
    and checked :: "int \<Rightarrow> int \<Rightarrow> nat \<Rightarrow> bool \<Rightarrow> int option"
  assumes checked_eq: "checked L R W S = (if fits W S (exact L R) then Some (exact L R) else None)"
begin

lemma checked_Some_iff: "checked L R W S = Some v \<longleftrightarrow> v = exact L R \<and> fits W S v"
  by (auto simp: checked_eq)

lemma checked_None_iff: "checked L R W S = None \<longleftrightarrow> \<not> fits W S (exact L R)"
  by (auto simp: checked_eq)

lemma checked_fits: "checked L R W S = Some v \<Longrightarrow> fits W S v"
  by (auto simp: checked_Some_iff)

end

lemma narrow_check_eq:
  "narrow_check W S v =
     (if W < 64 \<longrightarrow> fst (narrowIntBounds W S) \<le> v \<and> v \<le> snd (narrowIntBounds W S)
      then Some v else None)"
  by (auto simp: narrow_check_def split: prod.splits)

lemma overflow_then_narrow:
  "(case builtin_overflow x of None \<Rightarrow> None | Some r \<Rightarrow> narrow_check W S r)
     = (if fits W S x then Some x else None)"
  by (auto simp: builtin_overflow_def narrow_check_eq fits_def)

interpretation add_op: checked_op "(+)" checkedAdd
  by unfold_locales (simp add: checkedAdd_def overflow_then_narrow)

interpretation sub_op: checked_op "(-)" checkedSub
  by unfold_locales (simp add: checkedSub_def overflow_then_narrow)

interpretation mul_op: checked_op "(*)" checkedMul
  by unfold_locales (simp add: checkedMul_def overflow_then_narrow)

text \<open>The widths the compiler stamps on an ordinal type.\<close>

definition ordinal_width :: "nat \<Rightarrow> bool" where
  "ordinal_width W \<longleftrightarrow> W = 8 \<or> W = 16 \<or> W = 32 \<or> W = 64"

definition lo_of :: "nat \<Rightarrow> bool \<Rightarrow> int" where "lo_of W S = fst (narrowIntBounds W S)"
definition hi_of :: "nat \<Rightarrow> bool \<Rightarrow> int" where "hi_of W S = snd (narrowIntBounds W S)"

lemma bounds_at_width:
  "lo_of 8 True = -128" "hi_of 8 True = 127" "lo_of 8 False = 0" "hi_of 8 False = 255"
  "lo_of 16 True = -32768" "hi_of 16 True = 32767" "lo_of 16 False = 0" "hi_of 16 False = 65535"
  "lo_of 32 True = -2147483648" "hi_of 32 True = 2147483647"
  "lo_of 32 False = 0" "hi_of 32 False = 4294967295"
  "lo_of 64 True = INT64_MIN" "hi_of 64 True = INT64_MAX"
  "lo_of 64 False = 0" "hi_of 64 False = INT64_MAX"
  by (simp_all add: lo_of_def hi_of_def narrowIntBounds_def push_bit_eq_mult Let_def)

text \<open>At the stamped widths, \<open>fits\<close> is the interval \<^const>\<open>narrowIntBounds\<close> names; the one
  exception is a 64-bit unsigned type, whose check is the signed \<^verbatim>\<open>int64_t\<close> one.\<close>

lemma fits_interval:
  assumes "ordinal_width W" "S \<or> W \<noteq> 64"
  shows "fits W S v \<longleftrightarrow> lo_of W S \<le> v \<and> v \<le> hi_of W S"
  using assms bounds_at_width
  by (cases S) (auto simp: ordinal_width_def fits_def lo_of_def hi_of_def int64_simps)

lemma fits_64: "fits 64 S v \<longleftrightarrow> in64 v"
  by (simp add: fits_def)

subsection \<open>Pascal's mod\<close>

text \<open>\<^const>\<open>isoMod\<close> computes the ISO 7185 \<open>mod\<close>: for every nonzero divisor the result is the
  Euclidean remainder, in the interval from 0 to one less than the divisor's magnitude, whatever the
  sign of the dividend.\<close>

theorem isoMod_euclidean:
  assumes "J \<noteq> 0"
  shows "isoMod I J = I mod \<bar>J\<bar> \<and> 0 \<le> isoMod I J \<and> isoMod I J < \<bar>J\<bar>"
proof -
  have r: "cmod I J = sgn I * (\<bar>I\<bar> mod \<bar>J\<bar>)"
  proof -
    have "cmod I J = sgn I * \<bar>I\<bar> - sgn I * (\<bar>I\<bar> div \<bar>J\<bar>) * (sgn J * J)"
      by (simp add: cmod_def cdiv_def abs_mult_sgn algebra_simps)
    also have "sgn J * J = \<bar>J\<bar>" by (simp add: abs_sgn mult.commute)
    finally show ?thesis
      by (simp add: minus_div_mult_eq_mod [symmetric] right_diff_distrib mult.assoc del: minus_div_mult_eq_mod)
  qed
  define m where "m = \<bar>I\<bar> mod \<bar>J\<bar>"
  have b: "0 \<le> m" "m < \<bar>J\<bar>" using assms by (simp_all add: m_def)
  have bounds: "0 \<le> isoMod I J" "isoMod I J < \<bar>J\<bar>"
    using b assms by (auto simp: isoMod_def r [folded m_def] sgn_if abs_if Let_def split: if_splits)
  have "\<bar>J\<bar> dvd I - cmod I J" by (simp add: cmod_def)
  moreover have "\<bar>J\<bar> dvd isoMod I J - cmod I J"
    by (auto simp: isoMod_def Let_def)
  ultimately have "\<bar>J\<bar> dvd (I - cmod I J) - (isoMod I J - cmod I J)" by (rule dvd_diff)
  then have "\<bar>J\<bar> dvd I - isoMod I J" by (simp only: diff_diff_eq2 diff_add_cancel)
  then have "I mod \<bar>J\<bar> = isoMod I J mod \<bar>J\<bar>" by (simp add: mod_eq_dvd_iff)
  with bounds show ?thesis by simp
qed

theorem isoMod_euclidean_witness:
  "isoMod (-17) 5 = 3 \<and> isoMod (-17) 5 = (-17) mod \<bar>5\<bar>"
  using isoMod_euclidean [of 5 "-17"] by (simp add: isoMod_def cmod_def cdiv_def)

subsection \<open>Checked arithmetic\<close>

text \<open>Checked addition, subtraction, multiplication and negation are exact: each answers the
  mathematical result where the declared type holds it and nothing otherwise, so a constant folder
  neither wraps nor refuses a representable constant.\<close>

theorem checked_arithmetic_exact:
  "checkedAdd L R W S = (if fits W S (L + R) then Some (L + R) else None)
   \<and> checkedSub L R W S = (if fits W S (L - R) then Some (L - R) else None)
   \<and> checkedMul L R W S = (if fits W S (L * R) then Some (L * R) else None)
   \<and> checkedNeg L W S = (if fits W S (- L) then Some (- L) else None)"
  by (simp add: checkedNeg_def add_op.checked_eq sub_op.checked_eq mul_op.checked_eq)

subsection \<open>Integer power\<close>

lemma nat_halves: "0 \<le> e \<Longrightarrow> nat e = 2 * nat (e div 2) + (if odd e then 1 else 0)" for e :: int
proof -
  assume "0 \<le> e"
  then obtain n where e: "e = int n" by (rule nonneg_int_cases)
  have "nat (e div 2) = n div 2" by (simp add: e zdiv_int [symmetric, of n 2, simplified])
  then show ?thesis by (auto simp: e elim!: oddE evenE)
qed

lemma pow_halve:
  "0 \<le> e \<Longrightarrow> r * b ^ nat e = (if odd e then r * b else r) * (b * b) ^ nat (e div 2)"
  for e r b :: int
  by (subst nat_halves) (simp_all add: power_add power_mult power2_eq_square algebra_simps)

text \<open>The interval facts square-and-multiply rests on: a value outside the type stays outside when it
  is scaled by a positive factor, and a square outside the type is beyond the bound on both sides,
  because no square is \<open>hi + 1\<close>.\<close>

locale ordinal_interval =
  fixes lo hi :: int
  assumes lo_nonpos: "lo \<le> 0" and hi_pos: "1 \<le> hi" and lo_hi: "- (hi + 1) \<le> lo"
    and not_square: "lo \<noteq> 0 \<Longrightarrow> b * b \<noteq> hi + 1"
begin

lemma unfit_scale:
  assumes "\<not> (lo \<le> x \<and> x \<le> hi)" "1 \<le> m"
  shows "\<not> (lo \<le> x * m \<and> x * m \<le> hi)"
proof (cases "x > hi")
  case True
  then have "x * 1 \<le> x * m" using assms(2) hi_pos by (intro mult_left_mono) auto
  with True show ?thesis by auto
next
  case False
  with assms have x: "x < lo" by auto
  then have "x * m \<le> x * 1" using assms(2) lo_nonpos by (intro mult_left_mono_neg) auto
  with x show ?thesis by auto
qed

lemma unfit_square:
  assumes "\<not> (lo \<le> b * b \<and> b * b \<le> hi)" "r \<noteq> 0" "lo \<le> r" "k > 0"
  shows "\<not> (lo \<le> r * (b * b) ^ k \<and> r * (b * b) ^ k \<le> hi)"
proof -
  have sq: "b * b \<ge> hi + 1"
    using assms(1) lo_nonpos zero_le_square [of b] by linarith
  then have "1 \<le> (b * b) ^ k" using hi_pos by (intro one_le_power) linarith
  moreover have "(b * b) * 1 \<le> (b * b) ^ k"
  proof -
    obtain j where k: "k = Suc j" using \<open>k > 0\<close> by (cases k) auto
    have "1 \<le> (b * b) ^ j" using sq hi_pos by (intro one_le_power) linarith
    then have "(b * b) * 1 \<le> (b * b) * (b * b) ^ j" by (intro mult_left_mono) auto
    then show ?thesis by (simp add: k)
  qed
  ultimately have p: "hi + 1 \<le> (b * b) ^ k" using sq by linarith
  show ?thesis
  proof (cases "r > 0")
    case True
    then have "1 * (b * b) ^ k \<le> r * (b * b) ^ k" using p hi_pos by (intro mult_right_mono) auto
    with p show ?thesis by linarith
  next
    case False
    with assms(2,3) have r: "r \<le> -1" and lo0: "lo \<noteq> 0" by auto
    from not_square [OF lo0, of b] sq have "b * b > hi + 1" by linarith
    then have "(b * b) ^ k > hi + 1" using \<open>(b * b) * 1 \<le> (b * b) ^ k\<close> by linarith
    moreover have "r * (b * b) ^ k \<le> (-1) * (b * b) ^ k"
      using r p hi_pos by (intro mult_right_mono) auto
    ultimately show ?thesis using lo_hi by linarith
  qed
qed

end

text \<open>Square-and-multiply, from any loop state.\<close>

lemma isoPow_loop_0 [simp]: "isoPow_loop r b 0 W S = Some r"
  by (simp add: isoPow_loop.simps)

lemma isoPow_loop_pos:
  assumes "0 < e" "fits W S r"
  shows "isoPow_loop r b e W S =
           (let R = (if odd e then r * b else r) in
            if \<not> fits W S R then None
            else if e div 2 = 0 then Some R
            else if fits W S (b * b) then isoPow_loop R (b * b) (e div 2) W S else None)"
  using assms by (subst isoPow_loop.simps) (auto simp: mul_op.checked_eq Let_def)

context ordinal_interval
begin

lemma isoPow_loop_exact:
  assumes F: "\<And>v. fits W S v \<longleftrightarrow> lo \<le> v \<and> v \<le> hi"
    and "fits W S b" "fits W S r" "b = 0 \<or> r \<noteq> 0" "0 \<le> e"
  shows "isoPow_loop r b e W S =
           (if fits W S (r * b ^ nat e) then Some (r * b ^ nat e) else None)"
  using assms(2-)
proof (induction "nat e" arbitrary: r b e rule: less_induct)
  case less
  let ?T = "r * b ^ nat e" and ?R = "if odd e then r * b else r"
  have F0: "fits W S 0" using F [of 0] lo_nonpos hi_pos by simp
  have T: "?T = ?R * (b * b) ^ nat (e div 2)" using less.prems(4) by (rule pow_halve)
  have Rz: "b = 0 \<or> ?R \<noteq> 0" using less.prems(3) by auto
  consider "e = 0" | (unfit) "0 < e" "\<not> fits W S ?R" | (last) "0 < e" "fits W S ?R" "e div 2 = 0"
    | (unfitB) "0 < e" "fits W S ?R" "0 < e div 2" "\<not> fits W S (b * b)"
    | (step) "0 < e" "fits W S ?R" "0 < e div 2" "fits W S (b * b)"
    using less.prems(4) by fastforce
  then show ?case
  proof cases
    case 1
    with less.prems(2) show ?thesis by simp
  next
    case unfit
    then have "b \<noteq> 0" using less.prems(2) F0 by (metis mult_zero_right)
    then have "1 \<le> (b * b) ^ nat (e div 2)"
      by (intro one_le_power) (simp add: int_one_le_iff_zero_less zero_less_mult_iff, linarith)
    from unfit_scale [OF _ this, of ?R] have "\<not> fits W S ?T"
      using unfit(2) F unfolding T by blast
    with unfit less.prems(2) show ?thesis by (simp add: isoPow_loop_pos Let_def)
  next
    case last
    with T less.prems(2) show ?thesis by (simp add: isoPow_loop_pos Let_def)
  next
    case unfitB
    then have "b \<noteq> 0" using F0 by auto
    then have "\<not> fits W S ?T"
      using unfit_square [of b ?R "nat (e div 2)"] unfitB Rz F unfolding T by simp
    with unfitB less.prems(2) show ?thesis by (simp add: isoPow_loop_pos Let_def)
  next
    case step
    have "isoPow_loop ?R (b * b) (e div 2) W S = (if fits W S ?T then Some ?T else None)"
      unfolding T using step Rz by (intro less.hyps) auto
    with step less.prems(2) show ?thesis by (simp add: isoPow_loop_pos Let_def)
  qed
qed

end

lemma not_square_between: "a * a < n \<Longrightarrow> n < (a + 1) * (a + 1) \<Longrightarrow> 0 \<le> a \<Longrightarrow> b * b \<noteq> n"
  for a b n :: int
proof
  assume a: "a * a < n" "n < (a + 1) * (a + 1)" "0 \<le> a" and "b * b = n"
  then have "a * a < \<bar>b\<bar> * \<bar>b\<bar>" "\<bar>b\<bar> * \<bar>b\<bar> < (a + 1) * (a + 1)"
    by (simp_all flip: abs_mult)
  then have "a < \<bar>b\<bar>" "\<bar>b\<bar> < a + 1"
    using a(3) power2_less_imp_less [of a "\<bar>b\<bar>"] power2_less_imp_less [of "\<bar>b\<bar>" "a + 1"]
    by (simp_all only: power2_eq_square)
  then show False by linarith
qed

interpretation int8: ordinal_interval "-128" 127
  by unfold_locales (simp_all add: not_square_between [of 11])
interpretation int16: ordinal_interval "-32768" 32767
  by unfold_locales (simp_all add: not_square_between [of 181])
interpretation int32: ordinal_interval "-2147483648" 2147483647
  by unfold_locales (simp_all add: not_square_between [of 46340])
interpretation int64: ordinal_interval "INT64_MIN" "INT64_MAX"
  by unfold_locales (simp_all add: int64_simps not_square_between [of 3037000499])
interpretation uint8: ordinal_interval 0 255 by unfold_locales simp_all
interpretation uint16: ordinal_interval 0 65535 by unfold_locales simp_all
interpretation uint32: ordinal_interval 0 4294967295 by unfold_locales simp_all

lemma isoPow_loop_exact_64:
  "fits 64 S Base \<Longrightarrow> fits 64 S Result \<Longrightarrow> Base = 0 \<or> Result \<noteq> 0 \<Longrightarrow> 0 \<le> Exp \<Longrightarrow>
   isoPow_loop Result Base Exp 64 S =
     (if fits 64 S (Result * Base ^ nat Exp) then Some (Result * Base ^ nat Exp) else None)"
  by (rule int64.isoPow_loop_exact) (simp_all add: fits_64 in64_def)

lemma isoPow_loop_exact_narrow:
  assumes "W = 8 \<or> W = 16 \<or> W = 32" "fits W S Base" "0 \<le> Exp"
  shows "isoPow_loop 1 Base Exp W S =
           (if fits W S (Base ^ nat Exp) then Some (Base ^ nat Exp) else None)"
proof -
  have F: "fits W S v \<longleftrightarrow> lo_of W S \<le> v \<and> v \<le> hi_of W S" for v
    using assms(1) by (intro fits_interval) (auto simp: ordinal_width_def)
  have "ordinal_interval (lo_of W S) (hi_of W S)"
    using assms(1) int8.ordinal_interval_axioms int16.ordinal_interval_axioms
      int32.ordinal_interval_axioms uint8.ordinal_interval_axioms
      uint16.ordinal_interval_axioms uint32.ordinal_interval_axioms
    by (cases S) (auto simp: bounds_at_width)
  moreover have "fits W S 1" unfolding F using assms(1) by (cases S) (auto simp: bounds_at_width)
  ultimately show ?thesis
    using ordinal_interval.isoPow_loop_exact [of "lo_of W S" "hi_of W S" W S Base 1 Exp] F assms
    by simp
qed

text \<open>Integer \<open>pow\<close> by squaring is exact at every width the compiler stamps: for a base of the
  type and a nonnegative exponent the loop answers the mathematical power where the type holds it
  and nothing where it does not; an intermediate square that overflows is never a false alarm.\<close>

theorem isoPow_exact:
  assumes "ordinal_width W" "fits W S Base" "0 \<le> Exp"
  shows "isoPow Base Exp W S =
           (if fits W S (Base ^ nat Exp) then Some (Base ^ nat Exp) else None)"
  using assms isoPow_loop_exact_64 [of S Base 1 Exp] isoPow_loop_exact_narrow [of W S Base Exp]
  by (auto simp: ordinal_width_def isoPow_def fits_64 int64_simps)

theorem isoPow_exact_witness:
  "isoPow (-2) 63 64 True = Some (- (2 ^ 63)) \<and> isoPow 2 63 64 True = None
   \<and> isoPow 181 2 16 True = Some 32761 \<and> isoPow 182 2 16 True = None"
  using isoPow_exact [of 64 True "-2" 63] isoPow_exact [of 64 True 2 63]
    isoPow_exact [of 16 True 181 2] isoPow_exact [of 16 True 182 2]
  by (simp add: ordinal_width_def fits_64 fits_interval bounds_at_width int64_simps)

subsection \<open>Counting and multiplying extents\<close>

text \<open>The number of values of an ordinal range is exact: it is computed on the two's-complement
  patterns of the bounds, yet it is the true count for every pair of bounds, and it is refused only
  for the one count, two to the power 64, that the unsigned type cannot hold.\<close>

theorem ordinalRangeCount_exact:
  assumes "in64 Lo" "in64 Hi"
  shows "case ordinalRangeCount Lo Hi of
           Some n \<Rightarrow> uint n = max 0 (Hi - Lo + 1)
         | None \<Rightarrow> Hi - Lo + 1 = 2 ^ 64"
proof (cases "Hi < Lo")
  case True
  then show ?thesis by (simp add: ordinalRangeCount_def)
next
  case False
  let ?d = "(word_of_int Hi :: 64 word) - word_of_int Lo"
  have d: "uint ?d = Hi - Lo"
    using False assms by (simp add: uint_word_of_int int64_simps flip: of_int_diff)
  show ?thesis
  proof (cases "?d = - 1")
    case True
    then have "uint ?d = 2 ^ 64 - 1" by (simp add: unsigned_minus_1_eq_mask mask_eq_exp_minus_1)
    with d True False show ?thesis by (simp add: ordinalRangeCount_def)
  next
    case neq: False
    then have "uint ?d \<noteq> 2 ^ 64 - 1"
      unfolding word_uint_eq_iff by (simp add: unsigned_minus_1_eq_mask mask_eq_exp_minus_1)
    then have "Hi - Lo + 1 < 2 ^ 64" using d uint_lt2p [of ?d] by simp
    then have "uint (?d + 1) = Hi - Lo + 1"
      using d False by (simp add: uint_word_ariths)
    with neq False show ?thesis by (simp add: ordinalRangeCount_def)
  qed
qed

theorem ordinalRangeCount_exact_witness:
  "(case ordinalRangeCount 0 INT64_MAX of Some n \<Rightarrow> uint n = 2 ^ 63 | None \<Rightarrow> False)
   \<and> ordinalRangeCount INT64_MIN INT64_MAX = None"
  using ordinalRangeCount_exact [of 0 INT64_MAX] ordinalRangeCount_exact [of INT64_MIN INT64_MAX]
  by (simp add: int64_simps ordinalRangeCount_def)

text \<open>The checked 64-bit product answers the exact product or nothing: the division test made
  before the multiplication refuses precisely the products of two to the power 64 and above.\<close>

lemma checkedMul64_exact:
  "case checkedMul64 A B of
     Some p \<Rightarrow> uint p = uint A * uint B
   | None \<Rightarrow> uint A * uint B \<ge> 2 ^ 64"
proof -
  have m: "uint ((- 1) div A) = (2 ^ 64 - 1) div uint A"
    by (simp add: uint_div unsigned_minus_1_eq_mask mask_eq_exp_minus_1)
  show ?thesis
  proof (cases "A = 0")
    case True
    then show ?thesis by (simp add: checkedMul64_def)
  next
    case False
    then have pos: "0 < uint A" by (simp add: uint_0_iff word_neq_0_conv [symmetric] order_less_le)
    have "B > (- 1) div A \<longleftrightarrow> \<not> uint B * uint A \<le> 2 ^ 64 - 1"
      using pos by (simp add: word_less_def m not_le [symmetric] le_zdiv_iff)
    with False show ?thesis
      by (auto simp: checkedMul64_def uint_word_ariths mult.commute)
  qed
qed

end
