(* ===== verification/Math_Runtime.thy ===== *)
theory Math_Runtime
  imports Arith
begin

text \<open>
  The integer side of \<^verbatim>\<open>runtime/plang_math.cpp\<close>: \<open>abs\<close>, \<open>pow\<close> and \<open>sqr\<close> with the
  run-time errors of each, and Turbo's \<open>Random\<close> with its 32-bit generator.  A fatal error is a value
  of \<open>math_error\<close>.  The functions on \<^verbatim>\<open>double\<close> wrap the C++ mathematics library and are not
  modelled.
\<close>

datatype math_error =
  AbsOverflow | IpowNegative int | IpowZeroZero | IpowOverflow int int | SqrOverflow int

definition plang_abs_int :: "int \<Rightarrow> math_error + int" where
  "plang_abs_int X = (if X = INT64_MIN then Inl AbsOverflow else Inr (if X < 0 then - X else X))"

function ipow_loop :: "int \<Rightarrow> int \<Rightarrow> int \<Rightarrow> int \<Rightarrow> int \<Rightarrow> math_error + int" where
  "ipow_loop Base Exp Result B E =
     (if E > 0 then
        (case (if odd E then builtin_overflow (Result * B) else Some Result) of
           None \<Rightarrow> Inl (IpowOverflow Base Exp)
         | Some Result' \<Rightarrow>
             (let E' = E div 2 in
              if E' \<noteq> 0 then
                (case builtin_overflow (B * B) of
                   None \<Rightarrow> Inl (IpowOverflow Base Exp)
                 | Some B' \<Rightarrow> ipow_loop Base Exp Result' B' E')
              else ipow_loop Base Exp Result' B E'))
      else Inr Result)"
  by pat_completeness auto
termination
  by (relation "measure (\<lambda>(Base, Exp, Result, B, E). nat E)") auto

declare ipow_loop.simps [simp del]

definition plang_ipow :: "int \<Rightarrow> int \<Rightarrow> math_error + int" where
  "plang_ipow Base Exp =
     (if Exp < 0 then Inl (IpowNegative Exp)
      else if Base = 0 \<and> Exp = 0 then Inl IpowZeroZero
      else ipow_loop Base Exp 1 Base Exp)"

definition plang_sqr_int :: "int \<Rightarrow> math_error + int" where
  "plang_sqr_int X = (case builtin_overflow (X * X) of None \<Rightarrow> Inl (SqrOverflow X) | Some r \<Rightarrow> Inr r)"

text \<open>The generator: unsigned 32-bit arithmetic wraps.\<close>

definition plangTpAdvanceRandSeed :: "32 word \<Rightarrow> 32 word" where
  "plangTpAdvanceRandSeed randseed = randseed * 1664525 + 1013904223"

text \<open>\<open>-rng\<close> of the least value is undefined in C++, so the function is modelled for every other
  value; the answer and the new seed.\<close>

definition plang_tp_random_range :: "int \<Rightarrow> 32 word \<Rightarrow> int \<times> 32 word" where
  "plang_tp_random_range rng randseed =
     (if rng = 0 then (0, randseed)
      else let S = plangTpAdvanceRandSeed randseed; Neg = (rng < 0);
               AbsRng = (word_of_int (if Neg then - rng else rng) :: 64 word);
               Magnitude = uint (drop_bit 32 ((ucast S :: 64 word) * AbsRng)) in
           (if Neg then - Magnitude else Magnitude, S))"

definition plang_tp_randomize :: "32 word \<Rightarrow> 32 word \<Rightarrow> 32 word" where
  "plang_tp_randomize Sec Nsec = (Sec * 2654435761) XOR Nsec"

subsection \<open>Powers\<close>

lemma ipow_loop_isoPow:
  "ipow_loop Base Exp r b e = (case isoPow_loop r b e 64 True of None \<Rightarrow> Inl (IpowOverflow Base Exp) | Some v \<Rightarrow> Inr v)"
proof (induction Base Exp r b e rule: ipow_loop.induct)
  case (1 Base Exp r b e)
  then show ?case
    by (subst ipow_loop.simps, subst isoPow_loop.simps)
      (auto simp: checkedMul_def narrow_check_def Let_def split: option.splits)
qed

subsection \<open>Random numbers\<close>

lemma scaled_below:
  fixes S :: "32 word" and A :: "64 word"
  assumes "0 < uint A"
  shows "uint (drop_bit 32 ((ucast S :: 64 word) * A)) < uint A"
proof -
  have s: "uint (ucast S :: 64 word) < 2 ^ 32"
    using uint_lt2p [of S] by (simp add: uint_up_ucast is_up)
  have eq: "uint (drop_bit 32 ((ucast S :: 64 word) * A)) = uint ((ucast S :: 64 word) * A) div 2 ^ 32"
    by (simp add: drop_bit_eq_div uint_div)
  show ?thesis
  proof (cases "uint A \<le> 2 ^ 32")
    case True
    have "uint (ucast S :: 64 word) * uint A < 2 ^ 32 * uint A" using s assms by simp
    moreover have "uint ((ucast S :: 64 word) * A) \<le> uint (ucast S :: 64 word) * uint A"
      by (simp add: uint_word_ariths zmod_le_nonneg_dividend)
    ultimately show ?thesis unfolding eq by (simp add: div_less_iff_less_mult mult.commute)
  next
    case False
    have "uint ((ucast S :: 64 word) * A) < 2 ^ 64" using uint_lt2p [of "(ucast S :: 64 word) * A"] by simp
    then have "uint ((ucast S :: 64 word) * A) div 2 ^ 32 < 2 ^ 32" by (simp add: div_less_iff_less_mult)
    then show ?thesis using False unfolding eq by simp
  qed
qed

text \<open>The run-time integer functions answer the mathematical value exactly when 64 signed bits hold it
  and stop with their own error otherwise; \<open>pow\<close> gives what the compiler folds the same power to, and
  refuses a negative exponent and \<open>0 pow 0\<close>.\<close>

theorem runtime_integer_functions:
  assumes "in64 X" "in64 E"
  shows "plang_abs_int X = (if in64 \<bar>X\<bar> then Inr \<bar>X\<bar> else Inl AbsOverflow)
     \<and> plang_sqr_int X = (if in64 (X * X) then Inr (X * X) else Inl (SqrOverflow X))
     \<and> plang_ipow X E =
         (if E < 0 then Inl (IpowNegative E) else if X = 0 \<and> E = 0 then Inl IpowZeroZero
          else if in64 (X ^ nat E) then Inr (X ^ nat E) else Inl (IpowOverflow X E))
     \<and> (0 \<le> E \<and> \<not> (X = 0 \<and> E = 0) \<longrightarrow> isoPow X E 64 True = (case plang_ipow X E of Inr v \<Rightarrow> Some v | Inl _ \<Rightarrow> None))"
proof -
  have iso: "0 \<le> E \<Longrightarrow> isoPow_loop 1 X E 64 True = (if in64 (X ^ nat E) then Some (X ^ nat E) else None)"
    using isoPow_loop_exact_64 [of True X 1 E] assms(1) by (simp add: fits_64 in64_def int64_simps)
  have abs: "plang_abs_int X = (if in64 \<bar>X\<bar> then Inr \<bar>X\<bar> else Inl AbsOverflow)"
    using assms(1) by (auto simp: plang_abs_int_def in64_def int64_simps)
  show ?thesis
    using iso abs by (auto simp: plang_sqr_int_def builtin_overflow_def plang_ipow_def ipow_loop_isoPow isoPow_def)
qed

theorem runtime_integer_functions_witness:
  "plang_abs_int (- 9223372036854775808) = Inl AbsOverflow \<and> plang_ipow (-2) 63 = Inr (- 9223372036854775808)
   \<and> plang_ipow 2 63 = Inl (IpowOverflow 2 63)"
  using runtime_integer_functions [of "- 9223372036854775808" 0] runtime_integer_functions [of "-2" 63]
    runtime_integer_functions [of 2 63]
  by (simp add: in64_def int64_simps)

text \<open>\<open>Random(n)\<close> is always inside its range: from 0 up to \<open>n\<close> exclusive for a positive \<open>n\<close>, from \<open>n\<close>
  exclusive up to 0 for a negative one, 0 with the generator at rest for 0; and the generator never
  merges two states, so its sequence has no dead end.\<close>

theorem random_in_range:
  assumes "in64 n" "n \<noteq> INT64_MIN" "plang_tp_random_range n seed = (r, seed')"
  shows "(0 < n \<longrightarrow> 0 \<le> r \<and> r < n) \<and> (n < 0 \<longrightarrow> n < r \<and> r \<le> 0) \<and> (n = 0 \<longrightarrow> r = 0 \<and> seed' = seed)
     \<and> inj plangTpAdvanceRandSeed"
proof -
  have u: "uint (word_of_int m :: 64 word) = m" if "0 \<le> m" "m \<le> INT64_MAX" for m
    using that by (simp add: int64_simps uint_word_of_int)
  have "inj plangTpAdvanceRandSeed"
  proof (rule injI)
    fix a b :: "32 word"
    assume "plangTpAdvanceRandSeed a = plangTpAdvanceRandSeed b"
    then have "a * 1664525 * 4276115653 = b * 1664525 * 4276115653" by (simp only: plangTpAdvanceRandSeed_def add_right_cancel)
    moreover have one: "(1664525 :: 32 word) * 4276115653 = 1" by simp
    have "x * 1664525 * 4276115653 = x" for x :: "32 word" by (simp only: mult.assoc one mult_1_right)
    ultimately show "a = b" by (simp only:)
  qed
  moreover have "0 < n \<longrightarrow> 0 \<le> r \<and> r < n"
    using scaled_below [of "word_of_int n" "plangTpAdvanceRandSeed seed"] u [of n] assms
    by (auto simp: plang_tp_random_range_def Let_def in64_def)
  moreover have "n < 0 \<longrightarrow> n < r \<and> r \<le> 0"
    using scaled_below [of "word_of_int (- n)" "plangTpAdvanceRandSeed seed"] u [of "- n"] assms
    by (auto simp: plang_tp_random_range_def Let_def in64_def int64_simps)
  moreover have "n = 0 \<longrightarrow> r = 0 \<and> seed' = seed" using assms(3) by (auto simp: plang_tp_random_range_def)
  ultimately show ?thesis by blast
qed

theorem random_in_range_witness:
  "fst (plang_tp_random_range 6 0) < 6 \<and> fst (plang_tp_random_range (-6) 0) > -6"
  using random_in_range [of 6 0] random_in_range [of "-6" 0] by (simp add: in64_def int64_simps prod_eq_iff)

end
