(* ===== verification/String_Spec.thy ===== *)
theory String_Spec
  imports Prelude
begin

text \<open>
  What the two string runtimes promise their callers, as interfaces.

  \<^item> \<open>bounded_string\<close>: a string variable holds a content of bounded length, and concatenation into a
    destination is the concatenation of the contents cut at the destination's limit.  The chain lemma
    is what the compiler relies on when it lowers \<open>Concat\<close> and a run of \<open>+\<close> into a sequence of
    two-operand calls from an empty accumulator.
  \<^item> \<open>byte_order\<close>: a three-way comparison decided at the first position where two strings differ, each
    string read as an infinite sequence of codes.  What a string reads past its end is the dialect's
    choice: below every character for Turbo's \<open>string[N]\<close>, a space for Extended Pascal's
    \<open>string(N)\<close>.
\<close>

locale bounded_string =
  fixes content :: "'s \<Rightarrow> bytes"
    and wf :: "int \<Rightarrow> 's \<Rightarrow> bool"
    and limit :: "int \<Rightarrow> nat"
    and cat :: "'s \<Rightarrow> int \<Rightarrow> 's \<Rightarrow> 's \<Rightarrow> 's"
  assumes content_bound: "wf cap s \<Longrightarrow> length (content s) \<le> limit cap"
    and content_cat: "wf cap d \<Longrightarrow> wf ca a \<Longrightarrow> wf cb b \<Longrightarrow>
                      content (cat d cap a b) = take (limit cap) (content a @ content b)"
    and wf_cat: "wf cap d \<Longrightarrow> wf ca a \<Longrightarrow> wf cb b \<Longrightarrow> wf cap (cat d cap a b)"
begin

lemma cat_fits:
  "wf cap d \<Longrightarrow> wf ca a \<Longrightarrow> wf cb b \<Longrightarrow> length (content a) + length (content b) \<le> limit cap \<Longrightarrow>
   content (cat d cap a b) = content a @ content b"
  by (simp add: content_cat)

lemma cat_assoc:
  assumes "wf cap d" "wf cap e" "wf ca a" "wf cb b" "wf cc c"
  shows "content (cat d cap (cat e cap a b) c) = take (limit cap) (content a @ content b @ content c)"
proof -
  have "wf cap (cat e cap a b)" using assms(2-4) by (rule wf_cat)
  with assms show ?thesis by (simp add: content_cat take_take_append del: take_append)
qed

lemma chain:
  assumes "wf cap d" "wf cap acc" "\<forall>x \<in> set xs. \<exists>c. wf c x"
  shows "wf cap (foldl (cat d cap) acc xs)
       \<and> content (foldl (cat d cap) acc xs)
           = take (limit cap) (content acc @ concat (map content xs))"
  using assms(2,3)
proof (induction xs arbitrary: acc)
  case Nil
  then show ?case using content_bound by simp
next
  case (Cons x xs)
  then obtain c where c: "wf c x" by auto
  have w: "wf cap (cat d cap acc x)" using assms(1) Cons.prems(1) c by (rule wf_cat)
  have "content (cat d cap acc x) = take (limit cap) (content acc @ content x)"
    using assms(1) Cons.prems(1) c by (rule content_cat)
  then show ?case using Cons.IH [OF w] Cons.prems(2) 
    by (metis append_assoc concat.simps(2) foldl_Cons list.set_intros(2) list.simps(9) take_take_append)
qed

end

locale byte_order =
  fixes at :: "'s \<Rightarrow> nat \<Rightarrow> int"
    and cmp :: "'s \<Rightarrow> 's \<Rightarrow> int"
  assumes cmp_zero: "cmp a b = 0 \<longleftrightarrow> (\<forall>i. at a i = at b i)"
    and cmp_neg: "cmp a b < 0 \<longleftrightarrow> (\<exists>i. (\<forall>j<i. at a j = at b j) \<and> at a i < at b i)"
begin

lemma first_difference:
  assumes "at a k \<noteq> at b k"
  obtains i where "\<forall>j<i. at a j = at b j" "at a i \<noteq> at b i"
  using that exists_least_iff [of "\<lambda>i. at a i \<noteq> at b i"] assms by blast

lemma cmp_pos: "cmp a b > 0 \<longleftrightarrow> cmp b a < 0"
proof
  assume pos: "cmp a b > 0"
  then have "\<not> cmp a b < 0" "cmp a b \<noteq> 0" by auto
  then obtain k where "at a k \<noteq> at b k" by (auto simp: cmp_zero)
  then obtain i where i: "\<forall>j<i. at a j = at b j" "at a i \<noteq> at b i" by (rule first_difference)
  with \<open>\<not> cmp a b < 0\<close> have "at b i < at a i" by (meson cmp_neg linorder_neqE)
  with i show "cmp b a < 0" unfolding cmp_neg by (intro exI [of _ i]) auto
next
  assume "cmp b a < 0"
  then obtain i where i: "\<forall>j<i. at b j = at a j" "at b i < at a i" by (auto simp: cmp_neg)
  have "\<not> cmp a b < 0"
  proof
    assume "cmp a b < 0"
    then obtain k where k: "\<forall>j<k. at a j = at b j" "at a k < at b k" by (auto simp: cmp_neg)
    from i k show False by (cases i k rule: linorder_cases) auto
  qed
  moreover have "cmp a b \<noteq> 0" using i(2) unfolding cmp_zero by (metis less_irrefl)
  ultimately show "cmp a b > 0" by simp
qed

lemma cmp_trans: "cmp a b < 0 \<Longrightarrow> cmp b c < 0 \<Longrightarrow> cmp a c < 0"
proof -
  assume "cmp a b < 0" "cmp b c < 0"
  then obtain i k where i: "\<forall>j<i. at a j = at b j" "at a i < at b i"
    and k: "\<forall>j<k. at b j = at c j" "at b k < at c k" by (auto simp: cmp_neg)
  have "\<forall>j < min i k. at a j = at c j" "at a (min i k) < at c (min i k)"
    using i k by (cases i k rule: linorder_cases, auto)+
  then show ?thesis unfolding cmp_neg by blast
qed

lemma cmp_le_trans: "cmp a b \<le> 0 \<Longrightarrow> cmp b c \<le> 0 \<Longrightarrow> cmp a c \<le> 0"
proof -
  have cong: "cmp x z < 0 \<longleftrightarrow> cmp y w < 0" if "cmp x y = 0" "cmp z w = 0" for x y z w
    using that by (simp add: cmp_neg cmp_zero)
  have rf: "cmp x x = 0" for x by (simp add: cmp_zero)
  assume "cmp a b \<le> 0" "cmp b c \<le> 0"
  then consider "cmp a b = 0" "cmp b c = 0" | "cmp a b = 0" "cmp b c < 0" | "cmp a b < 0" "cmp b c = 0"
    | "cmp a b < 0" "cmp b c < 0" by linarith
  then show ?thesis
  proof cases
    case 1 then have "cmp a c = 0" by (simp add: cmp_zero)
    then show ?thesis by simp
  next
    case 2 then show ?thesis using cong [of a b c c] rf by simp
  next
    case 3 then show ?thesis using cong [of a a b c] rf by simp
  next
    case 4 then show ?thesis using cmp_trans by fastforce
  qed
qed

end

subsection \<open>The clamped lengths of a concatenation\<close>

text \<open>Both runtimes compute \<open>ld = min(la + lb, cap)\<close>, \<open>la2 = min(la, ld)\<close> and
  \<open>lb2 = min(lb, ld - la2)\<close> and copy that many bytes of each operand.\<close>

definition cat_la2 :: "int \<Rightarrow> int \<Rightarrow> int \<Rightarrow> int" where
  "cat_la2 la lb e = min la (min (la + lb) e)"

definition cat_lb2 :: "int \<Rightarrow> int \<Rightarrow> int \<Rightarrow> int" where
  "cat_lb2 la lb e = min lb (min (la + lb) e - cat_la2 la lb e)"

lemma cat_lengths:
  assumes "0 \<le> la" "0 \<le> lb" "0 \<le> e"
  shows "0 \<le> cat_la2 la lb e" "0 \<le> cat_lb2 la lb e" "cat_la2 la lb e \<le> la" "cat_lb2 la lb e \<le> lb"
    "cat_la2 la lb e + cat_lb2 la lb e \<le> e" "cat_la2 la lb e + cat_lb2 la lb e = min (la + lb) e"
  using assms by (auto simp: cat_la2_def cat_lb2_def min_def)

lemma cat_bytes:
  assumes "0 \<le> la" "0 \<le> lb" "0 \<le> e" "nat la \<le> length da" "nat lb \<le> length db"
  shows "take (nat e) (take (nat la) da @ take (nat lb) db)
       = take (nat (cat_la2 la lb e)) da @ take (nat (cat_lb2 la lb e)) db"
proof -
  from assms(1-3) obtain m k q where n: "la = int m" "lb = int k" "e = int q"
    by (meson nonneg_int_cases)
  have "nat (cat_la2 la lb e) = min m q" "nat (cat_lb2 la lb e) = min k (q - m)"
    by (auto simp: n cat_la2_def cat_lb2_def min_def)
  with assms(4) n show ?thesis by (auto simp: min_def)
qed

lemma memcpy_prefix: "n \<le> length src \<Longrightarrow> take n (memcpy_at dst 0 (take n src)) = take n src"
  by (simp add: memcpy_at_def)

lemma memcpy_two:
  "m \<le> length a \<Longrightarrow> n \<le> length b \<Longrightarrow> m \<le> length d \<Longrightarrow>
   take (m + n) (memcpy_at (memcpy_at d 0 (take m a)) m (take n b)) = take m a @ take n b"
  by (simp add: memcpy_at_def)

lemma length_memcpy_two:
  "m + n \<le> length d \<Longrightarrow> m \<le> length a \<Longrightarrow> n \<le> length b \<Longrightarrow>
   length (memcpy_at (memcpy_at d 0 (take m a)) m (take n b)) = length d"
  by (simp add: memcpy_at_def)

subsection \<open>A comparison loop that stops at the first difference\<close>

definition decides :: "int \<Rightarrow> (nat \<Rightarrow> int) \<Rightarrow> (nat \<Rightarrow> int) \<Rightarrow> bool" where
  "decides r f g \<longleftrightarrow> (r = 0 \<longleftrightarrow> (\<forall>j. f j = g j)) \<and> (r < 0 \<longleftrightarrow> (\<exists>k. (\<forall>j<k. f j = g j) \<and> f k < g k))"

lemma decides_equal: "(\<And>j. f j = g j) \<Longrightarrow> decides 0 f g"
  by (simp add: decides_def)

lemma decides_first:
  assumes eq: "\<forall>j<i. f j = g j" and ne: "f i \<noteq> g i"
  shows "decides (if f i < g i then -1 else 1) f g"
proof -
  have "k = i" if "\<forall>j<k. f j = g j" "f k < g k" for k
    using that eq ne by (cases k i rule: linorder_cases) auto
  then have "(\<exists>k. (\<forall>j<k. f j = g j) \<and> f k < g k) \<longleftrightarrow> f i < g i" using eq by blast
  then show ?thesis using ne by (auto simp: decides_def)
qed

subsection \<open>C strings\<close>

text \<open>\<^verbatim>\<open>std::strlen\<close>: the bytes before the terminator.  A null pointer reads as the empty string wherever
  the runtime accepts one.\<close>

definition strlen :: "bytes \<Rightarrow> int" where
  "strlen mem = int (length (takeWhile (\<lambda>c. c \<noteq> CHR 0x00) mem))"

definition cstr_content :: "bytes option \<Rightarrow> bytes" where
  "cstr_content p = (case p of None \<Rightarrow> [] | Some mem \<Rightarrow> takeWhile (\<lambda>c. c \<noteq> CHR 0x00) mem)"

lemma strlen_nonneg [simp]: "0 \<le> strlen mem"
  by (simp add: strlen_def)

lemma strlen_le: "strlen mem \<le> int (length mem)"
  by (simp add: strlen_def length_takeWhile_le)

lemma take_strlen: "take (nat (strlen mem)) mem = takeWhile (\<lambda>c. c \<noteq> CHR 0x00) mem"
  by (simp add: strlen_def takeWhile_eq_take [symmetric])

end
