(* ===== verification/Io_Stream.thy ===== *)
theory Io_Stream
  imports Prelude
begin

text \<open>
  The redirectable stream primitives of the runtime, \<^verbatim>\<open>runtime/plang_stream.h\<close> and the capture and
  cursor state of \<^verbatim>\<open>runtime/plang_io.cpp\<close>: input from \<^verbatim>\<open>stdin\<close> or from a memory buffer
  (\<open>readstr\<close>), output to \<^verbatim>\<open>stdout\<close> or to the innermost capture frame (\<open>writestr\<close>), and the
  software cursor the Crt unit reads back.  The C streams are byte sequences; \<^verbatim>\<open>EOF\<close> is
  \<open>None\<close>.  Allocation failure is not modelled: a capture buffer grows as asked.
\<close>

datatype crt_esc = EscNormal | SawEsc | InCsi

record rt_stream =
  PlangInBuf :: "bytes option"
  PlangInPos :: nat
  StdIn :: bytes
  StdOut :: bytes
  CapStack :: "bytes list"
  CrtEsc :: crt_esc
  CrtCursorCol :: int
  CrtCursorRow :: int

subsection \<open>Operations\<close>

definition plangInCh :: "rt_stream \<Rightarrow> char option \<times> rt_stream" where
  "plangInCh s =
     (case PlangInBuf s of
        Some buf \<Rightarrow> (if PlangInPos s < length buf
                    then (Some (buf ! PlangInPos s), s\<lparr>PlangInPos := PlangInPos s + 1\<rparr>)
                    else (None, s))
      | None \<Rightarrow> (case StdIn s of
                   [] \<Rightarrow> (None, s)
                 | c # rest \<Rightarrow> (Some c, s\<lparr>StdIn := rest\<rparr>)))"

definition plangInUnget :: "char option \<Rightarrow> rt_stream \<Rightarrow> rt_stream" where
  "plangInUnget c s =
     (case c of
        None \<Rightarrow> s
      | Some ch \<Rightarrow>
          (case PlangInBuf s of
             Some buf \<Rightarrow> (if PlangInPos s > 0 then s\<lparr>PlangInPos := PlangInPos s - 1\<rparr> else s)
           | None \<Rightarrow> s\<lparr>StdIn := ch # StdIn s\<rparr>))"

text \<open>One byte through the cursor tracker.\<close>

definition crt_track_ch :: "char \<Rightarrow> rt_stream \<Rightarrow> rt_stream" where
  "crt_track_ch c s =
     (case CrtEsc s of
        EscNormal \<Rightarrow>
          (if code_of c = 27 then s\<lparr>CrtEsc := SawEsc\<rparr>
           else if code_of c = 10 then s\<lparr>CrtCursorCol := 1, CrtCursorRow := CrtCursorRow s + 1\<rparr>
           else if code_of c = 13 then s\<lparr>CrtCursorCol := 1\<rparr>
           else s\<lparr>CrtCursorCol := CrtCursorCol s + 1\<rparr>)
      | SawEsc \<Rightarrow> s\<lparr>CrtEsc := (if c = CHR ''['' then InCsi else EscNormal)\<rparr>
      | InCsi \<Rightarrow> (if 64 \<le> code_of c \<and> code_of c \<le> 126 then s\<lparr>CrtEsc := EscNormal\<rparr> else s))"

fun plangCrtTrackOutput :: "bytes \<Rightarrow> rt_stream \<Rightarrow> rt_stream" where
  "plangCrtTrackOutput [] s = s"
| "plangCrtTrackOutput (c # cs) s = plangCrtTrackOutput cs (crt_track_ch c s)"

definition plang_crt_sync_cursor :: "int \<Rightarrow> int \<Rightarrow> rt_stream \<Rightarrow> rt_stream" where
  "plang_crt_sync_cursor X Y s = s\<lparr>CrtCursorCol := X, CrtCursorRow := Y\<rparr>"

definition plang_crt_tracked_x :: "rt_stream \<Rightarrow> int" where
  "plang_crt_tracked_x s = CrtCursorCol s"

definition plang_crt_tracked_y :: "rt_stream \<Rightarrow> int" where
  "plang_crt_tracked_y s = CrtCursorRow s"

definition plangOutN :: "bytes \<Rightarrow> rt_stream \<Rightarrow> rt_stream" where
  "plangOutN d s =
     (if d = [] then s
      else case CapStack s of
             [] \<Rightarrow> plangCrtTrackOutput d (s\<lparr>StdOut := StdOut s @ d\<rparr>)
           | F # outer \<Rightarrow> s\<lparr>CapStack := (F @ d) # outer\<rparr>)"

definition plangOutCh :: "char \<Rightarrow> rt_stream \<Rightarrow> rt_stream" where
  "plangOutCh c s = plangOutN [c] s"

subsection \<open>What has been written, and what is left to read\<close>

text \<open>The text of the current destination: the innermost capture, or standard output.\<close>

definition written :: "rt_stream \<Rightarrow> bytes" where
  "written s = (case CapStack s of [] \<Rightarrow> StdOut s | F # _ \<Rightarrow> F)"

definition unread_input :: "rt_stream \<Rightarrow> bytes" where
  "unread_input s = (case PlangInBuf s of Some buf \<Rightarrow> drop (PlangInPos s) buf | None \<Rightarrow> StdIn s)"

lemma crt_track_ch_frame [simp]:
  "StdOut (crt_track_ch c s) = StdOut s" "CapStack (crt_track_ch c s) = CapStack s"
  "PlangInBuf (crt_track_ch c s) = PlangInBuf s" "PlangInPos (crt_track_ch c s) = PlangInPos s"
  "StdIn (crt_track_ch c s) = StdIn s"
  by (auto simp: crt_track_ch_def split: crt_esc.splits)

lemma plangCrtTrackOutput_frame [simp]:
  "StdOut (plangCrtTrackOutput cs s) = StdOut s" "CapStack (plangCrtTrackOutput cs s) = CapStack s"
  "PlangInBuf (plangCrtTrackOutput cs s) = PlangInBuf s"
  "PlangInPos (plangCrtTrackOutput cs s) = PlangInPos s"
  "StdIn (plangCrtTrackOutput cs s) = StdIn s"
  by (induction cs s rule: plangCrtTrackOutput.induct) auto

lemma written_plangOutN [simp]: "written (plangOutN d s) = written s @ d"
  by (auto simp: plangOutN_def written_def split: list.splits)

lemma written_plangOutCh [simp]: "written (plangOutCh c s) = written s @ [c]"
  by (simp add: plangOutCh_def)

lemma unread_input_plangOutN [simp]: "unread_input (plangOutN d s) = unread_input s"
  by (auto simp: plangOutN_def unread_input_def split: list.splits option.splits)

lemma plangInCh_unread:
  "plangInCh s = (c, s') \<Longrightarrow>
   (c = None \<and> unread_input s = [] \<and> s' = s) \<or> (\<exists>ch. c = Some ch \<and> unread_input s = ch # unread_input s')"
  by (auto simp: plangInCh_def unread_input_def Cons_nth_drop_Suc split: option.splits list.splits if_splits)

lemma plangInCh_Some_less:
  "plangInCh s = (Some c, s') \<Longrightarrow> length (unread_input s') < length (unread_input s)"
  by (drule plangInCh_unread) auto

text \<open>Output split over any number of writes moves the cursor as one write would: the escape state
  carries over.\<close>

lemma plangCrtTrackOutput_append:
  "plangCrtTrackOutput (xs @ ys) s = plangCrtTrackOutput ys (plangCrtTrackOutput xs s)"
  by (induction xs arbitrary: s) auto

end
