(* ===== verification/Short_String.thy ===== *)
theory Short_String
  imports String_Spec Io_Stream
begin

text \<open>
  Turbo Pascal's \<open>string[N]\<close>, \<^verbatim>\<open>runtime/plang_sstr.cpp\<close>: a one-byte length and \<open>N\<close> bytes of data.
  The record is the variable's memory, so its data never changes size; an operation that wrote past
  the declared capacity would show as a change of that size.  The capacity travels beside the
  pointer, as in the C++ code, and every operation clamps to it and to 255.  The
  destination of a copying operation is a fresh temporary, never also an operand, and \<open>Insert\<close> builds
  its result in a scratch buffer before it writes, so passing operands by value loses nothing.
\<close>

record sstr =
  sstrLen :: "8 word"
  sstrData :: bytes

datatype sstr_error = FieldWidth int

subsection \<open>Definitions\<close>

definition kMaxLen :: int where "kMaxLen = 255"

definition effCap :: "int \<Rightarrow> int" where "effCap cap = min cap kMaxLen"

text \<open>\<^verbatim>\<open>static_cast<uint8_t>\<close> and the reading of the length byte.\<close>

definition len8 :: "sstr \<Rightarrow> int" where "len8 s = uint (sstrLen s)"
definition to_u8 :: "int \<Rightarrow> 8 word" where "to_u8 n = word_of_int n"

definition plang_sstr_assign :: "sstr \<Rightarrow> int \<Rightarrow> sstr \<Rightarrow> sstr" where
  "plang_sstr_assign dst cap_dst src =
     (let ecap = effCap cap_dst; len = len8 src; len' = (if len > ecap then ecap else len) in
      dst\<lparr>sstrLen := to_u8 len',
          sstrData := memcpy_at (sstrData dst) 0 (take (nat len') (sstrData src))\<rparr>)"

definition plang_sstr_from_bytes :: "sstr \<Rightarrow> int \<Rightarrow> bytes option \<Rightarrow> int \<Rightarrow> sstr" where
  "plang_sstr_from_bytes dst cap src len =
     (let ecap = effCap cap in
      case src of
        None \<Rightarrow> dst\<lparr>sstrLen := 0\<rparr>
      | Some mem \<Rightarrow>
          (if len \<le> 0 then dst\<lparr>sstrLen := 0\<rparr>
           else let len' = (if len > ecap then ecap else len) in
                dst\<lparr>sstrLen := to_u8 len', sstrData := memcpy_at (sstrData dst) 0 (take (nat len') mem)\<rparr>))"

definition plang_sstr_from_cstr :: "sstr \<Rightarrow> int \<Rightarrow> bytes option \<Rightarrow> sstr" where
  "plang_sstr_from_cstr dst cap src =
     (case src of
        None \<Rightarrow> dst\<lparr>sstrLen := 0\<rparr>
      | Some mem \<Rightarrow> plang_sstr_from_bytes dst cap src (strlen mem))"

definition plang_sstr_from_char :: "sstr \<Rightarrow> int \<Rightarrow> char \<Rightarrow> sstr" where
  "plang_sstr_from_char dst cap c =
     (if effCap cap < 1 then dst\<lparr>sstrLen := 0\<rparr>
      else dst\<lparr>sstrLen := 1, sstrData := (sstrData dst)[0 := c]\<rparr>)"

definition plang_sstr_concat :: "sstr \<Rightarrow> int \<Rightarrow> sstr \<Rightarrow> sstr \<Rightarrow> sstr" where
  "plang_sstr_concat dst cap_dst a b =
     (let ecap = effCap cap_dst; la = len8 a; lb = len8 b;
          ld = min (la + lb) ecap; la2 = min la ld; lb2 = min lb (ld - la2);
          data1 = memcpy_at (sstrData dst) 0 (take (nat la2) (sstrData a));
          data2 = memcpy_at data1 (nat la2) (take (nat lb2) (sstrData b)) in
      dst\<lparr>sstrData := data2, sstrLen := to_u8 (la2 + lb2)\<rparr>)"

definition plang_sstr_concat_cstr :: "sstr \<Rightarrow> int \<Rightarrow> sstr \<Rightarrow> bytes option \<Rightarrow> sstr" where
  "plang_sstr_concat_cstr dst cap_dst a cstr =
     (let ecap = effCap cap_dst; la = len8 a;
          lb = (case cstr of None \<Rightarrow> 0 | Some mem \<Rightarrow> strlen mem);
          ld = min (la + lb) ecap; la2 = min la ld; lb2 = min lb (ld - la2);
          data1 = memcpy_at (sstrData dst) 0 (take (nat la2) (sstrData a));
          data2 = (case cstr of
                     Some mem \<Rightarrow> (if lb2 > 0 then memcpy_at data1 (nat la2) (take (nat lb2) mem) else data1)
                   | None \<Rightarrow> data1) in
      dst\<lparr>sstrData := data2, sstrLen := to_u8 (la2 + lb2)\<rparr>)"

definition plang_sstr_concat_char :: "sstr \<Rightarrow> int \<Rightarrow> sstr \<Rightarrow> char \<Rightarrow> sstr" where
  "plang_sstr_concat_char dst cap_dst a c =
     (let ecap = effCap cap_dst; la = len8 a; ld = min (la + 1) ecap; la2 = min la ld;
          data1 = memcpy_at (sstrData dst) 0 (take (nat la2) (sstrData a));
          data2 = (if la2 < ld then data1[nat la2 := c] else data1) in
      dst\<lparr>sstrData := data2, sstrLen := to_u8 (la2 + (if la2 < ld then 1 else 0))\<rparr>)"

definition plang_sstr_copy :: "sstr \<Rightarrow> int \<Rightarrow> sstr \<Rightarrow> int \<Rightarrow> int \<Rightarrow> sstr" where
  "plang_sstr_copy dst cap_dst src index count =
     (let ecap = effCap cap_dst; srcLen = len8 src;
          idx = (if index < 1 then 1 else index);
          cnt0 = (if count < 0 then 0 else count);
          avail = (if idx \<le> srcLen then srcLen - idx + 1 else 0);
          cnt1 = (if cnt0 > avail then avail else cnt0);
          cnt = (if cnt1 > ecap then ecap else cnt1) in
      dst\<lparr>sstrData := (if cnt > 0
                        then memcpy_at (sstrData dst) 0 (take (nat cnt) (drop (nat (idx - 1)) (sstrData src)))
                        else sstrData dst),
          sstrLen := to_u8 cnt\<rparr>)"

text \<open>\<^verbatim>\<open>memcmp(sd + i, pd, plen) == 0\<close>.\<close>

definition match_at :: "bytes \<Rightarrow> nat \<Rightarrow> bytes \<Rightarrow> nat \<Rightarrow> bool" where
  "match_at sd i pd plen \<longleftrightarrow> take plen (drop i sd) = take plen pd"

text \<open>\<^verbatim>\<open>for (i = 0; i <= slen - plen; ++i) if (match) return i + 1; return 0;\<close>\<close>

function find_match :: "bytes \<Rightarrow> bytes \<Rightarrow> nat \<Rightarrow> nat \<Rightarrow> nat \<Rightarrow> int" where
  "find_match sd pd plen lastI i =
     (if i \<le> lastI then (if match_at sd i pd plen then int i + 1 else find_match sd pd plen lastI (i + 1))
      else 0)"
  by pat_completeness auto
termination
  by (relation "measure (\<lambda>(sd, pd, plen, lastI, i). Suc lastI - i)") auto

declare find_match.simps [simp del]

definition plang_sstr_pos :: "sstr \<Rightarrow> sstr \<Rightarrow> int" where
  "plang_sstr_pos pat s =
     (let plen = nat (len8 pat); slen = nat (len8 s) in
      if plen = 0 \<or> plen > slen then 0
      else find_match (sstrData s) (sstrData pat) plen (slen - plen) 0)"

definition plang_sstr_delete :: "sstr \<Rightarrow> int \<Rightarrow> int \<Rightarrow> sstr" where
  "plang_sstr_delete s index count =
     (let len = len8 s in
      if index < 1 \<or> index > len then s
      else let cnt0 = (if count < 0 then 0 else count);
               avail = len - index + 1;
               cnt = (if cnt0 > avail then avail else cnt0) in
           if cnt = 0 then s
           else let tailStart = index - 1 + cnt; tailLen = len - tailStart in
                s\<lparr>sstrData := (if tailLen > 0
                                then memcpy_at (sstrData s) (nat (index - 1))
                                       (take (nat tailLen) (drop (nat tailStart) (sstrData s)))
                                else sstrData s),
                   sstrLen := to_u8 (len - cnt)\<rparr>)"

text \<open>\<^verbatim>\<open>for (i = from; i < stop && pos < ecap; ++i) buf[pos++] = src[i];\<close> into the scratch buffer.\<close>

function fill_buf :: "bytes \<Rightarrow> nat \<Rightarrow> bytes \<Rightarrow> nat \<Rightarrow> nat \<Rightarrow> bytes" where
  "fill_buf buf ecap src i stop =
     (if i < stop \<and> length buf < ecap then fill_buf (buf @ [src ! i]) ecap src (i + 1) stop else buf)"
  by pat_completeness auto
termination
  by (relation "measure (\<lambda>(buf, ecap, src, i, stop). stop - i)") auto

declare fill_buf.simps [simp del]

definition plang_sstr_insert :: "sstr \<Rightarrow> int \<Rightarrow> sstr \<Rightarrow> int \<Rightarrow> sstr" where
  "plang_sstr_insert s cap_s src index =
     (let ecap = effCap cap_s;
          len = (if len8 s > ecap then ecap else len8 s);
          idx1 = (if index < 1 then 1 else index);
          idx = (if idx1 > len + 1 then len + 1 else idx1);
          idx0 = idx - 1; srcLen = len8 src;
          buf1 = fill_buf [] (nat ecap) (sstrData s) 0 (nat idx0);
          buf2 = fill_buf buf1 (nat ecap) (sstrData src) 0 (nat srcLen);
          buf3 = fill_buf buf2 (nat ecap) (sstrData s) (nat idx0) (nat len) in
      s\<lparr>sstrData := memcpy_at (sstrData s) 0 buf3, sstrLen := to_u8 (int (length buf3))\<rparr>)"

definition plang_sstr_setlength :: "sstr \<Rightarrow> int \<Rightarrow> int \<Rightarrow> sstr" where
  "plang_sstr_setlength s cap_s newLen =
     (let ecap = effCap cap_s; n0 = (if newLen < 0 then 0 else newLen);
          n = (if n0 > ecap then ecap else n0) in
      s\<lparr>sstrLen := to_u8 n\<rparr>)"

definition plang_sstr_of_char :: "sstr \<Rightarrow> int \<Rightarrow> char \<Rightarrow> int \<Rightarrow> sstr" where
  "plang_sstr_of_char dst cap_dst ch count =
     (let ecap = effCap cap_dst; n0 = (if count < 0 then 0 else count);
          n = (if n0 > ecap then ecap else n0) in
      dst\<lparr>sstrData := (if n > 0 then memcpy_at (sstrData dst) 0 (replicate (nat n) ch) else sstrData dst),
          sstrLen := to_u8 n\<rparr>)"

function sstrCmp_loop :: "sstr \<Rightarrow> sstr \<Rightarrow> nat \<Rightarrow> nat \<Rightarrow> int" where
  "sstrCmp_loop a b lm i =
     (if i < lm then
        (let ca = code_of (sstrData a ! i); cb = code_of (sstrData b ! i) in
         if ca \<noteq> cb then (if ca < cb then -1 else 1) else sstrCmp_loop a b lm (i + 1))
      else if len8 a \<noteq> len8 b then (if len8 a < len8 b then -1 else 1)
      else 0)"
  by pat_completeness auto
termination
  by (relation "measure (\<lambda>(a, b, lm, i). lm - i)") auto

declare sstrCmp_loop.simps [simp del]

definition sstrCmp :: "sstr \<Rightarrow> sstr \<Rightarrow> int" where
  "sstrCmp a b = sstrCmp_loop a b (min (nat (len8 a)) (nat (len8 b))) 0"

definition plang_sstr_eq :: "sstr \<Rightarrow> sstr \<Rightarrow> bool" where "plang_sstr_eq a b \<longleftrightarrow> sstrCmp a b = 0"
definition plang_sstr_ne :: "sstr \<Rightarrow> sstr \<Rightarrow> bool" where "plang_sstr_ne a b \<longleftrightarrow> sstrCmp a b \<noteq> 0"
definition plang_sstr_lt :: "sstr \<Rightarrow> sstr \<Rightarrow> bool" where "plang_sstr_lt a b \<longleftrightarrow> sstrCmp a b < 0"
definition plang_sstr_le :: "sstr \<Rightarrow> sstr \<Rightarrow> bool" where "plang_sstr_le a b \<longleftrightarrow> sstrCmp a b \<le> 0"
definition plang_sstr_gt :: "sstr \<Rightarrow> sstr \<Rightarrow> bool" where "plang_sstr_gt a b \<longleftrightarrow> sstrCmp a b > 0"
definition plang_sstr_ge :: "sstr \<Rightarrow> sstr \<Rightarrow> bool" where "plang_sstr_ge a b \<longleftrightarrow> sstrCmp a b \<ge> 0"

subsection \<open>Input and output\<close>

definition plang_sstr_write :: "sstr \<Rightarrow> rt_stream \<Rightarrow> rt_stream" where
  "plang_sstr_write s io =
     (if len8 s > 0 then plangOutN (take (nat (len8 s)) (sstrData s)) io else io)"

definition plang_sstr_writeln :: "sstr \<Rightarrow> rt_stream \<Rightarrow> rt_stream" where
  "plang_sstr_writeln s io = plangOutCh (char_of (10::nat)) (plang_sstr_write s io)"

text \<open>\<^verbatim>\<open>for (i = 0; i < pad; ++i) plangOutCh(' ');\<close>\<close>

fun out_spaces :: "nat \<Rightarrow> rt_stream \<Rightarrow> rt_stream" where
  "out_spaces 0 io = io"
| "out_spaces (Suc n) io = out_spaces n (plangOutCh CHR '' '' io)"

definition plang_sstr_write_w :: "sstr \<Rightarrow> int \<Rightarrow> rt_stream \<Rightarrow> sstr_error + rt_stream" where
  "plang_sstr_write_w s w io =
     (if w = 0 then Inr io
      else let len = len8 s in
           if w < 0 then Inr (if len > 0 then plangOutN (take (nat len) (sstrData s)) io else io)
           else if w > INT32_MAX then Inl (FieldWidth w)
           else let io1 = out_spaces (nat (w - len)) io;
                    len' = (if len > w then w else len) in
                Inr (if len' > 0 then plangOutN (take (nat len') (sstrData s)) io1 else io1))"

definition plang_sstr_writeln_w :: "sstr \<Rightarrow> int \<Rightarrow> rt_stream \<Rightarrow> sstr_error + rt_stream" where
  "plang_sstr_writeln_w s w io =
     (case plang_sstr_write_w s w io of Inl e \<Rightarrow> Inl e | Inr io' \<Rightarrow> Inr (plangOutCh (char_of (10::nat)) io'))"

text \<open>The read loop: characters up to the line terminator or the end of input; those past the
  capacity are dropped.  The last character read is returned for \<^verbatim>\<open>plangInUnget\<close>.\<close>

function read_line_loop :: "nat \<Rightarrow> bytes \<Rightarrow> nat \<Rightarrow> rt_stream \<Rightarrow> bytes \<times> nat \<times> char option \<times> rt_stream" where
  "read_line_loop cap d len io =
     (case plangInCh io of
        (None, io') \<Rightarrow> (d, len, None, io')
      | (Some c, io') \<Rightarrow>
          (if c = char_of (10::nat) then (d, len, Some c, io')
           else if len < cap then read_line_loop cap (d[len := c]) (len + 1) io'
           else read_line_loop cap d len io'))"
  by pat_completeness auto
termination
  by (relation "measure (\<lambda>(cap, d, len, io). length (unread_input io))")
    (auto dest: plangInCh_Some_less [OF sym])

declare read_line_loop.simps [simp del]

definition plang_sstr_read :: "sstr \<Rightarrow> int \<Rightarrow> rt_stream \<Rightarrow> sstr \<times> rt_stream" where
  "plang_sstr_read s cap io =
     (case read_line_loop (nat (effCap cap)) (sstrData s) 0 io of
        (d, len, c, io') \<Rightarrow>
          (s\<lparr>sstrData := d, sstrLen := to_u8 (int len)\<rparr>,
           if c = Some (char_of (10::nat)) then plangInUnget c io' else io'))"

subsection \<open>Well-formed variables and their content\<close>

definition sstr_wf :: "int \<Rightarrow> sstr \<Rightarrow> bool" where
  "sstr_wf cap s \<longleftrightarrow> 0 \<le> cap \<and> length (sstrData s) = nat cap \<and> len8 s \<le> cap"

definition sstr_content :: "sstr \<Rightarrow> bytes" where
  "sstr_content s = take (nat (len8 s)) (sstrData s)"

named_theorems sstr_defs \<open>unfolds a variable to its memory\<close>
declare sstr_wf_def [sstr_defs] sstr_content_def [sstr_defs] effCap_def [sstr_defs]
  kMaxLen_def [sstr_defs] Let_def [sstr_defs]

lemma len8_range [simp]: "0 \<le> len8 s" "len8 s \<le> 255"
  using uint_lt2p [of "sstrLen s"] by (simp_all add: len8_def)

lemma len8_store [simp]:
  "0 \<le> n \<Longrightarrow> n \<le> 255 \<Longrightarrow> len8 (s\<lparr>sstrLen := to_u8 n\<rparr>) = n"
  "0 \<le> n \<Longrightarrow> n \<le> 255 \<Longrightarrow> len8 (s\<lparr>sstrLen := to_u8 n, sstrData := d\<rparr>) = n"
  "len8 (s\<lparr>sstrLen := 0\<rparr>) = 0" "len8 (s\<lparr>sstrLen := 1, sstrData := d\<rparr>) = 1"
  "len8 (s\<lparr>sstrData := d\<rparr>) = len8 s"
  by (simp_all add: len8_def to_u8_def uint_word_of_int)

lemma sstr_content_length: "sstr_wf cap s \<Longrightarrow> length (sstr_content s) = nat (len8 s)"
  by (auto simp: sstr_defs)

lemma sstr_content_bound: "sstr_wf cap s \<Longrightarrow> length (sstr_content s) \<le> nat (effCap cap)"
  by (auto simp: sstr_content_length) (auto simp: sstr_defs nat_le_iff)

text \<open>A variable whose length and data were just stored.\<close>

lemma sstr_wf_store:
  "sstr_wf cap s \<Longrightarrow> 0 \<le> n \<Longrightarrow> n \<le> effCap cap \<Longrightarrow> length d = length (sstrData s) \<Longrightarrow>
   sstr_wf cap (s\<lparr>sstrLen := to_u8 n, sstrData := d\<rparr>)"
  by (simp add: sstr_defs)

lemma sstr_content_store:
  "0 \<le> n \<Longrightarrow> n \<le> 255 \<Longrightarrow> sstr_content (s\<lparr>sstrLen := to_u8 n, sstrData := d\<rparr>) = take (nat n) d"
  by (simp add: sstr_content_def)

lemma effCap_le [simp]: "effCap cap \<le> cap" "effCap cap \<le> 255"
  by (simp_all add: effCap_def kMaxLen_def)

lemma effCap_nonneg [simp]: "0 \<le> cap \<Longrightarrow> 0 \<le> effCap cap"
  by (simp add: effCap_def kMaxLen_def)

lemma sstr_wfD: "sstr_wf cap s \<Longrightarrow> 0 \<le> cap" "sstr_wf cap s \<Longrightarrow> length (sstrData s) = nat cap"
  "sstr_wf cap s \<Longrightarrow> nat (len8 s) \<le> length (sstrData s)"
  by (auto simp: sstr_wf_def)

lemma sstr_record_order:
  "s\<lparr>sstrData := d, sstrLen := l\<rparr> = s\<lparr>sstrLen := l, sstrData := d\<rparr>"
  by simp

lemma sstr_assign_ok:
  assumes "sstr_wf cap d" "sstr_wf cs s"
  shows "sstr_wf cap (plang_sstr_assign d cap s)
       \<and> sstr_content (plang_sstr_assign d cap s) = take (nat (effCap cap)) (sstr_content s)"
proof -
  let ?n = "min (len8 s) (effCap cap)"
  note w = sstr_wfD [OF assms(1)] sstr_wfD [OF assms(2)]
  have n: "0 \<le> ?n" "?n \<le> effCap cap" "?n \<le> 255" using w len8_range [of s] by (auto simp: min_le_iff_disj)
  have le: "nat ?n \<le> length (sstrData s)" "nat ?n \<le> length (sstrData d)"
    using order_trans [OF nat_mono [OF min.cobounded1] w(6)] order_trans [OF n(2) effCap_le(1)] w(2)
    by (simp_all add: nat_mono)
  have eq: "plang_sstr_assign d cap s
       = d\<lparr>sstrLen := to_u8 ?n, sstrData := memcpy_at (sstrData d) 0 (take (nat ?n) (sstrData s))\<rparr>"
    by (simp add: plang_sstr_assign_def Let_def min_def)
  show ?thesis unfolding eq
    using sstr_wf_store [OF assms(1) n(1,2)] le n
    by (simp add: sstr_content_store memcpy_prefix) (simp add: sstr_content_def min_def nat_le_iff)
qed

lemma sstr_concat_ok:
  assumes "sstr_wf cap d" "sstr_wf ca a" "sstr_wf cb b"
  shows "sstr_wf cap (plang_sstr_concat d cap a b)
       \<and> sstr_content (plang_sstr_concat d cap a b)
           = take (nat (effCap cap)) (sstr_content a @ sstr_content b)"
proof -
  let ?la = "cat_la2 (len8 a) (len8 b) (effCap cap)" and ?lb = "cat_lb2 (len8 a) (len8 b) (effCap cap)"
  note w = sstr_wfD [OF assms(1)] sstr_wfD [OF assms(2)] sstr_wfD [OF assms(3)]
  note n = cat_lengths [OF len8_range(1) [of a] len8_range(1) [of b] effCap_nonneg [OF w(1)]]
  have le: "nat ?la \<le> length (sstrData a)" "nat ?lb \<le> length (sstrData b)"
     "nat ?la + nat ?lb \<le> length (sstrData d)"
    using order_trans [OF nat_mono [OF n(3)] w(6)] order_trans [OF nat_mono [OF n(4)] w(9)]
      nat_mono [OF order_trans [OF n(5) effCap_le(1)]] w(2)
    by (simp_all add: nat_add_distrib n(1,2))
  have eq: "plang_sstr_concat d cap a b = d\<lparr>sstrLen := to_u8 (?la + ?lb),
       sstrData := memcpy_at (memcpy_at (sstrData d) 0 (take (nat ?la) (sstrData a)))
                     (nat ?la) (take (nat ?lb) (sstrData b))\<rparr>"
    by (simp add: plang_sstr_concat_def Let_def cat_la2_def cat_lb2_def)
  have "sstr_content (plang_sstr_concat d cap a b)
      = take (nat ?la) (sstrData a) @ take (nat ?lb) (sstrData b)"
    unfolding eq using n(1,2) le order_trans [OF n(5) effCap_le(2)]
    by (simp add: sstr_content_store nat_add_distrib memcpy_two)
  moreover have "sstr_wf cap (plang_sstr_concat d cap a b)"
    unfolding eq using assms(1) n le by (intro sstr_wf_store) (simp_all add: length_memcpy_two)
  moreover have "take (nat (effCap cap)) (sstr_content a @ sstr_content b)
      = take (nat ?la) (sstrData a) @ take (nat ?lb) (sstrData b)"
    unfolding sstr_content_def
    by (rule cat_bytes [OF len8_range(1) len8_range(1) effCap_nonneg [OF w(1)] w(6) w(9)])
  ultimately show ?thesis by simp
qed

interpretation sstr_bounded: bounded_string sstr_content sstr_wf "\<lambda>cap. nat (effCap cap)" plang_sstr_concat
  by unfold_locales (use sstr_content_bound sstr_concat_ok in auto)

subsection \<open>The remaining operations on contents\<close>

lemma sstr_store_ok:
  assumes "sstr_wf cap s" "0 \<le> n" "n \<le> effCap cap" "length d = length (sstrData s)"
  shows "sstr_wf cap (s\<lparr>sstrLen := to_u8 n, sstrData := d\<rparr>)
       \<and> sstr_content (s\<lparr>sstrLen := to_u8 n, sstrData := d\<rparr>) = take (nat n) d"
  using assms sstr_wf_store [OF assms] order_trans [OF assms(3) effCap_le(2)]
  by (simp add: sstr_content_store)

lemma sstr_len_ok:
  assumes "sstr_wf cap s" "0 \<le> n" "n \<le> effCap cap"
  shows "sstr_wf cap (s\<lparr>sstrLen := to_u8 n\<rparr>)
       \<and> sstr_content (s\<lparr>sstrLen := to_u8 n\<rparr>) = take (nat n) (sstrData s)"
  using sstr_store_ok [OF assms refl] by simp

lemma to_u8_0 [simp]: "to_u8 0 = 0" by (simp add: to_u8_def)

lemma effCap_room: "sstr_wf cap s \<Longrightarrow> n \<le> effCap cap \<Longrightarrow> nat n \<le> length (sstrData s)"
  using nat_mono [OF order_trans [OF _ effCap_le(1)], of n cap] by (simp add: sstr_wf_def)

text \<open>Copying \<open>n\<close> bytes of a source to the front of the variable and storing \<open>n\<close>.\<close>

lemma sstr_copy_in_ok:
  assumes "sstr_wf cap d" "0 \<le> n" "n \<le> effCap cap" "nat n \<le> length src"
  shows "sstr_wf cap (d\<lparr>sstrLen := to_u8 n, sstrData := memcpy_at (sstrData d) 0 (take (nat n) src)\<rparr>)
       \<and> sstr_content (d\<lparr>sstrLen := to_u8 n, sstrData := memcpy_at (sstrData d) 0 (take (nat n) src)\<rparr>)
           = take (nat n) src"
  using sstr_store_ok [OF assms(1-3), of "memcpy_at (sstrData d) 0 (take (nat n) src)"]
    effCap_room [OF assms(1,3)] assms(4) by (simp add: memcpy_prefix)

lemma sstr_from_bytes_ok:
  assumes "sstr_wf cap d" "len \<le> int (length mem)"
  shows "sstr_wf cap (plang_sstr_from_bytes d cap (Some mem) len)
       \<and> sstr_content (plang_sstr_from_bytes d cap (Some mem) len) = take (nat (effCap cap)) (take (nat len) mem)"
proof (cases "len \<le> 0")
  case True
  then show ?thesis
    using sstr_len_ok [OF assms(1), of 0] sstr_wfD(1) [OF assms(1)] by (simp add: plang_sstr_from_bytes_def)
next
  case False
  let ?n = "min len (effCap cap)"
  have n: "0 \<le> ?n" "?n \<le> effCap cap" "nat ?n \<le> length mem"
    using False assms sstr_wfD(1) [OF assms(1)] by (auto simp: nat_le_iff min_le_iff_disj)
  have eq: "plang_sstr_from_bytes d cap (Some mem) len
      = d\<lparr>sstrLen := to_u8 ?n, sstrData := memcpy_at (sstrData d) 0 (take (nat ?n) mem)\<rparr>"
    using False by (simp add: plang_sstr_from_bytes_def Let_def min_def)
  show ?thesis unfolding eq using sstr_copy_in_ok [OF assms(1) n]
    unfolding take_nat_min by simp
qed

lemma sstr_from_cstr_ok:
  assumes "sstr_wf cap d"
  shows "sstr_wf cap (plang_sstr_from_cstr d cap cstr)
       \<and> sstr_content (plang_sstr_from_cstr d cap cstr) = take (nat (effCap cap)) (cstr_content cstr)"
proof (cases cstr)
  case None
  then show ?thesis using sstr_len_ok [OF assms, of 0] sstr_wfD(1) [OF assms]
    by (simp add: plang_sstr_from_cstr_def cstr_content_def)
next
  case (Some mem)
  then show ?thesis using sstr_from_bytes_ok [OF assms strlen_le [of mem]]
    by (simp add: plang_sstr_from_cstr_def cstr_content_def take_strlen)
qed

lemma sstr_from_char_ok:
  assumes "sstr_wf cap d"
  shows "sstr_wf cap (plang_sstr_from_char d cap c)
       \<and> sstr_content (plang_sstr_from_char d cap c) = take (nat (effCap cap)) [c]"
proof (cases "effCap cap < 1")
  case True
  then show ?thesis using sstr_len_ok [OF assms, of 0] sstr_wfD(1) [OF assms] effCap_nonneg [of cap]
    by (simp add: plang_sstr_from_char_def)
next
  case False
  then have "1 \<le> length (sstrData d)" using effCap_room [OF assms, of 1] by simp
  moreover have "(1 :: 8 word) = to_u8 1" by (simp add: to_u8_def)
  ultimately show ?thesis
    using False sstr_store_ok [OF assms, of 1 "(sstrData d)[0 := c]"]
    by (cases "sstrData d") (simp_all add: plang_sstr_from_char_def)
qed

lemma sstr_copy_ok:
  assumes "sstr_wf cap d" "sstr_wf cs s"
  shows "sstr_wf cap (plang_sstr_copy d cap s index count)
       \<and> sstr_content (plang_sstr_copy d cap s index count)
           = take (nat (effCap cap)) (take (nat count) (drop (nat (index - 1)) (sstr_content s)))"
proof -
  define k where "k = nat (index - 1)"
  define n where "n = min (min (max count 0) (max (len8 s - int k) 0)) (effCap cap)"
  note w = sstr_wfD [OF assms(1)] sstr_wfD [OF assms(2)]
  have n: "0 \<le> n" "n \<le> effCap cap" "nat n \<le> length (drop k (sstrData s))"
    using w by (auto simp: n_def nat_le_iff min_le_iff_disj)
  have idx: "nat ((if index < 1 then 1 else index) - 1) = k" by (auto simp: k_def)
  have cnt: "(let idx = (if index < 1 then 1 else index); cnt0 = (if count < 0 then 0 else count);
        avail = (if idx \<le> len8 s then len8 s - idx + 1 else 0);
        cnt1 = (if cnt0 > avail then avail else cnt0) in
        if cnt1 > effCap cap then effCap cap else cnt1) = n"
    unfolding n_def k_def Let_def by (auto simp: min_def max_def)
  have eq: "plang_sstr_copy d cap s index count
      = d\<lparr>sstrLen := to_u8 n, sstrData := memcpy_at (sstrData d) 0 (take (nat n) (drop k (sstrData s)))\<rparr>"
    using cnt n(1) unfolding plang_sstr_copy_def Let_def idx by (cases "n = 0") (simp_all add: memcpy_at_def)
  have "take (nat n) (drop k (sstrData s))
      = take (nat (effCap cap)) (take (nat count) (drop k (sstr_content s)))"
    unfolding sstr_content_def drop_take take_take n_def
    by (rule arg_cong [where f = "\<lambda>m. take m _"]) (auto simp: min_def max_def nat_diff_distrib)
  then show ?thesis using sstr_copy_in_ok [OF assms(1) n] unfolding eq k_def by simp
qed

text \<open>\<open>Delete\<close>: the content without the characters \<open>index .. index + count - 1\<close>; an index outside the
  content changes nothing.\<close>

definition delete_spec :: "bytes \<Rightarrow> int \<Rightarrow> int \<Rightarrow> bytes" where
  "delete_spec c index count =
     (if 1 \<le> index \<and> index \<le> int (length c)
      then take (nat (index - 1)) c @ drop (nat (index - 1) + nat count) c else c)"

lemma sstr_delete_ok:
  assumes "sstr_wf cap s"
  shows "sstr_wf cap (plang_sstr_delete s index count)
       \<and> sstr_content (plang_sstr_delete s index count) = delete_spec (sstr_content s) index count"
proof (cases "1 \<le> index \<and> index \<le> len8 s \<and> 0 < count")
  case False
  then consider "\<not> (1 \<le> index \<and> index \<le> len8 s)" | "1 \<le> index" "index \<le> len8 s" "count \<le> 0"
    by (meson not_le)
  then show ?thesis
    using assms sstr_content_length [OF assms]
    by cases (auto simp: plang_sstr_delete_def delete_spec_def Let_def)
next
  case True
  define k where "k = nat (index - 1)"
  define L where "L = nat (len8 s)"
  define m where "m = min (nat count) (L - k)"
  note w = sstr_wfD [OF assms]
  have k: "index = int k + 1" "len8 s = int L" "k < L" "L \<le> length (sstrData s)"
    using True w by (auto simp: k_def L_def)
  have m: "0 < m" "m \<le> L - k" using True k by (auto simp: m_def)
  have cnt: "(if (if count < 0 then 0 else count) > len8 s - index + 1 then len8 s - index + 1
       else (if count < 0 then 0 else count)) = int m"
    using True k by (auto simp: m_def min_def)
  have L255: "int L \<le> 255" using len8_range(2) [of s] k(2) by simp
  let ?d = "memcpy_at (sstrData s) k (take (L - (k + m)) (drop (k + m) (sstrData s)))"
  have eq: "plang_sstr_delete s index count = s\<lparr>sstrLen := to_u8 (int (L - m)), sstrData := ?d\<rparr>"
  proof (cases "k + m < L")
    case True
    then show ?thesis using \<open>1 \<le> index \<and> index \<le> len8 s \<and> 0 < count\<close> k m
      unfolding plang_sstr_delete_def Let_def cnt
      by (auto simp: nat_add_distrib memcpy_at_def nat_diff_distrib of_nat_diff)
  next
    case False
    then have "L - m = k" using k m by simp
    then show ?thesis using False \<open>1 \<le> index \<and> index \<le> len8 s \<and> 0 < count\<close> k m
      unfolding plang_sstr_delete_def Let_def cnt by (auto simp: memcpy_at_def of_nat_diff)
  qed
  have len: "length ?d = length (sstrData s)" using k m by simp
  have "sstr_content (plang_sstr_delete s index count) = take (L - m) ?d"
    unfolding eq using L255 by (subst sstr_content_store) auto
  also have "\<dots> = take k (sstrData s) @ take (L - (k + m)) (drop (k + m) (sstrData s))"
    using k m by (simp add: memcpy_at_def add.commute)
  also have "take (L - (k + m)) (drop (k + m) (sstrData s)) = drop (k + nat count) (sstr_content s)"
    using k m by (cases "nat count \<le> L - k") (simp_all add: m_def sstr_content_def drop_take)
  also have "take k (sstrData s) @ drop (k + nat count) (sstr_content s) = delete_spec (sstr_content s) index count"
    using True k sstr_content_length [OF assms]
    by (simp add: delete_spec_def sstr_content_def min_absorb1)
  finally have "sstr_content (plang_sstr_delete s index count) = delete_spec (sstr_content s) index count" .
  moreover have "sstr_wf cap (plang_sstr_delete s index count)"
    unfolding eq using assms k(2) L255 len by (intro sstr_wf_store) (auto simp: sstr_defs)
  ultimately show ?thesis by simp
qed

lemma fill_buf_eq:
  "stop \<le> length src \<Longrightarrow> length buf \<le> e \<Longrightarrow>
   fill_buf buf e src i stop = take e (buf @ take (stop - i) (drop i src))"
proof (induction buf e src i stop rule: fill_buf.induct)
  case (1 buf e src i stop)
  show ?case
  proof (cases "i < stop \<and> length buf < e")
    case True
    then have "drop i src = src ! i # drop (i + 1) src"
      using "1.prems"(1) by (simp add: Cons_nth_drop_Suc)
    moreover have "stop - i = Suc (stop - (i + 1))" using True by arith
    ultimately have "take (stop - i) (drop i src) = src ! i # take (stop - (i + 1)) (drop (i + 1) src)" by simp
    then show ?thesis using True "1.IH" "1.prems" by (simp add: fill_buf.simps [of buf] del: take_append)
  next
    case False
    then show ?thesis using "1.prems" by (auto simp: fill_buf.simps [of buf])
  qed
qed

text \<open>\<open>Insert\<close>: the source goes before position \<open>index\<close>, clamped into the content, and the result is cut
  at the variable's capacity.\<close>

definition insert_spec :: "nat \<Rightarrow> bytes \<Rightarrow> bytes \<Rightarrow> int \<Rightarrow> bytes" where
  "insert_spec limit c x index =
     (let k = nat (min (max index 1) (int (length c) + 1) - 1) in
      take limit (take k c @ x @ drop k c))"

lemma sstr_insert_ok:
  assumes "sstr_wf cap s" "sstr_wf cx x"
  shows "sstr_wf cap (plang_sstr_insert s cap x index)
       \<and> sstr_content (plang_sstr_insert s cap x index)
           = insert_spec (nat (effCap cap)) (sstr_content s) (sstr_content x) index"
proof -
  define L where "L = nat (len8 s)"
  define k where "k = nat (min (max index 1) (len8 s + 1) - 1)"
  define e where "e = nat (effCap cap)"
  note w = sstr_wfD [OF assms(1)] sstr_wfD [OF assms(2)]
  have le: "len8 s \<le> effCap cap" using assms(1) len8_range(2) [of s] by (simp add: sstr_defs)
  have L: "len8 s = int L" using len8_range(1) [of s] by (simp add: L_def)
  have kL: "k \<le> L" "L \<le> length (sstrData s)" "L \<le> e" "e \<le> length (sstrData s)"
    using w le effCap_room [OF assms(1) order_refl] by (auto simp: k_def L e_def nat_mono nat_le_iff)
  have idx: "(if (if index < 1 then 1 else index) > len8 s + 1 then len8 s + 1
       else (if index < 1 then 1 else index)) - 1 = int k"
    by (auto simp: k_def min_def max_def L)
  let ?b = "take e (take k (sstrData s) @ sstr_content x @ drop k (sstr_content s))"
  have "fill_buf (fill_buf (fill_buf [] e (sstrData s) 0 k) e (sstrData x) 0 (nat (len8 x))) e (sstrData s) k L = ?b"
    using kL w by (simp add: fill_buf_eq sstr_content_def drop_take take_take_append L_def del: take_append
      flip: append_assoc)
  then have eq: "plang_sstr_insert s cap x index
      = s\<lparr>sstrLen := to_u8 (int (length ?b)), sstrData := memcpy_at (sstrData s) 0 ?b\<rparr>"
    using le unfolding plang_sstr_insert_def Let_def
    by (simp only: idx not_less [THEN iffD2, OF le] if_False nat_int e_def [symmetric] L_def [symmetric])
      (simp add: sstr_record_order)
  have b: "int (length ?b) \<le> effCap cap" "length ?b \<le> length (sstrData s)"
    using kL w(1) by (simp_all add: e_def of_nat_min del: take_append)
  have spec: "insert_spec e (sstr_content s) (sstr_content x) index = ?b"
  proof -
    have "nat (min (max index 1) (int (length (sstr_content s)) + 1) - 1) = k"
      by (simp add: sstr_content_length [OF assms(1)] k_def)
    moreover have "take k (sstr_content s) = take k (sstrData s)"
      using kL(1) by (simp add: sstr_content_def L min_absorb1)
    ultimately show ?thesis by (simp only: insert_spec_def Let_def)
  qed
  have len: "length (memcpy_at (sstrData s) 0 ?b) = length (sstrData s)" using b(2) by (intro length_memcpy_at) simp
  have "take (length ?b) (memcpy_at (sstrData s) 0 ?b) = ?b" using b(2) by (intro take_memcpy_at_0)
  then show ?thesis
    using sstr_store_ok [OF assms(1) _ b(1) len] unfolding eq spec e_def [symmetric] by (simp only: nat_int)
qed

lemma sstr_concat_cstr_ok:
  assumes "sstr_wf cap d" "sstr_wf ca a"
  shows "sstr_wf cap (plang_sstr_concat_cstr d cap a cstr)
       \<and> sstr_content (plang_sstr_concat_cstr d cap a cstr)
           = take (nat (effCap cap)) (sstr_content a @ cstr_content cstr)"
proof -
  define mem where "mem = (case cstr of None \<Rightarrow> [] | Some m \<Rightarrow> m)"
  define lb where "lb = (case cstr of None \<Rightarrow> 0 | Some m \<Rightarrow> strlen m)"
  have lb: "0 \<le> lb" "nat lb \<le> length mem" "cstr_content cstr = take (nat lb) mem"
    using strlen_le by (auto simp: lb_def mem_def strlen_nonneg cstr_content_def take_strlen nat_le_iff
        split: option.splits)
  let ?la = "cat_la2 (len8 a) lb (effCap cap)" and ?lb = "cat_lb2 (len8 a) lb (effCap cap)"
  note w = sstr_wfD [OF assms(1)] sstr_wfD [OF assms(2)]
  note n = cat_lengths [OF len8_range(1) [of a] lb(1) effCap_nonneg [OF w(1)]]
  have le: "nat ?la \<le> length (sstrData a)" "nat ?lb \<le> length mem" "nat ?la + nat ?lb \<le> length (sstrData d)"
    using order_trans [OF nat_mono [OF n(3)] w(6)] order_trans [OF nat_mono [OF n(4)] lb(2)]
      nat_mono [OF order_trans [OF n(5) effCap_le(1)]] w(2)
    by (simp_all add: nat_add_distrib n(1,2))
  have eq: "plang_sstr_concat_cstr d cap a cstr = d\<lparr>sstrLen := to_u8 (?la + ?lb),
       sstrData := memcpy_at (memcpy_at (sstrData d) 0 (take (nat ?la) (sstrData a)))
                     (nat ?la) (take (nat ?lb) mem)\<rparr>"
    unfolding plang_sstr_concat_cstr_def Let_def lb_def [symmetric] cat_la2_def [symmetric] cat_lb2_def [symmetric]
    using n(2) by (cases "?lb = 0") (auto simp: mem_def split: option.splits)
  have "take (nat (effCap cap)) (sstr_content a @ cstr_content cstr)
      = take (nat ?la) (sstrData a) @ take (nat ?lb) mem"
    unfolding sstr_content_def lb(3)
    by (rule cat_bytes [OF len8_range(1) lb(1) effCap_nonneg [OF w(1)] w(6) lb(2)])
  then show ?thesis
    unfolding eq using sstr_store_ok [OF assms(1) add_nonneg_nonneg [OF n(1,2)] n(5) length_memcpy_two [OF le(3,1,2)]]
      n(1,2) le by (simp add: nat_add_distrib memcpy_two)
qed

lemma sstr_concat_char_ok:
  assumes "sstr_wf cap d" "sstr_wf ca a"
  shows "sstr_wf cap (plang_sstr_concat_char d cap a c)
       \<and> sstr_content (plang_sstr_concat_char d cap a c) = take (nat (effCap cap)) (sstr_content a @ [c])"
proof -
  define e where "e = effCap cap"
  note w = sstr_wfD [OF assms(1)] sstr_wfD [OF assms(2)]
  have e: "0 \<le> e" "nat e \<le> length (sstrData d)" "e \<le> effCap cap"
    using w effCap_room [OF assms(1) order_refl] by (simp_all add: e_def)
  show ?thesis
  proof (cases "len8 a < e")
    case True
    let ?d = "(memcpy_at (sstrData d) 0 (take (nat (len8 a)) (sstrData a))) [nat (len8 a) := c]"
    have "plang_sstr_concat_char d cap a c = d\<lparr>sstrLen := to_u8 (len8 a + 1), sstrData := ?d\<rparr>"
      using True by (simp add: plang_sstr_concat_char_def Let_def e_def)
    moreover have len: "length (memcpy_at (sstrData d) 0 (take (nat (len8 a)) (sstrData a))) = length (sstrData d)"
      using True e w(6) by simp
    moreover have "nat (len8 a) < length (sstrData d)" using True e(2) len8_range(1) [of a] by linarith
    then have "take (nat (len8 a + 1)) ?d = sstr_content a @ [c]"
      using w(6) len by (simp add: nat_add_distrib take_Suc_conv_app_nth sstr_content_def memcpy_prefix)
    moreover have "nat (len8 a) < nat e" using True len8_range(1) [of a] by linarith
    then have "take (nat e) (sstr_content a @ [c]) = sstr_content a @ [c]"
      by (intro take_all) (simp add: sstr_content_length [OF assms(2)] Suc_le_eq)
    ultimately show ?thesis using True sstr_store_ok [OF assms(1), of "len8 a + 1" ?d] e
      unfolding e_def by (simp only: length_list_update) simp
  next
    case False
    then have "min (len8 a) (min (len8 a + 1) e) = e" "\<not> e < min (len8 a + 1) e" by auto
    then have "plang_sstr_concat_char d cap a c
        = d\<lparr>sstrLen := to_u8 e, sstrData := memcpy_at (sstrData d) 0 (take (nat e) (sstrData a))\<rparr>"
      by (simp add: plang_sstr_concat_char_def Let_def e_def)
    moreover have "nat e \<le> length (sstrData a)" using False w(6) by linarith
    moreover have "take (nat e) (sstr_content a @ [c]) = take (nat e) (sstrData a)"
      using False w(6) by (simp add: sstr_content_def nat_mono)
    ultimately show ?thesis using sstr_copy_in_ok [OF assms(1) e(1,3)] by (simp add: e_def)
  qed
qed

lemma sstr_setlength_ok:
  assumes "sstr_wf cap s"
  shows "sstr_wf cap (plang_sstr_setlength s cap n)
       \<and> sstr_content (plang_sstr_setlength s cap n) = take (min (nat (effCap cap)) (nat n)) (sstrData s)"
proof -
  let ?n = "min (max n 0) (effCap cap)"
  have n: "0 \<le> ?n" "?n \<le> effCap cap" using sstr_wfD(1) [OF assms] by auto
  have "plang_sstr_setlength s cap n = s\<lparr>sstrLen := to_u8 ?n\<rparr>"
    by (simp add: plang_sstr_setlength_def Let_def min_def max_def)
  moreover have "nat ?n = min (nat (effCap cap)) (nat n)" using sstr_wfD(1) [OF assms] by (auto simp: min_def max_def)
  ultimately show ?thesis using sstr_len_ok [OF assms n] by simp
qed

lemma sstr_of_char_ok:
  assumes "sstr_wf cap d"
  shows "sstr_wf cap (plang_sstr_of_char d cap ch count)
       \<and> sstr_content (plang_sstr_of_char d cap ch count) = replicate (min (nat (effCap cap)) (nat count)) ch"
proof -
  let ?n = "min (max count 0) (effCap cap)"
  have n: "0 \<le> ?n" "?n \<le> effCap cap" using sstr_wfD(1) [OF assms] by auto
  have "plang_sstr_of_char d cap ch count
      = d\<lparr>sstrLen := to_u8 ?n, sstrData := memcpy_at (sstrData d) 0 (take (nat ?n) (replicate (nat ?n) ch))\<rparr>"
    by (auto simp: plang_sstr_of_char_def Let_def min_def max_def)
  moreover have "nat ?n = min (nat (effCap cap)) (nat count)" using sstr_wfD(1) [OF assms] by (auto simp: min_def max_def)
  ultimately show ?thesis using sstr_copy_in_ok [OF assms n, of "replicate (nat ?n) ch"] by simp
qed

subsection \<open>\<open>Pos\<close>: the first occurrence\<close>

lemma find_match_spec:
  "find_match sd pd plen lastI i =
     (if \<exists>j. i \<le> j \<and> j \<le> lastI \<and> match_at sd j pd plen
      then int (LEAST j. i \<le> j \<and> match_at sd j pd plen) + 1 else 0)"
proof (induction sd pd plen lastI i rule: find_match.induct)
  case (1 sd pd plen lastI i)
  consider "\<not> i \<le> lastI" | "i \<le> lastI" "match_at sd i pd plen" | "i \<le> lastI" "\<not> match_at sd i pd plen" by blast
  then show ?case
  proof cases
    case 2
    then have "(LEAST j. i \<le> j \<and> match_at sd j pd plen) = i" by (intro Least_equality) auto
    with 2 show ?thesis by (auto simp: find_match.simps [of sd])
  next
    case 3
    have "i \<le> j \<and> match_at sd j pd plen \<longleftrightarrow> i + 1 \<le> j \<and> match_at sd j pd plen" for j
      using 3(2) by (cases "j = i") auto
    then have "(LEAST j. i \<le> j \<and> match_at sd j pd plen) = (LEAST j. i + 1 \<le> j \<and> match_at sd j pd plen)"
      "(\<exists>j. i \<le> j \<and> j \<le> lastI \<and> match_at sd j pd plen) = (\<exists>j. i + 1 \<le> j \<and> j \<le> lastI \<and> match_at sd j pd plen)"
      by (metis, metis)
    moreover have "find_match sd pd plen lastI i = find_match sd pd plen lastI (i + 1)"
      using 3 by (simp add: find_match.simps [of sd pd plen lastI i])
    ultimately show ?thesis using "1.IH" [OF 3] by (simp only:)
  qed (auto simp: find_match.simps [of sd])
qed

text \<open>An occurrence of \<open>p\<close> in \<open>c\<close> at offset \<open>j\<close>.\<close>

definition occurs_at :: "bytes \<Rightarrow> bytes \<Rightarrow> nat \<Rightarrow> bool" where
  "occurs_at p c j \<longleftrightarrow> take (length p) (drop j c) = p"

lemma match_at_occurs:
  assumes "nat (len8 p) \<le> length (sstrData p)" "nat (len8 s) \<le> length (sstrData s)" "j + nat (len8 p) \<le> nat (len8 s)"
  shows "match_at (sstrData s) j (sstrData p) (nat (len8 p)) \<longleftrightarrow> occurs_at (sstr_content p) (sstr_content s) j"
  using assms by (simp add: match_at_def occurs_at_def sstr_content_def drop_take min_absorb1)

lemma occurs_at_bound: "occurs_at p c j \<Longrightarrow> p \<noteq> [] \<Longrightarrow> j + length p \<le> length c"
  by (auto simp: occurs_at_def dest!: arg_cong [where f = length]) (cases "j \<le> length c"; simp)

lemma sstr_pos_ok:
  assumes "sstr_wf cp p" "sstr_wf cs s"
  shows "plang_sstr_pos p s =
    (if sstr_content p \<noteq> [] \<and> (\<exists>j. occurs_at (sstr_content p) (sstr_content s) j)
     then int (LEAST j. occurs_at (sstr_content p) (sstr_content s) j) + 1 else 0)"
proof -
  define P where "P = nat (len8 p)"
  define S where "S = nat (len8 s)"
  let ?p = "sstr_content p" and ?s = "sstr_content s"
  have len: "length ?p = P" "length ?s = S"
    by (simp_all add: P_def S_def sstr_content_length [OF assms(1)] sstr_content_length [OF assms(2)])
  show ?thesis
  proof (cases "P = 0 \<or> P > S")
    case True
    have "\<not> occurs_at ?p ?s j" if "?p \<noteq> []" for j
      using occurs_at_bound [OF _ that, of ?s j] True len that by (cases "P = 0") auto
    then show ?thesis using True by (auto simp: plang_sstr_pos_def Let_def P_def S_def)
  next
    case False
    then have ne: "?p \<noteq> []" using len by auto
    have iff: "j \<le> S - P \<and> match_at (sstrData s) j (sstrData p) P \<longleftrightarrow> occurs_at ?p ?s j" for j
      using match_at_occurs [OF sstr_wfD(3) [OF assms(1)] sstr_wfD(3) [OF assms(2)], of j]
        occurs_at_bound [OF _ ne, of ?s j] False len by (auto simp: P_def S_def)
    have "(LEAST j. match_at (sstrData s) j (sstrData p) P) = (LEAST j. occurs_at ?p ?s j)"
      if "\<exists>j. occurs_at ?p ?s j"
    proof (rule Least_equality)
      show "match_at (sstrData s) (LEAST j. occurs_at ?p ?s j) (sstrData p) P"
        using LeastI_ex [OF that] iff by blast
    next
      fix y assume y: "match_at (sstrData s) y (sstrData p) P"
      show "(LEAST j. occurs_at ?p ?s j) \<le> y"
      proof (cases "y \<le> S - P")
        case True
        then show ?thesis using y iff by (blast intro: Least_le)
      next
        case False
        then show ?thesis using LeastI_ex [OF that] iff [of "LEAST j. occurs_at ?p ?s j"] by linarith
      qed
    qed
    then show ?thesis using False ne iff
      by (auto simp: plang_sstr_pos_def Let_def P_def [symmetric] S_def [symmetric] find_match_spec)
  qed
qed

subsection \<open>Comparison\<close>

text \<open>What position \<open>i\<close> of a string reads as: below every character past the end.\<close>

definition sstr_at :: "sstr \<Rightarrow> nat \<Rightarrow> int" where
  "sstr_at s i = (if i < nat (len8 s) then int (code_of (sstrData s ! i)) else -1)"

lemma sstrCmp_loop_spec:
  "lm = min (nat (len8 a)) (nat (len8 b)) \<Longrightarrow> i \<le> lm \<Longrightarrow> \<forall>j<i. sstr_at a j = sstr_at b j \<Longrightarrow>
   decides (sstrCmp_loop a b lm i) (sstr_at a) (sstr_at b)"
proof (induction a b lm i rule: sstrCmp_loop.induct)
  case (1 a b lm i)
  consider (here) "i < lm" "sstr_at a i \<noteq> sstr_at b i" | (on) "i < lm" "sstr_at a i = sstr_at b i"
    | (short) "i = lm" "len8 a \<noteq> len8 b" | (same) "i = lm" "len8 a = len8 b"
    using "1.prems"(2) by linarith
  then show ?case
  proof cases
    case here
    then have "sstrCmp_loop a b lm i = (if sstr_at a i < sstr_at b i then -1 else 1)"
      unfolding sstrCmp_loop.simps [of a b lm i] using "1.prems"(1) by (simp add: sstr_at_def)
    then show ?thesis using decides_first [OF "1.prems"(3) here(2)] by (simp only:)
  next
    case on
    then have eq: "code_of (sstrData a ! i) = code_of (sstrData b ! i)"
      using "1.prems"(1) by (simp add: sstr_at_def)
    have "sstrCmp_loop a b lm i = sstrCmp_loop a b lm (i + 1)"
      using on(1) eq by (simp add: sstrCmp_loop.simps [of a b lm i])
    moreover have "\<forall>j<i + 1. sstr_at a j = sstr_at b j"
      using "1.prems"(3) on(2) by (auto simp: less_Suc_eq)
    ultimately show ?thesis using "1.IH" [OF on(1) refl refl] eq "1.prems"(1) on(1) by simp
  next
    case short
    obtain m n where mn: "len8 a = int m" "len8 b = int n" by (metis len8_range(1) nonneg_int_cases)
    have ne: "sstr_at a i \<noteq> sstr_at b i" and lt: "sstr_at a i < sstr_at b i \<longleftrightarrow> len8 a < len8 b"
      using short "1.prems"(1) by (auto simp: sstr_at_def min_def mn split: if_splits)
    have "sstrCmp_loop a b lm i = (if sstr_at a i < sstr_at b i then -1 else 1)"
      unfolding sstrCmp_loop.simps [of a b lm i] using short lt by simp
    then show ?thesis using decides_first [OF "1.prems"(3) ne] by (simp only:)
  next
    case same
    have "sstr_at a j = sstr_at b j" for j
      using same "1.prems"(1,3) by (cases "j < lm") (auto simp: sstr_at_def)
    moreover have "sstrCmp_loop a b lm i = 0"
      unfolding sstrCmp_loop.simps [of a b lm i] using same by simp
    ultimately show ?thesis by (simp only: decides_equal)
  qed
qed

interpretation sstr_order: byte_order sstr_at sstrCmp
  using sstrCmp_loop_spec [OF refl, of 0]
  by unfold_locales (simp_all add: sstrCmp_def decides_def)

lemma seq_eq_iff:
  "(\<forall>i. (if i < length xs then int (code_of (xs ! i)) else -1) = (if i < length ys then int (code_of (ys ! i)) else -1))
   \<longleftrightarrow> xs = ys" (is "?l \<longleftrightarrow> _")
proof
  assume l: ?l
  have "length xs = length ys"
    using spec [OF l, of "length xs"] spec [OF l, of "length ys"] by (auto split: if_splits)
  moreover have "xs ! i = ys ! i" if "i < length xs" for i
    using spec [OF l, of i] that calculation by simp
  ultimately show "xs = ys" by (rule nth_equalityI)
qed simp

subsection \<open>Writing in a field and reading a line\<close>

lemma written_out_spaces [simp]: "written (out_spaces n io) = written io @ replicate n CHR '' ''"
  by (induction n io rule: out_spaces.induct) (auto simp: replicate_append_same)

lemma unread_out_spaces [simp]: "unread_input (out_spaces n io) = unread_input io"
  by (induction n io rule: out_spaces.induct) (auto simp: plangOutCh_def)

definition line_of :: "bytes \<Rightarrow> bytes" where
  "line_of inp = takeWhile (\<lambda>c. c \<noteq> char_of (10::nat)) inp"

definition after_line :: "bytes \<Rightarrow> bytes" where
  "after_line inp = dropWhile (\<lambda>c. c \<noteq> char_of (10::nat)) inp"

text \<open>Putting back the character just read restores the input.\<close>

lemma plangInUnget_unread:
  "plangInCh io = (Some c, io') \<Longrightarrow> unread_input (plangInUnget (Some c) io') = unread_input io"
  by (auto simp: plangInCh_def plangInUnget_def unread_input_def Cons_nth_drop_Suc
      split: option.splits list.splits if_splits)

lemma read_line_loop_spec:
  "read_line_loop cap d len io = (d', n, c, io') \<Longrightarrow> len \<le> cap \<Longrightarrow> cap \<le> length d \<Longrightarrow>
   length d' = length d \<and> n = min cap (len + length (line_of (unread_input io)))
 \<and> take n d' = take n (take len d @ line_of (unread_input io))
 \<and> (c = None \<longrightarrow> unread_input io' = [] \<and> after_line (unread_input io) = [])
 \<and> (c \<noteq> None \<longrightarrow> c = Some (char_of (10::nat)) \<and> unread_input (plangInUnget c io') = after_line (unread_input io))"
proof (induction cap d len io rule: read_line_loop.induct)
  case (1 cap d len io)
  obtain ch io1 where ch: "plangInCh io = (ch, io1)" by (cases "plangInCh io")
  note un = plangInCh_unread [OF ch]
  show ?case
  proof (cases ch)
    case None
    with un ch "1.prems" show ?thesis
      by (auto simp: read_line_loop.simps [of cap d len io] line_of_def after_line_def)
  next
    case (Some x)
    then have u: "unread_input io = x # unread_input io1" using un by auto
    show ?thesis
    proof (cases "x = char_of (10::nat)")
      case True
      with ch Some u "1.prems" plangInUnget_unread [of io x io1] show ?thesis
        by (auto simp: read_line_loop.simps [of cap d len io] line_of_def after_line_def)
    next
      case nl: False
      have l: "line_of (unread_input io) = x # line_of (unread_input io1)"
        "after_line (unread_input io) = after_line (unread_input io1)"
        using nl u by (simp_all add: line_of_def after_line_def)
      show ?thesis
      proof (cases "len < cap")
        case True
        then have "read_line_loop cap (d[len := x]) (len + 1) io1 = (d', n, c, io')"
          using "1.prems"(1) ch Some nl by (simp add: read_line_loop.simps [of cap d len io])
        moreover have "take (len + 1) (d[len := x]) = take len d @ [x]"
          using True "1.prems"(3) by (simp add: take_Suc_conv_app_nth)
        ultimately show ?thesis
          using "1.IH"(1) [OF ch [symmetric] Some nl True] True "1.prems"(3) l
          by (clarsimp simp del: take_append)
      next
        case False
        then have "read_line_loop cap d len io1 = (d', n, c, io')"
          using "1.prems"(1) ch Some nl by (simp add: read_line_loop.simps [of cap d len io])
        moreover have "n \<le> len" using calculation "1.IH"(2) [OF ch [symmetric] Some nl False] "1.prems" False by simp
        ultimately show ?thesis
          using "1.IH"(2) [OF ch [symmetric] Some nl False] False "1.prems"(2,3) l by clarsimp
      qed
    qed
  qed
qed

subsection \<open>Correctness\<close>

text \<open>Reading into a short string takes the rest of the line: the content is the line cut at the
  capacity, the characters that do not fit are consumed, and the line terminator is left for the next
  read.\<close>

theorem sstr_read_line:
  assumes "sstr_wf cap s" "plang_sstr_read s cap io = (s', io')"
  shows "sstr_wf cap s' \<and> sstr_content s' = take (nat (effCap cap)) (line_of (unread_input io))
       \<and> unread_input io' = after_line (unread_input io)"
proof -
  let ?e = "nat (effCap cap)"
  obtain d n c io1 where r: "read_line_loop ?e (sstrData s) 0 io = (d, n, c, io1)" by (metis prod_cases4)
  have e: "?e \<le> length (sstrData s)" using effCap_room [OF assms(1) order_refl] .
  note loop = read_line_loop_spec [OF r _ e]
  have s': "s' = s\<lparr>sstrLen := to_u8 (int n), sstrData := d\<rparr>"
    and io': "io' = (if c = Some (char_of (10::nat)) then plangInUnget c io1 else io1)"
    using assms(2) r by (auto simp: plang_sstr_read_def)
  have "int n \<le> effCap cap" using loop sstr_wfD(1) [OF assms(1)] by (simp add: of_nat_min)
  then have "sstr_wf cap s' \<and> sstr_content s' = take n d"
    unfolding s' using sstr_store_ok [OF assms(1), of "int n" d] loop by simp
  moreover have "take n d = take ?e (line_of (unread_input io))" using loop by (auto simp: min_def split: if_splits)
  moreover have "unread_input io' = after_line (unread_input io)"
    unfolding io' using loop by (cases c) auto
  ultimately show ?thesis by simp
qed

text \<open>C31. No operation of \<^verbatim>\<open>plang_sstr.cpp\<close> that changes a short string writes past its declared capacity: on
  well-formed operands every one of them, the reader of standard input among them, leaves its destination with the
  same number of data bytes and a length byte within the capacity, for every index, count and length argument and
  for every input, however long its lines are.\<close>

theorem sstr_operations_in_bounds:
  assumes "sstr_wf cap d" "sstr_wf ca a" "sstr_wf cb b" "len \<le> int (length mem)"
  shows "sstr_wf cap (plang_sstr_assign d cap a) \<and> sstr_wf cap (plang_sstr_from_bytes d cap (Some mem) len)
       \<and> sstr_wf cap (plang_sstr_from_cstr d cap cstr) \<and> sstr_wf cap (plang_sstr_from_char d cap c)
       \<and> sstr_wf cap (plang_sstr_concat d cap a b) \<and> sstr_wf cap (plang_sstr_concat_cstr d cap a cstr)
       \<and> sstr_wf cap (plang_sstr_concat_char d cap a c) \<and> sstr_wf cap (plang_sstr_copy d cap a index count)
       \<and> sstr_wf cap (plang_sstr_delete d index count) \<and> sstr_wf cap (plang_sstr_insert d cap a index)
       \<and> sstr_wf cap (plang_sstr_setlength d cap count) \<and> sstr_wf cap (plang_sstr_of_char d cap c count)
       \<and> sstr_wf cap (fst (plang_sstr_read d cap io))"
  by (intro conjI conjunct1 [OF sstr_assign_ok] conjunct1 [OF sstr_from_bytes_ok]
      conjunct1 [OF sstr_from_cstr_ok] conjunct1 [OF sstr_from_char_ok] conjunct1 [OF sstr_concat_ok]
      conjunct1 [OF sstr_concat_cstr_ok] conjunct1 [OF sstr_concat_char_ok] conjunct1 [OF sstr_copy_ok]
      conjunct1 [OF sstr_delete_ok] conjunct1 [OF sstr_insert_ok] conjunct1 [OF sstr_setlength_ok]
      conjunct1 [OF sstr_of_char_ok] conjunct1 [OF sstr_read_line [OF _ prod.collapse [symmetric]]]; rule assms)

theorem sstr_operations_in_bounds_witness:
  "sstr_wf 2 (plang_sstr_concat \<lparr>sstrLen = 0, sstrData = ''zz''\<rparr> 2
               \<lparr>sstrLen = 2, sstrData = ''ab''\<rparr> \<lparr>sstrLen = 1, sstrData = ''c''\<rparr>)
   \<and> sstr_wf 2 (plang_sstr_setlength \<lparr>sstrLen = 0, sstrData = ''zz''\<rparr> 2 300)
   \<and> sstr_wf 2 (fst (plang_sstr_read \<lparr>sstrLen = 0, sstrData = ''zz''\<rparr> 2
       \<lparr>PlangInBuf = None, PlangInPos = 0, StdIn = ''abc'', StdOut = [], CapStack = [], CrtEsc = EscNormal,
        CrtCursorCol = 1, CrtCursorRow = 1\<rparr>))"
  using sstr_operations_in_bounds [of 2 "\<lparr>sstrLen = 0, sstrData = ''zz''\<rparr>" 2 "\<lparr>sstrLen = 2, sstrData = ''ab''\<rparr>"
      1 "\<lparr>sstrLen = 1, sstrData = ''c''\<rparr>" 0 "[]" None "CHR ''x''" 1 300
      "\<lparr>PlangInBuf = None, PlangInPos = 0, StdIn = ''abc'', StdOut = [], CapStack = [], CrtEsc = EscNormal,
        CrtCursorCol = 1, CrtCursorRow = 1\<rparr>"]
  by (simp add: sstr_wf_def len8_def)

text \<open>\<open>Concat\<close> of any number of arguments, lowered to a chain of two-operand calls from an empty
  accumulator, yields the concatenation of the arguments cut once at the result's capacity: the
  intermediate cuts lose nothing that the last one would have kept.\<close>

theorem sstr_concat_chain:
  assumes "sstr_wf cap d" "sstr_wf cap acc" "sstr_content acc = []" "\<forall>x \<in> set xs. \<exists>c. sstr_wf c x"
  shows "sstr_content (foldl (plang_sstr_concat d cap) acc xs)
       = take (nat (effCap cap)) (concat (map sstr_content xs))"
  using sstr_bounded.chain [OF assms(1,2,4)] assms(3) by simp

theorem sstr_concat_chain_witness:
  "sstr_content (foldl (plang_sstr_concat \<lparr>sstrLen = 0, sstrData = ''....''\<rparr> 4) \<lparr>sstrLen = 0, sstrData = ''----''\<rparr>
     [\<lparr>sstrLen = 2, sstrData = ''ab''\<rparr>, \<lparr>sstrLen = 1, sstrData = ''c''\<rparr>, \<lparr>sstrLen = 3, sstrData = ''def''\<rparr>])
   = ''abcd''"
proof -
  have "sstr_wf 2 \<lparr>sstrLen = 2, sstrData = ''ab''\<rparr>" "sstr_wf 1 \<lparr>sstrLen = 1, sstrData = ''c''\<rparr>"
    "sstr_wf 3 \<lparr>sstrLen = 3, sstrData = ''def''\<rparr>"
    by (simp_all add: sstr_wf_def len8_def)
  then have "\<forall>x \<in> set [\<lparr>sstrLen = 2, sstrData = ''ab''\<rparr>, \<lparr>sstrLen = 1, sstrData = ''c''\<rparr>,
      \<lparr>sstrLen = 3, sstrData = ''def''\<rparr>]. \<exists>c. sstr_wf c x" by auto
  from sstr_concat_chain [OF _ _ _ this, of 4 "\<lparr>sstrLen = 0, sstrData = ''....''\<rparr>"
      "\<lparr>sstrLen = 0, sstrData = ''----''\<rparr>"]
  show ?thesis by (simp add: sstr_wf_def len8_def sstr_content_def effCap_def kMaxLen_def)
qed

text \<open>\<open>Assign\<close>, \<open>Copy\<close>, \<open>Delete\<close>, \<open>Insert\<close> and \<open>StringOfChar\<close> act on contents as functions of
  contents alone: the cut at the destination's capacity, the slice from the clamped index, the content
  without the deleted slice, the content with the source placed at the clamped index.\<close>

theorem sstr_edits_refine:
  assumes "sstr_wf cap d" "sstr_wf cs s"
  shows "sstr_content (plang_sstr_assign d cap s) = take (nat (effCap cap)) (sstr_content s)
       \<and> sstr_content (plang_sstr_copy d cap s index count)
           = take (nat (effCap cap)) (take (nat count) (drop (nat (index - 1)) (sstr_content s)))
       \<and> sstr_content (plang_sstr_delete d index count) = delete_spec (sstr_content d) index count
       \<and> sstr_content (plang_sstr_insert d cap s index)
           = insert_spec (nat (effCap cap)) (sstr_content d) (sstr_content s) index
       \<and> sstr_content (plang_sstr_of_char d cap c count) = replicate (min (nat (effCap cap)) (nat count)) c"
  using sstr_assign_ok [OF assms] sstr_copy_ok [OF assms] sstr_delete_ok [OF assms(1)]
    sstr_insert_ok [OF assms] sstr_of_char_ok [OF assms(1)] by blast

theorem sstr_edits_refine_witness:
  "sstr_content (plang_sstr_copy \<lparr>sstrLen = 0, sstrData = ''..''\<rparr> 2 \<lparr>sstrLen = 4, sstrData = ''wxyz''\<rparr> 2 9) = ''xy''
   \<and> sstr_content (plang_sstr_delete \<lparr>sstrLen = 2, sstrData = ''ab''\<rparr> 1 1) = ''b''"
  using sstr_edits_refine [of 2 "\<lparr>sstrLen = 0, sstrData = ''..''\<rparr>" 4 "\<lparr>sstrLen = 4, sstrData = ''wxyz''\<rparr>" 2 9]
    sstr_edits_refine [of 2 "\<lparr>sstrLen = 2, sstrData = ''ab''\<rparr>" 4 "\<lparr>sstrLen = 4, sstrData = ''wxyz''\<rparr>" 1 1]
  by (simp add: sstr_wf_def len8_def sstr_content_def effCap_def kMaxLen_def delete_spec_def)

text \<open>Inserting a string that fits is undone by deleting as many characters at the same index, and
  copying them out gives the inserted string back.\<close>

theorem sstr_delete_insert:
  assumes "sstr_wf cap s" "sstr_wf cx x" "sstr_wf cap d" "1 \<le> index" "index \<le> len8 s + 1"
    "len8 s + len8 x \<le> effCap cap"
  shows "sstr_content (plang_sstr_delete (plang_sstr_insert s cap x index) index (len8 x)) = sstr_content s
       \<and> sstr_content (plang_sstr_copy d cap (plang_sstr_insert s cap x index) index (len8 x)) = sstr_content x"
proof -
  define k where "k = nat (index - 1)"
  let ?s = "sstr_content s" and ?x = "sstr_content x" and ?i = "plang_sstr_insert s cap x index"
  have len: "int (length ?s) = len8 s" "int (length ?x) = len8 x"
    by (simp_all add: sstr_content_length [OF assms(1)] sstr_content_length [OF assms(2)])
  have k: "k \<le> length ?s" "index = int k + 1" using assms(4,5) len(1) by (auto simp: k_def)
  have i: "sstr_wf cap ?i" "sstr_content ?i = take k ?s @ ?x @ drop k ?s"
    using sstr_insert_ok [OF assms(1,2), of index] assms(6) len k
    by (simp_all add: insert_spec_def Let_def del: take_append)
  have "length (take k ?s @ ?x @ drop k ?s) = length ?s + length ?x" using k by simp
  then have "delete_spec (take k ?s @ ?x @ drop k ?s) index (len8 x) = ?s"
    using k by (cases ?x) (auto simp: delete_spec_def len(2) [symmetric] nat_add_distrib)
  moreover have "take (nat (effCap cap)) ?x = ?x"
    using assms(6) len len8_range(1) [of s] by (intro take_all) linarith
  ultimately show ?thesis
    using sstr_delete_ok [OF i(1), of index "len8 x"] sstr_copy_ok [OF assms(3) i(1), of index "len8 x"] i(2) k
    by (simp add: len(2) [symmetric])
qed

theorem sstr_delete_insert_witness:
  "sstr_content (plang_sstr_delete (plang_sstr_insert \<lparr>sstrLen = 2, sstrData = ''ab..''\<rparr> 4
     \<lparr>sstrLen = 1, sstrData = ''x''\<rparr> 2) 2 1) = ''ab''"
  using sstr_delete_insert [of 4 "\<lparr>sstrLen = 2, sstrData = ''ab..''\<rparr>" 1 "\<lparr>sstrLen = 1, sstrData = ''x''\<rparr>"
      "\<lparr>sstrLen = 0, sstrData = ''....''\<rparr>" 2]
  by (simp add: sstr_wf_def len8_def sstr_content_def effCap_def kMaxLen_def)

text \<open>\<open>Pos\<close> answers the 1-based offset of the first occurrence of a nonempty pattern, and 0 when
  the pattern is empty or does not occur.\<close>

theorem sstr_pos_first:
  assumes "sstr_wf cp p" "sstr_wf cs s"
  shows "plang_sstr_pos p s =
    (if sstr_content p \<noteq> [] \<and> (\<exists>j. occurs_at (sstr_content p) (sstr_content s) j)
     then int (LEAST j. occurs_at (sstr_content p) (sstr_content s) j) + 1 else 0)"
  using assms by (rule sstr_pos_ok)

theorem sstr_pos_first_witness:
  "plang_sstr_pos \<lparr>sstrLen = 1, sstrData = ''b''\<rparr> \<lparr>sstrLen = 3, sstrData = ''abb''\<rparr> = 2"
proof -
  have occ: "occurs_at ''b'' ''abb'' 1" "\<not> occurs_at ''b'' ''abb'' 0" by (simp_all add: occurs_at_def)
  have "(LEAST j. occurs_at ''b'' ''abb'' j) = 1"
    using occ by (intro Least_equality) (auto simp: Suc_le_eq intro: Nat.gr0I)
  then show ?thesis
    using occ sstr_pos_first [of 1 "\<lparr>sstrLen = 1, sstrData = ''b''\<rparr>" 3 "\<lparr>sstrLen = 3, sstrData = ''abb''\<rparr>"]
    by (auto simp: sstr_wf_def len8_def sstr_content_def)
qed

text \<open>The six relational operators on short strings are one total order: equality is equality of
  contents, a proper prefix is smaller than what it begins (no blank padding), and the order is
  transitive.\<close>

theorem sstr_comparison_order:
  assumes "sstr_wf ca a" "sstr_wf cb b"
  shows "(plang_sstr_eq a b \<longleftrightarrow> sstr_content a = sstr_content b) \<and> (plang_sstr_ne a b \<longleftrightarrow> \<not> plang_sstr_eq a b)
       \<and> (plang_sstr_gt a b \<longleftrightarrow> plang_sstr_lt b a) \<and> (plang_sstr_ge a b \<longleftrightarrow> plang_sstr_le b a)
       \<and> (plang_sstr_le a b \<longleftrightarrow> plang_sstr_lt a b \<or> plang_sstr_eq a b)
       \<and> (plang_sstr_le a b \<and> plang_sstr_le b e \<longrightarrow> plang_sstr_le a e)
       \<and> ((\<exists>t. t \<noteq> [] \<and> sstr_content b = sstr_content a @ t) \<longrightarrow> plang_sstr_lt a b)"
proof -
  note w = sstr_wfD(3) [OF assms(1)] sstr_wfD(3) [OF assms(2)]
  have at: "sstr_at a i = (if i < length (sstr_content a) then int (code_of (sstr_content a ! i)) else -1)"
     "sstr_at b i = (if i < length (sstr_content b) then int (code_of (sstr_content b ! i)) else -1)" for i
    using w by (simp_all add: sstr_at_def sstr_content_def min_absorb1)
  have "sstrCmp a b = 0 \<longleftrightarrow> sstr_content a = sstr_content b"
    unfolding sstr_order.cmp_zero at seq_eq_iff ..
  moreover have "sstrCmp a b < 0" if "t \<noteq> []" "sstr_content b = sstr_content a @ t" for t
    unfolding sstr_order.cmp_neg at using that
    by (intro exI [where x = "length (sstr_content a)"]) (auto simp: nth_append)
  ultimately show ?thesis
    using sstr_order.cmp_pos [of a b] sstr_order.cmp_pos [of b a] sstr_order.cmp_le_trans [of a b e]
    by (auto simp: plang_sstr_eq_def plang_sstr_ne_def plang_sstr_lt_def plang_sstr_le_def
        plang_sstr_gt_def plang_sstr_ge_def)
qed

theorem sstr_comparison_order_witness:
  "plang_sstr_lt \<lparr>sstrLen = 1, sstrData = ''a''\<rparr> \<lparr>sstrLen = 2, sstrData = ''a ''\<rparr>
   \<and> \<not> plang_sstr_eq \<lparr>sstrLen = 1, sstrData = ''a''\<rparr> \<lparr>sstrLen = 2, sstrData = ''a ''\<rparr>"
  using sstr_comparison_order [of 1 "\<lparr>sstrLen = 1, sstrData = ''a''\<rparr>" 2 "\<lparr>sstrLen = 2, sstrData = ''a ''\<rparr>"]
  by (simp add: sstr_wf_def len8_def sstr_content_def)

text \<open>\<open>write(s : w)\<close> puts exactly \<open>w\<close> characters out for every positive width the runtime accepts:
  the content right-justified in blanks, or its first \<open>w\<close> characters.  A zero width writes nothing, a
  negative one the whole content, and a width no C \<open>int\<close> holds is the field-width error.\<close>

theorem sstr_write_field:
  assumes "sstr_wf cap s"
  shows "case plang_sstr_write_w s w io of
           Inl e \<Rightarrow> w > INT32_MAX \<and> e = FieldWidth w
         | Inr io' \<Rightarrow> w \<le> INT32_MAX \<and> unread_input io' = unread_input io
             \<and> written io' = written io @
                 (if w < 0 then sstr_content s
                  else replicate (nat w - length (sstr_content s)) CHR '' '' @ take (nat w) (sstr_content s))
             \<and> (0 \<le> w \<longrightarrow> length (written io') = length (written io) + nat w)"
proof -
  obtain n where n: "len8 s = int n" by (metis len8_range(1) nonneg_int_cases)
  have c: "sstr_content s = take n (sstrData s)" "n \<le> length (sstrData s)"
    using sstr_wfD(3) [OF assms] by (simp_all add: sstr_content_def n)
  consider "w = 0" | "w < 0" | "w > INT32_MAX" | "0 < w" "w \<le> INT32_MAX" by linarith
  then show ?thesis
  proof cases
    case 4
    then obtain m where m: "w = int m" "0 < m" by (metis zero_less_imp_eq_int)
    from 4 c show ?thesis
      by (auto simp: plang_sstr_write_w_def Let_def n m min_def)
  qed (use c in \<open>auto simp: plang_sstr_write_w_def Let_def n INT32_MAX_def min_def\<close>)
qed

theorem sstr_write_field_witness:
  "\<exists>io'. plang_sstr_write_w \<lparr>sstrLen = 2, sstrData = ''ab''\<rparr> 4
     \<lparr>PlangInBuf = None, PlangInPos = 0, StdIn = [], StdOut = ''>'', CapStack = [], CrtEsc = EscNormal,
      CrtCursorCol = 1, CrtCursorRow = 1\<rparr> = Inr io' \<and> written io' = ''>  ab''"
  using sstr_write_field [of 2 "\<lparr>sstrLen = 2, sstrData = ''ab''\<rparr>" 4
    "\<lparr>PlangInBuf = None, PlangInPos = 0, StdIn = [], StdOut = ''>'', CapStack = [], CrtEsc = EscNormal,
      CrtCursorCol = 1, CrtCursorRow = 1\<rparr>"]
  by (auto simp: sstr_wf_def len8_def sstr_content_def INT32_MAX_def written_def replicate_2 split: sum.splits)

theorem sstr_read_line_witness:
  "(case plang_sstr_read \<lparr>sstrLen = 0, sstrData = ''..''\<rparr> 2
     \<lparr>PlangInBuf = None, PlangInPos = 0, StdIn = [CHR ''a'', CHR ''b'', CHR ''c'', char_of (10::nat), CHR ''d''],
      StdOut = [], CapStack = [], CrtEsc = EscNormal, CrtCursorCol = 1, CrtCursorRow = 1\<rparr> of
     (s', io') \<Rightarrow> sstr_content s' = ''ab'' \<and> unread_input io' = [char_of (10::nat), CHR ''d''])"
proof -
  let ?io = "\<lparr>PlangInBuf = None, PlangInPos = 0, StdIn = [CHR ''a'', CHR ''b'', CHR ''c'', char_of (10::nat), CHR ''d''],
      StdOut = [], CapStack = [], CrtEsc = EscNormal, CrtCursorCol = 1, CrtCursorRow = 1\<rparr>"
  have "line_of (unread_input ?io) = ''abc''" "after_line (unread_input ?io) = [char_of (10::nat), CHR ''d'']"
    by code_simp+
  moreover have "sstr_wf 2 \<lparr>sstrLen = 0, sstrData = ''..''\<rparr>" by (simp add: sstr_wf_def len8_def)
  ultimately show ?thesis
    using sstr_read_line [of 2 "\<lparr>sstrLen = 0, sstrData = ''..''\<rparr>" ?io]
    by (auto simp: effCap_def kMaxLen_def split: prod.split)
qed

end
