(* ===== verification/Var_String.thy ===== *)
theory Var_String
  imports Short_String
begin

text \<open>
  Extended Pascal's \<open>string(N)\<close>, \<^verbatim>\<open>runtime/plang_str.cpp\<close>: a 64-bit length and \<open>N\<close> bytes of data.
  As for the short strings, the record is the variable's memory and keeps its size; unlike them, an assignment
  that does not fit and a substring that is not there are run-time errors, and a comparison reads a blank
  past the end of the shorter operand.  Lengths are bounded by the capacities the compiler declares, so
  their sums stay far inside 64 bits and are plain integers; the index arithmetic of a substring,
  whose operands are the program's, is written so that no sum of two of them is formed, as in the code.
\<close>

record str_var =
  strLen :: int
  strData :: bytes

datatype str_error =
    StrCapacity int int
  | SubstrRange int int int
  | SubstrAssign int int
  | StrFieldWidth int

subsection \<open>Definitions\<close>

definition plang_str_init :: "str_var \<Rightarrow> int \<Rightarrow> str_var" where
  "plang_str_init s cap = s\<lparr>strLen := 0, strData := memcpy_at (strData s) 0 (replicate (nat cap) CHR 0x00)\<rparr>"

definition plang_str_assign :: "str_var \<Rightarrow> int \<Rightarrow> str_var \<Rightarrow> str_error + str_var" where
  "plang_str_assign dst cap_dst src =
     (let len = strLen src in
      if len > cap_dst then Inl (StrCapacity len cap_dst)
      else Inr (dst\<lparr>strLen := len, strData := memcpy_at (strData dst) 0 (take (nat len) (strData src))\<rparr>))"

definition plang_str_from_bytes :: "str_var \<Rightarrow> int \<Rightarrow> bytes option \<Rightarrow> int \<Rightarrow> str_error + str_var" where
  "plang_str_from_bytes dst cap src len =
     (case src of
        None \<Rightarrow> Inr (dst\<lparr>strLen := 0\<rparr>)
      | Some mem \<Rightarrow>
          (if len \<le> 0 then Inr (dst\<lparr>strLen := 0\<rparr>)
           else if len > cap then Inl (StrCapacity len cap)
           else Inr (dst\<lparr>strLen := len, strData := memcpy_at (strData dst) 0 (take (nat len) mem)\<rparr>)))"

definition plang_str_from_cstr :: "str_var \<Rightarrow> int \<Rightarrow> bytes option \<Rightarrow> str_error + str_var" where
  "plang_str_from_cstr dst cap src =
     (case src of
        None \<Rightarrow> Inr (dst\<lparr>strLen := 0\<rparr>)
      | Some mem \<Rightarrow>
          (let len = strlen mem in
           if len > cap then Inl (StrCapacity len cap)
           else Inr (dst\<lparr>strLen := len, strData := memcpy_at (strData dst) 0 (take (nat len) mem)\<rparr>)))"

definition plang_str_from_char :: "str_var \<Rightarrow> int \<Rightarrow> char \<Rightarrow> str_var" where
  "plang_str_from_char dst cap c =
     (if cap < 1 then dst\<lparr>strLen := 0\<rparr> else dst\<lparr>strLen := 1, strData := (strData dst)[0 := c]\<rparr>)"

definition plang_str_concat :: "str_var \<Rightarrow> int \<Rightarrow> str_var \<Rightarrow> str_var \<Rightarrow> str_var" where
  "plang_str_concat dst cap_dst a b =
     (let la = strLen a; lb = strLen b; ld = min (la + lb) cap_dst; la2 = min la ld; lb2 = min lb (ld - la2);
          data1 = memcpy_at (strData dst) 0 (take (nat la2) (strData a));
          data2 = memcpy_at data1 (nat la2) (take (nat lb2) (strData b)) in
      dst\<lparr>strData := data2, strLen := la2 + lb2\<rparr>)"

definition plang_str_concat_cstr :: "str_var \<Rightarrow> int \<Rightarrow> str_var \<Rightarrow> bytes option \<Rightarrow> str_var" where
  "plang_str_concat_cstr dst cap_dst a cstr =
     (let la = strLen a; lb = (case cstr of None \<Rightarrow> 0 | Some mem \<Rightarrow> strlen mem);
          ld = min (la + lb) cap_dst; la2 = min la ld; lb2 = min lb (ld - la2);
          data1 = memcpy_at (strData dst) 0 (take (nat la2) (strData a));
          data2 = (case cstr of
                     Some mem \<Rightarrow> (if lb2 > 0 then memcpy_at data1 (nat la2) (take (nat lb2) mem) else data1)
                   | None \<Rightarrow> data1) in
      dst\<lparr>strData := data2, strLen := la2 + lb2\<rparr>)"

definition plang_str_concat_char :: "str_var \<Rightarrow> int \<Rightarrow> str_var \<Rightarrow> char \<Rightarrow> str_var" where
  "plang_str_concat_char dst cap_dst a c =
     (let la = strLen a; ld = min (la + 1) cap_dst; la2 = min la ld;
          data1 = memcpy_at (strData dst) 0 (take (nat la2) (strData a));
          data2 = (if la2 < ld then data1[nat la2 := c] else data1) in
      dst\<lparr>strData := data2, strLen := la2 + (if la2 < ld then 1 else 0)\<rparr>)"

text \<open>What position \<open>i\<close> reads as in a comparison, and the loop over the longer operand.\<close>

definition str_char :: "str_var \<Rightarrow> nat \<Rightarrow> char" where
  "str_char s i = (if int i < strLen s then strData s ! i else CHR '' '')"

function strCmp_loop :: "str_var \<Rightarrow> str_var \<Rightarrow> nat \<Rightarrow> nat \<Rightarrow> int" where
  "strCmp_loop a b lm i =
     (if i < lm then
        (let ca = str_char a i; cb = str_char b i in
         if ca \<noteq> cb then (if code_of ca < code_of cb then -1 else 1) else strCmp_loop a b lm (i + 1))
      else 0)"
  by pat_completeness auto
termination
  by (relation "measure (\<lambda>(a, b, lm, i). lm - i)") auto

declare strCmp_loop.simps [simp del]

definition strCmp :: "str_var \<Rightarrow> str_var \<Rightarrow> int" where
  "strCmp a b = strCmp_loop a b (nat (max (strLen a) (strLen b))) 0"

definition plang_str_eq :: "str_var \<Rightarrow> str_var \<Rightarrow> bool" where "plang_str_eq a b \<longleftrightarrow> strCmp a b = 0"
definition plang_str_ne :: "str_var \<Rightarrow> str_var \<Rightarrow> bool" where "plang_str_ne a b \<longleftrightarrow> strCmp a b \<noteq> 0"
definition plang_str_lt :: "str_var \<Rightarrow> str_var \<Rightarrow> bool" where "plang_str_lt a b \<longleftrightarrow> strCmp a b < 0"
definition plang_str_le :: "str_var \<Rightarrow> str_var \<Rightarrow> bool" where "plang_str_le a b \<longleftrightarrow> strCmp a b \<le> 0"
definition plang_str_gt :: "str_var \<Rightarrow> str_var \<Rightarrow> bool" where "plang_str_gt a b \<longleftrightarrow> strCmp a b > 0"
definition plang_str_ge :: "str_var \<Rightarrow> str_var \<Rightarrow> bool" where "plang_str_ge a b \<longleftrightarrow> strCmp a b \<ge> 0"

definition plang_str_length :: "str_var \<Rightarrow> int" where "plang_str_length s = strLen s"

definition plang_str_index :: "str_var \<Rightarrow> str_var \<Rightarrow> int" where
  "plang_str_index s pat =
     (let ls = nat (strLen s); lp = nat (strLen pat) in
      if lp = 0 then 1 else if lp > ls then 0
      else find_match (strData s) (strData pat) lp (ls - lp) 0)"

definition plang_str_substr :: "str_var \<Rightarrow> int \<Rightarrow> str_var \<Rightarrow> int \<Rightarrow> int \<Rightarrow> str_error + str_var" where
  "plang_str_substr dst cap_dst src i n =
     (let ls = strLen src in
      if n < 0 \<or> i < 1 \<or> (n > 0 \<and> (i > ls \<or> n > ls - i + 1)) then Inl (SubstrRange i n ls)
      else let len = min n cap_dst in
           Inr (dst\<lparr>strData := memcpy_at (strData dst) 0 (take (nat len) (drop (nat (i - 1)) (strData src))), strLen := len\<rparr>))"

definition plang_str_substr_assign :: "str_var \<Rightarrow> int \<Rightarrow> int \<Rightarrow> str_var \<Rightarrow> str_error + str_var" where
  "plang_str_substr_assign dst i n src =
     (let ld = strLen dst in
      if n \<le> 0 \<or> i < 1 \<or> i > ld \<or> n > ld - i + 1 then Inl (SubstrRange i n ld)
      else let ls = strLen src in
           if ls \<noteq> n then Inl (SubstrAssign ls n)
           else Inr (dst\<lparr>strData := memcpy_at (strData dst) (nat (i - 1)) (take (nat n) (strData src))\<rparr>))"

fun trim_len :: "bytes \<Rightarrow> nat \<Rightarrow> nat" where
  "trim_len d 0 = 0"
| "trim_len d (Suc k) = (if d ! k = CHR '' '' then trim_len d k else Suc k)"

definition plang_str_trim :: "str_var \<Rightarrow> int \<Rightarrow> str_var \<Rightarrow> str_var" where
  "plang_str_trim dst cap_dst src =
     (let ls = int (trim_len (strData src) (nat (strLen src))); len = min ls cap_dst in
      dst\<lparr>strData := memcpy_at (strData dst) 0 (take (nat len) (strData src)), strLen := len\<rparr>)"

subsection \<open>Input and output\<close>

definition plang_str_write :: "str_var \<Rightarrow> rt_stream \<Rightarrow> rt_stream" where
  "plang_str_write s io = (if strLen s > 0 then plangOutN (take (nat (strLen s)) (strData s)) io else io)"

definition plang_str_writeln :: "str_var \<Rightarrow> rt_stream \<Rightarrow> rt_stream" where
  "plang_str_writeln s io = plangOutCh (char_of (10::nat)) (plang_str_write s io)"

definition plang_str_write_w :: "str_var \<Rightarrow> int \<Rightarrow> rt_stream \<Rightarrow> str_error + rt_stream" where
  "plang_str_write_w s w io =
     (if w = 0 then Inr io
      else let len = strLen s in
           if w < 0 then Inr (if len > 0 then plangOutN (take (nat len) (strData s)) io else io)
           else if w > INT32_MAX then Inl (StrFieldWidth w)
           else let io1 = out_spaces (nat (w - len)) io; len' = (if len > w then w else len) in
                Inr (if len' > 0 then plangOutN (take (nat len') (strData s)) io1 else io1))"

definition plang_str_writeln_w :: "str_var \<Rightarrow> int \<Rightarrow> rt_stream \<Rightarrow> str_error + rt_stream" where
  "plang_str_writeln_w s w io =
     (case plang_str_write_w s w io of Inl e \<Rightarrow> Inl e | Inr io' \<Rightarrow> Inr (plangOutCh (char_of (10::nat)) io'))"

definition plang_str_read :: "str_var \<Rightarrow> int \<Rightarrow> rt_stream \<Rightarrow> str_var \<times> rt_stream" where
  "plang_str_read s cap io =
     (case read_line_loop (nat cap) (strData s) 0 io of
        (d, len, c, io') \<Rightarrow>
          (s\<lparr>strData := d, strLen := int len\<rparr>, if c = Some (char_of (10::nat)) then plangInUnget c io' else io'))"

text \<open>The fixed-string loop counts every character of the line, stored or not.\<close>

function read_fixed_loop :: "nat \<Rightarrow> bytes \<Rightarrow> nat \<Rightarrow> rt_stream \<Rightarrow> bytes \<times> nat \<times> char option \<times> rt_stream" where
  "read_fixed_loop n d len io =
     (case plangInCh io of
        (None, io') \<Rightarrow> (d, len, None, io')
      | (Some c, io') \<Rightarrow>
          (if c = char_of (10::nat) then (d, len, Some c, io')
           else read_fixed_loop n (if len < n then d[len := c] else d) (len + 1) io'))"
  by pat_completeness auto
termination
  by (relation "measure (\<lambda>(n, d, len, io). length (unread_input io))") (auto dest: plangInCh_Some_less [OF sym])

declare read_fixed_loop.simps [simp del]

fun blank_fill :: "bytes \<Rightarrow> nat \<Rightarrow> nat \<Rightarrow> bytes" where
  "blank_fill d i 0 = d"
| "blank_fill d i (Suc k) = blank_fill (d[i := CHR '' '']) (Suc i) k"

definition plang_str_read_fixed :: "bytes \<Rightarrow> nat \<Rightarrow> rt_stream \<Rightarrow> bytes \<times> rt_stream" where
  "plang_str_read_fixed buf n io =
     (case read_fixed_loop n buf 0 io of
        (d, len, c, io') \<Rightarrow> (blank_fill d len (n - len), if c = Some (char_of (10::nat)) then plangInUnget c io' else io'))"

subsection \<open>Well-formed variables and their content\<close>

definition str_wf :: "int \<Rightarrow> str_var \<Rightarrow> bool" where
  "str_wf cap s \<longleftrightarrow> 0 \<le> strLen s \<and> strLen s \<le> cap \<and> length (strData s) = nat cap"

definition str_content :: "str_var \<Rightarrow> bytes" where
  "str_content s = take (nat (strLen s)) (strData s)"

lemma str_wfD:
  "str_wf cap s \<Longrightarrow> 0 \<le> strLen s" "str_wf cap s \<Longrightarrow> nat (strLen s) \<le> length (strData s)" "str_wf cap s \<Longrightarrow> 0 \<le> cap"
  "str_wf cap s \<Longrightarrow> length (strData s) = nat cap"
  by (auto simp: str_wf_def)

lemma length_str_content: "str_wf cap s \<Longrightarrow> int (length (str_content s)) = strLen s"
  by (auto simp: str_content_def str_wf_def)

lemma str_content_bound: "str_wf cap s \<Longrightarrow> length (str_content s) \<le> nat cap"
  by (auto simp: str_wf_def str_content_def nat_mono)

lemma str_store_ok:
  "str_wf cap s \<Longrightarrow> 0 \<le> n \<Longrightarrow> n \<le> cap \<Longrightarrow> length d = length (strData s) \<Longrightarrow>
   str_wf cap (s\<lparr>strLen := n, strData := d\<rparr>) \<and> str_content (s\<lparr>strLen := n, strData := d\<rparr>) = take (nat n) d"
  by (simp add: str_wf_def str_content_def)

text \<open>A store of \<open>n\<close> bytes at the start of the data, the shape of every copy.\<close>

lemma str_copy_in_ok:
  assumes "str_wf cap s" "0 \<le> n" "n \<le> cap" "length bs = nat n"
  shows "str_wf cap (s\<lparr>strLen := n, strData := memcpy_at (strData s) 0 bs\<rparr>)
       \<and> str_content (s\<lparr>strLen := n, strData := memcpy_at (strData s) 0 bs\<rparr>) = bs"
proof -
  have "length (memcpy_at (strData s) 0 bs) = length (strData s)"
    using assms str_wfD(4) [OF assms(1)] by (intro length_memcpy_at) (simp add: nat_mono)
  moreover have "take (nat n) (memcpy_at (strData s) 0 bs) = bs" using assms(4) take_memcpy_at_0 [of bs "strData s"] by simp
  ultimately show ?thesis using str_store_ok [OF assms(1-3)] by simp
qed

text \<open>The order of the two stores does not matter.\<close>

lemma str_record_order: "s\<lparr>strData := d, strLen := l\<rparr> = s\<lparr>strLen := l, strData := d\<rparr>"
  by simp

subsection \<open>Copying\<close>

lemma str_assign_ok:
  assumes "str_wf cap d" "str_wf cs s"
  shows "case plang_str_assign d cap s of
      Inl e \<Rightarrow> cap < int (length (str_content s)) \<and> e = StrCapacity (int (length (str_content s))) cap
    | Inr r \<Rightarrow> str_wf cap r \<and> str_content r = str_content s"
proof (cases "strLen s > cap")
  case True
  then show ?thesis by (simp add: plang_str_assign_def length_str_content [OF assms(2)])
next
  case False
  have "length (take (nat (strLen s)) (strData s)) = nat (strLen s)" using str_wfD(2) [OF assms(2)] by simp
  then show ?thesis using False str_copy_in_ok [OF assms(1) str_wfD(1) [OF assms(2)], of "take (nat (strLen s)) (strData s)"]
    by (simp add: plang_str_assign_def Let_def) (simp add: str_content_def)
qed

lemma str_from_bytes_ok:
  assumes "str_wf cap d" "\<And>mem. src = Some mem \<Longrightarrow> nat len \<le> length mem"
  shows "case plang_str_from_bytes d cap src len of
      Inl e \<Rightarrow> cap < len \<and> src \<noteq> None \<and> e = StrCapacity len cap
    | Inr r \<Rightarrow> str_wf cap r \<and> str_content r = (case src of None \<Rightarrow> [] | Some mem \<Rightarrow> take (nat len) mem)"
proof (cases "src = None \<or> len \<le> 0 \<or> len > cap")
  case True
  then show ?thesis using assms(1) by (auto simp: plang_str_from_bytes_def str_wf_def str_content_def split: option.splits)
next
  case False
  then obtain mem where m: "src = Some mem" "0 < len" "len \<le> cap" by auto
  then show ?thesis using str_copy_in_ok [OF assms(1), of len "take (nat len) mem"] assms(2) [of mem]
    by (simp add: plang_str_from_bytes_def)
qed

lemma str_from_cstr_ok:
  assumes "str_wf cap d"
  shows "case plang_str_from_cstr d cap src of
      Inl e \<Rightarrow> cap < int (length (cstr_content src)) \<and> e = StrCapacity (int (length (cstr_content src))) cap
    | Inr r \<Rightarrow> str_wf cap r \<and> str_content r = cstr_content src"
proof (cases src)
  case None
  then show ?thesis using assms by (auto simp: plang_str_from_cstr_def str_wf_def str_content_def cstr_content_def)
next
  case (Some mem)
  have l: "strlen mem = int (length (cstr_content src))" by (simp add: Some strlen_def cstr_content_def)
  have t: "take (nat (strlen mem)) mem = cstr_content src" by (simp add: Some take_strlen cstr_content_def)
  show ?thesis
  proof (cases "strlen mem > cap")
    case True
    then show ?thesis by (simp add: plang_str_from_cstr_def Some l)
  next
    case False
    then show ?thesis using str_copy_in_ok [OF assms strlen_nonneg, of mem "cstr_content src"] l t
      by (simp add: plang_str_from_cstr_def Some Let_def)
  qed
qed

lemma str_from_char_ok:
  "str_wf cap d \<Longrightarrow> str_wf cap (plang_str_from_char d cap c) \<and> str_content (plang_str_from_char d cap c) = take (nat cap) [c]"
  by (cases "strData d") (auto simp: plang_str_from_char_def str_wf_def str_content_def)

lemma str_init_ok: "str_wf cap s \<Longrightarrow> str_wf cap (plang_str_init s cap) \<and> str_content (plang_str_init s cap) = []"
  by (auto simp: plang_str_init_def str_wf_def str_content_def)

subsection \<open>Concatenation\<close>

lemma str_concat_ok:
  assumes "str_wf cap d" "str_wf ca a" "str_wf cb b"
  shows "str_wf cap (plang_str_concat d cap a b)
       \<and> str_content (plang_str_concat d cap a b) = take (nat cap) (str_content a @ str_content b)"
proof -
  let ?la = "cat_la2 (strLen a) (strLen b) cap" and ?lb = "cat_lb2 (strLen a) (strLen b) cap"
  note w = str_wfD [OF assms(1)] str_wfD [OF assms(2)] str_wfD [OF assms(3)]
  note n = cat_lengths [OF w(5) w(9) w(3)]
  have le: "nat ?la \<le> length (strData a)" "nat ?lb \<le> length (strData b)" "nat ?la + nat ?lb \<le> length (strData d)"
    using order_trans [OF nat_mono [OF n(3)] w(6)] order_trans [OF nat_mono [OF n(4)] w(10)] nat_mono [OF n(5)] w(4)
    by (simp_all add: nat_add_distrib n(1,2))
  let ?d = "memcpy_at (memcpy_at (strData d) 0 (take (nat ?la) (strData a))) (nat ?la) (take (nat ?lb) (strData b))"
  have eq: "plang_str_concat d cap a b = d\<lparr>strLen := ?la + ?lb, strData := ?d\<rparr>"
    by (simp add: plang_str_concat_def Let_def cat_la2_def cat_lb2_def)
  have "take (nat (?la + ?lb)) ?d = take (nat ?la) (strData a) @ take (nat ?lb) (strData b)"
    using n(1,2) le by (simp add: nat_add_distrib memcpy_two)
  moreover have "take (nat cap) (str_content a @ str_content b) = take (nat ?la) (strData a) @ take (nat ?lb) (strData b)"
    unfolding str_content_def by (rule cat_bytes [OF w(5) w(9) w(3) w(6) w(10)])
  ultimately show ?thesis
    unfolding eq using str_store_ok [OF assms(1) _ n(5), of ?d] n(1,2) length_memcpy_two [OF le(3,1,2)] by simp
qed

interpretation str_bounded: bounded_string str_content str_wf nat plang_str_concat
  by unfold_locales (use str_content_bound str_concat_ok in auto)

lemma str_concat_cstr_ok:
  assumes "str_wf cap d" "str_wf ca a"
  shows "str_wf cap (plang_str_concat_cstr d cap a cs)
       \<and> str_content (plang_str_concat_cstr d cap a cs) = take (nat cap) (str_content a @ cstr_content cs)"
proof -
  define mem where "mem = (case cs of None \<Rightarrow> [] | Some m \<Rightarrow> m)"
  let ?b = "\<lparr>strLen = strlen mem, strData = mem\<rparr>"
  have lb: "(case cs of None \<Rightarrow> 0 | Some m \<Rightarrow> strlen m) = strlen mem" by (simp add: mem_def strlen_def split: option.split)
  have "plang_str_concat_cstr d cap a cs = plang_str_concat d cap a ?b"
    by (cases cs) (auto simp: plang_str_concat_cstr_def plang_str_concat_def Let_def mem_def strlen_def not_less)
  moreover have "str_content ?b = cstr_content cs"
    by (simp add: str_content_def take_strlen) (simp add: mem_def cstr_content_def split: option.split)
  moreover have "str_wf (int (length mem)) ?b" by (simp add: str_wf_def strlen_le)
  ultimately show ?thesis using str_concat_ok [OF assms, of "int (length mem)" ?b] by simp
qed

lemma str_concat_char_ok:
  assumes "str_wf cap d" "str_wf ca a"
  shows "str_wf cap (plang_str_concat_char d cap a c)
       \<and> str_content (plang_str_concat_char d cap a c) = take (nat cap) (str_content a @ [c])"
proof -
  let ?b = "\<lparr>strLen = 1, strData = [c]\<rparr>"
  let ?d = "memcpy_at (strData d) 0 (take (nat (strLen a)) (strData a))"
  note w = str_wfD [OF assms(1)] str_wfD [OF assms(2)]
  have put: "nat (strLen a) < length (strData d) \<Longrightarrow> ?d[nat (strLen a) := c] = memcpy_at ?d (nat (strLen a)) [c]"
    using w(6) by (simp add: memcpy_at_def upd_conv_take_nth_drop)
  have "plang_str_concat_char d cap a c = plang_str_concat d cap a ?b"
  proof (cases "strLen a < cap")
    case True
    then have "nat (strLen a) < length (strData d)" using w(4,5) by simp
    then show ?thesis using True put by (simp add: plang_str_concat_char_def plang_str_concat_def Let_def min_def)
  next
    case False
    then show ?thesis using w(3) by (simp add: plang_str_concat_char_def plang_str_concat_def Let_def min_def)
  qed
  moreover have "str_content ?b = [c]" "str_wf 1 ?b" by (simp_all add: str_content_def str_wf_def)
  ultimately show ?thesis using str_concat_ok [OF assms, of 1 ?b] by simp
qed

subsection \<open>Substrings\<close>

text \<open>The substring \<open>s[i .. i + n - 1]\<close> exists: the declarative form of the range test.\<close>

definition in_range :: "bytes \<Rightarrow> int \<Rightarrow> int \<Rightarrow> bool" where
  "in_range c i n \<longleftrightarrow> 1 \<le> i \<and> 0 \<le> n \<and> (n = 0 \<or> i + n - 1 \<le> int (length c))"

lemma str_substr_ok:
  assumes "str_wf cap d" "str_wf cs s"
  shows "case plang_str_substr d cap s i n of
      Inl e \<Rightarrow> \<not> in_range (str_content s) i n \<and> e = SubstrRange i n (int (length (str_content s)))
    | Inr r \<Rightarrow> in_range (str_content s) i n \<and> str_wf cap r
        \<and> str_content r = take (nat cap) (take (nat n) (drop (nat (i - 1)) (str_content s)))"
proof -
  note w = str_wfD [OF assms(1)] str_wfD [OF assms(2)] and l = length_str_content [OF assms(2)]
  have rng: "n < 0 \<or> i < 1 \<or> (n > 0 \<and> (i > strLen s \<or> n > strLen s - i + 1)) \<longleftrightarrow> \<not> in_range (str_content s) i n"
    unfolding in_range_def l by auto
  show ?thesis
  proof (cases "in_range (str_content s) i n")
    case False
    then show ?thesis unfolding plang_str_substr_def rng Let_def by (simp add: l)
  next
    case True
    let ?n = "min n cap" and ?bs = "take (nat (min n cap)) (drop (nat (i - 1)) (strData s))"
    have n: "0 \<le> ?n" "?n \<le> cap" using True w(3) by (auto simp: in_range_def)
    have pos: "n = 0 \<or> (1 \<le> i \<and> nat (i - 1) + nat n \<le> nat (strLen s))" using True w(5) by (auto simp: in_range_def l)
    have "nat n \<le> length (strData s) - nat (i - 1)" using pos w(6) by auto
    then have len: "length ?bs = nat ?n" using order_trans [OF nat_mono [OF min.cobounded1]] by simp
    have "?bs = take (nat cap) (take (nat n) (drop (nat (i - 1)) (str_content s)))"
      using pos unfolding take_nat_min str_content_def by (auto simp: drop_take)
    then show ?thesis unfolding plang_str_substr_def rng Let_def using True str_copy_in_ok [OF assms(1) n len]
      by (simp add: str_record_order)
  qed
qed

lemma str_substr_assign_ok:
  assumes "str_wf cap d" "str_wf cs s"
  shows "case plang_str_substr_assign d i n s of
      Inl e \<Rightarrow> \<not> (0 < n \<and> in_range (str_content d) i n) \<and> e = SubstrRange i n (int (length (str_content d)))
        \<or> int (length (str_content s)) \<noteq> n \<and> e = SubstrAssign (int (length (str_content s))) n
    | Inr r \<Rightarrow> 0 < n \<and> in_range (str_content d) i n \<and> int (length (str_content s)) = n \<and> str_wf cap r
        \<and> str_content r = take (nat (i - 1)) (str_content d) @ str_content s @ drop (nat (i - 1 + n)) (str_content d)"
proof -
  note w = str_wfD [OF assms(1)] str_wfD [OF assms(2)] and l = length_str_content [OF assms(1)] length_str_content [OF assms(2)]
  have rng: "n \<le> 0 \<or> i < 1 \<or> i > strLen d \<or> n > strLen d - i + 1 \<longleftrightarrow> \<not> (0 < n \<and> in_range (str_content d) i n)"
    unfolding in_range_def l by auto
  show ?thesis
  proof (cases "0 < n \<and> in_range (str_content d) i n \<and> strLen s = n")
    case False
    then show ?thesis unfolding plang_str_substr_assign_def rng Let_def by (auto simp: l)
  next
    case True
    let ?p = "nat (i - 1)" and ?k = "nat n"
    have p: "?p + ?k \<le> nat (strLen d)" "nat (i - 1 + n) = ?p + ?k" using True w(1) by (auto simp: in_range_def l)
    have q: "?k \<le> nat (strLen d) - ?p" using p(1) by simp
    have c: "str_content s = take ?k (strData s)" using True by (simp add: str_content_def)
    then have k: "length (take ?k (strData s)) = ?k" using True w(6) by simp
    let ?d = "memcpy_at (strData d) ?p (take ?k (strData s))"
    have "take (nat (strLen d)) ?d = take ?p (strData d) @ take ?k (strData s) @ take (nat (strLen d) - (?p + ?k)) (drop (?p + ?k) (strData d))"
      using p k w(2) q by (simp add: memcpy_at_def min_absorb1 min_absorb2)
    then have content: "str_content (d\<lparr>strData := ?d\<rparr>) = take ?p (str_content d) @ str_content s @ drop (?p + ?k) (str_content d)"
      using p by (simp add: str_content_def c [unfolded str_content_def] drop_take min_def)
    have "length ?d = length (strData d)" using p k w(2) by (intro length_memcpy_at) simp
    then have "str_wf cap (d\<lparr>strData := ?d\<rparr>)" using assms(1) by (simp add: str_wf_def)
    then show ?thesis unfolding plang_str_substr_assign_def rng Let_def using True content p(2) by (simp add: l)
  qed
qed

subsection \<open>Trailing blanks\<close>

definition rstrip :: "bytes \<Rightarrow> bytes" where
  "rstrip c = rev (dropWhile (\<lambda>x. x = CHR '' '') (rev c))"

lemma rstrip_simps [simp]: "rstrip [] = []" "rstrip (c @ [x]) = (if x = CHR '' '' then rstrip c else c @ [x])"
  by (simp_all add: rstrip_def)

lemma trim_len_rstrip: "n \<le> length d \<Longrightarrow> trim_len d n \<le> n \<and> take (trim_len d n) d = rstrip (take n d)"
  by (induction n) (auto simp: take_Suc_conv_app_nth)

lemma str_trim_ok:
  assumes "str_wf cap d" "str_wf cs s"
  shows "str_wf cap (plang_str_trim d cap s) \<and> str_content (plang_str_trim d cap s) = take (nat cap) (rstrip (str_content s))"
proof -
  let ?t = "trim_len (strData s) (nat (strLen s))"
  note w = str_wfD [OF assms(1)] str_wfD [OF assms(2)] and t = trim_len_rstrip [OF str_wfD(2) [OF assms(2)]]
  have n: "0 \<le> min (int ?t) cap" "min (int ?t) cap \<le> cap" using w(3) by auto
  have m: "nat (min (int ?t) cap) = min ?t (nat cap)" using w(3) by (simp add: min_def le_nat_iff)
  have l: "length (take (nat (min (int ?t) cap)) (strData s)) = nat (min (int ?t) cap)"
    unfolding m using t w(6) by (simp add: min_def)
  have "take (min ?t (nat cap)) (strData s) = take (nat cap) (rstrip (str_content s))"
    unfolding str_content_def using conjunct2 [OF t] by (metis min.commute take_take)
  then show ?thesis using str_copy_in_ok [OF assms(1) n l] unfolding m by (simp add: plang_str_trim_def Let_def str_record_order m)
qed

subsection \<open>Comparison\<close>

definition str_at :: "str_var \<Rightarrow> nat \<Rightarrow> int" where
  "str_at s i = int (code_of (str_char s i))"

lemma strCmp_loop_spec:
  "lm = nat (max (strLen a) (strLen b)) \<Longrightarrow> i \<le> lm \<Longrightarrow> \<forall>j<i. str_at a j = str_at b j \<Longrightarrow>
   decides (strCmp_loop a b lm i) (str_at a) (str_at b)"
proof (induction a b lm i rule: strCmp_loop.induct)
  case (1 a b lm i)
  consider (here) "i < lm" "str_at a i \<noteq> str_at b i" | (on) "i < lm" "str_at a i = str_at b i" | (done_) "i = lm"
    using "1.prems"(2) by linarith
  then show ?case
  proof cases
    case here
    then have "strCmp_loop a b lm i = (if str_at a i < str_at b i then -1 else 1)"
      unfolding strCmp_loop.simps [of a b lm i] by (auto simp: str_at_def)
    then show ?thesis using decides_first [OF "1.prems"(3) here(2)] by (simp only:)
  next
    case on
    then have eq: "str_char a i = str_char b i" by (simp add: str_at_def)
    have "strCmp_loop a b lm i = strCmp_loop a b lm (i + 1)" using on(1) eq by (simp add: strCmp_loop.simps [of a b lm i])
    moreover have "\<forall>j<i + 1. str_at a j = str_at b j" using "1.prems"(3) on(2) by (auto simp: less_Suc_eq)
    ultimately show ?thesis using "1.IH" [OF on(1) refl refl] eq "1.prems"(1) on(1) by simp
  next
    case done_
    have "str_at a j = str_at b j" for j
      using done_ "1.prems"(1,3) by (cases "j < lm") (auto simp: str_at_def str_char_def)
    moreover have "strCmp_loop a b lm i = 0" unfolding strCmp_loop.simps [of a b lm i] using done_ by simp
    ultimately show ?thesis by (simp only: decides_equal)
  qed
qed

interpretation str_order: byte_order str_at strCmp
  using strCmp_loop_spec [OF refl, of 0] by unfold_locales (simp_all add: strCmp_def decides_def)

text \<open>Two contents read the same, with blanks past their ends, when they agree up to trailing blanks.\<close>

definition padded_at :: "bytes \<Rightarrow> nat \<Rightarrow> char" where
  "padded_at c i = (if i < length c then c ! i else CHR '' '')"

lemma padded_rstrip: "padded_at (rstrip c) = padded_at c"
proof (induction c rule: rev_induct)
  case (snoc x c)
  have "padded_at (c @ [CHR '' '']) = padded_at c" by (auto simp: padded_at_def nth_append fun_eq_iff)
  then show ?case using snoc by simp
qed simp

lemma rstrip_last: "rstrip c \<noteq> [] \<Longrightarrow> List.last (rstrip c) \<noteq> CHR '' ''"
  by (induction c rule: rev_induct) auto

lemma padded_length_le:
  assumes "padded_at c = padded_at e" "c \<noteq> [] \<Longrightarrow> List.last c \<noteq> CHR '' ''"
  shows "length c \<le> length e"
proof (rule ccontr)
  assume "\<not> length c \<le> length e"
  then have "c \<noteq> []" "\<not> length c - 1 < length e" by auto
  then have "padded_at c (length c - 1) \<noteq> padded_at e (length c - 1)" using assms(2) by (simp add: padded_at_def last_conv_nth)
  then show False using assms(1) by simp
qed

lemma padded_eq_iff: "padded_at c = padded_at e \<longleftrightarrow> rstrip c = rstrip e"
proof
  assume "padded_at c = padded_at e"
  then have p: "padded_at (rstrip c) = padded_at (rstrip e)" by (simp add: padded_rstrip)
  then have l: "length (rstrip c) = length (rstrip e)"
    using padded_length_le [OF p rstrip_last] padded_length_le [OF p [symmetric] rstrip_last] by simp
  show "rstrip c = rstrip e"
    by (rule nth_equalityI [OF l]) (metis p l padded_at_def)
qed (metis padded_rstrip)

lemma str_at_padded: "str_wf cap s \<Longrightarrow> str_at s i = int (code_of (padded_at (str_content s) i))"
  by (auto simp: str_at_def str_char_def padded_at_def str_content_def str_wf_def)

subsection \<open>Reading\<close>

lemma str_read_ok:
  assumes "str_wf cap s" "plang_str_read s cap io = (s', io')"
  shows "str_wf cap s' \<and> str_content s' = take (nat cap) (line_of (unread_input io)) \<and> unread_input io' = after_line (unread_input io)"
proof -
  obtain d n c io1 where r: "read_line_loop (nat cap) (strData s) 0 io = (d, n, c, io1)" by (metis prod_cases4)
  note loop = read_line_loop_spec [OF r] and w = str_wfD [OF assms(1)]
  have s': "s' = s\<lparr>strLen := int n, strData := d\<rparr>" and io': "io' = (if c = Some (char_of (10::nat)) then plangInUnget c io1 else io1)"
    using assms(2) r by (auto simp: plang_str_read_def)
  have n: "n = min (nat cap) (length (line_of (unread_input io)))" using loop w(4) by simp
  then have "str_wf cap s' \<and> str_content s' = take n d"
    unfolding s' using str_store_ok [OF assms(1), of "int n" d] loop w(3,4) by simp
  moreover have "take n d = take n (line_of (unread_input io))" using loop w(4) by (metis append_Nil le0 le_refl take_0)
  moreover have "unread_input io' = after_line (unread_input io)" unfolding io' using loop w(4) by (cases c) auto
  ultimately show ?thesis using n by (simp add: min_def split: if_splits)
qed

lemma read_fixed_loop_spec:
  "read_fixed_loop n d len io = (d', m, c, io') \<Longrightarrow> n \<le> length d \<Longrightarrow>
   length d' = length d \<and> m = len + length (line_of (unread_input io))
   \<and> take (min n m) d' = take n (take len d @ line_of (unread_input io))
   \<and> (c = None \<longrightarrow> unread_input io' = [] \<and> after_line (unread_input io) = [])
   \<and> (c \<noteq> None \<longrightarrow> c = Some (char_of (10::nat)) \<and> unread_input (plangInUnget c io') = after_line (unread_input io))"
proof (induction n d len io rule: read_fixed_loop.induct)
  case (1 n d len io)
  obtain ch io1 where ch: "plangInCh io = (ch, io1)" by (cases "plangInCh io")
  note un = plangInCh_unread [OF ch]
  consider (eof) "ch = None" | (nl) "ch = Some (char_of (10::nat))" | (on) x where "ch = Some x" "x \<noteq> char_of (10::nat)" by blast
  then show ?case
  proof cases
    case eof
    with un ch "1.prems" show ?thesis by (auto simp: read_fixed_loop.simps [of n d len io] line_of_def after_line_def)
  next
    case nl
    with un ch "1.prems" plangInUnget_unread [of io "char_of (10::nat)" io1] show ?thesis
      by (auto simp: read_fixed_loop.simps [of n d len io] line_of_def after_line_def)
  next
    case on
    let ?d = "if len < n then d[len := x] else d"
    have u: "line_of (unread_input io) = x # line_of (unread_input io1)" "after_line (unread_input io) = after_line (unread_input io1)"
      using un on by (auto simp: line_of_def after_line_def)
    have r: "read_fixed_loop n ?d (len + 1) io1 = (d', m, c, io')"
      using "1.prems"(1) ch on by (simp add: read_fixed_loop.simps [of n d len io])
    have ld: "length ?d = length d" by simp
    note F = "1.IH" [OF ch [symmetric] on r, unfolded ld, OF "1.prems"(2)]
    have t: "take n (take (len + 1) ?d @ line_of (unread_input io1)) = take n (take len d @ x # line_of (unread_input io1))"
      using "1.prems"(2) by (cases "len < n") (auto simp: take_Suc_conv_app_nth min_def)
    have m: "m = len + length (x # line_of (unread_input io1))" using F by simp
    show ?thesis unfolding u using F [unfolded t] m by blast
  qed
qed

lemma blank_fill_eq: "i + k \<le> length d \<Longrightarrow> blank_fill d i k = take i d @ replicate k CHR '' '' @ drop (i + k) d"
  by (induction k arbitrary: d i) (auto simp: take_Suc_conv_app_nth replicate_append_same upd_conv_take_nth_drop Cons_nth_drop_Suc add.commute)

lemma str_read_fixed_ok:
  assumes "length buf = n" "plang_str_read_fixed buf n io = (buf', io')"
  shows "buf' = take n (line_of (unread_input io)) @ replicate (n - length (line_of (unread_input io))) CHR '' ''
    \<and> unread_input io' = after_line (unread_input io)"
proof -
  obtain d m c io1 where r: "read_fixed_loop n buf 0 io = (d, m, c, io1)" by (metis prod_cases4)
  note loop = read_fixed_loop_spec [OF r]
  have e: "buf' = blank_fill d m (n - m)" "io' = (if c = Some (char_of (10::nat)) then plangInUnget c io1 else io1)"
    using assms(2) r by (auto simp: plang_str_read_fixed_def)
  have l: "length d = n" "m = length (line_of (unread_input io))" "take (min n m) d = take n (line_of (unread_input io))"
    using loop assms(1) by auto
  have "buf' = take (min n m) d @ replicate (n - m) CHR '' ''"
    using blank_fill_eq [of m "n - m" d] l(1) e(1) by (cases "m \<le> n") (auto simp: min_def)
  moreover have "unread_input io' = after_line (unread_input io)" unfolding e(2) using loop assms(1) by (cases c) auto
  ultimately show ?thesis using l by simp
qed

subsection \<open>Correctness\<close>

text \<open>C32. The operations on \<open>string(N)\<close> variables are the standard's functions of their contents.  On well-formed
  variables every operation leaves the destination well-formed; an assignment keeps the value whole or is the
  capacity error; a concatenation is the joined content, cut at the destination; \<open>substr\<close> is the
  \<open>n\<close> characters from \<open>i\<close> or, when there are no such characters, the range error; a substring assignment
  replaces those characters and no others, and demands a value exactly as long; \<open>trim\<close> drops the
  trailing blanks.\<close>

theorem str_operations_refine:
  assumes "str_wf cap d" "str_wf cs s" "str_wf ct t"
  shows "(case plang_str_assign d cap s of
        Inl e \<Rightarrow> cap < int (length (str_content s)) \<and> e = StrCapacity (int (length (str_content s))) cap
      | Inr r \<Rightarrow> str_wf cap r \<and> str_content r = str_content s)
    \<and> (str_wf cap (plang_str_concat d cap s t)
      \<and> str_content (plang_str_concat d cap s t) = take (nat cap) (str_content s @ str_content t))
    \<and> (case plang_str_substr d cap s i n of
        Inl e \<Rightarrow> \<not> in_range (str_content s) i n \<and> e = SubstrRange i n (int (length (str_content s)))
      | Inr r \<Rightarrow> in_range (str_content s) i n \<and> str_wf cap r
          \<and> str_content r = take (nat cap) (take (nat n) (drop (nat (i - 1)) (str_content s))))
    \<and> (case plang_str_substr_assign d i n s of
        Inl e \<Rightarrow> \<not> (0 < n \<and> in_range (str_content d) i n) \<and> e = SubstrRange i n (int (length (str_content d)))
          \<or> int (length (str_content s)) \<noteq> n \<and> e = SubstrAssign (int (length (str_content s))) n
      | Inr r \<Rightarrow> 0 < n \<and> in_range (str_content d) i n \<and> int (length (str_content s)) = n \<and> str_wf cap r
          \<and> str_content r = take (nat (i - 1)) (str_content d) @ str_content s @ drop (nat (i - 1 + n)) (str_content d))
    \<and> (str_wf cap (plang_str_trim d cap s)
      \<and> str_content (plang_str_trim d cap s) = take (nat cap) (rstrip (str_content s)))"
  using str_assign_ok [OF assms(1,2)] str_concat_ok [OF assms] str_substr_ok [OF assms(1,2)]
    str_substr_assign_ok [OF assms(1,2)] str_trim_ok [OF assms(1,2)] by blast

theorem str_operations_refine_witness:
  "(let d = \<lparr>strLen = 4, strData = ''wxyz''\<rparr>; s = \<lparr>strLen = 2, strData = ''ab  ''\<rparr> in
    (case plang_str_substr_assign d 2 2 s of Inl e \<Rightarrow> False | Inr r \<Rightarrow> str_content r = ''wabz'')
    \<and> str_content (plang_str_concat d 4 d s) = ''wxyz'')"
proof -
  let ?d = "\<lparr>strLen = 4, strData = ''wxyz''\<rparr>" and ?s = "\<lparr>strLen = 2, strData = ''ab  ''\<rparr>"
  have w: "str_wf 4 ?d" "str_wf 4 ?s" by (simp_all add: str_wf_def)
  show ?thesis using str_operations_refine [OF w w(2), of 2 2] str_operations_refine [OF w(1) w, of 1 1]
    by (simp add: str_content_def in_range_def split: sum.splits)
qed

text \<open>The relational operators on \<open>string(N)\<close> compare with the shorter operand extended by blanks: equality is equality
  up to trailing blanks, exactly one of less, equal and greater holds, and less is decided at the first place
  where the extended contents differ.\<close>

theorem str_comparison_padded:
  assumes "str_wf ca a" "str_wf cb b" "str_wf cc c"
  shows "(plang_str_eq a b \<longleftrightarrow> rstrip (str_content a) = rstrip (str_content b))
    \<and> (plang_str_lt a b \<longleftrightarrow> (\<exists>k. (\<forall>j<k. padded_at (str_content a) j = padded_at (str_content b) j)
         \<and> code_of (padded_at (str_content a) k) < code_of (padded_at (str_content b) k)))
    \<and> (plang_str_gt a b \<longleftrightarrow> plang_str_lt b a) \<and> (plang_str_ne a b \<longleftrightarrow> \<not> plang_str_eq a b)
    \<and> (plang_str_le a b \<longleftrightarrow> plang_str_lt a b \<or> plang_str_eq a b) \<and> (plang_str_ge a b \<longleftrightarrow> \<not> plang_str_lt a b)
    \<and> (plang_str_le a b \<and> plang_str_le b c \<longrightarrow> plang_str_le a c)"
proof -
  have at: "str_at a i = str_at b i \<longleftrightarrow> padded_at (str_content a) i = padded_at (str_content b) i" for i
    by (simp add: str_at_padded [OF assms(1)] str_at_padded [OF assms(2)])
  have "plang_str_eq a b \<longleftrightarrow> rstrip (str_content a) = rstrip (str_content b)"
    by (simp add: plang_str_eq_def str_order.cmp_zero at padded_eq_iff [symmetric] fun_eq_iff)
  moreover have "plang_str_lt a b \<longleftrightarrow> (\<exists>k. (\<forall>j<k. padded_at (str_content a) j = padded_at (str_content b) j)
       \<and> code_of (padded_at (str_content a) k) < code_of (padded_at (str_content b) k))"
    by (simp add: plang_str_lt_def str_order.cmp_neg at) (simp add: str_at_padded [OF assms(1)] str_at_padded [OF assms(2)])
  moreover have "plang_str_gt a b \<longleftrightarrow> plang_str_lt b a" by (simp add: plang_str_gt_def plang_str_lt_def str_order.cmp_pos)
  moreover have "plang_str_le a b \<and> plang_str_le b c \<longrightarrow> plang_str_le a c"
    using str_order.cmp_le_trans [of a b c] by (simp add: plang_str_le_def)
  moreover have "plang_str_ne a b \<longleftrightarrow> \<not> plang_str_eq a b" "plang_str_le a b \<longleftrightarrow> plang_str_lt a b \<or> plang_str_eq a b"
    "plang_str_ge a b \<longleftrightarrow> \<not> plang_str_lt a b"
    by (auto simp: plang_str_eq_def plang_str_lt_def plang_str_ne_def plang_str_le_def plang_str_ge_def)
  ultimately show ?thesis by blast
qed

theorem str_comparison_padded_witness:
  "plang_str_eq \<lparr>strLen = 1, strData = ''a...''\<rparr> \<lparr>strLen = 3, strData = ''a  .''\<rparr>"
proof -
  have w: "str_wf 4 \<lparr>strLen = 1, strData = ''a...''\<rparr>" "str_wf 4 \<lparr>strLen = 3, strData = ''a  .''\<rparr>" by (simp_all add: str_wf_def)
  show ?thesis using str_comparison_padded [OF w w(2)] by (simp add: str_content_def rstrip_def)
qed

end
