(* ===== verification/String_Util.thy ===== *)
theory String_Util
  imports Prelude
begin

text \<open>
  \<^verbatim>\<open>include/plang/Basic/StringUtil.h\<close>: case folding, the identifier shape, the UTF-8 sequence
  decoder and the escaping of text that reaches the terminal.  Strings are byte sequences; a
  \<^verbatim>\<open>std::string_view\<close> with an index is a list and a position.
\<close>

subsection \<open>Definitions\<close>

definition toLower :: "bytes \<Rightarrow> bytes" where
  "toLower S = map c_tolower S"

definition eqCI :: "bytes \<Rightarrow> bytes \<Rightarrow> bool" where
  "eqCI A B \<longleftrightarrow>
     (if length A \<noteq> length B then False
      else list_all (\<lambda>i. c_tolower (A ! i) = c_tolower (B ! i)) [0..<length A])"

definition looksLikeIdentifier :: "bytes \<Rightarrow> bool" where
  "looksLikeIdentifier S \<longleftrightarrow>
     (case S of
        [] \<Rightarrow> False
      | First # _ \<Rightarrow> (isalpha First \<or> First = CHR ''_'') \<and> list_all (\<lambda>C. isalnum C \<or> C = CHR ''_'') S)"

text \<open>\<^verbatim>\<open>(C & 0xC0) == 0x80\<close> on a byte.\<close>

definition isUtf8ContinuationByte :: "char \<Rightarrow> bool" where
  "isUtf8ContinuationByte C \<longleftrightarrow> code_of C AND 0xC0 = 0x80"

text \<open>The length a lead byte calls for; 1 for a bare continuation byte or an invalid lead byte.\<close>

definition utf8_lead :: "nat \<Rightarrow> nat" where
  "utf8_lead C = (if 0xC2 \<le> C \<and> C \<le> 0xDF then 2
                  else if 0xE0 \<le> C \<and> C \<le> 0xEF then 3
                  else if 0xF0 \<le> C \<and> C \<le> 0xF4 then 4 else 1)"

text \<open>Overlong encodings, surrogates and values past \<open>U+10FFFF\<close>.\<close>

definition utf8_refused :: "nat \<Rightarrow> nat \<Rightarrow> nat \<Rightarrow> bool" where
  "utf8_refused Len C C1 \<longleftrightarrow>
     (Len = 3 \<and> C = 0xE0 \<and> C1 < 0xA0) \<or> (Len = 3 \<and> C = 0xED \<and> C1 \<ge> 0xA0)
   \<or> (Len = 4 \<and> C = 0xF0 \<and> C1 < 0x90) \<or> (Len = 4 \<and> C = 0xF4 \<and> C1 > 0x8F)"

definition utf8SequenceLength :: "bytes \<Rightarrow> nat \<Rightarrow> nat" where
  "utf8SequenceLength Text I =
     (let C = code_of (Text ! I); Len = utf8_lead C in
      if C < 0x80 then 1
      else if Len = 1 then 1
      else if I + Len > length Text then 1
      else if \<not> list_all (\<lambda>K. isUtf8ContinuationByte (Text ! K)) [I + 1..<I + Len] then 1
      else if utf8_refused Len C (code_of (Text ! (I + 1))) then 1
      else Len)"

definition Hex :: bytes where "Hex = ''0123456789abcdef''"

text \<open>\<^verbatim>\<open>"\\x" << Hex[C >> 4] << Hex[C & 0xF]\<close>.\<close>

definition hex_escape :: "char \<Rightarrow> bytes" where
  "hex_escape c = [CHR 0x5C, CHR ''x'', Hex ! (code_of c div 16), Hex ! (code_of c mod 16)]"

definition needs_escape :: "char \<Rightarrow> bool" where
  "needs_escape c \<longleftrightarrow> code_of c < 0x20 \<or> code_of c = 0x7F \<or> code_of c \<ge> 0x80"

lemma utf8SequenceLength_pos [simp]: "0 < utf8SequenceLength tx i"
  by (simp add: utf8SequenceLength_def utf8_lead_def Let_def)

function escape_loop :: "bytes \<Rightarrow> nat \<Rightarrow> bytes \<Rightarrow> bytes" where
  "escape_loop S I R =
     (if I < length S then
        (let Len = utf8SequenceLength S I; C = S ! I in
         escape_loop S (I + Len)
           (R @ (if Len > 1 then substr S I (I + Len) else if needs_escape C then hex_escape C else [C])))
      else R)"
  by pat_completeness auto
termination
  by (relation "measure (\<lambda>(S, I, R). length S - I)") (auto simp: diff_less_mono2)

declare escape_loop.simps [simp del]

definition escapeControlChars :: "bytes \<Rightarrow> bytes" where
  "escapeControlChars S = escape_loop S 0 []"

subsection \<open>Case folding and identifiers\<close>

lemma eqCI_toLower: "eqCI A B \<longleftrightarrow> toLower A = toLower B"
  unfolding toLower_def list_eq_iff_nth_eq [of "map c_tolower A" "map c_tolower B"]
  by (auto simp: eqCI_def list_all_iff)

lemma toLower_idem [simp]: "toLower (toLower S) = toLower S"
  by (simp add: toLower_def)

lemma c_tolower_underscore [simp]: "c_tolower c = CHR ''_'' \<longleftrightarrow> c = CHR ''_''"
proof -
  have "code_of (CHR ''_'') = 95" by (simp add: code_of_def)
  then have "code_of (c_tolower c) = code_of (CHR ''_'') \<longleftrightarrow> code_of c = code_of (CHR ''_'')"
    by (auto simp: cclass)
  then show ?thesis by simp
qed

lemma looksLikeIdentifier_toLower [simp]: "looksLikeIdentifier (toLower S) = looksLikeIdentifier S"
  by (cases S) (auto simp: looksLikeIdentifier_def toLower_def list_all_iff)

subsection \<open>The decoder reads only the sequence it accepts\<close>

lemma list_all_shift: "list_all P [i + 1..<i + n] = list_all (\<lambda>k. P (i + k)) [1..<n]"
proof -
  have "[i + 1..<i + n] = map ((+) i) [1..<n]" by (induction n) auto
  then show ?thesis by (simp add: list.pred_map comp_def)
qed

lemma utf8SequenceLength_shift:
  "i < length tx \<Longrightarrow> utf8SequenceLength tx i = utf8SequenceLength (drop i tx) 0"
proof -
  assume i: "i < length tx"
  have len: "i + utf8_lead (code_of (tx ! i)) > length tx \<longleftrightarrow> 0 + utf8_lead (code_of (tx ! i)) > length (drop i tx)"
    using i by (simp add: less_diff_conv2 add.commute)
  have one: "tx ! (i + 1) = drop i tx ! (0 + 1)" "tx ! i = drop i tx ! 0" using i by auto
  have all: "list_all (\<lambda>K. isUtf8ContinuationByte (tx ! K)) [i + 1..<i + n]
      = list_all (\<lambda>K. isUtf8ContinuationByte (drop i tx ! K)) [0 + 1..<0 + n]" for n
    unfolding list_all_shift using i by simp
  show ?thesis unfolding utf8SequenceLength_def Let_def all len unfolding one by (rule refl)
qed

lemma nat_and_le: "m AND n \<le> m" for m n :: nat
proof -
  have "int (m AND n) \<le> int m" by (simp add: of_nat_and_eq)
  then show ?thesis by simp
qed

text \<open>A sequence the decoder accepts is accepted whatever follows it, and is made of high bytes.\<close>

lemma utf8SequenceLength_multi:
  assumes "utf8SequenceLength tx 0 = n" "1 < n"
  shows "n \<le> length tx" "utf8SequenceLength (take n tx @ ys) 0 = n"
    "\<And>c. c \<in> set (take n tx) \<Longrightarrow> 0x80 \<le> code_of c"
proof -
  let ?C = "code_of (tx ! 0)"
  have n: "0x80 \<le> ?C" "n = utf8_lead ?C" "n \<le> length tx" "\<not> utf8_refused n ?C (code_of (tx ! 1))"
    "list_all (\<lambda>K. isUtf8ContinuationByte (tx ! K)) [1..<n]"
    using assms by (auto simp: utf8SequenceLength_def Let_def split: if_splits)
  show "n \<le> length tx" by (rule n(3))
  have same: "(take n tx @ ys) ! k = tx ! k" if "k < n" for k using that n(3) by (simp add: nth_append)
  have "list_all (\<lambda>K. isUtf8ContinuationByte ((take n tx @ ys) ! K)) [1..<n]"
    using n(5) same by (auto simp: list_all_iff)
  then show "utf8SequenceLength (take n tx @ ys) 0 = n"
    using n assms(2) same [of 0] same [of 1] by (simp add: utf8SequenceLength_def Let_def)
  fix c assume "c \<in> set (take n tx)"
  then obtain k where k: "k < n" "c = tx ! k" using n(3) by (auto simp: in_set_conv_nth)
  show "0x80 \<le> code_of c"
  proof (cases "k = 0")
    case False
    then have "code_of c AND 0xC0 = 0x80" using n(5) k by (auto simp: list_all_iff isUtf8ContinuationByte_def)
    then show ?thesis using nat_and_le [of "code_of c" "0xC0"] by linarith
  qed (use n(1) k in simp)
qed

subsection \<open>The escaped text\<close>

text \<open>What the loop appends for the text at its position.\<close>

definition escape_chunk :: "bytes \<Rightarrow> bytes" where
  "escape_chunk rest =
     (let Len = utf8SequenceLength rest 0 in
      if Len > 1 then take Len rest else if needs_escape (hd rest) then hex_escape (hd rest) else [hd rest])"

lemma escape_loop_append: "escape_loop S I (R @ T) = R @ escape_loop S I T"
proof (induction S I T arbitrary: R rule: escape_loop.induct)
  case (1 S I T)
  show ?case
  proof (cases "I < length S")
    case True
    show ?thesis
      unfolding escape_loop.simps [of S I "R @ T"] escape_loop.simps [of S I T]
      using True "1.IH" [OF True refl refl] by (simp only: Let_def append_assoc if_True)
  next
    case False
    then show ?thesis by (simp add: escape_loop.simps [of S I])
  qed
qed

lemma escape_loop_acc: "escape_loop S I R = R @ escape_loop S I []"
  using escape_loop_append [of S I R "[]"] by simp

lemma escape_loop_drop: "escape_loop S I [] = escapeControlChars (drop I S)"
  unfolding escapeControlChars_def
proof (induction "length S - I" arbitrary: I S rule: less_induct)
  case less
  show ?case
  proof (cases "I < length S")
    case True
    let ?n = "utf8SequenceLength S I"
    have n: "utf8SequenceLength (drop I S) 0 = ?n" using utf8SequenceLength_shift [OF True] by simp
    have hd: "drop I S ! 0 = S ! I" using True by simp
    have "escape_loop S (I + ?n) [] = escape_loop (drop (I + ?n) S) 0 []"
      using less [of S "I + ?n"] True by (simp add: diff_less_mono2)
    moreover have "escape_loop (drop I S) ?n [] = escape_loop (drop ?n (drop I S)) 0 []"
      using less [of "drop I S" ?n] True by (simp add: diff_less_mono2)
    ultimately have tl: "escape_loop (drop I S) ?n [] = escape_loop S (I + ?n) []"
      by (simp add: add.commute)
    define ch where "ch = (if ?n > 1 then substr S I (I + ?n) else if needs_escape (S ! I) then hex_escape (S ! I) else [S ! I])"
    have "escape_loop S I [] = escape_loop S (I + ?n) ch"
      using True by (subst escape_loop.simps) (simp add: Let_def ch_def)
    moreover have "escape_loop (drop I S) 0 [] = escape_loop (drop I S) ?n ch"
      using True by (subst escape_loop.simps) (simp add: Let_def ch_def n substr_def)
    ultimately show ?thesis
      using tl escape_loop_acc [of S "I + ?n" ch] escape_loop_acc [of "drop I S" ?n ch] by simp
  next
    case False
    then show ?thesis by (simp add: escape_loop.simps)
  qed
qed

lemma escapeControlChars_Nil [simp]: "escapeControlChars [] = []"
  by (simp add: escapeControlChars_def escape_loop.simps)

lemma escapeControlChars_step:
  "rest \<noteq> [] \<Longrightarrow>
   escapeControlChars rest = escape_chunk rest @ escapeControlChars (drop (utf8SequenceLength rest 0) rest)"
proof -
  let ?n = "utf8SequenceLength rest 0"
  assume "rest \<noteq> []"
  then have "escape_loop rest 0 [] = escape_loop rest ?n (escape_chunk rest)"
    by (subst escape_loop.simps) (simp add: Let_def escape_chunk_def substr_def hd_conv_nth)
  then show ?thesis
    using escape_loop_acc [of rest ?n "escape_chunk rest"] escape_loop_drop [of rest ?n]
    by (simp add: escapeControlChars_def [of rest])
qed

text \<open>A chunk is left alone by a second pass, whatever follows it, and holds no control byte.\<close>

lemma Hex_nth: "n < 16 \<Longrightarrow> 0x20 \<le> code_of (Hex ! n) \<and> code_of (Hex ! n) < 0x7F"
proof -
  assume "n < 16"
  moreover have "length Hex = 16" by (simp add: Hex_def)
  ultimately have "Hex ! n \<in> set Hex" by (intro nth_mem) simp
  then show ?thesis by (auto simp: Hex_def code_of_def)
qed

lemma escape_plain:
  "0x20 \<le> code_of c \<Longrightarrow> code_of c < 0x7F \<Longrightarrow> escapeControlChars (c # ys) = c # escapeControlChars ys"
  by (simp add: escapeControlChars_step escape_chunk_def utf8SequenceLength_def needs_escape_def Let_def)

lemma hex_escape_plain: "c \<in> set (hex_escape x) \<Longrightarrow> 0x20 \<le> code_of c \<and> code_of c < 0x7F"
  using Hex_nth [OF less_mult_imp_div_less, of "code_of x"] Hex_nth [of "code_of x mod 16"] code_of_less [of x]
  by (auto simp: hex_escape_def) (auto simp: code_of_def)

lemma escape_plains:
  "\<forall>c \<in> set xs. 0x20 \<le> code_of c \<and> code_of c < 0x7F \<Longrightarrow>
   escapeControlChars (xs @ ys) = xs @ escapeControlChars ys"
  by (induction xs) (auto simp: escape_plain)

lemma escape_chunk_stable:
  assumes "rest \<noteq> []"
  shows "escapeControlChars (escape_chunk rest @ ys) = escape_chunk rest @ escapeControlChars ys"
    "list_all (\<lambda>c. 0x20 \<le> code_of c \<and> code_of c \<noteq> 0x7F) (escape_chunk rest)"
proof -
  let ?n = "utf8SequenceLength rest 0"
  show "escapeControlChars (escape_chunk rest @ ys) = escape_chunk rest @ escapeControlChars ys"
  proof (cases "1 < ?n")
    case True
    note u = utf8SequenceLength_multi [OF refl True]
    have ne: "take ?n rest @ ys \<noteq> []" using u(1) assms by auto
    show ?thesis
      using True u(1) u(2) [of ys] escapeControlChars_step [OF ne]
      by (simp add: escape_chunk_def [of rest] escape_chunk_def [of "take ?n rest @ ys"] Let_def)
  next
    case False
    then show ?thesis
      using escape_plains [of "hex_escape (hd rest)" ys] hex_escape_plain [of _ "hd rest"] escape_plain [of "hd rest" ys]
      by (auto simp: escape_chunk_def Let_def needs_escape_def)
  qed
  show "list_all (\<lambda>c. 0x20 \<le> code_of c \<and> code_of c \<noteq> 0x7F) (escape_chunk rest)"
    using utf8SequenceLength_multi(3) [OF refl, of rest] hex_escape_plain [of _ "hd rest"]
    by (fastforce simp: escape_chunk_def Let_def list_all_iff needs_escape_def)
qed

lemma escapeControlChars_induct [case_names Nil step]:
  assumes "P []" "\<And>rest. rest \<noteq> [] \<Longrightarrow> P (drop (utf8SequenceLength rest 0) rest) \<Longrightarrow> P rest"
  shows "P rest"
proof (induction rest rule: length_induct)
  case (1 xs)
  then show ?case using assms by (cases "xs = []") (auto simp: diff_less)
qed

subsection \<open>Correctness\<close>

text \<open>Escaping makes untrusted text safe to print and does so once and for all: the result has no C0
  control byte and no DEL, and it is a fixed point, so every byte above 0x7F left in it belongs to a
  well-formed UTF-8 sequence and escaping text that is already clean changes nothing.\<close>

theorem escapeControlChars_safe:
  "list_all (\<lambda>c. 0x20 \<le> code_of c \<and> code_of c \<noteq> 0x7F) (escapeControlChars S)
   \<and> escapeControlChars (escapeControlChars S) = escapeControlChars S"
proof (induction S rule: escapeControlChars_induct)
  case (step rest)
  then show ?case using escape_chunk_stable [OF step(1)] by (simp add: escapeControlChars_step [of rest])
qed simp

end
