(* ===== verification/Switch_Table.thy ===== *)
theory Switch_Table
  imports String_Util "HOL-Library.Multiset"
begin

text \<open>
  Turbo's positional compiler switches: \<^verbatim>\<open>include/plang/Basic/CompilerSwitches.def\<close> and
  \<^verbatim>\<open>SwitchTable.h\<close>.  A \<open>CompilerState\<close> is a 16-bit mask with one bit per switch; a
  \<open>SwitchTable\<close> is the list of the points where the state changed, sorted by location, updated and
  queried by binary search.  A \<open>SourceLocation\<close> is its raw 32-bit offset, 0 for nowhere.
\<close>

subsection \<open>The switches\<close>

datatype Switch =
  RangeChecks | IOChecks | BoolEval | ExtendedSyntax | OverflowChecks | VarStringChecks
| TypedAddress | OpenStrings | StackChecks | Assertions | WritableConst | GenerateGoto
| ObjectChecks | Goto

text \<open>The rows of the table: letter (none for the two long-name-only switches), long name, Turbo's
  default, and whether the compiler acts on it.  The order is the bit order.\<close>

definition switch_rows :: "(Switch \<times> char \<times> bytes \<times> bool \<times> bool) list" where
  "switch_rows =
    [(RangeChecks, CHR ''r'', ''rangechecks'', False, True),
     (IOChecks, CHR ''i'', ''iochecks'', True, True),
     (BoolEval, CHR ''b'', ''booleval'', False, True),
     (ExtendedSyntax, CHR ''x'', ''extendedsyntax'', True, True),
     (OverflowChecks, CHR ''q'', ''overflowchecks'', False, False),
     (VarStringChecks, CHR ''v'', ''varstringchecks'', True, False),
     (TypedAddress, CHR ''t'', ''typedaddress'', False, False),
     (OpenStrings, CHR ''p'', ''openstrings'', False, False),
     (StackChecks, CHR ''s'', ''stackchecks'', True, False),
     (Assertions, CHR ''c'', ''assertions'', True, False),
     (WritableConst, CHR ''j'', ''writeableconst'', True, False),
     (GenerateGoto, CHR ''w'', ''stackframes'', False, False),
     (ObjectChecks, CHR 0x00, ''objectchecks'', False, False),
     (Goto, CHR 0x00, ''goto'', True, False)]"

definition NumSwitches :: nat where "NumSwitches = length switch_rows"

text \<open>The enumerator's value.\<close>

fun switch_index :: "Switch \<Rightarrow> nat" where
  "switch_index RangeChecks = 0" | "switch_index IOChecks = 1" | "switch_index BoolEval = 2"
| "switch_index ExtendedSyntax = 3" | "switch_index OverflowChecks = 4" | "switch_index VarStringChecks = 5"
| "switch_index TypedAddress = 6" | "switch_index OpenStrings = 7" | "switch_index StackChecks = 8"
| "switch_index Assertions = 9" | "switch_index WritableConst = 10" | "switch_index GenerateGoto = 11"
| "switch_index ObjectChecks = 12" | "switch_index Goto = 13"

instantiation Switch :: linorder
begin
definition less_eq_Switch :: "Switch \<Rightarrow> Switch \<Rightarrow> bool" where
  "less_eq_Switch a b \<longleftrightarrow> switch_index a \<le> switch_index b"
definition less_Switch :: "Switch \<Rightarrow> Switch \<Rightarrow> bool" where
  "less_Switch a b \<longleftrightarrow> switch_index a < switch_index b"
instance
proof
  fix a b :: Switch
  assume "a \<le> b" "b \<le> a"
  then have "switch_index a = switch_index b" by (simp add: less_eq_Switch_def)
  then show "a = b" by (cases a; cases b; simp)
qed (auto simp: less_eq_Switch_def less_Switch_def)
end

type_synonym CompilerState = "16 word"

definition switch_bit :: "Switch \<Rightarrow> 16 word" where
  "switch_bit S = push_bit (switch_index S) 1"

definition state_on :: "CompilerState \<Rightarrow> Switch \<Rightarrow> bool" where
  "state_on B S \<longleftrightarrow> B AND switch_bit S \<noteq> 0"

definition state_set :: "CompilerState \<Rightarrow> Switch \<Rightarrow> bool \<Rightarrow> CompilerState" where
  "state_set B S On = (if On then B OR switch_bit S else B AND NOT (switch_bit S))"

definition turboDefaults :: CompilerState where
  "turboDefaults = fold (\<lambda>(S, _, _, dflt, _) C. state_set C S dflt) switch_rows 0"

definition switch_row :: "Switch \<Rightarrow> Switch \<times> char \<times> bytes \<times> bool \<times> bool" where
  "switch_row S = switch_rows ! switch_index S"

definition switchLetter :: "Switch \<Rightarrow> char" where
  "switchLetter S = fst (snd (switch_row S))"

definition switchLongName :: "Switch \<Rightarrow> bytes" where
  "switchLongName S = fst (snd (snd (switch_row S)))"

definition switchIsHonored :: "Switch \<Rightarrow> bool" where
  "switchIsHonored S = snd (snd (snd (snd (switch_row S))))"

definition switchFromLetter :: "char \<Rightarrow> Switch option" where
  "switchFromLetter Letter =
     (let Lower = (if 65 \<le> code_of Letter \<and> code_of Letter \<le> 90 then char_of (code_of Letter - 65 + 97) else Letter)
      in map_option fst (find (\<lambda>(S, l, _). Lower = l) switch_rows))"

definition switchFromLongName :: "bytes \<Rightarrow> Switch option" where
  "switchFromLongName Name = map_option fst (find (\<lambda>(S, _, n, _). Name = n) switch_rows)"

subsection \<open>The table of change points\<close>

type_synonym SwitchTable = "(SourceLocation \<times> CompilerState) list"

definition record_switch :: "SwitchTable \<Rightarrow> SourceLocation \<Rightarrow> CompilerState \<Rightarrow> SwitchTable" where
  "record_switch Points Loc State =
     (let It = lower_bound_by (\<lambda>P. fst P < Loc) Points in
      if It < length Points \<and> fst (Points ! It) = Loc
      then Points[It := (fst (Points ! It), State)]
      else take It Points @ (Loc, State) # drop It Points)"

definition stateAt :: "SwitchTable \<Rightarrow> SourceLocation \<Rightarrow> CompilerState \<Rightarrow> CompilerState" where
  "stateAt Points Loc Default =
     (if Points = [] \<or> Loc = 0 then Default
      else let It = upper_bound_by (\<lambda>P. Loc < fst P) Points in
           if It = 0 then Default else snd (Points ! (It - 1)))"

definition switch_on_at :: "SwitchTable \<Rightarrow> Switch \<Rightarrow> SourceLocation \<Rightarrow> CompilerState \<Rightarrow> bool" where
  "switch_on_at Points S Loc Default = state_on (stateAt Points Loc Default) S"

subsection \<open>One bit per switch\<close>

lemma switch_index_less [simp]: "switch_index S < 16"
  by (cases S) auto

lemma switch_index_inject [simp]: "switch_index S = switch_index S' \<longleftrightarrow> S = S'"
  by (metis less_eq_Switch_def order_antisym order_refl)

lemma state_on_bit: "state_on B S \<longleftrightarrow> bit B (switch_index S)"
proof -
  have "B AND switch_bit S = (if bit B (switch_index S) then switch_bit S else 0)"
    by (rule bit_eqI) (auto simp: switch_bit_def bit_simps)
  moreover have "bit (switch_bit S) (switch_index S)" by (simp add: switch_bit_def bit_simps)
  ultimately show ?thesis by (auto simp: state_on_def)
qed

lemma state_on_set [simp]: "state_on (state_set B S On) S' = (if S = S' then On else state_on B S')"
  by (auto simp: state_on_bit state_set_def switch_bit_def bit_simps)

lemma switch_rows_defaults:
  "state_on (fold (\<lambda>(S, _, _, dflt, _) C. state_set C S dflt) rows B) S
   = (case map_of (rev (map (\<lambda>(S, _, _, dflt, _). (S, dflt)) rows)) S of Some d \<Rightarrow> d | None \<Rightarrow> state_on B S)"
  by (induction rows arbitrary: B) (auto split: option.splits prod.splits simp: map_add_def)

subsection \<open>What a table of points promises\<close>

text \<open>The state a map from places to states puts in force at \<open>m\<close>: that of the last place at or
  before it.\<close>

definition governs :: "(nat \<rightharpoonup> 's) \<Rightarrow> nat \<Rightarrow> 's \<Rightarrow> 's" where
  "governs M m d = (if {l \<in> dom M. l \<le> m} = {} then d else the (M (Max {l \<in> dom M. l \<le> m})))"

text \<open>The table may be fed its points in any order: an included file is laid out after its includer but
  read in the middle of it.\<close>

locale positional_state =
  fixes inv :: "'t \<Rightarrow> bool"
    and points :: "'t \<Rightarrow> nat \<rightharpoonup> 's"
    and rec :: "'t \<Rightarrow> nat \<Rightarrow> 's \<Rightarrow> 't"
    and query :: "'t \<Rightarrow> nat \<Rightarrow> 's \<Rightarrow> 's"
  assumes inv_rec: "inv t \<Longrightarrow> inv (rec t l s)"
    and points_rec: "inv t \<Longrightarrow> points (rec t l s) = (points t)(l \<mapsto> s)"
    and query_governs: "inv t \<Longrightarrow> m \<noteq> 0 \<Longrightarrow> query t m d = governs (points t) m d"
begin

definition rec_all :: "'t \<Rightarrow> (nat \<times> 's) list \<Rightarrow> 't" where
  "rec_all t ps = fold (\<lambda>(l, s) t. rec t l s) ps t"

lemma rec_all_points: "inv t \<Longrightarrow> inv (rec_all t ps) \<and> points (rec_all t ps) = points t ++ map_of (rev ps)"
  by (induction ps arbitrary: t) (auto simp: rec_all_def inv_rec points_rec map_add_upds map_add_assoc [symmetric])

lemma rec_all_permute:
  assumes "inv t" "m \<noteq> 0" "distinct (map fst ps)" "set qs = set ps" "distinct (map fst qs)"
  shows "query (rec_all t ps) m d = query (rec_all t qs) m d"
proof -
  have "map_of (rev ps) = map_of (rev qs)"
    using assms(3-5) by (intro map_of_inject_set [THEN iffD2]) (simp_all add: rev_map [symmetric])
  then show ?thesis using assms(1,2) rec_all_points [of t] by (simp add: query_governs)
qed

text \<open>The last point recorded at a place is the one in force there.\<close>

lemma query_rec_same: "inv t \<Longrightarrow> l \<noteq> 0 \<Longrightarrow> query (rec t l s) l d = s"
proof -
  assume t: "inv t" and l: "l \<noteq> 0"
  have "Max {k \<in> dom ((points t)(l \<mapsto> s)). k \<le> l} = l" by (rule Max_eqI) auto
  then show ?thesis using t l by (auto simp: query_governs inv_rec points_rec governs_def)
qed

text \<open>A point changes nothing before it.\<close>

lemma query_rec_before: "inv t \<Longrightarrow> m \<noteq> 0 \<Longrightarrow> m < l \<Longrightarrow> query (rec t l s) m d = query t m d"
proof -
  assume *: "inv t" "m \<noteq> 0" "m < l"
  then have "{k \<in> dom ((points t)(l \<mapsto> s)). k \<le> m} = {k \<in> dom (points t). k \<le> m}" by auto
  moreover have "{k \<in> dom (points t). k \<le> m} \<noteq> {} \<Longrightarrow> Max {k \<in> dom (points t). k \<le> m} \<noteq> l"
    using *(3) Max_in [of "{k \<in> dom (points t). k \<le> m}"] finite_subset [of "{k \<in> dom (points t). k \<le> m}" "{..m}"]
    by fastforce
  ultimately show ?thesis using * by (auto simp: query_governs inv_rec points_rec governs_def)
qed

end

subsection \<open>The sorted list is such a table\<close>

definition table_sorted :: "SwitchTable \<Rightarrow> bool" where
  "table_sorted T \<longleftrightarrow> sorted_wrt (<) (map fst T)"

lemma takeWhile_sorted:
  "sorted_wrt (<) (map fst T) \<Longrightarrow> takeWhile (\<lambda>p. fst p < (k::nat)) T = filter (\<lambda>p. fst p < k) T"
  "sorted_wrt (<) (map fst T) \<Longrightarrow> takeWhile (\<lambda>p. \<not> k < fst p) T = filter (\<lambda>p. \<not> k < fst p) T"
  by (induction T) (auto simp: filter_empty_conv intro!: filter_False [symmetric])

lemma dropWhile_sorted:
  "sorted_wrt (<) (map fst T) \<Longrightarrow> dropWhile (\<lambda>p. fst p < (k::nat)) T = filter (\<lambda>p. k \<le> fst p) T"
  by (induction T) (auto intro!: filter_True [symmetric])

lemma record_switch_eq:
  assumes "table_sorted T"
  shows "record_switch T l s = filter (\<lambda>p. fst p < l) T @ (l, s) # filter (\<lambda>p. l < fst p) T"
proof -
  let ?n = "lower_bound_by (\<lambda>P. fst P < l) T"
  have n: "?n = length (takeWhile (\<lambda>p. fst p < l) T)"
    using assms by (intro lower_bound_by_eq sorted_partitioned_less) (simp add: table_sorted_def)
  have tk: "take ?n T = filter (\<lambda>p. fst p < l) T" "drop ?n T = filter (\<lambda>p. l \<le> fst p) T"
    using assms unfolding n takeWhile_eq_take [symmetric] dropWhile_eq_drop [symmetric]
    by (simp_all only: takeWhile_sorted dropWhile_sorted table_sorted_def)
  show ?thesis
  proof (cases "?n < length T \<and> fst (T ! ?n) = l")
    case True
    then have hd: "drop ?n T = T ! ?n # drop (Suc ?n) T" by (simp add: Cons_nth_drop_Suc)
    have "sorted_wrt (<) (map fst (drop ?n T))" using assms by (simp add: table_sorted_def drop_map [symmetric] sorted_wrt_drop)
    then have "drop (Suc ?n) T = filter (\<lambda>p. l < fst p) (drop ?n T)"
      using True unfolding hd by (auto intro!: filter_True [symmetric])
    then have "drop (Suc ?n) T = filter (\<lambda>p. l < fst p) T" unfolding tk by (simp add: conj_commute cong: conj_cong)
    then show ?thesis using True tk(1) by (simp add: record_switch_def Let_def upd_conv_take_nth_drop)
  next
    case False
    have "drop ?n T = filter (\<lambda>p. l < fst p) T"
    proof (cases "?n < length T")
      case True
      then have "\<not> fst (T ! ?n) < l" using nth_length_takeWhile [of "\<lambda>p. fst p < l" T] n by simp
      with True False have "l < fst (T ! ?n)" by linarith
      moreover have "sorted_wrt (<) (map fst (drop ?n T))" using assms by (simp add: table_sorted_def drop_map [symmetric] sorted_wrt_drop)
      ultimately have "filter (\<lambda>p. l < fst p) (drop ?n T) = drop ?n T"
        using True by (intro filter_True) (auto simp: Cons_nth_drop_Suc [symmetric])
      then show ?thesis unfolding tk by (simp add: conj_commute cong: conj_cong)
    next
      case False
      then have "filter (\<lambda>p. l \<le> fst p) T = []" using tk(2) by simp
      then have "filter (\<lambda>p. l < fst p) T = []" by (auto simp: filter_empty_conv)
      then show ?thesis using False by simp
    qed
    then show ?thesis using False tk(1) by (auto simp: record_switch_def Let_def)
  qed
qed

lemma record_switch_sorted: "table_sorted T \<Longrightarrow> table_sorted (record_switch T l s)"
  by (subst record_switch_eq) (auto simp: table_sorted_def sorted_wrt_append sorted_wrt_map sorted_wrt_filter
      intro: less_trans)

lemma record_switch_points: "table_sorted T \<Longrightarrow> map_of (record_switch T l s) = (map_of T)(l \<mapsto> s)"
proof -
  assume T: "table_sorted T"
  have flt: "map_of (filter (\<lambda>p. P (fst p)) xs) k = (if P k then map_of xs k else None)"
    for P k and xs :: SwitchTable
    by (induction xs) auto
  show ?thesis
    unfolding record_switch_eq [OF T] map_of_append
    by (rule ext) (simp add: map_add_def flt [of "\<lambda>k. k < l"] flt [of "\<lambda>k. l < k"] split: option.splits)
qed

lemma last_take_nth: "n \<noteq> 0 \<Longrightarrow> n \<le> length xs \<Longrightarrow> last (take n xs) = xs ! (n - 1)"
  by (subst last_conv_nth) (auto simp: min_absorb2)

lemma sorted_last: "sorted_wrt (<) (map fst F) \<Longrightarrow> p \<in> set F \<Longrightarrow> (fst p :: nat) \<le> fst (last F)"
  by (induction F rule: rev_induct) (auto simp: sorted_wrt_append intro: less_imp_le)

lemma stateAt_eq:
  assumes "table_sorted T" "m \<noteq> 0"
  shows "stateAt T m d = (let F = filter (\<lambda>p. fst p \<le> m) T in if F = [] then d else snd (last F))"
proof -
  let ?n = "upper_bound_by (\<lambda>P. m < fst P) T"
  have n: "?n = length (takeWhile (\<lambda>p. \<not> m < fst p) T)"
    using assms(1) by (intro upper_bound_by_eq sorted_partitioned_le) (simp add: table_sorted_def)
  have F: "takeWhile (\<lambda>p. \<not> m < fst p) T = filter (\<lambda>p. fst p \<le> m) T"
    using assms(1) takeWhile_sorted(2) [of T m] by (simp add: table_sorted_def not_less)
  have "take ?n T = filter (\<lambda>p. fst p \<le> m) T" unfolding n takeWhile_eq_take [symmetric] by (rule F)
  then have "last (filter (\<lambda>p. fst p \<le> m) T) = T ! (?n - 1)" if "?n \<noteq> 0"
    using that length_takeWhile_le [of "\<lambda>p. \<not> m < fst p" T] n last_take_nth [of ?n T] by simp
  then show ?thesis using assms(2) n unfolding F by (auto simp: stateAt_def Let_def)
qed

lemma stateAt_governs:
  assumes "table_sorted T" "m \<noteq> 0"
  shows "stateAt T m d = governs (map_of T) m d"
proof -
  let ?F = "filter (\<lambda>p. fst p \<le> m) T"
  have dom: "{l \<in> dom (map_of T). l \<le> m} = fst ` set ?F" by (auto simp: dom_map_of_conv_image_fst)
  show ?thesis
  proof (cases "?F = []")
    case True
    then show ?thesis unfolding stateAt_eq [OF assms] governs_def dom by simp
  next
    case False
    have "sorted_wrt (<) (map fst ?F)"
      using assms(1) by (simp add: table_sorted_def sorted_wrt_map sorted_wrt_filter)
    then have le: "fst p \<le> fst (last ?F)" if "p \<in> set ?F" for p using that by (rule sorted_last)
    have "Max (fst ` set ?F) = fst (last ?F)" 
      using imageI [OF last_in_set [OF False], of fst] le by (intro Max_eqI) auto
    moreover have "map_of T (fst (last ?F)) = Some (snd (last ?F))"
      using assms(1) False last_in_set [OF False]
      by (intro map_of_is_SomeI) (auto simp: table_sorted_def strict_sorted_iff)
    ultimately show ?thesis unfolding stateAt_eq [OF assms] governs_def dom using False
      by (simp only: Let_def if_False image_is_empty set_empty option.sel)
  qed
qed

interpretation switches: positional_state table_sorted map_of record_switch stateAt
  by unfold_locales (simp_all add: record_switch_sorted record_switch_points stateAt_governs)

subsection \<open>Correctness\<close>

text \<open>C29. The switch table answers by place and not by the order it was fed: for any sequence of points at
  distinct places, in any order, the table built from them is sorted and the state it reports at a
  location is that of the last point at or before it.  A resume point recorded after an included file,
  whose offsets are larger, loses nothing.\<close>

theorem switch_points_any_order:
  assumes "distinct (map fst ps)" "mset qs = mset ps" "Loc \<noteq> 0"
  shows "table_sorted (fold (\<lambda>(l, s) T. record_switch T l s) qs [])
       \<and> stateAt (fold (\<lambda>(l, s) T. record_switch T l s) qs []) Loc d = governs (map_of ps) Loc d"
proof -
  have inv: "table_sorted []" by (simp add: table_sorted_def)
  have d: "distinct (map fst qs)" "set qs = set ps"
    using assms(1,2) by (metis mset_map mset_eq_imp_distinct_iff, metis mset_eq_setD)
  have "map_of (rev qs) = map_of ps"
    using assms(1) d by (intro map_of_inject_set [THEN iffD2]) (simp_all add: rev_map [symmetric])
  then show ?thesis
    using switches.rec_all_points [OF inv, of qs] assms(3)
    by (simp add: switches.rec_all_def switches.query_governs)
qed

theorem switch_points_any_order_witness:
  "stateAt (fold (\<lambda>(l, s) T. record_switch T l s) [(5, 1), (40, 2), (9, 3)] []) 20 0 = 3"
proof -
  let ?M = "map_of [(5::nat, 1::16 word), (9, 3), (40, 2)]"
  have D: "{l \<in> dom ?M. l \<le> 20} = {5, 9}" by (auto split: if_splits)
  have "governs ?M 20 0 = 3" unfolding governs_def D by simp
  moreover have "stateAt (fold (\<lambda>(l, s) T. record_switch T l s) [(5, 1), (40, 2), (9, 3)] []) 20 0 = governs ?M 20 0"
    by (rule conjunct2 [OF switch_points_any_order]) simp_all
  ultimately show ?thesis by simp
qed

text \<open>Every switch is found again by its long name and, if it has one, by its letter in either case;
  a compilation starts with each switch at Turbo's documented default; and setting one switch leaves
  every other as it was.\<close>

lemma switch_lookup_roundtrip:
  "switchFromLongName (switchLongName S) = Some S
   \<and> (switchLetter S = CHR 0x00 \<or>
      (switchFromLetter (switchLetter S) = Some S \<and> switchFromLetter (c_toupper (switchLetter S)) = Some S))
   \<and> state_on turboDefaults S
       = (S \<in> {IOChecks, ExtendedSyntax, VarStringChecks, StackChecks, Assertions, WritableConst, Goto})
   \<and> state_on (state_set B S On) S' = (if S = S' then On else state_on B S')"
proof -
  have "switchFromLongName (switchLongName S) = Some S" by (induction S; code_simp)
  moreover have "switchLetter S = CHR 0x00 \<or>
      (switchFromLetter (switchLetter S) = Some S \<and> switchFromLetter (c_toupper (switchLetter S)) = Some S)"
    by (induction S; code_simp)
  moreover have "state_on turboDefaults S
       = (S \<in> {IOChecks, ExtendedSyntax, VarStringChecks, StackChecks, Assertions, WritableConst, Goto})"
    by (cases S) (simp_all add: turboDefaults_def switch_rows_def)
  ultimately show ?thesis by simp
qed

end
