(* ===== verification/Lang_Options.thy ===== *)
theory Lang_Options
  imports Switch_Table "HOL-Library.Char_ord" "HOL-Library.List_Lexorder"
begin

text \<open>
  The dialects and tokens of the language: \<^verbatim>\<open>include/plang/Basic/LangOptions.h\<close>,
  \<^verbatim>\<open>Dialects.def\<close>, \<^verbatim>\<open>LangFeatures.def\<close>, \<^verbatim>\<open>Token.h\<close> and
  \<^verbatim>\<open>TokenKinds.def\<close>.  A dialect mask is a 32-bit value.  Token kinds carry the prefix \<open>tk\<close>,
  since many of their names are constants of HOL; the fields of the options the code generator alone
  reads are left out.
\<close>

subsection \<open>Dialects and features\<close>

datatype Standard = ISO7185 | ISO10206 | FPC | Delphi | Turbo

text \<open>Spelling and whether it is implemented.\<close>

definition dialect_rows :: "(Standard \<times> bytes \<times> bool) list" where
  "dialect_rows = [(ISO7185, ''iso7185'', True), (ISO10206, ''iso10206'', True), (FPC, ''fpc'', False),
                   (Delphi, ''delphi'', False), (Turbo, ''turbo'', True)]"

type_synonym DialectBits = "32 word"

definition D_ISO7185 :: DialectBits where "D_ISO7185 = push_bit 0 1"
definition D_ISO10206 :: DialectBits where "D_ISO10206 = push_bit 1 1"
definition D_Turbo :: DialectBits where "D_Turbo = push_bit 2 1"
definition D_Delphi :: DialectBits where "D_Delphi = push_bit 3 1"
definition D_FPC :: DialectBits where "D_FPC = push_bit 4 1"

lemmas dialect_bits = D_ISO7185_def D_ISO10206_def D_Turbo_def D_Delphi_def D_FPC_def

datatype Feature =
  FreeDeclarationOrder | ConstantExpressions | CaseDefaultArm | CaseConstantRanges
| SubrangeBoundExprs | EmptyStringLiteral | UnderscoreIdentifiers | CharConcatenation

fun featureDialects :: "Feature \<Rightarrow> DialectBits" where
  "featureDialects FreeDeclarationOrder = D_ISO10206 OR D_Turbo"
| "featureDialects ConstantExpressions = D_ISO10206 OR D_Turbo"
| "featureDialects CaseDefaultArm = D_ISO10206 OR D_Turbo"
| "featureDialects CaseConstantRanges = D_ISO10206 OR D_Turbo"
| "featureDialects SubrangeBoundExprs = D_ISO10206 OR D_Turbo"
| "featureDialects EmptyStringLiteral = D_ISO10206 OR D_Turbo"
| "featureDialects UnderscoreIdentifiers = D_ISO10206 OR D_Turbo"
| "featureDialects CharConcatenation = D_ISO10206 OR D_Turbo"

record LangOptions =
  Std :: Standard
  OptRangeChecks :: bool
  OptIOChecks :: bool
  OptSwitches :: "SwitchTable option"
  ModuleSearchPaths :: "bytes list"
  IncludeSearchPaths :: "bytes list"
  UnitSearchPaths :: "bytes list"
  Defines :: "bytes list"

definition defaultSwitches :: "LangOptions \<Rightarrow> CompilerState" where
  "defaultSwitches opts = state_set (state_set turboDefaults RangeChecks (OptRangeChecks opts)) IOChecks (OptIOChecks opts)"

definition switchOn :: "LangOptions \<Rightarrow> Switch \<Rightarrow> SourceLocation \<Rightarrow> bool" where
  "switchOn opts S Loc =
     (case OptSwitches opts of
        None \<Rightarrow> state_on (defaultSwitches opts) S
      | Some T \<Rightarrow> switch_on_at T S Loc (defaultSwitches opts))"

definition dialectBit :: "LangOptions \<Rightarrow> DialectBits" where
  "dialectBit opts = (case Std opts of ISO7185 \<Rightarrow> D_ISO7185 | ISO10206 \<Rightarrow> D_ISO10206 | FPC \<Rightarrow> D_FPC
                              | Delphi \<Rightarrow> D_Delphi | Turbo \<Rightarrow> D_Turbo)"

definition parseDialect :: "bytes \<Rightarrow> Standard option" where
  "parseDialect Name = map_option fst (find (\<lambda>(_, sp, _). Name = sp) dialect_rows)"

definition isImplementedDialect :: "bytes \<Rightarrow> bool" where
  "isImplementedDialect Name = (case find (\<lambda>(_, sp, _). Name = sp) dialect_rows of
                                  Some (_, _, impl) \<Rightarrow> impl | None \<Rightarrow> False)"

definition append_listed :: "bytes \<Rightarrow> bytes \<Rightarrow> bytes" where
  "append_listed Out sp = (if Out \<noteq> [] then Out @ '', '' @ sp else sp)"

definition knownDialects :: bytes where
  "knownDialects = fold (\<lambda>(_, sp, _) Out. append_listed Out sp) dialect_rows []"

definition implementedDialects :: bytes where
  "implementedDialects = fold (\<lambda>(_, sp, impl) Out. if impl then append_listed Out sp else Out) dialect_rows []"

definition inDialect :: "LangOptions \<Rightarrow> DialectBits \<Rightarrow> bool" where
  "inDialect opts Mask \<longleftrightarrow> dialectBit opts AND Mask \<noteq> 0"

definition has_feature :: "LangOptions \<Rightarrow> Feature \<Rightarrow> bool" where
  "has_feature opts F = inDialect opts (featureDialects F)"

definition extendedPascal :: "LangOptions \<Rightarrow> bool" where "extendedPascal opts \<longleftrightarrow> Std opts = ISO10206"
definition turbo :: "LangOptions \<Rightarrow> bool" where "turbo opts \<longleftrightarrow> Std opts = Turbo"

definition defaultIntWidth :: "LangOptions \<Rightarrow> nat" where
  "defaultIntWidth opts = (if turbo opts then 16 else 64)"

subsection \<open>Tokens\<close>

text \<open>The enumeration is kept in groups, so that no single datatype grows to a hundred constructors; a
  kind is written with its own name through the abbreviations below.\<close>

datatype word_a_g =
  kAnd | kArray | kBegin | kBoolean | kCase | kChar | kConst | kDiv | kDo | kDownto | kElse |
  kEnd | kFalse | kFile | kFor | kForward | kFunction | kGoto

datatype word_i_z =
  kIf | kIn | kInteger | kLabel | kMod | kNil | kNot | kOf | kOr | kPacked | kProcedure |
  kProgram | kReal | kRecord | kRepeat | kSet | kString | kThen | kTo | kTrue | kType | kUntil |
  kVar | kWhile | kWith

datatype word_ep =
  kAndThen | kBindable | kExport | kImport | kInterface | kModule | kOnly | kOrElse | kOtherwise |
  kPow | kProtected | kQualified | kRestricted | kValue

datatype word_tp =
  kAbstract | kAsm | kConstructor | kDestructor | kExports | kImplementation | kInherited |
  kInline | kLibrary | kObject | kPrivate | kPublic | kShl | kShr | kUnit | kUses | kVirtual | kXor

datatype punct =
  kAssign | kAt | kCaret | kColon | kComma | kDivide | kDot | kDotDot | kEqual | kGreaterThan |
  kGreaterThanOrEqual | kLeftBracket | kLeftParen | kLessThan | kLessThanOrEqual | kMinus |
  kNotEqual | kPlus | kRightBracket | kRightParen | kSemicolon | kStarStar | kSymDiff | kTimes

datatype TokenKind =
  tkIntLit | tkRealLit | tkStringLit | tkIdentifier | tkEof | tkError
| WordAG word_a_g | WordIZ word_i_z | WordEP word_ep | WordTP word_tp | Punct punct

abbreviation tkAnd :: TokenKind where "tkAnd \<equiv> WordAG kAnd"
abbreviation tkArray :: TokenKind where "tkArray \<equiv> WordAG kArray"
abbreviation tkBegin :: TokenKind where "tkBegin \<equiv> WordAG kBegin"
abbreviation tkBoolean :: TokenKind where "tkBoolean \<equiv> WordAG kBoolean"
abbreviation tkCase :: TokenKind where "tkCase \<equiv> WordAG kCase"
abbreviation tkChar :: TokenKind where "tkChar \<equiv> WordAG kChar"
abbreviation tkConst :: TokenKind where "tkConst \<equiv> WordAG kConst"
abbreviation tkDiv :: TokenKind where "tkDiv \<equiv> WordAG kDiv"
abbreviation tkDo :: TokenKind where "tkDo \<equiv> WordAG kDo"
abbreviation tkDownto :: TokenKind where "tkDownto \<equiv> WordAG kDownto"
abbreviation tkElse :: TokenKind where "tkElse \<equiv> WordAG kElse"
abbreviation tkEnd :: TokenKind where "tkEnd \<equiv> WordAG kEnd"
abbreviation tkFalse :: TokenKind where "tkFalse \<equiv> WordAG kFalse"
abbreviation tkFile :: TokenKind where "tkFile \<equiv> WordAG kFile"
abbreviation tkFor :: TokenKind where "tkFor \<equiv> WordAG kFor"
abbreviation tkForward :: TokenKind where "tkForward \<equiv> WordAG kForward"
abbreviation tkFunction :: TokenKind where "tkFunction \<equiv> WordAG kFunction"
abbreviation tkGoto :: TokenKind where "tkGoto \<equiv> WordAG kGoto"
abbreviation tkIf :: TokenKind where "tkIf \<equiv> WordIZ kIf"
abbreviation tkIn :: TokenKind where "tkIn \<equiv> WordIZ kIn"
abbreviation tkInteger :: TokenKind where "tkInteger \<equiv> WordIZ kInteger"
abbreviation tkLabel :: TokenKind where "tkLabel \<equiv> WordIZ kLabel"
abbreviation tkMod :: TokenKind where "tkMod \<equiv> WordIZ kMod"
abbreviation tkNil :: TokenKind where "tkNil \<equiv> WordIZ kNil"
abbreviation tkNot :: TokenKind where "tkNot \<equiv> WordIZ kNot"
abbreviation tkOf :: TokenKind where "tkOf \<equiv> WordIZ kOf"
abbreviation tkOr :: TokenKind where "tkOr \<equiv> WordIZ kOr"
abbreviation tkPacked :: TokenKind where "tkPacked \<equiv> WordIZ kPacked"
abbreviation tkProcedure :: TokenKind where "tkProcedure \<equiv> WordIZ kProcedure"
abbreviation tkProgram :: TokenKind where "tkProgram \<equiv> WordIZ kProgram"
abbreviation tkReal :: TokenKind where "tkReal \<equiv> WordIZ kReal"
abbreviation tkRecord :: TokenKind where "tkRecord \<equiv> WordIZ kRecord"
abbreviation tkRepeat :: TokenKind where "tkRepeat \<equiv> WordIZ kRepeat"
abbreviation tkSet :: TokenKind where "tkSet \<equiv> WordIZ kSet"
abbreviation tkString :: TokenKind where "tkString \<equiv> WordIZ kString"
abbreviation tkThen :: TokenKind where "tkThen \<equiv> WordIZ kThen"
abbreviation tkTo :: TokenKind where "tkTo \<equiv> WordIZ kTo"
abbreviation tkTrue :: TokenKind where "tkTrue \<equiv> WordIZ kTrue"
abbreviation tkType :: TokenKind where "tkType \<equiv> WordIZ kType"
abbreviation tkUntil :: TokenKind where "tkUntil \<equiv> WordIZ kUntil"
abbreviation tkVar :: TokenKind where "tkVar \<equiv> WordIZ kVar"
abbreviation tkWhile :: TokenKind where "tkWhile \<equiv> WordIZ kWhile"
abbreviation tkWith :: TokenKind where "tkWith \<equiv> WordIZ kWith"
abbreviation tkAndThen :: TokenKind where "tkAndThen \<equiv> WordEP kAndThen"
abbreviation tkBindable :: TokenKind where "tkBindable \<equiv> WordEP kBindable"
abbreviation tkExport :: TokenKind where "tkExport \<equiv> WordEP kExport"
abbreviation tkImport :: TokenKind where "tkImport \<equiv> WordEP kImport"
abbreviation tkInterface :: TokenKind where "tkInterface \<equiv> WordEP kInterface"
abbreviation tkModule :: TokenKind where "tkModule \<equiv> WordEP kModule"
abbreviation tkOnly :: TokenKind where "tkOnly \<equiv> WordEP kOnly"
abbreviation tkOrElse :: TokenKind where "tkOrElse \<equiv> WordEP kOrElse"
abbreviation tkOtherwise :: TokenKind where "tkOtherwise \<equiv> WordEP kOtherwise"
abbreviation tkPow :: TokenKind where "tkPow \<equiv> WordEP kPow"
abbreviation tkProtected :: TokenKind where "tkProtected \<equiv> WordEP kProtected"
abbreviation tkQualified :: TokenKind where "tkQualified \<equiv> WordEP kQualified"
abbreviation tkRestricted :: TokenKind where "tkRestricted \<equiv> WordEP kRestricted"
abbreviation tkValue :: TokenKind where "tkValue \<equiv> WordEP kValue"
abbreviation tkAbstract :: TokenKind where "tkAbstract \<equiv> WordTP kAbstract"
abbreviation tkAsm :: TokenKind where "tkAsm \<equiv> WordTP kAsm"
abbreviation tkConstructor :: TokenKind where "tkConstructor \<equiv> WordTP kConstructor"
abbreviation tkDestructor :: TokenKind where "tkDestructor \<equiv> WordTP kDestructor"
abbreviation tkExports :: TokenKind where "tkExports \<equiv> WordTP kExports"
abbreviation tkImplementation :: TokenKind where "tkImplementation \<equiv> WordTP kImplementation"
abbreviation tkInherited :: TokenKind where "tkInherited \<equiv> WordTP kInherited"
abbreviation tkInline :: TokenKind where "tkInline \<equiv> WordTP kInline"
abbreviation tkLibrary :: TokenKind where "tkLibrary \<equiv> WordTP kLibrary"
abbreviation tkObject :: TokenKind where "tkObject \<equiv> WordTP kObject"
abbreviation tkPrivate :: TokenKind where "tkPrivate \<equiv> WordTP kPrivate"
abbreviation tkPublic :: TokenKind where "tkPublic \<equiv> WordTP kPublic"
abbreviation tkShl :: TokenKind where "tkShl \<equiv> WordTP kShl"
abbreviation tkShr :: TokenKind where "tkShr \<equiv> WordTP kShr"
abbreviation tkUnit :: TokenKind where "tkUnit \<equiv> WordTP kUnit"
abbreviation tkUses :: TokenKind where "tkUses \<equiv> WordTP kUses"
abbreviation tkVirtual :: TokenKind where "tkVirtual \<equiv> WordTP kVirtual"
abbreviation tkXor :: TokenKind where "tkXor \<equiv> WordTP kXor"
abbreviation tkAssign :: TokenKind where "tkAssign \<equiv> Punct kAssign"
abbreviation tkAt :: TokenKind where "tkAt \<equiv> Punct kAt"
abbreviation tkCaret :: TokenKind where "tkCaret \<equiv> Punct kCaret"
abbreviation tkColon :: TokenKind where "tkColon \<equiv> Punct kColon"
abbreviation tkComma :: TokenKind where "tkComma \<equiv> Punct kComma"
abbreviation tkDivide :: TokenKind where "tkDivide \<equiv> Punct kDivide"
abbreviation tkDot :: TokenKind where "tkDot \<equiv> Punct kDot"
abbreviation tkDotDot :: TokenKind where "tkDotDot \<equiv> Punct kDotDot"
abbreviation tkEqual :: TokenKind where "tkEqual \<equiv> Punct kEqual"
abbreviation tkGreaterThan :: TokenKind where "tkGreaterThan \<equiv> Punct kGreaterThan"
abbreviation tkGreaterThanOrEqual :: TokenKind where "tkGreaterThanOrEqual \<equiv> Punct kGreaterThanOrEqual"
abbreviation tkLeftBracket :: TokenKind where "tkLeftBracket \<equiv> Punct kLeftBracket"
abbreviation tkLeftParen :: TokenKind where "tkLeftParen \<equiv> Punct kLeftParen"
abbreviation tkLessThan :: TokenKind where "tkLessThan \<equiv> Punct kLessThan"
abbreviation tkLessThanOrEqual :: TokenKind where "tkLessThanOrEqual \<equiv> Punct kLessThanOrEqual"
abbreviation tkMinus :: TokenKind where "tkMinus \<equiv> Punct kMinus"
abbreviation tkNotEqual :: TokenKind where "tkNotEqual \<equiv> Punct kNotEqual"
abbreviation tkPlus :: TokenKind where "tkPlus \<equiv> Punct kPlus"
abbreviation tkRightBracket :: TokenKind where "tkRightBracket \<equiv> Punct kRightBracket"
abbreviation tkRightParen :: TokenKind where "tkRightParen \<equiv> Punct kRightParen"
abbreviation tkSemicolon :: TokenKind where "tkSemicolon \<equiv> Punct kSemicolon"
abbreviation tkStarStar :: TokenKind where "tkStarStar \<equiv> Punct kStarStar"
abbreviation tkSymDiff :: TokenKind where "tkSymDiff \<equiv> Punct kSymDiff"
abbreviation tkTimes :: TokenKind where "tkTimes \<equiv> Punct kTimes"

text \<open>The reserved words in the order of the table, with the dialects of those only some reserve.\<close>

definition keyword_table :: "(bytes \<times> TokenKind) list" where
  "keyword_table =
    [(''abstract'', tkAbstract), (''and'', tkAnd), (''and_then'', tkAndThen), (''array'', tkArray),
     (''asm'', tkAsm), (''begin'', tkBegin), (''bindable'', tkBindable), (''boolean'', tkBoolean),
     (''case'', tkCase), (''char'', tkChar), (''const'', tkConst),
     (''constructor'', tkConstructor), (''destructor'', tkDestructor), (''div'', tkDiv),
     (''do'', tkDo), (''downto'', tkDownto), (''else'', tkElse), (''end'', tkEnd),
     (''export'', tkExport), (''exports'', tkExports), (''false'', tkFalse), (''file'', tkFile),
     (''for'', tkFor), (''forward'', tkForward), (''function'', tkFunction), (''goto'', tkGoto),
     (''if'', tkIf), (''implementation'', tkImplementation), (''import'', tkImport),
     (''in'', tkIn), (''inherited'', tkInherited), (''inline'', tkInline),
     (''integer'', tkInteger), (''interface'', tkInterface), (''label'', tkLabel),
     (''library'', tkLibrary), (''mod'', tkMod), (''module'', tkModule), (''nil'', tkNil),
     (''not'', tkNot), (''object'', tkObject), (''of'', tkOf), (''only'', tkOnly), (''or'', tkOr),
     (''or_else'', tkOrElse), (''otherwise'', tkOtherwise), (''packed'', tkPacked),
     (''pow'', tkPow), (''private'', tkPrivate), (''procedure'', tkProcedure),
     (''program'', tkProgram), (''protected'', tkProtected), (''public'', tkPublic),
     (''qualified'', tkQualified), (''real'', tkReal), (''record'', tkRecord),
     (''repeat'', tkRepeat), (''restricted'', tkRestricted), (''set'', tkSet), (''shl'', tkShl),
     (''shr'', tkShr), (''string'', tkString), (''then'', tkThen), (''to'', tkTo),
     (''true'', tkTrue), (''type'', tkType), (''unit'', tkUnit), (''until'', tkUntil),
     (''uses'', tkUses), (''value'', tkValue), (''var'', tkVar), (''virtual'', tkVirtual),
     (''while'', tkWhile), (''with'', tkWith), (''xor'', tkXor)]"

definition dialect_keywords :: "(TokenKind \<times> DialectBits) list" where
  "dialect_keywords =
    [(tkAbstract, D_Turbo), (tkAndThen, D_ISO10206), (tkAsm, D_Turbo), (tkBindable, D_ISO10206),
     (tkConstructor, D_Turbo), (tkDestructor, D_Turbo), (tkExport, D_ISO10206),
     (tkExports, D_Turbo), (tkImplementation, D_Turbo), (tkImport, D_ISO10206),
     (tkInherited, D_Turbo), (tkInline, D_Turbo), (tkInterface, D_ISO10206 OR D_Turbo),
     (tkLibrary, D_Turbo), (tkModule, D_ISO10206), (tkObject, D_Turbo), (tkOnly, D_ISO10206),
     (tkOrElse, D_ISO10206), (tkOtherwise, D_ISO10206), (tkPow, D_ISO10206), (tkPrivate, D_Turbo),
     (tkProtected, D_ISO10206), (tkPublic, D_Turbo), (tkQualified, D_ISO10206),
     (tkRestricted, D_ISO10206), (tkShl, D_Turbo), (tkShr, D_Turbo), (tkUnit, D_Turbo),
     (tkUses, D_Turbo), (tkValue, D_ISO10206), (tkVirtual, D_Turbo), (tkXor, D_Turbo)]"

definition keywordDialects :: "TokenKind \<Rightarrow> DialectBits" where
  "keywordDialects K = (case map_of dialect_keywords K of Some D \<Rightarrow> D | None \<Rightarrow> NOT 0)"

definition punct_rows :: "(TokenKind \<times> bytes) list" where
  "punct_rows =
    [(tkAssign, '':=''), (tkAt, ''@''), (tkCaret, ''^''), (tkColon, '':''), (tkComma, '',''),
     (tkDivide, ''/''), (tkDot, ''.''), (tkDotDot, ''..''), (tkEqual, ''=''),
     (tkGreaterThan, ''>''), (tkGreaterThanOrEqual, ''>=''), (tkLeftBracket, ''[''),
     (tkLeftParen, ''(''), (tkLessThan, ''<''), (tkLessThanOrEqual, ''<=''), (tkMinus, ''-''),
     (tkNotEqual, ''<>''), (tkPlus, ''+''), (tkRightBracket, '']''), (tkRightParen, '')''),
     (tkSemicolon, '';''), (tkStarStar, ''**''), (tkSymDiff, ''><''), (tkTimes, ''*'')]"

definition varying_rows :: "(TokenKind \<times> bytes) list" where
  "varying_rows =
    [(tkIntLit, ''integer literal''), (tkRealLit, ''real literal''),
     (tkStringLit, ''string literal''), (tkIdentifier, ''identifier''), (tkEof, ''end of file''),
     (tkError, ''invalid character'')]"

definition fixed_rows :: "(TokenKind \<times> bytes) list" where
  "fixed_rows = map (\<lambda>(sp, k). (k, sp)) keyword_table @ punct_rows"

definition hasFixedSpelling :: "TokenKind \<Rightarrow> bool" where
  "hasFixedSpelling K \<longleftrightarrow> K \<in> set (map fst fixed_rows)"

definition spelling :: "TokenKind \<Rightarrow> bytes" where
  "spelling K = (case map_of (fixed_rows @ varying_rows) K of Some sp \<Rightarrow> sp | None \<Rightarrow> ''unknown token'')"

definition opSpelling :: "TokenKind \<Rightarrow> bytes" where "opSpelling K = spelling K"

text \<open>The translation of a description, if the message catalog has one, is a parameter.\<close>

definition describe :: "(TokenKind \<Rightarrow> bytes option) \<Rightarrow> TokenKind \<Rightarrow> bytes" where
  "describe localized K =
     (if \<not> hasFixedSpelling K then (case localized K of Some t \<Rightarrow> t | None \<Rightarrow> spelling K)
      else [CHR 0x27] @ spelling K @ [CHR 0x27])"

record Token =
  Kind :: TokenKind
  Lexeme :: bytes
  Loc :: SourceLocation

subsection \<open>The keyword table\<close>

text \<open>\<^verbatim>\<open>std::ranges::lower_bound(keywords, Lower, {}, &KW::first)\<close> and the two tests after it.\<close>

definition keyword_kind :: "LangOptions \<Rightarrow> bytes \<Rightarrow> TokenKind" where
  "keyword_kind opts Lower =
     (let It = lower_bound_by (\<lambda>e. fst e < Lower) keyword_table;
          K = (if It < length keyword_table \<and> fst (keyword_table ! It) = Lower then snd (keyword_table ! It) else tkIdentifier) in
      if keywordDialects K AND dialectBit opts = 0 then tkIdentifier else K)"

lemma keywords_sorted: "sorted_wrt (<) (map fst keyword_table)"
  by code_simp

text \<open>A word the dialect reserves, by plain lookup.\<close>

definition reserved_word :: "LangOptions \<Rightarrow> bytes \<Rightarrow> TokenKind option" where
  "reserved_word opts w =
     (case map_of keyword_table w of
        Some K \<Rightarrow> (if keywordDialects K AND dialectBit opts = 0 then None else Some K)
      | None \<Rightarrow> None)"

lemma bsearch_map_of:
  fixes T :: "('k::linorder \<times> 'v) list"
  assumes "sorted_wrt (<) (map fst T)"
  shows "(let It = lower_bound_by (\<lambda>e. fst e < k) T in
          if It < length T \<and> fst (T ! It) = k then Some (snd (T ! It)) else None) = map_of T k"
proof -
  let ?n = "length (takeWhile (\<lambda>e. fst e < k) T)"
  have n: "lower_bound_by (\<lambda>e. fst e < k) T = ?n"
    using assms by (intro lower_bound_by_eq sorted_partitioned_less)
  have dist: "distinct (map fst T)" using assms by (simp add: strict_sorted_iff)
  show ?thesis
  proof (cases "?n < length T \<and> fst (T ! ?n) = k")
    case True
    then have "(k, snd (T ! ?n)) \<in> set T" by (metis nth_mem prod.collapse)
    then have "map_of T k = Some (snd (T ! ?n))" using dist by (intro map_of_is_SomeI)
    then show ?thesis using True by (simp add: n Let_def)
  next
    case False
    have "k \<notin> fst ` set T"
    proof
      assume "k \<in> fst ` set T"
      then obtain i where i: "i < length T" "fst (T ! i) = k" by (auto simp: in_set_conv_nth)
      have "?n \<le> i"
      proof (rule ccontr)
        assume "\<not> ?n \<le> i"
        then have "i < ?n" by simp
        then have "T ! i \<in> set (takeWhile (\<lambda>e. fst e < k) T)" by (metis nth_mem takeWhile_nth)
        then show False using i(2) set_takeWhileD by fastforce
      qed
      moreover have "\<not> fst (T ! ?n) < k" using calculation i(1) nth_length_takeWhile [of "\<lambda>e. fst e < k" T] by simp
      moreover have "?n < i \<Longrightarrow> fst (T ! ?n) < fst (T ! i)"
        using assms i(1) by (simp add: sorted_wrt_iff_nth_less)
      ultimately show False using i False by (cases "?n = i") auto
    qed
    then have "map_of T k = None" by (simp add: map_of_eq_None_iff)
    then show ?thesis using False by (simp add: n Let_def)
  qed
qed

lemma tkIdentifier_not_dialect: "keywordDialects tkIdentifier AND dialectBit opts \<noteq> 0"
  by (cases "Std opts") (simp_all add: keywordDialects_def dialect_keywords_def dialectBit_def dialect_bits)

subsection \<open>Correctness\<close>

text \<open>The binary search over the reserved words finds exactly the word it is given, in every dialect:
  a word is a keyword when the table has it and the dialect reserves it, and an identifier otherwise, so
  a name another dialect reserves stays free for a program to use.\<close>

theorem keyword_kind_reserved:
  "keyword_kind opts w = (case reserved_word opts w of Some K \<Rightarrow> K | None \<Rightarrow> tkIdentifier)"
  using bsearch_map_of [OF keywords_sorted, of w] tkIdentifier_not_dialect [of opts]
  by (auto simp: keyword_kind_def reserved_word_def Let_def split: option.splits if_splits)

end
