(* ===== verification/Source_Manager.thy ===== *)
theory Source_Manager
  imports String_Util
begin

text \<open>
  \<^verbatim>\<open>lib/Basic/SourceManager.cpp\<close>: the buffers of a compilation laid out in one 32-bit coordinate
  space.  A \<open>Buffer*\<close> is an index into the deque.  Sums made in 32 bits wrap as in the code
  (\<open>u32\<close>); the one made in 64 bits in \<open>wouldOverflow\<close> cannot, since the size of a text in
  memory is far below 2 to the power 63.  The file system is a parameter of \<open>addFile\<close>: the size the
  stat call reports, if it succeeds, and the bytes read, if the file opens.
\<close>

record Buffer =
  BufName :: bytes
  BufText :: bytes
  Base :: nat
  LineStarts :: "nat list"

record SourceManager =
  Buffers :: "Buffer list"
  NextBase :: nat

record PresumedLoc =
  Filename :: bytes
  Line :: nat
  Column :: nat

definition emptySourceManager :: SourceManager where
  "emptySourceManager = \<lparr>Buffers = [], NextBase = 1\<rparr>"

abbreviation LF :: char where "LF \<equiv> CHR 0x0A"
abbreviation CR :: char where "CR \<equiv> CHR 0x0D"

subsection \<open>Operations\<close>

definition wouldOverflow :: "SourceManager \<Rightarrow> nat \<Rightarrow> bool" where
  "wouldOverflow SM TextSize \<longleftrightarrow> NextBase SM + TextSize + 1 > UINT32_MAX"

definition UTF8BOM :: bytes where "UTF8BOM = [CHR 0xEF, CHR 0xBB, CHR 0xBF]"

definition strip_bom :: "bytes \<Rightarrow> bytes" where
  "strip_bom tx = (if take 3 tx = UTF8BOM then drop 3 tx else tx)"

function line_starts_loop :: "bytes \<Rightarrow> nat \<Rightarrow> nat list \<Rightarrow> nat list" where
  "line_starts_loop tx I acc =
     (if I < length tx then
        (if tx ! I = LF then line_starts_loop tx (I + 1) (acc @ [u32 (I + 1)])
         else if tx ! I = CR then
           (let I' = (if I + 1 < length tx \<and> tx ! (I + 1) = LF then I + 1 else I) in
            line_starts_loop tx (I' + 1) (acc @ [u32 (I' + 1)]))
         else line_starts_loop tx (I + 1) acc)
      else acc)"
  by pat_completeness auto
termination
  by (relation "measure (\<lambda>(tx, I, acc). length tx - I)") (auto simp: Let_def)

declare line_starts_loop.simps [simp del]

definition addBuffer :: "SourceManager \<Rightarrow> bytes \<Rightarrow> bytes \<Rightarrow> FileID option \<times> SourceManager" where
  "addBuffer SM Name Text =
     (let Text' = strip_bom Text in
      if wouldOverflow SM (length Text') then (None, SM)
      else let B = \<lparr>BufName = Name, BufText = Text', Base = NextBase SM,
                    LineStarts = line_starts_loop Text' 0 [0]\<rparr>;
               Bs = Buffers SM @ [B] in
           (Some (u32 (length Bs)),
            \<lparr>Buffers = Bs, NextBase = u32 (NextBase SM + (u32 (length Text') + 1))\<rparr>))"

definition addFile ::
  "SourceManager \<Rightarrow> bytes \<Rightarrow> nat option \<Rightarrow> bytes option \<Rightarrow> FileID option \<times> SourceManager" where
  "addFile SM Path file_size contents =
     (if (case file_size of Some n \<Rightarrow> wouldOverflow SM n | None \<Rightarrow> False) then (None, SM)
      else case contents of None \<Rightarrow> (None, SM) | Some tx \<Rightarrow> addBuffer SM Path tx)"

definition bufferForFile :: "SourceManager \<Rightarrow> FileID \<Rightarrow> nat option" where
  "bufferForFile SM FID = (if FID = 0 \<or> FID > length (Buffers SM) then None else Some (FID - 1))"

definition bufferForLoc :: "SourceManager \<Rightarrow> SourceLocation \<Rightarrow> nat option" where
  "bufferForLoc SM Loc =
     (if Loc = 0 then None
      else let It = upper_bound_by (\<lambda>B. Loc < Base B) (Buffers SM) in
           if It = 0 then None
           else let B = Buffers SM ! (It - 1) in
                if Loc > Base B + length (BufText B) then None else Some (It - 1))"

definition indexOf :: "nat option \<Rightarrow> FileID" where
  "indexOf B = (case B of None \<Rightarrow> 0 | Some i \<Rightarrow> u32 i + 1)"

definition getLocForOffset :: "SourceManager \<Rightarrow> FileID \<Rightarrow> nat \<Rightarrow> SourceLocation" where
  "getLocForOffset SM FID Offset =
     (case bufferForFile SM FID of
        None \<Rightarrow> 0
      | Some i \<Rightarrow> let B = Buffers SM ! i;
                     Off = (if Offset > length (BufText B) then length (BufText B) else Offset) in
                 u32 (Base B + u32 Off))"

definition getFileID :: "SourceManager \<Rightarrow> SourceLocation \<Rightarrow> FileID" where
  "getFileID SM Loc = indexOf (bufferForLoc SM Loc)"

text \<open>\<^verbatim>\<open>for (I = Start; I < Off; ++Column) I += utf8SequenceLength(B->Text, I);\<close>\<close>

function column_loop :: "bytes \<Rightarrow> nat \<Rightarrow> nat \<Rightarrow> nat \<Rightarrow> nat" where
  "column_loop tx Off I Col =
     (if I < Off then column_loop tx Off (I + utf8SequenceLength tx I) (Col + 1) else Col)"
  by pat_completeness auto
termination
  by (relation "measure (\<lambda>(tx, Off, I, Col). Off - I)") (auto simp: diff_less_mono2)

declare column_loop.simps [simp del]

definition lineIndex :: "Buffer \<Rightarrow> nat \<Rightarrow> nat" where
  "lineIndex B Off = upper_bound_by (\<lambda>s. Off < s) (LineStarts B) - 1"

definition getPresumedLoc :: "SourceManager \<Rightarrow> SourceLocation \<Rightarrow> PresumedLoc" where
  "getPresumedLoc SM Loc =
     (case bufferForLoc SM Loc of
        None \<Rightarrow> \<lparr>Filename = [], Line = 0, Column = 0\<rparr>
      | Some i \<Rightarrow>
          let B = Buffers SM ! i; Off = u32_sub Loc (Base B);
              Idx = lineIndex B Off; Start = LineStarts B ! Idx in
          \<lparr>Filename = BufName B, Line = u32 Idx + 1, Column = column_loop (BufText B) Off Start 1\<rparr>)"

definition getBufferData :: "SourceManager \<Rightarrow> FileID \<Rightarrow> bytes" where
  "getBufferData SM FID = (case bufferForFile SM FID of None \<Rightarrow> [] | Some i \<Rightarrow> BufText (Buffers SM ! i))"

definition getBufferName :: "SourceManager \<Rightarrow> FileID \<Rightarrow> bytes" where
  "getBufferName SM FID = (case bufferForFile SM FID of None \<Rightarrow> [] | Some i \<Rightarrow> BufName (Buffers SM ! i))"

definition getLineText :: "SourceManager \<Rightarrow> SourceLocation \<Rightarrow> bytes" where
  "getLineText SM Loc =
     (case bufferForLoc SM Loc of
        None \<Rightarrow> []
      | Some i \<Rightarrow>
          let B = Buffers SM ! i; Off = u32_sub Loc (Base B);
              Idx = lineIndex B Off; Start = LineStarts B ! Idx;
              End = (if Idx + 1 < length (LineStarts B) then u32_sub (LineStarts B ! (Idx + 1)) 1
                     else u32 (length (BufText B)));
              Ln = substr (BufText B) Start End in
          if Ln \<noteq> [] \<and> last Ln = CR then butlast Ln else Ln)"

subsection \<open>Line starts\<close>

definition clean_line :: "bytes \<Rightarrow> bool" where
  "clean_line s \<longleftrightarrow> LF \<notin> set s \<and> CR \<notin> set s"

definition terminated_line :: "bytes \<Rightarrow> bool" where
  "terminated_line s \<longleftrightarrow> (\<exists>body t. s = body @ t \<and> clean_line body \<and> t \<in> {[LF], [CR], [CR, LF]})"

definition lines_upto :: "bytes \<Rightarrow> nat list \<Rightarrow> nat \<Rightarrow> bool" where
  "lines_upto tx ls I \<longleftrightarrow> ls \<noteq> [] \<and> hd ls = 0 \<and> last ls \<le> I \<and> I \<le> length tx
     \<and> clean_line (substr tx (last ls) I)
     \<and> (\<forall>k. k + 1 < length ls \<longrightarrow> ls ! k < ls ! (k + 1) \<and> ls ! (k + 1) \<le> length tx
            \<and> terminated_line (substr tx (ls ! k) (ls ! (k + 1))))"

lemma substr_snoc: "i \<le> j \<Longrightarrow> j < length tx \<Longrightarrow> substr tx i (j + 1) = substr tx i j @ [tx ! j]"
  by (simp add: substr_def Suc_diff_le take_Suc_conv_app_nth)

lemma lines_upto_push:
  assumes "lines_upto tx ls I" "I < e" "e \<le> length tx"
    "substr tx (last ls) e = substr tx (last ls) I @ t" "t \<in> {[LF], [CR], [CR, LF]}"
  shows "lines_upto tx (ls @ [e]) e"
proof -
  have ls: "ls \<noteq> []" "hd ls = 0" "last ls \<le> I" "clean_line (substr tx (last ls) I)"
    and old: "\<And>k. k + 1 < length ls \<Longrightarrow> ls ! k < ls ! (k + 1) \<and> ls ! (k + 1) \<le> length tx
            \<and> terminated_line (substr tx (ls ! k) (ls ! (k + 1)))"
    using assms(1) by (auto simp: lines_upto_def)
  have "(ls @ [e]) ! k < (ls @ [e]) ! (k + 1) \<and> (ls @ [e]) ! (k + 1) \<le> length tx
     \<and> terminated_line (substr tx ((ls @ [e]) ! k) ((ls @ [e]) ! (k + 1)))" if "k + 1 < length (ls @ [e])" for k
  proof (cases "k + 1 < length ls")
    case True
    then show ?thesis using old [OF True] by (simp add: nth_append)
  next
    case False
    then have k: "k = length ls - 1" using that ls(1) by (cases ls) auto
    then have "(ls @ [e]) ! k = last ls" "(ls @ [e]) ! (k + 1) = e"
      using ls(1) by (simp_all add: nth_append last_conv_nth)
    moreover have "terminated_line (substr tx (last ls) e)"
      unfolding terminated_line_def assms(4) using ls(4) assms(5) by blast
    ultimately show ?thesis using assms(2,3) ls(3) by simp
  qed
  then show ?thesis using ls assms(3) by (simp add: lines_upto_def substr_def clean_line_def)
qed

lemma lines_upto_skip:
  assumes "lines_upto tx ls I" "I < length tx" "tx ! I \<noteq> LF" "tx ! I \<noteq> CR"
  shows "lines_upto tx ls (I + 1)"
  using assms substr_snoc [of "last ls" I tx] by (auto simp: lines_upto_def clean_line_def)

lemma line_starts_loop_ok:
  "lines_upto tx ls I \<Longrightarrow> length tx \<le> UINT32_MAX \<Longrightarrow> lines_upto tx (line_starts_loop tx I ls) (length tx)"
proof (induction tx I ls rule: line_starts_loop.induct)
  case (1 tx I ls)
  have le: "last ls \<le> I" "I \<le> length tx" using "1.prems"(1) by (auto simp: lines_upto_def)
  consider (stop) "\<not> I < length tx" | (lf) "I < length tx" "tx ! I = LF"
    | (cr) "I < length tx" "tx ! I = CR" | (other) "I < length tx" "tx ! I \<noteq> LF" "tx ! I \<noteq> CR" by blast
  then show ?case
  proof cases
    case stop
    then have "I = length tx" using le by simp
    then show ?thesis using "1.prems"(1) by (simp add: line_starts_loop.simps [of tx "length tx"])
  next
    case lf
    have "lines_upto tx (ls @ [I + 1]) (I + 1)"
      using lines_upto_push [OF "1.prems"(1), of "I + 1" "[LF]"] lf substr_snoc [OF le(1) lf(1)] by simp
    then show ?thesis using "1.IH"(1) lf "1.prems"(2) by (simp add: line_starts_loop.simps [of tx I])
  next
    case cr
    define I' where "I' = (if I + 1 < length tx \<and> tx ! (I + 1) = LF then I + 1 else I)"
    have I': "I \<le> I'" "I' < length tx" using cr by (auto simp: I'_def)
    have "lines_upto tx (ls @ [I' + 1]) (I' + 1)"
      using lines_upto_push [OF "1.prems"(1), of "I + 1" "[CR]"] cr substr_snoc [OF le(1) cr(1)]
        lines_upto_push [OF "1.prems"(1), of "I + 2" "[CR, LF]"] substr_snoc [of "last ls" "I + 1" tx] le
      by (auto simp: I'_def)
    moreover have "line_starts_loop tx I ls = line_starts_loop tx (I' + 1) (ls @ [I' + 1])"
      using cr I' "1.prems"(2) by (simp add: line_starts_loop.simps [of tx I] Let_def I'_def)
    ultimately show ?thesis using "1.IH"(2) [OF cr(1) _ cr(2) I'_def] cr I' "1.prems"(2) by simp
  next
    case other
    then show ?thesis
      using "1.IH"(3) lines_upto_skip [OF "1.prems"(1)] "1.prems"(2) by (simp add: line_starts_loop.simps [of tx I])
  qed
qed

lemma lines_upto_start: "lines_upto tx [0] 0"
  by (simp add: lines_upto_def substr_def clean_line_def)

lemma lines_sorted:
  assumes "lines_upto tx ls I" shows "sorted_wrt (<) ls"
  using assms by (auto simp: lines_upto_def sorted_wrt_iff_nth_Suc_transp)

lemma lineIndex_eq:
  assumes "lines_upto (BufText B) (LineStarts B) (length (BufText B))"
  shows "lineIndex B off < length (LineStarts B)" "LineStarts B ! lineIndex B off \<le> off"
    "lineIndex B off + 1 < length (LineStarts B) \<Longrightarrow> off < LineStarts B ! (lineIndex B off + 1)"
proof -
  let ?ls = "LineStarts B" and ?T = "takeWhile (\<lambda>s. \<not> off < s) (LineStarts B)"
  have ls: "?ls \<noteq> []" "hd ?ls = 0" using assms by (auto simp: lines_upto_def)
  have ub: "upper_bound_by (\<lambda>s. off < s) ?ls = length ?T"
    using lines_sorted [OF assms] sorted_partitioned_le [of "\<lambda>s. s" ?ls off] by (intro upper_bound_by_eq) simp
  have pos: "0 < length ?T" using ls by (cases ?ls) auto
  then have T: "lineIndex B off = length ?T - 1" "lineIndex B off < length ?T" by (simp_all add: lineIndex_def ub)
  then show "lineIndex B off < length ?ls" using length_takeWhile_le [of "\<lambda>s. \<not> off < s" ?ls] by linarith
  have "?T ! lineIndex B off = ?ls ! lineIndex B off" using T(2) by (rule takeWhile_nth)
  moreover have "?T ! lineIndex B off \<in> set ?T" using T(2) by (rule nth_mem)
  ultimately show "?ls ! lineIndex B off \<le> off" using set_takeWhileD by fastforce
  assume "lineIndex B off + 1 < length ?ls"
  then have "length ?T < length ?ls" using T pos by simp
  then have "\<not> \<not> off < ?ls ! length ?T" by (rule nth_length_takeWhile)
  then show "off < ?ls ! (lineIndex B off + 1)" using T pos by simp
qed

subsection \<open>The layout of the coordinate space\<close>

text \<open>Buffers follow one another from \<open>b\<close>, each one longer than its text so that its end has a place.\<close>

fun laid_out :: "nat \<Rightarrow> Buffer list \<Rightarrow> nat \<Rightarrow> bool" where
  "laid_out b [] e \<longleftrightarrow> e = b"
| "laid_out b (B # Bs) e \<longleftrightarrow> Base B = b \<and> laid_out (b + length (BufText B) + 1) Bs e"

definition sm_ok :: "SourceManager \<Rightarrow> bool" where
  "sm_ok SM \<longleftrightarrow> laid_out 1 (Buffers SM) (NextBase SM) \<and> NextBase SM \<le> UINT32_MAX
     \<and> list_all (\<lambda>B. lines_upto (BufText B) (LineStarts B) (length (BufText B))) (Buffers SM)"

lemma laid_out_snoc:
  "laid_out b (Bs @ [B]) e \<longleftrightarrow> laid_out b Bs (Base B) \<and> e = Base B + length (BufText B) + 1"
  by (induction Bs arbitrary: b) auto

lemma laid_out_le: "laid_out b Bs e \<Longrightarrow> b + length Bs \<le> e"
  by (induction Bs arbitrary: b) fastforce+

lemma laid_out_nth:
  "laid_out b Bs e \<Longrightarrow> i < length Bs \<Longrightarrow> b \<le> Base (Bs ! i) \<and> Base (Bs ! i) + length (BufText (Bs ! i)) < e"
proof (induction Bs arbitrary: b i)
  case (Cons B Bs)
  then show ?case using laid_out_le [of _ Bs e] by (cases i) fastforce+
qed simp

lemma laid_out_disjoint:
  "laid_out b Bs e \<Longrightarrow> i < j \<Longrightarrow> j < length Bs \<Longrightarrow> Base (Bs ! i) + length (BufText (Bs ! i)) < Base (Bs ! j)"
proof (induction Bs arbitrary: b i j)
  case (Cons B Bs)
  then show ?case
    using laid_out_nth [of _ Bs e "j - 1"] by (cases i; cases j) fastforce+
qed simp

lemma laid_out_sorted: "laid_out b Bs e \<Longrightarrow> sorted_wrt (<) (map Base Bs)"
  using laid_out_disjoint by (fastforce simp: sorted_wrt_iff_nth_less)

lemma sm_okD:
  assumes "sm_ok SM"
  shows "laid_out 1 (Buffers SM) (NextBase SM)" "NextBase SM \<le> UINT32_MAX"
    "i < length (Buffers SM) \<Longrightarrow> 0 < Base (Buffers SM ! i)
      \<and> Base (Buffers SM ! i) + length (BufText (Buffers SM ! i)) < NextBase SM
      \<and> lines_upto (BufText (Buffers SM ! i)) (LineStarts (Buffers SM ! i)) (length (BufText (Buffers SM ! i)))"
  using assms laid_out_nth [of 1 "Buffers SM" "NextBase SM" i] by (auto simp: sm_ok_def list_all_length)

text \<open>A location inside a buffer's stretch is found in that buffer.\<close>

lemma bufferForLoc_inside:
  assumes "sm_ok SM" "i < length (Buffers SM)" "off \<le> length (BufText (Buffers SM ! i))"
  shows "bufferForLoc SM (Base (Buffers SM ! i) + off) = Some i"
proof -
  let ?Bs = "Buffers SM" and ?L = "Base (Buffers SM ! i) + off"
  note D = sm_okD [OF assms(1)]
  have sorted: "sorted_wrt (<) (map Base ?Bs)" by (rule laid_out_sorted [OF D(1)])
  have "upper_bound_by (\<lambda>B. ?L < Base B) ?Bs = length (takeWhile (\<lambda>B. \<not> ?L < Base B) ?Bs)"
    using sorted by (intro upper_bound_by_eq sorted_partitioned_le)
  also have "takeWhile (\<lambda>B. \<not> ?L < Base B) ?Bs = take (i + 1) ?Bs"
  proof (rule takeWhile_eq_take_P_nth)
    fix j assume j: "j < i + 1" "j < length ?Bs"
    then have "j = i \<or> Base (?Bs ! j) < Base (?Bs ! i)"
      using laid_out_disjoint [OF D(1), of j i] assms(2) by (cases "j = i") auto
    then show "\<not> ?L < Base (?Bs ! j)" by auto
  next
    assume "i + 1 < length ?Bs"
    then show "\<not> \<not> ?L < Base (?Bs ! (i + 1))"
      using laid_out_disjoint [OF D(1), of i "i + 1"] assms(3) by simp
  qed
  finally have "upper_bound_by (\<lambda>B. ?L < Base B) ?Bs = i + 1" using assms(2) by simp
  then show ?thesis using D(3) [OF assms(2)] assms(3) by (simp add: bufferForLoc_def Let_def)
qed

lemma bufferForLoc_sound:
  assumes "sm_ok SM" "bufferForLoc SM Loc = Some i"
  shows "i < length (Buffers SM)" "Base (Buffers SM ! i) \<le> Loc"
    "Loc \<le> Base (Buffers SM ! i) + length (BufText (Buffers SM ! i))"
proof -
  let ?Bs = "Buffers SM"
  have "upper_bound_by (\<lambda>B. Loc < Base B) ?Bs = length (takeWhile (\<lambda>B. \<not> Loc < Base B) ?Bs)"
    using laid_out_sorted [OF sm_okD(1) [OF assms(1)]] by (intro upper_bound_by_eq sorted_partitioned_le)
  then have i: "i < length (takeWhile (\<lambda>B. \<not> Loc < Base B) ?Bs)"
    and le: "Loc \<le> Base (?Bs ! i) + length (BufText (?Bs ! i))"
    using assms(2) by (auto simp: bufferForLoc_def Let_def split: if_splits)
  show "i < length ?Bs" using i length_takeWhile_le [of "\<lambda>B. \<not> Loc < Base B" ?Bs] by linarith
  show "Base (?Bs ! i) \<le> Loc" using takeWhile_nth [OF i] nth_mem [OF i] set_takeWhileD by fastforce
  show "Loc \<le> Base (?Bs ! i) + length (BufText (?Bs ! i))" by (rule le)
qed

subsection \<open>What the scanner and the diagnostics rely on\<close>

text \<open>A coordinate space: positions of files as single numbers from which file and offset can be
  recovered.\<close>

locale coordinate_space =
  fixes inv :: "'m \<Rightarrow> bool"
    and size_of :: "'m \<Rightarrow> nat \<Rightarrow> nat option"
    and loc :: "'m \<Rightarrow> nat \<Rightarrow> nat \<Rightarrow> nat"
    and file_of :: "'m \<Rightarrow> nat \<Rightarrow> nat"
  assumes file_loc: "inv m \<Longrightarrow> size_of m f = Some n \<Longrightarrow> off \<le> n \<Longrightarrow> file_of m (loc m f off) = f"
    and loc_mono: "inv m \<Longrightarrow> size_of m f = Some n \<Longrightarrow> off < off' \<Longrightarrow> off' \<le> n \<Longrightarrow> loc m f off < loc m f off'"
    and loc_valid: "inv m \<Longrightarrow> size_of m f = Some n \<Longrightarrow> loc m f off \<noteq> 0"
begin

lemma loc_inject:
  assumes "inv m" "size_of m f = Some n" "size_of m g = Some k" "off \<le> n" "off' \<le> k"
    "loc m f off = loc m g off'"
  shows "f = g \<and> off = off'"
proof -
  have "f = g" using file_loc [OF assms(1,2,4)] file_loc [OF assms(1,3,5)] assms(6) by simp
  then show ?thesis using assms loc_mono [OF assms(1,2)] by (metis linorder_neqE_nat nat_less_le option.inject)
qed

end

definition sizeOf :: "SourceManager \<Rightarrow> FileID \<Rightarrow> nat option" where
  "sizeOf SM FID = map_option (\<lambda>i. length (BufText (Buffers SM ! i))) (bufferForFile SM FID)"

lemma getLocForOffset_eq:
  assumes "sm_ok SM" "sizeOf SM f = Some n"
  shows "getLocForOffset SM f off = Base (Buffers SM ! (f - 1)) + min off n"
    "f \<noteq> 0" "f - 1 < length (Buffers SM)" "n = length (BufText (Buffers SM ! (f - 1)))"
proof -
  show f: "f \<noteq> 0" "f - 1 < length (Buffers SM)" "n = length (BufText (Buffers SM ! (f - 1)))"
    using assms(2) by (auto simp: sizeOf_def bufferForFile_def split: if_splits)
  have "Base (Buffers SM ! (f - 1)) + n \<le> UINT32_MAX"
    using sm_okD(2) [OF assms(1)] sm_okD(3) [OF assms(1) f(2)] f(3) by linarith
  then have "u32 (Base (Buffers SM ! (f - 1)) + u32 (min off n)) = Base (Buffers SM ! (f - 1)) + min off n"
    by simp
  then show "getLocForOffset SM f off = Base (Buffers SM ! (f - 1)) + min off n"
    using f by (auto simp: getLocForOffset_def bufferForFile_def Let_def min_def)
qed

interpretation srcloc: coordinate_space sm_ok sizeOf getLocForOffset getFileID
proof
  fix SM f n off off'
  assume a: "sm_ok SM" "sizeOf SM f = Some n"
  note L = getLocForOffset_eq [OF a]
  { assume "off \<le> n"
    then have "bufferForLoc SM (getLocForOffset SM f off) = Some (f - 1)"
      using bufferForLoc_inside [OF a(1) L(3), of off] L by (simp add: min_absorb1)
    moreover have "f - 1 \<le> UINT32_MAX"
      using L(3) laid_out_le [OF sm_okD(1) [OF a(1)]] sm_okD(2) [OF a(1)] by linarith
    ultimately show "getFileID SM (getLocForOffset SM f off) = f"
      using L(2) by (simp add: getFileID_def indexOf_def) }
  { assume "off < off'" "off' \<le> n"
    then show "getLocForOffset SM f off < getLocForOffset SM f off'" by (simp add: L(1)) }
  show "getLocForOffset SM f off \<noteq> 0" using sm_okD(3) [OF a(1) L(3)] by (simp add: L(1))
qed

subsection \<open>Adding a buffer\<close>

lemma addBuffer_Some:
  assumes "sm_ok SM" "addBuffer SM name tx = (Some fid, SM')"
  shows "sm_ok SM'" "fid = length (Buffers SM) + 1" "\<exists>B. Buffers SM' = Buffers SM @ [B] \<and> BufText B = strip_bom tx \<and> BufName B = name"
    "NextBase SM' = NextBase SM + length (strip_bom tx) + 1"
proof -
  let ?t = "strip_bom tx"
  have no: "NextBase SM + length ?t + 1 \<le> UINT32_MAX"
    using assms(2) by (auto simp: addBuffer_def wouldOverflow_def Let_def split: if_splits)
  define B where "B = \<lparr>BufName = name, BufText = ?t, Base = NextBase SM, LineStarts = line_starts_loop ?t 0 [0]\<rparr>"
  have n: "u32 (NextBase SM + (u32 (length ?t) + 1)) = NextBase SM + length ?t + 1" using no by simp
  have SM': "SM' = \<lparr>Buffers = Buffers SM @ [B], NextBase = NextBase SM + length ?t + 1\<rparr>"
    and fid: "fid = u32 (length (Buffers SM) + 1)"
    using assms(2) no n by (auto simp: addBuffer_def wouldOverflow_def Let_def B_def split: if_splits)
  show "fid = length (Buffers SM) + 1"
    unfolding fid using laid_out_le [OF sm_okD(1) [OF assms(1)]] sm_okD(2) [OF assms(1)] by (intro u32_id) linarith
  show "\<exists>B. Buffers SM' = Buffers SM @ [B] \<and> BufText B = ?t \<and> BufName B = name" by (simp add: SM' B_def)
  show "NextBase SM' = NextBase SM + length ?t + 1" by (simp add: SM')
  have "lines_upto ?t (line_starts_loop ?t 0 [0]) (length ?t)"
    using no by (intro line_starts_loop_ok lines_upto_start) simp
  then show "sm_ok SM'" using assms(1) no by (simp add: sm_ok_def SM' laid_out_snoc B_def)
qed

lemma addBuffer_stable:
  assumes "sm_ok SM" "addBuffer SM name tx = (Some fid, SM')" "sizeOf SM f = Some n"
  shows "sizeOf SM' f = Some n" "getLocForOffset SM' f off = getLocForOffset SM f off"
proof -
  obtain B where B: "Buffers SM' = Buffers SM @ [B]" using addBuffer_Some(3) [OF assms(1,2)] by blast
  note L = getLocForOffset_eq [OF assms(1,3)]
  show s: "sizeOf SM' f = Some n" using L B by (simp add: sizeOf_def bufferForFile_def nth_append)
  show "getLocForOffset SM' f off = getLocForOffset SM f off"
    using getLocForOffset_eq(1) [OF addBuffer_Some(1) [OF assms(1,2)] s] L B by (simp add: nth_append)
qed

subsection \<open>Correctness\<close>

text \<open>C39. Taking a text into the manager either leaves it untouched, exactly when the text would not fit in
  the 32-bit coordinate space, or gives a new buffer whose stretch begins where the last one ended: the
  layout invariant is kept (no sum wraps), the new identifier names the text less its byte-order mark,
  and every location handed out before resolves to the file it did.\<close>

theorem addBuffer_layout:
  assumes "sm_ok SM"
  shows "case addBuffer SM name tx of
           (None, SM') \<Rightarrow> SM' = SM \<and> NextBase SM + length (strip_bom tx) + 1 > UINT32_MAX
         | (Some fid, SM') \<Rightarrow> sm_ok SM' \<and> fid = length (Buffers SM) + 1
             \<and> getBufferData SM' fid = strip_bom tx \<and> getBufferName SM' fid = name
             \<and> (\<forall>f n off. sizeOf SM f = Some n \<and> off \<le> n \<longrightarrow>
                  getLocForOffset SM' f off = getLocForOffset SM f off \<and> getFileID SM' (getLocForOffset SM f off) = f)"
proof (cases "addBuffer SM name tx")
  case (Pair r SM')
  show ?thesis
  proof (cases r)
    case None
    then show ?thesis using Pair by (auto simp: addBuffer_def wouldOverflow_def Let_def split: if_splits)
  next
    case (Some fid)
    note A = addBuffer_Some [OF assms Pair [unfolded Some]]
    obtain B where B: "Buffers SM' = Buffers SM @ [B]" "BufText B = strip_bom tx" "BufName B = name"
      using A(3) by blast
    have "getFileID SM' (getLocForOffset SM f off) = f" if "sizeOf SM f = Some n" "off \<le> n" for f n off
      using srcloc.file_loc [OF A(1) addBuffer_stable(1) [OF assms Pair [unfolded Some] that(1)] that(2)]
        addBuffer_stable(2) [OF assms Pair [unfolded Some] that(1), of off] by simp
    then show ?thesis
      using Pair Some A(1,2) B addBuffer_stable(2) [OF assms Pair [unfolded Some]]
      by (auto simp: getBufferData_def getBufferName_def bufferForFile_def)
  qed
qed

theorem addBuffer_layout_witness:
  "\<exists>SM'. addBuffer emptySourceManager ''a.pas'' ''x'' = (Some 1, SM') \<and> sm_ok SM' \<and> getBufferData SM' 1 = ''x''"
proof -
  have "sm_ok emptySourceManager" by (simp add: sm_ok_def emptySourceManager_def UINT32_MAX_def)
  from addBuffer_layout [OF this, where name = "''a.pas''" and tx = "''x''"] show ?thesis
    by (auto simp: emptySourceManager_def strip_bom_def UTF8BOM_def UINT32_MAX_def split: prod.splits option.splits)
qed

text \<open>C30. A location says both which buffer and where: for every buffer and offset the number handed out
  is valid, resolves back to that buffer, and no two positions of the compilation share it.\<close>

theorem location_roundtrip:
  assumes "sm_ok SM" "sizeOf SM f = Some n" "off \<le> n" "sizeOf SM g = Some k" "off' \<le> k"
  shows "getLocForOffset SM f off \<noteq> 0 \<and> getFileID SM (getLocForOffset SM f off) = f
       \<and> (getLocForOffset SM f off = getLocForOffset SM g off' \<longrightarrow> f = g \<and> off = off')"
  using srcloc.loc_valid [OF assms(1,2)] srcloc.file_loc [OF assms(1-3)]
    srcloc.loc_inject [OF assms(1,2,4,3,5)] by blast

theorem location_roundtrip_witness:
  "getFileID \<lparr>Buffers = [\<lparr>BufName = ''a'', BufText = ''xy'', Base = 1, LineStarts = [0]\<rparr>], NextBase = 4\<rparr>
     (getLocForOffset \<lparr>Buffers = [\<lparr>BufName = ''a'', BufText = ''xy'', Base = 1, LineStarts = [0]\<rparr>], NextBase = 4\<rparr> 1 2) = 1"
  by (rule conjunct1 [OF conjunct2 [OF location_roundtrip [where n = 2 and k = 2 and g = 1 and off' = 0]]])
    (simp_all add: sm_ok_def lines_upto_def clean_line_def substr_def UINT32_MAX_def sizeOf_def bufferForFile_def)

lemma clean_prefix: "clean_line (a @ b) \<Longrightarrow> clean_line a"
  by (simp add: clean_line_def)

lemma butlast_terminated:
  assumes "terminated_line s"
  shows "clean_line (if butlast s \<noteq> [] \<and> last (butlast s) = CR then butlast (butlast s) else butlast s)"
proof -
  obtain body t where s: "s = body @ t" "clean_line body" "t \<in> {[LF], [CR], [CR, LF]}"
    using assms by (auto simp: terminated_line_def)
  have "last body \<noteq> CR" if "body \<noteq> []" using s(2) last_in_set [OF that] by (auto simp: clean_line_def)
  then show ?thesis using s by (auto simp: butlast_append)
qed

text \<open>The text of the line an offset falls on: from its line start, without a terminator.\<close>

lemma line_text_clean:
  assumes "lines_upto tx ls (length tx)" "k < length ls" "length tx \<le> UINT32_MAX"
  defines "e \<equiv> (if k + 1 < length ls then u32_sub (ls ! (k + 1)) 1 else u32 (length tx))"
  shows "clean_line (if substr tx (ls ! k) e \<noteq> [] \<and> last (substr tx (ls ! k) e) = CR
                     then butlast (substr tx (ls ! k) e) else substr tx (ls ! k) e)"
proof (cases "k + 1 < length ls")
  case True
  then have seg: "ls ! k < ls ! (k + 1)" "ls ! (k + 1) \<le> length tx" "terminated_line (substr tx (ls ! k) (ls ! (k + 1)))"
    using assms(1) by (auto simp: lines_upto_def)
  then have "e = ls ! (k + 1) - 1" using True assms(3) by (simp add: e_def)
  then have "substr tx (ls ! k) e = butlast (substr tx (ls ! k) (ls ! (k + 1)))"
    using seg(1,2) by (simp add: substr_def butlast_take)
  then show ?thesis using butlast_terminated [OF seg(3)] by (simp only:)
next
  case False
  then have "k = length ls - 1" using assms(2) by simp
  then have "ls ! k = last ls" using assms(2) by (subst last_conv_nth) auto
  moreover have "clean_line (substr tx (last ls) (length tx))" using assms(1) by (simp add: lines_upto_def)
  ultimately show ?thesis using False assms(3) by (auto simp: e_def clean_line_def dest: in_set_butlastD)
qed

lemma sorted_nth_ge: "sorted_wrt (<) ls \<Longrightarrow> k < length ls \<Longrightarrow> k \<le> (ls ! k :: nat)"
proof (induction k)
  case (Suc k)
  then show ?case using sorted_wrt_nth_less [of "(<)" ls k "Suc k"] by simp
qed simp

text \<open>A diagnostic quotes one line: whatever mixture of line feeds, carriage returns and pairs of them
  the file uses, the text shown for a location has no line terminator in it, and the line number is that
  of the last line start at or before the location.\<close>

theorem getLineText_one_line:
  assumes "sm_ok SM" "bufferForLoc SM Loc = Some i"
  shows "clean_line (getLineText SM Loc)
       \<and> (let B = Buffers SM ! i; off = Loc - Base B; n = Line (getPresumedLoc SM Loc) in
          1 \<le> n \<and> n \<le> length (LineStarts B) \<and> LineStarts B ! (n - 1) \<le> off
          \<and> (n < length (LineStarts B) \<longrightarrow> off < LineStarts B ! n))"
proof -
  let ?B = "Buffers SM ! i"
  note S = bufferForLoc_sound [OF assms] and D = sm_okD [OF assms(1)]
  have max: "Base ?B + length (BufText ?B) \<le> UINT32_MAX" using D(2) D(3) [OF S(1)] by linarith
  then have off: "u32_sub Loc (Base ?B) = Loc - Base ?B" using S by (intro u32_sub_id) simp_all
  have ls: "lines_upto (BufText ?B) (LineStarts ?B) (length (BufText ?B))" using D(3) [OF S(1)] by simp
  note I = lineIndex_eq [OF ls, of "Loc - Base ?B"]
  from sorted_nth_ge [OF lines_sorted [OF ls] I(1)] have "lineIndex ?B (Loc - Base ?B) \<le> UINT32_MAX" using I(2) S(3) max by linarith
  moreover have "clean_line (getLineText SM Loc)"
    unfolding getLineText_def assms(2) option.case Let_def off
    by (rule line_text_clean [OF ls I(1)]) (use max in simp)
  ultimately show ?thesis using assms(2) off I by (simp add: getPresumedLoc_def Let_def)
qed

theorem getLineText_one_line_witness:
  "clean_line (getLineText \<lparr>Buffers = [\<lparr>BufName = ''a'', BufText = [CHR ''x'', CR, LF, CHR ''y''], Base = 1,
      LineStarts = [0, 3]\<rparr>], NextBase = 6\<rparr> 4)"
proof -
  have "terminated_line [CHR ''x'', CR, LF]"
    unfolding terminated_line_def
    by (rule exI [where x = "''x''"], rule exI [where x = "[CR, LF]"]) (simp add: clean_line_def)
  then show ?thesis
    by (intro conjunct1 [OF getLineText_one_line [where i = 0]])
      (simp_all add: sm_ok_def lines_upto_def clean_line_def substr_def UINT32_MAX_def bufferForLoc_def
        upper_bound_by_def bsearch.simps)
qed

end
