(* ===== verification/Scan_State.thy ===== *)
theory Scan_State
  imports Lang_Options Source_Manager
begin

text \<open>
  The state of the scanner, \<^verbatim>\<open>include/plang/Lex/Scanner.h\<close>, and the parts of
  \<^verbatim>\<open>lib/Lex/Scanner.cpp\<close> and \<^verbatim>\<open>Directives.cpp\<close> that everything else is built from:
  diagnostics, locations, the include stack, comments, and construction.  Every method is a function from
  the state to the state.  The three stacks are lists whose head is the C++ vector's back.  The
  diagnostics engine is the list of the reports made to it.  The file system is a parameter, a record of
  what its calls answer; the lexical operations of \<^verbatim>\<open>std::filesystem::path\<close> are modelled for
  POSIX paths.
\<close>

text \<open>The identifiers of \<^verbatim>\<open>DiagnosticLexKinds.def\<close>; those of the message directives are a group of
  their own.\<close>

datatype message_diag =
  note_directive_message | note_directive_info | note_directive_note | warn_directive_hint
| warn_directive_warning | err_directive_error | err_directive_fatal

datatype DiagID =
  err_file_not_found | err_source_too_large | err_unterminated_comment | err_comment_delim_mismatch
| err_ep_underscore_in_identifier | err_ep_underscore_placement | err_nondecimal_base_range
| err_nondecimal_no_digits | err_nondecimal_bad_digit | err_nondecimal_literal_out_of_range
| err_unterminated_string | err_control_code_no_digits | err_control_code_out_of_range
| err_hex_literal_no_digits | err_hex_literal_out_of_range | err_unexpected_char
| err_directive_expects_symbol | err_directive_no_matching_ifdef | err_directive_else_already_seen
| err_directive_unterminated_conditional | err_directive_ifopt_bad_switch
| err_directive_include_expects_filename | err_directive_include_not_found | err_directive_include_cycle
| warn_directive_unknown | warn_directive_ignored | MessageDiag message_diag

type_synonym Diagnostic = "SourceLocation \<times> DiagID \<times> bytes list"

record CondFrame =
  AnyBranchTaken :: bool
  SeenElse :: bool
  OpenLoc :: SourceLocation
  OpenName :: bytes

record IncludeFrame =
  IncFID :: FileID
  IncText :: bytes
  IncPos :: nat

record Scanner =
  Opts :: LangOptions
  SM :: SourceManager
  FID :: FileID
  Text :: bytes
  Pos :: nat
  PrevKind :: TokenKind
  ForceExprStartOnce :: bool
  CondStack :: "CondFrame list"
  CurrentDefines :: "bytes set"
  IncludeStack :: "IncludeFrame list"
  OpenIncludePaths :: "bytes list"
  Switches :: "SwitchTable option"
  CurrentSwitchState :: CompilerState
  Diags :: "Diagnostic list"

record FileSystem =
  is_regular_file :: "bytes \<Rightarrow> bool"
  canonical :: "bytes \<Rightarrow> bytes option"
  file_size :: "bytes \<Rightarrow> nat option"
  file_contents :: "bytes \<Rightarrow> bytes option"
  current_path :: "bytes option"
  path_exists :: "bytes \<Rightarrow> bool"
  directory :: "bytes \<Rightarrow> bytes list"

subsection \<open>Primitives\<close>

definition emitError :: "SourceLocation \<Rightarrow> DiagID \<Rightarrow> bytes list \<Rightarrow> Scanner \<Rightarrow> Scanner" where
  "emitError loc ident args s = s\<lparr>Diags := Diags s @ [(loc, ident, args)]\<rparr>"

definition locAt :: "Scanner \<Rightarrow> nat \<Rightarrow> SourceLocation" where
  "locAt s Offset = getLocForOffset (SM s) (FID s) Offset"

definition make :: "Scanner \<Rightarrow> TokenKind \<Rightarrow> bytes \<Rightarrow> nat \<Rightarrow> Token" where
  "make s kind lexeme TokenStart = \<lparr>Kind = kind, Lexeme = lexeme, Loc = locAt s TokenStart\<rparr>"

definition peek :: "Scanner \<Rightarrow> char" where
  "peek s = (if Pos s + 1 < length (Text s) then Text s ! (Pos s + 1) else CHR 0x00)"

definition truncateAtCtrlZ :: "bytes \<Rightarrow> LangOptions \<Rightarrow> bytes" where
  "truncateAtCtrlZ tx opts = (if \<not> turbo opts then tx else takeWhile (\<lambda>c. c \<noteq> CHR 0x1A) tx)"

definition allowCaretControlCharNext :: "Scanner \<Rightarrow> Scanner" where
  "allowCaretControlCharNext s = s\<lparr>ForceExprStartOnce := True\<rparr>"

text \<open>\<^verbatim>\<open>if (Switches) Switches->record(SM->getLocForOffset(FID, Pos), CurrentSwitchState)\<close>, the
  boundary point of \<open>openInclude\<close> and \<open>popInclude\<close>.\<close>

definition record_boundary :: "Scanner \<Rightarrow> Scanner" where
  "record_boundary s =
     (case Switches s of
        None \<Rightarrow> s
      | Some T \<Rightarrow> s\<lparr>Switches := Some (record_switch T (locAt s (Pos s)) (CurrentSwitchState s))\<rparr>)"

definition popInclude :: "Scanner \<Rightarrow> Scanner option" where
  "popInclude s =
     (case IncludeStack s of
        [] \<Rightarrow> None
      | F # rest \<Rightarrow>
          Some (record_boundary
            (s\<lparr>FID := IncFID F, Text := IncText F, Pos := IncPos F,
               IncludeStack := rest, OpenIncludePaths := tl (OpenIncludePaths s)\<rparr>)))"

subsection \<open>What is left to read\<close>

text \<open>The bytes not yet consumed, over the buffer being read and every file waiting to resume, with one
  more for each of these: the measure every loop of the scanner goes down by.\<close>

definition unread :: "Scanner \<Rightarrow> nat" where
  "unread s = (length (Text s) - Pos s)
     + sum_list (map (\<lambda>F. Suc (length (IncText F) - IncPos F)) (IncludeStack s))"

lemma record_boundary_frame [simp]:
  "Opts (record_boundary s) = Opts s" "SM (record_boundary s) = SM s" "FID (record_boundary s) = FID s"
  "Text (record_boundary s) = Text s" "Pos (record_boundary s) = Pos s"
  "PrevKind (record_boundary s) = PrevKind s" "ForceExprStartOnce (record_boundary s) = ForceExprStartOnce s"
  "CondStack (record_boundary s) = CondStack s" "CurrentDefines (record_boundary s) = CurrentDefines s"
  "IncludeStack (record_boundary s) = IncludeStack s" "OpenIncludePaths (record_boundary s) = OpenIncludePaths s"
  "CurrentSwitchState (record_boundary s) = CurrentSwitchState s" "Diags (record_boundary s) = Diags s"
  by (simp_all add: record_boundary_def split: option.split)

lemma popInclude_unread: "popInclude s = Some s' \<Longrightarrow> length (Text s) \<le> Pos s \<Longrightarrow> unread s' < unread s"
  by (auto simp: popInclude_def unread_def split: list.splits)

lemma unread_Pos_less:
  "Pos s < length (Text s) \<Longrightarrow> Pos s < p \<Longrightarrow> unread (s\<lparr>Pos := p\<rparr>) < unread s"
  by (simp add: unread_def diff_less_mono2)

subsection \<open>Comments\<close>

text \<open>ISO 7185 and Extended Pascal: either terminator closes either comment.  The loop answers whether it
  found one, and where it stopped.\<close>

function iso_comment_loop :: "bytes \<Rightarrow> nat \<Rightarrow> bool \<times> nat" where
  "iso_comment_loop tx p =
     (if p < length tx then
        (let c = tx ! p; p1 = p + 1 in
         if c = CHR ''}'' then (True, p1)
         else if c = CHR ''*'' \<and> p1 < length tx \<and> tx ! p1 = CHR '')'' then (True, p1 + 1)
         else iso_comment_loop tx p1)
      else (False, p))"
  by pat_completeness auto
termination
  by (relation "measure (\<lambda>(tx, p). length tx - p)") auto

declare iso_comment_loop.simps [simp del]

text \<open>Turbo: only the matching terminator closes, and a comment may run out of an included file into
  the one that included it.  The loop answers whether the comment was closed and whether the other
  terminator was seen.\<close>

function turbo_comment_loop :: "bool \<Rightarrow> bool \<Rightarrow> Scanner \<Rightarrow> bool \<times> bool \<times> Scanner" where
  "turbo_comment_loop Braced saw s =
     (if Pos s \<ge> length (Text s) then
        (case popInclude s of
           Some s' \<Rightarrow> turbo_comment_loop Braced saw s'
         | None \<Rightarrow> (False, saw, s))
      else
        (let c = Text s ! Pos s; p1 = Pos s + 1;
             starParen = (c = CHR ''*'' \<and> p1 < length (Text s) \<and> Text s ! p1 = CHR '')'') in
         if Braced then
           (if c = CHR ''}'' then (True, saw, s\<lparr>Pos := p1\<rparr>)
            else if starParen then turbo_comment_loop Braced True (s\<lparr>Pos := p1 + 1\<rparr>)
            else turbo_comment_loop Braced saw (s\<lparr>Pos := p1\<rparr>))
         else
           (if starParen then (True, saw, s\<lparr>Pos := p1 + 1\<rparr>)
            else turbo_comment_loop Braced (saw \<or> c = CHR ''}'') (s\<lparr>Pos := p1\<rparr>))))"
  by pat_completeness auto
termination
  by (relation "measure (\<lambda>(b, saw, s). unread s)") (auto simp: popInclude_unread unread_Pos_less)

declare turbo_comment_loop.simps [simp del]

definition comment_opener :: "bool \<Rightarrow> bytes" where
  "comment_opener Braced = (if Braced then ''{'' else ''(*'')"

definition comment_closer :: "bool \<Rightarrow> bytes" where
  "comment_closer Braced = (if Braced then ''}'' else ''*)'')"

text \<open>The two reports of a comment or directive that is never closed.\<close>

definition report_unclosed :: "bool \<Rightarrow> bool \<Rightarrow> SourceLocation \<Rightarrow> Scanner \<Rightarrow> Scanner" where
  "report_unclosed Braced saw openLoc s =
     (if saw then emitError openLoc err_comment_delim_mismatch [comment_opener Braced, comment_closer Braced] s
      else emitError openLoc err_unterminated_comment [] s)"

definition skipCommentTurbo :: "bool \<Rightarrow> Scanner \<Rightarrow> Scanner" where
  "skipCommentTurbo Braced s =
     (let openLoc = locAt s (Pos s) in
      case turbo_comment_loop Braced False (s\<lparr>Pos := Pos s + (if Braced then 1 else 2)\<rparr>) of
        (closed, saw, s') \<Rightarrow> if closed then s' else report_unclosed Braced saw openLoc s')"

definition skipComment :: "bool \<Rightarrow> Scanner \<Rightarrow> Scanner" where
  "skipComment Braced s =
     (if turbo (Opts s) then skipCommentTurbo Braced s
      else case iso_comment_loop (Text s) (Pos s + (if Braced then 1 else 2)) of
             (closed, p) \<Rightarrow>
               if closed then s\<lparr>Pos := p\<rparr>
               else emitError (locAt s (Pos s)) err_unterminated_comment [] (s\<lparr>Pos := p\<rparr>))"

definition skipBraceComment :: "Scanner \<Rightarrow> Scanner" where "skipBraceComment = skipComment True"
definition skipParenthesisComment :: "Scanner \<Rightarrow> Scanner" where "skipParenthesisComment = skipComment False"

definition skipLineComment :: "Scanner \<Rightarrow> Scanner" where
  "skipLineComment s = s\<lparr>Pos := advance_while (\<lambda>c. c \<noteq> LF) (Text s) (Pos s + 2)\<rparr>"

subsection \<open>Paths\<close>

definition is_absolute :: "bytes \<Rightarrow> bool" where
  "is_absolute p \<longleftrightarrow> p \<noteq> [] \<and> hd p = CHR ''/''"

text \<open>\<^verbatim>\<open>operator/\<close>: an absolute right operand replaces the left one.\<close>

definition path_append :: "bytes \<Rightarrow> bytes \<Rightarrow> bytes" where
  "path_append d p =
     (if is_absolute p then p
      else if d \<noteq> [] \<and> last d \<noteq> CHR ''/'' then d @ ''/'' @ p else d @ p)"

text \<open>\<^verbatim>\<open>parent_path\<close>: without the last component and the slashes before it, but for the root.\<close>

definition parent_path :: "bytes \<Rightarrow> bytes" where
  "parent_path p =
     (let r = dropWhile (\<lambda>c. c \<noteq> CHR ''/'') (rev p); body = dropWhile (\<lambda>c. c = CHR ''/'') r in
      if body = [] then (if r = [] then [] else ''/'') else rev body)"

definition isReadableFile :: "FileSystem \<Rightarrow> bytes \<Rightarrow> bool" where
  "isReadableFile fs p = is_regular_file fs p"

definition canonicalIdentity :: "FileSystem \<Rightarrow> bytes \<Rightarrow> bytes" where
  "canonicalIdentity fs p = (case canonical fs p of Some c \<Rightarrow> c | None \<Rightarrow> p)"

subsection \<open>Construction\<close>

definition initScanner :: "SourceManager \<Rightarrow> LangOptions \<Rightarrow> Scanner" where
  "initScanner sm opts =
     \<lparr>Opts = opts, SM = sm, FID = 0, Text = [], Pos = 0, PrevKind = tkEof, ForceExprStartOnce = False,
      CondStack = [], CurrentDefines = set (map toLower (Defines opts)), IncludeStack = [],
      OpenIncludePaths = [], Switches = None, CurrentSwitchState = 0, Diags = []\<rparr>"

definition scannerOfFile :: "FileSystem \<Rightarrow> SourceManager \<Rightarrow> bytes \<Rightarrow> LangOptions \<Rightarrow> Scanner" where
  "scannerOfFile fs sm fname opts =
     (case addFile sm fname (file_size fs fname) (file_contents fs fname) of
        (Some fid, sm') \<Rightarrow>
          (initScanner sm' opts)\<lparr>FID := fid, Text := truncateAtCtrlZ (getBufferData sm' fid) opts,
                                 OpenIncludePaths := [canonicalIdentity fs fname]\<rparr>
      | (None, sm') \<Rightarrow>
          emitError 0 (if file_contents fs fname \<noteq> None then err_source_too_large else err_file_not_found) [fname]
            (initScanner sm' opts))"

definition scannerOfBuffer :: "SourceManager \<Rightarrow> bytes \<Rightarrow> bytes \<Rightarrow> LangOptions \<Rightarrow> Scanner" where
  "scannerOfBuffer sm sourceName content opts =
     (case addBuffer sm sourceName content of
        (Some fid, sm') \<Rightarrow>
          (initScanner sm' opts)\<lparr>FID := fid, Text := truncateAtCtrlZ (getBufferData sm' fid) opts\<rparr>
      | (None, sm') \<Rightarrow> emitError 0 err_source_too_large [sourceName] (initScanner sm' opts))"

end
