(* ===== verification/Directives.thy ===== *)
theory Directives
  imports Scan_State
begin

text \<open>
  \<^verbatim>\<open>lib/Lex/Directives.cpp\<close>: Turbo's compiler directives.  A handler of one category answers
  \<open>None\<close> where the C++ method answers \<^verbatim>\<open>false\<close> (the directive is not one of its own and nothing
  has changed) and the new state otherwise.
\<close>

subsection \<open>Splitting a directive\<close>

definition trim_front :: "bytes \<Rightarrow> bytes" where "trim_front x = dropWhile isspace x"
definition trim_back :: "bytes \<Rightarrow> bytes" where "trim_back x = rev (dropWhile isspace (rev x))"

text \<open>The name, the trimmed argument, and whether the argument was adjacent to the name.\<close>

definition splitDirectiveBody :: "bytes \<Rightarrow> bytes \<times> bytes \<times> bool" where
  "splitDirectiveBody Body =
     (let i = advance_while isalpha Body 0; argument = drop i Body in
      (take i Body, trim_back (trim_front argument), argument \<noteq> [] \<and> \<not> isspace (hd argument)))"

subsection \<open>Messages\<close>

definition MessageDirectives :: "(bytes \<times> message_diag) list" where
  "MessageDirectives =
     [(''message'', note_directive_message), (''info'', note_directive_info), (''note'', note_directive_note),
      (''hint'', warn_directive_hint), (''warning'', warn_directive_warning), (''error'', err_directive_error),
      (''fatal'', err_directive_fatal)]"

definition dispatchMessageDirective :: "bytes \<Rightarrow> bytes \<Rightarrow> SourceLocation \<Rightarrow> Scanner \<Rightarrow> Scanner option" where
  "dispatchMessageDirective name argument loc s =
     map_option (\<lambda>(_, d). emitError loc (MessageDiag d) [argument] s)
       (find (\<lambda>(n, _). toLower name = n) MessageDirectives)"

subsection \<open>Switches\<close>

definition applySwitch :: "Switch \<Rightarrow> bool \<Rightarrow> SourceLocation \<Rightarrow> Scanner \<Rightarrow> Scanner" where
  "applySwitch Sw on loc s =
     (let (T, st) = (case Switches s of Some T \<Rightarrow> (T, CurrentSwitchState s) | None \<Rightarrow> ([], defaultSwitches (Opts s)));
          st' = state_set st Sw on in
      s\<lparr>CurrentSwitchState := st', Switches := Some (record_switch T loc st')\<rparr>)"

definition sign_of :: "bytes \<Rightarrow> bool option" where
  "sign_of a = (if a = ''+'' then Some True else if a = ''-'' then Some False else None)"

definition dispatchSwitchDirective ::
  "bytes \<Rightarrow> bytes \<Rightarrow> SourceLocation \<Rightarrow> bool \<Rightarrow> Scanner \<Rightarrow> Scanner option" where
  "dispatchSwitchDirective name argument loc adjacent s =
     (let (Sw, on) =
        (if length name = 1 then
           (if adjacent then
              (let Sw = switchFromLetter (name ! 0) in (Sw, if Sw \<noteq> None then sign_of argument else None))
            else (None, None))
         else
           (let Sw = switchFromLongName (toLower name) in
            (Sw, if Sw \<noteq> None then
                   (case sign_of argument of
                      Some b \<Rightarrow> Some b
                    | None \<Rightarrow> (let folded = toLower argument in
                              if folded = ''on'' then Some True else if folded = ''off'' then Some False else None))
                 else None))) in
      case (Sw, on) of (Some Sw', Some on') \<Rightarrow> Some (applySwitch Sw' on' loc s) | _ \<Rightarrow> None)"

text \<open>\<^verbatim>\<open>Body.find(',', Start)\<close>.\<close>

definition find_comma :: "bytes \<Rightarrow> nat \<Rightarrow> nat option" where
  "find_comma Body Start = (let p = advance_while (\<lambda>c. c \<noteq> CHR '','') Body Start in
                            if p < length Body then Some p else None)"

text \<open>One element of \<open>{$R+,I-}\<close>: a letter and an adjacent sign.\<close>

definition switch_element :: "bytes \<Rightarrow> (Switch \<times> bool) option" where
  "switch_element e =
     (if length e \<noteq> 2 then None
      else if e ! 1 \<noteq> CHR ''+'' \<and> e ! 1 \<noteq> CHR ''-'' then None
      else case switchFromLetter (e ! 0) of None \<Rightarrow> None | Some Sw \<Rightarrow> Some (Sw, e ! 1 = CHR ''+''))"

function multi_switch_loop :: "bytes \<Rightarrow> nat \<Rightarrow> (Switch \<times> bool) list \<Rightarrow> (Switch \<times> bool) list option" where
  "multi_switch_loop Body Start parsed =
     (if Start \<le> length Body then
        (let comma = find_comma Body Start;
             elem = trim_back (trim_front (case comma of None \<Rightarrow> drop Start Body | Some q \<Rightarrow> substr Body Start q)) in
         case switch_element elem of
           None \<Rightarrow> None
         | Some e \<Rightarrow> (case comma of
                        None \<Rightarrow> Some (parsed @ [e])
                      | Some q \<Rightarrow> multi_switch_loop Body (q + 1) (parsed @ [e])))
      else Some parsed)"
  by pat_completeness auto
termination
proof (relation "measure (\<lambda>(Body, Start, parsed). Suc (length Body) - Start)", goal_cases)
  case (2 Body Start parsed comma elem e q)
  then have "Start \<le> q" "q < length Body"
    using advance_while_ge [of Start "\<lambda>c. c \<noteq> CHR '',''" Body]
    by (auto simp: find_comma_def Let_def split: if_splits)
  then show ?case by simp
qed simp

declare multi_switch_loop.simps [simp del]

definition dispatchMultiSwitchDirective :: "bytes \<Rightarrow> SourceLocation \<Rightarrow> Scanner \<Rightarrow> Scanner option" where
  "dispatchMultiSwitchDirective Body loc s =
     (if find_comma Body 0 = None then None
      else case multi_switch_loop Body 0 [] of
             None \<Rightarrow> None
           | Some parsed \<Rightarrow> (if length parsed < 2 then None
                            else Some (fold (\<lambda>(Sw, on) s. applySwitch Sw on loc s) parsed s)))"

subsection \<open>Directives that are accepted and ignored\<close>

definition IgnoredDirectiveNames :: "bytes list" where
  "IgnoredDirectiveNames =
     [''a'', ''d'', ''e'', ''f'', ''g'', ''l'', ''m'', ''n'', ''o'', ''y'', ''k'', ''u'',
      ''apptype'', ''codepage'', ''packrecords'', ''align'', ''smartlink'', ''warn'', ''region'', ''endregion'']"

definition dispatchIgnoredDirective :: "bytes \<Rightarrow> SourceLocation \<Rightarrow> Scanner \<Rightarrow> Scanner option" where
  "dispatchIgnoredDirective name loc s =
     (if List.member IgnoredDirectiveNames (toLower name) then Some (emitError loc warn_directive_ignored [name] s)
      else None)"

subsection \<open>Conditional compilation\<close>

text \<open>The body of a directive in dead source, from just past its opener: where it ends and where the scan
  goes on, or nothing when the buffer ends first.\<close>

function raw_body_loop :: "bytes \<Rightarrow> bool \<Rightarrow> nat \<Rightarrow> (nat \<times> nat) option" where
  "raw_body_loop tx Braced p =
     (if p < length tx then
        (let c = tx ! p; p1 = p + 1 in
         if Braced then (if c = CHR ''}'' then Some (p, p1) else raw_body_loop tx Braced p1)
         else (if c = CHR ''*'' \<and> p1 < length tx \<and> tx ! p1 = CHR '')'' then Some (p, p1 + 1)
               else raw_body_loop tx Braced p1))
      else None)"
  by pat_completeness auto
termination
  by (relation "measure (\<lambda>(tx, b, p). length tx - p)") auto

declare raw_body_loop.simps [simp del]

definition rawDirectiveBody :: "bool \<Rightarrow> Scanner \<Rightarrow> bytes option \<times> Scanner" where
  "rawDirectiveBody Braced s =
     (let BodyStart = Pos s + (if Braced then 2 else 3) in
      case raw_body_loop (Text s) Braced BodyStart of
        Some (here, p) \<Rightarrow> (Some (substr (Text s) BodyStart here), s\<lparr>Pos := p\<rparr>)
      | None \<Rightarrow> (None, s\<lparr>Pos := length (Text s)\<rparr>))"

text \<open>A quoted string in dead source, from just past its opening quote: the place after its closing one,
  if that is on the same line.\<close>

function dead_string_look :: "bytes \<Rightarrow> nat \<Rightarrow> nat option" where
  "dead_string_look tx look =
     (if look < length tx \<and> tx ! look \<noteq> LF then
        (if tx ! look = CHR 0x27 then
           (if look + 1 < length tx \<and> tx ! (look + 1) = CHR 0x27 then dead_string_look tx (look + 2)
            else Some (look + 1))
         else dead_string_look tx (look + 1))
      else None)"
  by pat_completeness auto
termination
  by (relation "measure (\<lambda>(tx, look). length tx - look)") auto

declare dead_string_look.simps [simp del]

definition directive_opener :: "Scanner \<Rightarrow> bool option" where
  "directive_opener s =
     (let tx = Text s; p = Pos s in
      if tx ! p = CHR ''{'' \<and> p + 1 < length tx \<and> tx ! (p + 1) = CHR ''$'' then Some True
      else if tx ! p = CHR ''('' \<and> p + 2 < length tx \<and> tx ! (p + 1) = CHR ''*'' \<and> tx ! (p + 2) = CHR ''$'' then Some False
      else None)"

text \<open>\<^verbatim>\<open>Frame\<close> is a reference to the back of the stack.\<close>

definition frame_of :: "Scanner \<Rightarrow> CondFrame" where "frame_of s = hd (CondStack s)"
definition pop_frame :: "Scanner \<Rightarrow> Scanner" where "pop_frame s = s\<lparr>CondStack := tl (CondStack s)\<rparr>"
definition set_frame :: "CondFrame \<Rightarrow> Scanner \<Rightarrow> Scanner" where
  "set_frame f s = s\<lparr>CondStack := f # tl (CondStack s)\<rparr>"

definition abandon_frame :: "Scanner \<Rightarrow> Scanner" where
  "abandon_frame s = pop_frame
     (emitError (OpenLoc (frame_of s)) err_directive_unterminated_conditional [OpenName (frame_of s)] s)"

text \<open>What a directive met in dead source does: go on skipping at some depth, or stop.\<close>

definition cond_marker :: "nat \<Rightarrow> bytes \<Rightarrow> bytes \<Rightarrow> SourceLocation \<Rightarrow> Scanner \<Rightarrow> nat option \<times> Scanner" where
  "cond_marker depth name argument dirLoc s =
     (let folded = toLower name; F = frame_of s in
      if folded = ''ifdef'' \<or> folded = ''ifndef'' \<or> folded = ''ifopt'' then (Some (depth + 1), s)
      else if folded = ''endif'' then
        (if depth > 0 then (Some (depth - 1), s) else (None, pop_frame s))
      else if depth > 0 then (Some depth, s)
      else if folded = ''else'' then
        (if SeenElse F then (Some depth, emitError dirLoc err_directive_else_already_seen [name] s)
         else if \<not> AnyBranchTaken F then (None, set_frame (F\<lparr>SeenElse := True, AnyBranchTaken := True\<rparr>) s)
         else (Some depth, set_frame (F\<lparr>SeenElse := True\<rparr>) s))
      else if folded = ''elseif'' then
        (if SeenElse F then (Some depth, emitError dirLoc err_directive_else_already_seen [name] s)
         else if \<not> AnyBranchTaken F then
           (if \<not> looksLikeIdentifier argument then (Some depth, emitError dirLoc err_directive_expects_symbol [name] s)
            else if toLower argument \<in> CurrentDefines s then (None, set_frame (F\<lparr>AnyBranchTaken := True\<rparr>) s)
            else (Some depth, s))
         else (Some depth, s))
      else (Some depth, s))"

lemma raw_body_loop_bounds:
  "raw_body_loop tx b p = Some (here, q) \<Longrightarrow> p \<le> here \<and> here < q \<and> q \<le> length tx"
  by (induction tx b p rule: raw_body_loop.induct)
    (subst (asm) (2) raw_body_loop.simps, fastforce simp: Let_def split: if_splits)

lemma dead_string_look_bounds: "dead_string_look tx p = Some q \<Longrightarrow> p < q \<and> q \<le> length tx"
  by (induction tx p rule: dead_string_look.induct)
    (subst (asm) (3) dead_string_look.simps, fastforce split: if_splits)

text \<open>A state that may differ in the conditional stack and the reports only.\<close>

lemma emitError_frame [simp]:
  "Opts (emitError l d a s) = Opts s" "SM (emitError l d a s) = SM s" "FID (emitError l d a s) = FID s"
  "Text (emitError l d a s) = Text s" "Pos (emitError l d a s) = Pos s" "PrevKind (emitError l d a s) = PrevKind s"
  "ForceExprStartOnce (emitError l d a s) = ForceExprStartOnce s" "CondStack (emitError l d a s) = CondStack s"
  "CurrentDefines (emitError l d a s) = CurrentDefines s" "IncludeStack (emitError l d a s) = IncludeStack s"
  "OpenIncludePaths (emitError l d a s) = OpenIncludePaths s" "Switches (emitError l d a s) = Switches s"
  "CurrentSwitchState (emitError l d a s) = CurrentSwitchState s"
  "Diags (emitError l d a s) = Diags s @ [(l, d, a)]"
  by (simp_all add: emitError_def)

lemma unread_emitError [simp]: "unread (emitError l d a s) = unread s"
  by (simp add: unread_def)

lemma unread_frames [simp]:
  "unread (pop_frame s) = unread s" "unread (set_frame f s) = unread s" "unread (s\<lparr>CondStack := cs\<rparr>) = unread s"
  by (simp_all add: unread_def pop_frame_def set_frame_def)

lemma unread_cond_marker: "cond_marker depth name argument loc s = (r, s') \<Longrightarrow> unread s' = unread s"
  by (auto simp: cond_marker_def Let_def split: if_splits)

lemma rawDirectiveBody_Some:
  "rawDirectiveBody b s = (Some body, s') \<Longrightarrow>
   \<exists>here q. s' = s\<lparr>Pos := q\<rparr> \<and> Pos s + (if b then 2 else 3) \<le> here \<and> here < q \<and> q \<le> length (Text s)
     \<and> body = substr (Text s) (Pos s + (if b then 2 else 3)) here"
  using raw_body_loop_bounds by (fastforce simp: rawDirectiveBody_def Let_def split: option.splits prod.splits)

lemma dead_directive_unread:
  assumes "rawDirectiveBody b s = (Some body, s1)" "cond_marker depth name argument loc s1 = (r, s2)"
  shows "unread s2 < unread s"
proof -
  obtain q here where q: "s1 = s\<lparr>Pos := q\<rparr>" "Pos s + (if b then 2 else 3) \<le> here" "here < q" "q \<le> length (Text s)"
    using rawDirectiveBody_Some [OF assms(1)] by blast
  then have "Pos s < q" "Pos s < length (Text s)" by (auto split: if_splits)
  then show ?thesis using unread_cond_marker [OF assms(2)] q(1) by (simp add: unread_Pos_less)
qed

lemma dead_look_unread:
  "dead_string_look (Text s) (Suc (Pos s)) = Some q \<Longrightarrow> unread (s\<lparr>Pos := q\<rparr>) < unread s"
  using dead_string_look_bounds [of "Text s" "Suc (Pos s)" q] by (simp add: unread_Pos_less)

lemma line_skip_unread:
  assumes "Pos s < length (Text s)" "Text s ! Pos s \<noteq> LF"
  shows "unread (s\<lparr>Pos := advance_while (\<lambda>c. c \<noteq> LF) (Text s) (Pos s)\<rparr>) < unread s"
  using assms advance_while_gt [of "Pos s" "Text s" "\<lambda>c. c \<noteq> LF"] by (simp add: unread_Pos_less)

function skip_loop :: "nat \<Rightarrow> Scanner \<Rightarrow> Scanner" where
  "skip_loop depth s =
     (if Pos s \<ge> length (Text s) then
        (case popInclude s of Some s' \<Rightarrow> skip_loop depth s' | None \<Rightarrow> abandon_frame s)
      else if Text s ! Pos s = CHR 0x27 then
        (case dead_string_look (Text s) (Pos s + 1) of
           Some q \<Rightarrow> skip_loop depth (s\<lparr>Pos := q\<rparr>)
         | None \<Rightarrow> skip_loop depth (s\<lparr>Pos := Pos s + 1\<rparr>))
      else if turbo (Opts s) \<and> Text s ! Pos s = CHR ''/'' \<and> Pos s + 1 < length (Text s)
              \<and> Text s ! (Pos s + 1) = CHR ''/'' then
        skip_loop depth (s\<lparr>Pos := advance_while (\<lambda>c. c \<noteq> LF) (Text s) (Pos s)\<rparr>)
      else case directive_opener s of
             None \<Rightarrow> skip_loop depth (s\<lparr>Pos := Pos s + 1\<rparr>)
           | Some Braced \<Rightarrow>
               (let BodyStart = Pos s + (if Braced then 2 else 3) in
                case rawDirectiveBody Braced s of
                  (None, s1) \<Rightarrow> abandon_frame s1
                | (Some body, s1) \<Rightarrow>
                    (case splitDirectiveBody body of (name, argument, _) \<Rightarrow>
                       (case cond_marker depth name argument (locAt s1 BodyStart) s1 of
                          (None, s2) \<Rightarrow> s2
                        | (Some depth', s2) \<Rightarrow> skip_loop depth' s2))))"
  by pat_completeness auto
termination
  by (relation "measure (\<lambda>(depth, s). unread s)")
    (auto simp: popInclude_unread unread_Pos_less dead_look_unread line_skip_unread dest: dead_directive_unread [OF sym sym])

declare skip_loop.simps [simp del]

definition skipToNextConditionalMarker :: "Scanner \<Rightarrow> Scanner" where
  "skipToNextConditionalMarker s = skip_loop 0 s"

definition push_frame :: "bool \<Rightarrow> SourceLocation \<Rightarrow> bytes \<Rightarrow> Scanner \<Rightarrow> Scanner" where
  "push_frame cond loc name s =
     s\<lparr>CondStack := \<lparr>AnyBranchTaken = cond, SeenElse = False, OpenLoc = loc, OpenName = name\<rparr> # CondStack s\<rparr>"

text \<open>\<^verbatim>\<open>CondStack.push_back(...); if (!Cond) skipToNextConditionalMarker(CondStack.back());\<close>\<close>

definition open_conditional :: "bool \<Rightarrow> SourceLocation \<Rightarrow> bytes \<Rightarrow> Scanner \<Rightarrow> Scanner" where
  "open_conditional cond loc name s =
     (let s1 = push_frame cond loc name s in if cond then s1 else skipToNextConditionalMarker s1)"

definition ifopt_condition :: "bytes \<Rightarrow> Scanner \<Rightarrow> bool option" where
  "ifopt_condition argument s =
     (if length argument = 2 then
        (case (switchFromLetter (argument ! 0),
               if argument ! 1 = CHR ''+'' then Some True else if argument ! 1 = CHR ''-'' then Some False else None) of
           (Some Sw, Some want) \<Rightarrow>
             Some ((if Switches s \<noteq> None then state_on (CurrentSwitchState s) Sw
                    else state_on (defaultSwitches (Opts s)) Sw) = want)
         | _ \<Rightarrow> None)
      else None)"

definition dispatchConditionalDirective :: "bytes \<Rightarrow> bytes \<Rightarrow> SourceLocation \<Rightarrow> Scanner \<Rightarrow> Scanner option" where
  "dispatchConditionalDirective name argument loc s =
     (let folded = toLower name in
      if folded = ''define'' \<or> folded = ''undef'' then
        (if \<not> looksLikeIdentifier argument then Some (emitError loc err_directive_expects_symbol [name] s)
         else if folded = ''define'' then Some (s\<lparr>CurrentDefines := insert (toLower argument) (CurrentDefines s)\<rparr>)
         else Some (s\<lparr>CurrentDefines := CurrentDefines s - {toLower argument}\<rparr>))
      else if folded = ''ifdef'' \<or> folded = ''ifndef'' then
        (if \<not> looksLikeIdentifier argument then
           Some (open_conditional False loc name (emitError loc err_directive_expects_symbol [name] s))
         else let dfd = (toLower argument \<in> CurrentDefines s) in
              Some (open_conditional (if folded = ''ifdef'' then dfd else \<not> dfd) loc name s))
      else if folded = ''ifopt'' then
        (case ifopt_condition argument s of
           None \<Rightarrow> Some (open_conditional False loc name (emitError loc err_directive_ifopt_bad_switch [argument] s))
         | Some cond \<Rightarrow> Some (open_conditional cond loc name s))
      else if folded = ''else'' \<or> folded = ''elseif'' then
        (if CondStack s = [] then Some (emitError loc err_directive_no_matching_ifdef [name] s)
         else if SeenElse (frame_of s) then Some (emitError loc err_directive_else_already_seen [name] s)
         else Some (skipToNextConditionalMarker
                (if folded = ''else'' then set_frame ((frame_of s)\<lparr>SeenElse := True\<rparr>) s else s)))
      else if folded = ''endif'' then
        (if CondStack s = [] then Some (emitError loc err_directive_no_matching_ifdef [name] s)
         else Some (pop_frame s))
      else None)"

definition reportUnterminatedConditionals :: "Scanner \<Rightarrow> Scanner" where
  "reportUnterminatedConditionals s =
     (fold (\<lambda>F. emitError (OpenLoc F) err_directive_unterminated_conditional [OpenName F]) (rev (CondStack s)) s)
       \<lparr>CondStack := []\<rparr>"

subsection \<open>Including a file\<close>

definition resolveIncludePath :: "FileSystem \<Rightarrow> bytes \<Rightarrow> Scanner \<Rightarrow> bytes option" where
  "resolveIncludePath fs fname s =
     (if is_absolute fname then (if isReadableFile fs fname then Some fname else None)
      else
        let candidates = path_append (parent_path (getBufferName (SM s) (FID s))) fname
              # (case current_path fs of Some cwd \<Rightarrow> [path_append cwd fname] | None \<Rightarrow> [])
              @ map (\<lambda>dir. path_append dir fname) (IncludeSearchPaths (Opts s)) in
        find (isReadableFile fs) candidates)"

definition openInclude :: "FileSystem \<Rightarrow> bytes \<Rightarrow> SourceLocation \<Rightarrow> Scanner \<Rightarrow> Scanner" where
  "openInclude fs fname loc s =
     (case resolveIncludePath fs fname s of
        None \<Rightarrow> emitError loc err_directive_include_not_found [fname] s
      | Some resolved \<Rightarrow>
          let identity = canonicalIdentity fs resolved in
          if List.member (OpenIncludePaths s) identity then emitError loc err_directive_include_cycle [fname] s
          else case addFile (SM s) resolved (file_size fs resolved) (file_contents fs resolved) of
                 (None, sm) \<Rightarrow> emitError loc err_directive_include_not_found [fname] (s\<lparr>SM := sm\<rparr>)
               | (Some newID, sm) \<Rightarrow>
                   record_boundary
                     (s\<lparr>SM := sm,
                        IncludeStack := \<lparr>IncFID = FID s, IncText = Text s, IncPos = Pos s\<rparr> # IncludeStack s,
                        OpenIncludePaths := identity # OpenIncludePaths s,
                        FID := newID, Text := truncateAtCtrlZ (getBufferData sm newID) (Opts s), Pos := 0\<rparr>))"

definition dispatchIncludeDirective ::
  "FileSystem \<Rightarrow> bytes \<Rightarrow> bytes \<Rightarrow> SourceLocation \<Rightarrow> Scanner \<Rightarrow> Scanner option" where
  "dispatchIncludeDirective fs name argument loc s =
     (let folded = toLower name in
      if folded \<noteq> ''i'' \<and> folded \<noteq> ''include'' then None
      else if folded = ''i'' \<and> (argument = ''+'' \<or> argument = ''-'') then None
      else let fname = (if length argument \<ge> 2 \<and> hd argument = CHR 0x27 \<and> last argument = CHR 0x27
                        then substr argument 1 (length argument - 1) else argument) in
           if fname = [] then Some (emitError loc err_directive_include_expects_filename [name] s)
           else Some (openInclude fs fname loc s))"

subsection \<open>Dispatch\<close>

text \<open>The first category that claims the directive.\<close>

fun first_claim :: "(Scanner \<Rightarrow> Scanner option) list \<Rightarrow> Scanner \<Rightarrow> Scanner option" where
  "first_claim [] s = None"
| "first_claim (h # hs) s = (case h s of Some s' \<Rightarrow> Some s' | None \<Rightarrow> first_claim hs s)"

definition dispatchDirective :: "FileSystem \<Rightarrow> bytes \<Rightarrow> SourceLocation \<Rightarrow> Scanner \<Rightarrow> Scanner" where
  "dispatchDirective fs Body loc s =
     (case dispatchMultiSwitchDirective Body loc s of
        Some s' \<Rightarrow> s'
      | None \<Rightarrow>
          (case splitDirectiveBody Body of (name, argument, adjacent) \<Rightarrow>
             (case first_claim
                [dispatchMessageDirective name argument loc,
                 dispatchConditionalDirective name argument loc,
                 dispatchIncludeDirective fs name argument loc,
                 dispatchSwitchDirective name argument loc adjacent,
                 dispatchIgnoredDirective name loc] s of
                Some s' \<Rightarrow> s'
              | None \<Rightarrow> emitError loc warn_directive_unknown [name] s)))"

text \<open>The scan for a directive's terminator, which may run out of an included file into its includer: the
  text gathered so far and where the current buffer's part of it begins.\<close>

function directive_loop :: "bool \<Rightarrow> bool \<Rightarrow> bytes \<Rightarrow> nat \<Rightarrow> Scanner \<Rightarrow> bytes option \<times> bool \<times> Scanner" where
  "directive_loop Braced saw spanning segment s =
     (if Pos s \<ge> length (Text s) then
        (case popInclude s of
           Some s' \<Rightarrow> directive_loop Braced saw (spanning @ drop segment (Text s)) (Pos s') s'
         | None \<Rightarrow> (None, saw, s))
      else
        (let here = Pos s; c = Text s ! here; p1 = here + 1;
             starParen = (c = CHR ''*'' \<and> p1 < length (Text s) \<and> Text s ! p1 = CHR '')'');
             body = spanning @ substr (Text s) segment here in
         if Braced then
           (if c = CHR ''}'' then (Some body, saw, s\<lparr>Pos := p1\<rparr>)
            else if starParen then directive_loop Braced True spanning segment (s\<lparr>Pos := p1 + 1\<rparr>)
            else directive_loop Braced saw spanning segment (s\<lparr>Pos := p1\<rparr>))
         else
           (if starParen then (Some body, saw, s\<lparr>Pos := p1 + 1\<rparr>)
            else directive_loop Braced (saw \<or> c = CHR ''}'') spanning segment (s\<lparr>Pos := p1\<rparr>))))"
  by pat_completeness auto
termination
  by (relation "measure (\<lambda>(b, saw, sp, seg, s). unread s)") (auto simp: popInclude_unread unread_Pos_less)

declare directive_loop.simps [simp del]

definition skipDirective :: "FileSystem \<Rightarrow> bool \<Rightarrow> Scanner \<Rightarrow> Scanner" where
  "skipDirective fs Braced s =
     (let openLoc = locAt s (Pos s); bodyStart = Pos s + (if Braced then 2 else 3); bodyLoc = locAt s bodyStart in
      case directive_loop Braced False [] bodyStart (s\<lparr>Pos := bodyStart\<rparr>) of
        (Some body, _, s') \<Rightarrow> dispatchDirective fs body bodyLoc s'
      | (None, saw, s') \<Rightarrow> report_unclosed Braced saw openLoc s')"

end
