(* ===== verification/Scan_Contract.thy ===== *)
theory Scan_Contract
  imports Directives
begin

text \<open>
  What every step of the scanner keeps: the invariant of its state (each buffer view is inside a buffer of
  the source manager, no file is open twice, the switch table is sorted), the options, the reports already
  made, and a measure that never grows.  The measure is the pair of the coordinate space still free and the
  bytes still unread, in lexicographic order: opening an include adds bytes to read but uses up space, and
  the space is finite, so even a file included over and over comes to an end.
\<close>

subsection \<open>The measure\<close>

definition space :: "Scanner \<Rightarrow> nat" where
  "space s = 2 ^ 32 - NextBase (SM s)"

definition scan_lt :: "Scanner \<Rightarrow> Scanner \<Rightarrow> bool" where
  "scan_lt s' s \<longleftrightarrow> space s' < space s \<or> (space s' = space s \<and> unread s' < unread s)"

definition scan_le :: "Scanner \<Rightarrow> Scanner \<Rightarrow> bool" where
  "scan_le s' s \<longleftrightarrow> space s' < space s \<or> (space s' = space s \<and> unread s' \<le> unread s)"

definition scan_order :: "(Scanner \<times> Scanner) set" where
  "scan_order = inv_image (less_than <*lex*> less_than) (\<lambda>s. (space s, unread s))"

lemma wf_scan_order [simp]: "wf scan_order"
  by (simp add: scan_order_def wf_lex_prod)

lemma scan_order_iff [simp]: "(s', s) \<in> scan_order \<longleftrightarrow> scan_lt s' s"
  by (auto simp: scan_order_def scan_lt_def)

lemma scan_le_refl [simp]: "scan_le s s" by (simp add: scan_le_def)
lemma scan_le_trans [trans]: "scan_le a b \<Longrightarrow> scan_le b c \<Longrightarrow> scan_le a c" by (auto simp: scan_le_def)
lemma scan_lt_trans [trans]: "scan_le a b \<Longrightarrow> scan_lt b c \<Longrightarrow> scan_lt a c" by (auto simp: scan_le_def scan_lt_def)
lemma scan_lt_imp_le: "scan_lt a b \<Longrightarrow> scan_le a b" by (auto simp: scan_le_def scan_lt_def)

subsection \<open>The invariant\<close>

definition buffer_view :: "SourceManager \<Rightarrow> LangOptions \<Rightarrow> FileID \<Rightarrow> bytes \<Rightarrow> nat \<Rightarrow> bool" where
  "buffer_view sm opts fid tx p \<longleftrightarrow> p \<le> length tx
     \<and> ((fid = 0 \<and> tx = []) \<or> (sizeOf sm fid \<noteq> None \<and> tx = truncateAtCtrlZ (getBufferData sm fid) opts))"

definition scanner_ok :: "Scanner \<Rightarrow> bool" where
  "scanner_ok s \<longleftrightarrow> sm_ok (SM s) \<and> buffer_view (SM s) (Opts s) (FID s) (Text s) (Pos s)
     \<and> list_all (\<lambda>F. buffer_view (SM s) (Opts s) (IncFID F) (IncText F) (IncPos F)) (IncludeStack s)
     \<and> distinct (OpenIncludePaths s)
     \<and> length (IncludeStack s) \<le> length (OpenIncludePaths s)
     \<and> length (OpenIncludePaths s) \<le> length (IncludeStack s) + 1
     \<and> (case Switches s of None \<Rightarrow> True | Some T \<Rightarrow> table_sorted T)"

definition keeps :: "Scanner \<Rightarrow> Scanner \<Rightarrow> bool" where
  "keeps s s' \<longleftrightarrow> (scanner_ok s \<longrightarrow> scanner_ok s') \<and> scan_le s' s \<and> Opts s' = Opts s
     \<and> (\<exists>ds. Diags s' = Diags s @ ds)"

lemma keeps_refl [simp]: "keeps s s" by (simp add: keeps_def)

lemma keeps_trans: "keeps a b \<Longrightarrow> keeps b c \<Longrightarrow> keeps a c"
  by (auto simp: keeps_def intro: scan_le_trans)

text \<open>A step that only reports, or only changes what the invariant and the measure do not read.\<close>

lemma keeps_emitError [simp]: "keeps s (emitError l d a s)"
  by (simp add: keeps_def scanner_ok_def scan_le_def space_def)

lemma keeps_emitError_after: "keeps s s' \<Longrightarrow> keeps s (emitError l d a s')"
  by (rule keeps_trans [OF _ keeps_emitError])

lemma keeps_update [simp]:
  "keeps s (s\<lparr>CondStack := cs\<rparr>)" "keeps s (s\<lparr>CurrentDefines := ds\<rparr>)"
  "keeps s (s\<lparr>PrevKind := k\<rparr>)" "keeps s (s\<lparr>ForceExprStartOnce := b\<rparr>)"
  "keeps s (s\<lparr>PrevKind := k, ForceExprStartOnce := b\<rparr>)"
  by (simp_all add: keeps_def scanner_ok_def scan_le_def space_def unread_def)

lemma keeps_Pos: "Pos s \<le> p \<Longrightarrow> p \<le> length (Text s) \<Longrightarrow> keeps s (s\<lparr>Pos := p\<rparr>)"
  by (auto simp: keeps_def scanner_ok_def buffer_view_def scan_le_def space_def unread_def)

lemma lt_Pos: "Pos s < p \<Longrightarrow> Pos s < length (Text s) \<Longrightarrow> scan_lt (s\<lparr>Pos := p\<rparr>) s"
  by (simp add: scan_lt_def space_def unread_Pos_less)

lemma keeps_popInclude:
  assumes "popInclude s = Some s'" "length (Text s) \<le> Pos s"
  shows "keeps s s'"
proof -
  obtain F rest where F: "IncludeStack s = F # rest"
    using assms(1) by (auto simp: popInclude_def split: list.splits)
  let ?t = "s\<lparr>FID := IncFID F, Text := IncText F, Pos := IncPos F, IncludeStack := rest,
       OpenIncludePaths := tl (OpenIncludePaths s)\<rparr>"
  have s': "s' = record_boundary ?t" using assms(1) F by (simp add: popInclude_def)
  have "scanner_ok s \<Longrightarrow> scanner_ok s'"
    by (auto simp: s' scanner_ok_def F distinct_tl record_boundary_def record_switch_sorted
        split: option.splits intro: le_diff_conv)
  moreover have "space s' = space s" by (simp add: s' space_def)
  ultimately show ?thesis
    using popInclude_unread [OF assms] by (simp add: keeps_def scan_le_def) (simp add: s')
qed

lemma keeps_turbo_comment_loop: "turbo_comment_loop b saw s = (cl, saw', s') \<Longrightarrow> keeps s s'"
proof (induction b saw s arbitrary: cl saw' s' rule: turbo_comment_loop.induct)
  case (1 b saw s)
  show ?case
  proof (cases "length (Text s) \<le> Pos s")
    case True
    then show ?thesis
      using "1.IH"(1) "1.prems" keeps_popInclude [OF _ True]
      by (auto simp: turbo_comment_loop.simps [of b saw s] split: option.splits intro: keeps_trans)
  next
    case False
    then have p: "keeps s (s\<lparr>Pos := Pos s + 1\<rparr>)" "Suc (Pos s) < length (Text s) \<Longrightarrow> keeps s (s\<lparr>Pos := Pos s + 1 + 1\<rparr>)"
      by (auto intro: keeps_Pos)
    show ?thesis
      using "1.prems" False "1.IH"(2-) p
      by (auto simp: turbo_comment_loop.simps [of b saw s] Let_def split: if_splits intro: keeps_trans)
  qed
qed

lemma keeps_directive_loop: "directive_loop b saw sp seg s = (r, saw', s') \<Longrightarrow> keeps s s'"
proof (induction b saw sp seg s arbitrary: r saw' s' rule: directive_loop.induct)
  case (1 b saw sp seg s)
  show ?case
  proof (cases "length (Text s) \<le> Pos s")
    case True
    then show ?thesis
      using "1.IH"(1) "1.prems" keeps_popInclude [OF _ True]
      by (auto simp: directive_loop.simps [of b saw sp seg s] split: option.splits intro: keeps_trans)
  next
    case False
    then have p: "keeps s (s\<lparr>Pos := Pos s + 1\<rparr>)" "Suc (Pos s) < length (Text s) \<Longrightarrow> keeps s (s\<lparr>Pos := Pos s + 1 + 1\<rparr>)"
      by (auto intro: keeps_Pos)
    show ?thesis
      using "1.prems" False "1.IH"(2-) p
      by (auto simp: directive_loop.simps [of b saw sp seg s] Let_def split: if_splits intro: keeps_trans)
  qed
qed

subsection \<open>Dead source\<close>

lemma keeps_frames [simp]: "keeps s (pop_frame s)" "keeps s (set_frame f s)" "keeps s (push_frame c l n s)"
  by (simp_all add: pop_frame_def set_frame_def push_frame_def)

lemma keeps_abandon_frame [simp]: "keeps s (abandon_frame s)"
  unfolding abandon_frame_def by (rule keeps_trans [OF keeps_emitError keeps_frames(1)])

lemma keeps_cond_marker: "cond_marker depth name argument loc s = (r, s') \<Longrightarrow> keeps s s'"
  by (auto simp: cond_marker_def Let_def split: if_splits)

lemma raw_body_moves:
  "rawDirectiveBody b s = (r, s') \<Longrightarrow> Pos s \<le> length (Text s) \<Longrightarrow>
   \<exists>p. s' = s\<lparr>Pos := p\<rparr> \<and> Pos s \<le> p \<and> p \<le> length (Text s)"
  using rawDirectiveBody_Some [of b s _ s']
  by (cases r) (force simp: rawDirectiveBody_def Let_def split: option.splits prod.splits)+

text \<open>Induction over the loop that skips dead source, for what it keeps while it goes on (\<open>R\<close>) and what
  holds when it stops (\<open>F\<close>).\<close>

lemma skip_loop_directive:
  assumes "Pos s < length (Text s)" "Text s ! Pos s \<noteq> CHR 0x27" "directive_opener s = Some b"
    and "\<not> (turbo (Opts s) \<and> Text s ! Pos s = CHR ''/'' \<and> Pos s + 1 < length (Text s) \<and> Text s ! (Pos s + 1) = CHR ''/'')"
    and "rawDirectiveBody b s = (Some body, s1)" "splitDirectiveBody body = (name, argument, adj)"
    and "cond_marker depth name argument (locAt s1 (Pos s + (if b then 2 else 3))) s1 = (d, s2)"
  shows "skip_loop depth s = (case d of None \<Rightarrow> s2 | Some d' \<Rightarrow> skip_loop d' s2)"
  using assms by (subst skip_loop.simps) (auto simp: Let_def split: option.splits)

lemma skip_loop_rel:
  assumes trans: "\<And>a b c. R a b \<Longrightarrow> F b c \<Longrightarrow> F a c" "\<And>a b c. R a b \<Longrightarrow> R b c \<Longrightarrow> R a c"
    and pos: "\<And>s p. Pos s \<le> p \<Longrightarrow> p \<le> length (Text s) \<Longrightarrow> R s (s\<lparr>Pos := p\<rparr>)"
    and pop: "\<And>s s'. popInclude s = Some s' \<Longrightarrow> length (Text s) \<le> Pos s \<Longrightarrow> R s s'"
    and abandon: "\<And>s. F s (abandon_frame s)"
    and go_on: "\<And>d n a l s d' s'. cond_marker d n a l s = (Some d', s') \<Longrightarrow> R s s'"
    and stop: "\<And>d n a l s s'. cond_marker d n a l s = (None, s') \<Longrightarrow> F s s'"
  shows "F s (skip_loop depth s)"
proof (induction depth s rule: skip_loop.induct)
  case (1 depth s)
  note IH = "1.IH" and unfold = skip_loop.simps [of depth s]
  let ?line = "turbo (Opts s) \<and> Text s ! Pos s = CHR ''/'' \<and> Pos s + 1 < length (Text s) \<and> Text s ! (Pos s + 1) = CHR ''/''"
  show ?case
  proof (cases "length (Text s) \<le> Pos s")
    case True
    then show ?thesis using IH(1) trans(1) [OF pop [OF _ True]] abandon by (auto simp: unfold split: option.splits)
  next
    case inside: False
    then have step: "R s (s\<lparr>Pos := Pos s + 1\<rparr>)" "R s (s\<lparr>Pos := advance_while (\<lambda>c. c \<noteq> LF) (Text s) (Pos s)\<rparr>)"
      "dead_string_look (Text s) (Pos s + 1) = Some q \<Longrightarrow> R s (s\<lparr>Pos := q\<rparr>)" for q
      using dead_string_look_bounds [of "Text s" "Pos s + 1" q] by (auto intro!: pos simp: advance_while_le)
    show ?thesis
    proof (cases "Text s ! Pos s = CHR 0x27 \<or> ?line \<or> directive_opener s = None")
      case True
      then show ?thesis using inside IH(2-5) trans(1) [OF step(1)] trans(1) [OF step(2)] trans(1) [OF step(3)]
        by (auto simp: unfold split: option.splits)
    next
      case False
      then obtain b where b: "directive_opener s = Some b" by auto
      obtain r s1 where r: "rawDirectiveBody b s = (r, s1)" by fastforce
      have k1: "R s s1" using raw_body_moves [OF r] inside pos by auto
      show ?thesis
      proof (cases r)
        case None
        then show ?thesis using False b r inside trans(1) [OF k1 abandon] by (auto simp: unfold Let_def)
      next
        case body: (Some body)
        obtain name argument adj where sp: "splitDirectiveBody body = (name, argument, adj)" by (metis prod_cases3)
        obtain d s2 where m: "cond_marker depth name argument (locAt s1 (Pos s + (if b then 2 else 3))) s1 = (d, s2)"
          by fastforce
        have "skip_loop depth s = (case d of None \<Rightarrow> s2 | Some d' \<Rightarrow> skip_loop d' s2)"
          using inside False b r body sp m by (intro skip_loop_directive) auto
        moreover have "F s2 (skip_loop d' s2)" if "d = Some d'" for d'
          using IH(6) [OF inside _ _ b refl r [symmetric] body sp [symmetric] refl m [symmetric]] False that by auto
        ultimately show ?thesis
          using m k1 trans(1) [OF trans(2) [OF k1 go_on]] trans(1) [OF k1 stop] by (auto split: option.splits)
      qed
    qed
  qed
qed

lemma keeps_skip_loop: "keeps s (skip_loop depth s)"
  by (rule skip_loop_rel [where R = keeps])
    (auto intro: keeps_trans keeps_Pos keeps_popInclude keeps_cond_marker)

lemma keeps_skipToNextConditionalMarker [simp]: "keeps s (skipToNextConditionalMarker s)"
  by (simp add: skipToNextConditionalMarker_def keeps_skip_loop)

subsection \<open>Switches and includes\<close>

lemma keeps_applySwitch [simp]: "keeps s (applySwitch Sw on loc s)"
  by (auto simp: applySwitch_def Let_def keeps_def scanner_ok_def scan_le_def space_def unread_def
      record_switch_sorted table_sorted_def [of "[]"] split: option.splits prod.splits)

lemma keeps_fold: "(\<And>x s. keeps s (f x s)) \<Longrightarrow> keeps s (fold f xs s)"
  by (induction xs arbitrary: s) (auto intro: keeps_trans)

lemma addFile_cases:
  assumes "addFile sm path sz contents = (r, sm')"
  obtains "r = None" "sm' = sm"
  | fid where "r = Some fid" "addBuffer sm path (the contents) = (Some fid, sm')" "contents \<noteq> None"
  using assms by (auto simp: addFile_def addBuffer_def Let_def split: if_splits option.splits)

lemma buffer_view_grow:
  assumes "sm_ok sm" "addBuffer sm name tx = (Some fid, sm')" "buffer_view sm opts f v p"
  shows "buffer_view sm' opts f v p"
proof -
  obtain B where B: "Buffers sm' = Buffers sm @ [B]" using addBuffer_Some(3) [OF assms(1,2)] by blast
  have "sizeOf sm' f \<noteq> None \<and> getBufferData sm' f = getBufferData sm f" if "sizeOf sm f \<noteq> None"
    using that B by (auto simp: sizeOf_def getBufferData_def bufferForFile_def nth_append split: if_splits)
  then show ?thesis using assms(3) by (auto simp: buffer_view_def)
qed

lemma openInclude_space:
  assumes "addBuffer sm name tx = (Some fid, sm')"
  shows "2 ^ 32 - NextBase sm' < 2 ^ 32 - NextBase sm"
proof -
  have "NextBase sm + length (strip_bom tx) + 1 \<le> UINT32_MAX"
    using assms by (auto simp: addBuffer_def wouldOverflow_def Let_def split: if_splits)
  moreover from this have "NextBase sm' = NextBase sm + length (strip_bom tx) + 1"
    using assms by (auto simp: addBuffer_def wouldOverflow_def Let_def)
  ultimately show ?thesis by (simp add: UINT32_MAX_def)
qed

lemma keeps_record_boundary: "keeps s (record_boundary s)"
  by (auto simp: record_boundary_def keeps_def scanner_ok_def scan_le_def space_def unread_def record_switch_sorted
      split: option.splits)

lemma keeps_openInclude: "keeps s (openInclude fs fname loc s)"
proof (cases "resolveIncludePath fs fname s")
  case None
  then show ?thesis by (simp add: openInclude_def)
next
  case (Some path)
  let ?id = "canonicalIdentity fs path"
  show ?thesis
  proof (cases "?id \<in> set (OpenIncludePaths s)")
    case True
    then show ?thesis using Some by (simp add: openInclude_def Let_def)
  next
    case new: False
    obtain r sm' where a: "addFile (SM s) path (file_size fs path) (file_contents fs path) = (r, sm')" by fastforce
    from a show ?thesis
    proof (cases rule: addFile_cases)
      case 1
      then have "openInclude fs fname loc s = emitError loc err_directive_include_not_found [fname] s"
        using Some new a by (simp add: openInclude_def Let_def)
      then show ?thesis by simp
    next
      case (2 fid)
      let ?t = "s\<lparr>SM := sm', IncludeStack := \<lparr>IncFID = FID s, IncText = Text s, IncPos = Pos s\<rparr> # IncludeStack s,
           OpenIncludePaths := ?id # OpenIncludePaths s, FID := fid,
           Text := truncateAtCtrlZ (getBufferData sm' fid) (Opts s), Pos := 0\<rparr>"
      have o: "openInclude fs fname loc s = record_boundary ?t"
        using Some new a 2(1) by (simp add: openInclude_def Let_def)
      have "scanner_ok ?t" if ok: "scanner_ok s"
      proof -
        have sm: "sm_ok (SM s)" using ok by (simp add: scanner_ok_def)
        note A = addBuffer_Some [OF sm 2(2)]
        have "sizeOf sm' fid \<noteq> None" using A(2,3) by (auto simp: sizeOf_def bufferForFile_def)
        moreover have "buffer_view sm' (Opts s) (FID s) (Text s) (Pos s)"
          "list_all (\<lambda>F. buffer_view sm' (Opts s) (IncFID F) (IncText F) (IncPos F)) (IncludeStack s)"
          using ok buffer_view_grow [OF sm 2(2)] by (auto simp: scanner_ok_def list_all_iff)
        ultimately show ?thesis using ok A(1) new by (auto simp: scanner_ok_def buffer_view_def)
      qed
      moreover have "scan_le ?t s" using openInclude_space [OF 2(2)] by (simp add: scan_le_def space_def)
      ultimately have "keeps s ?t" by (simp add: keeps_def)
      then show ?thesis unfolding o using keeps_record_boundary by (rule keeps_trans)
    qed
  qed
qed

subsection \<open>The categories of directives\<close>

text \<open>A category either leaves a directive to the others, changing nothing, or claims it; what it then
  does is bound by the contract.\<close>

locale directive_category =
  fixes handler :: "Scanner \<Rightarrow> Scanner option"
  assumes claimed: "handler s = Some s' \<Longrightarrow> keeps s s'"
begin

lemma claim_Cons:
  assumes "\<And>s s'. first_claim hs s = Some s' \<Longrightarrow> keeps s s'" "first_claim (handler # hs) s = Some s'"
  shows "keeps s s'"
  using assms(2) assms(1) [of s s'] claimed [of s s'] by (auto split: option.splits)

end

interpretation message: directive_category "dispatchMessageDirective name argument loc" for name argument loc
  by unfold_locales (auto simp: dispatchMessageDirective_def)

lemma keeps_open_conditional [simp]: "keeps s (open_conditional cond loc name s)"
  by (auto simp: open_conditional_def Let_def
      intro: keeps_trans [OF keeps_frames(3) keeps_skipToNextConditionalMarker])

interpretation conditional: directive_category "dispatchConditionalDirective name argument loc" for name argument loc
  by unfold_locales
    (auto simp: dispatchConditionalDirective_def Let_def split: if_splits option.splits
      intro: keeps_trans [OF keeps_emitError keeps_open_conditional]
        keeps_trans [OF keeps_frames(2) keeps_skipToNextConditionalMarker])

interpretation incl: directive_category "dispatchIncludeDirective fs name argument loc" for fs name argument loc
  by unfold_locales (auto simp: dispatchIncludeDirective_def Let_def keeps_openInclude split: if_splits)

interpretation switch: directive_category "dispatchSwitchDirective name argument loc adjacent"
  for name argument loc adjacent
  by unfold_locales (auto simp: dispatchSwitchDirective_def Let_def split: if_splits option.splits prod.splits)

interpretation ignored: directive_category "dispatchIgnoredDirective name loc" for name loc
  by unfold_locales (auto simp: dispatchIgnoredDirective_def split: if_splits)

interpretation multi: directive_category "dispatchMultiSwitchDirective Body loc" for Body loc
  by unfold_locales
    (auto simp: dispatchMultiSwitchDirective_def split: if_splits option.splits intro!: keeps_fold)

lemma keeps_dispatchDirective [simp]: "keeps s (dispatchDirective fs Body loc s)"
proof (cases "dispatchMultiSwitchDirective Body loc s")
  case (Some s')
  then show ?thesis using multi.claimed by (simp add: dispatchDirective_def)
next
  case None
  obtain name argument adjacent where sp: "splitDirectiveBody Body = (name, argument, adjacent)" by (metis prod_cases3)
  have "first_claim [dispatchMessageDirective name argument loc, dispatchConditionalDirective name argument loc,
        dispatchIncludeDirective fs name argument loc, dispatchSwitchDirective name argument loc adjacent,
        dispatchIgnoredDirective name loc] s = Some s' \<Longrightarrow> keeps s s'" for s'
    by (erule message.claim_Cons [rotated], erule conditional.claim_Cons [rotated], erule incl.claim_Cons [rotated],
        erule switch.claim_Cons [rotated], erule ignored.claim_Cons [rotated]) simp
  then show ?thesis using None sp by (auto simp: dispatchDirective_def split: option.splits)
qed

lemma keeps_report_unclosed: "keeps s (report_unclosed b saw l s)"
  by (simp add: report_unclosed_def)

text \<open>A directive or a comment is always longer than nothing.\<close>

lemma skipDirective_lt:
  assumes "Pos s + (if b then 2 else 3) \<le> length (Text s)"
  shows "scan_lt (skipDirective fs b s) s" "keeps s (skipDirective fs b s)"
proof -
  let ?s = "s\<lparr>Pos := Pos s + (if b then 2 else 3)\<rparr>"
  obtain r saw s' where l: "directive_loop b False [] (Pos s + (if b then 2 else 3)) ?s = (r, saw, s')"
    by (metis prod_cases3)
  have "keeps s' (skipDirective fs b s)"
    using l by (auto simp: skipDirective_def Let_def keeps_report_unclosed split: option.splits)
  then have k: "keeps ?s (skipDirective fs b s)" using keeps_directive_loop [OF l] by (rule keeps_trans [rotated])
  moreover have "keeps s ?s" using assms by (intro keeps_Pos) auto
  ultimately show "keeps s (skipDirective fs b s)" by (rule keeps_trans [rotated])
  have "scan_lt ?s s" using assms by (intro lt_Pos) (auto split: if_splits)
  then show "scan_lt (skipDirective fs b s) s" using k by (auto simp: keeps_def intro: scan_lt_trans)
qed

lemma iso_comment_loop_bounds: "iso_comment_loop tx p = (cl, q) \<Longrightarrow> p \<le> length tx \<Longrightarrow> p \<le> q \<and> q \<le> length tx"
proof (induction tx p arbitrary: cl q rule: iso_comment_loop.induct)
  case (1 tx p)
  then show ?case by (subst (asm) (2) iso_comment_loop.simps) (fastforce simp: Let_def split: if_splits)
qed

lemma skipComment_lt:
  assumes "Pos s + (if b then 1 else 2) \<le> length (Text s)"
  shows "scan_lt (skipComment b s) s" "keeps s (skipComment b s)"
proof -
  let ?p = "Pos s + (if b then 1 else 2)"
  let ?s = "s\<lparr>Pos := ?p\<rparr>"
  have k: "keeps ?s (skipComment b s)"
  proof (cases "turbo (Opts s)")
    case True
    obtain cl saw s' where l: "turbo_comment_loop b False ?s = (cl, saw, s')" by (metis prod_cases3)
    have "keeps s' (skipComment b s)"
      using l True by (simp add: skipComment_def skipCommentTurbo_def Let_def keeps_report_unclosed)
    then show ?thesis using keeps_turbo_comment_loop [OF l] by (rule keeps_trans [rotated])
  next
    case False
    obtain cl q where l: "iso_comment_loop (Text s) ?p = (cl, q)" by fastforce
    then have "keeps ?s (?s\<lparr>Pos := q\<rparr>)" using iso_comment_loop_bounds [OF l assms] by (intro keeps_Pos) auto
    then show ?thesis using l False by (simp add: skipComment_def keeps_emitError_after)
  qed
  moreover have "keeps s ?s" using assms by (intro keeps_Pos) auto
  ultimately show "keeps s (skipComment b s)" by (rule keeps_trans [rotated])
  have "scan_lt ?s s" using assms by (intro lt_Pos) (auto split: if_splits)
  then show "scan_lt (skipComment b s) s" using k by (auto simp: keeps_def intro: scan_lt_trans)
qed

end
