(* ===== verification/Lexer.thy ===== *)
theory Lexer
  imports Scan_Contract
begin

text \<open>
  \<^verbatim>\<open>lib/Lex/Scanner.cpp\<close>: the token scanners and \<open>next()\<close>.  A scanner of one kind of token answers
  the token and the new state; none of them touches more than the position and the reports.
\<close>

subsection \<open>Numbers as text\<close>

text \<open>\<^verbatim>\<open>std::to_string\<close> of a value that is not negative.\<close>

fun dec_digits :: "nat \<Rightarrow> bytes" where
  "dec_digits n = (if n < 10 then [char_of (48 + n)] else dec_digits (n div 10) @ [char_of (48 + n mod 10)])"

declare dec_digits.simps [simp del]

definition to_string :: "int \<Rightarrow> bytes" where
  "to_string v = dec_digits (nat v)"

text \<open>The accumulating loops: the test is made before the multiplication, against the truncating
  quotient.\<close>

fun accumulate :: "int \<Rightarrow> (char \<Rightarrow> int) \<Rightarrow> bytes \<Rightarrow> int \<Rightarrow> int option" where
  "accumulate base dig [] v = Some v"
| "accumulate base dig (c # cs) v =
     (let d = dig c in
      if v > cdiv (INT64_MAX - d) base then None else accumulate base dig cs (v * base + d))"

datatype digits_result = DigitsValue int | DigitsBad char | DigitsOverflow

fun based_digits :: "int \<Rightarrow> bytes \<Rightarrow> int \<Rightarrow> digits_result" where
  "based_digits base [] v = DigitsValue v"
| "based_digits base (c # cs) v =
     (let d = alnum_val c in
      if d \<ge> base then DigitsBad c
      else if v > cdiv (INT64_MAX - d) base then DigitsOverflow
      else based_digits base cs (v * base + d))"

subsection \<open>Identifiers and numbers\<close>

fun double_underscore :: "bytes \<Rightarrow> bool" where
  "double_underscore (a # b # cs) \<longleftrightarrow> (a = CHR ''_'' \<and> b = CHR ''_'') \<or> double_underscore (b # cs)"
| "double_underscore _ \<longleftrightarrow> False"

definition ident_char :: "char \<Rightarrow> bool" where
  "ident_char c \<longleftrightarrow> isalnum c \<or> c = CHR ''_''"

definition scanIdentifierOrKeyword :: "Scanner \<Rightarrow> nat \<Rightarrow> Token \<times> Scanner" where
  "scanIdentifierOrKeyword s TokenStart =
     (let p = advance_while ident_char (Text s) (Pos s);
          word = substr (Text s) (Pos s) p;
          underscore = (CHR ''_'' \<in> set word);
          s1 = s\<lparr>Pos := p\<rparr>;
          s2 = (if underscore \<and> \<not> has_feature (Opts s) UnderscoreIdentifiers
                then emitError (locAt s1 TokenStart) err_ep_underscore_in_identifier [] s1 else s1);
          s3 = (if underscore \<and> extendedPascal (Opts s)
                   \<and> (hd word = CHR ''_'' \<or> last word = CHR ''_'' \<or> double_underscore word)
                then emitError (locAt s2 TokenStart) err_ep_underscore_placement [] s2 else s2) in
      (make s3 (keyword_kind (Opts s) (toLower word)) word TokenStart, s3))"

text \<open>Extended Pascal's \<open>base#digits\<close>, from the \<open>#\<close>.\<close>

definition scanNondecimal :: "Scanner \<Rightarrow> nat \<Rightarrow> bytes \<Rightarrow> Token \<times> Scanner" where
  "scanNondecimal s TokenStart baseStr =
     (case accumulate 10 digit_val baseStr 0 of
        None \<Rightarrow> (let s' = emitError (locAt s TokenStart) err_nondecimal_base_range [] s in
                  (make s' tkError baseStr TokenStart, s'))
      | Some base \<Rightarrow>
          if base < 2 \<or> base > 36 then
            (let s' = emitError (locAt s TokenStart) err_nondecimal_base_range [] s in
             (make s' tkError baseStr TokenStart, s'))
          else
            (let digStart = Pos s + 1; p = advance_while isalnum (Text s) digStart;
                 digs = substr (Text s) digStart p; s1 = s\<lparr>Pos := p\<rparr> in
             if p = digStart then
               (let s' = emitError (locAt s1 TokenStart) err_nondecimal_no_digits [] s1 in
                (make s' tkError ''#'' TokenStart, s'))
             else case based_digits base digs 0 of
                    DigitsBad c \<Rightarrow>
                      (let s' = emitError (locAt s1 TokenStart) err_nondecimal_bad_digit [[c], to_string base] s1 in
                       (make s' tkError digs TokenStart, s'))
                  | DigitsOverflow \<Rightarrow>
                      (let s' = emitError (locAt s1 TokenStart) err_nondecimal_literal_out_of_range [] s1 in
                       (make s' tkError digs TokenStart, s'))
                  | DigitsValue v \<Rightarrow> (make s1 tkIntLit (to_string v) TokenStart, s1)))"

text \<open>The fraction and the scale factor of a decimal literal, taken only when a digit follows: where the
  literal ends, and whether it is real.\<close>

definition fraction_end :: "bytes \<Rightarrow> nat \<Rightarrow> nat \<times> bool" where
  "fraction_end tx p =
     (if p < length tx \<and> tx ! p = CHR ''.'' \<and> p + 1 < length tx \<and> isdigit (tx ! (p + 1))
      then (advance_while isdigit tx (p + 1), True) else (p, False))"

definition scale_end :: "bytes \<Rightarrow> nat \<Rightarrow> nat \<times> bool" where
  "scale_end tx p =
     (if p < length tx \<and> (tx ! p = CHR ''e'' \<or> tx ! p = CHR ''E'') then
        (let look0 = p + 1;
             look = (if look0 < length tx \<and> (tx ! look0 = CHR ''+'' \<or> tx ! look0 = CHR ''-'') then look0 + 1 else look0) in
         if look < length tx \<and> isdigit (tx ! look) then (advance_while isdigit tx look, True) else (p, False))
      else (p, False))"

definition scanNumber :: "Scanner \<Rightarrow> nat \<Rightarrow> Token \<times> Scanner" where
  "scanNumber s TokenStart =
     (let tx = Text s; start = Pos s; p = advance_while isdigit tx start in
      if extendedPascal (Opts s) \<and> p < length tx \<and> tx ! p = CHR ''#'' then
        scanNondecimal (s\<lparr>Pos := p\<rparr>) TokenStart (substr tx start p)
      else case fraction_end tx p of (p1, r1) \<Rightarrow>
             (case scale_end tx p1 of (p2, r2) \<Rightarrow>
                (let s' = s\<lparr>Pos := p2\<rparr> in
                 (make s' (if r1 \<or> r2 then tkRealLit else tkIntLit) (substr tx start p2) TokenStart, s'))))"

definition scanHexLiteral :: "Scanner \<Rightarrow> nat \<Rightarrow> Token \<times> Scanner" where
  "scanHexLiteral s TokenStart =
     (let digStart = Pos s + 1; p = advance_while isxdigit (Text s) digStart;
          digs = substr (Text s) digStart p; s1 = s\<lparr>Pos := p\<rparr> in
      if p = digStart then
        (let s' = emitError (locAt s1 TokenStart) err_hex_literal_no_digits [] s1 in
         (make s' tkError ''$'' TokenStart, s'))
      else case accumulate 16 alnum_val digs 0 of
             None \<Rightarrow> (let s' = emitError (locAt s1 TokenStart) err_hex_literal_out_of_range [] s1 in
                       (make s' tkError digs TokenStart, s'))
           | Some v \<Rightarrow> (make s1 tkIntLit (to_string v) TokenStart, s1))"

subsection \<open>Strings\<close>

text \<open>A quoted fragment from just past its opening quote: whether it closed, its content, and where it
  stopped.\<close>

function quoted_loop :: "bytes \<Rightarrow> nat \<Rightarrow> bytes \<Rightarrow> bool \<times> bytes \<times> nat" where
  "quoted_loop tx p lx =
     (if p < length tx then
        (if tx ! p = LF then (False, lx, p)
         else if tx ! p = CHR 0x27 then
           (if p + 1 < length tx \<and> tx ! (p + 1) = CHR 0x27 then quoted_loop tx (p + 2) (lx @ [CHR 0x27])
            else (True, lx, p + 1))
         else quoted_loop tx (p + 1) (lx @ [tx ! p]))
      else (False, lx, p))"
  by pat_completeness auto
termination
  by (relation "measure (\<lambda>(tx, p, lx). length tx - p)") auto

declare quoted_loop.simps [simp del]

definition scanQuotedFragment :: "bytes \<Rightarrow> Scanner \<Rightarrow> bool \<times> bytes \<times> Scanner" where
  "scanQuotedFragment lx s =
     (case quoted_loop (Text s) (Pos s + 1) lx of
        (closed, lx', p) \<Rightarrow>
          (let s1 = s\<lparr>Pos := p\<rparr> in
           (closed, lx', if closed then s1 else emitError (locAt s1 p) err_unterminated_string [] s1)))"

fun code_value :: "int \<Rightarrow> bytes \<Rightarrow> int \<Rightarrow> int option" where
  "code_value base [] v = Some v"
| "code_value base (c # cs) v =
     (let v' = v * base + alnum_val c in if v' > 255 then None else code_value base cs v')"

definition scanControlCodeFragment :: "bytes \<Rightarrow> Scanner \<Rightarrow> bool \<times> bytes \<times> Scanner" where
  "scanControlCodeFragment lx s =
     (let hex = (Pos s + 1 < length (Text s) \<and> Text s ! (Pos s + 1) = CHR ''$'');
          digStart = Pos s + (if hex then 2 else 1);
          p = advance_while (if hex then isxdigit else isdigit) (Text s) digStart;
          digs = substr (Text s) digStart p; s1 = s\<lparr>Pos := p\<rparr> in
      if p = digStart then (False, lx, emitError (locAt s1 (Pos s)) err_control_code_no_digits [] s1)
      else case code_value (if hex then 16 else 10) digs 0 of
             None \<Rightarrow> (False, lx, emitError (locAt s1 (Pos s)) err_control_code_out_of_range [digs] s1)
           | Some v \<Rightarrow> (True, lx @ [char_of (nat v)], s1))"

definition caretLooksLikeControlChar :: "Scanner \<Rightarrow> bool" where
  "caretLooksLikeControlChar s \<longleftrightarrow>
     Pos s < length (Text s) \<and> Text s ! Pos s = CHR ''^'' \<and> Pos s + 1 < length (Text s) \<and> isalpha (Text s ! (Pos s + 1))"

definition scanCaretFragment :: "bytes \<Rightarrow> Scanner \<Rightarrow> bytes \<times> Scanner" where
  "scanCaretFragment lx s =
     (lx @ [char_of (code_of (c_toupper (Text s ! (Pos s + 1))) - 65 + 1)], s\<lparr>Pos := Pos s + 2\<rparr>)"

text \<open>One fragment: nothing if none starts here, otherwise the kind the token ends with if the fragment is
  malformed.\<close>

definition string_fragment :: "bytes \<Rightarrow> Scanner \<Rightarrow> (TokenKind option \<times> bytes \<times> Scanner) option" where
  "string_fragment lx s =
     (if Pos s < length (Text s) \<and> Text s ! Pos s = CHR 0x27 then
        (case scanQuotedFragment lx s of (ok, lx', s') \<Rightarrow> Some (if ok then None else Some tkStringLit, lx', s'))
      else if turbo (Opts s) \<and> Pos s < length (Text s) \<and> Text s ! Pos s = CHR ''#'' then
        (case scanControlCodeFragment lx s of (ok, lx', s') \<Rightarrow> Some (if ok then None else Some tkError, lx', s'))
      else if turbo (Opts s) \<and> caretLooksLikeControlChar s then
        (case scanCaretFragment lx s of (lx', s') \<Rightarrow> Some (None, lx', s'))
      else None)"

definition glues :: "Scanner \<Rightarrow> bool" where
  "glues s \<longleftrightarrow> turbo (Opts s) \<and> Pos s < length (Text s)
     \<and> (Text s ! Pos s = CHR 0x27 \<or> Text s ! Pos s = CHR ''#'' \<or> caretLooksLikeControlChar s)"

text \<open>Every fragment moves forward inside the buffer and changes nothing but the position and the
  reports.\<close>

definition advances :: "Scanner \<Rightarrow> Scanner \<Rightarrow> bool" where
  "advances s s' \<longleftrightarrow> (\<exists>p ds. s' = s\<lparr>Pos := p, Diags := Diags s @ ds\<rparr> \<and> Pos s < p \<and> p \<le> length (Text s))"

lemma advances_Pos: "Pos s < p \<Longrightarrow> p \<le> length (Text s) \<Longrightarrow> advances s (s\<lparr>Pos := p\<rparr>)"
  unfolding advances_def by (intro exI [where x = p] exI [where x = "[]"]) simp

lemma advances_emitError: "advances s s' \<Longrightarrow> advances s (emitError l d a s')"
proof -
  assume "advances s s'"
  then obtain p ds where "s' = s\<lparr>Pos := p, Diags := Diags s @ ds\<rparr>" "Pos s < p" "p \<le> length (Text s)"
    by (auto simp: advances_def)
  then show ?thesis
    unfolding advances_def emitError_def by (intro exI [where x = p] exI [where x = "ds @ [(l, d, a)]"]) simp
qed

lemma advances_trans: "advances a b \<Longrightarrow> advances b c \<Longrightarrow> advances a c"
  by (fastforce simp: advances_def)

lemma advances_frame:
  "advances s s' \<Longrightarrow> Opts s' = Opts s \<and> Text s' = Text s \<and> SM s' = SM s \<and> IncludeStack s' = IncludeStack s
     \<and> FID s' = FID s \<and> Pos s < Pos s' \<and> Pos s' \<le> length (Text s)"
  by (auto simp: advances_def)

lemma advances_unread: "advances s s' \<Longrightarrow> unread s' < unread s"
  by (auto simp: advances_def unread_def diff_less_mono2)

lemma advances_contract:
  assumes "advances s s'"
  shows "keeps s s'" "scan_lt s' s"
proof -
  have "space s' = space s" using advances_frame [OF assms] by (simp add: space_def)
  moreover have "scanner_ok s \<Longrightarrow> scanner_ok s'"
    using assms by (auto simp: advances_def scanner_ok_def buffer_view_def)
  ultimately show "keeps s s'" "scan_lt s' s"
    using advances_unread [OF assms] assms by (auto simp: keeps_def scan_le_def scan_lt_def advances_def)
qed

lemma quoted_loop_bounds: "quoted_loop tx p lx = (cl, lx', q) \<Longrightarrow> p \<le> length tx \<Longrightarrow> p \<le> q \<and> q \<le> length tx"
proof (induction tx p lx arbitrary: cl lx' q rule: quoted_loop.induct)
  case (1 tx p lx)
  then show ?case by (subst (asm) (3) quoted_loop.simps) (fastforce split: if_splits)
qed

lemma scanQuotedFragment_advances:
  assumes "Pos s < length (Text s)" "scanQuotedFragment lx s = (ok, lx', s')"
  shows "advances s s'"
proof -
  obtain cl l q where r: "quoted_loop (Text s) (Pos s + 1) lx = (cl, l, q)" by (metis prod_cases3)
  have "advances s (s\<lparr>Pos := q\<rparr>)" using quoted_loop_bounds [OF r] assms(1) by (intro advances_Pos) auto
  then show ?thesis using assms(2) r by (auto simp: scanQuotedFragment_def Let_def advances_emitError)
qed

lemma scanControlCodeFragment_advances:
  assumes "Pos s < length (Text s)" "scanControlCodeFragment lx s = (ok, lx', s')"
  shows "advances s s'"
proof -
  let ?hex = "Pos s + 1 < length (Text s) \<and> Text s ! (Pos s + 1) = CHR ''$''"
  let ?d = "Pos s + (if ?hex then 2 else 1)"
  let ?p = "advance_while (if ?hex then isxdigit else isdigit) (Text s) ?d"
  have "Pos s < ?d" by simp
  also have "?d \<le> ?p" by (rule advance_while_ge)
  finally have "Pos s < ?p" .
  moreover have "?p \<le> length (Text s)" using assms(1) by (intro advance_while_le) auto
  ultimately have "advances s (s\<lparr>Pos := ?p\<rparr>)" by (rule advances_Pos)
  then show ?thesis using assms(2)
    by (auto simp: scanControlCodeFragment_def Let_def advances_emitError split: if_splits option.splits)
qed

lemma string_fragment_advances: "string_fragment lx s = Some (k, lx', s') \<Longrightarrow> advances s s'"
  by (auto simp: string_fragment_def scanCaretFragment_def caretLooksLikeControlChar_def intro: advances_Pos
      dest: scanQuotedFragment_advances scanControlCodeFragment_advances split: if_splits prod.splits)

function scan_string_loop :: "bytes \<Rightarrow> Scanner \<Rightarrow> TokenKind \<times> bytes \<times> Scanner" where
  "scan_string_loop lx s =
     (case string_fragment lx s of
        None \<Rightarrow> (tkStringLit, lx, s)
      | Some (Some k, lx', s') \<Rightarrow> (k, lx', s')
      | Some (None, lx', s') \<Rightarrow> (if glues s' then scan_string_loop lx' s' else (tkStringLit, lx', s')))"
  by pat_completeness auto
termination
  by (relation "measure (\<lambda>(lx, s). unread s)") (auto dest: string_fragment_advances advances_unread)

declare scan_string_loop.simps [simp del]

definition scanString :: "Scanner \<Rightarrow> nat \<Rightarrow> Token \<times> Scanner" where
  "scanString s TokenStart =
     (case scan_string_loop [] s of (k, lx, s') \<Rightarrow> (make s' k lx TokenStart, s'))"

subsection \<open>Symbols\<close>

text \<open>The one- and two-character symbols: kind and spelling, from the character and the one after it.\<close>

definition symbol_of :: "bool \<Rightarrow> char \<Rightarrow> char option \<Rightarrow> (TokenKind \<times> bytes) option" where
  "symbol_of tp c nxt =
     (if c = CHR ''+'' then Some (tkPlus, ''+'')
      else if c = CHR ''-'' then Some (tkMinus, ''-'')
      else if c = CHR ''*'' then
        (if nxt = Some CHR ''*'' then Some (tkStarStar, ''**'') else Some (tkTimes, ''*''))
      else if c = CHR ''/'' then Some (tkDivide, ''/'')
      else if c = CHR ''='' then Some (tkEqual, ''='')
      else if c = CHR ''<'' then
        (if nxt = Some CHR ''>'' then Some (tkNotEqual, ''<>'')
         else if nxt = Some CHR ''='' then Some (tkLessThanOrEqual, ''<='') else Some (tkLessThan, ''<''))
      else if c = CHR ''>'' then
        (if nxt = Some CHR ''='' then Some (tkGreaterThanOrEqual, ''>='')
         else if nxt = Some CHR ''<'' then Some (tkSymDiff, ''><'') else Some (tkGreaterThan, ''>''))
      else if c = CHR '':'' then
        (if nxt = Some CHR ''='' then Some (tkAssign, '':='') else Some (tkColon, '':''))
      else if c = CHR ''.'' then
        (if nxt = Some CHR ''.'' then Some (tkDotDot, ''..'')
         else if nxt = Some CHR '')'' then Some (tkRightBracket, ''.)'') else Some (tkDot, ''.''))
      else if c = CHR '','' then Some (tkComma, '','')
      else if c = CHR '';'' then Some (tkSemicolon, '';'')
      else if c = CHR ''('' then
        (if nxt = Some CHR ''.'' then Some (tkLeftBracket, ''(.'') else Some (tkLeftParen, ''(''))
      else if c = CHR '')'' then Some (tkRightParen, '')'')
      else if c = CHR ''['' then Some (tkLeftBracket, ''['')
      else if c = CHR '']'' then Some (tkRightBracket, '']'')
      else if c = CHR ''^'' then Some (tkCaret, ''^'')
      else if c = CHR ''@'' then Some (if tp then tkAt else tkCaret, ''@'')
      else None)"

definition scanSymbol :: "Scanner \<Rightarrow> nat \<Rightarrow> Token \<times> Scanner" where
  "scanSymbol s TokenStart =
     (let c = Text s ! Pos s;
          nxt = (if Pos s + 1 < length (Text s) then Some (Text s ! (Pos s + 1)) else None) in
      case symbol_of (turbo (Opts s)) c nxt of
        Some (k, sp) \<Rightarrow> (let s' = s\<lparr>Pos := Pos s + length sp\<rparr> in (make s' k sp TokenStart, s'))
      | None \<Rightarrow> (let s' = emitError (locAt s TokenStart) err_unexpected_char [[c]] (s\<lparr>Pos := Pos s + 1\<rparr>) in
                  (make s' tkError [c] TokenStart, s')))"

definition startsExpression :: "TokenKind \<Rightarrow> bool" where
  "startsExpression k \<longleftrightarrow> List.member
     [tkAssign, tkLeftParen, tkLeftBracket, tkComma, tkPlus, tkMinus, tkTimes, tkDivide, tkStarStar, tkLessThan,
      tkGreaterThan, tkLessThanOrEqual, tkGreaterThanOrEqual, tkNotEqual, tkSymDiff, tkAnd, tkOr, tkNot, tkDiv,
      tkMod, tkIn] k"

text \<open>The dispatch of \<open>next()\<close> on the first character of a token.\<close>

definition scanToken :: "Scanner \<Rightarrow> Token \<times> Scanner" where
  "scanToken s =
     (let TokenStart = Pos s; c = Text s ! Pos s in
      if isalpha c \<or> c = CHR ''_'' then scanIdentifierOrKeyword s TokenStart
      else if isdigit c then scanNumber s TokenStart
      else if c = CHR 0x27 then scanString s TokenStart
      else if turbo (Opts s) \<and> c = CHR ''#'' then scanString s TokenStart
      else if turbo (Opts s) \<and> c = CHR ''$'' then scanHexLiteral s TokenStart
      else if turbo (Opts s) \<and> caretLooksLikeControlChar s \<and> (startsExpression (PrevKind s) \<or> ForceExprStartOnce s)
        then scanString s TokenStart
      else scanSymbol s TokenStart)"

subsection \<open>Every token is longer than nothing\<close>

lemma advance_while_beyond [simp]:
  "p < q \<Longrightarrow> p < advance_while f tx q" "p \<le> q \<Longrightarrow> p \<le> advance_while f tx q"
  using advance_while_ge [of q f tx] by linarith+

lemma advance_bounds:
  "p \<le> length tx \<Longrightarrow> p \<le> advance_while f tx p \<and> advance_while f tx p \<le> length tx"
  by (simp add: advance_while_le)

lemma fraction_end_bounds: "fraction_end tx p = (q, r) \<Longrightarrow> p \<le> length tx \<Longrightarrow> p \<le> q \<and> q \<le> length tx"
  using advance_bounds [of "p + 1" tx isdigit] by (auto simp: fraction_end_def split: if_splits)

lemma scale_end_bounds: "scale_end tx p = (q, r) \<Longrightarrow> p \<le> length tx \<Longrightarrow> p \<le> q \<and> q \<le> length tx"
  using advance_bounds [of "p + 1" tx isdigit] advance_bounds [of "p + 2" tx isdigit]
  by (auto simp: scale_end_def Let_def split: if_splits)

lemma scanIdentifierOrKeyword_advances:
  assumes "Pos s < length (Text s)" "ident_char (Text s ! Pos s)"
  shows "advances s (snd (scanIdentifierOrKeyword s ts))"
proof -
  let ?p = "advance_while ident_char (Text s) (Pos s)"
  have "advances s (s\<lparr>Pos := ?p\<rparr>)"
    using assms advance_while_le [of "Pos s" "Text s"] by (intro advances_Pos advance_while_gt) auto
  then show ?thesis by (auto simp: scanIdentifierOrKeyword_def Let_def advances_emitError)
qed

definition stays :: "Scanner \<Rightarrow> Scanner \<Rightarrow> bool" where
  "stays s s' \<longleftrightarrow> (\<exists>p ds. s' = s\<lparr>Pos := p, Diags := Diags s @ ds\<rparr> \<and> Pos s \<le> p \<and> p \<le> length (Text s))"

lemma stays_emitError: "Pos s \<le> p \<Longrightarrow> p \<le> length (Text s) \<Longrightarrow> stays s (emitError l d a (s\<lparr>Pos := p\<rparr>))"
  unfolding stays_def emitError_def by (intro exI [where x = p] exI [where x = "[(l, d, a)]"]) simp

lemma stays_Pos: "Pos s \<le> p \<Longrightarrow> p \<le> length (Text s) \<Longrightarrow> stays s (s\<lparr>Pos := p\<rparr>)"
  unfolding stays_def by (intro exI [where x = p] exI [where x = "[]"]) simp

lemma advances_stays: "advances a b \<Longrightarrow> stays b c \<Longrightarrow> advances a c"
  by (fastforce simp: advances_def stays_def)

lemma scanNondecimal_stays:
  assumes "Pos s < length (Text s)"
  shows "stays s (snd (scanNondecimal s ts b))"
proof -
  let ?p = "advance_while isalnum (Text s) (Pos s + 1)"
  have p: "Pos s \<le> ?p" "?p \<le> length (Text s)"
    using assms advance_bounds [of "Pos s + 1" "Text s" isalnum] by auto
  have "stays s (emitError l d a s)" for l d a using stays_emitError [of s "Pos s" l d a] assms by simp
  then show ?thesis
    using stays_emitError [OF p] stays_Pos [OF p] by (auto simp: scanNondecimal_def Let_def split: option.split digits_result.split)
qed

lemma scanNumber_advances:
  assumes "Pos s < length (Text s)" "isdigit (Text s ! Pos s)"
  shows "advances s (snd (scanNumber s ts))"
proof -
  let ?p = "advance_while isdigit (Text s) (Pos s)"
  have p: "Pos s < ?p" "?p \<le> length (Text s)"
    using assms advance_while_le [of "Pos s" "Text s" isdigit] by (auto intro: advance_while_gt)
  show ?thesis
  proof (cases "extendedPascal (Opts s) \<and> ?p < length (Text s) \<and> Text s ! ?p = CHR ''#''")
    case True
    let ?s = "s\<lparr>Pos := ?p\<rparr>"
    have a: "advances s ?s" by (rule advances_Pos [OF p])
    have "stays ?s (snd (scanNumber s ts))"
      using scanNondecimal_stays [of ?s ts "substr (Text s) (Pos s) ?p"] True by (auto simp: scanNumber_def Let_def)
    then show ?thesis using a by (blast intro: advances_stays)
  next
    case False
    obtain p1 r1 where f: "fraction_end (Text s) ?p = (p1, r1)" by fastforce
    obtain p2 r2 where e: "scale_end (Text s) p1 = (p2, r2)" by fastforce
    have "Pos s < p2" "p2 \<le> length (Text s)"
      using p fraction_end_bounds [OF f] scale_end_bounds [OF e] by auto
    then have "advances s (s\<lparr>Pos := p2\<rparr>)" by (rule advances_Pos)
    then show ?thesis using False f e by (auto simp: scanNumber_def Let_def)
  qed
qed

lemma scanHexLiteral_advances:
  assumes "Pos s < length (Text s)"
  shows "advances s (snd (scanHexLiteral s ts))"
proof -
  let ?p = "advance_while isxdigit (Text s) (Pos s + 1)"
  have "advances s (s\<lparr>Pos := ?p\<rparr>)"
    using assms advance_bounds [of "Pos s + 1" "Text s" isxdigit] by (intro advances_Pos) auto
  then show ?thesis
    by (auto simp: scanHexLiteral_def Let_def advances_emitError split: option.splits)
qed

lemma scan_string_loop_advances:
  "scan_string_loop lx s = (k, lx', s') \<Longrightarrow> (if string_fragment lx s = None then s' = s else advances s s')"
proof (induction lx s arbitrary: k lx' s' rule: scan_string_loop.induct)
  case (1 lx s)
  show ?case
  proof (cases "string_fragment lx s")
    case None
    then show ?thesis using "1.prems" by (simp add: scan_string_loop.simps [of lx s])
  next
    case (Some f)
    obtain m l t where f: "f = (m, l, t)" by (metis prod_cases3)
    have a: "advances s t" using Some f by (auto dest: string_fragment_advances)
    show ?thesis
    proof (cases "m = None \<and> glues t")
      case True
      then have "scan_string_loop l t = (k, lx', s')"
        using "1.prems" Some f by (simp add: scan_string_loop.simps [of lx s])
      then have "s' = t \<or> advances t s'"
        using "1.IH" [OF Some f [symmetric] _ refl] True by (fastforce split: if_splits)
      then show ?thesis using a Some by (auto intro: advances_trans)
    next
      case False
      then have "s' = t" using "1.prems" Some f by (auto simp: scan_string_loop.simps [of lx s] split: option.splits if_splits)
      then show ?thesis using a Some by simp
    qed
  qed
qed

lemma scanString_advances:
  assumes "string_fragment [] s \<noteq> None"
  shows "advances s (snd (scanString s ts))"
proof -
  obtain k lx s' where l: "scan_string_loop [] s = (k, lx, s')" by (metis prod_cases3)
  then show ?thesis using scan_string_loop_advances [OF l] assms by (simp add: scanString_def)
qed

lemma symbol_of_length:
  "symbol_of tp c nxt = Some (k, sp) \<Longrightarrow> 0 < length sp \<and> length sp \<le> 2 \<and> (length sp = 2 \<longrightarrow> nxt \<noteq> None)"
  by (auto simp: symbol_of_def split: if_splits)

lemma scanSymbol_advances:
  assumes "Pos s < length (Text s)"
  shows "advances s (snd (scanSymbol s ts))"
proof -
  let ?nxt = "if Pos s + 1 < length (Text s) then Some (Text s ! (Pos s + 1)) else None"
  show ?thesis
  proof (cases "symbol_of (turbo (Opts s)) (Text s ! Pos s) ?nxt")
    case None
    then show ?thesis using assms by (auto simp: scanSymbol_def Let_def intro!: advances_emitError advances_Pos)
  next
    case (Some r)
    obtain k sp where r: "r = (k, sp)" by (cases r)
    note L = symbol_of_length [OF Some [unfolded r]]
    have "Pos s + length sp \<le> length (Text s)" using L assms by (cases "length sp = 2") (auto split: if_splits)
    then have "advances s (s\<lparr>Pos := Pos s + length sp\<rparr>)" using L by (intro advances_Pos) auto
    then show ?thesis using Some r by (simp add: scanSymbol_def Let_def)
  qed
qed

lemma scanToken_advances: "Pos s < length (Text s) \<Longrightarrow> advances s (snd (scanToken s))"
  unfolding scanToken_def Let_def
  by (auto intro!: scanIdentifierOrKeyword_advances scanNumber_advances scanString_advances scanHexLiteral_advances
      scanSymbol_advances simp: ident_char_def isalnum_def string_fragment_def split: prod.splits)

subsection \<open>Blanks, comments and the token stream\<close>

lemma peek_nonzero: "peek s = c \<Longrightarrow> c \<noteq> CHR 0x00 \<Longrightarrow> Pos s + 1 < length (Text s) \<and> Text s ! (Pos s + 1) = c"
  by (auto simp: peek_def split: if_splits)

lemma skipLineComment_advances: "Pos s + 1 < length (Text s) \<Longrightarrow> advances s (skipLineComment s)"
  using advance_bounds [of "Pos s + 2" "Text s" "\<lambda>c. c \<noteq> LF"]
  by (auto simp: skipLineComment_def intro!: advances_Pos)

text \<open>One step over a blank, a comment or a directive, if one is next.\<close>

definition blank_step :: "FileSystem \<Rightarrow> Scanner \<Rightarrow> Scanner option" where
  "blank_step fs s =
     (if Pos s < length (Text s) then
        (let c = Text s ! Pos s in
         if isspace c then Some (s\<lparr>Pos := Pos s + 1\<rparr>)
         else if c = CHR ''{'' then
           Some (if turbo (Opts s) \<and> peek s = CHR ''$'' then skipDirective fs True s else skipBraceComment s)
         else if c = CHR ''('' \<and> peek s = CHR ''*'' then
           Some (if turbo (Opts s) \<and> Pos s + 2 < length (Text s) \<and> Text s ! (Pos s + 2) = CHR ''$''
                 then skipDirective fs False s else skipParenthesisComment s)
         else if turbo (Opts s) \<and> c = CHR ''/'' \<and> peek s = CHR ''/'' then Some (skipLineComment s)
         else None)
      else None)"

lemma blank_step_contract:
  assumes "blank_step fs s = Some s'"
  shows "scan_lt s' s" "keeps s s'"
proof -
  have "scan_lt s' s \<and> keeps s s'"
    using assms advances_contract [OF advances_Pos, of s "Pos s + 1"] skipDirective_lt [of s True fs]
      skipDirective_lt [of s False fs] skipComment_lt [of s True] skipComment_lt [of s False]
      peek_nonzero [of s "CHR ''$''"] peek_nonzero [of s "CHR ''*''"] peek_nonzero [of s "CHR ''/''"]
      advances_contract [OF skipLineComment_advances [of s]]
    by (auto simp: blank_step_def Let_def skipBraceComment_def skipParenthesisComment_def split: if_splits)
  then show "scan_lt s' s" "keeps s s'" by auto
qed

function skipWhitespaceAndComments :: "FileSystem \<Rightarrow> Scanner \<Rightarrow> Scanner" where
  "skipWhitespaceAndComments fs s =
     (case blank_step fs s of Some s' \<Rightarrow> skipWhitespaceAndComments fs s' | None \<Rightarrow> s)"
  by pat_completeness auto
termination
  by (relation "inv_image scan_order snd") (auto simp: blank_step_contract wf_inv_image)

declare skipWhitespaceAndComments.simps [simp del]

lemma keeps_skipWhitespaceAndComments: "keeps s (skipWhitespaceAndComments fs s)"
proof (induction fs s rule: skipWhitespaceAndComments.induct)
  case (1 fs s)
  then show ?case
    by (subst skipWhitespaceAndComments.simps) (auto split: option.splits intro: keeps_trans dest: blank_step_contract(2))
qed

lemma skipWhitespaceAndComments_stop: "blank_step fs (skipWhitespaceAndComments fs s) = None"
proof (induction fs s rule: skipWhitespaceAndComments.induct)
  case (1 fs s)
  then show ?case by (subst skipWhitespaceAndComments.simps) (auto split: option.splits)
qed

function next_token :: "FileSystem \<Rightarrow> Scanner \<Rightarrow> Token \<times> Scanner" where
  "next_token fs s =
     (let s1 = skipWhitespaceAndComments fs s in
      if Pos s1 \<ge> length (Text s1) then
        (case popInclude s1 of
           Some s2 \<Rightarrow> next_token fs s2
         | None \<Rightarrow> (let s2 = reportUnterminatedConditionals s1 in (make s2 tkEof [] (Pos s2), s2)))
      else
        (case scanToken s1 of (tok, s2) \<Rightarrow>
           if Kind tok \<noteq> tkError then (tok, s2\<lparr>PrevKind := Kind tok, ForceExprStartOnce := False\<rparr>)
           else next_token fs s2))"
  by pat_completeness auto
termination
proof (relation "inv_image scan_order snd", goal_cases)
  case 1
  then show ?case by (simp add: wf_inv_image)
next
  case (2 fs s s1 s2)
  then have "scan_lt s2 s1" using popInclude_unread [of s1 s2] keeps_popInclude [of s1 s2]
    by (auto simp: keeps_def scan_le_def scan_lt_def)
  then show ?case using 2(1) keeps_skipWhitespaceAndComments [of s fs]
    by (auto simp: keeps_def scan_lt_def scan_le_def)
next
  case (3 fs s s1 tok s2)
  then have "advances s1 s2" using scanToken_advances [of s1] by (metis not_le_imp_less snd_conv)
  then have "scan_lt s2 s1" by (rule advances_contract(2))
  then show ?case using 3(1) keeps_skipWhitespaceAndComments [of s fs]
    by (auto simp: keeps_def scan_lt_def scan_le_def)
qed

declare next_token.simps [simp del]

end
