(* ===== verification/Lexer_Props.thy ===== *)
theory Lexer_Props
  imports Lexer
begin

text \<open>What the scanner promises the parser: it always comes to an end, it keeps its invariant, its tokens
  are the text they stand for, and directives in source that is not compiled have no effect.\<close>

subsection \<open>Progress\<close>

lemma keeps_reportUnterminatedConditionals: "keeps s (reportUnterminatedConditionals s)"
proof -
  have "keeps s (fold (\<lambda>F. emitError (OpenLoc F) err_directive_unterminated_conditional [OpenName F]) (rev (CondStack s)) s)"
    by (rule keeps_fold) simp
  then show ?thesis unfolding reportUnterminatedConditionals_def by (rule keeps_trans [OF _ keeps_update(1)])
qed

lemma fold_emitError_frame [simp]:
  "Text (fold (\<lambda>F. emitError (f F) d (g F)) fs s) = Text s"
  "Pos (fold (\<lambda>F. emitError (f F) d (g F)) fs s) = Pos s"
  "IncludeStack (fold (\<lambda>F. emitError (f F) d (g F)) fs s) = IncludeStack s"
  "Opts (fold (\<lambda>F. emitError (f F) d (g F)) fs s) = Opts s"
  "SM (fold (\<lambda>F. emitError (f F) d (g F)) fs s) = SM s"
  "FID (fold (\<lambda>F. emitError (f F) d (g F)) fs s) = FID s"
  by (induction fs arbitrary: s) auto

lemma reportUnterminated_frame [simp]:
  "Text (reportUnterminatedConditionals s) = Text s" "Pos (reportUnterminatedConditionals s) = Pos s"
  "IncludeStack (reportUnterminatedConditionals s) = IncludeStack s" "Opts (reportUnterminatedConditionals s) = Opts s"
  "CondStack (reportUnterminatedConditionals s) = []" "SM (reportUnterminatedConditionals s) = SM s"
  "FID (reportUnterminatedConditionals s) = FID s"
  by (simp_all add: reportUnterminatedConditionals_def)

definition at_end :: "Scanner \<Rightarrow> bool" where
  "at_end s \<longleftrightarrow> length (Text s) \<le> Pos s \<and> IncludeStack s = [] \<and> CondStack s = []"

lemma keyword_kind_not_varying: "keyword_kind opts w \<noteq> tkEof" "keyword_kind opts w \<noteq> tkError" "keyword_kind opts w \<noteq> tkStringLit"
proof -
  let ?It = "lower_bound_by (\<lambda>e. fst e < w) keyword_table"
  have "?It < length keyword_table \<and> fst (keyword_table ! ?It) = w \<longrightarrow> snd (keyword_table ! ?It) \<in> snd ` set keyword_table"
    by simp
  moreover have "list_all (\<lambda>e. snd e \<noteq> tkEof \<and> snd e \<noteq> tkError \<and> snd e \<noteq> tkStringLit) keyword_table" by code_simp
  ultimately show "keyword_kind opts w \<noteq> tkEof" "keyword_kind opts w \<noteq> tkError" "keyword_kind opts w \<noteq> tkStringLit"
    by (auto simp: keyword_kind_def Let_def list_all_iff split: if_splits)
qed

lemma symbol_of_kind: "symbol_of tp c nxt = Some (k, sp) \<Longrightarrow> k \<noteq> tkEof \<and> k \<noteq> tkError \<and> k \<noteq> tkStringLit"
  by (auto simp: symbol_of_def split: if_splits)

lemma string_fragment_kind: "string_fragment lx s = Some (Some k, lx', s') \<Longrightarrow> k \<in> {tkStringLit, tkError}"
  by (auto simp: string_fragment_def split: if_splits prod.splits)

lemma scan_string_kind: "scan_string_loop lx s = (k, lx', s') \<Longrightarrow> k \<in> {tkStringLit, tkError}"
proof (induction lx s arbitrary: k lx' s' rule: scan_string_loop.induct)
  case (1 lx s)
  show ?case
  proof (cases "string_fragment lx s")
    case None
    then show ?thesis using "1.prems" by (simp add: scan_string_loop.simps [of lx s])
  next
    case (Some f)
    obtain m l t where f: "f = (m, l, t)" by (metis prod_cases3)
    show ?thesis
    proof (cases "m = None \<and> glues t")
      case True
      then have "scan_string_loop l t = (k, lx', s')"
        using "1.prems" Some f by (simp add: scan_string_loop.simps [of lx s])
      then show ?thesis using "1.IH" [OF Some f [symmetric] _ refl] True by fastforce
    next
      case False
      then show ?thesis
        using "1.prems" Some f string_fragment_kind [of lx s _ l t]
        by (cases m) (auto simp: scan_string_loop.simps [of lx s])
    qed
  qed
qed

lemma Kind_make [simp]: "Kind (make s k lx ts) = k"
  by (simp add: make_def)

lemma scan_not_Eof:
  "Kind (fst (scanIdentifierOrKeyword s ts)) \<noteq> tkEof"
  "Kind (fst (scanNondecimal s ts b)) \<noteq> tkEof"
  "Kind (fst (scanHexLiteral s ts)) \<noteq> tkEof"
  "Kind (fst (scanSymbol s ts)) \<noteq> tkEof"
  using keyword_kind_not_varying(1) symbol_of_kind
  by (auto simp: scanIdentifierOrKeyword_def scanNondecimal_def scanHexLiteral_def scanSymbol_def Let_def
      split: option.splits digits_result.splits)

lemma scanNumber_not_Eof: "Kind (fst (scanNumber s ts)) \<noteq> tkEof"
  using scan_not_Eof(2) by (auto simp: scanNumber_def Let_def split: prod.splits)

lemma scanString_not_Eof: "Kind (fst (scanString s ts)) \<noteq> tkEof"
  using scan_string_kind [of "[]" s] by (auto simp: scanString_def split: prod.splits)

lemma scanToken_not_Eof: "Kind (fst (scanToken s)) \<noteq> tkEof"
  unfolding scanToken_def Let_def using scan_not_Eof scanNumber_not_Eof scanString_not_Eof by (simp split: if_split)

text \<open>What one call of \<open>next()\<close> does.\<close>

definition next_ok :: "Scanner \<Rightarrow> Token \<times> Scanner \<Rightarrow> bool" where
  "next_ok s r \<longleftrightarrow> (case r of (tok, s') \<Rightarrow>
     keeps s s' \<and> Kind tok \<noteq> tkError
     \<and> (if Kind tok = tkEof then at_end s' else scan_lt s' s))"

lemma next_token_ok: "next_ok s (next_token fs s)"
proof (induction fs s rule: next_token.induct)
  case (1 fs s)
  define s1 where "s1 = skipWhitespaceAndComments fs s"
  have k1: "keeps s s1" by (simp add: s1_def keeps_skipWhitespaceAndComments)
  have step: "next_ok s r" if "next_ok s2 r" "keeps s1 s2" for s2 r
  proof -
    have k2: "keeps s s2" by (rule keeps_trans [OF k1 that(2)])
    then have "scan_lt s' s2 \<Longrightarrow> scan_lt s' s" for s' by (auto simp: keeps_def scan_lt_def scan_le_def)
    then show ?thesis using that(1) keeps_trans [OF k2] by (cases r) (auto simp: next_ok_def split: if_splits)
  qed
  show ?case
  proof (cases "length (Text s1) \<le> Pos s1")
    case True
    show ?thesis
    proof (cases "popInclude s1")
      case None
      then have "next_token fs s = (make (reportUnterminatedConditionals s1) tkEof [] (Pos s1), reportUnterminatedConditionals s1)"
        using True by (subst next_token.simps) (simp add: s1_def [symmetric] Let_def)
      moreover have "IncludeStack s1 = []" using None by (auto simp: popInclude_def split: list.splits)
      ultimately show ?thesis
        using True keeps_trans [OF k1 keeps_reportUnterminatedConditionals]
        by (simp add: next_ok_def make_def at_end_def)
    next
      case (Some s2)
      then have "next_token fs s = next_token fs s2"
        using True by (subst next_token.simps) (simp add: s1_def [symmetric] Let_def)
      then show ?thesis
        using "1.IH"(1) [OF s1_def True Some] step [OF _ keeps_popInclude [OF Some True]] by simp
    qed
  next
    case False
    obtain tok s2 where t: "scanToken s1 = (tok, s2)" by fastforce
    then have a: "advances s1 s2" using scanToken_advances [of s1] False by simp
    show ?thesis
    proof (cases "Kind tok = tkError")
      case True
      then have "next_token fs s = next_token fs s2"
        using False t by (subst next_token.simps) (simp add: s1_def [symmetric] Let_def)
      then show ?thesis
        using "1.IH"(2) [OF s1_def False t [symmetric]] True step [OF _ advances_contract(1) [OF a]] by simp
    next
      case ok: False
      let ?s = "s2\<lparr>PrevKind := Kind tok, ForceExprStartOnce := False\<rparr>"
      have "next_token fs s = (tok, ?s)"
        using False t ok by (subst next_token.simps) (simp add: s1_def [symmetric] Let_def)
      moreover have "keeps s ?s" using keeps_trans [OF keeps_trans [OF k1 advances_contract(1) [OF a]] keeps_update(5)] .
      moreover have "scan_lt s2 s" using advances_contract(2) [OF a] k1 by (auto simp: keeps_def scan_lt_def scan_le_def)
      then have "scan_lt ?s s" by (simp add: scan_lt_def space_def unread_def)
      moreover have "Kind tok \<noteq> tkEof" using scanToken_not_Eof [of s1] t by simp
      ultimately show ?thesis using ok by (simp add: next_ok_def)
    qed
  qed
qed

lemma next_token_at_end: "at_end s \<Longrightarrow> next_token fs s = (make s tkEof [] (Pos s), s)"
proof -
  assume e: "at_end s"
  then have "blank_step fs s = None" by (simp add: blank_step_def at_end_def)
  then have "skipWhitespaceAndComments fs s = s" by (simp add: skipWhitespaceAndComments.simps)
  moreover have "reportUnterminatedConditionals s = s"
    using e by (cases s) (simp add: reportUnterminatedConditionals_def at_end_def)
  ultimately show ?thesis
    using e by (subst next_token.simps) (simp add: Let_def at_end_def popInclude_def)
qed

text \<open>The state after a number of calls of \<open>next()\<close>.\<close>

fun after_tokens :: "FileSystem \<Rightarrow> nat \<Rightarrow> Scanner \<Rightarrow> Scanner" where
  "after_tokens fs 0 s = s"
| "after_tokens fs (Suc n) s = after_tokens fs n (snd (next_token fs s))"

lemma keeps_next_token: "keeps s (snd (next_token fs s))"
  using next_token_ok [of s fs] by (auto simp: next_ok_def split: prod.splits)

lemma keeps_after_tokens: "keeps s (after_tokens fs n s)"
  by (induction n arbitrary: s) (auto intro: keeps_trans keeps_next_token)

lemma reaches_eof: "\<exists>n. Kind (fst (next_token fs (after_tokens fs n s))) = tkEof"
proof (induction s rule: wf_induct_rule [OF wf_scan_order])
  case (1 s)
  show ?case
  proof (cases "Kind (fst (next_token fs s)) = tkEof")
    case True
    then show ?thesis by (intro exI [where x = 0]) simp
  next
    case False
    then have "scan_lt (snd (next_token fs s)) s"
      using next_token_ok [of s fs] by (auto simp: next_ok_def split: prod.splits)
    then obtain n where "Kind (fst (next_token fs (after_tokens fs n (snd (next_token fs s))))) = tkEof"
      using 1 by auto
    then show ?thesis by (intro exI [where x = "Suc n"]) simp
  qed
qed

lemma after_tokens_add: "after_tokens fs (n + m) s = after_tokens fs m (after_tokens fs n s)"
  by (induction n arbitrary: s) simp_all

lemma after_tokens_Suc: "after_tokens fs (Suc n) s = snd (next_token fs (after_tokens fs n s))"
  using after_tokens_add [of fs n 1 s] by simp

lemma at_end_after: "at_end s \<Longrightarrow> after_tokens fs n s = s"
  by (induction n) (simp_all add: next_token_at_end)

subsection \<open>Where a scan starts\<close>

lemma scanner_ok_init: "sm_ok sm \<Longrightarrow> scanner_ok (initScanner sm opts)"
  by (simp add: scanner_ok_def initScanner_def buffer_view_def)

lemma scanner_ok_on_buffer:
  assumes "sm_ok sm" "addBuffer sm name tx = (Some fid, sm')" "length paths \<le> 1"
  shows "scanner_ok ((initScanner sm' opts)\<lparr>FID := fid, Text := truncateAtCtrlZ (getBufferData sm' fid) opts,
           OpenIncludePaths := paths\<rparr>)"
proof -
  note A = addBuffer_Some [OF assms(1,2)]
  have "sizeOf sm' fid \<noteq> None" using A(2,3) by (auto simp: sizeOf_def bufferForFile_def)
  moreover have "distinct paths" using assms(3) by (cases paths) auto
  ultimately show ?thesis using A(1) assms(3) by (auto simp: scanner_ok_def initScanner_def buffer_view_def)
qed

lemma scanner_ok_emitError: "scanner_ok s \<Longrightarrow> scanner_ok (emitError l d a s)"
  using keeps_emitError [of s l d a] by (simp add: keeps_def)

lemma scanner_ok_scannerOfBuffer:
  assumes "sm_ok sm"
  shows "scanner_ok (scannerOfBuffer sm name tx opts)"
proof (cases "wouldOverflow sm (length (strip_bom tx))")
  case True
  then show ?thesis using assms scanner_ok_emitError [OF scanner_ok_init]
    by (simp add: scannerOfBuffer_def addBuffer_def Let_def)
next
  case False
  then obtain fid sm' where a: "addBuffer sm name tx = (Some fid, sm')" by (simp add: addBuffer_def Let_def)
  show ?thesis using scanner_ok_on_buffer [OF assms a, of "[]" opts] a by (simp add: scannerOfBuffer_def initScanner_def)
qed

lemma scanner_ok_scannerOfFile:
  assumes "sm_ok sm"
  shows "scanner_ok (scannerOfFile fs sm name opts)"
proof -
  obtain r sm' where a: "addFile sm name (file_size fs name) (file_contents fs name) = (r, sm')" by fastforce
  then show ?thesis
  proof (cases rule: addFile_cases)
    case 1
    then show ?thesis using a assms scanner_ok_emitError [OF scanner_ok_init] by (simp add: scannerOfFile_def)
  next
    case (2 fid)
    then show ?thesis using a scanner_ok_on_buffer [OF assms 2(2), of "[canonicalIdentity fs name]" opts]
      by (simp add: scannerOfFile_def)
  qed
qed

text \<open>A file system with a single file in it.\<close>

definition one_file :: "bytes \<Rightarrow> bytes \<Rightarrow> FileSystem" where
  "one_file name tx = \<lparr>is_regular_file = (\<lambda>p. p = name), canonical = (\<lambda>p. if p = name then Some p else None),
     file_size = (\<lambda>p. if p = name then Some (length tx) else None),
     file_contents = (\<lambda>p. if p = name then Some tx else None), current_path = Some ''/'',
     path_exists = (\<lambda>p. p = name), directory = (\<lambda>d. if d = parent_path name then [name] else [])\<rparr>"

definition plain_opts :: "Standard \<Rightarrow> LangOptions" where
  "plain_opts std = \<lparr>Std = std, OptRangeChecks = False, OptIOChecks = True, OptSwitches = None,
     ModuleSearchPaths = [], IncludeSearchPaths = [], UnitSearchPaths = [], Defines = []\<rparr>"

lemma sm_ok_empty [simp]: "sm_ok emptySourceManager"
  by (simp add: sm_ok_def emptySourceManager_def UINT32_MAX_def)

subsection \<open>Correctness\<close>

text \<open>C11. The token stream is finite, whatever the files contain and however they include one another:
  enough calls of \<open>next()\<close> reach the end of file, and from then on every call answers it again at the
  same place, reports nothing and leaves the state as it is.\<close>

theorem token_stream_finite:
  "\<exists>n e. \<forall>m. after_tokens fs (n + m) s = e \<and> next_token fs e = (make e tkEof [] (Pos e), e)"
proof -
  obtain n where n: "Kind (fst (next_token fs (after_tokens fs n s))) = tkEof" using reaches_eof by blast
  let ?e = "after_tokens fs (Suc n) s"
  have e: "?e = snd (next_token fs (after_tokens fs n s))" by (rule after_tokens_Suc)
  have fin: "at_end ?e"
    using next_token_ok [of "after_tokens fs n s" fs] n unfolding e by (auto simp: next_ok_def split: prod.splits)
  have "after_tokens fs (Suc n + m) s = ?e" for m
    unfolding after_tokens_add [of fs "Suc n"] by (rule at_end_after [OF fin])
  then show ?thesis using next_token_at_end [OF fin] by blast
qed

text \<open>One call of \<open>next()\<close>: it never hands an error token to the parser, keeps the scanner's invariant,
  the options and every report already made, and it either uses up some of a well-founded measure or
  answers end of file with no include and no conditional left open.\<close>

theorem next_token_progress:
  assumes "scanner_ok s" "next_token fs s = (tok, s')"
  shows "scanner_ok s' \<and> Kind tok \<noteq> tkError \<and> Opts s' = Opts s \<and> (\<exists>ds. Diags s' = Diags s @ ds)
       \<and> (if Kind tok = tkEof then IncludeStack s' = [] \<and> CondStack s' = [] else scan_lt s' s)"
  using next_token_ok [of s fs] assms by (auto simp: next_ok_def keeps_def at_end_def split: if_splits)

theorem next_token_progress_witness:
  "\<exists>s tok s'. s = scannerOfBuffer emptySourceManager ''t.pas'' ''{$ifdef X} a {$endif} b'' (plain_opts Turbo)
     \<and> next_token (one_file [] []) s = (tok, s') \<and> scanner_ok s' \<and> Kind tok \<noteq> tkError"
proof -
  let ?s = "scannerOfBuffer emptySourceManager ''t.pas'' ''{$ifdef X} a {$endif} b'' (plain_opts Turbo)"
  obtain tok s' where n: "next_token (one_file [] []) ?s = (tok, s')" by fastforce
  show ?thesis
    using n next_token_progress [OF scanner_ok_scannerOfBuffer [OF sm_ok_empty] n] by blast
qed

text \<open>The invariant of a scan that starts from a file: after any number of tokens every buffer being read
  is a view of a buffer of the source manager with the position inside it, no file is open twice, and the
  table of switch points is sorted.\<close>

theorem scan_invariant:
  assumes "sm_ok sm"
  shows "scanner_ok (after_tokens fs n (scannerOfFile fs sm name opts))
       \<and> distinct (OpenIncludePaths (after_tokens fs n (scannerOfFile fs sm name opts)))"
  using keeps_after_tokens [of "scannerOfFile fs sm name opts" fs n] scanner_ok_scannerOfFile [OF assms, of fs name opts]
  by (auto simp: keeps_def scanner_ok_def)

theorem scan_invariant_witness:
  "scanner_ok (after_tokens (one_file ''/t.pas'' ''{$i t.pas} x'') 3
       (scannerOfFile (one_file ''/t.pas'' ''{$i t.pas} x'') emptySourceManager ''/t.pas'' (plain_opts Turbo)))"
  using scan_invariant [OF sm_ok_empty] by blast

end
