(* ===== verification/Literals.thy ===== *)
theory Literals
  imports Lexer_Props
begin

text \<open>The value of a literal token is the value its digits denote, or the literal is refused; a string
  literal is the text its quotes enclose.\<close>

subsection \<open>Positional notation\<close>

definition num_value :: "int \<Rightarrow> (char \<Rightarrow> int) \<Rightarrow> bytes \<Rightarrow> int \<Rightarrow> int" where
  "num_value base dig cs v = foldl (\<lambda>v c. v * base + dig c) v cs"

lemma num_value_simps [simp]:
  "num_value base dig [] v = v"
  "num_value base dig (c # cs) v = num_value base dig cs (v * base + dig c)"
  "num_value base dig (cs @ [c]) v = num_value base dig cs v * base + dig c"
  by (simp_all add: num_value_def)

lemma num_value_ge:
  assumes "1 \<le> base" "\<And>c. c \<in> set cs \<Longrightarrow> 0 \<le> dig c" "0 \<le> v"
  shows "v \<le> num_value base dig cs v"
  using assms(2,3)
proof (induction cs arbitrary: v)
  case (Cons c cs)
  have "v * 1 \<le> v * base" using assms(1) Cons.prems(2) by (intro mult_left_mono) auto
  then have "v \<le> v * base + dig c" using Cons.prems(1) [of c] by simp
  then show ?case using Cons.IH [of "v * base + dig c"] Cons.prems by simp
qed simp

lemma accumulate_exact:
  assumes "1 \<le> base" "\<And>c. c \<in> set cs \<Longrightarrow> 0 \<le> dig c \<and> dig c \<le> 35" "0 \<le> v" "v \<le> INT64_MAX"
  shows "accumulate base dig cs v = (if num_value base dig cs v \<le> INT64_MAX then Some (num_value base dig cs v) else None)"
  using assms(2-)
proof (induction cs arbitrary: v)
  case (Cons c cs)
  have d: "0 \<le> dig c" "dig c \<le> INT64_MAX" using Cons.prems(1) [of c] by (auto simp: int64_simps)
  note T = mul_guard [OF _ d(2), of base v]
  have "0 \<le> v * base + dig c" using assms(1) Cons.prems(2) d by auto
  moreover from this have "v * base + dig c \<le> num_value base dig cs (v * base + dig c)"
    using num_value_ge [OF assms(1), of cs dig "v * base + dig c"] Cons.prems(1) by auto
  ultimately show ?case using T assms(1) Cons.IH [of "v * base + dig c"] Cons.prems(1) by (auto simp: Let_def)
qed simp

lemma based_digits_exact:
  assumes "2 \<le> base" "\<And>c. c \<in> set cs \<Longrightarrow> 0 \<le> alnum_val c \<and> alnum_val c \<le> 35" "0 \<le> v" "v \<le> INT64_MAX"
  shows "based_digits base cs v = DigitsValue r \<longleftrightarrow>
    (\<forall>c\<in>set cs. alnum_val c < base) \<and> r = num_value base alnum_val cs v \<and> r \<le> INT64_MAX"
  using assms(2-)
proof (induction cs arbitrary: v)
  case (Cons c cs)
  have b: "1 \<le> base" using assms(1) by simp
  have d: "0 \<le> alnum_val c" "alnum_val c \<le> INT64_MAX" using Cons.prems(1) [of c] by (auto simp: int64_simps)
  note T = mul_guard [OF _ d(2), of base v]
  have "0 \<le> v * base + alnum_val c" using assms(1) Cons.prems(2) d by auto
  moreover from this have "v * base + alnum_val c \<le> num_value base alnum_val cs (v * base + alnum_val c)"
    using num_value_ge [OF b, of cs alnum_val "v * base + alnum_val c"] Cons.prems(1) by auto
  ultimately show ?case using T assms(1) Cons.IH [of "v * base + alnum_val c"] Cons.prems(1) by (auto simp: Let_def)
qed auto

text \<open>Decimal text and back.\<close>

lemma dec_digits_value: "num_value 10 digit_val (dec_digits n) 0 = int n"
proof (induction n rule: dec_digits.induct)
  case (1 n)
  show ?case
  proof (cases "n < 10")
    case True
    then show ?thesis by (simp add: dec_digits.simps [of n] digit_val_def)
  next
    case False
    then have "dec_digits n = dec_digits (n div 10) @ [char_of (48 + n mod 10)]" by (subst dec_digits.simps) simp
    moreover have "code_of (char_of (48 + n mod 10)) = 48 + n mod 10" by (rule code_of_char_of) simp
    ultimately show ?thesis using 1 False by (simp add: digit_val_def) presburger
  qed
qed

lemma dec_digits_digits: "c \<in> set (dec_digits n) \<Longrightarrow> isdigit c"
proof (induction n rule: dec_digits.induct)
  case (1 n)
  have d: "k < 10 \<Longrightarrow> isdigit (char_of (48 + k))" for k :: nat by (simp add: isdigit_def)
  show ?case using 1 d [of n] d [of "n mod 10"] by (cases "n < 10") (auto simp: dec_digits.simps [of n] simp del: char_of_take_bit_eq)
qed

lemma to_string_value: "0 \<le> v \<Longrightarrow> num_value 10 digit_val (to_string v) 0 = v \<and> list_all isdigit (to_string v)"
  by (auto simp: to_string_def dec_digits_value list_all_iff dec_digits_digits)

subsection \<open>Runs of characters\<close>

definition is_run :: "(char \<Rightarrow> bool) \<Rightarrow> bytes \<Rightarrow> bytes \<Rightarrow> bool" where
  "is_run p w rest \<longleftrightarrow> list_all p w \<and> (rest = [] \<or> \<not> p (hd rest))"

lemma takeWhile_run: "is_run p w rest \<Longrightarrow> takeWhile p (w @ rest) = w"
  by (cases rest) (auto simp: is_run_def list_all_iff takeWhile_append2)

lemma drop_later: "drop p tx = w @ rest \<Longrightarrow> drop (p + length w) tx = rest"
  by (metis add.commute append_eq_conv_conj drop_drop)

lemma drop_Cons_nth: "drop p tx = c # rest \<Longrightarrow> p < length tx \<and> tx ! p = c \<and> drop (p + 1) tx = rest"
proof -
  assume a: "drop p tx = c # rest"
  then have "p < length tx" by (metis drop_all list.distinct(1) not_le_imp_less)
  then show ?thesis using a drop_later [of p tx "[c]" rest] by (simp add: Cons_nth_drop_Suc [symmetric])
qed

lemma advance_run:
  assumes "drop p tx = w @ rest" "is_run f w rest"
  shows "advance_while f tx p = p + length w" "substr tx p (p + length w) = w"
  using assms takeWhile_run [OF assms(2)] by (simp_all add: advance_while_takeWhile substr_def)

subsection \<open>Strings in quotes\<close>

text \<open>How a string is written: every quote doubled.\<close>

fun quoted :: "bytes \<Rightarrow> bytes" where
  "quoted [] = []"
| "quoted (c # cs) = (if c = CHR 0x27 then [c, c] else [c]) @ quoted cs"

lemma quoted_loop_closes:
  assumes "drop p tx = quoted w @ CHR 0x27 # rest" "LF \<notin> set w" "rest = [] \<or> hd rest \<noteq> CHR 0x27"
  shows "quoted_loop tx p lx = (True, lx @ w, p + length (quoted w) + 1)"
  using assms
proof (induction w arbitrary: p lx)
  case Nil
  then show ?case using drop_Cons_nth [of p tx "CHR 0x27" rest] drop_Cons_nth [of "p + 1" tx "hd rest" "tl rest"]
    by (cases rest) (auto simp: quoted_loop.simps [of tx p])
next
  case (Cons c w)
  note D = drop_Cons_nth [of p tx c]
  show ?case
  proof (cases "c = CHR 0x27")
    case True
    then have d: "drop p tx = CHR 0x27 # CHR 0x27 # quoted w @ CHR 0x27 # rest" using Cons.prems(1) by simp
    note D1 = drop_Cons_nth [OF d]
    note D2 = drop_Cons_nth [OF conjunct2 [OF conjunct2 [OF D1]]]
    then have "quoted_loop tx (p + 2) (lx @ [c]) = (True, (lx @ [c]) @ w, p + 2 + length (quoted w) + 1)"
      using Cons.prems by (intro Cons.IH) auto
    then show ?thesis using D1 D2 True by (simp add: quoted_loop.simps [of tx p])
  next
    case False
    then have d: "drop p tx = c # quoted w @ CHR 0x27 # rest" using Cons.prems(1) by simp
    note D1 = drop_Cons_nth [OF d]
    then have "quoted_loop tx (p + 1) (lx @ [c]) = (True, (lx @ [c]) @ w, p + 1 + length (quoted w) + 1)"
      using Cons.prems by (intro Cons.IH) auto
    then show ?thesis using D1 False Cons.prems(2) by (auto simp: quoted_loop.simps [of tx p])
  qed
qed

subsection \<open>Correctness\<close>

text \<open>C28. A string literal means what was written: any text without a line break, put between quotes with its
  own quotes doubled, scans to one string token whose value is that text, starts at the first quote, and
  ends just past the last, with no report.\<close>

theorem string_literal_roundtrip:
  assumes "drop (Pos s) (Text s) = CHR 0x27 # quoted w @ CHR 0x27 # rest" "LF \<notin> set w"
    and "rest = [] \<or> hd rest \<noteq> CHR 0x27" "turbo (Opts s) \<longrightarrow> rest = [] \<or> hd rest \<noteq> CHR ''#'' \<and> hd rest \<noteq> CHR ''^''"
  shows "scanToken s = (\<lparr>Kind = tkStringLit, Lexeme = w, Loc = locAt s (Pos s)\<rparr>, s\<lparr>Pos := Pos s + length (quoted w) + 2\<rparr>)"
proof -
  note D = drop_Cons_nth [OF assms(1)]
  have q: "quoted_loop (Text s) (Pos s + 1) [] = (True, w, Pos s + length (quoted w) + 2)"
    using quoted_loop_closes [OF conjunct2 [OF conjunct2 [OF D]] assms(2,3), of "[]"] by simp
  let ?s = "s\<lparr>Pos := Pos s + length (quoted w) + 2\<rparr>"
  have "drop (Pos s + length (quoted w) + 2) (Text s) = rest"
    using drop_later [of "Pos s + 1" "Text s" "quoted w @ [CHR 0x27]" rest] D by simp
  then have "\<not> glues ?s"
    using assms(3,4) drop_eq_Nil [of "Pos s + length (quoted w) + 2" "Text s"]
    by (auto simp: glues_def caretLooksLikeControlChar_def hd_drop_conv_nth)
  then have "scan_string_loop [] s = (tkStringLit, w, ?s)"
    using D q by (simp add: scan_string_loop.simps [of "[]"] string_fragment_def scanQuotedFragment_def)
  moreover have "\<not> isalpha (CHR 0x27)" "\<not> isdigit (CHR 0x27)" by code_simp+
  ultimately show ?thesis using D by (simp add: scanToken_def Let_def scanString_def make_def locAt_def)
qed

theorem string_literal_roundtrip_witness:
  "fst (scanToken ((initScanner emptySourceManager (plain_opts ISO7185))
     \<lparr>Text := [CHR 0x27, CHR ''a'', CHR 0x27, CHR 0x27, CHR ''b'', CHR 0x27, CHR '';'']\<rparr>))
     = \<lparr>Kind = tkStringLit, Lexeme = [CHR ''a'', CHR 0x27, CHR ''b''], Loc = 0\<rparr>"
  using string_literal_roundtrip [of "(initScanner emptySourceManager (plain_opts ISO7185))
     \<lparr>Text := [CHR 0x27, CHR ''a'', CHR 0x27, CHR 0x27, CHR ''b'', CHR 0x27, CHR '';'']\<rparr>" "[CHR ''a'', CHR 0x27, CHR ''b'']" "'';''"]
  by (simp add: initScanner_def plain_opts_def turbo_def locAt_def getLocForOffset_def bufferForFile_def emptySourceManager_def)


text \<open>A Turbo hexadecimal literal: the token carries the decimal text of exactly the value its digits
  denote when that fits in 64 signed bits, and otherwise there is an error and no token.\<close>

theorem hex_literal_exact:
  assumes "drop (Pos s) (Text s) = CHR ''$'' # digs @ rest" "is_run isxdigit digs rest" "digs \<noteq> []" "turbo (Opts s)"
  defines "v \<equiv> num_value 16 alnum_val digs 0" and "s1 \<equiv> s\<lparr>Pos := Pos s + 1 + length digs\<rparr>"
  shows "scanToken s = (if v \<le> INT64_MAX then (\<lparr>Kind = tkIntLit, Lexeme = to_string v, Loc = locAt s (Pos s)\<rparr>, s1)
           else (\<lparr>Kind = tkError, Lexeme = digs, Loc = locAt s (Pos s)\<rparr>,
                 emitError (locAt s (Pos s)) err_hex_literal_out_of_range [] s1))
       \<and> num_value 10 digit_val (to_string v) 0 = v"
proof -
  note D = drop_Cons_nth [OF assms(1)]
  note R = advance_run [OF conjunct2 [OF conjunct2 [OF D]] assms(2)]
  have b: "0 \<le> alnum_val c \<and> alnum_val c \<le> 35" if "c \<in> set digs" for c
    using assms(2) that alnum_val_bounds [of c] by (auto simp: is_run_def list_all_iff cclass)
  have "accumulate 16 alnum_val digs 0 = (if v \<le> INT64_MAX then Some v else None)"
    unfolding v_def using b by (intro accumulate_exact) (auto simp: int64_simps)
  moreover have "0 \<le> v" unfolding v_def using num_value_ge [of 16 digs alnum_val 0] b by auto
  moreover have "\<not> isalpha (CHR ''$'')" "\<not> isdigit (CHR ''$'')" by code_simp+
  ultimately show ?thesis
    using D R assms(3,4) to_string_value [of v]
    by (simp add: scanToken_def scanHexLiteral_def Let_def make_def locAt_def s1_def)
qed

theorem hex_literal_exact_witness:
  "Kind (fst (scanToken ((initScanner emptySourceManager (plain_opts Turbo))\<lparr>Text := ''$fF;''\<rparr>))) = tkIntLit
   \<and> num_value 16 alnum_val ''fF'' 0 = 255"
  using hex_literal_exact [of "(initScanner emptySourceManager (plain_opts Turbo))\<lparr>Text := ''$fF;''\<rparr>" "''fF''" "'';''"]
  by (simp add: initScanner_def plain_opts_def turbo_def is_run_def alnum_val_def cclass code_of_def int64_simps)


text \<open>An Extended Pascal literal \<open>base#digits\<close> with a base of 2 to 36 yields an integer token exactly
  when every digit is below the base and the value fits in 64 signed bits, and the token then carries the
  decimal text of that value; otherwise there is an error.\<close>

theorem nondecimal_literal_exact:
  assumes "drop (Pos s) (Text s) = bs @ CHR ''#'' # digs @ rest" "list_all isdigit bs" "bs \<noteq> []"
    and "is_run isalnum digs rest" "digs \<noteq> []" "extendedPascal (Opts s)"
  defines "base \<equiv> num_value 10 digit_val bs 0" and "v \<equiv> num_value (num_value 10 digit_val bs 0) alnum_val digs 0"
  assumes "2 \<le> base" "base \<le> 36" "scanToken s = (tok, s')"
  shows "(if list_all (\<lambda>c. alnum_val c < base) digs \<and> v \<le> INT64_MAX
          then Kind tok = tkIntLit \<and> Lexeme tok = to_string v \<and> Diags s' = Diags s
          else Kind tok = tkError \<and> length (Diags s') = length (Diags s) + 1)
       \<and> Pos s' = Pos s + length bs + 1 + length digs"
proof -
  have run: "is_run isdigit bs (CHR ''#'' # digs @ rest)" using assms(2) by (auto simp: is_run_def isdigit_def code_of_def)
  note R = advance_run [OF assms(1) run]
  note D = drop_Cons_nth [OF drop_later [OF assms(1)]]
  note R2 = advance_run [OF conjunct2 [OF conjunct2 [OF D]] assms(4)]
  obtain c cs where bs: "bs = c # cs" using assms(3) by (cases bs) auto
  have c: "Text s ! Pos s = c" "isdigit c" "\<not> isalpha c" "c \<noteq> CHR ''_''"
    using drop_Cons_nth [of "Pos s" "Text s" c] assms(1,2) bs by (auto simp: cclass code_of_def)
  have "accumulate 10 digit_val bs 0 = Some base"
    using accumulate_exact [of 10 bs digit_val 0] assms(2,9,10) digit_val_bounds
    by (fastforce simp: base_def list_all_iff int64_simps)
  moreover have b: "0 \<le> alnum_val c \<and> alnum_val c \<le> 35" if "c \<in> set digs" for c
    using assms(4) that alnum_val_bounds [of c] by (auto simp: is_run_def list_all_iff)
  note B = based_digits_exact [OF assms(9), of digs 0]
  have bd: "based_digits base digs 0 = DigitsValue r \<longleftrightarrow> list_all (\<lambda>c. alnum_val c < base) digs \<and> r = v \<and> v \<le> INT64_MAX" for r
    using B [of r] b by (auto simp: v_def base_def list_all_iff int64_simps)
  have "case based_digits base digs 0 of
          DigitsValue r \<Rightarrow> list_all (\<lambda>c. alnum_val c < base) digs \<and> v \<le> INT64_MAX \<and> to_string r = to_string v
        | _ \<Rightarrow> \<not> (list_all (\<lambda>c. alnum_val c < base) digs \<and> v \<le> INT64_MAX)"
    using bd by (cases "based_digits base digs 0") (auto, metis)
  ultimately show ?thesis
    using c D R R2 assms(5,6,9-11)
    by (auto simp: scanToken_def scanNumber_def scanNondecimal_def Let_def make_def split: digits_result.splits)
qed

theorem nondecimal_literal_exact_witness:
  "Kind (fst (scanToken ((initScanner emptySourceManager (plain_opts ISO10206))\<lparr>Text := ''16#fF;''\<rparr>))) = tkIntLit
   \<and> Kind (fst (scanToken ((initScanner emptySourceManager (plain_opts ISO10206))\<lparr>Text := ''8#9;''\<rparr>))) = tkError"
proof -
  let ?s = "\<lambda>tx. (initScanner emptySourceManager (plain_opts ISO10206))\<lparr>Text := tx\<rparr>"
  note d = initScanner_def plain_opts_def extendedPascal_def is_run_def alnum_val_def digit_val_def cclass code_of_def int64_simps
  obtain tok s' where "scanToken (?s ''16#fF;'') = (tok, s')" by fastforce
  moreover from this have "Kind tok = tkIntLit"
    using nondecimal_literal_exact [of "?s ''16#fF;''" "''16''" "''fF''" "'';''" tok s'] by (simp add: d)
  moreover obtain tok2 s2 where "scanToken (?s ''8#9;'') = (tok2, s2)" by fastforce
  moreover from this have "Kind tok2 = tkError"
    using nondecimal_literal_exact [of "?s ''8#9;''" "''8''" "''9''" "'';''" tok2 s2] by (simp add: d)
  ultimately show ?thesis by simp
qed


end
