(* ===== verification/Val_Parse.thy ===== *)
theory Val_Parse
  imports Literals
begin

text \<open>
  Turbo's \<open>Val\<close>, \<^verbatim>\<open>runtime/plang_val.cpp\<close>: text to number with a position instead of a run-time error.
  The two results are a pair, the value and the code (0, or the 1-based place of the first character that
  does not fit).  A null pointer reads as the empty text.  The real form answers the span it hands to
  \<^verbatim>\<open>strtod\<close>, which converts it.
\<close>

definition isValSpace :: "char \<Rightarrow> bool" where
  "isValSpace c \<longleftrightarrow> c = CHR '' '' \<or> c = CHR 0x09 \<or> c = CHR 0x0D \<or> c = CHR 0x0A"

definition valDigit :: "char \<Rightarrow> int \<Rightarrow> int" where
  "valDigit c radix =
     (if isdigit c then (let d = int (code_of c) - 48 in if d < radix then d else -1)
      else if islower c then (let d = int (code_of c) - 97 + 10 in if d < radix then d else -1)
      else if isupper c then (let d = int (code_of c) - 65 + 10 in if d < radix then d else -1)
      else -1)"

text \<open>The sign: where the scan goes on, or the refusal of a minus by an unsigned destination.\<close>

definition val_sign :: "bytes \<Rightarrow> bool \<Rightarrow> nat \<Rightarrow> (int \<times> nat) option" where
  "val_sign Data IsUnsigned pos =
     (if pos < length Data \<and> (Data ! pos = CHR ''+'' \<or> Data ! pos = CHR ''-'') then
        (if Data ! pos = CHR ''-'' then (if IsUnsigned then None else Some (-1, pos + 1)) else Some (1, pos + 1))
      else Some (1, pos))"

definition val_radix :: "bytes \<Rightarrow> nat \<Rightarrow> int \<times> nat" where
  "val_radix Data pos =
     (if pos < length Data then
        (if Data ! pos = CHR ''$'' then (16, pos + 1)
         else if Data ! pos = CHR ''x'' \<or> Data ! pos = CHR ''X'' then (16, pos + 1)
         else if Data ! pos = CHR ''0'' \<and> pos + 1 < length Data \<and> (Data ! (pos + 1) = CHR ''x'' \<or> Data ! (pos + 1) = CHR ''X'')
           then (16, pos + 2)
         else if Data ! pos = CHR ''&'' then (8, pos + 1)
         else if Data ! pos = CHR ''%'' then (2, pos + 1)
         else (10, pos))
      else (10, pos))"

text \<open>The digit loop: the magnitude, the place of the first overflow, and where it stopped.\<close>

function val_digits :: "bytes \<Rightarrow> int \<Rightarrow> nat \<Rightarrow> 64 word \<Rightarrow> nat option \<Rightarrow> 64 word \<times> nat option \<times> nat" where
  "val_digits Data radix pos mag overflowAt =
     (if pos < length Data then
        (let d = valDigit (Data ! pos) radix in
         if d < 0 then (mag, overflowAt, pos)
         else if overflowAt = None then
           (let ud = word_of_int d; ur = word_of_int radix in
            if mag > (word_of_int INT64_MAX - ud) div ur then val_digits Data radix (pos + 1) mag (Some pos)
            else val_digits Data radix (pos + 1) (mag * ur + ud) overflowAt)
         else val_digits Data radix (pos + 1) mag overflowAt)
      else (mag, overflowAt, pos))"
  by pat_completeness auto
termination
  by (relation "measure (\<lambda>(Data, radix, pos, mag, ov). length Data - pos)") auto

declare val_digits.simps [simp del]

definition plang_val_parse_int :: "bytes option \<Rightarrow> bool \<Rightarrow> int \<times> nat" where
  "plang_val_parse_int Ptr IsUnsigned =
     (let Data = (case Ptr of None \<Rightarrow> [] | Some d \<Rightarrow> d); pos0 = advance_while isValSpace Data 0 in
      case val_sign Data IsUnsigned pos0 of
        None \<Rightarrow> (0, pos0 + 2)
      | Some (sg, pos1) \<Rightarrow>
          (case val_radix Data pos1 of (radix, digitsStart) \<Rightarrow>
             (case val_digits Data radix digitsStart 0 None of (mag, overflowAt, pos) \<Rightarrow>
                (case overflowAt of
                   Some p \<Rightarrow> (0, p + 1)
                 | None \<Rightarrow>
                     (if pos = digitsStart then (0, pos + 1)
                      else if pos \<noteq> length Data then (0, pos + 1)
                      else (if sg < 0 then - uint mag else uint mag, 0))))))"

text \<open>
  The scan of a real literal.  \<^verbatim>\<open>strtod\<close> converts the span, and \<open>malloc\<close> says whether a buffer of that many bytes can
  be had: only a span of 64 characters and more asks for one.
\<close>

definition real_span :: "bytes \<Rightarrow> nat \<Rightarrow> nat + nat" where
  "real_span Data start =
     (let intStart = (if start < length Data \<and> (Data ! start = CHR ''+'' \<or> Data ! start = CHR ''-'') then start + 1 else start);
          p1 = advance_while isdigit Data intStart; hadInt = (p1 > intStart);
          dot = (p1 < length Data \<and> Data ! p1 = CHR ''.'');
          p2 = (if dot then advance_while isdigit Data (p1 + 1) else p1); hadFrac = (dot \<and> p2 > p1 + 1) in
      if \<not> hadInt \<and> \<not> hadFrac then Inl (p2 + 1)
      else
        (let expo = (p2 < length Data \<and> (Data ! p2 = CHR ''e'' \<or> Data ! p2 = CHR ''E''));
             q = p2 + 1;
             expStart = (if q < length Data \<and> (Data ! q = CHR ''+'' \<or> Data ! q = CHR ''-'') then q + 1 else q);
             p3 = (if expo then advance_while isdigit Data expStart else p2) in
         if expo \<and> p3 = expStart then Inl (p3 + 1)
         else if p3 \<noteq> length Data then Inl (p3 + 1)
         else Inr p3))"

definition plang_val_parse_real :: "(bytes \<Rightarrow> 'r) \<Rightarrow> (nat \<Rightarrow> bool) \<Rightarrow> bytes option \<Rightarrow> ('r::zero) \<times> nat" where
  "plang_val_parse_real strtod malloc Ptr =
     (let Data = (case Ptr of None \<Rightarrow> [] | Some d \<Rightarrow> d); start = advance_while isValSpace Data 0 in
      case real_span Data start of
        Inl code \<Rightarrow> (0, code)
      | Inr pos \<Rightarrow>
          (let n = pos - start in
           if n \<ge> 64 \<and> \<not> malloc (n + 1) then (0, 1) else (strtod (substr Data start pos), 0)))"

subsection \<open>The digit loop\<close>

abbreviation val_run :: "int \<Rightarrow> bytes \<Rightarrow> bytes" where
  "val_run radix \<equiv> takeWhile (\<lambda>c. 0 \<le> valDigit c radix)"

lemma valDigit_less: "0 \<le> valDigit c radix \<Longrightarrow> valDigit c radix < radix"
  by (auto simp: valDigit_def Let_def split: if_splits)

lemma val_digits_overflowed:
  "val_digits Data radix pos mag (Some p) = (mag, Some p, pos + length (val_run radix (drop pos Data)))"
proof (induction "length Data - pos" arbitrary: pos)
  case 0
  then show ?case by (simp add: val_digits.simps [of Data radix pos])
next
  case (Suc n)
  then have "pos < length Data" "val_digits Data radix (pos + 1) mag (Some p) =
    (mag, Some p, pos + 1 + length (val_run radix (drop (pos + 1) Data)))" by auto
  then show ?case
    by (auto simp: val_digits.simps [of Data radix pos] Cons_nth_drop_Suc [symmetric] Let_def simp del: drop_Suc)
qed

lemma val_guard:
  assumes "0 \<le> d" "d < r" "r \<le> 16" "uint (mag :: 64 word) \<le> INT64_MAX"
  shows "mag > (word_of_int INT64_MAX - word_of_int d) div word_of_int r \<longleftrightarrow> \<not> uint mag * r + d \<le> INT64_MAX"
    "uint mag * r + d \<le> INT64_MAX \<Longrightarrow> uint (mag * word_of_int r + word_of_int d) = uint mag * r + d"
proof -
  have w: "0 \<le> x \<Longrightarrow> x \<le> INT64_MAX \<Longrightarrow> uint (word_of_int x :: 64 word) = x" for x
    by (simp add: uint_word_of_int int64_simps)
  have sub: "word_of_int INT64_MAX - word_of_int d = (word_of_int (INT64_MAX - d) :: 64 word)" by simp
  have u: "uint ((word_of_int INT64_MAX - word_of_int d) div word_of_int r :: 64 word) = (INT64_MAX - d) div r"
    unfolding sub uint_div using assms w [of "INT64_MAX - d"] w [of r] by (simp add: int64_simps)
  show "mag > (word_of_int INT64_MAX - word_of_int d) div word_of_int r \<longleftrightarrow> \<not> uint mag * r + d \<le> INT64_MAX"
    unfolding word_less_def u using le_zdiv_iff [of r "uint mag" "INT64_MAX - d"] assms by auto
  have "mag * word_of_int r + word_of_int d = word_of_int (uint mag * r + d)" by simp
  then show "uint mag * r + d \<le> INT64_MAX \<Longrightarrow> uint (mag * word_of_int r + word_of_int d) = uint mag * r + d"
    using w [of "uint mag * r + d"] assms by simp
qed

lemma val_digits_exact:
  fixes Data :: bytes
  assumes "2 \<le> radix" "radix \<le> 16" "uint mag \<le> INT64_MAX"
  defines "w \<equiv> \<lambda>pos. val_run radix (drop pos Data)"
  defines "tot \<equiv> \<lambda>pos k m. num_value radix (\<lambda>c. valDigit c radix) (take k (w pos)) m"
  shows "if tot pos (length (w pos)) (uint mag) \<le> INT64_MAX
    then val_digits Data radix pos mag None = (word_of_int (tot pos (length (w pos)) (uint mag)), None, pos + length (w pos))
    else \<exists>m k. val_digits Data radix pos mag None = (m, Some (pos + k), pos + length (w pos)) \<and> k < length (w pos)
           \<and> tot pos k (uint mag) \<le> INT64_MAX \<and> INT64_MAX < tot pos (Suc k) (uint mag)"
  using assms(3)
proof (induction "length Data - pos" arbitrary: pos mag)
  case 0
  then show ?case by (simp add: val_digits.simps [of Data radix pos] w_def tot_def)
next
  case (Suc n)
  let ?d = "valDigit (Data ! pos) radix"
  have lt: "pos < length Data" using Suc.hyps(2) by simp
  then have dr: "drop pos Data = Data ! pos # drop (pos + 1) Data" by (simp add: Cons_nth_drop_Suc)
  show ?case
  proof (cases "0 \<le> ?d")
    case False
    then show ?thesis using lt Suc.prems by (simp add: val_digits.simps [of Data radix pos] w_def tot_def dr Let_def)
  next
    case True
    note G = val_guard [OF True valDigit_less [OF True] assms(2) Suc.prems]
    have w: "w pos = Data ! pos # w (pos + 1)" using True by (simp add: w_def dr)
    have step: "tot pos (Suc k) (uint mag) = tot (pos + 1) k (uint mag * radix + ?d)" for k
      by (simp add: tot_def w)
    have nonneg: "0 \<le> uint mag * radix + ?d" using True assms(1) by auto
    show ?thesis
    proof (cases "uint mag * radix + ?d \<le> INT64_MAX")
      case fits: True
      let ?m = "mag * word_of_int radix + word_of_int ?d"
      have e: "val_digits Data radix pos mag None = val_digits Data radix (pos + 1) ?m None"
        using lt True G(1) fits by (simp add: val_digits.simps [of Data radix pos] Let_def)
      have "n = length Data - (pos + 1)" using Suc.hyps(2) by simp
      note IH = Suc.hyps(1) [OF this, of ?m, unfolded G(2) [OF fits], OF fits]
      show ?thesis
      proof (cases "tot (pos + 1) (length (w (pos + 1))) (uint mag * radix + ?d) \<le> INT64_MAX")
        case ok: True
        then show ?thesis using IH by (simp add: e w step)
      next
        case False
        then obtain m k where "val_digits Data radix (pos + 1) ?m None = (m, Some (pos + 1 + k), pos + 1 + length (w (pos + 1)))"
          "k < length (w (pos + 1))" "tot (pos + 1) k (uint mag * radix + ?d) \<le> INT64_MAX"
          "INT64_MAX < tot (pos + 1) (Suc k) (uint mag * radix + ?d)" using IH by auto
        then show ?thesis using False by (auto simp: e w step intro!: exI [of _ "Suc k"])
      qed
    next
      case over: False
      then have e: "val_digits Data radix pos mag None = (mag, Some pos, pos + length (w pos))"
        using lt True G(1) val_digits_overflowed [of Data radix "pos + 1" mag pos]
        by (simp add: val_digits.simps [of Data radix pos] Let_def w) (simp add: w_def)
      have "\<And>c. c \<in> set (w (pos + 1)) \<Longrightarrow> 0 \<le> valDigit c radix" by (auto simp: w_def dest: set_takeWhileD)
      then have "uint mag * radix + ?d \<le> tot (pos + 1) (length (w (pos + 1))) (uint mag * radix + ?d)"
        unfolding tot_def using assms(1) nonneg by (intro num_value_ge) auto
      then have "\<not> tot pos (length (w pos)) (uint mag) \<le> INT64_MAX" using over by (simp add: w step)
      moreover have "tot pos 0 (uint mag) \<le> INT64_MAX" "INT64_MAX < tot pos (Suc 0) (uint mag)"
        using Suc.prems over by (simp_all add: step) (simp_all add: tot_def)
      ultimately show ?thesis using e by (auto simp: w intro!: exI [of _ 0])
    qed
  qed
qed

subsection \<open>The grammar\<close>

definition val_prefixes :: "(bytes \<times> int) set" where
  "val_prefixes = {('''', 10), (''$'', 16), (''x'', 16), (''X'', 16), (''0x'', 16), (''0X'', 16), (''&'', 8), (''%'', 2)}"

text \<open>What the text of an integer is, and the number it denotes.\<close>

definition val_text :: "bool \<Rightarrow> bytes \<Rightarrow> int \<Rightarrow> bool" where
  "val_text IsUnsigned Data v \<longleftrightarrow>
     (\<exists>blanks sg prefix radix ds.
        Data = blanks @ sg @ prefix @ ds \<and> list_all isValSpace blanks
        \<and> sg \<in> {'''', ''+'', ''-''} \<and> (IsUnsigned \<longrightarrow> sg \<noteq> ''-'') \<and> (prefix, radix) \<in> val_prefixes
        \<and> ds \<noteq> [] \<and> list_all (\<lambda>c. 0 \<le> valDigit c radix) ds
        \<and> num_value radix (\<lambda>c. valDigit c radix) ds 0 \<le> INT64_MAX
        \<and> v = (if sg = ''-'' then - num_value radix (\<lambda>c. valDigit c radix) ds 0 else num_value radix (\<lambda>c. valDigit c radix) ds 0))"

lemma drop_one: "p < length Data \<Longrightarrow> drop p Data = [Data ! p] @ drop (p + 1) Data"
  by (simp add: Cons_nth_drop_Suc)

lemma drop_prefix_le: "p \<le> length xs \<Longrightarrow> drop p xs = s @ rest \<Longrightarrow> p + length s \<le> length xs"
  by (metis add_le_cancel_left diff_add_inverse le_add1 le_add_diff_inverse length_append length_drop)

lemma drop_two: "p + 1 < length Data \<Longrightarrow> drop p Data = [Data ! p, Data ! (p + 1)] @ drop (p + 2) Data"
  by (simp add: Cons_nth_drop_Suc)

lemma val_sign_sound:
  assumes "val_sign Data u p = Some (k, q)"
  shows "\<exists>sg. drop p Data = sg @ drop q Data \<and> q = p + length sg \<and> sg \<in> {'''', ''+'', ''-''} \<and> (u \<longrightarrow> sg \<noteq> ''-'')
    \<and> (k < 0 \<longleftrightarrow> sg = ''-'')"
proof (cases "p < length Data \<and> (Data ! p = CHR ''+'' \<or> Data ! p = CHR ''-'')")
  case True
  then have "drop p Data = [Data ! p] @ drop q Data" "q = p + 1" "u \<longrightarrow> Data ! p \<noteq> CHR ''-''" "k < 0 \<longleftrightarrow> Data ! p = CHR ''-''"
    using assms drop_one [of p Data] by (auto simp: val_sign_def split: if_splits)
  then show ?thesis using True by (intro exI [of _ "[Data ! p]"]) auto
next
  case False
  then show ?thesis using assms by (auto simp: val_sign_def)
qed

lemma val_radix_sound:
  assumes "val_radix Data p = (radix, q)"
  shows "\<exists>pre. drop p Data = pre @ drop q Data \<and> q = p + length pre \<and> (pre, radix) \<in> val_prefixes"
proof -
  have "(q = p \<and> radix = 10) \<or> (p < length Data \<and> q = p + 1 \<and> ([Data ! p], radix) \<in> val_prefixes)
    \<or> (p + 1 < length Data \<and> q = p + 2 \<and> ([Data ! p, Data ! (p + 1)], radix) \<in> val_prefixes)"
    using assms by (auto simp: val_radix_def val_prefixes_def split: if_splits)
  then consider "q = p" "radix = 10" | "p < length Data" "q = p + 1" "([Data ! p], radix) \<in> val_prefixes"
    | "p + 1 < length Data" "q = p + 2" "([Data ! p, Data ! (p + 1)], radix) \<in> val_prefixes" by blast
  then show ?thesis
  proof cases
    case 1
    then show ?thesis by (intro exI [of _ "[]"]) (simp add: val_prefixes_def)
  next
    case 2
    then show ?thesis using drop_one [of p Data] by (intro exI [of _ "[Data ! p]"]) simp
  next
    case 3
    then show ?thesis using drop_two [of p Data] by (intro exI [of _ "[Data ! p, Data ! (p + 1)]"]) simp
  qed
qed

lemma val_sign_complete:
  assumes "drop p Data = sg @ c # rest" "c \<notin> {CHR ''+'', CHR ''-''}" "sg \<in> {'''', ''+'', ''-''}" "u \<longrightarrow> sg \<noteq> ''-''"
  shows "val_sign Data u p = Some (if sg = ''-'' then -1 else 1, p + length sg)"
  using assms drop_Cons_nth [of p Data] by (auto simp: val_sign_def)

lemma valDigit_alnum: "0 \<le> valDigit c radix \<Longrightarrow> isalnum c"
  by (auto simp: valDigit_def cclass Let_def split: if_splits)

lemma valDigit_decimal: "0 \<le> valDigit c 10 \<Longrightarrow> isdigit c"
  by (auto simp: valDigit_def cclass Let_def split: if_splits)

lemma val_radix_complete:
  assumes "drop p Data = pre @ ds" "(pre, radix) \<in> val_prefixes" "ds \<noteq> []" "list_all (\<lambda>c. 0 \<le> valDigit c radix) ds"
  shows "val_radix Data p = (radix, p + length pre)"
proof (cases "pre = []")
  case True
  then have r: "radix = 10" using assms(2) by (auto simp: val_prefixes_def)
  obtain d ds' where ds: "ds = d # ds'" using assms(3) by (cases ds) auto
  then have D: "p < length Data" "Data ! p = d" "drop (p + 1) Data = ds'" using assms(1) True drop_Cons_nth [of p Data d ds'] by auto
  have dig: "isdigit c" if "c \<in> set ds" for c using assms(4) that r valDigit_decimal by (auto simp: list_all_iff)
  have "isdigit (Data ! (p + 1))" if "p + 1 < length Data"
  proof -
    have "drop (p + 1) Data \<noteq> []" using that by simp
    then have "Data ! (p + 1) \<in> set ds'" using D(3) hd_drop_conv_nth [OF that] by (metis list.set_sel(1))
    then show ?thesis using dig ds by simp
  qed
  then show ?thesis using dig [of d] True r D(1,2) ds
    by (auto simp: val_radix_def) (auto simp: cclass code_of_def)
next
  case False
  then show ?thesis using assms(1,2) drop_Cons_nth [of p Data "hd pre" "tl pre @ ds"] drop_Cons_nth [of "p + 1" Data "hd (tl pre)" "tl (tl pre) @ ds"]
    by (auto simp: val_prefixes_def val_radix_def)
qed

lemma val_radix_range: "(pre, radix) \<in> val_prefixes \<Longrightarrow> 2 \<le> radix \<and> radix \<le> 16"
  by (auto simp: val_prefixes_def)

text \<open>The three stages of a scan, and what the digit loop makes of the rest.\<close>

lemma val_stages:
  assumes "val_sign Data u (advance_while isValSpace Data 0) = Some (k, q)" "val_radix Data q = (radix, r)"
  obtains blanks sg pre where "Data = blanks @ sg @ pre @ drop r Data" "list_all isValSpace blanks"
    "sg \<in> {'''', ''+'', ''-''}" "u \<longrightarrow> sg \<noteq> ''-''" "k < 0 \<longleftrightarrow> sg = ''-''" "(pre, radix) \<in> val_prefixes" "r \<le> length Data"
proof -
  let ?p = "advance_while isValSpace Data 0"
  obtain sg where sg: "drop ?p Data = sg @ drop q Data" "q = ?p + length sg" "sg \<in> {'''', ''+'', ''-''}" "u \<longrightarrow> sg \<noteq> ''-''"
    "k < 0 \<longleftrightarrow> sg = ''-''" using val_sign_sound [OF assms(1)] by blast
  obtain pre where pre: "drop q Data = pre @ drop r Data" "r = q + length pre" "(pre, radix) \<in> val_prefixes"
    using val_radix_sound [OF assms(2)] by blast
  have p: "?p \<le> length Data" by (rule advance_while_le) simp
  then have q: "q \<le> length Data" using drop_prefix_le [OF _ sg(1)] sg(2) by simp
  then have "r \<le> length Data" using drop_prefix_le [OF _ pre(1)] pre(2) by simp
  moreover have "Data = takeWhile isValSpace Data @ sg @ pre @ drop r Data"
    using sg(1) pre(1) append_take_drop_id [of ?p Data]
    by (simp add: advance_while_takeWhile takeWhile_eq_take [symmetric])
  ultimately show ?thesis using that [of "takeWhile isValSpace Data" sg pre] sg pre
    by (auto simp: list_all_iff dest: set_takeWhileD)
qed

lemma val_parse_sound:
  assumes "plang_val_parse_int (Some Data) u = (v, code)"
  shows "if code = 0 then val_text u Data v else v = 0 \<and> code \<le> length Data + 1"
proof -
  let ?p = "advance_while isValSpace Data 0"
  have p: "?p \<le> length Data" by (rule advance_while_le) simp
  show ?thesis
  proof (cases "val_sign Data u ?p")
    case None
    then have "?p < length Data" by (auto simp: val_sign_def split: if_splits)
    then show ?thesis using None assms by (auto simp: plang_val_parse_int_def)
  next
    case (Some kq)
    obtain k q where kq: "kq = (k, q)" by fastforce
    obtain radix r where rr: "val_radix Data q = (radix, r)" by fastforce
    obtain blanks sg pre where st: "Data = blanks @ sg @ pre @ drop r Data" "list_all isValSpace blanks"
      "sg \<in> {'''', ''+'', ''-''}" "u \<longrightarrow> sg \<noteq> ''-''" "k < 0 \<longleftrightarrow> sg = ''-''" "(pre, radix) \<in> val_prefixes" "r \<le> length Data"
      using val_stages [OF Some [unfolded kq] rr] by blast
    let ?w = "val_run radix (drop r Data)" and ?dig = "\<lambda>c. valDigit c radix"
    let ?n = "num_value radix ?dig ?w 0"
    have len: "r + length ?w \<le> length Data" using st(7) length_takeWhile_le [of "\<lambda>c. 0 \<le> ?dig c" "drop r Data"] by simp
    note X = val_digits_exact [of radix 0 r Data, simplified]
    show ?thesis
    proof (cases "?n \<le> INT64_MAX")
      case False
      then obtain m k' where "val_digits Data radix r 0 None = (m, Some (r + k'), r + length ?w)" "k' < length ?w"
        using X val_radix_range [OF st(6)] by (auto simp: int64_simps)
      then show ?thesis using assms Some kq rr len by (auto simp: plang_val_parse_int_def)
    next
      case True
      then have e: "val_digits Data radix r 0 None = (word_of_int ?n, None, r + length ?w)"
        using X val_radix_range [OF st(6)] by (auto simp: int64_simps)
      have ge: "0 \<le> ?n" using val_radix_range [OF st(6)] by (intro num_value_ge) (auto dest: set_takeWhileD)
      then have u: "uint (word_of_int ?n :: 64 word) = ?n" using True by (simp add: uint_word_of_int int64_simps)
      show ?thesis
      proof (cases "?w \<noteq> [] \<and> r + length ?w = length Data")
        case False
        then show ?thesis using assms Some kq rr len e by (auto simp: plang_val_parse_int_def split: if_splits)
      next
        case w: True
        then have "length ?w = length (drop r Data)" by auto
        then have all: "?w = drop r Data" by (metis takeWhile_eq_take take_all order_refl)
        have res: "v = (if sg = ''-'' then - ?n else ?n)" "code = 0"
          using assms Some kq rr e u w st(5) by (auto simp: plang_val_parse_int_def split: if_splits)
        have "list_all (\<lambda>c. 0 \<le> ?dig c) ?w" by (auto simp: list_all_iff dest: set_takeWhileD)
        moreover have "Data = blanks @ sg @ pre @ ?w" unfolding all by (rule st(1))
        ultimately have "val_text u Data v" unfolding val_text_def
          using st(2-4) st(6) conjunct1 [OF w] True res(1) by (intro exI conjI) assumption+
        then show ?thesis using res(2) by simp
      qed
    qed
  qed
qed

lemma val_parse_complete:
  assumes "val_text u Data v"
  shows "plang_val_parse_int (Some Data) u = (v, 0)"
proof -
  obtain blanks sg pre radix ds where t: "Data = blanks @ sg @ pre @ ds" "list_all isValSpace blanks"
    "sg \<in> {'''', ''+'', ''-''}" "u \<longrightarrow> sg \<noteq> ''-''" "(pre, radix) \<in> val_prefixes" "ds \<noteq> []"
    "list_all (\<lambda>c. 0 \<le> valDigit c radix) ds" "num_value radix (\<lambda>c. valDigit c radix) ds 0 \<le> INT64_MAX"
    "v = (if sg = ''-'' then - num_value radix (\<lambda>c. valDigit c radix) ds 0 else num_value radix (\<lambda>c. valDigit c radix) ds 0)"
    using assms unfolding val_text_def by blast
  let ?n = "num_value radix (\<lambda>c. valDigit c radix) ds 0" and ?p = "length blanks"
  obtain c rest where c: "pre @ ds = c # rest" using t(6) by (cases "pre @ ds") auto
  have "c \<in> {CHR ''$'', CHR ''x'', CHR ''X'', CHR ''0'', CHR ''&'', CHR ''%''} \<or> isalnum c"
  proof (cases "pre = []")
    case True
    then show ?thesis using c t(7) valDigit_alnum [of c radix] by simp
  next
    case False
    then show ?thesis using c t(5) by (auto simp: val_prefixes_def)
  qed
  then have cn: "c \<notin> {CHR ''+'', CHR ''-''}" "\<not> isValSpace c" by (auto simp: isValSpace_def cclass code_of_def)
  have "is_run isValSpace blanks (sg @ pre @ ds)"
    using t(2,3) cn c by (auto simp: is_run_def isValSpace_def)
  then have sp: "advance_while isValSpace Data 0 = ?p" using advance_run(1) [of 0 Data blanks "sg @ pre @ ds"] t(1) by simp
  have sg: "val_sign Data u ?p = Some (if sg = ''-'' then -1 else 1, ?p + length sg)"
    by (rule val_sign_complete [OF _ cn(1) t(3,4)]) (simp add: t(1) c)
  have pre: "val_radix Data (?p + length sg) = (radix, ?p + length sg + length pre)"
    by (rule val_radix_complete [OF _ t(5-7)]) (simp add: t(1))
  have run: "val_run radix (drop (?p + length sg + length pre) Data) = ds"
    using t(7) by (simp add: t(1) list_all_iff takeWhile_eq_all_conv)
  have d: "val_digits Data radix (?p + length sg + length pre) 0 None = (word_of_int ?n, None, length Data)"
    using val_digits_exact [of radix 0 "?p + length sg + length pre" Data, unfolded run] val_radix_range [OF t(5)] t(8)
    by (auto simp: int64_simps t(1))
  have "0 \<le> ?n" using val_radix_range [OF t(5)] t(7) by (intro num_value_ge) (auto simp: list_all_iff)
  then have "uint (word_of_int ?n :: 64 word) = ?n" using t(8) by (simp add: uint_word_of_int int64_simps)
  moreover have "?p + length sg + length pre \<noteq> length Data" using t(6) by (simp add: t(1))
  ultimately show ?thesis by (simp add: plang_val_parse_int_def sp sg pre d t(9))
qed

subsection \<open>Correctness\<close>

text \<open>C33. \<open>Val\<close> is exact.  The code is 0 precisely when the whole text is blanks, an optional sign (no minus for an
  unsigned destination), an optional radix prefix and digits of that radix whose magnitude is within
  \<open>INT64_MAX\<close>, and then the value is the number written; otherwise the value is 0 and the code is a place
  of the text, 1-based, or the one after its end.\<close>

theorem val_parse_int_exact:
  "(plang_val_parse_int (Some Data) u = (v, 0) \<longleftrightarrow> val_text u Data v)
   \<and> (case plang_val_parse_int (Some Data) u of (n, code) \<Rightarrow> code \<noteq> 0 \<longrightarrow> n = 0 \<and> 1 \<le> code \<and> code \<le> length Data + 1)"
proof -
  obtain n code where e: "plang_val_parse_int (Some Data) u = (n, code)" by fastforce
  show ?thesis using val_parse_sound [OF e] val_parse_complete [of u Data v] e by (auto split: if_splits)
qed

theorem val_parse_int_exact_witness:
  "plang_val_parse_int (Some '' -0x1F'') False = (-31, 0) \<and> val_text False '' -0x1F'' (-31)
   \<and> (case plang_val_parse_int (Some ''12a'') False of (n, code) \<Rightarrow> n = 0 \<and> 1 \<le> code \<and> code \<le> 4)"
proof -
  have a: "plang_val_parse_int (Some '' -0x1F'') False = (-31, 0)" by code_simp
  have b: "plang_val_parse_int (Some ''12a'') False = (0, 3)" by code_simp
  show ?thesis using val_parse_int_exact [of "'' -0x1F''" False "-31"] val_parse_int_exact [of "''12a''" False 0] a b by simp
qed

text \<open>The text of the least integer is refused, at its last digit, although the type holds it: the loop bounds
  the magnitude by \<open>INT64_MAX\<close> before the sign is applied.\<close>

lemma val_refuses_int64_min: "plang_val_parse_int (Some ''-9223372036854775808'') False = (0, 20)"
  by code_simp

end
