(* ===== verification/Directive_Props.thy ===== *)
theory Directive_Props
  imports Literals
begin

text \<open>Comments end where each dialect says, source that is not compiled has no effect, and an included file
  hands the scan back to where it was.\<close>

subsection \<open>Comments\<close>

text \<open>A terminator of one form at a place of the text.\<close>

definition closer_at :: "bool \<Rightarrow> bytes \<Rightarrow> nat \<Rightarrow> bool" where
  "closer_at Braced tx r \<longleftrightarrow>
     (if Braced then r < length tx \<and> tx ! r = CHR ''}''
      else r + 1 < length tx \<and> tx ! r = CHR ''*'' \<and> tx ! (r + 1) = CHR '')'')"

text \<open>What ends a comment: in Turbo the matching form, elsewhere either.\<close>

definition ends_at :: "bool \<Rightarrow> bool \<Rightarrow> bytes \<Rightarrow> nat \<Rightarrow> bool" where
  "ends_at tp Braced tx r \<longleftrightarrow> closer_at Braced tx r \<or> (\<not> tp \<and> closer_at (\<not> Braced) tx r)"

definition first_end :: "bool \<Rightarrow> bool \<Rightarrow> bytes \<Rightarrow> nat \<Rightarrow> nat option" where
  "first_end tp Braced tx p = find (ends_at tp Braced tx) [p..<length tx]"

lemma first_end_step:
  "first_end tp b tx p =
     (if p < length tx then if ends_at tp b tx p then Some p else first_end tp b tx (p + 1) else None)"
  by (simp add: first_end_def upt_conv_Cons)

lemma first_end_skip: "\<not> ends_at tp b tx p \<Longrightarrow> p < length tx \<Longrightarrow> first_end tp b tx (p + 1) = first_end tp b tx p"
  by (simp add: first_end_step [of tp b tx p])

lemma iso_comment_first:
  "p \<le> length tx \<Longrightarrow> iso_comment_loop tx p = (case first_end False Braced tx p of
     Some r \<Rightarrow> (True, r + (if tx ! r = CHR ''}'' then 1 else 2)) | None \<Rightarrow> (False, length tx))"
proof (induction tx p rule: iso_comment_loop.induct)
  case (1 tx p)
  note unfold = iso_comment_loop.simps [of tx p] first_end_step [of False Braced tx p]
  show ?case
  proof (cases "p < length tx \<and> \<not> ends_at False Braced tx p")
    case True
    then have "\<not> (tx ! p = CHR ''}'')" "\<not> (tx ! p = CHR ''*'' \<and> p + 1 < length tx \<and> tx ! (p + 1) = CHR '')'')"
      by (auto simp: ends_at_def closer_at_def split: if_splits)
    then show ?thesis using 1 True unfolding unfold by (auto simp: Let_def)
  next
    case False
    then show ?thesis using "1.prems" unfolding unfold by (auto simp: Let_def ends_at_def closer_at_def)
  qed
qed

definition sees_other :: "bool \<Rightarrow> Scanner \<Rightarrow> bool" where
  "sees_other Braced s \<longleftrightarrow> (\<exists>q\<ge>Pos s. closer_at (\<not> Braced) (Text s) q)"

lemma sees_other_step:
  "sees_other b s \<longleftrightarrow> closer_at (\<not> b) (Text s) (Pos s) \<or> sees_other b (s\<lparr>Pos := Pos s + 1\<rparr>)"
  unfolding sees_other_def by (auto dest: Suc_leD) (metis Suc_leI le_neq_implies_less)

lemma turbo_comment_first:
  "IncludeStack s = [] \<Longrightarrow> Pos s \<le> length (Text s) \<Longrightarrow>
   (case first_end True Braced (Text s) (Pos s) of
     Some r \<Rightarrow> \<exists>saw'. turbo_comment_loop Braced saw s = (True, saw', s\<lparr>Pos := r + (if Braced then 1 else 2)\<rparr>)
   | None \<Rightarrow> turbo_comment_loop Braced saw s = (False, saw \<or> sees_other Braced s, s\<lparr>Pos := length (Text s)\<rparr>))"
proof (induction "length (Text s) - Pos s" arbitrary: s saw rule: less_induct)
  case (less s saw)
  note unfold = turbo_comment_loop.simps [of Braced saw s] first_end_step [of True Braced "Text s" "Pos s"]
  let ?star = "Text s ! Pos s = CHR ''*'' \<and> Pos s + 1 < length (Text s) \<and> Text s ! (Pos s + 1) = CHR '')''"
  consider (eof) "Pos s = length (Text s)" | (fin) "Pos s < length (Text s)" "ends_at True Braced (Text s) (Pos s)"
    | (star) "Pos s < length (Text s)" "\<not> ends_at True Braced (Text s) (Pos s)" "Braced" "?star"
    | (other) "Pos s < length (Text s)" "\<not> ends_at True Braced (Text s) (Pos s)" "\<not> (Braced \<and> ?star)"
    using less.prems(2) by fastforce
  then show ?case
  proof cases
    case eof
    then have "\<not> sees_other Braced s" by (auto simp: sees_other_def closer_at_def split: if_splits)
    moreover have "s\<lparr>Pos := Pos s\<rparr> = s" by simp
    ultimately show ?thesis using less.prems eof unfolding unfold by (simp add: popInclude_def)
  next
    case fin
    then show ?thesis unfolding unfold by (cases Braced) (auto simp: Let_def ends_at_def closer_at_def)
  next
    case star
    then have "\<not> ends_at True Braced (Text s) (Pos s + 1)" by (auto simp: ends_at_def closer_at_def)
    then have e: "first_end True Braced (Text s) (Pos s) = first_end True Braced (Text s) (Pos s + 2)"
      using star by (simp add: first_end_skip [symmetric])
    have "turbo_comment_loop Braced saw s = turbo_comment_loop Braced True (s\<lparr>Pos := Pos s + 2\<rparr>)"
      using star by (subst turbo_comment_loop.simps) (simp add: ends_at_def closer_at_def)
    moreover have "sees_other Braced s" using star by (auto simp: sees_other_def closer_at_def)
    ultimately show ?thesis using less.hyps [of "s\<lparr>Pos := Pos s + 2\<rparr>" True] less.prems star unfolding e
      by (auto split: option.splits)
  next
    case other
    let ?s = "s\<lparr>Pos := Pos s + 1\<rparr>" and ?saw = "saw \<or> closer_at (\<not> Braced) (Text s) (Pos s)"
    have e: "first_end True Braced (Text ?s) (Pos ?s) = first_end True Braced (Text s) (Pos s)"
      using other by (simp add: first_end_skip [symmetric])
    have l: "turbo_comment_loop Braced ?saw ?s = turbo_comment_loop Braced saw s"
      using other by (subst (2) turbo_comment_loop.simps) (auto simp: Let_def ends_at_def closer_at_def split: if_splits)
    have o: "?saw \<or> sees_other Braced ?s \<longleftrightarrow> saw \<or> sees_other Braced s"
      unfolding sees_other_step [of Braced s] by blast
    have "length (Text ?s) - Pos ?s < length (Text s) - Pos s" "IncludeStack ?s = []" "Pos ?s \<le> length (Text ?s)"
      using other(1) less.prems by simp_all
    from less.hyps [OF this, of ?saw, unfolded e l o] show ?thesis
      by (cases Braced; cases "first_end True Braced (Text s) (Pos s)") simp_all
  qed
qed

subsection \<open>Dead source\<close>

text \<open>The reports that dead source can still cause: those about the conditionals themselves.\<close>

definition structural :: "DiagID \<Rightarrow> bool" where
  "structural d \<longleftrightarrow> d = err_directive_else_already_seen \<or> d = err_directive_expects_symbol
     \<or> d = err_directive_unterminated_conditional"

definition no_effect :: "Scanner \<Rightarrow> Scanner \<Rightarrow> bool" where
  "no_effect s s' \<longleftrightarrow> SM s' = SM s \<and> Opts s' = Opts s \<and> CurrentDefines s' = CurrentDefines s
     \<and> CurrentSwitchState s' = CurrentSwitchState s \<and> PrevKind s' = PrevKind s \<and> ForceExprStartOnce s' = ForceExprStartOnce s
     \<and> (\<exists>ds. Diags s' = Diags s @ ds \<and> list_all (\<lambda>(_, d, _). structural d) ds)
     \<and> (\<exists>fs. IncludeStack s = fs @ IncludeStack s')"

lemma no_effect_refl: "no_effect s s" by (simp add: no_effect_def)

lemma no_effect_trans:
  assumes "no_effect a b" "no_effect b c"
  shows "no_effect a c"
proof -
  from assms obtain ds es where "Diags b = Diags a @ ds" "list_all (\<lambda>(_, d, _). structural d) ds"
    "Diags c = Diags b @ es" "list_all (\<lambda>(_, d, _). structural d) es" by (auto simp: no_effect_def)
  then have "\<exists>ds. Diags c = Diags a @ ds \<and> list_all (\<lambda>(_, d, _). structural d) ds"
    by (intro exI [where x = "ds @ es"]) simp
  then show ?thesis using assms by (auto simp: no_effect_def)
qed

lemma no_effect_emit: "structural d \<Longrightarrow> no_effect s (emitError l d a s)"
  by (simp add: no_effect_def)

lemma no_effect_update [simp]: "no_effect s (s\<lparr>Pos := p\<rparr>)" "no_effect s (pop_frame s)" "no_effect s (set_frame f s)"
  by (simp_all add: no_effect_def pop_frame_def set_frame_def)

lemma no_effect_popInclude: "popInclude s = Some s' \<Longrightarrow> no_effect s s'"
  by (auto simp: popInclude_def no_effect_def split: list.splits)

lemma no_effect_abandon: "no_effect s (abandon_frame s)"
  unfolding abandon_frame_def
  by (rule no_effect_trans [OF no_effect_emit no_effect_update(2)]) (simp add: structural_def)

lemma no_effect_cond_marker: "cond_marker depth name argument loc s = (r, s') \<Longrightarrow> no_effect s s'"
  by (auto simp: cond_marker_def Let_def structural_def no_effect_refl split: if_splits intro: no_effect_emit)

text \<open>While the skipping goes on the frame is only marked, never taken; when it stops, the frame is closed, or
  a branch of it is taken for the first time.\<close>

definition still_dead :: "Scanner \<Rightarrow> Scanner \<Rightarrow> bool" where
  "still_dead s s' \<longleftrightarrow> no_effect s s' \<and> (CondStack s \<noteq> [] \<longrightarrow> CondStack s' \<noteq> []
     \<and> tl (CondStack s') = tl (CondStack s) \<and> AnyBranchTaken (frame_of s') = AnyBranchTaken (frame_of s))"

definition revived :: "Scanner \<Rightarrow> Scanner \<Rightarrow> bool" where
  "revived s s' \<longleftrightarrow> no_effect s s' \<and> (CondStack s \<noteq> [] \<longrightarrow> CondStack s' = tl (CondStack s)
     \<or> (CondStack s' \<noteq> [] \<and> tl (CondStack s') = tl (CondStack s)
        \<and> \<not> AnyBranchTaken (frame_of s) \<and> AnyBranchTaken (frame_of s')))"

lemma frame_simps [simp]:
  "CondStack (pop_frame s) = tl (CondStack s)" "CondStack (set_frame f s) = f # tl (CondStack s)"
  "frame_of (set_frame f s) = f" "frame_of (emitError l d a s) = frame_of s" "frame_of (s\<lparr>Pos := p\<rparr>) = frame_of s"
  by (simp_all add: pop_frame_def set_frame_def frame_of_def)

lemma cond_marker_frames:
  "cond_marker depth name argument loc s = (Some d', s') \<Longrightarrow> still_dead s s'"
  "cond_marker depth name argument loc s = (None, s') \<Longrightarrow> revived s s'"
proof -
  assume a: "cond_marker depth name argument loc s = (Some d', s')"
  show "still_dead s s'" using no_effect_cond_marker [OF a] a
    by (auto simp: still_dead_def cond_marker_def Let_def split: if_splits)
next
  assume a: "cond_marker depth name argument loc s = (None, s')"
  show "revived s s'" using no_effect_cond_marker [OF a] a
    by (auto simp: revived_def cond_marker_def Let_def split: if_splits)
qed

lemma popInclude_frames: "popInclude s = Some s' \<Longrightarrow> CondStack s' = CondStack s"
  by (auto simp: popInclude_def split: list.splits)

lemma skip_loop_revived: "revived s (skip_loop depth s)"
proof (rule skip_loop_rel [where R = still_dead])
  show "revived a c" if "still_dead a b" "revived b c" for a b c
    using that no_effect_trans [of a b c] by (auto simp: revived_def still_dead_def)
  show "still_dead a c" if "still_dead a b" "still_dead b c" for a b c
    using that no_effect_trans [of a b c] by (auto simp: still_dead_def)
  show "still_dead s s'" if "popInclude s = Some s'" for s s'
    using that by (simp add: still_dead_def no_effect_popInclude popInclude_frames frame_of_def)
  show "revived s (abandon_frame s)" for s
    using no_effect_abandon [of s] by (simp add: revived_def abandon_frame_def)
  show "still_dead s (s\<lparr>Pos := p\<rparr>)" for s p by (simp add: still_dead_def)
qed (rule cond_marker_frames, assumption)+

text \<open>Dead source that is well nested: plain characters, and conditionals with two branches inside it.\<close>

datatype dead = Plain char | Nested bytes "dead list" "dead list"

fun render :: "dead \<Rightarrow> bytes" where
  "render (Plain c) = [c]"
| "render (Nested nm xs ys) =
     ''{$ifdef '' @ nm @ ''}'' @ concat (map render xs) @ ''{$else}'' @ concat (map render ys) @ ''{$endif}''"

definition plain_char :: "char \<Rightarrow> bool" where
  "plain_char c \<longleftrightarrow> c \<noteq> CHR 0x27 \<and> c \<noteq> CHR ''{'' \<and> c \<noteq> CHR ''('' \<and> c \<noteq> CHR ''/''"

fun well_nested :: "dead \<Rightarrow> bool" where
  "well_nested (Plain c) \<longleftrightarrow> plain_char c"
| "well_nested (Nested nm xs ys) \<longleftrightarrow> CHR ''}'' \<notin> set nm \<and> list_all well_nested xs \<and> list_all well_nested ys"

lemma raw_body_closes:
  "drop p tx = body @ CHR ''}'' # rest \<Longrightarrow> CHR ''}'' \<notin> set body \<Longrightarrow>
   raw_body_loop tx True p = Some (p + length body, p + length body + 1)"
proof (induction body arbitrary: p)
  case Nil
  then show ?case using drop_Cons_nth [of p tx] by (simp add: raw_body_loop.simps [of tx True p])
next
  case (Cons c body)
  then have "p < length tx" "tx ! p = c" "drop (p + 1) tx = body @ CHR ''}'' # rest" using drop_Cons_nth [of p tx c] by auto
  then show ?case using Cons.IH [of "p + 1"] Cons.prems(2) by (auto simp: raw_body_loop.simps [of tx True p] Let_def)
qed

lemma skip_loop_braced:
  assumes "drop (Pos s) (Text s) = ''{$'' @ body @ ''}'' @ rest" "CHR ''}'' \<notin> set body"
    and "splitDirectiveBody body = (name, argument, adj)"
    and "cond_marker depth name argument (locAt s (Pos s + 2)) (s\<lparr>Pos := Pos s + length body + 3\<rparr>) = (d, s2)"
  shows "skip_loop depth s = (case d of None \<Rightarrow> s2 | Some d' \<Rightarrow> skip_loop d' s2)"
proof -
  have D: "drop (Pos s) (Text s) = CHR ''{'' # CHR ''$'' # body @ CHR ''}'' # rest" using assms(1) by simp
  note D1 = drop_Cons_nth [OF D]
  note D2 = drop_Cons_nth [OF conjunct2 [OF conjunct2 [OF D1]]]
  then have D3: "drop (Pos s + 2) (Text s) = body @ CHR ''}'' # rest" by simp
  then have "rawDirectiveBody True s = (Some body, s\<lparr>Pos := Pos s + length body + 3\<rparr>)"
    using raw_body_closes [OF D3 assms(2)] by (simp add: rawDirectiveBody_def Let_def substr_def eval_nat_numeral)
  then show ?thesis
    using D1 D2 assms(3,4) by (intro skip_loop_directive [where b = True]) (auto simp: directive_opener_def Let_def locAt_def)
qed

lemma skip_loop_plain:
  assumes "drop (Pos s) (Text s) = c # rest" "plain_char c"
  shows "skip_loop depth s = skip_loop depth (s\<lparr>Pos := Pos s + 1\<rparr>)"
  using drop_Cons_nth [OF assms(1)] assms(2)
  by (subst skip_loop.simps) (auto simp: plain_char_def directive_opener_def Let_def)


lemma split_ifdef: "\<exists>a. splitDirectiveBody (''ifdef '' @ nm) = (''ifdef'', a, False)"
proof -
  have "advance_while isalpha (''ifdef '' @ nm) 0 = 5"
    by (simp add: advance_while_takeWhile cclass code_of_def)
  then show ?thesis by (simp add: splitDirectiveBody_def Let_def cclass code_of_def)
qed

lemma split_else_endif:
  "splitDirectiveBody ''else'' = (''else'', [], False)" "splitDirectiveBody ''endif'' = (''endif'', [], False)"
  by code_simp+

lemma toLower_markers [simp]: "toLower ''ifdef'' = ''ifdef''" "toLower ''else'' = ''else''" "toLower ''endif'' = ''endif''"
  by code_simp+

lemma cond_marker_nested:
  "cond_marker depth ''ifdef'' a loc s = (Some (depth + 1), s)"
  "cond_marker (depth + 1) ''else'' a loc s = (Some (depth + 1), s)"
  "cond_marker (depth + 1) ''endif'' a loc s = (Some depth, s)"
  "cond_marker 0 ''endif'' a loc s = (None, pop_frame s)"
  by (simp_all add: cond_marker_def Let_def)

lemma skip_markers:
  "drop (Pos s) (Text s) = ''{$ifdef '' @ nm @ ''}'' @ rest \<Longrightarrow> CHR ''}'' \<notin> set nm \<Longrightarrow>
   skip_loop depth s = skip_loop (depth + 1) (s\<lparr>Pos := Pos s + length nm + 9\<rparr>)"
  "drop (Pos s) (Text s) = ''{$else}'' @ rest \<Longrightarrow> skip_loop (depth + 1) s = skip_loop (depth + 1) (s\<lparr>Pos := Pos s + 7\<rparr>)"
  "drop (Pos s) (Text s) = ''{$endif}'' @ rest \<Longrightarrow> skip_loop (depth + 1) s = skip_loop depth (s\<lparr>Pos := Pos s + 8\<rparr>)"
  "drop (Pos s) (Text s) = ''{$endif}'' @ rest \<Longrightarrow> skip_loop 0 s = pop_frame (s\<lparr>Pos := Pos s + 8\<rparr>)"
proof -
  assume d: "drop (Pos s) (Text s) = ''{$ifdef '' @ nm @ ''}'' @ rest" "CHR ''}'' \<notin> set nm"
  obtain a where a: "splitDirectiveBody (''ifdef '' @ nm) = (''ifdef'', a, False)" using split_ifdef by blast
  show "skip_loop depth s = skip_loop (depth + 1) (s\<lparr>Pos := Pos s + length nm + 9\<rparr>)"
    using skip_loop_braced [OF _ _ a cond_marker_nested(1), of s rest depth] d by (simp add: ac_simps)
next
  assume "drop (Pos s) (Text s) = ''{$else}'' @ rest"
  then show "skip_loop (depth + 1) s = skip_loop (depth + 1) (s\<lparr>Pos := Pos s + 7\<rparr>)"
    using skip_loop_braced [OF _ _ split_else_endif(1) cond_marker_nested(2), of s rest depth] by (simp add: add.commute)
next
  assume "drop (Pos s) (Text s) = ''{$endif}'' @ rest"
  then show "skip_loop (depth + 1) s = skip_loop depth (s\<lparr>Pos := Pos s + 8\<rparr>)"
    "skip_loop 0 s = pop_frame (s\<lparr>Pos := Pos s + 8\<rparr>)"
    using skip_loop_braced [OF _ _ split_else_endif(2) cond_marker_nested(3), of s rest depth]
      skip_loop_braced [OF _ _ split_else_endif(2) cond_marker_nested(4), of s rest] by (simp_all add: add.commute)
qed

lemma skip_list:
  assumes "\<And>d depth s rest. d \<in> set ds \<Longrightarrow> drop (Pos s) (Text s) = render d @ rest \<Longrightarrow>
     skip_loop depth s = skip_loop depth (s\<lparr>Pos := Pos s + length (render d)\<rparr>)"
    and "drop (Pos s) (Text s) = concat (map render ds) @ rest"
  shows "skip_loop depth s = skip_loop depth (s\<lparr>Pos := Pos s + length (concat (map render ds))\<rparr>)"
  using assms
proof (induction ds arbitrary: s)
  case (Cons d ds)
  let ?s = "s\<lparr>Pos := Pos s + length (render d)\<rparr>"
  have "drop (Pos ?s) (Text ?s) = concat (map render ds) @ rest"
    using drop_later [of "Pos s" "Text s" "render d"] Cons.prems(2) by simp
  then have "skip_loop depth ?s = skip_loop depth (?s\<lparr>Pos := Pos ?s + length (concat (map render ds))\<rparr>)"
    using Cons.prems(1) by (intro Cons.IH) auto
  then show ?case using Cons.prems(1) [of d s "concat (map render ds) @ rest" depth] Cons.prems(2) by (simp add: ac_simps)
qed simp

lemma skip_dead:
  "well_nested d \<Longrightarrow> drop (Pos s) (Text s) = render d @ rest \<Longrightarrow>
   skip_loop depth s = skip_loop depth (s\<lparr>Pos := Pos s + length (render d)\<rparr>)"
proof (induction d arbitrary: depth s rest)
  case (Plain c)
  then show ?case using skip_loop_plain [of s c rest depth] by simp
next
  case (Nested nm xs ys)
  let ?X = "concat (map render xs)" and ?Y = "concat (map render ys)"
  let ?p1 = "Pos s + length nm + 9" let ?p2 = "?p1 + length ?X" let ?p3 = "?p2 + 7" let ?p4 = "?p3 + length ?Y"
  have d0: "drop (Pos s) (Text s) = ''{$ifdef '' @ nm @ ''}'' @ ?X @ ''{$else}'' @ ?Y @ ''{$endif}'' @ rest"
    using Nested.prems(2) by simp
  have d1: "drop ?p1 (Text s) = ?X @ ''{$else}'' @ ?Y @ ''{$endif}'' @ rest"
    using drop_later [of "Pos s" "Text s" "''{$ifdef '' @ nm @ ''}''"] d0 by (simp add: eval_nat_numeral)
  have d2: "drop ?p2 (Text s) = ''{$else}'' @ ?Y @ ''{$endif}'' @ rest" using drop_later [OF d1] .
  have d3: "drop ?p3 (Text s) = ?Y @ ''{$endif}'' @ rest" using drop_later [OF d2] by simp
  have d4: "drop ?p4 (Text s) = ''{$endif}'' @ rest" using drop_later [OF d3] .
  have "skip_loop depth s = skip_loop (depth + 1) (s\<lparr>Pos := ?p1\<rparr>)" using skip_markers(1) d0 Nested.prems(1) by simp
  also have "\<dots> = skip_loop (depth + 1) (s\<lparr>Pos := ?p2\<rparr>)"
    using skip_list [of xs "s\<lparr>Pos := ?p1\<rparr>"] Nested.IH(1) Nested.prems(1) d1 by (simp add: list_all_iff)
  also have "\<dots> = skip_loop (depth + 1) (s\<lparr>Pos := ?p3\<rparr>)" using skip_markers(2) [of "s\<lparr>Pos := ?p2\<rparr>"] d2 by simp
  also have "\<dots> = skip_loop (depth + 1) (s\<lparr>Pos := ?p4\<rparr>)"
    using skip_list [of ys "s\<lparr>Pos := ?p3\<rparr>"] Nested.IH(2) Nested.prems(1) d3 by (simp add: list_all_iff)
  also have "\<dots> = skip_loop depth (s\<lparr>Pos := ?p4 + 8\<rparr>)" using skip_markers(3) [of "s\<lparr>Pos := ?p4\<rparr>"] d4 by simp
  also have "?p4 + 8 = Pos s + length (render (Nested nm xs ys))" by simp
  finally show ?case .
qed

subsection \<open>Correctness\<close>

text \<open>Where a comment ends: just past the first terminator that its dialect accepts, either one in ISO 7185
  and Extended Pascal, only the matching one in Turbo.  A comment with no such terminator takes the rest of
  the file and is reported at its opener, in Turbo as a mismatch if the other terminator was there.\<close>

theorem comment_ends_at_first_closer:
  assumes "IncludeStack s = []" "Pos s + (if Braced then 1 else 2) \<le> length (Text s)"
  shows "skipComment Braced s =
    (case first_end (turbo (Opts s)) Braced (Text s) (Pos s + (if Braced then 1 else 2)) of
       Some r \<Rightarrow> s\<lparr>Pos := r + (if Text s ! r = CHR ''}'' then 1 else 2)\<rparr>
     | None \<Rightarrow>
         (let s' = s\<lparr>Pos := length (Text s)\<rparr>; mismatch = (\<exists>q\<ge>Pos s + (if Braced then 1 else 2). closer_at (\<not> Braced) (Text s) q) in
          if turbo (Opts s) \<and> mismatch
          then emitError (locAt s (Pos s)) err_comment_delim_mismatch [comment_opener Braced, comment_closer Braced] s'
          else emitError (locAt s (Pos s)) err_unterminated_comment [] s'))"
proof (cases "turbo (Opts s)")
  case True
  let ?s = "s\<lparr>Pos := Pos s + (if Braced then 1 else 2)\<rparr>"
  have closer: "first_end True Braced (Text s) p = Some r \<Longrightarrow> Text s ! r = CHR ''}'' \<longleftrightarrow> Braced" for p r
    by (auto simp: first_end_def find_Some_iff ends_at_def closer_at_def split: if_splits)
  note T = turbo_comment_first [of ?s Braced False]
  show ?thesis
  proof (cases "first_end True Braced (Text s) (Pos s + (if Braced then 1 else 2))")
    case None
    then have "turbo_comment_loop Braced False ?s = (False, sees_other Braced ?s, s\<lparr>Pos := length (Text s)\<rparr>)"
      using T assms by simp
    then show ?thesis using None True
      by (simp add: skipComment_def skipCommentTurbo_def report_unclosed_def sees_other_def Let_def)
  next
    case (Some r)
    moreover from this obtain saw where "turbo_comment_loop Braced False ?s = (True, saw, s\<lparr>Pos := r + (if Braced then 1 else 2)\<rparr>)"
      using T assms by auto
    ultimately show ?thesis using True closer [OF Some] by (simp add: skipComment_def skipCommentTurbo_def Let_def)
  qed
next
  case False
  then show ?thesis
    using iso_comment_first [of "Pos s + (if Braced then 1 else 2)" "Text s" Braced] assms
    by (auto simp: skipComment_def Let_def split: option.splits)
qed

theorem comment_ends_at_first_closer_witness:
  "Pos (skipComment True ((initScanner emptySourceManager (plain_opts Turbo))\<lparr>Text := ''{a*)b}''\<rparr>)) = 6
   \<and> Pos (skipComment True ((initScanner emptySourceManager (plain_opts ISO7185))\<lparr>Text := ''{a*)b}''\<rparr>)) = 4"
  using comment_ends_at_first_closer [of "(initScanner emptySourceManager (plain_opts Turbo))\<lparr>Text := ''{a*)b}''\<rparr>" True]
    comment_ends_at_first_closer [of "(initScanner emptySourceManager (plain_opts ISO7185))\<lparr>Text := ''{a*)b}''\<rparr>" True]
  by (simp add: initScanner_def plain_opts_def turbo_def first_end_def ends_at_def closer_at_def upt_conv_Cons)

text \<open>C24. Source that a conditional leaves out has no effect: skipping it defines no symbol, sets no switch,
  opens no file and reports nothing but faults of the conditionals themselves, and it leaves the enclosing
  conditionals alone.  The skip ends with its own conditional closed, or at a branch that is then taken for the
  first time, so no two branches of one conditional are compiled.\<close>

theorem dead_source_has_no_effect:
  assumes "CondStack s = F # rest" "skipToNextConditionalMarker s = s'"
  shows "CurrentDefines s' = CurrentDefines s \<and> CurrentSwitchState s' = CurrentSwitchState s \<and> SM s' = SM s
     \<and> (\<exists>fs. IncludeStack s = fs @ IncludeStack s')
     \<and> (\<exists>ds. Diags s' = Diags s @ ds \<and> list_all (\<lambda>(_, d, _). structural d) ds)
     \<and> (CondStack s' = rest \<or> (\<exists>F'. CondStack s' = F' # rest \<and> \<not> AnyBranchTaken F \<and> AnyBranchTaken F'))"
proof -
  have r: "revived s s'" using skip_loop_revived [of s 0] assms(2) by (simp add: skipToNextConditionalMarker_def)
  have "CondStack s' = rest \<or> (\<exists>F'. CondStack s' = F' # rest \<and> \<not> AnyBranchTaken F \<and> AnyBranchTaken F')"
    using r assms(1) by (cases "CondStack s'") (auto simp: revived_def frame_of_def)
  then show ?thesis using r by (simp add: revived_def no_effect_def)
qed

theorem dead_source_has_no_effect_witness:
  "\<exists>F. CondStack (skipToNextConditionalMarker ((initScanner emptySourceManager (plain_opts Turbo))
       \<lparr>Text := ''{$define X}'', CondStack := [F]\<rparr>)) = []
     \<and> CurrentDefines (skipToNextConditionalMarker ((initScanner emptySourceManager (plain_opts Turbo))
       \<lparr>Text := ''{$define X}'', CondStack := [F]\<rparr>)) = {}"
proof -
  let ?F = "\<lparr>AnyBranchTaken = True, SeenElse = False, OpenLoc = 0, OpenName = ''ifdef''\<rparr>"
  let ?s = "(initScanner emptySourceManager (plain_opts Turbo))\<lparr>Text := ''{$define X}'', CondStack := [?F]\<rparr>"
  show ?thesis
    using dead_source_has_no_effect [of ?s ?F "[]", OF _ refl]
    by (intro exI [where x = ?F]) (simp add: initScanner_def plain_opts_def)
qed

text \<open>A branch that is left out ends at its own \<open>{$endif}\<close>: well nested conditionals inside it, with their
  own \<open>{$else}\<close> and \<open>{$endif}\<close>, are passed over whatever their symbols.\<close>

theorem dead_branch_ends_at_its_endif:
  assumes "list_all well_nested ds" "drop (Pos s) (Text s) = concat (map render ds) @ ''{$endif}'' @ rest"
  shows "skipToNextConditionalMarker s
    = s\<lparr>Pos := Pos s + length (concat (map render ds)) + 8, CondStack := tl (CondStack s)\<rparr>"
proof -
  let ?s = "s\<lparr>Pos := Pos s + length (concat (map render ds))\<rparr>"
  have "skip_loop 0 s = skip_loop 0 ?s"
    using assms skip_dead by (intro skip_list) (auto simp: list_all_iff)
  moreover have "drop (Pos ?s) (Text ?s) = ''{$endif}'' @ rest" using drop_later [OF assms(2)] by simp
  note skip_markers(4) [OF this]
  ultimately show ?thesis by (simp add: skipToNextConditionalMarker_def pop_frame_def)
qed

theorem dead_branch_ends_at_its_endif_witness:
  "Pos (skipToNextConditionalMarker ((initScanner emptySourceManager (plain_opts Turbo))
     \<lparr>Text := ''a{$ifdef B}c{$else}{$endif}{$endif}z''\<rparr>)) = 35"
  using dead_branch_ends_at_its_endif [of "[Plain CHR ''a'', Nested ''B'' [Plain CHR ''c''] []]"
      "(initScanner emptySourceManager (plain_opts Turbo))\<lparr>Text := ''a{$ifdef B}c{$else}{$endif}{$endif}z''\<rparr>" "''z''"]
  by (simp add: initScanner_def plain_char_def)

end
