(* ===== verification/Symbol_Table.thy ===== *)
theory Symbol_Table
  imports String_Util
begin

text \<open>
  The scoped, case-insensitive symbol table of the semantic analysis,
  \<^verbatim>\<open>lib/Sema/SymbolTable.cpp\<close> and \<^verbatim>\<open>include/plang/Sema/SymbolTable.h\<close>.  The scope stack
  is a list whose head is the innermost scope, each scope a finite map from folded names.  The table
  reads four members of a symbol; what the analysis hangs on it besides (types, parameters, flags) is
  carried along untouched as \<open>SymRest\<close>, of any type.  A returned \<^verbatim>\<open>const Symbol*\<close> is the symbol
  it points to; what a caller does through a non-const one is \<open>lookup_update\<close>.

  The interface \<open>scoped_env\<close> states what a declaration processor relies on, and its lemmas are the
  block structure of Pascal: a scope is gone without trace when it is closed.
\<close>

datatype SymbolKind =
  SkVar | SkVarParam | SkConst | SkTypeAlias | SkProc | SkLabel | SkEnumValue | SkBuiltin | SkSchema | SkMethod

record 'p Symbol =
  SymKind :: SymbolKind
  SymName :: bytes
  ScopeDepth :: nat
  IsRequiredIdentifier :: bool
  SymRest :: 'p

record 'p Scope =
  Symbols :: "bytes \<rightharpoonup> 'p Symbol"
  IsBlock :: bool

record 'p SymbolTable =
  Scopes :: "'p Scope list"
  Ceiling :: nat

subsection \<open>Operations\<close>

definition emptyTable :: "'p SymbolTable" where
  "emptyTable = \<lparr>Scopes = [], Ceiling = 0\<rparr>"

definition lower :: "bytes \<Rightarrow> bytes" where "lower S = toLower S"

definition pushScope :: "bool \<Rightarrow> 'p SymbolTable \<Rightarrow> 'p SymbolTable" where
  "pushScope isBlock t = t\<lparr>Scopes := \<lparr>Symbols = Map.empty, IsBlock = isBlock\<rparr> # Scopes t\<rparr>"

definition popScope :: "'p SymbolTable \<Rightarrow> 'p SymbolTable" where
  "popScope t = t\<lparr>Scopes := tl (Scopes t)\<rparr>"

fun enclosing_loop :: "bytes \<Rightarrow> 'p Scope list \<Rightarrow> 'p Symbol option" where
  "enclosing_loop K [] = None"
| "enclosing_loop K (S # rest) =
     (case Symbols S K of
        Some F \<Rightarrow> (if IsBlock S then Some F else None)
      | None \<Rightarrow> (if IsBlock S then None else enclosing_loop K rest))"

definition lookupInEnclosingBlock :: "bytes \<Rightarrow> 'p SymbolTable \<Rightarrow> 'p Symbol option" where
  "lookupInEnclosingBlock name t = enclosing_loop (lower name) (Scopes t)"

definition define_symbol :: "'p Symbol \<Rightarrow> 'p SymbolTable \<Rightarrow> bool \<times> 'p SymbolTable" where
  "define_symbol Sym t =
     (case Scopes t of
        [] \<Rightarrow> (False, t)
      | Cur # outer \<Rightarrow>
          (let Key = lower (SymName Sym);
               stored = t\<lparr>Scopes := Cur\<lparr>Symbols := (Symbols Cur)(Key \<mapsto> Sym\<lparr>ScopeDepth := length (Scopes t)\<rparr>)\<rparr> # outer\<rparr> in
           case Symbols Cur Key of
             Some Existing \<Rightarrow> (if \<not> IsRequiredIdentifier Existing then (False, t) else (True, stored))
           | None \<Rightarrow> (True, stored)))"

text \<open>The scopes a lookup may see, innermost first, and the search outwards.\<close>

definition visible_scopes :: "'p SymbolTable \<Rightarrow> 'p Scope list" where
  "visible_scopes t =
     (let Visible = (if Ceiling t \<noteq> 0 then min (Ceiling t) (length (Scopes t)) else length (Scopes t)) in
      drop (length (Scopes t) - Visible) (Scopes t))"

fun lookup_loop :: "bytes \<Rightarrow> 'p Scope list \<Rightarrow> 'p Symbol option" where
  "lookup_loop Key [] = None"
| "lookup_loop Key (S # rest) = (case Symbols S Key of Some F \<Rightarrow> Some F | None \<Rightarrow> lookup_loop Key rest)"

definition lookup :: "bytes \<Rightarrow> 'p SymbolTable \<Rightarrow> 'p Symbol option" where
  "lookup name t = lookup_loop (lower name) (visible_scopes t)"

definition lookupCurrent :: "bytes \<Rightarrow> 'p SymbolTable \<Rightarrow> 'p Symbol option" where
  "lookupCurrent name t = (case Scopes t of [] \<Rightarrow> None | Cur # _ \<Rightarrow> Symbols Cur (lower name))"

text \<open>A write through the pointer \<open>lookup\<close> answers: the first scope that holds the name is the one changed.\<close>

fun update_loop :: "bytes \<Rightarrow> ('p Symbol \<Rightarrow> 'p Symbol) \<Rightarrow> 'p Scope list \<Rightarrow> 'p Scope list" where
  "update_loop Key f [] = []"
| "update_loop Key f (S # rest) =
     (case Symbols S Key of
        Some F \<Rightarrow> S\<lparr>Symbols := (Symbols S)(Key \<mapsto> f F)\<rparr> # rest
      | None \<Rightarrow> S # update_loop Key f rest)"

definition lookup_update :: "bytes \<Rightarrow> ('p Symbol \<Rightarrow> 'p Symbol) \<Rightarrow> 'p SymbolTable \<Rightarrow> 'p SymbolTable" where
  "lookup_update name f t =
     (let hidden = length (Scopes t) - length (visible_scopes t) in
      t\<lparr>Scopes := take hidden (Scopes t) @ update_loop (lower name) f (visible_scopes t)\<rparr>)"

definition depth :: "'p SymbolTable \<Rightarrow> nat" where "depth t = length (Scopes t)"

definition forEachInCurrentScope :: "('p Symbol \<Rightarrow> 'p Symbol) \<Rightarrow> 'p SymbolTable \<Rightarrow> 'p SymbolTable" where
  "forEachInCurrentScope f t =
     (case Scopes t of
        [] \<Rightarrow> t
      | Cur # outer \<Rightarrow> t\<lparr>Scopes := Cur\<lparr>Symbols := map_option f \<circ> Symbols Cur\<rparr> # outer\<rparr>)"

text \<open>\<^verbatim>\<open>ScopeCeiling\<close>: the constructor sets the ceiling and keeps the old one, the destructor puts it
  back; the body runs between.\<close>

definition with_ceiling :: "nat \<Rightarrow> ('p SymbolTable \<Rightarrow> 'p SymbolTable) \<Rightarrow> 'p SymbolTable \<Rightarrow> 'p SymbolTable" where
  "with_ceiling Depth body t = (body (t\<lparr>Ceiling := Depth\<rparr>))\<lparr>Ceiling := Ceiling t\<rparr>"

subsection \<open>The interface\<close>

text \<open>A block as the analysis walks it: declarations, and blocks inside it.\<close>

datatype 's item = Decl 's | Nest bool "'s item list"

fun run_item :: "(bool \<Rightarrow> 't \<Rightarrow> 't) \<Rightarrow> ('t \<Rightarrow> 't) \<Rightarrow> ('s \<Rightarrow> 't \<Rightarrow> bool \<times> 't) \<Rightarrow> 's item \<Rightarrow> 't \<Rightarrow> 't" where
  "run_item push pop decl (Decl s) t = snd (decl s t)"
| "run_item push pop decl (Nest b xs) t = pop (fold (run_item push pop decl) xs (push b t))"

text \<open>What a processor of declarations may rely on, for an environment of any make.\<close>

locale scoped_env =
  fixes push :: "bool \<Rightarrow> 't \<Rightarrow> 't"
    and pop :: "'t \<Rightarrow> 't"
    and declare_in :: "'s \<Rightarrow> 't \<Rightarrow> bool \<times> 't"
    and find_in :: "'n \<Rightarrow> 't \<Rightarrow> 's option"
    and names :: "'s \<Rightarrow> 'n \<Rightarrow> bool"
    and stamp :: "'t \<Rightarrow> 's \<Rightarrow> 's"
    and unlimited :: "'t \<Rightarrow> bool"
  assumes pop_push: "pop (push b t) = t"
    and unlimited_push: "unlimited (push b t) = unlimited t"
    and find_push: "find_in n (push b t) = find_in n t"
    and refused: "declare_in s t = (False, t') \<Longrightarrow> t' = t"
    and accepted: "declare_in s t = (True, t') \<Longrightarrow> unlimited t \<Longrightarrow>
       find_in n t' = (if names s n then Some (stamp t s) else find_in n t)"
    and pop_declare: "declare_in s t = (r, t') \<Longrightarrow> pop t' = pop t"
    and unlimited_declare: "declare_in s t = (r, t') \<Longrightarrow> unlimited t' = unlimited t"
begin

lemma pop_item: "pop (run_item push pop declare_in x t) = pop t"
proof (induction x arbitrary: t)
  case (Decl s)
  then show ?case using pop_declare [of s t "fst (declare_in s t)"] by simp
next
  case (Nest b xs)
  have "pop (fold (run_item push pop declare_in) xs u) = pop u" for u
    using Nest by (induction xs arbitrary: u) simp_all
  then show ?case by (simp add: pop_push)
qed

lemma pop_items: "pop (fold (run_item push pop declare_in) xs t) = pop t"
  by (induction xs arbitrary: t) (simp_all add: pop_item)

lemma block_restores: "pop (fold (run_item push pop declare_in) xs (push b t)) = t"
  by (simp add: pop_items pop_push)

lemma shadowing:
  assumes "declare_in s (push b t) = (True, t')" "names s n" "unlimited t"
  shows "find_in n t' = Some (stamp (push b t) s) \<and> find_in n (pop t') = find_in n t"
  using accepted [OF assms(1)] pop_declare [OF assms(1)] assms(2,3) by (simp add: pop_push unlimited_push)

end

lemma lower_idem [simp]: "lower (lower n) = lower n"
  by (simp add: lower_def toLower_def)

subsection \<open>The table as an environment\<close>

lemma visible_unlimited: "Ceiling t = 0 \<Longrightarrow> visible_scopes t = Scopes t"
  by (simp add: visible_scopes_def)

lemma visible_push:
  "visible_scopes (pushScope b t) =
     (if Ceiling t \<noteq> 0 \<and> Ceiling t \<le> length (Scopes t) then visible_scopes t
      else \<lparr>Symbols = Map.empty, IsBlock = b\<rparr> # visible_scopes t)"
  by (auto simp: visible_scopes_def pushScope_def Let_def Suc_diff_le min_def)

lemma lookup_push: "lookup n (pushScope b t) = lookup n t"
  by (simp add: lookup_def visible_push)

text \<open>Every branch of \<open>define\<close>.\<close>

definition clashes :: "'p Symbol \<Rightarrow> 'p SymbolTable \<Rightarrow> bool" where
  "clashes Sym t \<longleftrightarrow> Scopes t = []
     \<or> (\<exists>E. lookupCurrent (SymName Sym) t = Some E \<and> \<not> IsRequiredIdentifier E)"

lemma define_symbol_eq:
  "define_symbol Sym t =
     (if clashes Sym t then (False, t)
      else (True, t\<lparr>Scopes := (hd (Scopes t))\<lparr>Symbols := (Symbols (hd (Scopes t)))
              (lower (SymName Sym) \<mapsto> Sym\<lparr>ScopeDepth := length (Scopes t)\<rparr>)\<rparr> # tl (Scopes t)\<rparr>))"
  by (auto simp: define_symbol_def clashes_def lookupCurrent_def Let_def split: list.splits option.splits)

lemma lookup_define:
  assumes "\<not> clashes Sym t" "Ceiling t = 0"
  shows "lookup n (snd (define_symbol Sym t)) =
     (if lower n = lower (SymName Sym) then Some (Sym\<lparr>ScopeDepth := length (Scopes t)\<rparr>) else lookup n t)"
proof -
  obtain C rest where "Scopes t = C # rest" using assms(1) by (cases "Scopes t") (auto simp: clashes_def)
  then show ?thesis using assms by (auto simp: define_symbol_eq lookup_def visible_scopes_def)
qed

interpretation symtab: scoped_env pushScope popScope define_symbol lookup
  "\<lambda>Sym n. lower n = lower (SymName Sym)" "\<lambda>t Sym. Sym\<lparr>ScopeDepth := length (Scopes t)\<rparr>" "\<lambda>t. Ceiling t = 0"
proof unfold_locales
  fix Sym :: "'p Symbol" and t t' n
  assume d: "define_symbol Sym t = (True, t')" and c: "Ceiling t = 0"
  have "\<not> clashes Sym t" using d by (auto simp: define_symbol_eq split: if_splits)
  then show "lookup n t' = (if lower n = lower (SymName Sym) then Some (Sym\<lparr>ScopeDepth := length (Scopes t)\<rparr>) else lookup n t)"
    using lookup_define [of Sym t n] c d by simp
next
  show "lookup n (pushScope b t) = lookup n t" for n b and t :: "'p SymbolTable" by (rule lookup_push)
qed (auto simp: define_symbol_eq clashes_def pushScope_def popScope_def split: if_splits)

subsection \<open>The invariant\<close>

text \<open>Every symbol is stored under its folded name and knows the depth of its scope.\<close>

fun scopes_ok :: "'p Scope list \<Rightarrow> bool" where
  "scopes_ok [] \<longleftrightarrow> True"
| "scopes_ok (S # rest) \<longleftrightarrow> (\<forall>k Sym. Symbols S k = Some Sym \<longrightarrow> k = lower (SymName Sym) \<and> ScopeDepth Sym = Suc (length rest))
     \<and> scopes_ok rest"

definition table_ok :: "'p SymbolTable \<Rightarrow> bool" where "table_ok t \<longleftrightarrow> scopes_ok (Scopes t)"

lemma table_ok_empty: "table_ok emptyTable"
  by (simp add: table_ok_def emptyTable_def)

lemma table_ok_push: "table_ok t \<Longrightarrow> table_ok (pushScope b t)"
  by (simp add: table_ok_def pushScope_def)

lemma table_ok_pop: "table_ok t \<Longrightarrow> table_ok (popScope t)"
  by (cases "Scopes t") (simp_all add: table_ok_def popScope_def)

lemma table_ok_define: "table_ok t \<Longrightarrow> table_ok (snd (define_symbol Sym t))"
  by (cases "Scopes t") (auto simp: table_ok_def define_symbol_eq clashes_def)

lemma scopes_ok_update:
  assumes "\<And>Sym. SymName (f Sym) = SymName Sym \<and> ScopeDepth (f Sym) = ScopeDepth Sym" "scopes_ok Ss"
  shows "scopes_ok (update_loop k f Ss) \<and> length (update_loop k f Ss) = length Ss"
  using assms(2) by (induction Ss) (auto simp: assms(1) split: option.splits)

lemma scopes_ok_lookup:
  "scopes_ok Ss \<Longrightarrow> lookup_loop k Ss = Some Sym \<Longrightarrow> k = lower (SymName Sym) \<and> 0 < ScopeDepth Sym \<and> ScopeDepth Sym \<le> length Ss"
  by (induction Ss) (auto split: option.splits)

lemma scopes_ok_drop: "scopes_ok Ss \<Longrightarrow> scopes_ok (drop n Ss)"
  by (induction Ss arbitrary: n) (auto simp: drop_Cons split: nat.splits)

lemma table_ok_update:
  assumes "\<And>Sym. SymName (f Sym) = SymName Sym \<and> ScopeDepth (f Sym) = ScopeDepth Sym" "table_ok t"
  shows "table_ok (lookup_update n f t)" "table_ok (forEachInCurrentScope f t)"
proof -
  have app: "scopes_ok (xs @ ys) \<longleftrightarrow> scopes_ok ys \<and> (\<forall>i < length xs. \<forall>k Sym. Symbols (xs ! i) k = Some Sym \<longrightarrow>
      k = lower (SymName Sym) \<and> ScopeDepth Sym = length xs - i + length ys)" for xs ys :: "'p Scope list"
    by (induction xs) (auto simp: All_less_Suc2)
  let ?h = "length (Scopes t) - length (visible_scopes t)"
  have v: "visible_scopes t = drop ?h (Scopes t)"
    by (simp add: visible_scopes_def Let_def min_def)
  have "take ?h (Scopes t) @ visible_scopes t = Scopes t" by (subst (2) v) (rule append_take_drop_id)
  then have "scopes_ok (take ?h (Scopes t) @ visible_scopes t)" using assms(2) by (simp add: table_ok_def)
  moreover have "scopes_ok (visible_scopes t)" using assms(2) scopes_ok_drop [of "Scopes t" ?h] v by (simp add: table_ok_def)
  note scopes_ok_update [OF assms(1) this, of "lower n"]
  ultimately show "table_ok (lookup_update n f t)" by (simp add: table_ok_def lookup_update_def Let_def app)
  show "table_ok (forEachInCurrentScope f t)"
    using assms by (cases "Scopes t") (auto simp: table_ok_def forEachInCurrentScope_def)
qed

text \<open>A symbol is still found when the scopes inside its own are hidden.\<close>

lemma lookup_loop_suffix:
  "scopes_ok Ss \<Longrightarrow> lookup_loop k Ss = Some Sym \<Longrightarrow> lookup_loop k (drop (length Ss - ScopeDepth Sym) Ss) = Some Sym"
proof (induction Ss)
  case (Cons S rest)
  show ?case
  proof (cases "Symbols S k")
    case None
    then have "lookup_loop k rest = Some Sym" "scopes_ok rest" using Cons.prems by auto
    then show ?thesis using Cons.IH scopes_ok_lookup [of rest k Sym] by (simp add: Suc_diff_le)
  next
    case (Some F)
    then show ?thesis using Cons.prems by auto
  qed
qed simp

subsection \<open>Correctness\<close>

text \<open>A scope leaves no trace: whatever is declared between \<open>pushScope\<close> and the matching \<open>popScope\<close>,
  accepted or refused, with blocks nested to any depth, the table afterwards is the table before.\<close>

theorem scope_leaves_no_trace:
  "popScope (fold (run_item pushScope popScope define_symbol) items (pushScope isBlock t)) = t"
  by (rule symtab.block_restores)

text \<open>C27. Declaring a name: it is refused, and nothing changes, exactly when no scope is open or the innermost
  scope already holds the name in any case and not as a required identifier.  Otherwise the name
  denotes the new symbol, in every spelling, every other name denotes what it did, and closing the scope
  brings back what the name denoted outside.\<close>

theorem define_then_lookup:
  assumes "Ceiling t = 0" "define_symbol Sym t = (ok, t')"
  shows "(ok \<longleftrightarrow> Scopes t \<noteq> [] \<and> (\<forall>E. lookupCurrent (SymName Sym) t = Some E \<longrightarrow> IsRequiredIdentifier E))
     \<and> (\<not> ok \<longrightarrow> t' = t)
     \<and> (ok \<longrightarrow> (\<forall>n. lookup n t' = (if lower n = lower (SymName Sym) then Some (Sym\<lparr>ScopeDepth := depth t\<rparr>) else lookup n t)))
     \<and> popScope t' = popScope t"
proof -
  have "ok \<longleftrightarrow> \<not> clashes Sym t" using assms(2) by (auto simp: define_symbol_eq split: if_splits)
  then show ?thesis
    using lookup_define [of Sym t] assms symtab.pop_declare [OF assms(2)] symtab.refused
    by (auto simp: clashes_def depth_def)
qed

theorem define_then_lookup_witness:
  "\<exists>t' :: unit SymbolTable. define_symbol \<lparr>SymKind = SkVar, SymName = ''Count'', ScopeDepth = 0, IsRequiredIdentifier = False, SymRest = ()\<rparr>
       (pushScope True emptyTable) = (True, t')
     \<and> map_option SymName (lookup ''COUNT'' t') = Some ''Count''"
proof -
  let ?S = "\<lparr>SymKind = SkVar, SymName = ''Count'', ScopeDepth = 0, IsRequiredIdentifier = False, SymRest = ()\<rparr>"
  let ?t = "pushScope True emptyTable :: unit SymbolTable"
  obtain ok t' where d: "define_symbol ?S ?t = (ok, t')" by fastforce
  have "lower ''COUNT'' = lower ''Count''" by code_simp
  moreover have "Ceiling ?t = 0" "Scopes ?t \<noteq> []" "lookupCurrent ''Count'' ?t = None"
    by (simp_all add: pushScope_def emptyTable_def lookupCurrent_def)
  ultimately show ?thesis using d define_then_lookup [OF _ d] by auto
qed

text \<open>Names bind where they are written: under a \<open>ScopeCeiling\<close> at the depth a schema was declared at,
  a name of its body denotes what it denoted there, whatever has been opened and declared since, and
  the schema itself is still found; leaving the ceiling restores the one before.\<close>

theorem ceiling_binds_at_declaration:
  assumes "Ceiling t = 0" "Scopes t \<noteq> []" "Scopes t' = inner @ Scopes t"
  shows "lookup n (t'\<lparr>Ceiling := depth t\<rparr>) = lookup n t
     \<and> Ceiling (with_ceiling (depth t) body t') = Ceiling t'
     \<and> (table_ok t \<longrightarrow> lookup n t = Some Sym \<longrightarrow> lookup n (t'\<lparr>Ceiling := ScopeDepth Sym\<rparr>) = Some Sym)"
proof -
  have "visible_scopes (t'\<lparr>Ceiling := d\<rparr>) = drop (length (Scopes t) - d) (Scopes t)" if "0 < d" "d \<le> length (Scopes t)" for d
    using that assms(3) by (simp add: visible_scopes_def Let_def min_def)
  note V = this
  have "lookup n (t'\<lparr>Ceiling := depth t\<rparr>) = lookup n t"
    using V [of "length (Scopes t)"] assms by (simp add: lookup_def depth_def visible_unlimited)
  moreover have "lookup n (t'\<lparr>Ceiling := ScopeDepth Sym\<rparr>) = Some Sym" if ok: "table_ok t" and l: "lookup n t = Some Sym"
  proof -
    have s: "scopes_ok (Scopes t)" "lookup_loop (lower n) (Scopes t) = Some Sym"
      using ok l assms(1) by (simp_all add: table_ok_def lookup_def visible_unlimited)
    then show ?thesis using V [of "ScopeDepth Sym"] scopes_ok_lookup [OF s] lookup_loop_suffix [OF s] by (simp add: lookup_def)
  qed
  ultimately show ?thesis by (simp add: with_ceiling_def)
qed

theorem ceiling_binds_at_declaration_witness:
  "lookup ''k'' ((pushScope True (pushScope False (pushScope True (emptyTable :: unit SymbolTable))))\<lparr>Ceiling := 1\<rparr>)
     = lookup ''k'' (pushScope True emptyTable :: unit SymbolTable)"
  using ceiling_binds_at_declaration [of "pushScope True emptyTable :: unit SymbolTable"
      "pushScope True (pushScope False (pushScope True emptyTable))"
      "[\<lparr>Symbols = Map.empty, IsBlock = True\<rparr>, \<lparr>Symbols = Map.empty, IsBlock = False\<rparr>]" "''k''" id]
  by (simp add: pushScope_def emptyTable_def depth_def)

text \<open>\<open>lookupInEnclosingBlock\<close> answers a symbol exactly when it is declared in the nearest block and
  no with-statement or \<open>for ... in\<close> between here and that block gives the name another meaning.\<close>

theorem enclosing_block_lookup:
  "lookupInEnclosingBlock name t = Some Sym \<longleftrightarrow>
     (\<exists>inner B outer. Scopes t = inner @ B # outer \<and> list_all (\<lambda>S. \<not> IsBlock S \<and> Symbols S (lower name) = None) inner
        \<and> IsBlock B \<and> Symbols B (lower name) = Some Sym)"
proof -
  have "enclosing_loop K Ss = Some Sym \<longleftrightarrow>
     (\<exists>inner B outer. Ss = inner @ B # outer \<and> list_all (\<lambda>S. \<not> IsBlock S \<and> Symbols S K = None) inner
        \<and> IsBlock B \<and> Symbols B K = Some Sym)" for K Ss
  proof (induction Ss)
    case (Cons S rest)
    let ?R = "\<lambda>Ss. \<exists>inner B outer. Ss = inner @ B # outer \<and> list_all (\<lambda>S. \<not> IsBlock S \<and> Symbols S K = None) inner
        \<and> IsBlock B \<and> Symbols B K = Some Sym"
    have split: "?R (S # rest) \<longleftrightarrow> (IsBlock S \<and> Symbols S K = Some Sym) \<or> (\<not> IsBlock S \<and> Symbols S K = None \<and> ?R rest)"
    proof
      assume "?R (S # rest)"
      then obtain inner B outer where d: "S # rest = inner @ B # outer" "IsBlock B" "Symbols B K = Some Sym"
        "list_all (\<lambda>S. \<not> IsBlock S \<and> Symbols S K = None) inner" by blast
      then show "(IsBlock S \<and> Symbols S K = Some Sym) \<or> (\<not> IsBlock S \<and> Symbols S K = None \<and> ?R rest)"
        by (cases inner) auto
    next
      assume "(IsBlock S \<and> Symbols S K = Some Sym) \<or> (\<not> IsBlock S \<and> Symbols S K = None \<and> ?R rest)"
      then show "?R (S # rest)"
      proof
        assume "IsBlock S \<and> Symbols S K = Some Sym"
        then show ?thesis by (intro exI [where x = "[]"] exI [where x = S] exI [where x = rest]) simp
      next
        assume n: "\<not> IsBlock S \<and> Symbols S K = None \<and> ?R rest"
        then obtain inner B outer where "rest = inner @ B # outer" "IsBlock B" "Symbols B K = Some Sym"
          "list_all (\<lambda>S. \<not> IsBlock S \<and> Symbols S K = None) inner" by blast
        then show ?thesis using n by (intro exI [where x = "S # inner"] exI [where x = B] exI [where x = outer]) simp
      qed
    qed
    show ?case using Cons.IH unfolding split by (auto split: option.splits)
  qed simp
  then show ?thesis by (simp add: lookupInEnclosingBlock_def)
qed

text \<open>C40. Every operation keeps the table consistent: symbols stand under their folded names and know how many
  scopes were open when they were declared.  A write through a found symbol keeps it too as long as
  it leaves the name and the depth alone.\<close>

theorem symbol_table_invariant:
  fixes t :: "'p SymbolTable"
  assumes "table_ok t" "\<And>Sym. SymName (f Sym) = SymName Sym \<and> ScopeDepth (f Sym) = ScopeDepth Sym"
  shows "table_ok (pushScope b t) \<and> table_ok (popScope t) \<and> table_ok (snd (define_symbol Sym t))
     \<and> table_ok (lookup_update n f t) \<and> table_ok (forEachInCurrentScope f t) \<and> table_ok (emptyTable :: 'p SymbolTable)
     \<and> (\<forall>S. lookup n t = Some S \<longrightarrow> lower (SymName S) = lower n \<and> 0 < ScopeDepth S \<and> ScopeDepth S \<le> depth t)"
proof -
  have "lower (SymName S) = lower n \<and> 0 < ScopeDepth S \<and> ScopeDepth S \<le> depth t" if "lookup n t = Some S" for S
  proof -
    have "scopes_ok (visible_scopes t)" "length (visible_scopes t) \<le> depth t"
      using assms(1) scopes_ok_drop [of "Scopes t"] by (simp_all add: table_ok_def visible_scopes_def Let_def depth_def)
    then show ?thesis using scopes_ok_lookup that by (fastforce simp: lookup_def)
  qed
  then show ?thesis
    using assms table_ok_update [OF assms(2,1)] by (simp add: table_ok_push table_ok_pop table_ok_define table_ok_empty)
qed

theorem symbol_table_invariant_witness:
  "table_ok (forEachInCurrentScope (\<lambda>S. S\<lparr>SymRest := True\<rparr>) (pushScope True emptyTable))"
  using symbol_table_invariant [of "pushScope True emptyTable" "\<lambda>S. S\<lparr>SymRest := True\<rparr>"]
  by (simp add: table_ok_push table_ok_empty)

end
