(* ===== verification/Parse_State.thy ===== *)
theory Parse_State
  imports Lexer_Props "HOL-Library.Monad_Syntax"
begin

text \<open>
  The state of the parser, \<^verbatim>\<open>include/plang/Parse/Parser.h\<close>, its token plumbing,
  \<^verbatim>\<open>lib/Parse/Parser.cpp\<close>, and the expression nodes of \<^verbatim>\<open>include/plang/AST/AstExpr.h\<close>
  as the parser fills them in; what later phases write into a node is not part of it.  The parser owns a
  scanner and one token of lookahead.  What the code asks of its surroundings is the record \<open>outside\<close>: the
  files includes are read from, the message catalogue, the real literals that overflow a double, and, for
  every measurement of the stack in turn, whether it is nearly exhausted.  The reports the parser makes are
  kept apart from those of its scanner.
\<close>

subsection \<open>Expressions\<close>

text \<open>A real literal carries its text, or nothing when the text overflowed and the node's value is zero.\<close>

datatype 'l Expr =
    IntLitExpr 'l int bool
  | RealLitExpr 'l "bytes option"
  | StringLitExpr 'l bytes
  | BoolLitExpr 'l bool
  | NilExpr 'l
  | IdentExpr 'l bytes
  | IndexExpr 'l "'l Expr" "'l Expr"
  | FieldExpr 'l "'l Expr" bytes
  | DerefExpr 'l "'l Expr"
  | BinaryExpr 'l TokenKind "'l Expr" "'l Expr"
  | UnaryExpr 'l TokenKind "'l Expr"
  | CallExpr 'l bytes "'l Expr list"
  | SetRangeExpr 'l "'l Expr" "'l Expr"
  | SetLiteralExpr 'l bytes "'l Expr list"
  | SubstringExpr 'l "'l Expr" "'l Expr" "'l Expr"
  | StructuredValueExpr 'l bytes "'l Arm list"
  | TypeCastExpr 'l bytes "'l Expr"
  | WriteParam 'l "'l Expr" "'l Expr" "'l Expr option"
  | MethodCallExpr 'l "'l Expr" bytes "'l Expr list"
  | InheritedCallExpr 'l bytes "'l Expr list"
  | IndirectCallExpr 'l "'l Expr" "'l Expr list"
and 'l Arm = StructuredValueArm bool "'l Expr list" "'l Expr"

fun expr_loc :: "'l Expr \<Rightarrow> 'l" where
  "expr_loc (IntLitExpr l v b) = l"
| "expr_loc (RealLitExpr l v) = l"
| "expr_loc (StringLitExpr l v) = l"
| "expr_loc (BoolLitExpr l v) = l"
| "expr_loc (NilExpr l) = l"
| "expr_loc (IdentExpr l n) = l"
| "expr_loc (IndexExpr l a i) = l"
| "expr_loc (FieldExpr l r f) = l"
| "expr_loc (DerefExpr l q) = l"
| "expr_loc (BinaryExpr l k a b) = l"
| "expr_loc (UnaryExpr l k a) = l"
| "expr_loc (CallExpr l n as) = l"
| "expr_loc (SetRangeExpr l a b) = l"
| "expr_loc (SetLiteralExpr l n es) = l"
| "expr_loc (SubstringExpr l s a b) = l"
| "expr_loc (StructuredValueExpr l n as) = l"
| "expr_loc (TypeCastExpr l n e) = l"
| "expr_loc (WriteParam l e w d) = l"
| "expr_loc (MethodCallExpr l r m as) = l"
| "expr_loc (InheritedCallExpr l m as) = l"
| "expr_loc (IndirectCallExpr l c as) = l"

fun is_IdentExpr :: "'l Expr \<Rightarrow> bool" where
  "is_IdentExpr (IdentExpr l n) = True"
| "is_IdentExpr _ = False"

type_synonym expr = "Token Expr"
type_synonym arm = "Token Arm"

subsection \<open>The parser\<close>

text \<open>The identifiers of \<^verbatim>\<open>DiagnosticParseKinds.def\<close> that the parser raises.\<close>

datatype ParseDiag =
    err_expected_token | err_expected_token_got_lexeme | err_ep_operator | err_expected_expr
  | err_int_literal_out_of_range | err_real_literal_out_of_range
  | err_expr_too_deeply_nested | err_value_too_deeply_nested
  | err_stmt_too_deeply_nested | err_expected_goto_label | err_unexpected_int_literal
  | err_expected_assign_after_var | err_ep_for_in | err_expected_to_or_downto
  | err_ep_case_otherwise | err_ep_case_range
  | err_type_too_deeply_nested | err_restricted_needs_type_name | err_expected_type_expr
  | err_packed_conformant_shape | err_turbo_conformant_array
  | err_proc_too_deeply_nested | err_expected_label | err_ep_named_result | err_const_var_combined
  | err_module_to_needs_begin_or_end

record outside =
  Files :: FileSystem
  StackLow :: "nat \<Rightarrow> bool"
  Localized :: "TokenKind \<Rightarrow> bytes option"
  RealOverflows :: "bytes \<Rightarrow> bool"

record Parser =
  Outside :: outside
  POpts :: LangOptions
  Lex :: Scanner
  Current :: Token
  ErrorCount :: nat
  PDiags :: "(SourceLocation \<times> ParseDiag \<times> bytes list) list"
  ExprDepth :: nat
  ExprDepthLimitHit :: bool
  StackProbes :: nat
  PowerDepth :: nat
  PowerDepthLimitHit :: bool
  ValueDepth :: nat
  ValueDepthLimitHit :: bool
  StmtDepth :: nat
  StmtDepthLimitHit :: bool
  TypeDepth :: nat
  TypeDepthLimitHit :: bool
  BlockDepth :: nat
  BlockDepthLimitHit :: bool
  TurboConstValueDepth :: nat
  TurboConstValueDepthLimitHit :: bool
  HarvestImportedTypeNames :: bool
  QualifiedModules :: "bytes set"
  TypeNames :: "bytes set"
  VarNames :: "bytes set"

type_synonym 'a parse = "Parser \<Rightarrow> ('a \<times> Parser) option"

subsection \<open>Tokens\<close>

definition parse_error :: "SourceLocation \<Rightarrow> ParseDiag \<Rightarrow> bytes list \<Rightarrow> Parser \<Rightarrow> Parser" where
  "parse_error loc ident args p = p\<lparr>ErrorCount := Suc (ErrorCount p), PDiags := PDiags p @ [(loc, ident, args)]\<rparr>"

definition advance :: "Parser \<Rightarrow> Parser" where
  "advance p = (case next_token (Files (Outside p)) (Lex p) of (tok, lx) \<Rightarrow> p\<lparr>Current := tok, Lex := lx\<rparr>)"

definition check :: "TokenKind \<Rightarrow> Parser \<Rightarrow> bool" where
  "check k p \<longleftrightarrow> Kind (Current p) = k"

definition describe_kind :: "Parser \<Rightarrow> TokenKind \<Rightarrow> bytes" where
  "describe_kind p k = describe (Localized (Outside p)) k"

definition expect :: "TokenKind \<Rightarrow> Parser \<Rightarrow> Token \<times> Parser" where
  "expect k p =
     (if Kind (Current p) = k then (Current p, advance p)
      else
        (\<lparr>Kind = k, Lexeme = [], Loc = Loc (Current p)\<rparr>,
         if hasFixedSpelling (Kind (Current p)) \<or> Lexeme (Current p) = [] then
           parse_error (Loc (Current p)) err_expected_token [describe_kind p k, describe_kind p (Kind (Current p))] p
         else
           parse_error (Loc (Current p)) err_expected_token_got_lexeme
             [describe_kind p k, describe_kind p (Kind (Current p)), Lexeme (Current p)] p))"

definition match_tok :: "TokenKind \<Rightarrow> Parser \<Rightarrow> bool \<times> Parser" where
  "match_tok k p = (if Kind (Current p) = k then (True, advance p) else (False, p))"

text \<open>The names the constructor seeds under Turbo, and the constructor.\<close>

definition SizedIntegerLadder :: "bytes list" where
  "SizedIntegerLadder =
     [''shortint'', ''byte'', ''smallint'', ''word'', ''cardinal'', ''longint'', ''longword'', ''int64'', ''qword'',
      ''ansichar'', ''pointer'', ''pchar'', ''pansichar'']"

definition BoolAndSingle :: "bytes list" where
  "BoolAndSingle = [''bytebool'', ''wordbool'', ''longbool'', ''single'']"

definition newParser :: "outside \<Rightarrow> Scanner \<Rightarrow> LangOptions \<Rightarrow> Parser" where
  "newParser out sc opts =
     advance \<lparr>Outside = out, POpts = opts, Lex = sc, Current = \<lparr>Kind = tkEof, Lexeme = [], Loc = 0\<rparr>,
       ErrorCount = 0, PDiags = [], ExprDepth = 0, ExprDepthLimitHit = False, StackProbes = 0,
       PowerDepth = 0, PowerDepthLimitHit = False, ValueDepth = 0, ValueDepthLimitHit = False,
       StmtDepth = 0, StmtDepthLimitHit = False,
       TypeDepth = 0, TypeDepthLimitHit = False, BlockDepth = 0, BlockDepthLimitHit = False,
       TurboConstValueDepth = 0, TurboConstValueDepthLimitHit = False, HarvestImportedTypeNames = True, QualifiedModules = {},
       TypeNames = (if turbo opts then set SizedIntegerLadder \<union> set BoolAndSingle else {}),
       VarNames = {}\<rparr>"

subsection \<open>Guards on recursion\<close>

text \<open>\<^verbatim>\<open>plang::stackNearlyExhausted(StackBaseline)\<close>: the answer to the next measurement.\<close>

definition stackNearlyExhausted :: "Parser \<Rightarrow> bool \<times> Parser" where
  "stackNearlyExhausted p = (StackLow (Outside p) (StackProbes p), p\<lparr>StackProbes := Suc (StackProbes p)\<rparr>)"

text \<open>The constructors and destructors of the scope objects.\<close>

definition enterExpr :: "Parser \<Rightarrow> Parser" where
  "enterExpr p = p\<lparr>ExprDepth := Suc (ExprDepth p)\<rparr>"

definition leaveExpr :: "Parser \<Rightarrow> Parser" where
  "leaveExpr p = (let n = ExprDepth p - 1 in
     p\<lparr>ExprDepth := n, ExprDepthLimitHit := (if n = 0 then False else ExprDepthLimitHit p)\<rparr>)"

definition enterPower :: "Parser \<Rightarrow> Parser" where
  "enterPower p = p\<lparr>PowerDepth := Suc (PowerDepth p)\<rparr>"

definition leavePower :: "Parser \<Rightarrow> Parser" where
  "leavePower p = (let n = PowerDepth p - 1 in
     p\<lparr>PowerDepth := n, PowerDepthLimitHit := (if n = 0 then False else PowerDepthLimitHit p)\<rparr>)"

definition enterValue :: "Parser \<Rightarrow> Parser" where
  "enterValue p = p\<lparr>ValueDepth := Suc (ValueDepth p)\<rparr>"

definition leaveValue :: "Parser \<Rightarrow> Parser" where
  "leaveValue p = (let n = ValueDepth p - 1 in
     p\<lparr>ValueDepth := n, ValueDepthLimitHit := (if n = 0 then False else ValueDepthLimitHit p)\<rparr>)"

definition enterStmt :: "Parser \<Rightarrow> Parser" where
  "enterStmt p = p\<lparr>StmtDepth := Suc (StmtDepth p)\<rparr>"

definition leaveStmt :: "Parser \<Rightarrow> Parser" where
  "leaveStmt p = (let n = StmtDepth p - 1 in
     p\<lparr>StmtDepth := n, StmtDepthLimitHit := (if n = 0 then False else StmtDepthLimitHit p)\<rparr>)"

definition enterType :: "Parser \<Rightarrow> Parser" where
  "enterType p = p\<lparr>TypeDepth := Suc (TypeDepth p)\<rparr>"

definition leaveType :: "Parser \<Rightarrow> Parser" where
  "leaveType p = (let n = TypeDepth p - 1 in
     p\<lparr>TypeDepth := n, TypeDepthLimitHit := (if n = 0 then False else TypeDepthLimitHit p)\<rparr>)"

definition enterBlock :: "Parser \<Rightarrow> Parser" where
  "enterBlock p = p\<lparr>BlockDepth := Suc (BlockDepth p)\<rparr>"

definition leaveBlock :: "Parser \<Rightarrow> Parser" where
  "leaveBlock p = (let n = BlockDepth p - 1 in
     p\<lparr>BlockDepth := n, BlockDepthLimitHit := (if n = 0 then False else BlockDepthLimitHit p)\<rparr>)"

definition enterConstValue :: "Parser \<Rightarrow> Parser" where
  "enterConstValue p = p\<lparr>TurboConstValueDepth := Suc (TurboConstValueDepth p)\<rparr>"

definition leaveConstValue :: "Parser \<Rightarrow> Parser" where
  "leaveConstValue p = (let n = TurboConstValueDepth p - 1 in
     p\<lparr>TurboConstValueDepth := n, TurboConstValueDepthLimitHit := (if n = 0 then False else TurboConstValueDepthLimitHit p)\<rparr>)"

text \<open>\<^verbatim>\<open>Lex.allowCaretControlCharNext()\<close>.\<close>

definition arm_caret :: "Parser \<Rightarrow> Parser" where
  "arm_caret p = p\<lparr>Lex := allowCaretControlCharNext (Lex p)\<rparr>"

end
