(* ===== verification/Expr_Parser.thy ===== *)
theory Expr_Parser
  imports Parse_State
begin

text \<open>
  Parsing of expressions and of structured values, \<^verbatim>\<open>lib/Parse/ParseExpr.cpp\<close> and
  \<^verbatim>\<open>lib/Parse/ParseInit.cpp\<close>.  One definition per method and one per loop, in the order of the
  recursion.  A method that is re-entered, and every loop, is called through the record \<open>methods\<close>;
  \<open>methods_at n\<close> ties the knot for call chains of at most \<open>n\<close> such entries and answers \<open>None\<close> beyond.
  How large \<open>n\<close> has to be is proved in \<^verbatim>\<open>Expr_Parser_Props\<close>: four times the tokens left, and one
  more.
\<close>

record methods =
  mExpression :: "expr parse"
  mPower :: "expr parse"
  mFactor :: "expr parse"
  mComponentValue :: "expr parse"
  mAddLoop :: "expr \<Rightarrow> expr parse"
  mMulLoop :: "expr \<Rightarrow> expr parse"
  mPostfix :: "expr \<Rightarrow> expr parse"
  mDrain :: "unit parse"
  mArgs :: "expr list \<Rightarrow> expr list parse"
  mLabels :: "expr list \<Rightarrow> expr list parse"
  mIndex :: "Token \<Rightarrow> expr \<Rightarrow> expr parse"
  mValueArms :: "arm list \<Rightarrow> arm list parse"
  mFieldList :: "arm list \<Rightarrow> arm list parse"
  mVariantPart :: "arm list \<Rightarrow> arm list parse"
  mArms :: "arm list \<Rightarrow> arm list parse"

subsection \<open>Operators\<close>

definition isRelop :: "TokenKind \<Rightarrow> bool" where
  "isRelop k \<longleftrightarrow> k \<in> {tkEqual, tkNotEqual, tkLessThan, tkLessThanOrEqual, tkGreaterThan, tkGreaterThanOrEqual, tkIn}"

definition isAddop :: "TokenKind \<Rightarrow> bool" where
  "isAddop k \<longleftrightarrow> k \<in> {tkPlus, tkMinus, tkOr, tkOrElse, tkSymDiff, tkXor}"

definition isMulop :: "TokenKind \<Rightarrow> bool" where
  "isMulop k \<longleftrightarrow> k \<in> {tkTimes, tkDivide, tkDiv, tkMod, tkAnd, tkAndThen, tkShl, tkShr}"

definition isExpop :: "TokenKind \<Rightarrow> bool" where
  "isExpop k \<longleftrightarrow> k = tkStarStar \<or> k = tkPow"

definition MaxExprDepth :: nat where "MaxExprDepth = 500"

definition MaxValueDepth :: nat where "MaxValueDepth = 500"

subsection \<open>Lists in brackets\<close>

text \<open>\<^verbatim>\<open>while (match(Comma)) Args.push_back(parseExpression());\<close>\<close>

definition args_loop :: "methods \<Rightarrow> expr list \<Rightarrow> expr list parse" where
  "args_loop R as p =
     (case match_tok tkComma p of (m, p1) \<Rightarrow>
        if m then do { (a, p2) \<leftarrow> mExpression R p1; mArgs R (as @ [a]) p2 } else Some (as, p1))"

text \<open>The arguments of a call from behind its left parenthesis, through the right one.\<close>

definition parse_args :: "methods \<Rightarrow> expr list parse" where
  "parse_args R p =
     do { (as, p1) \<leftarrow> (if \<not> check tkRightParen p then do { (a, q) \<leftarrow> mExpression R p; mArgs R [a] q } else Some ([], p));
          Some (as, snd (expect tkRightParen p1)) }"

text \<open>One label or set element: a value, or a range with its upper end.\<close>

definition label_expr :: "expr \<times> expr option \<Rightarrow> expr" where
  "label_expr l = (case l of (e, None) \<Rightarrow> e | (e, Some h) \<Rightarrow> SetRangeExpr (expr_loc e) e h)"

definition parseOneLabel :: "methods \<Rightarrow> (expr \<times> expr option) parse" where
  "parseOneLabel R p =
     do { (e, p1) \<leftarrow> mExpression R p;
          (case match_tok tkDotDot p1 of (m, p2) \<Rightarrow>
             if m then do { (h, p3) \<leftarrow> mExpression R p2; Some ((e, Some h), p3) } else Some ((e, None), p2)) }"

definition label_loop :: "methods \<Rightarrow> expr list \<Rightarrow> expr list parse" where
  "label_loop R ls p =
     (case match_tok tkComma p of (m, p1) \<Rightarrow>
        if m then do { (l, p2) \<leftarrow> parseOneLabel R p1; mLabels R (ls @ [label_expr l]) p2 } else Some (ls, p1))"

definition parseValueLabels :: "methods \<Rightarrow> expr list parse" where
  "parseValueLabels R p = do { (l, p1) \<leftarrow> parseOneLabel R p; mLabels R [label_expr l] p1 }"

subsection \<open>Postfix operators\<close>

text \<open>The subscripts of one bracket pair, \<^verbatim>\<open>do ... while (match(Comma))\<close>.\<close>

definition index_loop :: "methods \<Rightarrow> Token \<Rightarrow> expr \<Rightarrow> expr parse" where
  "index_loop R L e p =
     do { (i, p1) \<leftarrow> mExpression R p;
          (e', p3) \<leftarrow> (case match_tok tkDotDot p1 of (m, p2) \<Rightarrow>
             if m then do { (h, q) \<leftarrow> mExpression R p2; Some (SubstringExpr L e i h, q) } else Some (IndexExpr L e i, p2));
          (case match_tok tkComma p3 of (m, p4) \<Rightarrow> if m then mIndex R L e' p4 else Some (e', p4)) }"

definition parsePostfix :: "methods \<Rightarrow> expr \<Rightarrow> expr parse" where
  "parsePostfix R e p =
     (let L = Current p in
      if check tkLeftBracket p then
        do { (e', p1) \<leftarrow> mIndex R L e (advance p); mPostfix R e' (snd (expect tkRightBracket p1)) }
      else if check tkDot p then
        (case expect tkIdentifier (advance p) of (f, p1) \<Rightarrow>
           if check tkLeftParen p1 then
             do { (as, p2) \<leftarrow> parse_args R (advance p1); mPostfix R (MethodCallExpr L e (Lexeme f) as) p2 }
           else mPostfix R (FieldExpr L e (Lexeme f)) p1)
      else if check tkCaret p then mPostfix R (DerefExpr L e) (advance p)
      else if check tkLeftParen p \<and> \<not> is_IdentExpr e then
        do { (as, p1) \<leftarrow> parse_args R (advance p); mPostfix R (IndirectCallExpr L e as) p1 }
      else Some (e, p))"

subsection \<open>Structured values\<close>

text \<open>The closing bracket, silently when the nesting ceiling was hit below.\<close>

definition close_value :: "Parser \<Rightarrow> Parser" where
  "close_value p = (if ValueDepthLimitHit p then snd (match_tok tkRightBracket p) else snd (expect tkRightBracket p))"

definition parseValueArms :: "methods \<Rightarrow> arm list \<Rightarrow> arm list parse" where
  "parseValueArms R arms p =
     (if check tkRightBracket p \<or> check tkEof p then Some (arms, p)
      else if check tkOtherwise p then
        (case match_tok tkColon (advance p) of (_, p1) \<Rightarrow>
           do { (v, p2) \<leftarrow> mComponentValue R p1;
                Some (arms @ [StructuredValueArm True [] v], snd (match_tok tkSemicolon p2)) })
      else
        do { (arms', p3) \<leftarrow>
               (if check tkCase p then mVariantPart R arms p
                else do { (ls, p1) \<leftarrow> parseValueLabels R p;
                          (v, p2) \<leftarrow> mComponentValue R (snd (expect tkColon p1));
                          Some (arms @ [StructuredValueArm False ls v], p2) });
             (case match_tok tkSemicolon p3 of (m, p4) \<Rightarrow> if m then mValueArms R arms' p4 else Some (arms', p4)) })"

definition parseFieldListValue :: "methods \<Rightarrow> arm list \<Rightarrow> arm list parse" where
  "parseFieldListValue R arms p =
     (if check tkRightBracket p \<or> check tkEof p then Some (arms, p)
      else
        do { (arms', p3) \<leftarrow>
               (if check tkCase p then mVariantPart R arms p
                else do { (l, p0) \<leftarrow> mExpression R p;
                          (ls, p1) \<leftarrow> mArgs R [l] p0;
                          (v, p2) \<leftarrow> mExpression R (snd (expect tkColon p1));
                          Some (arms @ [StructuredValueArm False ls v], p2) });
             (case match_tok tkSemicolon p3 of (m, p4) \<Rightarrow> if m then mFieldList R arms' p4 else Some (arms', p4)) })"

definition parseVariantPartValue :: "methods \<Rightarrow> arm list \<Rightarrow> arm list parse" where
  "parseVariantPartValue R arms p =
     (if ValueDepth p \<ge> MaxValueDepth then
        Some (arms, if \<not> ValueDepthLimitHit p
                    then parse_error (Loc (Current p)) err_value_too_deeply_nested [] (p\<lparr>ValueDepthLimitHit := True\<rparr>)
                    else p)
      else
        do { (first, p1) \<leftarrow> mExpression R (advance (enterValue p));
             (arms', p3) \<leftarrow> (case match_tok tkColon p1 of (m, p2) \<Rightarrow>
                if m then do { (v, q) \<leftarrow> mExpression R p2; Some (arms @ [StructuredValueArm False [first] v], q) }
                else Some (arms, p2));
             (arms'', p5) \<leftarrow> mFieldList R arms' (snd (expect tkLeftBracket (snd (expect tkOf p3))));
             Some (arms'', leaveValue (close_value p5)) })"

definition parseComponentValue :: "methods \<Rightarrow> expr parse" where
  "parseComponentValue R p =
     (if ValueDepth p \<ge> MaxValueDepth then
        Some (IntLitExpr (Current p) 0 False,
              if \<not> ValueDepthLimitHit p
              then parse_error (Loc (Current p)) err_value_too_deeply_nested [] (p\<lparr>ValueDepthLimitHit := True\<rparr>)
              else p)
      else
        do { (e, q) \<leftarrow>
          (let p0 = enterValue p; L = Current p0 in
           if \<not> check tkLeftBracket p0 then mExpression R p0
           else
             (case match_tok tkRightBracket (advance p0) of (isEmpty, p1) \<Rightarrow>
                if isEmpty then Some (StructuredValueExpr L [] [], p1)
                else if check tkCase p1 \<or> check tkOtherwise p1 then
                  do { (arms, p2) \<leftarrow> mValueArms R [] p1; Some (StructuredValueExpr L [] arms, close_value p2) }
                else
                  do { (ls, p2) \<leftarrow> parseValueLabels R p1;
                       if \<not> check tkColon p2 then Some (SetLiteralExpr L [] ls, snd (expect tkRightBracket p2))
                       else
                         do { (v, p3) \<leftarrow> mComponentValue R (advance p2);
                              (arms, p5) \<leftarrow> (case match_tok tkSemicolon p3 of (m, p4) \<Rightarrow>
                                 if m then mValueArms R [StructuredValueArm False ls v] p4
                                 else Some ([StructuredValueArm False ls v], p4));
                              Some (StructuredValueExpr L [] arms, close_value p5) } }));
          Some (e, leaveValue q) })"

text \<open>The arms after the first of \<^verbatim>\<open>TypeName[labels: value; ...]\<close>.\<close>

definition arm_loop :: "methods \<Rightarrow> arm list \<Rightarrow> arm list parse" where
  "arm_loop R arms p =
     (case match_tok tkSemicolon p of (m, p1) \<Rightarrow>
        if \<not> m \<or> check tkRightBracket p1 \<or> check tkEof p1 then Some (arms, p1)
        else if check tkOtherwise p1 then
          (case match_tok tkColon (advance p1) of (_, p2) \<Rightarrow>
             do { (v, p3) \<leftarrow> mComponentValue R p2;
                  Some (arms @ [StructuredValueArm True [] v], snd (match_tok tkSemicolon p3)) })
        else if check tkCase p1 then do { (arms', p2) \<leftarrow> mVariantPart R arms p1; mArms R arms' p2 }
        else
          do { (l, p2) \<leftarrow> parseOneLabel R p1;
               (ls, p3) \<leftarrow> mLabels R [label_expr l] p2;
               (v, p4) \<leftarrow> mComponentValue R (snd (expect tkColon p3));
               mArms R (arms @ [StructuredValueArm False ls v]) p4 })"

text \<open>What a bracket after a name means when no colon follows its list: subscripts, a typed set, a
  substring.\<close>

definition index_or_set :: "methods \<Rightarrow> bytes \<Rightarrow> Token \<Rightarrow> expr \<times> expr option \<Rightarrow> expr list \<Rightarrow> expr parse" where
  "index_or_set R Name L first labels p =
     (let Lower = toLower Name; NamesAType = (Lower \<in> TypeNames p \<and> Lower \<notin> VarNames p) in
      if length labels > 1 \<and> \<not> NamesAType then
        mPostfix R (foldl (\<lambda>e l. IndexExpr L e l) (IdentExpr L Name) labels) p
      else if length labels = 1 \<and> NamesAType then Some (SetLiteralExpr L Name [label_expr first], p)
      else if length labels = 1 then
        (case first of
           (i, None) \<Rightarrow> mPostfix R (IndexExpr L (IdentExpr L Name) i) p
         | (lo, Some hi) \<Rightarrow> Some (SubstringExpr L (IdentExpr L Name) lo hi, p))
      else Some (SetLiteralExpr L Name labels, p))"

definition parseStructuredValueOrIndex :: "methods \<Rightarrow> bytes \<Rightarrow> Token \<Rightarrow> expr parse" where
  "parseStructuredValueOrIndex R Name L p =
     (case match_tok tkRightBracket (advance p) of (isEmpty, p1) \<Rightarrow>
        if isEmpty then Some (SetLiteralExpr L Name [], p1)
        else if check tkCase p1 then
          do { (arms, p2) \<leftarrow> mVariantPart R [] p1;
               mPostfix R (StructuredValueExpr L Name arms) (close_value (snd (match_tok tkSemicolon p2))) }
        else if check tkOtherwise p1 then
          (case match_tok tkColon (advance p1) of (_, p2) \<Rightarrow>
             do { (v, p3) \<leftarrow> mExpression R p2;
                  mPostfix R (StructuredValueExpr L Name [StructuredValueArm True [] v])
                    (snd (expect tkRightBracket (snd (match_tok tkSemicolon p3)))) })
        else
          do { (first, p2) \<leftarrow> parseOneLabel R p1;
               (labels, p3) \<leftarrow> mLabels R [label_expr first] p2;
               (case match_tok tkColon p3 of (colon, p4) \<Rightarrow>
                  if colon then
                    do { (v, p5) \<leftarrow> mComponentValue R p4;
                         (arms, p6) \<leftarrow> mArms R [StructuredValueArm False labels v] p5;
                         mPostfix R (StructuredValueExpr L Name arms) (close_value p6) }
                  else
                    (case match_tok tkRightBracket p4 of (closed, p5) \<Rightarrow>
                       if closed then index_or_set R Name L first labels p5
                       else
                         Some (IdentExpr L Name,
                           parse_error (Loc (Current p5)) err_expected_token
                             [describe_kind p5 tkRightBracket, describe_kind p5 (Kind (Current p5))] p5))) })"

subsection \<open>Factors\<close>

text \<open>\<^verbatim>\<open>std::from_chars\<close> on the digits of an integer literal, into 64 signed bits and, past them, into 64
  unsigned ones: the value, whether it exceeds the signed range, and whether it is in range at all.\<close>

definition int_literal :: "bytes \<Rightarrow> int \<times> bool \<times> bool" where
  "int_literal S =
     (let ds = takeWhile isdigit S; v = foldl (\<lambda>v c. v * 10 + digit_val c) 0 ds in
      if v \<le> INT64_MAX then (v, False, True)
      else if v < 2 ^ 64 \<and> ds = S then (v - 2 ^ 64, True, True)
      else (0, False, False))"

definition factor_int :: "Parser \<Rightarrow> expr \<times> Parser" where
  "factor_int p =
     (case int_literal (Lexeme (Current p)) of (v, ex, ok) \<Rightarrow>
        (IntLitExpr (Current p) v ex,
         advance (if ok then p else parse_error (Loc (Current p)) err_int_literal_out_of_range [Lexeme (Current p)] p)))"

definition factor_real :: "Parser \<Rightarrow> expr \<times> Parser" where
  "factor_real p =
     (let S = Lexeme (Current p) in
      if RealOverflows (Outside p) S
      then (RealLitExpr (Current p) None, advance (parse_error (Loc (Current p)) err_real_literal_out_of_range [S] p))
      else (RealLitExpr (Current p) (Some S), advance p))"

text \<open>\<^verbatim>\<open>TypeName(expr)\<close> from behind the left parenthesis.\<close>

definition type_cast :: "methods \<Rightarrow> Token \<Rightarrow> bytes \<Rightarrow> expr parse" where
  "type_cast R L Name p =
     do { (e, p1) \<leftarrow> mExpression R p; mPostfix R (TypeCastExpr L Name e) (snd (expect tkRightParen p1)) }"

definition isTypeKeyword :: "TokenKind \<Rightarrow> bool" where
  "isTypeKeyword k \<longleftrightarrow> k \<in> {tkInteger, tkReal, tkBoolean, tkChar, tkString}"

definition parseSizeHighLowArg :: "methods \<Rightarrow> bytes \<Rightarrow> expr parse" where
  "parseSizeHighLowArg R Callee p =
     (if toLower Callee \<in> {''sizeof'', ''high'', ''low''} \<and> isTypeKeyword (Kind (Current p))
      then Some (IdentExpr (Current p) (Lexeme (Current p)), advance p)
      else mExpression R p)"

definition factor_set :: "methods \<Rightarrow> Token \<Rightarrow> expr parse" where
  "factor_set R L p =
     do { (es, p1) \<leftarrow> (if \<not> check tkRightBracket p then do { (l, q) \<leftarrow> parseOneLabel R p; mLabels R [label_expr l] q }
                        else Some ([], p));
          Some (SetLiteralExpr L [] es, snd (expect tkRightBracket p1)) }"

definition factor_keyword :: "methods \<Rightarrow> Token \<Rightarrow> expr parse" where
  "factor_keyword R L p =
     (if turbo (POpts p) \<and> check tkLeftParen p then type_cast R L (Lexeme L) (advance p)
      else Some (IntLitExpr L 0 False, parse_error (Loc L) err_expected_expr [describe_kind p (Kind L)] p))"

definition factor_inherited :: "methods \<Rightarrow> Token \<Rightarrow> expr parse" where
  "factor_inherited R L p =
     (if check tkIdentifier p then
        (case match_tok tkLeftParen (advance p) of (m, p1) \<Rightarrow>
           do { (as, p2) \<leftarrow> (if m then parse_args R p1 else Some ([], p1));
                mPostfix R (InheritedCallExpr L (Lexeme (Current p)) as) p2 })
      else mPostfix R (InheritedCallExpr L [] []) p)"

text \<open>\<^verbatim>\<open>M.name\<close> of a module imported \<open>qualified\<close>.\<close>

definition qualified_name :: "bytes \<Rightarrow> Parser \<Rightarrow> bytes \<times> Parser" where
  "qualified_name Name p =
     (if check tkDot p \<and> toLower Name \<in> QualifiedModules p then
        (case expect tkIdentifier (advance p) of (t, p1) \<Rightarrow> (Name @ ''.'' @ Lexeme t, p1))
      else (Name, p))"

definition factor_identifier :: "methods \<Rightarrow> Token \<Rightarrow> expr parse" where
  "factor_identifier R L p =
     (case qualified_name (Lexeme L) p of (Name, p1) \<Rightarrow>
        let Lower = toLower Name; NamesAType = (turbo (POpts p1) \<and> Lower \<in> TypeNames p1 \<and> Lower \<notin> VarNames p1) in
        if NamesAType \<and> check tkLeftParen p1 then type_cast R L Name (advance p1)
        else if check tkLeftParen p1 then
          (let p2 = advance p1 in
           do { (as, p4) \<leftarrow> (if \<not> check tkRightParen p2
                              then do { (a, p3) \<leftarrow> parseSizeHighLowArg R Name p2; mArgs R [a] p3 }
                              else Some ([], p2));
                mPostfix R (CallExpr L Name as) (snd (expect tkRightParen p4)) })
        else if extendedPascal (POpts p1) \<and> check tkLeftBracket p1 then parseStructuredValueOrIndex R Name L p1
        else mPostfix R (IdentExpr L Name) p1)"

definition factor_paren :: "methods \<Rightarrow> expr parse" where
  "factor_paren R p =
     do { (e, p1) \<leftarrow> mExpression R p;
          Some (e, if ExprDepthLimitHit p1 then snd (match_tok tkRightParen p1) else snd (expect tkRightParen p1)) }"

definition factor_unexpected :: "Parser \<Rightarrow> expr \<times> Parser" where
  "factor_unexpected p =
     (let p1 = parse_error (Loc (Current p)) err_expected_expr [describe_kind p (Kind (Current p))] p in
      (IntLitExpr (Current p) 0 False, if Kind (Current p) \<noteq> tkEof then advance p1 else p1))"

text \<open>\<^verbatim>\<open>switch (Current.Kind)\<close>.\<close>

definition factor_switch :: "methods \<Rightarrow> expr parse" where
  "factor_switch R p =
     (let L = Current p; k = Kind L in
      if k = tkIntLit then Some (factor_int p)
      else if k = tkRealLit then Some (factor_real p)
      else if k = tkStringLit then Some (StringLitExpr L (Lexeme L), advance p)
      else if k = tkNil then Some (NilExpr L, advance p)
      else if k = tkTrue then Some (BoolLitExpr L True, advance p)
      else if k = tkFalse then Some (BoolLitExpr L False, advance p)
      else if k = tkNot then do { (e, p1) \<leftarrow> mFactor R (advance p); Some (UnaryExpr L tkNot e, p1) }
      else if k = tkAt then do { (e, p1) \<leftarrow> mFactor R (advance p); Some (UnaryExpr L tkAt e, p1) }
      else if k = tkLeftParen then factor_paren R (advance p)
      else if k = tkLeftBracket then factor_set R L (advance p)
      else if isTypeKeyword k then factor_keyword R L (advance p)
      else if k = tkInherited then factor_inherited R L (advance p)
      else if k = tkIdentifier then factor_identifier R L (advance p)
      else Some (factor_unexpected p))"

text \<open>The nesting ceiling: no measurement of the stack is made once the count alone decides.\<close>

definition exprTooDeep :: "Parser \<Rightarrow> bool \<times> Parser" where
  "exprTooDeep p = (if ExprDepth p \<ge> MaxExprDepth then (True, p) else stackNearlyExhausted p)"

definition parseFactor :: "methods \<Rightarrow> expr parse" where
  "parseFactor R p =
     (case exprTooDeep p of (deep, p1) \<Rightarrow>
        if deep then
          Some (IntLitExpr (Current p1) 0 False,
                if \<not> ExprDepthLimitHit p1
                then parse_error (Loc (Current p1)) err_expr_too_deeply_nested [] (p1\<lparr>ExprDepthLimitHit := True\<rparr>)
                else p1)
        else do { (e, p2) \<leftarrow> factor_switch R (enterExpr p1); Some (e, leaveExpr p2) })"

subsection \<open>The operators, from the tightest\<close>

text \<open>The rest of a chain of exponentiations whose right operand was refused.\<close>

definition drain_loop :: "methods \<Rightarrow> unit parse" where
  "drain_loop R p =
     (if isExpop (Kind (Current p)) then do { (_, p1) \<leftarrow> mFactor R (advance p); mDrain R p1 } else Some ((), p))"

definition power_right :: "methods \<Rightarrow> expr parse" where
  "power_right R p =
     (case stackNearlyExhausted p of (low, p1) \<Rightarrow>
        if low then
          do { (r, p3) \<leftarrow> mFactor R
                 (if \<not> PowerDepthLimitHit p1
                  then parse_error (Loc (Current p1)) err_expr_too_deeply_nested [] (p1\<lparr>PowerDepthLimitHit := True\<rparr>)
                  else p1);
               (_, p4) \<leftarrow> mDrain R p3;
               Some (r, p4) }
        else mPower R p1)"

definition parsePower :: "methods \<Rightarrow> expr parse" where
  "parsePower R p =
     do { (l, p1) \<leftarrow> parseFactor R p;
          let L = Current p1 in
          if isExpop (Kind L) then
            do { (r, p3) \<leftarrow> power_right R (enterPower (advance
                   (if \<not> extendedPascal (POpts p1) then parse_error (Loc L) err_ep_operator [Lexeme L] p1 else p1)));
                 Some (BinaryExpr L (Kind L) l r, leavePower p3) }
          else Some (l, p1) }"

text \<open>\<open>and then\<close> and \<open>or else\<close>, written as two words: the operator and the state past it.\<close>

definition two_words :: "TokenKind \<Rightarrow> TokenKind \<Rightarrow> TokenKind \<Rightarrow> TokenKind \<Rightarrow> Parser \<Rightarrow> TokenKind \<times> Parser" where
  "two_words k w1 w2 both p =
     (if k = w1 \<and> check w2 p \<and> extendedPascal (POpts p) then (both, advance p) else (k, p))"

definition mulop_loop :: "methods \<Rightarrow> expr \<Rightarrow> expr parse" where
  "mulop_loop R l p =
     (let L = Current p in
      if isMulop (Kind L) then
        (case two_words (Kind L) tkAnd tkThen tkAndThen (advance p) of (oper, p1) \<Rightarrow>
           do { (r, p2) \<leftarrow> mPower R p1; mMulLoop R (BinaryExpr L oper l r) p2 })
      else Some (l, p))"

definition parseTerm :: "methods \<Rightarrow> expr parse" where
  "parseTerm R p = do { (l, p1) \<leftarrow> parsePower R p; mMulLoop R l p1 }"

definition addop_loop :: "methods \<Rightarrow> expr \<Rightarrow> expr parse" where
  "addop_loop R l p =
     (let L = Current p in
      if isAddop (Kind L) then
        (case two_words (Kind L) tkOr tkElse tkOrElse
            (advance (if Kind L = tkSymDiff \<and> \<not> extendedPascal (POpts p)
                      then parse_error (Loc L) err_ep_operator [''><''] p else p)) of (oper, p1) \<Rightarrow>
           do { (r, p2) \<leftarrow> parseTerm R p1; mAddLoop R (BinaryExpr L oper l r) p2 })
      else Some (l, p))"

definition parseSimpleExpr :: "methods \<Rightarrow> expr parse" where
  "parseSimpleExpr R p =
     do { (l, p1) \<leftarrow> (let L = Current p in
            if check tkPlus p \<or> check tkMinus p
            then do { (e, q) \<leftarrow> parseTerm R (advance p); Some (UnaryExpr L (Kind L) e, q) }
            else parseTerm R p);
          mAddLoop R l p1 }"

definition parseExpression :: "methods \<Rightarrow> expr parse" where
  "parseExpression R p =
     do { (l, p1) \<leftarrow> parseSimpleExpr R p;
          let L = Current p1 in
          if isRelop (Kind L) then do { (r, p2) \<leftarrow> parseSimpleExpr R (advance p1); Some (BinaryExpr L (Kind L) l r, p2) }
          else Some (l, p1) }"

text \<open>A case label, and the \<open>value\<close> clause of a type denoter.\<close>

definition parseCaseConstant :: "methods \<Rightarrow> expr parse" where
  "parseCaseConstant R p =
     (let L = Current p in
      if check tkPlus p then parseFactor R (advance p)
      else if check tkMinus p then do { (e, p1) \<leftarrow> parseFactor R (advance p); Some (UnaryExpr L tkMinus e, p1) }
      else parseFactor R p)"

definition parseInitialState :: "methods \<Rightarrow> expr option parse" where
  "parseInitialState R p =
     (if \<not> extendedPascal (POpts p) then Some (None, p)
      else case match_tok tkValue p of (m, p1) \<Rightarrow>
             if \<not> m then Some (None, p1) else do { (v, p2) \<leftarrow> parseComponentValue R p1; Some (Some v, p2) })"

subsection \<open>The knot\<close>

definition one_level :: "methods \<Rightarrow> methods" where
  "one_level R =
     \<lparr>mExpression = parseExpression R, mPower = parsePower R, mFactor = parseFactor R,
      mComponentValue = parseComponentValue R, mAddLoop = addop_loop R, mMulLoop = mulop_loop R,
      mPostfix = parsePostfix R, mDrain = drain_loop R, mArgs = args_loop R, mLabels = label_loop R,
      mIndex = index_loop R, mValueArms = parseValueArms R, mFieldList = parseFieldListValue R,
      mVariantPart = parseVariantPartValue R, mArms = arm_loop R\<rparr>"

primrec methods_at :: "nat \<Rightarrow> methods" where
  "methods_at 0 =
     \<lparr>mExpression = (\<lambda>p. None), mPower = (\<lambda>p. None), mFactor = (\<lambda>p. None), mComponentValue = (\<lambda>p. None),
      mAddLoop = (\<lambda>e p. None), mMulLoop = (\<lambda>e p. None), mPostfix = (\<lambda>e p. None), mDrain = (\<lambda>p. None),
      mArgs = (\<lambda>as p. None), mLabels = (\<lambda>ls p. None), mIndex = (\<lambda>L e p. None),
      mValueArms = (\<lambda>as p. None), mFieldList = (\<lambda>as p. None), mVariantPart = (\<lambda>as p. None), mArms = (\<lambda>as p. None)\<rparr>"
| "methods_at (Suc n) = one_level (methods_at n)"

end
