(* ===== verification/Parse_Contract.thy ===== *)
theory Parse_Contract
  imports Expr_Parser
begin

text \<open>
  What every parsing method keeps, and a small calculus to show it.  \<open>stp g c p q\<close> relates the state a method
  was entered in to a later one: at least \<open>c\<close> tokens of the input are gone, the options, the name sets and
  the depths are the same, the scanner's own contract holds, reports are only added, and each adds one to the
  error count.  \<open>meets n r f\<close> is the contract of a method called at level \<open>n\<close>: it keeps \<open>stp\<close>, and it
  does return when \<open>n\<close> is at least four times the tokens left plus its rank \<open>r\<close>.
\<close>

subsection \<open>Tokens left\<close>

text \<open>The most tokens the scanner can still deliver, whenever the parser asks it to take a caret for the start of
  a control character: armed, \<open>^a1x\<close> is three tokens and not two.\<close>

lemma space_arm [simp]:
  "space (allowCaretControlCharNext s) = space s" "unread (allowCaretControlCharNext s) = unread s"
  by (simp_all add: allowCaretControlCharNext_def space_def unread_def)

lemma scan_lt_arm [simp]: "scan_lt (allowCaretControlCharNext s) s' = scan_lt s s'"
  by (simp add: scan_lt_def)

lemma keeps_arm [simp]: "keeps s (allowCaretControlCharNext s)"
  by (simp add: keeps_def scan_le_def) (simp add: allowCaretControlCharNext_def scanner_ok_def)

lemma arm_arm [simp]: "allowCaretControlCharNext (allowCaretControlCharNext s) = allowCaretControlCharNext s"
  by (simp add: allowCaretControlCharNext_def)

function count_tokens :: "FileSystem \<Rightarrow> Scanner \<Rightarrow> nat" where
  "count_tokens fs s =
     (case next_token fs s of (tok, s') \<Rightarrow>
        if Kind tok = tkEof then 0 else Suc (max (count_tokens fs s') (count_tokens fs (allowCaretControlCharNext s'))))"
  by pat_completeness auto
termination
proof (relation "inv_image scan_order snd", goal_cases)
  case (2 fs s tok s')
  then show ?case using next_token_ok [of s fs] by (auto simp: next_ok_def split: prod.splits)
next
  case (3 fs s tok s')
  then show ?case using next_token_ok [of s fs] by (auto simp: next_ok_def split: prod.splits)
qed (simp add: wf_inv_image)

declare count_tokens.simps [simp del]

definition tokens_left :: "Parser \<Rightarrow> nat" where
  "tokens_left p = (if Kind (Current p) = tkEof \<and> at_end (Lex p) then 0
     else Suc (max (count_tokens (Files (Outside p)) (Lex p)) (count_tokens (Files (Outside p)) (allowCaretControlCharNext (Lex p)))))"

lemma at_end_arm [simp]: "at_end (allowCaretControlCharNext s) = at_end s"
  by (simp add: at_end_def allowCaretControlCharNext_def)

lemma tokens_left_advance:
  "Kind (Current p) \<noteq> tkEof \<Longrightarrow> tokens_left (advance p) < tokens_left p" "tokens_left (advance p) \<le> tokens_left p"
proof -
  let ?fs = "Files (Outside p)"
  obtain tok s where t: "next_token ?fs (Lex p) = (tok, s)" by fastforce
  have e: "Kind tok = tkEof \<Longrightarrow> at_end s" using next_token_ok [of "Lex p" ?fs] t by (auto simp: next_ok_def split: if_splits)
  have "tokens_left (advance p) \<le> count_tokens ?fs (Lex p)"
    using t e by (auto simp: tokens_left_def advance_def count_tokens.simps [of ?fs "Lex p"])
  moreover have "Kind (Current p) = tkEof \<and> at_end (Lex p) \<Longrightarrow> tokens_left (advance p) = 0"
    using next_token_at_end [of "Lex p" ?fs] by (simp add: tokens_left_def advance_def make_def)
  ultimately show "Kind (Current p) \<noteq> tkEof \<Longrightarrow> tokens_left (advance p) < tokens_left p" "tokens_left (advance p) \<le> tokens_left p"
    by (auto simp: tokens_left_def [of p] split: if_splits)
qed

subsection \<open>What is kept\<close>

definition flags_sound :: "Parser \<Rightarrow> bool" where
  "flags_sound p \<longleftrightarrow>
     ExprDepthLimitHit p \<or> PowerDepthLimitHit p \<or> ValueDepthLimitHit p \<or> StmtDepthLimitHit p
     \<or> TypeDepthLimitHit p \<or> BlockDepthLimitHit p \<or> TurboConstValueDepthLimitHit p \<longrightarrow> 0 < ErrorCount p"

text \<open>Expressions and statements leave the sets of names alone, types add to the variables, and declarations add to all
  three.\<close>

datatype Adds = AddsNothing | AddsVars | AddsNames

definition same_setting :: "Adds \<Rightarrow> Parser \<Rightarrow> Parser \<Rightarrow> bool" where
  "same_setting g p q \<longleftrightarrow> Outside q = Outside p \<and> POpts q = POpts p \<and> HarvestImportedTypeNames q = HarvestImportedTypeNames p
     \<and> QualifiedModules p \<subseteq> QualifiedModules q \<and> TypeNames p \<subseteq> TypeNames q \<and> VarNames p \<subseteq> VarNames q
     \<and> (g \<noteq> AddsNames \<longrightarrow> QualifiedModules q = QualifiedModules p \<and> TypeNames q = TypeNames p)
     \<and> (g = AddsNothing \<longrightarrow> VarNames q = VarNames p)"

definition same_depths :: "Parser \<Rightarrow> Parser \<Rightarrow> bool" where
  "same_depths p q \<longleftrightarrow> ExprDepth q = ExprDepth p \<and> PowerDepth q = PowerDepth p \<and> ValueDepth q = ValueDepth p
     \<and> StmtDepth q = StmtDepth p \<and> TypeDepth q = TypeDepth p \<and> BlockDepth q = BlockDepth p
     \<and> TurboConstValueDepth q = TurboConstValueDepth p"

definition more_reports :: "Parser \<Rightarrow> Parser \<Rightarrow> bool" where
  "more_reports p q \<longleftrightarrow> (\<exists>ds. PDiags q = PDiags p @ ds \<and> ErrorCount q = ErrorCount p + length ds)
     \<and> (flags_sound p \<longrightarrow> flags_sound q)"

text \<open>Inside a statement the report of the ceiling on statements is made when its flag is set, and only then.\<close>

definition deep_reports :: "Parser \<Rightarrow> nat" where
  "deep_reports p = length (filter (\<lambda>(l, d, as). d = err_stmt_too_deeply_nested) (PDiags p))"

definition ceiling_once :: "Parser \<Rightarrow> Parser \<Rightarrow> bool" where
  "ceiling_once p q \<longleftrightarrow> (0 < StmtDepth p \<longrightarrow>
     deep_reports q + (if StmtDepthLimitHit p then 1 else 0) = deep_reports p + (if StmtDepthLimitHit q then 1 else 0))"

text \<open>An end of file among the tokens is the end of the input.\<close>

definition eof_ok :: "Parser \<Rightarrow> bool" where
  "eof_ok p \<longleftrightarrow> (Kind (Current p) = tkEof \<longrightarrow> at_end (Lex p))"

definition stp :: "Adds \<Rightarrow> nat \<Rightarrow> Parser \<Rightarrow> Parser \<Rightarrow> bool" where
  "stp g c p q \<longleftrightarrow> tokens_left q + c \<le> tokens_left p \<and> keeps (Lex p) (Lex q)
     \<and> same_setting g p q \<and> same_depths p q \<and> more_reports p q \<and> ceiling_once p q \<and> (eof_ok p \<longrightarrow> eof_ok q)"

named_theorems stp_intro \<open>how the primitives move\<close>
named_theorems sat_intro \<open>the rules of the calculus\<close>

lemma more_reports_trans: "more_reports p q \<Longrightarrow> more_reports q r \<Longrightarrow> more_reports p r"
  by (auto simp: more_reports_def)

lemma stp_refl [stp_intro]: "stp g 0 p p"
  by (simp add: stp_def same_setting_def same_depths_def more_reports_def ceiling_once_def)

lemma same_setting_trans: "same_setting g p q \<Longrightarrow> same_setting g q r \<Longrightarrow> same_setting g p r"
  by (cases g) (auto simp: same_setting_def)

lemma same_setting_any: "same_setting AddsNothing p q \<Longrightarrow> same_setting g p q"
  by (simp add: same_setting_def)

lemma same_depths_trans: "same_depths p q \<Longrightarrow> same_depths q r \<Longrightarrow> same_depths p r"
  by (simp add: same_depths_def)

lemma ceiling_once_trans: "same_depths p q \<Longrightarrow> ceiling_once p q \<Longrightarrow> ceiling_once q r \<Longrightarrow> ceiling_once p r"
  by (cases "0 < StmtDepth p") (simp_all add: same_depths_def ceiling_once_def)

lemma stp_trans: "stp g c p q \<Longrightarrow> stp g d q r \<Longrightarrow> stp g (c + d) p r"
  unfolding stp_def
  by (intro conjI) (linarith | blast intro: keeps_trans same_setting_trans same_depths_trans more_reports_trans ceiling_once_trans)+

lemma stp_then: "stp g c p q \<Longrightarrow> stp g 0 q r \<Longrightarrow> stp g c p r"
  using stp_trans [of g c p q 0 r] by simp

lemma stp_weaken: "stp g c p q \<Longrightarrow> d \<le> c \<Longrightarrow> stp g d p q"
  by (simp add: stp_def)

lemma stp_any: "stp AddsNothing c p q \<Longrightarrow> stp g c p q"
  by (auto simp: stp_def same_setting_def)

lemma stp_vars: "stp AddsVars c p q \<Longrightarrow> g \<noteq> AddsNothing \<Longrightarrow> stp g c p q"
  by (auto simp: stp_def same_setting_def)

lemma eof_ok_advance: "eof_ok (advance p)"
  using next_token_ok [of "Lex p" "Files (Outside p)"] by (auto simp: eof_ok_def advance_def next_ok_def split: prod.splits if_splits)

lemma stp_advance_1: "Kind (Current p) \<noteq> tkEof \<Longrightarrow> stp g 1 p (advance p)"
  using tokens_left_advance(1) [of p] keeps_next_token [of "Lex p" "Files (Outside p)"] eof_ok_advance [of p]
  by (auto simp: stp_def advance_def same_setting_def same_depths_def more_reports_def flags_sound_def ceiling_once_def deep_reports_def
      split: prod.splits)

lemma stp_advance_any: "stp g 0 p (advance p)"
  using tokens_left_advance(2) [of p] keeps_next_token [of "Lex p" "Files (Outside p)"] eof_ok_advance [of p]
  by (auto simp: stp_def advance_def same_setting_def same_depths_def more_reports_def flags_sound_def ceiling_once_def deep_reports_def
      split: prod.splits)

lemma stp_advance_0: "Kind (Current p) \<noteq> tkEof \<Longrightarrow> stp g 0 p (advance p)"
  by (rule stp_advance_any)

lemma stp_advance [stp_intro]: "stp g c p q \<Longrightarrow> Kind (Current q) \<noteq> tkEof \<Longrightarrow> stp g (Suc c) p (advance q)"
  using stp_trans [OF _ stp_advance_1, of g c p q] by simp

lemma tokens_left_frame [simp]:
  "tokens_left (parse_error l d as p) = tokens_left p" "tokens_left (p\<lparr>StackProbes := n\<rparr>) = tokens_left p"
  "tokens_left (p\<lparr>ExprDepth := n\<rparr>) = tokens_left p" "tokens_left (p\<lparr>ExprDepthLimitHit := b\<rparr>) = tokens_left p"
  "tokens_left (p\<lparr>ExprDepth := n, ExprDepthLimitHit := b\<rparr>) = tokens_left p"
  "tokens_left (p\<lparr>PowerDepth := n\<rparr>) = tokens_left p" "tokens_left (p\<lparr>PowerDepthLimitHit := b\<rparr>) = tokens_left p"
  "tokens_left (p\<lparr>PowerDepth := n, PowerDepthLimitHit := b\<rparr>) = tokens_left p"
  "tokens_left (p\<lparr>ValueDepth := n\<rparr>) = tokens_left p" "tokens_left (p\<lparr>ValueDepthLimitHit := b\<rparr>) = tokens_left p"
  "tokens_left (p\<lparr>ValueDepth := n, ValueDepthLimitHit := b\<rparr>) = tokens_left p"
  "tokens_left (p\<lparr>StmtDepth := n\<rparr>) = tokens_left p" "tokens_left (p\<lparr>StmtDepthLimitHit := b\<rparr>) = tokens_left p"
  "tokens_left (p\<lparr>StmtDepth := n, StmtDepthLimitHit := b\<rparr>) = tokens_left p"
  "tokens_left (p\<lparr>TypeDepth := n\<rparr>) = tokens_left p" "tokens_left (p\<lparr>TypeDepthLimitHit := b\<rparr>) = tokens_left p"
  "tokens_left (p\<lparr>TypeDepth := n, TypeDepthLimitHit := b\<rparr>) = tokens_left p"
  "tokens_left (p\<lparr>BlockDepth := n\<rparr>) = tokens_left p" "tokens_left (p\<lparr>BlockDepthLimitHit := b\<rparr>) = tokens_left p"
  "tokens_left (p\<lparr>BlockDepth := n, BlockDepthLimitHit := b\<rparr>) = tokens_left p"
  "tokens_left (p\<lparr>TurboConstValueDepth := n\<rparr>) = tokens_left p" "tokens_left (p\<lparr>TurboConstValueDepthLimitHit := b\<rparr>) = tokens_left p"
  "tokens_left (p\<lparr>TurboConstValueDepth := n, TurboConstValueDepthLimitHit := b\<rparr>) = tokens_left p"
  "tokens_left (p\<lparr>VarNames := vs\<rparr>) = tokens_left p" "tokens_left (p\<lparr>TypeNames := vs\<rparr>) = tokens_left p"
  "tokens_left (p\<lparr>QualifiedModules := vs\<rparr>) = tokens_left p"
  by (simp_all add: tokens_left_def parse_error_def)

lemmas stp_unfold = stp_def same_setting_def same_depths_def more_reports_def flags_sound_def ceiling_once_def
  deep_reports_def eof_ok_def

lemma stp_error [stp_intro]: "stp g c p q \<Longrightarrow> d \<noteq> err_stmt_too_deeply_nested \<Longrightarrow> stp g c p (parse_error l d as q)"
  by (rule stp_then, assumption) (simp add: stp_unfold, simp add: parse_error_def)

text \<open>A ceiling reports once and sets its flag.\<close>

lemma stp_limit:
  assumes "d \<noteq> err_stmt_too_deeply_nested" "stp g c p q"
  shows
  "stp g c p (if \<not> ExprDepthLimitHit q then parse_error l d as (q\<lparr>ExprDepthLimitHit := True\<rparr>) else q)"
  "stp g c p (if \<not> PowerDepthLimitHit q then parse_error l d as (q\<lparr>PowerDepthLimitHit := True\<rparr>) else q)"
  "stp g c p (if \<not> ValueDepthLimitHit q then parse_error l d as (q\<lparr>ValueDepthLimitHit := True\<rparr>) else q)"
  "stp g c p (if \<not> TypeDepthLimitHit q then parse_error l d as (q\<lparr>TypeDepthLimitHit := True\<rparr>) else q)"
  "stp g c p (if \<not> BlockDepthLimitHit q then parse_error l d as (q\<lparr>BlockDepthLimitHit := True\<rparr>) else q)"
  "stp g c p (if \<not> TurboConstValueDepthLimitHit q then parse_error l d as (q\<lparr>TurboConstValueDepthLimitHit := True\<rparr>) else q)"
proof -
  have "stp g 0 q (parse_error l d as (q\<lparr>ExprDepthLimitHit := True\<rparr>))"
    using assms(1) by (simp add: stp_unfold) (simp add: parse_error_def)
  then show "stp g c p (if \<not> ExprDepthLimitHit q then parse_error l d as (q\<lparr>ExprDepthLimitHit := True\<rparr>) else q)"
    using assms(2) by (auto intro: stp_then)
  have "stp g 0 q (parse_error l d as (q\<lparr>PowerDepthLimitHit := True\<rparr>))"
    using assms(1) by (simp add: stp_unfold) (simp add: parse_error_def)
  then show "stp g c p (if \<not> PowerDepthLimitHit q then parse_error l d as (q\<lparr>PowerDepthLimitHit := True\<rparr>) else q)"
    using assms(2) by (auto intro: stp_then)
  have "stp g 0 q (parse_error l d as (q\<lparr>ValueDepthLimitHit := True\<rparr>))"
    using assms(1) by (simp add: stp_unfold) (simp add: parse_error_def)
  then show "stp g c p (if \<not> ValueDepthLimitHit q then parse_error l d as (q\<lparr>ValueDepthLimitHit := True\<rparr>) else q)"
    using assms(2) by (auto intro: stp_then)
  have "stp g 0 q (parse_error l d as (q\<lparr>TypeDepthLimitHit := True\<rparr>))"
    using assms(1) by (simp add: stp_unfold) (simp add: parse_error_def)
  then show "stp g c p (if \<not> TypeDepthLimitHit q then parse_error l d as (q\<lparr>TypeDepthLimitHit := True\<rparr>) else q)"
    using assms(2) by (auto intro: stp_then)
  have "stp g 0 q (parse_error l d as (q\<lparr>BlockDepthLimitHit := True\<rparr>))"
    using assms(1) by (simp add: stp_unfold) (simp add: parse_error_def)
  then show "stp g c p (if \<not> BlockDepthLimitHit q then parse_error l d as (q\<lparr>BlockDepthLimitHit := True\<rparr>) else q)"
    using assms(2) by (auto intro: stp_then)
  have "stp g 0 q (parse_error l d as (q\<lparr>TurboConstValueDepthLimitHit := True\<rparr>))"
    using assms(1) by (simp add: stp_unfold) (simp add: parse_error_def)
  then show "stp g c p (if \<not> TurboConstValueDepthLimitHit q then parse_error l d as (q\<lparr>TurboConstValueDepthLimitHit := True\<rparr>) else q)"
    using assms(2) by (auto intro: stp_then)
qed

lemma stp_limit_stmt:
  "stp g c p q \<Longrightarrow> stp g c p (if \<not> StmtDepthLimitHit q then parse_error l err_stmt_too_deeply_nested as (q\<lparr>StmtDepthLimitHit := True\<rparr>) else q)"
proof -
  have "\<not> StmtDepthLimitHit q \<Longrightarrow> stp g 0 q (parse_error l err_stmt_too_deeply_nested as (q\<lparr>StmtDepthLimitHit := True\<rparr>))"
    by (simp add: stp_unfold) (simp add: parse_error_def)
  then show "stp g c p q \<Longrightarrow> stp g c p (if \<not> StmtDepthLimitHit q then parse_error l err_stmt_too_deeply_nested as (q\<lparr>StmtDepthLimitHit := True\<rparr>) else q)"
    by (auto intro: stp_then)
qed

lemma stp_expect_0: "k \<noteq> tkEof \<Longrightarrow> stp g 0 p (snd (expect k p))"
  using stp_advance_0 [of p] by (auto simp: expect_def intro: stp_error stp_refl)

lemma stp_expect [stp_intro]: "stp g c p q \<Longrightarrow> k \<noteq> tkEof \<Longrightarrow> stp g c p (snd (expect k q))"
  using stp_then [OF _ stp_expect_0] by blast

lemma stp_match [stp_intro]: "stp g c p q \<Longrightarrow> k \<noteq> tkEof \<Longrightarrow> stp g c p (snd (match_tok k q))"
  using stp_then [OF _ stp_advance_0, of g c p q] by (auto simp: match_tok_def)

lemma stp_close [stp_intro]: "stp g c p q \<Longrightarrow> stp g c p (close_value q)"
  by (simp add: close_value_def stp_intro)

lemma stp_probe [stp_intro]: "stp g c p q \<Longrightarrow> stp g c p (snd (stackNearlyExhausted q))"
  by (rule stp_then, assumption) (simp add: stackNearlyExhausted_def stp_unfold)

lemma stp_tooDeep [stp_intro]: "stp g c p q \<Longrightarrow> stp g c p (snd (exprTooDeep q))"
  by (simp add: exprTooDeep_def stp_intro)

lemma stp_two_words [stp_intro]: "stp g c p q \<Longrightarrow> w2 \<noteq> tkEof \<Longrightarrow> stp g c p (snd (two_words k w1 w2 both q))"
  using stp_then [OF _ stp_advance_0, of g c p q] by (auto simp: two_words_def check_def)

lemma stp_arm [stp_intro]: "stp g c p q \<Longrightarrow> stp g c p (arm_caret q)"
  by (rule stp_then, assumption) (simp add: stp_unfold arm_caret_def tokens_left_def)

lemma stp_if [stp_intro]: "(b \<Longrightarrow> stp g c p q) \<Longrightarrow> (\<not> b \<Longrightarrow> stp g c p r) \<Longrightarrow> stp g c p (if b then q else r)"
  by simp

text \<open>A guarded activation: the depth goes up, the body keeps it, and it comes down again.\<close>

lemma stp_scope_gen:
  assumes "stp g 0 p1 q" "tokens_left p1 = tokens_left p" "tokens_left q' = tokens_left q" "Lex p1 = Lex p" "Lex q' = Lex q"
    and "same_setting AddsNothing p p1" "same_setting AddsNothing q q'" "same_depths p1 q \<Longrightarrow> same_depths p q'"
    and "PDiags p1 = PDiags p" "ErrorCount p1 = ErrorCount p" "PDiags q' = PDiags q" "ErrorCount q' = ErrorCount q"
    and "flags_sound p \<Longrightarrow> flags_sound p1" "flags_sound q \<Longrightarrow> flags_sound q'"
    and "same_depths p1 q \<Longrightarrow> ceiling_once p1 q \<Longrightarrow> ceiling_once p q'" "eof_ok p \<Longrightarrow> eof_ok p1" "eof_ok q \<Longrightarrow> eof_ok q'"
  shows "stp g 0 p q'"
proof -
  have "same_setting g p q'"
    using assms(1,6,7) unfolding stp_def by (meson same_setting_any same_setting_trans)
  then show ?thesis using assms unfolding stp_def more_reports_def by simp
qed

lemma stp_scope:
  "stp g 0 (enterExpr p) q \<Longrightarrow> stp g 0 p (leaveExpr q)"
  "stp g 0 (enterPower p) q \<Longrightarrow> stp g 0 p (leavePower q)"
  "stp g 0 (enterValue p) q \<Longrightarrow> stp g 0 p (leaveValue q)"
  "stp g 0 (enterStmt p) q \<Longrightarrow> stp g 0 p (leaveStmt q)"
  "stp g 0 (enterType p) q \<Longrightarrow> stp g 0 p (leaveType q)"
  "stp g 0 (enterBlock p) q \<Longrightarrow> stp g 0 p (leaveBlock q)"
  "stp g 0 (enterConstValue p) q \<Longrightarrow> stp g 0 p (leaveConstValue q)"
proof -
  show "stp g 0 (enterExpr p) q \<Longrightarrow> stp g 0 p (leaveExpr q)"
    by (erule stp_scope_gen) (auto simp: enterExpr_def leaveExpr_def Let_def same_setting_def same_depths_def flags_sound_def
        ceiling_once_def deep_reports_def stp_def eof_ok_def)
  show "stp g 0 (enterPower p) q \<Longrightarrow> stp g 0 p (leavePower q)"
    by (erule stp_scope_gen) (auto simp: enterPower_def leavePower_def Let_def same_setting_def same_depths_def flags_sound_def
        ceiling_once_def deep_reports_def stp_def eof_ok_def)
  show "stp g 0 (enterValue p) q \<Longrightarrow> stp g 0 p (leaveValue q)"
    by (erule stp_scope_gen) (auto simp: enterValue_def leaveValue_def Let_def same_setting_def same_depths_def flags_sound_def
        ceiling_once_def deep_reports_def stp_def eof_ok_def)
  show "stp g 0 (enterStmt p) q \<Longrightarrow> stp g 0 p (leaveStmt q)"
    by (erule stp_scope_gen) (auto simp: enterStmt_def leaveStmt_def Let_def same_setting_def same_depths_def flags_sound_def
        ceiling_once_def deep_reports_def stp_def eof_ok_def)
  show "stp g 0 (enterType p) q \<Longrightarrow> stp g 0 p (leaveType q)"
    by (erule stp_scope_gen) (auto simp: enterType_def leaveType_def Let_def same_setting_def same_depths_def flags_sound_def
        ceiling_once_def deep_reports_def stp_def eof_ok_def)
  show "stp g 0 (enterBlock p) q \<Longrightarrow> stp g 0 p (leaveBlock q)"
    by (erule stp_scope_gen) (auto simp: enterBlock_def leaveBlock_def Let_def same_setting_def same_depths_def flags_sound_def
        ceiling_once_def deep_reports_def stp_def eof_ok_def)
  show "stp g 0 (enterConstValue p) q \<Longrightarrow> stp g 0 p (leaveConstValue q)"
    by (erule stp_scope_gen) (auto simp: enterConstValue_def leaveConstValue_def Let_def same_setting_def same_depths_def flags_sound_def
        ceiling_once_def deep_reports_def stp_def eof_ok_def)
qed

subsection \<open>The calculus\<close>

definition sat :: "bool \<Rightarrow> ('a \<times> Parser) option \<Rightarrow> ('a \<Rightarrow> Parser \<Rightarrow> bool) \<Rightarrow> bool" where
  "sat b r Q \<longleftrightarrow> (case r of None \<Rightarrow> \<not> b | Some (x, q) \<Rightarrow> Q x q)"

definition meets :: "nat \<Rightarrow> nat \<Rightarrow> 'a parse \<Rightarrow> bool" where
  "meets n r f \<longleftrightarrow> (\<forall>p. sat (4 * tokens_left p + r \<le> n) (f p) (\<lambda>x q. stp AddsNothing 0 p q))"

text \<open>The contracts of a method that adds to the variables, and of one that adds to any of the sets of names.\<close>

definition adds :: "nat \<Rightarrow> nat \<Rightarrow> 'a parse \<Rightarrow> bool" where
  "adds n r f \<longleftrightarrow> (\<forall>p. sat (4 * tokens_left p + r \<le> n) (f p) (\<lambda>x q. stp AddsVars 0 p q))"

definition grows :: "nat \<Rightarrow> nat \<Rightarrow> 'a parse \<Rightarrow> bool" where
  "grows n r f \<longleftrightarrow> (\<forall>p. sat (4 * tokens_left p + r \<le> n) (f p) (\<lambda>x q. stp AddsNames 0 p q))"

text \<open>However many tokens are gone.\<close>

definition moved :: "Adds \<Rightarrow> Parser \<Rightarrow> Parser \<Rightarrow> bool" where
  "moved g p q \<longleftrightarrow> (\<exists>c. stp g c p q)"

lemma moved_iff: "moved g p q \<longleftrightarrow> stp g 0 p q"
  by (auto simp: moved_def intro: stp_weaken)

lemma movedI [sat_intro]: "stp g c p q \<Longrightarrow> moved g p q"
  by (auto simp: moved_def)

lemma meetsI: "(\<And>p. sat (4 * tokens_left p + r \<le> n) (f p) (\<lambda>x q. moved AddsNothing p q)) \<Longrightarrow> meets n r f"
  by (simp add: meets_def moved_iff)

lemma addsI: "(\<And>p. sat (4 * tokens_left p + r \<le> n) (f p) (\<lambda>x q. moved AddsVars p q)) \<Longrightarrow> adds n r f"
  by (simp add: adds_def moved_iff)

lemma growsI: "(\<And>p. sat (4 * tokens_left p + r \<le> n) (f p) (\<lambda>x q. moved AddsNames p q)) \<Longrightarrow> grows n r f"
  by (simp add: grows_def moved_iff)

lemma sat_return [sat_intro]: "Q x q \<Longrightarrow> sat b (Some (x, q)) Q"
  by (simp add: sat_def)

lemma sat_Some: "Q (fst y) (snd y) \<Longrightarrow> sat b (Some y) Q"
  by (cases y) (simp add: sat_def)

lemma sat_bind [sat_intro]: "sat b m (\<lambda>x q. sat b (f x q) Q) \<Longrightarrow> sat b (m \<bind> (\<lambda>(x, q). f x q)) Q"
  by (auto simp: sat_def split: option.splits)

lemma sat_if [sat_intro]: "(c \<Longrightarrow> sat b t Q) \<Longrightarrow> (\<not> c \<Longrightarrow> sat b e Q) \<Longrightarrow> sat b (if c then t else e) Q"
  by simp

lemma sat_match [sat_intro]:
  "(Kind (Current q) = k \<Longrightarrow> sat b (f True (advance q)) Q) \<Longrightarrow> (Kind (Current q) \<noteq> k \<Longrightarrow> sat b (f False q) Q) \<Longrightarrow>
   sat b (case match_tok k q of (m, q') \<Rightarrow> f m q') Q"
  by (simp add: match_tok_def)

lemma sat_split: "sat b (f (fst y) (snd y)) Q \<Longrightarrow> sat b (case y of (m, q) \<Rightarrow> f m q) Q"
  by (simp add: case_prod_beta)

lemma sat_option [sat_intro]:
  "(y = None \<Longrightarrow> sat b t Q) \<Longrightarrow> (\<And>h. y = Some h \<Longrightarrow> sat b (f h) Q) \<Longrightarrow> sat b (case y of None \<Rightarrow> t | Some h \<Rightarrow> f h) Q"
  by (simp split: option.split)

lemma sat_mono: "sat b r Q \<Longrightarrow> (b' \<Longrightarrow> b) \<Longrightarrow> (\<And>x q. Q x q \<Longrightarrow> Q' x q) \<Longrightarrow> sat b' r Q'"
  by (auto simp: sat_def split: option.splits)

text \<open>A call of a method one level down, and of a definition inlined at the same level.\<close>

lemma sat_use:
  assumes "sat (4 * tokens_left q + r' \<le> n') (f q) (\<lambda>x q'. stp g 0 q q')" "stp g c p q"
    and "4 * tokens_left p + r \<le> n \<Longrightarrow> 4 * tokens_left q + r' \<le> n'" "\<And>x q'. stp g c p q' \<Longrightarrow> Q x q'"
  shows "sat (4 * tokens_left p + r \<le> n) (f q) Q"
proof (rule sat_mono [OF assms(1)])
  show "Q x q'" if "stp g 0 q q'" for x q' by (rule assms(4)) (rule stp_then [OF assms(2) that])
qed (rule assms(3))

lemma sat_any: "sat b r (\<lambda>x q'. stp AddsNothing 0 q q') \<Longrightarrow> sat b r (\<lambda>x q'. stp g 0 q q')"
  by (erule sat_mono) (auto intro: stp_any)

lemma sat_call:
  assumes "meets n r' f" "stp g c p q" "r' < 4 * c + r" "\<And>x q'. stp g c p q' \<Longrightarrow> Q x q'"
  shows "sat (4 * tokens_left p + r \<le> Suc n) (f q) Q"
  using assms by (intro sat_use [OF sat_any assms(2), where r' = r' and n' = n]) (auto simp: meets_def stp_def)

lemma sat_inline:
  assumes "meets (Suc n) r' f" "stp g c p q" "r' \<le> 4 * c + r" "\<And>x q'. stp g c p q' \<Longrightarrow> Q x q'"
  shows "sat (4 * tokens_left p + r \<le> Suc n) (f q) Q"
  using assms by (intro sat_use [OF sat_any assms(2), where r' = r' and n' = "Suc n"]) (auto simp: meets_def stp_def)

lemma sat_call_adds:
  assumes "adds n r' f" "stp AddsVars c p q" "r' < 4 * c + r" "\<And>x q'. stp AddsVars c p q' \<Longrightarrow> Q x q'"
  shows "sat (4 * tokens_left p + r \<le> Suc n) (f q) Q"
  using assms by (intro sat_use [OF _ assms(2), where r' = r' and n' = n]) (auto simp: adds_def stp_def)

lemma sat_inline_adds:
  assumes "adds (Suc n) r' f" "stp AddsVars c p q" "r' \<le> 4 * c + r" "\<And>x q'. stp AddsVars c p q' \<Longrightarrow> Q x q'"
  shows "sat (4 * tokens_left p + r \<le> Suc n) (f q) Q"
  using assms by (intro sat_use [OF _ assms(2), where r' = r' and n' = "Suc n"]) (auto simp: adds_def stp_def)

lemma adds_grows: "adds n r f \<Longrightarrow> grows n r f"
  unfolding adds_def grows_def using stp_vars [of 0 _ _ AddsNames] by (fastforce elim: sat_mono)

lemma sat_call_grows:
  assumes "grows n r' f" "stp AddsNames c p q" "r' < 4 * c + r" "\<And>x q'. stp AddsNames c p q' \<Longrightarrow> Q x q'"
  shows "sat (4 * tokens_left p + r \<le> Suc n) (f q) Q"
  using assms by (intro sat_use [OF _ assms(2), where r' = r' and n' = n]) (auto simp: grows_def stp_def)

lemma sat_inline_grows:
  assumes "grows (Suc n) r' f" "stp AddsNames c p q" "r' \<le> 4 * c + r" "\<And>x q'. stp AddsNames c p q' \<Longrightarrow> Q x q'"
  shows "sat (4 * tokens_left p + r \<le> Suc n) (f q) Q"
  using assms by (intro sat_use [OF _ assms(2), where r' = r' and n' = "Suc n"]) (auto simp: grows_def stp_def)

text \<open>A definition that is only entered at a certain token.\<close>

definition at_token :: "Adds \<Rightarrow> TokenKind \<Rightarrow> nat \<Rightarrow> nat \<Rightarrow> 'a parse \<Rightarrow> bool" where
  "at_token g k n r f \<longleftrightarrow> (\<forall>p. Kind (Current p) = k \<longrightarrow> sat (4 * tokens_left p + r \<le> n) (f p) (\<lambda>x q. stp g 0 p q))"

lemma at_tokenI:
  "(\<And>p. Kind (Current p) = k \<Longrightarrow> sat (4 * tokens_left p + r \<le> n) (f p) (\<lambda>x q. moved g p q)) \<Longrightarrow> at_token g k n r f"
  by (simp add: at_token_def moved_iff)

lemma sat_at_grows:
  assumes "at_token g k (Suc n) r' f" "Kind (Current q) = k" "stp g c p q" "r' \<le> 4 * c + r" "\<And>x q'. stp g c p q' \<Longrightarrow> Q x q'"
  shows "sat (4 * tokens_left p + r \<le> Suc n) (f q) Q"
  using assms by (intro sat_use [OF _ assms(3), where r' = r' and n' = "Suc n"]) (auto simp: at_token_def stp_def)

lemma sat_at:
  assumes "at_token AddsNothing k (Suc n) r' f" "Kind (Current q) = k" "stp g c p q" "r' \<le> 4 * c + r" "\<And>x q'. stp g c p q' \<Longrightarrow> Q x q'"
  shows "sat (4 * tokens_left p + r \<le> Suc n) (f q) Q"
  using assms by (intro sat_use [OF sat_any assms(3), where r' = r' and n' = "Suc n"]) (auto simp: at_token_def stp_def)

lemma expect_hit: "check k p \<Longrightarrow> expect k p = (Current p, advance p)"
  by (simp add: expect_def check_def)

text \<open>The body of a guarded activation is judged from the state its guard was entered in.\<close>

definition scoped :: "Adds \<Rightarrow> (Parser \<Rightarrow> Parser) \<Rightarrow> Parser \<Rightarrow> Parser \<Rightarrow> bool" where
  "scoped g leave p0 q \<longleftrightarrow> (\<exists>q'. moved g p0 q' \<and> q = leave q')"

lemma scopedI [sat_intro]: "stp g c p0 q \<Longrightarrow> scoped g leave p0 (leave q)"
  by (auto simp: scoped_def moved_def)

lemma tokens_left_enter [simp]:
  "tokens_left (enterExpr p) = tokens_left p"
  "tokens_left (enterPower p) = tokens_left p"
  "tokens_left (enterValue p) = tokens_left p"
  "tokens_left (enterStmt p) = tokens_left p"
  "tokens_left (enterType p) = tokens_left p"
  "tokens_left (enterBlock p) = tokens_left p"
  "tokens_left (enterConstValue p) = tokens_left p"
  by (simp_all add: enterExpr_def enterPower_def enterValue_def enterStmt_def enterType_def enterBlock_def enterConstValue_def)

lemma sat_enter:
  "sat (4 * tokens_left (enterExpr p) + r \<le> N) M (\<lambda>x. scoped g leaveExpr (enterExpr p)) \<Longrightarrow> sat (4 * tokens_left p + r \<le> N) M (\<lambda>x. moved g p)"
  "sat (4 * tokens_left (enterPower p) + r \<le> N) M (\<lambda>x. scoped g leavePower (enterPower p)) \<Longrightarrow> sat (4 * tokens_left p + r \<le> N) M (\<lambda>x. moved g p)"
  "sat (4 * tokens_left (enterValue p) + r \<le> N) M (\<lambda>x. scoped g leaveValue (enterValue p)) \<Longrightarrow> sat (4 * tokens_left p + r \<le> N) M (\<lambda>x. moved g p)"
  "sat (4 * tokens_left (enterStmt p) + r \<le> N) M (\<lambda>x. scoped g leaveStmt (enterStmt p)) \<Longrightarrow> sat (4 * tokens_left p + r \<le> N) M (\<lambda>x. moved g p)"
  "sat (4 * tokens_left (enterType p) + r \<le> N) M (\<lambda>x. scoped g leaveType (enterType p)) \<Longrightarrow> sat (4 * tokens_left p + r \<le> N) M (\<lambda>x. moved g p)"
  "sat (4 * tokens_left (enterBlock p) + r \<le> N) M (\<lambda>x. scoped g leaveBlock (enterBlock p)) \<Longrightarrow> sat (4 * tokens_left p + r \<le> N) M (\<lambda>x. moved g p)"
  "sat (4 * tokens_left (enterConstValue p) + r \<le> N) M (\<lambda>x. scoped g leaveConstValue (enterConstValue p)) \<Longrightarrow> sat (4 * tokens_left p + r \<le> N) M (\<lambda>x. moved g p)"
  using stp_scope by (auto elim!: sat_mono simp: scoped_def moved_iff)

subsection \<open>The methods of one level\<close>

locale parser_level =
  fixes n :: nat and R :: methods
  assumes mExpression: "meets n 2 (mExpression R)"
    and mPower: "meets n 2 (mPower R)"
    and mFactor: "meets n 2 (mFactor R)"
    and mComponentValue: "meets n 3 (mComponentValue R)"
    and mAddLoop: "meets n 1 (mAddLoop R e)"
    and mMulLoop: "meets n 1 (mMulLoop R e)"
    and mPostfix: "meets n 1 (mPostfix R e)"
    and mDrain: "meets n 1 (mDrain R)"
    and mArgs: "meets n 1 (mArgs R as)"
    and mLabels: "meets n 1 (mLabels R as)"
    and mIndex: "meets n 3 (mIndex R L e)"
    and mValueArms: "meets n 4 (mValueArms R arms)"
    and mFieldList: "meets n 4 (mFieldList R arms)"
    and mVariantPart: "meets n 3 (\<lambda>p. if check tkCase p then mVariantPart R arms p else Some (arms, p))"
    and mArms: "meets n 1 (mArms R arms)"
begin

lemmas calls = mExpression mPower mFactor mComponentValue mAddLoop mMulLoop mPostfix mDrain mArgs mLabels mIndex
  mValueArms mFieldList mArms

end

end
