(* ===== verification/Expr_Parser_Props.thy ===== *)
theory Expr_Parser_Props
  imports Parse_Contract
begin

text \<open>
  Every method of the expression parser meets its contract: shown for a level whose callees meet theirs, then
  for every level by induction.
\<close>

context parser_level
begin

lemma args_loop: "meets (Suc n) 1 (args_loop R as)"
  unfolding args_loop_def
  by (rule meetsI) (assumption | rule sat_intro sat_call [OF mExpression] sat_call [OF mArgs] stp_intro | simp)+

lemma parse_args: "meets (Suc n) 3 (parse_args R)"
  unfolding parse_args_def
  by (rule meetsI) (assumption | rule sat_intro sat_call [OF mExpression] sat_call [OF mArgs] stp_intro | simp)+

lemma parseOneLabel: "meets (Suc n) 3 (parseOneLabel R)"
  unfolding parseOneLabel_def
  by (rule meetsI) (assumption | rule sat_intro sat_call [OF mExpression] stp_intro | simp)+

lemma label_loop: "meets (Suc n) 1 (label_loop R ls)"
  unfolding label_loop_def
  by (rule meetsI) (assumption | rule sat_intro sat_inline [OF parseOneLabel] sat_call [OF mLabels] stp_intro | simp)+

lemma parseValueLabels: "meets (Suc n) 3 (parseValueLabels R)"
  unfolding parseValueLabels_def
  by (rule meetsI) (assumption | rule sat_intro sat_inline [OF parseOneLabel] sat_call [OF mLabels] stp_intro | simp)+

lemma index_loop: "meets (Suc n) 3 (index_loop R L e)"
  unfolding index_loop_def
  by (rule meetsI) (assumption | rule sat_intro sat_call [OF mExpression] sat_call [OF mIndex] stp_intro | simp)+

lemma parsePostfix: "meets (Suc n) 1 (parsePostfix R e)"
  unfolding parsePostfix_def Let_def
  by (rule meetsI) (assumption | rule sat_intro sat_split sat_call [OF mIndex] sat_call [OF mPostfix] sat_inline [OF parse_args] stp_intro
      | simp add: check_def)+

lemma variant_call:
  assumes "check tkCase q" "stp g c p q" "3 < 4 * c + r" "\<And>x q'. stp g c p q' \<Longrightarrow> Q x q'"
  shows "sat (4 * tokens_left p + r \<le> Suc n) (mVariantPart R arms q) Q"
  using sat_call [OF mVariantPart [of arms] assms(2-4)] assms(1) by simp

lemmas value_calls = sat_call [OF mExpression] sat_call [OF mComponentValue] sat_call [OF mValueArms] sat_call [OF mFieldList]
  sat_call [OF mArms] sat_call [OF mLabels] sat_call [OF mArgs] sat_call [OF mPostfix] variant_call
  sat_inline [OF parseOneLabel] sat_inline [OF parseValueLabels] sat_inline [OF parse_args]

lemma parseValueArms: "meets (Suc n) 4 (parseValueArms R arms)"
  unfolding parseValueArms_def
  by (rule meetsI) (assumption | rule sat_intro value_calls stp_intro | simp add: check_def)+

lemma parseFieldListValue: "meets (Suc n) 4 (parseFieldListValue R arms)"
  unfolding parseFieldListValue_def
  by (rule meetsI) (assumption | rule sat_intro value_calls stp_intro | simp add: check_def)+

lemma arm_loop: "meets (Suc n) 1 (arm_loop R arms)"
  unfolding arm_loop_def
  by (rule meetsI) (assumption | rule sat_intro value_calls stp_intro | simp add: check_def)+

lemma index_or_set: "meets (Suc n) 3 (index_or_set R Name L first labels)"
  unfolding index_or_set_def Let_def
  by (rule meetsI) (assumption | rule sat_intro value_calls stp_intro sat_split | simp)+

lemma parseStructuredValueOrIndex: "meets (Suc n) 3 (\<lambda>p. if check tkLeftBracket p then parseStructuredValueOrIndex R Name L p else Some (e, p))"
  unfolding parseStructuredValueOrIndex_def
  by (rule meetsI) (assumption | rule sat_intro value_calls sat_inline [OF index_or_set] stp_intro | simp add: check_def)+

lemma parseVariantPartValue:
  "meets (Suc n) 3 (\<lambda>p. if check tkCase p then parseVariantPartValue R arms p else Some (arms, p))"
  unfolding parseVariantPartValue_def
proof (rule meetsI, rule sat_if, rule sat_if, goal_cases)
  case (1 p)
  show ?case by (assumption | rule sat_intro stp_limit stp_refl | simp)+
next
  case (2 p)
  then show ?case
    by (intro sat_enter(3)) (assumption | rule sat_intro value_calls stp_intro | simp add: check_def enterValue_def)+
next
  case (3 p)
  show ?case by (assumption | rule sat_intro stp_refl)+
qed

lemma parseComponentValue: "meets (Suc n) 3 (parseComponentValue R)"
  unfolding parseComponentValue_def Let_def
proof (rule meetsI, rule sat_if, goal_cases)
  case (1 p)
  show ?case by (assumption | rule sat_intro stp_limit stp_refl | simp)+
next
  case (2 p)
  then show ?case
    by (intro sat_enter(3)) (assumption | rule sat_intro value_calls stp_intro | simp add: check_def)+
qed

subsection \<open>Factors\<close>

lemma sat_literal:
  "Kind (Current p) \<noteq> tkEof \<Longrightarrow> sat b (Some (factor_int p)) (\<lambda>x. moved AddsNothing p)"
  "Kind (Current p) \<noteq> tkEof \<Longrightarrow> sat b (Some (factor_real p)) (\<lambda>x. moved AddsNothing p)"
  "sat b (Some (factor_unexpected p)) (\<lambda>x. moved AddsNothing p)"
proof -
  have e: "Kind (Current p) \<noteq> tkEof \<Longrightarrow> d \<noteq> err_stmt_too_deeply_nested \<Longrightarrow> moved AddsNothing p (advance (parse_error l d as p))"
    "Kind (Current p) \<noteq> tkEof \<Longrightarrow> moved AddsNothing p (advance p)" "d \<noteq> err_stmt_too_deeply_nested \<Longrightarrow> moved AddsNothing p (parse_error l d as p)" for l d as
    by (rule movedI stp_intro | simp add: parse_error_def)+
  show "Kind (Current p) \<noteq> tkEof \<Longrightarrow> sat b (Some (factor_int p)) (\<lambda>x. moved AddsNothing p)"
    using e(1,2) by (auto simp: factor_int_def sat_def split: prod.split)
  show "Kind (Current p) \<noteq> tkEof \<Longrightarrow> sat b (Some (factor_real p)) (\<lambda>x. moved AddsNothing p)"
    using e(1,2) by (auto simp: factor_real_def sat_def Let_def)
  show "sat b (Some (factor_unexpected p)) (\<lambda>x. moved AddsNothing p)"
    using e(1,3) by (auto simp: factor_unexpected_def sat_def Let_def)
qed

lemma stp_qualified [stp_intro]: "stp g c p q \<Longrightarrow> stp g c p (snd (qualified_name Name q))"
  unfolding qualified_name_def
  by (auto simp: check_def case_prod_beta intro!: stp_expect intro: stp_then [OF _ stp_advance_0])

lemma type_cast: "meets (Suc n) 3 (type_cast R L Name)"
  unfolding type_cast_def by (rule meetsI) (assumption | rule sat_intro value_calls stp_intro | simp)+

lemma factor_set: "meets (Suc n) 3 (factor_set R L)"
  unfolding factor_set_def by (rule meetsI) (assumption | rule sat_intro value_calls stp_intro | simp)+

lemma factor_keyword: "meets (Suc n) 3 (factor_keyword R L)"
  unfolding factor_keyword_def
  by (rule meetsI) (assumption | rule sat_intro sat_inline [OF type_cast] stp_intro | simp add: check_def)+

lemma factor_inherited: "meets (Suc n) 3 (factor_inherited R L)"
  unfolding factor_inherited_def
  by (rule meetsI) (assumption | rule sat_intro value_calls stp_intro | simp add: check_def)+

lemma typeKeyword: "isTypeKeyword k \<Longrightarrow> k \<noteq> tkEof"
  by (auto simp: isTypeKeyword_def)

lemma parseSizeHighLowArg: "meets (Suc n) 3 (parseSizeHighLowArg R Callee)"
  unfolding parseSizeHighLowArg_def
  by (rule meetsI) (assumption | rule sat_intro value_calls stp_intro | simp | blast dest: typeKeyword)+

lemma factor_paren: "meets (Suc n) 3 (factor_paren R)"
  unfolding factor_paren_def by (rule meetsI) (assumption | rule sat_intro value_calls stp_intro | simp)+

lemma structured_call:
  assumes "check tkLeftBracket q" "stp g c p q" "3 \<le> 4 * c + r" "\<And>x q'. stp g c p q' \<Longrightarrow> Q x q'"
  shows "sat (4 * tokens_left p + r \<le> Suc n) (parseStructuredValueOrIndex R Name L q) Q"
  using sat_inline [OF parseStructuredValueOrIndex [of Name L undefined] assms(2-4)] assms(1) by simp

lemma factor_identifier: "meets (Suc n) 4 (factor_identifier R L)"
  unfolding factor_identifier_def Let_def
  by (rule meetsI) (assumption | rule sat_intro sat_split value_calls structured_call sat_inline [OF type_cast]
      sat_inline [OF parseSizeHighLowArg] stp_intro | simp add: check_def)+

lemmas factor_calls = sat_call [OF mFactor] sat_inline [OF factor_paren] sat_inline [OF factor_set]
  sat_inline [OF factor_keyword] sat_inline [OF factor_inherited] sat_inline [OF factor_identifier]

lemma factor_switch: "meets (Suc n) 2 (factor_switch R)"
  unfolding factor_switch_def Let_def
  by (rule meetsI) (assumption | rule sat_if sat_bind sat_literal sat_return movedI factor_calls stp_intro
      | simp | blast dest: typeKeyword)+

lemma factor_scope:
  "meets (Suc n) 2 (\<lambda>p. factor_switch R (enterExpr p) \<bind> (\<lambda>(e, q). Some (e, leaveExpr q)))"
proof (rule meetsI, rule sat_enter(1))
  show "sat (4 * tokens_left (enterExpr p) + 2 \<le> Suc n) (factor_switch R (enterExpr p) \<bind> (\<lambda>(e, q). Some (e, leaveExpr q)))
    (\<lambda>x. scoped AddsNothing leaveExpr (enterExpr p))" for p
    by (assumption | rule sat_intro sat_inline [OF factor_switch] stp_refl | simp)+
qed

lemma parseFactor: "meets (Suc n) 2 (parseFactor R)"
  unfolding parseFactor_def
proof (rule meetsI, rule sat_split, rule sat_if, goal_cases)
  case (1 p)
  show ?case by (assumption | rule sat_intro stp_limit stp_tooDeep stp_refl | simp)+
next
  case (2 p)
  show ?case by (assumption | rule sat_inline [OF factor_scope] sat_intro stp_tooDeep stp_refl | simp)+
qed

subsection \<open>Operators\<close>

lemma expop_Eof: "isExpop k \<Longrightarrow> k \<noteq> tkEof" "isMulop k \<Longrightarrow> k \<noteq> tkEof" "isAddop k \<Longrightarrow> k \<noteq> tkEof" "isRelop k \<Longrightarrow> k \<noteq> tkEof"
  by (auto simp: isExpop_def isMulop_def isAddop_def isRelop_def)

lemma drain_loop: "meets (Suc n) 1 (drain_loop R)"
  unfolding drain_loop_def
  by (rule meetsI) (assumption | rule sat_intro sat_call [OF mFactor] sat_call [OF mDrain] stp_intro | simp add: expop_Eof)+

lemma power_right: "meets (Suc n) 3 (power_right R)"
  unfolding power_right_def
  by (rule meetsI) (assumption | rule sat_intro sat_split sat_call [OF mFactor] sat_call [OF mDrain] sat_call [OF mPower]
      stp_limit stp_probe stp_refl | simp)+

lemma power_scope:
  "meets (Suc n) 3 (\<lambda>p. power_right R (enterPower p) \<bind> (\<lambda>(r, q). Some (BinaryExpr L k l r, leavePower q)))"
proof (rule meetsI, rule sat_enter(2))
  show "sat (4 * tokens_left (enterPower p) + 3 \<le> Suc n)
    (power_right R (enterPower p) \<bind> (\<lambda>(r, q). Some (BinaryExpr L k l r, leavePower q)))
    (\<lambda>x. scoped AddsNothing leavePower (enterPower p))" for p
    by (assumption | rule sat_intro sat_inline [OF power_right] stp_refl | simp)+
qed

lemma parsePower: "meets (Suc n) 2 (parsePower R)"
  unfolding parsePower_def Let_def
  by (rule meetsI) (assumption | rule sat_inline [OF parseFactor] sat_inline [OF power_scope] sat_intro stp_intro
      | simp add: expop_Eof parse_error_def)+

lemma mulop_loop: "meets (Suc n) 1 (mulop_loop R l)"
  unfolding mulop_loop_def Let_def
  by (rule meetsI) (assumption | rule sat_intro sat_split sat_call [OF mPower] sat_call [OF mMulLoop] stp_intro
      | simp add: expop_Eof)+

lemma parseTerm: "meets (Suc n) 2 (parseTerm R)"
  unfolding parseTerm_def
  by (rule meetsI) (assumption | rule sat_intro sat_inline [OF parsePower] sat_call [OF mMulLoop] stp_intro | simp)+

lemma addop_loop: "meets (Suc n) 1 (addop_loop R l)"
  unfolding addop_loop_def Let_def
  by (rule meetsI) (assumption | rule sat_intro sat_split sat_inline [OF parseTerm] sat_call [OF mAddLoop] stp_intro
      | simp add: expop_Eof parse_error_def)+

lemma parseSimpleExpr: "meets (Suc n) 2 (parseSimpleExpr R)"
  unfolding parseSimpleExpr_def Let_def
  by (rule meetsI) (assumption | rule sat_intro sat_inline [OF parseTerm] sat_call [OF mAddLoop] stp_intro
      | simp add: check_def | (auto simp: check_def)[1])+

lemma parseExpression: "meets (Suc n) 2 (parseExpression R)"
  unfolding parseExpression_def Let_def
  by (rule meetsI) (assumption | rule sat_intro sat_inline [OF parseSimpleExpr] stp_intro | simp add: expop_Eof)+

end

subsection \<open>Every level\<close>

lemma parser_level_Suc: "parser_level n R \<Longrightarrow> parser_level (Suc n) (one_level R)"
  by (rule parser_level.intro)
    (simp_all only: one_level_def methods.simps parser_level.parseExpression parser_level.parsePower
      parser_level.parseFactor parser_level.parseComponentValue parser_level.addop_loop
      parser_level.mulop_loop parser_level.parsePostfix parser_level.drain_loop
      parser_level.args_loop parser_level.label_loop parser_level.index_loop
      parser_level.parseValueArms parser_level.parseFieldListValue
      parser_level.parseVariantPartValue parser_level.arm_loop)

lemma parser_level_at: "parser_level n (methods_at n)"
proof (induction n)
  case 0
  show ?case by unfold_locales (simp_all add: meets_def sat_def stp_refl)
next
  case (Suc n)
  then show ?case by (simp add: parser_level_Suc)
qed

interpretation level: parser_level n "methods_at n" for n
  by (rule parser_level_at)

subsection \<open>Enough is enough\<close>

text \<open>A result does not depend on the level it was reached at.\<close>

definition le_opt :: "'a option \<Rightarrow> 'a option \<Rightarrow> bool" where
  "le_opt a b \<longleftrightarrow> (a = None \<or> a = b)"

lemma le_refl [sat_intro]: "le_opt a a" by (simp add: le_opt_def)

lemma le_bind [sat_intro]:
  "le_opt m m' \<Longrightarrow> (\<And>x q. le_opt (f x q) (f' x q)) \<Longrightarrow> le_opt (m \<bind> (\<lambda>(x, q). f x q)) (m' \<bind> (\<lambda>(x, q). f' x q))"
proof -
  assume m: "le_opt m m'" and f: "\<And>x q. le_opt (f x q) (f' x q)"
  show ?thesis using m f [of "fst (the m)" "snd (the m)"] by (cases m) (auto simp: le_opt_def)
qed

lemma le_if [sat_intro]: "le_opt t t' \<Longrightarrow> le_opt e e' \<Longrightarrow> le_opt (if c then t else e) (if c then t' else e')"
  by simp

lemma le_split [sat_intro]: "(\<And>a q. le_opt (f a q) (f' a q)) \<Longrightarrow> le_opt (case y of (a, q) \<Rightarrow> f a q) (case y of (a, q) \<Rightarrow> f' a q)"
  by (cases y) simp

lemma le_option [sat_intro]:
  "le_opt t t' \<Longrightarrow> (\<And>h. le_opt (f h) (f' h)) \<Longrightarrow> le_opt (case y of None \<Rightarrow> t | Some h \<Rightarrow> f h) (case y of None \<Rightarrow> t' | Some h \<Rightarrow> f' h)"
  by (cases y) auto

locale methods_le =
  fixes R R' :: methods
  assumes mExpression: "le_opt (mExpression R p) (mExpression R' p)"
    and mPower: "le_opt (mPower R p) (mPower R' p)"
    and mFactor: "le_opt (mFactor R p) (mFactor R' p)"
    and mComponentValue: "le_opt (mComponentValue R p) (mComponentValue R' p)"
    and mAddLoop: "le_opt (mAddLoop R e p) (mAddLoop R' e p)"
    and mMulLoop: "le_opt (mMulLoop R e p) (mMulLoop R' e p)"
    and mPostfix: "le_opt (mPostfix R e p) (mPostfix R' e p)"
    and mDrain: "le_opt (mDrain R p) (mDrain R' p)"
    and mArgs: "le_opt (mArgs R as p) (mArgs R' as p)"
    and mLabels: "le_opt (mLabels R as p) (mLabels R' as p)"
    and mIndex: "le_opt (mIndex R L e p) (mIndex R' L e p)"
    and mValueArms: "le_opt (mValueArms R arms p) (mValueArms R' arms p)"
    and mFieldList: "le_opt (mFieldList R arms p) (mFieldList R' arms p)"
    and mVariantPart: "le_opt (mVariantPart R arms p) (mVariantPart R' arms p)"
    and mArms: "le_opt (mArms R arms p) (mArms R' arms p)"
begin

lemmas le_calls = mExpression mPower mFactor mComponentValue mAddLoop mMulLoop mPostfix mDrain mArgs mLabels mIndex
  mValueArms mFieldList mVariantPart mArms

lemma lists_le:
  "le_opt (args_loop R as p) (args_loop R' as p)" "le_opt (parse_args R p) (parse_args R' p)"
  "le_opt (parseOneLabel R p) (parseOneLabel R' p)" "le_opt (index_loop R L e p) (index_loop R' L e p)"
  unfolding args_loop_def parse_args_def parseOneLabel_def index_loop_def by (rule le_calls sat_intro)+

lemma labels_le:
  "le_opt (label_loop R ls p) (label_loop R' ls p)" "le_opt (parseValueLabels R p) (parseValueLabels R' p)"
  "le_opt (parsePostfix R e p) (parsePostfix R' e p)"
  unfolding label_loop_def parseValueLabels_def parsePostfix_def Let_def by (rule le_calls lists_le sat_intro)+

lemma values_le:
  "le_opt (parseValueArms R arms p) (parseValueArms R' arms p)" "le_opt (parseFieldListValue R arms p) (parseFieldListValue R' arms p)"
  "le_opt (parseVariantPartValue R arms p) (parseVariantPartValue R' arms p)" "le_opt (arm_loop R arms p) (arm_loop R' arms p)"
  "le_opt (parseComponentValue R p) (parseComponentValue R' p)" "le_opt (index_or_set R Name L fl ls p) (index_or_set R' Name L fl ls p)"
  unfolding parseValueArms_def parseFieldListValue_def parseVariantPartValue_def arm_loop_def parseComponentValue_def
    index_or_set_def Let_def by (rule le_calls lists_le labels_le sat_intro)+

lemma factors_le:
  "le_opt (parseStructuredValueOrIndex R Name L p) (parseStructuredValueOrIndex R' Name L p)"
  "le_opt (type_cast R L Name p) (type_cast R' L Name p)" "le_opt (parseSizeHighLowArg R Name p) (parseSizeHighLowArg R' Name p)"
  "le_opt (factor_set R L p) (factor_set R' L p)" "le_opt (factor_inherited R L p) (factor_inherited R' L p)"
  "le_opt (factor_paren R p) (factor_paren R' p)"
  unfolding parseStructuredValueOrIndex_def type_cast_def parseSizeHighLowArg_def factor_set_def factor_inherited_def factor_paren_def
  by (rule le_calls lists_le labels_le values_le sat_intro)+

lemma parseFactor_le: "le_opt (parseFactor R p) (parseFactor R' p)"
  unfolding parseFactor_def factor_switch_def factor_keyword_def factor_identifier_def Let_def
  by (rule le_calls factors_le sat_intro)+

lemma operators_le:
  "le_opt (drain_loop R p) (drain_loop R' p)" "le_opt (parsePower R p) (parsePower R' p)" "le_opt (mulop_loop R l p) (mulop_loop R' l p)"
  "le_opt (addop_loop R l p) (addop_loop R' l p)" "le_opt (parseSimpleExpr R p) (parseSimpleExpr R' p)"
  unfolding drain_loop_def parsePower_def power_right_def mulop_loop_def addop_loop_def parseSimpleExpr_def parseTerm_def Let_def
  by (rule le_calls parseFactor_le sat_intro)+

lemma parseExpression_le: "le_opt (parseExpression R p) (parseExpression R' p)"
  unfolding parseExpression_def Let_def by (rule operators_le sat_intro)+

end

lemma methods_le_level: "methods_le R R' \<Longrightarrow> methods_le (one_level R) (one_level R')"
  by (rule methods_le.intro)
    (simp_all only: one_level_def methods.simps methods_le.lists_le methods_le.labels_le methods_le.values_le
      methods_le.parseFactor_le methods_le.operators_le methods_le.parseExpression_le)

lemma methods_le_Suc: "methods_le (methods_at n) (methods_at (Suc n))"
proof (induction n)
  case 0
  show ?case by unfold_locales (simp_all add: le_opt_def)
next
  case (Suc n)
  then show ?case using methods_le_level [OF Suc] by simp
qed

interpretation levels: methods_le "methods_at n" "methods_at (Suc n)" for n
  by (rule methods_le_Suc)

lemma expression_stable:
  assumes "n \<le> m" "parseExpression (methods_at n) p = Some r"
  shows "parseExpression (methods_at m) p = Some r"
  using assms(1)
proof (induction rule: dec_induct)
  case base
  show ?case by (rule assms(2))
next
  case (step k)
  then show ?case using levels.parseExpression_le [of k p] by (simp add: le_opt_def)
qed

subsection \<open>Correctness\<close>

text \<open>Parsing an expression always comes to an end: from every state, whatever the tokens are and however
  the stack is measured, a number of nested entries proportional to the tokens left is enough, and more
  make no difference to the tree or to the state the parser is left in.\<close>

theorem expression_parser_terminates:
  assumes "4 * tokens_left p + 1 \<le> n"
  shows "\<exists>e q. (\<forall>m\<ge>n. parseExpression (methods_at m) p = Some (e, q)) \<and> tokens_left q \<le> tokens_left p"
proof -
  have "sat (4 * tokens_left p + 2 \<le> Suc n) (parseExpression (methods_at n) p) (\<lambda>x q. stp AddsNothing 0 p q)"
    using level.parseExpression [of n] by (simp add: meets_def)
  then obtain e q where "parseExpression (methods_at n) p = Some (e, q)" "stp AddsNothing 0 p q"
    using assms by (auto simp: sat_def split: option.splits)
  then show ?thesis using expression_stable by (intro exI [of _ e] exI [of _ q]) (auto simp: stp_def)
qed

definition parser_on :: "bytes \<Rightarrow> Standard \<Rightarrow> Parser" where
  "parser_on tx std =
     newParser \<lparr>Files = one_file [] [], StackLow = (\<lambda>k. False), Localized = (\<lambda>k. None), RealOverflows = (\<lambda>s. False)\<rparr>
       (scannerOfBuffer emptySourceManager ''t.pas'' tx (plain_opts std)) (plain_opts std)"

theorem expression_parser_terminates_witness:
  "\<exists>e q. \<forall>m \<ge> 4 * tokens_left (parser_on ''a + ((b'' ISO7185) + 1.
     parseExpression (methods_at m) (parser_on ''a + ((b'' ISO7185) = Some (e, q)"
  using expression_parser_terminates [of "parser_on ''a + ((b'' ISO7185" "4 * tokens_left (parser_on ''a + ((b'' ISO7185) + 1"]
  by blast

text \<open>What parsing an expression keeps: the scanner's invariant, the options and the sets of names, and every
  depth counter, whatever went wrong inside.  Reports are only added, each counted once; and a flag that
  silences later reports is only ever set in a parse that has reported something, so no file with an error is
  taken for a good one.\<close>

theorem expression_parser_keeps:
  assumes "scanner_ok (Lex p)" "flags_sound p" "parseExpression (methods_at n) p = Some (e, q)"
  shows "scanner_ok (Lex q) \<and> flags_sound q \<and> POpts q = POpts p \<and> TypeNames q = TypeNames p \<and> VarNames q = VarNames p
    \<and> ExprDepth q = ExprDepth p \<and> PowerDepth q = PowerDepth p \<and> ValueDepth q = ValueDepth p
    \<and> (\<exists>ds. PDiags q = PDiags p @ ds \<and> ErrorCount q = ErrorCount p + length ds)"
proof -
  have "sat (4 * tokens_left p + 2 \<le> Suc n) (parseExpression (methods_at n) p) (\<lambda>x q. stp AddsNothing 0 p q)"
    using level.parseExpression [of n] by (simp add: meets_def)
  then have "stp AddsNothing 0 p q" using assms(3) by (simp add: sat_def)
  then show ?thesis using assms(1,2) by (auto simp: stp_def keeps_def same_setting_def same_depths_def more_reports_def)
qed

lemma flags_sound_new: "flags_sound (newParser out sc opts)"
  by (auto simp: newParser_def advance_def flags_sound_def split: prod.split)

lemma scanner_ok_new: "scanner_ok sc \<Longrightarrow> scanner_ok (Lex (newParser out sc opts))"
  using keeps_next_token [of sc "Files out"] by (auto simp: newParser_def advance_def keeps_def split: prod.split)

theorem expression_parser_keeps_witness:
  "\<exists>e q. parseExpression (methods_at (4 * tokens_left (parser_on ''f(x'' Turbo) + 1)) (parser_on ''f(x'' Turbo) = Some (e, q)
     \<and> scanner_ok (Lex q) \<and> flags_sound q \<and> ExprDepth q = ExprDepth (parser_on ''f(x'' Turbo)"
proof -
  let ?p = "parser_on ''f(x'' Turbo"
  have ok: "scanner_ok (Lex ?p)" "flags_sound ?p"
    unfolding parser_on_def using scanner_ok_new [OF scanner_ok_scannerOfBuffer [OF sm_ok_empty]] flags_sound_new by blast+
  obtain e q where r: "parseExpression (methods_at (4 * tokens_left ?p + 1)) ?p = Some (e, q)"
    using level.parseExpression [of "4 * tokens_left ?p + 1"] unfolding meets_def sat_def by (auto split: option.splits dest!: spec [of _ ?p])
  show ?thesis using expression_parser_keeps [OF ok r] r by blast
qed

end
