(* ===== verification/Expr_Roundtrip.thy ===== *)
theory Expr_Roundtrip
  imports Expr_Parser_Props Literals "HOL-Library.Code_Target_Nat"
begin

text \<open>
  The parser reads back what a printer writes.  The printer puts parentheses where the precedence of Pascal
  needs them and nowhere else, so the theorem is the precedence and the associativity of every operator.
  Trees are compared without their locations.  A method is followed through its levels by \<open>ev\<close>: from some
  level on it returns the given result.
\<close>

subsection \<open>Tokens ahead\<close>

text \<open>What is asked of a token: its kind, and for some its text.\<close>

type_synonym want = "TokenKind \<times> bytes option"

definition is_tok :: "want \<Rightarrow> Token \<Rightarrow> bool" where
  "is_tok w t \<longleftrightarrow> Kind t = fst w \<and> (case snd w of None \<Rightarrow> True | Some s \<Rightarrow> Lexeme t = s)"

abbreviation after :: "nat \<Rightarrow> Parser \<Rightarrow> Parser" where
  "after k \<equiv> advance ^^ k"

fun ahead :: "want list \<Rightarrow> Parser \<Rightarrow> bool" where
  "ahead [] p \<longleftrightarrow> True"
| "ahead (w # ws) p \<longleftrightarrow> is_tok w (Current p) \<and> ahead ws (advance p)"

lemma after_Suc [simp]: "after (Suc k) p = after k (advance p)"
  by (simp add: funpow_swap1)

declare funpow.simps(2) [simp del]

lemma ahead_append: "ahead (xs @ ys) p \<longleftrightarrow> ahead xs p \<and> ahead ys (after (length xs) p)"
  by (induction xs arbitrary: p) (auto simp del: funpow.simps)

lemma advance_update [simp]:
  "advance (p\<lparr>StackProbes := j\<rparr>) = (advance p)\<lparr>StackProbes := j\<rparr>"
  "advance (p\<lparr>ExprDepth := d\<rparr>) = (advance p)\<lparr>ExprDepth := d\<rparr>"
  "advance (p\<lparr>PowerDepth := d\<rparr>) = (advance p)\<lparr>PowerDepth := d\<rparr>"
  by (simp_all add: advance_def split: prod.split)

lemma after_update [simp]:
  "after k (p\<lparr>StackProbes := j\<rparr>) = (after k p)\<lparr>StackProbes := j\<rparr>"
  "after k (p\<lparr>ExprDepth := d\<rparr>) = (after k p)\<lparr>ExprDepth := d\<rparr>"
  "after k (p\<lparr>PowerDepth := d\<rparr>) = (after k p)\<lparr>PowerDepth := d\<rparr>"
  by (induction k arbitrary: p) simp_all

lemma advance_frame [simp]:
  "Outside (advance p) = Outside p" "POpts (advance p) = POpts p" "ExprDepth (advance p) = ExprDepth p"
  "ExprDepthLimitHit (advance p) = ExprDepthLimitHit p" "PowerDepth (advance p) = PowerDepth p"
  "PowerDepthLimitHit (advance p) = PowerDepthLimitHit p" "QualifiedModules (advance p) = QualifiedModules p"
  "StackProbes (advance p) = StackProbes p"
  by (simp_all add: advance_def split: prod.split)

lemma after_frame [simp]:
  "Outside (after k p) = Outside p" "POpts (after k p) = POpts p" "ExprDepth (after k p) = ExprDepth p"
  "ExprDepthLimitHit (after k p) = ExprDepthLimitHit p" "PowerDepth (after k p) = PowerDepth p"
  "PowerDepthLimitHit (after k p) = PowerDepthLimitHit p" "QualifiedModules (after k p) = QualifiedModules p"
  "StackProbes (after k p) = StackProbes p"
  by (induction k arbitrary: p) simp_all

lemma ahead_update [simp]:
  "ahead ws (p\<lparr>StackProbes := j\<rparr>) = ahead ws p" "ahead ws (p\<lparr>ExprDepth := d\<rparr>) = ahead ws p"
  "ahead ws (p\<lparr>PowerDepth := d\<rparr>) = ahead ws p"
  by (induction ws arbitrary: p) simp_all

text \<open>\<open>k\<close> tokens further on, with the stack measured some more times.\<close>

definition reach :: "nat \<Rightarrow> Parser \<Rightarrow> Parser \<Rightarrow> bool" where
  "reach k p q \<longleftrightarrow> (\<exists>j. q = (after k p)\<lparr>StackProbes := j\<rparr>)"

lemma reach_0: "reach 0 p p"
  unfolding reach_def by (rule exI [of _ "StackProbes p"]) simp

lemma reach_trans: "reach a p q \<Longrightarrow> reach b q r \<Longrightarrow> reach (a + b) p r"
  by (auto simp: reach_def funpow_add [of b a, symmetric, unfolded comp_def] add.commute [of a b] funpow_add)

lemma reach_advance: "reach k p q \<Longrightarrow> reach (Suc k) p (advance q)"
  by (auto simp: reach_def funpow_swap1)

lemma reach_frame:
  assumes "reach k p q"
  shows "Outside q = Outside p" "POpts q = POpts p" "ExprDepth q = ExprDepth p" "ExprDepthLimitHit q = ExprDepthLimitHit p"
    "PowerDepth q = PowerDepth p" "PowerDepthLimitHit q = PowerDepthLimitHit p" "QualifiedModules q = QualifiedModules p"
    "Current q = Current (after k p)" "ahead ws q \<longleftrightarrow> ahead ws (after k p)"
  using assms by (auto simp: reach_def)

subsection \<open>From some level on\<close>

definition ev :: "(nat \<Rightarrow> 'a option) \<Rightarrow> 'a \<Rightarrow> bool" where
  "ev F r \<longleftrightarrow> (\<exists>N. \<forall>n\<ge>N. F n = Some r)"

lemma ev_const: "ev (\<lambda>n. Some r) r"
  by (simp add: ev_def)

lemma ev_bind:
  assumes "ev F (x, q)" "ev (\<lambda>n. G n x q) r"
  shows "ev (\<lambda>n. F n \<bind> (\<lambda>(x, q). G n x q)) r"
proof -
  obtain N M where "\<forall>n\<ge>N. F n = Some (x, q)" "\<forall>n\<ge>M. G n x q = Some r" using assms by (auto simp: ev_def)
  then show ?thesis unfolding ev_def by (intro exI [of _ "max N M"]) simp
qed

lemma ev_return:
  assumes "ev F (x, q)" "g x q = r"
  shows "ev (\<lambda>n. F n \<bind> (\<lambda>(x, q). Some (g x q))) r"
  unfolding assms(2) [symmetric] by (rule ev_bind [OF assms(1) ev_const])

lemma ev_Suc: "ev (\<lambda>n. F (Suc n)) r \<Longrightarrow> ev F r"
proof -
  assume "ev (\<lambda>n. F (Suc n)) r"
  then obtain N where N: "\<forall>n\<ge>N. F (Suc n) = Some r" by (auto simp: ev_def)
  have "F n = Some r" if "n \<ge> Suc N" for n using N that by (cases n) auto
  then show ?thesis unfolding ev_def by blast
qed

lemma ev_method:
  "ev (\<lambda>n. parseExpression (methods_at n) p) r \<Longrightarrow> ev (\<lambda>n. mExpression (methods_at n) p) r"
  "ev (\<lambda>n. parsePower (methods_at n) p) r \<Longrightarrow> ev (\<lambda>n. mPower (methods_at n) p) r"
  "ev (\<lambda>n. parseFactor (methods_at n) p) r \<Longrightarrow> ev (\<lambda>n. mFactor (methods_at n) p) r"
  "ev (\<lambda>n. mulop_loop (methods_at n) e p) r \<Longrightarrow> ev (\<lambda>n. mMulLoop (methods_at n) e p) r"
  "ev (\<lambda>n. addop_loop (methods_at n) e p) r \<Longrightarrow> ev (\<lambda>n. mAddLoop (methods_at n) e p) r"
  "ev (\<lambda>n. parsePostfix (methods_at n) e p) r \<Longrightarrow> ev (\<lambda>n. mPostfix (methods_at n) e p) r"
  by (rule ev_Suc, simp add: one_level_def)+

subsection \<open>Trees without locations, and how they are printed\<close>

definition erase :: "expr \<Rightarrow> unit Expr" where
  "erase e = map_Expr (\<lambda>l. ()) e"

lemma erase_simps [simp]:
  "erase (IntLitExpr l v b) = IntLitExpr () v b" "erase (StringLitExpr l s) = StringLitExpr () s"
  "erase (BoolLitExpr l c) = BoolLitExpr () c" "erase (NilExpr l) = NilExpr ()" "erase (IdentExpr l m) = IdentExpr () m"
  "erase (FieldExpr l x f) = FieldExpr () (erase x) f" "erase (DerefExpr l x) = DerefExpr () (erase x)"
  "erase (UnaryExpr l k x) = UnaryExpr () k (erase x)" "erase (BinaryExpr l k x y) = BinaryExpr () k (erase x) (erase y)"
  by (simp_all add: erase_def)

definition oper :: "LangOptions \<Rightarrow> TokenKind \<Rightarrow> bool" where
  "oper opts k \<longleftrightarrow> isRelop k \<or> (isAddop k \<and> (k = tkSymDiff \<longrightarrow> extendedPascal opts)) \<or> isMulop k \<or> (isExpop k \<and> extendedPascal opts)"

fun designator :: "unit Expr \<Rightarrow> bool" where
  "designator (IdentExpr l m) \<longleftrightarrow> True"
| "designator (FieldExpr l x f) \<longleftrightarrow> designator x"
| "designator (DerefExpr l x) \<longleftrightarrow> designator x"
| "designator _ \<longleftrightarrow> False"

text \<open>The trees of the theorem: literals, names, selectors, prefix operators and every binary operator of the
  dialect.\<close>

fun fine :: "LangOptions \<Rightarrow> bytes set \<Rightarrow> unit Expr \<Rightarrow> bool" where
  "fine opts Q (IntLitExpr l v b) \<longleftrightarrow> 0 \<le> v \<and> v \<le> INT64_MAX \<and> \<not> b"
| "fine opts Q (StringLitExpr l s) \<longleftrightarrow> True"
| "fine opts Q (BoolLitExpr l c) \<longleftrightarrow> True"
| "fine opts Q (NilExpr l) \<longleftrightarrow> True"
| "fine opts Q (IdentExpr l m) \<longleftrightarrow> toLower m \<notin> Q"
| "fine opts Q (FieldExpr l x f) \<longleftrightarrow> designator x \<and> fine opts Q x"
| "fine opts Q (DerefExpr l x) \<longleftrightarrow> designator x \<and> fine opts Q x"
| "fine opts Q (UnaryExpr l k x) \<longleftrightarrow> k \<in> {tkNot, tkAt, tkPlus, tkMinus} \<and> fine opts Q x"
| "fine opts Q (BinaryExpr l k x y) \<longleftrightarrow> oper opts k \<and> fine opts Q x \<and> fine opts Q y"
| "fine opts Q _ \<longleftrightarrow> False"

definition paren :: "bool \<Rightarrow> want list \<Rightarrow> want list" where
  "paren b ws = (if b then (tkLeftParen, None) # ws @ [(tkRightParen, None)] else ws)"

text \<open>The level is that of the grammar: 0 an expression, 1 a simple expression, 2 a term, 3 a power, 4 a
  factor.\<close>

fun pr :: "nat \<Rightarrow> unit Expr \<Rightarrow> want list" where
  "pr lv (IntLitExpr l v b) = [(tkIntLit, Some (to_string v))]"
| "pr lv (StringLitExpr l s) = [(tkStringLit, Some s)]"
| "pr lv (BoolLitExpr l c) = [(if c then tkTrue else tkFalse, None)]"
| "pr lv (NilExpr l) = [(tkNil, None)]"
| "pr lv (IdentExpr l m) = [(tkIdentifier, Some m)]"
| "pr lv (FieldExpr l x f) = pr lv x @ [(tkDot, None), (tkIdentifier, Some f)]"
| "pr lv (DerefExpr l x) = pr lv x @ [(tkCaret, None)]"
| "pr lv (UnaryExpr l k x) =
     (if k = tkNot \<or> k = tkAt then (k, None) # pr 4 x else paren (lv > 1) ((k, None) # pr 2 x))"
| "pr lv (BinaryExpr l k x y) =
     (if isRelop k then paren (lv > 0) (pr 1 x @ (k, None) # pr 1 y)
      else if isAddop k then paren (lv > 1) (pr 1 x @ (k, None) # pr 2 y)
      else if isMulop k then paren (lv > 2) (pr 2 x @ (k, None) # pr 3 y)
      else paren (lv > 3) (pr 4 x @ (k, None) # pr 3 y))"
| "pr lv _ = []"

text \<open>How many factors are open at once while the tree is read.\<close>

fun dep :: "unit Expr \<Rightarrow> nat" where
  "dep (FieldExpr l x f) = dep x"
| "dep (DerefExpr l x) = dep x"
| "dep (UnaryExpr l k x) = 2 + dep x"
| "dep (BinaryExpr l k x y) = 1 + max (dep x) (dep y)"
| "dep _ = 1"

subsection \<open>Reading\<close>

definition setting :: "LangOptions \<Rightarrow> bytes set \<Rightarrow> nat \<Rightarrow> Parser \<Rightarrow> bool" where
  "setting opts Q d p \<longleftrightarrow> StackLow (Outside p) = (\<lambda>k. False) \<and> \<not> ExprDepthLimitHit p \<and> \<not> PowerDepthLimitHit p
     \<and> POpts p = opts \<and> QualifiedModules p = Q \<and> ExprDepth p + d \<le> MaxExprDepth"

text \<open>\<open>F\<close> reads the tokens as the tree, or comes to the loop \<open>G\<close> with the tree read so far.\<close>

definition reads where
  "reads opts Q F ws d S x \<longleftrightarrow> (\<forall>p. setting opts Q d p \<longrightarrow> ahead ws p \<longrightarrow> S (Kind (Current (after (length ws) p))) \<longrightarrow>
     (\<exists>e q. erase e = x \<and> reach (length ws) p q \<and> ev (\<lambda>n. F (methods_at n) p) (e, q)))"

definition leads where
  "leads opts Q F G ws d S x \<longleftrightarrow> (\<forall>p. setting opts Q d p \<longrightarrow> ahead ws p \<longrightarrow> S (Kind (Current (after (length ws) p))) \<longrightarrow>
     (\<exists>e q. erase e = x \<and> reach (length ws) p q
        \<and> (\<forall>r. ev (\<lambda>n. G (methods_at n) e q) r \<longrightarrow> ev (\<lambda>n. F (methods_at n) p) r)))"

definition stop4 :: "TokenKind \<Rightarrow> bool" where "stop4 k \<longleftrightarrow> k \<notin> {tkLeftParen, tkLeftBracket, tkDot, tkCaret}"
definition stop3 :: "TokenKind \<Rightarrow> bool" where "stop3 k \<longleftrightarrow> stop4 k \<and> \<not> isExpop k"
definition stop2 :: "TokenKind \<Rightarrow> bool" where "stop2 k \<longleftrightarrow> stop3 k \<and> \<not> isMulop k"
definition stop1 :: "TokenKind \<Rightarrow> bool" where "stop1 k \<longleftrightarrow> stop2 k \<and> \<not> isAddop k"
definition stop0 :: "TokenKind \<Rightarrow> bool" where "stop0 k \<longleftrightarrow> stop1 k \<and> \<not> isRelop k"

lemmas stops = stop0_def stop1_def stop2_def stop3_def stop4_def
lemmas op_classes = isRelop_def isAddop_def isMulop_def isExpop_def

lemma op_stops: "isExpop k \<Longrightarrow> stop4 k" "isMulop k \<Longrightarrow> stop3 k" "isAddop k \<Longrightarrow> stop2 k" "isRelop k \<Longrightarrow> stop1 k" "stop0 tkRightParen"
  by (auto simp: stops op_classes)

lemma setting_reach: "reach k p q \<Longrightarrow> setting opts Q d p \<Longrightarrow> setting opts Q d q"
  by (simp add: setting_def reach_frame)

lemma setting_advance: "setting opts Q d p \<Longrightarrow> setting opts Q d (advance p)"
  by (simp add: setting_def)

text \<open>What a reader hands on when more tokens follow.\<close>

lemma readsD:
  assumes "reads opts Q F ws d S x" "setting opts Q d p" "ahead (ws @ vs) p" "S (Kind (Current (after (length ws) p)))"
  obtains e q where "erase e = x" "reach (length ws) p q" "ev (\<lambda>n. F (methods_at n) p) (e, q)" "setting opts Q d q" "ahead vs q"
proof -
  obtain e q where "erase e = x" "reach (length ws) p q" "ev (\<lambda>n. F (methods_at n) p) (e, q)"
    using assms unfolding reads_def ahead_append by blast
  then show ?thesis using that [of e q] assms(2,3) setting_reach reach_frame(9) [of "length ws" p q vs] by (auto simp: ahead_append)
qed

lemma leadsD:
  assumes "leads opts Q F G ws d S x" "setting opts Q d p" "ahead (ws @ vs) p" "S (Kind (Current (after (length ws) p)))"
  obtains e q where "erase e = x" "reach (length ws) p q" "\<And>r. ev (\<lambda>n. G (methods_at n) e q) r \<Longrightarrow> ev (\<lambda>n. F (methods_at n) p) r"
    "setting opts Q d q" "ahead vs q"
proof -
  obtain e q where "erase e = x" "reach (length ws) p q" "\<forall>r. ev (\<lambda>n. G (methods_at n) e q) r \<longrightarrow> ev (\<lambda>n. F (methods_at n) p) r"
    using assms unfolding leads_def ahead_append by blast
  then show ?thesis using that [of e q] assms(2,3) setting_reach reach_frame(9) [of "length ws" p q vs] by (auto simp: ahead_append)
qed

lemma readsI:
  assumes "\<And>p. setting opts Q d p \<Longrightarrow> ahead ws p \<Longrightarrow> S (Kind (Current (after (length ws) p))) \<Longrightarrow>
    \<exists>e q. erase e = x \<and> reach (length ws) p q \<and> ev (\<lambda>n. F (methods_at n) p) (e, q)"
  shows "reads opts Q F ws d S x"
  using assms unfolding reads_def by blast

lemma leadsI:
  assumes "\<And>p. setting opts Q d p \<Longrightarrow> ahead ws p \<Longrightarrow> S (Kind (Current (after (length ws) p))) \<Longrightarrow>
    \<exists>e q. erase e = x \<and> reach (length ws) p q \<and> (\<forall>r. ev (\<lambda>n. G (methods_at n) e q) r \<longrightarrow> ev (\<lambda>n. F (methods_at n) p) r)"
  shows "leads opts Q F G ws d S x"
  using assms unfolding leads_def by blast

lemma setting_mono: "setting opts Q d' p \<Longrightarrow> d \<le> d' \<Longrightarrow> setting opts Q d p"
  by (simp add: setting_def)

lemma reads_mono: "reads opts Q F ws d S x \<Longrightarrow> d \<le> d' \<Longrightarrow> (\<And>k. S' k \<Longrightarrow> S k) \<Longrightarrow> reads opts Q F ws d' S' x"
  unfolding reads_def by (meson setting_mono)

lemma leads_mono: "leads opts Q F G ws d S x \<Longrightarrow> d \<le> d' \<Longrightarrow> leads opts Q F G ws d' S x"
  unfolding leads_def by (meson setting_mono)

lemma reach_1: "reach (Suc 0) p (advance p)"
  using reach_advance [OF reach_0] .

lemma current_reach: "reach k p q \<Longrightarrow> Kind (Current q) = Kind (Current (after k p))"
  by (simp add: reach_frame)

lemma kind_after: "reach a p q \<Longrightarrow> Kind (Current (after b (advance q))) = Kind (Current (after (a + Suc b) p))"
  by (auto simp: reach_def funpow_add funpow_swap1 add.commute [of a])

subsection \<open>Factors\<close>

lemma leave_reach:
  assumes "reach k (enterExpr (p\<lparr>StackProbes := j\<rparr>)) q" "\<not> ExprDepthLimitHit p"
  shows "reach k p (leaveExpr q)"
proof -
  obtain i where "q = (after k p)\<lparr>ExprDepth := Suc (ExprDepth p), StackProbes := i\<rparr>"
    using assms(1) by (auto simp: reach_def enterExpr_def)
  then have "leaveExpr q = (after k p)\<lparr>StackProbes := i\<rparr>"
    using assms(2) by (intro Parser.equality) (simp_all add: leaveExpr_def Let_def)
  then show ?thesis unfolding reach_def by blast
qed

lemma factor_of_switch:
  assumes "reads opts Q factor_switch ws d S x"
  shows "reads opts Q parseFactor ws (Suc d) S x"
proof (rule readsI)
  fix p assume p: "setting opts Q (Suc d) p" "ahead ws p" "S (Kind (Current (after (length ws) p)))"
  let ?p = "enterExpr (p\<lparr>StackProbes := Suc (StackProbes p)\<rparr>)"
  have "setting opts Q d ?p" "ahead ws ?p" "S (Kind (Current (after (length ws) ?p)))"
    using p by (simp_all add: enterExpr_def setting_def)
  then obtain e q where eq: "erase e = x" "reach (length ws) ?p q" "ev (\<lambda>n. factor_switch (methods_at n) ?p) (e, q)"
    using assms unfolding reads_def by blast
  have "exprTooDeep p = (False, p\<lparr>StackProbes := Suc (StackProbes p)\<rparr>)"
    using p(1) by (simp add: exprTooDeep_def stackNearlyExhausted_def setting_def)
  then have "ev (\<lambda>n. parseFactor (methods_at n) p) (e, leaveExpr q)"
    unfolding parseFactor_def by (simp add: ev_return [OF eq(3)])
  then show "\<exists>e q. erase e = x \<and> reach (length ws) p q \<and> ev (\<lambda>n. parseFactor (methods_at n) p) (e, q)"
    using eq(1) leave_reach [OF eq(2)] p(1) unfolding setting_def by blast
qed

lemma int_literal_to_string: "0 \<le> v \<Longrightarrow> v \<le> INT64_MAX \<Longrightarrow> int_literal (to_string v) = (v, False, True)"
  using to_string_value [of v] by (simp add: int_literal_def list_all_iff takeWhile_eq_all_conv [THEN iffD2] num_value_def)

lemma literal_reads:
  "0 \<le> v \<Longrightarrow> v \<le> INT64_MAX \<Longrightarrow> reads opts Q factor_switch [(tkIntLit, Some (to_string v))] d S (IntLitExpr () v False)"
  "reads opts Q factor_switch [(tkStringLit, Some s)] d S (StringLitExpr () s)"
  "reads opts Q factor_switch [(if c then tkTrue else tkFalse, None)] d S (BoolLitExpr () c)"
  "reads opts Q factor_switch [(tkNil, None)] d S (NilExpr ())"
proof -
  have *: "reads opts Q factor_switch [w] d S x"
    if tok: "\<And>p. is_tok w (Current p) \<Longrightarrow> \<exists>e. erase e = x \<and> (\<forall>R. factor_switch R p = Some (e, advance p))" for w x
  proof (rule readsI)
    fix p assume "ahead [w] p"
    then obtain e where "erase e = x" "\<And>R. factor_switch R p = Some (e, advance p)" using tok [of p] by auto
    then show "\<exists>e q. erase e = x \<and> reach (length [w]) p q \<and> ev (\<lambda>n. factor_switch (methods_at n) p) (e, q)"
      using reach_1 [of p] ev_const by (intro exI [of _ e] exI [of _ "advance p"]) simp
  qed
  show "0 \<le> v \<Longrightarrow> v \<le> INT64_MAX \<Longrightarrow> reads opts Q factor_switch [(tkIntLit, Some (to_string v))] d S (IntLitExpr () v False)"
    by (rule *) (simp add: is_tok_def factor_switch_def factor_int_def int_literal_to_string)
  show "reads opts Q factor_switch [(tkStringLit, Some s)] d S (StringLitExpr () s)"
    "reads opts Q factor_switch [(if c then tkTrue else tkFalse, None)] d S (BoolLitExpr () c)"
    "reads opts Q factor_switch [(tkNil, None)] d S (NilExpr ())"
    by (rule *, simp add: is_tok_def factor_switch_def)+
qed

lemma prefix_reads:
  assumes "reads opts Q parseFactor ws d S x" "k = tkNot \<or> k = tkAt"
  shows "reads opts Q factor_switch ((k, None) # ws) d S (UnaryExpr () k x)"
proof (rule readsI)
  fix p assume p: "setting opts Q d p" "ahead ((k, None) # ws) p" "S (Kind (Current (after (length ((k, None) # ws)) p)))"
  then obtain e q where eq: "erase e = x" "reach (length ws) (advance p) q" "ev (\<lambda>n. parseFactor (methods_at n) (advance p)) (e, q)"
    using assms(1) setting_advance [OF p(1)] unfolding reads_def by auto
  have "ev (\<lambda>n. factor_switch (methods_at n) p) (UnaryExpr (Current p) k e, q)"
    using assms(2) p(2) by (auto simp: factor_switch_def is_tok_def ev_return [OF ev_method(3) [OF eq(3)]])
  then show "\<exists>e q. erase e = UnaryExpr () k x \<and> reach (length ((k, None) # ws)) p q \<and> ev (\<lambda>n. factor_switch (methods_at n) p) (e, q)"
    using eq(1) reach_trans [OF reach_1 eq(2)] by (intro exI [of _ "UnaryExpr (Current p) k e"] exI [of _ q]) simp
qed

lemma paren_reads:
  assumes "reads opts Q parseExpression ws d stop0 x"
  shows "reads opts Q factor_switch (paren True ws) d S x"
proof (rule readsI)
  fix p assume p: "setting opts Q d p" "ahead (paren True ws) p"
  then have a: "Kind (Current p) = tkLeftParen" "ahead (ws @ [(tkRightParen, None)]) (advance p)"
    by (auto simp: paren_def is_tok_def)
  then have "stop0 (Kind (Current (after (length ws) (advance p))))" by (auto simp: ahead_append is_tok_def op_stops)
  then obtain e q where eq: "erase e = x" "reach (length ws) (advance p) q"
      "ev (\<lambda>n. parseExpression (methods_at n) (advance p)) (e, q)" "setting opts Q d q" "ahead [(tkRightParen, None)] q"
    using readsD [OF assms setting_advance [OF p(1)] a(2)] by blast
  have "ev (\<lambda>n. factor_switch (methods_at n) p) (e, advance q)"
    using a(1) eq(4,5)
    by (simp add: factor_switch_def factor_paren_def setting_def is_tok_def expect_def ev_return [OF ev_method(1) [OF eq(3)]])
  moreover have "reach (length (paren True ws)) p (advance q)"
    using reach_advance [OF reach_trans [OF reach_1 eq(2)]] by (simp add: paren_def)
  ultimately show "\<exists>e q. erase e = x \<and> reach (length (paren True ws)) p q \<and> ev (\<lambda>n. factor_switch (methods_at n) p) (e, q)"
    using eq(1) by blast
qed

subsection \<open>Designators\<close>

definition stop5 :: "TokenKind \<Rightarrow> bool" where "stop5 k \<longleftrightarrow> k \<noteq> tkLeftParen \<and> k \<noteq> tkLeftBracket"

lemma ident_leads:
  assumes "toLower m \<notin> Q"
  shows "leads opts Q factor_switch mPostfix [(tkIdentifier, Some m)] d stop5 (IdentExpr () m)"
proof (rule leadsI)
  fix p assume p: "setting opts Q d p" "ahead [(tkIdentifier, Some m)] p"
    "stop5 (Kind (Current (after (length [(tkIdentifier, Some m)]) p)))"
  then have "factor_switch R p = mPostfix R (IdentExpr (Current p) m) (advance p)" for R
    using assms by (simp add: factor_switch_def is_tok_def factor_identifier_def qualified_name_def setting_def stop5_def check_def
        isTypeKeyword_def)
  then show "\<exists>e q. erase e = IdentExpr () m \<and> reach (length [(tkIdentifier, Some m)]) p q
      \<and> (\<forall>r. ev (\<lambda>n. mPostfix (methods_at n) e q) r \<longrightarrow> ev (\<lambda>n. factor_switch (methods_at n) p) r)"
    using reach_1 by (intro exI [of _ "IdentExpr (Current p) m"] exI [of _ "advance p"]) simp
qed

lemma selector_leads:
  assumes "leads opts Q factor_switch mPostfix ws d stop5 x"
  shows "leads opts Q factor_switch mPostfix (ws @ [(tkDot, None), (tkIdentifier, Some f)]) d stop5 (FieldExpr () x f)"
    and "leads opts Q factor_switch mPostfix (ws @ [(tkCaret, None)]) d stop5 (DerefExpr () x)"
proof -
  show "leads opts Q factor_switch mPostfix (ws @ [(tkDot, None), (tkIdentifier, Some f)]) d stop5 (FieldExpr () x f)"
    (is "leads _ _ _ _ (ws @ ?vs) _ _ _")
  proof (rule leadsI)
    fix p assume p: "setting opts Q d p" "ahead (ws @ ?vs) p" "stop5 (Kind (Current (after (length (ws @ ?vs)) p)))"
    have "stop5 (Kind (Current (after (length ws) p)))" using p(2) by (simp add: ahead_append is_tok_def stop5_def)
    then obtain e q where eq: "erase e = x" "reach (length ws) p q" "ahead ?vs q"
        and post: "\<And>r. ev (\<lambda>n. mPostfix (methods_at n) e q) r \<Longrightarrow> ev (\<lambda>n. factor_switch (methods_at n) p) r"
      using leadsD [OF assms p(1,2)] by metis
    have "parsePostfix R e q = mPostfix R (FieldExpr (Current q) e f) (advance (advance q))" for R
      using eq(3) p(3) reach_frame(8) [OF reach_advance [OF reach_advance [OF eq(2)]]]
      by (simp add: parsePostfix_def check_def is_tok_def expect_def stop5_def)
    then show "\<exists>e q. erase e = FieldExpr () x f \<and> reach (length (ws @ ?vs)) p q
        \<and> (\<forall>r. ev (\<lambda>n. mPostfix (methods_at n) e q) r \<longrightarrow> ev (\<lambda>n. factor_switch (methods_at n) p) r)"
      using eq(1) reach_advance [OF reach_advance [OF eq(2)]] post ev_method(6) [of e q]
      by (intro exI [of _ "FieldExpr (Current q) e f"] exI [of _ "advance (advance q)"]) simp
  qed
  show "leads opts Q factor_switch mPostfix (ws @ [(tkCaret, None)]) d stop5 (DerefExpr () x)"
    (is "leads _ _ _ _ (ws @ ?vs) _ _ _")
  proof (rule leadsI)
    fix p assume p: "setting opts Q d p" "ahead (ws @ ?vs) p"
    have "stop5 (Kind (Current (after (length ws) p)))" using p(2) by (simp add: ahead_append is_tok_def stop5_def)
    then obtain e q where eq: "erase e = x" "reach (length ws) p q" "ahead ?vs q"
        and post: "\<And>r. ev (\<lambda>n. mPostfix (methods_at n) e q) r \<Longrightarrow> ev (\<lambda>n. factor_switch (methods_at n) p) r"
      using leadsD [OF assms p(1,2)] by metis
    have "parsePostfix R e q = mPostfix R (DerefExpr (Current q) e) (advance q)" for R
      using eq(3) by (simp add: parsePostfix_def check_def is_tok_def)
    then show "\<exists>e q. erase e = DerefExpr () x \<and> reach (length (ws @ ?vs)) p q
        \<and> (\<forall>r. ev (\<lambda>n. mPostfix (methods_at n) e q) r \<longrightarrow> ev (\<lambda>n. factor_switch (methods_at n) p) r)"
      using eq(1) reach_advance [OF eq(2)] post ev_method(6) [of e q]
      by (intro exI [of _ "DerefExpr (Current q) e"] exI [of _ "advance q"]) simp
  qed
qed

text \<open>A loop that stops at once.\<close>

lemma leads_done:
  assumes "leads opts Q F G ws d S x" "\<And>k. S' k \<Longrightarrow> S k"
    and "\<And>e q. S' (Kind (Current q)) \<Longrightarrow> ev (\<lambda>n. G (methods_at n) e q) (e, q)"
  shows "reads opts Q F ws d S' x"
proof (rule readsI)
  fix p assume p: "setting opts Q d p" "ahead ws p" "S' (Kind (Current (after (length ws) p)))"
  then obtain e q where "erase e = x" "reach (length ws) p q" "\<forall>r. ev (\<lambda>n. G (methods_at n) e q) r \<longrightarrow> ev (\<lambda>n. F (methods_at n) p) r"
    using assms(1,2) unfolding leads_def by meson
  then show "\<exists>e q. erase e = x \<and> reach (length ws) p q \<and> ev (\<lambda>n. F (methods_at n) p) (e, q)"
    using assms(3) [of q e] p(3) by (auto simp: reach_frame)
qed

lemma postfix_done: "stop4 (Kind (Current q)) \<Longrightarrow> ev (\<lambda>n. mPostfix (methods_at n) e q) (e, q)"
  by (rule ev_method) (simp add: parsePostfix_def check_def stop4_def ev_const)

lemma mul_done: "stop2 (Kind (Current q)) \<Longrightarrow> ev (\<lambda>n. mMulLoop (methods_at n) e q) (e, q)"
  by (rule ev_method) (simp add: mulop_loop_def stop2_def ev_const)

lemma add_done: "stop1 (Kind (Current q)) \<Longrightarrow> ev (\<lambda>n. mAddLoop (methods_at n) e q) (e, q)"
  by (rule ev_method) (simp add: addop_loop_def stop1_def ev_const)

lemma designator_reads:
  assumes "designator x" "fine opts Q x"
  shows "reads opts Q parseFactor (pr lv x) 1 stop4 x"
proof -
  have "leads opts Q factor_switch mPostfix (pr lv x) 0 stop5 x"
    using assms by (induction x rule: designator.induct) (auto intro: ident_leads selector_leads)
  then have "reads opts Q factor_switch (pr lv x) 0 stop4 x"
    by (rule leads_done) (auto simp: stop4_def stop5_def intro: postfix_done [unfolded stop4_def])
  then show ?thesis using factor_of_switch by fastforce
qed

subsection \<open>The operators\<close>

lemma power_of_factor:
  assumes "reads opts Q parseFactor ws d stop4 x"
  shows "reads opts Q parsePower ws d stop3 x"
proof (rule readsI)
  fix p assume p: "setting opts Q d p" "ahead ws p" "stop3 (Kind (Current (after (length ws) p)))"
  then obtain e q where eq: "erase e = x" "reach (length ws) p q" "ev (\<lambda>n. parseFactor (methods_at n) p) (e, q)"
    using assms unfolding reads_def stop3_def by blast
  then have "ev (\<lambda>n. parsePower (methods_at n) p) (e, q)"
    unfolding parsePower_def using p(3) by (intro ev_bind [OF eq(3)]) (simp add: reach_frame stop3_def ev_const Let_def)
  then show "\<exists>e q. erase e = x \<and> reach (length ws) p q \<and> ev (\<lambda>n. parsePower (methods_at n) p) (e, q)" using eq by blast
qed

lemma leavePower_reach:
  assumes "reach k (enterPower p) q" "\<not> PowerDepthLimitHit p"
  shows "reach k p (leavePower q)"
proof -
  obtain i where "q = (after k p)\<lparr>PowerDepth := Suc (PowerDepth p), StackProbes := i\<rparr>"
    using assms(1) by (auto simp: reach_def enterPower_def)
  then have "leavePower q = (after k p)\<lparr>StackProbes := i\<rparr>"
    using assms(2) by (intro Parser.equality) (simp_all add: leavePower_def Let_def)
  then show ?thesis unfolding reach_def by blast
qed

lemma reach_probe: "reach k (p\<lparr>StackProbes := j\<rparr>) q \<Longrightarrow> reach k p q"
  by (auto simp: reach_def)

lemma power_chain:
  assumes "reads opts Q parseFactor ws d stop4 x" "reads opts Q parsePower vs d stop3 y" "isExpop k" "extendedPascal opts"
  shows "reads opts Q parsePower (ws @ (k, None) # vs) d stop3 (BinaryExpr () k x y)"
proof (rule readsI)
  let ?ws = "ws @ (k, None) # vs"
  fix p assume p: "setting opts Q d p" "ahead ?ws p" "stop3 (Kind (Current (after (length ?ws) p)))"
  have "stop4 (Kind (Current (after (length ws) p)))" using p(2) assms(3) op_stops(1) by (simp add: ahead_append is_tok_def)
  then obtain e q where eq: "erase e = x" "reach (length ws) p q" "ev (\<lambda>n. parseFactor (methods_at n) p) (e, q)"
      "setting opts Q d q" "ahead ((k, None) # vs) q"
    using readsD [OF assms(1) p(1,2)] by blast
  let ?q = "enterPower (advance q)"
  let ?r = "?q\<lparr>StackProbes := Suc (StackProbes q)\<rparr>"
  have k: "Kind (Current q) = k" using eq(5) by (simp add: is_tok_def)
  have "setting opts Q d ?r" "ahead vs ?r" using eq(4,5) by (simp_all add: setting_def enterPower_def)
  moreover have "stop3 (Kind (Current (after (length vs) ?r)))"
    using p(3) kind_after [OF eq(2), of "length vs"] by (simp add: enterPower_def)
  ultimately obtain e' q' where eq': "erase e' = y" "reach (length vs) ?r q'" "ev (\<lambda>n. parsePower (methods_at n) ?r) (e', q')"
    using assms(2) unfolding reads_def by blast
  have R: "power_right R ?q = mPower R ?r" for R
    using eq(4) by (simp add: power_right_def stackNearlyExhausted_def setting_def enterPower_def)
  have "ev (\<lambda>n. parsePower (methods_at n) p) (BinaryExpr (Current q) k e e', leavePower q')"
    unfolding parsePower_def
    by (rule ev_bind [OF eq(3)])
      (use k assms(3,4) eq(4) in \<open>simp add: Let_def setting_def R ev_return [OF ev_method(2) [OF eq'(3)]]\<close>)
  moreover have "reach (length ?ws) p (leavePower q')"
    using reach_trans [OF eq(2) reach_trans [OF reach_1 leavePower_reach [OF reach_probe [OF eq'(2)]]]] eq(4)
    by (simp add: setting_def)
  ultimately show "\<exists>e q. erase e = BinaryExpr () k x y \<and> reach (length ?ws) p q \<and> ev (\<lambda>n. parsePower (methods_at n) p) (e, q)"
    using eq(1) eq'(1) by (intro exI [of _ "BinaryExpr (Current q) k e e'"] exI [of _ "leavePower q'"]) simp
qed

text \<open>A chain of operators of one precedence associates to the left: its loop takes the tree read so far.\<close>

lemma term_of_power:
  assumes "reads opts Q parsePower ws d stop3 x"
  shows "leads opts Q parseTerm mMulLoop ws d stop3 x"
proof (rule leadsI)
  fix p assume "setting opts Q d p" "ahead ws p" "stop3 (Kind (Current (after (length ws) p)))"
  then obtain e q where "erase e = x" "reach (length ws) p q" "ev (\<lambda>n. parsePower (methods_at n) p) (e, q)"
    using assms unfolding reads_def by blast
  then show "\<exists>e q. erase e = x \<and> reach (length ws) p q
      \<and> (\<forall>r. ev (\<lambda>n. mMulLoop (methods_at n) e q) r \<longrightarrow> ev (\<lambda>n. parseTerm (methods_at n) p) r)"
    unfolding parseTerm_def by (intro exI [of _ e] exI [of _ q]) (simp add: ev_bind)
qed

definition opens :: "want list \<Rightarrow> bool" where
  "opens ws \<longleftrightarrow> ws \<noteq> [] \<and> fst (hd ws) \<noteq> tkThen \<and> fst (hd ws) \<noteq> tkElse"

lemma opens_kind: "opens ws \<Longrightarrow> ahead ws p \<Longrightarrow> Kind (Current p) \<noteq> tkThen \<and> Kind (Current p) \<noteq> tkElse"
  by (cases ws) (auto simp: opens_def is_tok_def)

lemma chain_step:
  assumes lead: "leads opts Q F G ws d S x" and opd: "reads opts Q T vs d S y" and k: "S k" and first: "opens vs"
    and loop: "\<And>e q s r. Kind (Current q) = k \<Longrightarrow> setting opts Q d q \<Longrightarrow> Kind (Current (advance q)) \<notin> {tkThen, tkElse} \<Longrightarrow>
      ev (\<lambda>n. T (methods_at n) (advance q)) s \<Longrightarrow> ev (\<lambda>n. G (methods_at n) (BinaryExpr (Current q) k e (fst s)) (snd s)) r \<Longrightarrow>
      ev (\<lambda>n. G (methods_at n) e q) r"
  shows "leads opts Q F G (ws @ (k, None) # vs) d S (BinaryExpr () k x y)"
proof (rule leadsI)
  let ?ws = "ws @ (k, None) # vs"
  fix p assume p: "setting opts Q d p" "ahead ?ws p" "S (Kind (Current (after (length ?ws) p)))"
  have "S (Kind (Current (after (length ws) p)))" using p(2) k by (simp add: ahead_append is_tok_def)
  then obtain e q where eq: "erase e = x" "reach (length ws) p q" "setting opts Q d q" "ahead ((k, None) # vs) q"
      and F: "\<And>r. ev (\<lambda>n. G (methods_at n) e q) r \<Longrightarrow> ev (\<lambda>n. F (methods_at n) p) r"
    using leadsD [OF lead p(1,2)] by metis
  have "S (Kind (Current (after (length vs) (advance q))))" using p(3) kind_after [OF eq(2), of "length vs"] by simp
  then obtain e' q' where eq': "erase e' = y" "reach (length vs) (advance q) q'" "ev (\<lambda>n. T (methods_at n) (advance q)) (e', q')"
    using opd setting_advance [OF eq(3)] eq(4) unfolding reads_def by (metis ahead.simps(2))
  have "\<forall>r. ev (\<lambda>n. G (methods_at n) (BinaryExpr (Current q) k e e') q') r \<longrightarrow> ev (\<lambda>n. F (methods_at n) p) r"
    using F loop [OF _ eq(3) _ eq'(3)] eq(4) opens_kind [OF first, of "advance q"] by (simp add: is_tok_def)
  moreover have "reach (length ?ws) p q'" using reach_trans [OF eq(2) reach_trans [OF reach_1 eq'(2)]] by simp
  ultimately show "\<exists>e q. erase e = BinaryExpr () k x y \<and> reach (length ?ws) p q
      \<and> (\<forall>r. ev (\<lambda>n. G (methods_at n) e q) r \<longrightarrow> ev (\<lambda>n. F (methods_at n) p) r)"
    using eq(1) eq'(1) by (intro exI [of _ "BinaryExpr (Current q) k e e'"] exI [of _ q']) simp
qed

lemma term_chain:
  assumes "leads opts Q parseTerm mMulLoop ws d stop3 x" "reads opts Q parsePower vs d stop3 y" "isMulop k" "opens vs"
  shows "leads opts Q parseTerm mMulLoop (ws @ (k, None) # vs) d stop3 (BinaryExpr () k x y)"
proof (rule chain_step [OF assms(1,2) op_stops(2) [OF assms(3)] assms(4)])
  fix e q s r
  assume q: "Kind (Current q) = k" "Kind (Current (advance q)) \<notin> {tkThen, tkElse}"
    and s: "ev (\<lambda>n. parsePower (methods_at n) (advance q)) s" "ev (\<lambda>n. mMulLoop (methods_at n) (BinaryExpr (Current q) k e (fst s)) (snd s)) r"
  have "mulop_loop R e q = mPower R (advance q) \<bind> (\<lambda>(v, q'). mMulLoop R (BinaryExpr (Current q) k e v) q')" for R
    using q assms(3) by (simp add: mulop_loop_def two_words_def check_def)
  then show "ev (\<lambda>n. mMulLoop (methods_at n) e q) r"
    using s by (intro ev_method) (auto intro!: ev_bind ev_method(2) simp: prod_eq_iff)
qed

lemma simple_of_term:
  assumes "reads opts Q parseTerm ws d stop2 x" "ws \<noteq> []" "fst (hd ws) \<notin> {tkPlus, tkMinus}"
  shows "leads opts Q parseSimpleExpr mAddLoop ws d stop2 x"
proof (rule leadsI)
  fix p assume p: "setting opts Q d p" "ahead ws p" "stop2 (Kind (Current (after (length ws) p)))"
  then obtain e q where eq: "erase e = x" "reach (length ws) p q" "ev (\<lambda>n. parseTerm (methods_at n) p) (e, q)"
    using assms(1) unfolding reads_def by blast
  have "Kind (Current p) \<notin> {tkPlus, tkMinus}" using assms(2,3) p(2) by (cases ws) (auto simp: is_tok_def)
  then have "\<forall>r. ev (\<lambda>n. mAddLoop (methods_at n) e q) r \<longrightarrow> ev (\<lambda>n. parseSimpleExpr (methods_at n) p) r"
    unfolding parseSimpleExpr_def Let_def check_def by (simp add: ev_bind [OF eq(3)])
  then show "\<exists>e q. erase e = x \<and> reach (length ws) p q
      \<and> (\<forall>r. ev (\<lambda>n. mAddLoop (methods_at n) e q) r \<longrightarrow> ev (\<lambda>n. parseSimpleExpr (methods_at n) p) r)"
    using eq by blast
qed

lemma simple_sign:
  assumes "reads opts Q parseTerm ws d stop2 x" "k \<in> {tkPlus, tkMinus}"
  shows "leads opts Q parseSimpleExpr mAddLoop ((k, None) # ws) d stop2 (UnaryExpr () k x)"
proof (rule leadsI)
  fix p assume p: "setting opts Q d p" "ahead ((k, None) # ws) p" "stop2 (Kind (Current (after (length ((k, None) # ws)) p)))"
  then obtain e q where eq: "erase e = x" "reach (length ws) (advance p) q" "ev (\<lambda>n. parseTerm (methods_at n) (advance p)) (e, q)"
    using assms(1) setting_advance [OF p(1)] unfolding reads_def by auto
  have "parseSimpleExpr R p = parseTerm R (advance p) \<bind> (\<lambda>(e, q). mAddLoop R (UnaryExpr (Current p) k e) q)" for R
    using assms(2) p(2) by (auto simp: parseSimpleExpr_def Let_def check_def is_tok_def intro!: Option.bind_cong)
  then have "\<forall>r. ev (\<lambda>n. mAddLoop (methods_at n) (UnaryExpr (Current p) k e) q) r \<longrightarrow> ev (\<lambda>n. parseSimpleExpr (methods_at n) p) r"
    by (simp add: ev_bind [OF eq(3)])
  then show "\<exists>e q. erase e = UnaryExpr () k x \<and> reach (length ((k, None) # ws)) p q
      \<and> (\<forall>r. ev (\<lambda>n. mAddLoop (methods_at n) e q) r \<longrightarrow> ev (\<lambda>n. parseSimpleExpr (methods_at n) p) r)"
    using eq(1) reach_trans [OF reach_1 eq(2)] by (intro exI [of _ "UnaryExpr (Current p) k e"] exI [of _ q]) simp
qed

lemma simple_chain:
  assumes "leads opts Q parseSimpleExpr mAddLoop ws d stop2 x" "reads opts Q parseTerm vs d stop2 y"
    and "isAddop k" "k = tkSymDiff \<longrightarrow> extendedPascal opts" "opens vs"
  shows "leads opts Q parseSimpleExpr mAddLoop (ws @ (k, None) # vs) d stop2 (BinaryExpr () k x y)"
proof (rule chain_step [OF assms(1,2) op_stops(3) [OF assms(3)] assms(5)])
  fix e q s r
  assume q: "Kind (Current q) = k" "setting opts Q d q" "Kind (Current (advance q)) \<notin> {tkThen, tkElse}"
    and s: "ev (\<lambda>n. parseTerm (methods_at n) (advance q)) s" "ev (\<lambda>n. mAddLoop (methods_at n) (BinaryExpr (Current q) k e (fst s)) (snd s)) r"
  have "addop_loop R e q = parseTerm R (advance q) \<bind> (\<lambda>(v, q'). mAddLoop R (BinaryExpr (Current q) k e v) q')" for R
    using q assms(3,4) by (auto simp: addop_loop_def two_words_def check_def setting_def)
  then show "ev (\<lambda>n. mAddLoop (methods_at n) e q) r"
    using s by (intro ev_method) (auto intro!: ev_bind simp: prod_eq_iff)
qed

lemma expr_of_simple:
  assumes "reads opts Q parseSimpleExpr ws d stop1 x"
  shows "reads opts Q parseExpression ws d stop0 x"
proof (rule readsI)
  fix p assume p: "setting opts Q d p" "ahead ws p" "stop0 (Kind (Current (after (length ws) p)))"
  then obtain e q where eq: "erase e = x" "reach (length ws) p q" "ev (\<lambda>n. parseSimpleExpr (methods_at n) p) (e, q)"
    using assms unfolding reads_def stop0_def by blast
  then have "ev (\<lambda>n. parseExpression (methods_at n) p) (e, q)"
    unfolding parseExpression_def using p(3) by (intro ev_bind [OF eq(3)]) (simp add: reach_frame stop0_def ev_const Let_def)
  then show "\<exists>e q. erase e = x \<and> reach (length ws) p q \<and> ev (\<lambda>n. parseExpression (methods_at n) p) (e, q)" using eq by blast
qed

lemma expr_rel:
  assumes "reads opts Q parseSimpleExpr ws d stop1 x" "reads opts Q parseSimpleExpr vs d stop1 y" "isRelop k"
  shows "reads opts Q parseExpression (ws @ (k, None) # vs) d stop0 (BinaryExpr () k x y)"
proof (rule readsI)
  let ?ws = "ws @ (k, None) # vs"
  fix p assume p: "setting opts Q d p" "ahead ?ws p" "stop0 (Kind (Current (after (length ?ws) p)))"
  have "stop1 (Kind (Current (after (length ws) p)))" using p(2) op_stops(4) [OF assms(3)] by (simp add: ahead_append is_tok_def)
  then obtain e q where eq: "erase e = x" "reach (length ws) p q" "ev (\<lambda>n. parseSimpleExpr (methods_at n) p) (e, q)"
      "setting opts Q d q" "ahead ((k, None) # vs) q"
    using readsD [OF assms(1) p(1,2)] by blast
  have "stop1 (Kind (Current (after (length vs) (advance q))))"
    using p(3) kind_after [OF eq(2), of "length vs"] by (simp add: stop0_def)
  then obtain e' q' where eq': "erase e' = y" "reach (length vs) (advance q) q'" "ev (\<lambda>n. parseSimpleExpr (methods_at n) (advance q)) (e', q')"
    using assms(2) setting_advance [OF eq(4)] eq(5) unfolding reads_def by (metis ahead.simps(2))
  have "ev (\<lambda>n. parseExpression (methods_at n) p) (BinaryExpr (Current q) k e e', q')"
    unfolding parseExpression_def using assms(3) eq(5)
    by (intro ev_bind [OF eq(3)]) (simp add: Let_def is_tok_def ev_return [OF eq'(3)])
  then show "\<exists>e q. erase e = BinaryExpr () k x y \<and> reach (length ?ws) p q \<and> ev (\<lambda>n. parseExpression (methods_at n) p) (e, q)"
    using eq(1) eq'(1) reach_trans [OF eq(2) reach_trans [OF reach_1 eq'(2)]]
    by (intro exI [of _ "BinaryExpr (Current q) k e e'"] exI [of _ q']) simp
qed

subsection \<open>The whole tree\<close>

text \<open>A tree read at one level is read at every looser one, and inside parentheses at every level.\<close>

definition all_levels :: "LangOptions \<Rightarrow> bytes set \<Rightarrow> unit Expr \<Rightarrow> bool" where
  "all_levels opts Q x \<longleftrightarrow>
     reads opts Q parseExpression (pr 0 x) (dep x) stop0 x
     \<and> leads opts Q parseSimpleExpr mAddLoop (pr 1 x) (dep x + 1) stop2 x
     \<and> leads opts Q parseTerm mMulLoop (pr 2 x) (dep x + 1) stop3 x
     \<and> reads opts Q parsePower (pr 3 x) (dep x + 1) stop3 x
     \<and> reads opts Q parseFactor (pr 4 x) (dep x + 1) stop4 x"

lemma term_done: "leads opts Q parseTerm mMulLoop ws d stop3 x \<Longrightarrow> reads opts Q parseTerm ws d stop2 x"
  by (erule leads_done) (simp_all add: mul_done, simp add: stop2_def)

lemma simple_done: "leads opts Q parseSimpleExpr mAddLoop ws d stop2 x \<Longrightarrow> reads opts Q parseSimpleExpr ws d stop1 x"
  by (erule leads_done) (simp_all add: add_done, simp add: stop1_def)

lemmas to_expression = expr_of_simple [OF simple_done]
lemmas to_simple = simple_of_term [OF term_done]
lemmas to_term = term_of_power
lemmas to_power = power_of_factor

lemma paren_factor:
  assumes "reads opts Q parseExpression ws d stop0 x"
  shows "reads opts Q parseFactor (paren True ws) (d + 1) stop4 x"
  using factor_of_switch [OF paren_reads [OF assms]] by simp

lemma paren_opens: "paren True ws \<noteq> []" "fst (hd (paren True ws)) \<notin> {tkPlus, tkMinus}"
  by (simp_all add: paren_def)

lemma pr_first:
  assumes "fine opts Q x"
  shows "pr lv x \<noteq> [] \<and> fst (hd (pr lv x)) \<notin> {tkThen, tkElse} \<and> (lv > 1 \<longrightarrow> fst (hd (pr lv x)) \<notin> {tkPlus, tkMinus})"
  using assms by (induction x arbitrary: lv rule: fine.induct) (auto simp: paren_def hd_append)

lemma pr_opens: "fine opts Q x \<Longrightarrow> opens (pr lv x)"
  using pr_first unfolding opens_def by blast

lemma levels_factor:
  assumes "reads opts Q parseFactor ws (dep x) stop4 x" "\<And>lv. pr lv x = ws" "ws \<noteq> []" "fst (hd ws) \<notin> {tkPlus, tkMinus}"
  shows "all_levels opts Q x"
  unfolding all_levels_def assms(2)
  using assms(1) to_power [OF assms(1)] to_term [OF to_power [OF assms(1)]]
    to_simple [OF to_term [OF to_power [OF assms(1)]] assms(3,4)]
    to_expression [OF to_simple [OF to_term [OF to_power [OF assms(1)]] assms(3,4)]]
  by (auto intro: reads_mono leads_mono)

lemma levels_power:
  assumes "reads opts Q parsePower ws (dep x) stop3 x" "\<And>lv. pr lv x = paren (lv > 3) ws" "ws \<noteq> []" "fst (hd ws) \<notin> {tkPlus, tkMinus}"
  shows "all_levels opts Q x"
proof -
  note t = to_term [OF assms(1)] note s = to_simple [OF t assms(3,4)] note e = to_expression [OF s]
  show ?thesis unfolding all_levels_def assms(2) using assms(1) t s e paren_factor [OF e]
    by (auto simp: paren_def [of False] intro: reads_mono leads_mono)
qed

lemma levels_term:
  assumes "leads opts Q parseTerm mMulLoop ws (dep x) stop3 x" "\<And>lv. pr lv x = paren (lv > 2) ws" "ws \<noteq> []"
    "fst (hd ws) \<notin> {tkPlus, tkMinus}"
  shows "all_levels opts Q x"
proof -
  note t = assms(1) note s = to_simple [OF t assms(3,4)] note e = to_expression [OF s] note f = paren_factor [OF e]
  show ?thesis unfolding all_levels_def assms(2) using t s e f to_power [OF f]
    by (auto simp: paren_def [of False] intro: reads_mono leads_mono)
qed

lemma levels_simple:
  assumes "leads opts Q parseSimpleExpr mAddLoop ws (dep x) stop2 x" "\<And>lv. pr lv x = paren (lv > 1) ws"
  shows "all_levels opts Q x"
proof -
  note s = assms(1) note e = to_expression [OF s] note f = paren_factor [OF e]
  show ?thesis unfolding all_levels_def assms(2) using s e f to_power [OF f] to_term [OF to_power [OF f]]
    by (auto simp: paren_def [of False] intro: reads_mono leads_mono)
qed

lemma levels_expression:
  assumes "reads opts Q parseExpression ws (dep x) stop0 x" "\<And>lv. pr lv x = paren (lv > 0) ws"
  shows "all_levels opts Q x"
proof -
  note e = assms(1) note f = paren_factor [OF e] note t = to_term [OF to_power [OF f]]
  show ?thesis unfolding all_levels_def assms(2) using e f to_power [OF f] t to_simple [OF t paren_opens]
    by (auto simp: paren_def [of False])
qed

lemma levels_literal:
  assumes "reads opts Q factor_switch [w] 0 stop4 x" "dep x = 1" "\<And>lv. pr lv x = [w]" "fst w \<notin> {tkPlus, tkMinus}"
  shows "all_levels opts Q x"
  using factor_of_switch [OF assms(1)] assms(2-4) by (intro levels_factor [where ws = "[w]"]) auto

lemma levels_designator:
  assumes "designator x" "fine opts Q x"
  shows "all_levels opts Q x"
proof (rule levels_factor)
  have "dep x = 1" and same: "pr lv x = pr 4 x" for lv using assms(1) by (induction x rule: designator.induct) auto
  then show "reads opts Q parseFactor (pr 4 x) (dep x) stop4 x" using designator_reads [OF assms] by simp
  show "pr lv x = pr 4 x" for lv by (rule same)
qed (use pr_first [OF assms(2), of 4] in auto)

lemma fine_all_levels: "fine opts Q x \<Longrightarrow> all_levels opts Q x"
proof (induction x rule: fine.induct)
  case (1 opts Q l v b)
  then show ?case by (intro levels_literal [where w = "(tkIntLit, Some (to_string v))"]) (auto intro: literal_reads)
next
  case (2 opts Q l s)
  show ?case by (intro levels_literal [where w = "(tkStringLit, Some s)"]) (auto intro: literal_reads)
next
  case (3 opts Q l c)
  show ?case using literal_reads(3) [of opts Q c 0 stop4] by (intro levels_literal [where w = "(if c then tkTrue else tkFalse, None)"]) auto
next
  case (4 opts Q l)
  show ?case by (intro levels_literal [where w = "(tkNil, None)"]) (auto intro: literal_reads)
next
  case (5 opts Q l m)
  then show ?case by (intro levels_designator) auto
next
  case (6 opts Q l x f)
  then show ?case by (intro levels_designator) auto
next
  case (7 opts Q l x)
  then show ?case by (intro levels_designator) auto
next
  case (8 opts Q l k x)
  then have x: "all_levels opts Q x" "fine opts Q x" by auto
  show ?case
  proof (cases "k = tkNot \<or> k = tkAt")
    case True
    then have "reads opts Q parseFactor ((k, None) # pr 4 x) (dep (UnaryExpr l k x)) stop4 (UnaryExpr l k x)"
      using factor_of_switch [OF prefix_reads [of opts Q "pr 4 x" "dep x + 1" stop4 x k]] x(1) by (simp add: all_levels_def)
    then show ?thesis using True by (intro levels_factor) auto
  next
    case False
    then have "leads opts Q parseSimpleExpr mAddLoop ((k, None) # pr 2 x) (dep (UnaryExpr l k x)) stop2 (UnaryExpr l k x)"
      using simple_sign [OF term_done [OF leads_mono [where d' = "dep x + 2"]]] x(1) 8 by (auto simp: all_levels_def)
    then show ?thesis using False by (intro levels_simple) auto
  qed
next
  case (9 opts Q l k x y)
  let ?d = "dep (BinaryExpr l k x y)"
  have x: "all_levels opts Q x" "fine opts Q x" and y: "all_levels opts Q y" "fine opts Q y" and k: "oper opts k" using 9 by auto
  have dx: "dep x + 1 \<le> ?d" and dy: "dep y + 1 \<le> ?d" by auto
  note lx = x(1) [unfolded all_levels_def] and ly = y(1) [unfolded all_levels_def]
  have rx: "reads opts Q parseSimpleExpr (pr 1 x) ?d stop1 x" "leads opts Q parseSimpleExpr mAddLoop (pr 1 x) ?d stop2 x"
    "leads opts Q parseTerm mMulLoop (pr 2 x) ?d stop3 x" "reads opts Q parseFactor (pr 4 x) ?d stop4 x"
    using lx dx by (auto intro: simple_done leads_mono reads_mono)
  have ry: "reads opts Q parseSimpleExpr (pr 1 y) ?d stop1 y" "reads opts Q parseTerm (pr 2 y) ?d stop2 y"
    "reads opts Q parsePower (pr 3 y) ?d stop3 y"
    using ly dy by (auto intro: simple_done term_done leads_mono reads_mono)
  have first: "fst (hd (pr lv x @ ws)) \<notin> {tkPlus, tkMinus}" if "lv > 1" for lv ws using pr_first [OF x(2), of lv] that by simp
  consider "isRelop k" | "isAddop k" "\<not> isRelop k" | "isMulop k" "\<not> isRelop k" "\<not> isAddop k"
    | "isExpop k" "extendedPascal opts" "\<not> isRelop k" "\<not> isAddop k" "\<not> isMulop k" using k unfolding oper_def by blast
  then show ?case
  proof cases
    case 1 then show ?thesis using expr_rel [OF rx(1) ry(1) 1] by (intro levels_expression) auto
  next
    case 2 then show ?thesis using simple_chain [OF rx(2) ry(2) 2(1) _ pr_opens [OF y(2)]] k
      by (intro levels_simple) (auto simp: oper_def op_classes)
  next
    case 3 then show ?thesis using term_chain [OF rx(3) ry(3) 3(1) pr_opens [OF y(2)]] first [of 2] by (intro levels_term) auto
  next
    case 4 then show ?thesis using power_chain [OF rx(4) ry(3) 4(1,2)] first [of 4] by (intro levels_power) auto
  qed
qed auto

text \<open>C25. Reading back what the printer writes: let the tokens of a tree printed with the fewest parentheses be ahead,
  followed by a token that cannot continue an expression, the nesting not beyond the ceiling and the stack not
  short.  Then from some level of the recursion on the parser returns that tree, standing just behind its tokens,
  with its counters and its reports as they were.  Precedence and associativity of every operator, prefix
  operators and selectors are therefore those of the grammar: \<open>**\<close> and \<open>pow\<close> group to the right, the other
  operators of one class to the left, a relation does not chain, and a sign governs one term.\<close>

theorem expression_roundtrip:
  assumes "fine (POpts p) (QualifiedModules p) x"
    and "ahead (pr 0 x) p" "stop0 (Kind (Current (after (length (pr 0 x)) p)))"
    and "StackLow (Outside p) = (\<lambda>k. False)" "\<not> ExprDepthLimitHit p" "\<not> PowerDepthLimitHit p"
    and "ExprDepth p + dep x \<le> MaxExprDepth"
  shows "\<exists>e q N j. (\<forall>n\<ge>N. parseExpression (methods_at n) p = Some (e, q)) \<and> map_Expr (\<lambda>l. ()) e = x
    \<and> q = ((advance ^^ length (pr 0 x)) p)\<lparr>StackProbes := j\<rparr>"
proof -
  have "setting (POpts p) (QualifiedModules p) (dep x) p" using assms(4-7) by (simp add: setting_def)
  then have "\<exists>e q. erase e = x \<and> reach (length (pr 0 x)) p q \<and> ev (\<lambda>n. parseExpression (methods_at n) p) (e, q)"
    using fine_all_levels [OF assms(1)] assms(2,3) unfolding all_levels_def reads_def by blast
  then show ?thesis unfolding erase_def reach_def ev_def by blast
qed

text \<open>Evaluated at \<open>-1*2-3\<close>.\<close>

definition roundtrip_sample :: "unit Expr" where
  "roundtrip_sample =
     BinaryExpr () tkMinus
       (UnaryExpr () tkMinus (BinaryExpr () tkTimes (IntLitExpr () 1 False) (IntLitExpr () 2 False)))
       (IntLitExpr () 3 False)"

lemma roundtrip_sample_tokens:
  "ahead (pr 0 roundtrip_sample @ [(tkEof, None)]) (parser_on ''-1*2-3'' ISO7185)"
  by code_simp

lemma roundtrip_sample_ahead:
  "ahead (pr 0 roundtrip_sample) (parser_on ''-1*2-3'' ISO7185)"
  "stop0 (Kind (Current (after (length (pr 0 roundtrip_sample)) (parser_on ''-1*2-3'' ISO7185))))"
  using roundtrip_sample_tokens unfolding ahead_append by (simp_all add: is_tok_def stops op_classes)

lemma roundtrip_sample_start:
  "fine (POpts (parser_on tx ISO7185)) (QualifiedModules (parser_on tx ISO7185)) roundtrip_sample"
  "StackLow (Outside (parser_on tx ISO7185)) = (\<lambda>k. False)"
  "\<not> ExprDepthLimitHit (parser_on tx ISO7185)" "\<not> PowerDepthLimitHit (parser_on tx ISO7185)"
  "ExprDepth (parser_on tx ISO7185) + dep roundtrip_sample \<le> MaxExprDepth"
  by (auto simp: parser_on_def newParser_def roundtrip_sample_def oper_def isAddop_def isMulop_def MaxExprDepth_def INT64_MAX_def)

theorem expression_roundtrip_witness:
  "\<exists>e q N. (\<forall>n\<ge>N. parseExpression (methods_at n) (parser_on ''-1*2-3'' ISO7185) = Some (e, q))
    \<and> map_Expr (\<lambda>l. ()) e = roundtrip_sample"
  using expression_roundtrip [OF roundtrip_sample_start(1) roundtrip_sample_ahead roundtrip_sample_start(2-5)] by blast

end
