(* ===== verification/Expr_Wellformed.thy ===== *)
theory Expr_Wellformed
  imports Expr_Parser_Props
begin

text \<open>
  The shape of the trees the expression parser builds, whatever the tokens were: which operators a node can carry,
  which values fit an integer literal, and where a range or an \<open>otherwise\<close> arm may stand.  It is the partial
  correctness of every method, on the calculus of \<^verbatim>\<open>Parse_Contract\<close> with nothing asked of termination.
\<close>

subsection \<open>Well-formed trees\<close>

definition binary_operator :: "TokenKind \<Rightarrow> bool" where
  "binary_operator k \<longleftrightarrow> isRelop k \<or> isAddop k \<or> isMulop k \<or> isExpop k"

definition unary_operator :: "TokenKind \<Rightarrow> bool" where
  "unary_operator k \<longleftrightarrow> k \<in> {tkPlus, tkMinus, tkNot, tkAt}"

text \<open>\<open>expr_in b\<close>: an expression, or with \<open>b\<close> an element of a set, a label or a subscript, which may be a range.\<close>

fun expr_in :: "bool \<Rightarrow> 'l Expr \<Rightarrow> bool" and arm_ok :: "'l Arm \<Rightarrow> bool" where
  "expr_in b (IntLitExpr l v ex) \<longleftrightarrow> INT64_MIN \<le> v \<and> v \<le> INT64_MAX \<and> (ex \<longleftrightarrow> v < 0)"
| "expr_in b (RealLitExpr l v) \<longleftrightarrow> True"
| "expr_in b (StringLitExpr l v) \<longleftrightarrow> True"
| "expr_in b (BoolLitExpr l v) \<longleftrightarrow> True"
| "expr_in b (NilExpr l) \<longleftrightarrow> True"
| "expr_in b (IdentExpr l n) \<longleftrightarrow> True"
| "expr_in b (IndexExpr l a i) \<longleftrightarrow> expr_in False a \<and> expr_in True i"
| "expr_in b (FieldExpr l r f) \<longleftrightarrow> expr_in False r"
| "expr_in b (DerefExpr l q) \<longleftrightarrow> expr_in False q"
| "expr_in b (BinaryExpr l k x y) \<longleftrightarrow> binary_operator k \<and> expr_in False x \<and> expr_in False y"
| "expr_in b (UnaryExpr l k x) \<longleftrightarrow> unary_operator k \<and> expr_in False x"
| "expr_in b (CallExpr l n as) \<longleftrightarrow> (\<forall>a\<in>set as. expr_in False a)"
| "expr_in b (SetRangeExpr l x y) \<longleftrightarrow> b \<and> expr_in False x \<and> expr_in False y"
| "expr_in b (SetLiteralExpr l n es) \<longleftrightarrow> (\<forall>e\<in>set es. expr_in True e)"
| "expr_in b (SubstringExpr l s x y) \<longleftrightarrow> expr_in False s \<and> expr_in False x \<and> expr_in False y"
| "expr_in b (StructuredValueExpr l n as) \<longleftrightarrow> (\<forall>a\<in>set as. arm_ok a)"
| "expr_in b (TypeCastExpr l n e) \<longleftrightarrow> expr_in False e"
| "expr_in b (WriteParam l e w d) \<longleftrightarrow> False"
| "expr_in b (MethodCallExpr l r m as) \<longleftrightarrow> expr_in False r \<and> (\<forall>a\<in>set as. expr_in False a)"
| "expr_in b (InheritedCallExpr l m as) \<longleftrightarrow> (\<forall>a\<in>set as. expr_in False a)"
| "expr_in b (IndirectCallExpr l c as) \<longleftrightarrow> expr_in False c \<and> (\<forall>a\<in>set as. expr_in False a)"
| "arm_ok (StructuredValueArm ow ls v) \<longleftrightarrow> (ow \<longleftrightarrow> ls = []) \<and> (\<forall>l\<in>set ls. expr_in True l) \<and> expr_in False v"

abbreviation "expr_ok \<equiv> expr_in False"
abbreviation "exprs_ok es \<equiv> \<forall>e\<in>set es. expr_ok e"
abbreviation "labels_ok ls \<equiv> ls \<noteq> [] \<and> (\<forall>l\<in>set ls. expr_in True l)"
abbreviation "arms_ok as \<equiv> \<forall>a\<in>set as. arm_ok a"

lemma expr_in_any: "expr_ok e \<Longrightarrow> expr_in b e"
  by (cases e) auto

definition label_ok :: "expr \<times> expr option \<Rightarrow> bool" where
  "label_ok l \<longleftrightarrow> expr_ok (fst l) \<and> (\<forall>h. snd l = Some h \<longrightarrow> expr_ok h)"

lemma label_expr_ok [simp]: "label_ok l \<Longrightarrow> expr_in True (label_expr l)"
  by (cases l) (auto simp: label_ok_def label_expr_def expr_in_any split: option.split)

lemma int_literal_ok: "int_literal S = (v, ex, ok) \<Longrightarrow> INT64_MIN \<le> v \<and> v \<le> INT64_MAX \<and> (ex \<longleftrightarrow> v < 0)"
proof -
  have "0 \<le> foldl (\<lambda>v c. v * 10 + digit_val c) 0 ds" if "\<forall>c\<in>set ds. 0 \<le> digit_val c" for ds
    using that by (induction ds rule: rev_induct) auto
  moreover have "0 \<le> digit_val c" if "isdigit c" for c using that by (auto simp: isdigit_def digit_val_def)
  ultimately have "0 \<le> foldl (\<lambda>v c. v * 10 + digit_val c) 0 (takeWhile isdigit S)" by (meson set_takeWhileD)
  then show "int_literal S = (v, ex, ok) \<Longrightarrow> ?thesis"
    by (auto simp: int_literal_def Let_def INT64_MIN_def INT64_MAX_def split: if_splits)
qed

lemma sat_yield: "sat False r (\<lambda>x q. P x) \<Longrightarrow> (\<And>x q. P x \<Longrightarrow> Q x q) \<Longrightarrow> sat False r Q"
  by (erule sat_mono) auto

lemma two_words_ok:
  "isMulop k \<Longrightarrow> binary_operator (fst (two_words k tkAnd tkThen tkAndThen p))"
  "isAddop k \<Longrightarrow> binary_operator (fst (two_words k tkOr tkElse tkOrElse p))"
  by (auto simp: two_words_def binary_operator_def isMulop_def isAddop_def)

subsection \<open>Every method\<close>

locale wf_level =
  fixes R :: methods
  assumes wExpression: "sat False (mExpression R p) (\<lambda>e q. expr_ok e)"
    and wPower: "sat False (mPower R p) (\<lambda>e q. expr_ok e)"
    and wFactor: "sat False (mFactor R p) (\<lambda>e q. expr_ok e)"
    and wComponentValue: "sat False (mComponentValue R p) (\<lambda>e q. expr_ok e)"
    and wAddLoop: "expr_ok e \<Longrightarrow> sat False (mAddLoop R e p) (\<lambda>e q. expr_ok e)"
    and wMulLoop: "expr_ok e \<Longrightarrow> sat False (mMulLoop R e p) (\<lambda>e q. expr_ok e)"
    and wPostfix: "expr_ok e \<Longrightarrow> sat False (mPostfix R e p) (\<lambda>e q. expr_ok e)"
    and wArgs: "exprs_ok as \<Longrightarrow> sat False (mArgs R as p) (\<lambda>bs q. exprs_ok bs \<and> (as \<noteq> [] \<longrightarrow> bs \<noteq> []))"
    and wLabels: "labels_ok ls \<Longrightarrow> sat False (mLabels R ls p) (\<lambda>ls q. labels_ok ls)"
    and wIndex: "expr_ok e \<Longrightarrow> sat False (mIndex R L e p) (\<lambda>e q. expr_ok e)"
    and wValueArms: "arms_ok arms \<Longrightarrow> sat False (mValueArms R arms p) (\<lambda>as q. arms_ok as)"
    and wFieldList: "arms_ok arms \<Longrightarrow> sat False (mFieldList R arms p) (\<lambda>as q. arms_ok as)"
    and wVariantPart: "arms_ok arms \<Longrightarrow> sat False (mVariantPart R arms p) (\<lambda>as q. arms_ok as)"
    and wArms: "arms_ok arms \<Longrightarrow> sat False (mArms R arms p) (\<lambda>as q. arms_ok as)"
begin

lemmas wf_calls = wExpression [THEN sat_yield] wPower [THEN sat_yield] wFactor [THEN sat_yield] wComponentValue [THEN sat_yield]
  wAddLoop [THEN sat_yield] wMulLoop [THEN sat_yield] wPostfix [THEN sat_yield] wArgs [THEN sat_yield] wLabels [THEN sat_yield]
  wIndex [THEN sat_yield] wValueArms [THEN sat_yield] wFieldList [THEN sat_yield] wVariantPart [THEN sat_yield] wArms [THEN sat_yield]

lemmas wf_rules = sat_if sat_bind sat_match sat_option sat_return wf_calls

lemma args_loop: "exprs_ok as \<Longrightarrow> sat False (args_loop R as p) (\<lambda>bs q. exprs_ok bs \<and> (as \<noteq> [] \<longrightarrow> bs \<noteq> []))"
  unfolding args_loop_def by (assumption | rule wf_rules | simp)+

lemma parse_args: "sat False (parse_args R p) (\<lambda>bs q. exprs_ok bs)"
  unfolding parse_args_def by (assumption | rule wf_rules | simp)+

lemma parseOneLabel: "sat False (parseOneLabel R p) (\<lambda>l q. label_ok l)"
  unfolding parseOneLabel_def by (assumption | rule wf_rules | simp add: label_ok_def)+

lemma label_loop: "labels_ok ls \<Longrightarrow> sat False (label_loop R ls p) (\<lambda>ls q. labels_ok ls)"
  unfolding label_loop_def by (assumption | rule wf_rules parseOneLabel [THEN sat_yield] | simp)+

lemma parseValueLabels: "sat False (parseValueLabels R p) (\<lambda>ls q. labels_ok ls)"
  unfolding parseValueLabels_def by (assumption | rule wf_rules parseOneLabel [THEN sat_yield] | simp)+

lemma index_loop: "expr_ok e \<Longrightarrow> sat False (index_loop R L e p) (\<lambda>e q. expr_ok e)"
  unfolding index_loop_def by (assumption | rule wf_rules | simp add: expr_in_any)+

lemma parsePostfix: "expr_ok e \<Longrightarrow> sat False (parsePostfix R e p) (\<lambda>e q. expr_ok e)"
  unfolding parsePostfix_def Let_def by (assumption | rule sat_split wf_rules parse_args [THEN sat_yield] | simp)+

subsection \<open>Structured values\<close>

lemma parseValueArms: "arms_ok arms \<Longrightarrow> sat False (parseValueArms R arms p) (\<lambda>as q. arms_ok as)"
  unfolding parseValueArms_def by (assumption | rule wf_rules parseValueLabels [THEN sat_yield] | simp)+

lemma parseFieldListValue: "arms_ok arms \<Longrightarrow> sat False (parseFieldListValue R arms p) (\<lambda>as q. arms_ok as)"
  unfolding parseFieldListValue_def by (assumption | rule wf_rules | simp add: expr_in_any)+

lemma parseVariantPartValue: "arms_ok arms \<Longrightarrow> sat False (parseVariantPartValue R arms p) (\<lambda>as q. arms_ok as)"
  unfolding parseVariantPartValue_def by (assumption | rule wf_rules | simp add: expr_in_any)+

lemma arm_loop: "arms_ok arms \<Longrightarrow> sat False (arm_loop R arms p) (\<lambda>as q. arms_ok as)"
  unfolding arm_loop_def by (assumption | rule wf_rules parseOneLabel [THEN sat_yield] | simp)+

lemma parseComponentValue: "sat False (parseComponentValue R p) (\<lambda>e q. expr_ok e)"
  unfolding parseComponentValue_def Let_def
  by (assumption | rule wf_rules parseValueLabels [THEN sat_yield] | simp add: INT64_MIN_def INT64_MAX_def)+

lemma foldl_index: "expr_ok e \<Longrightarrow> \<forall>l\<in>set ls. expr_in True l \<Longrightarrow> expr_ok (foldl (\<lambda>e l. IndexExpr L e l) e ls)"
  by (induction ls arbitrary: e) auto

lemma index_or_set: "label_ok f \<Longrightarrow> labels_ok ls \<Longrightarrow> sat False (index_or_set R nm L f ls p) (\<lambda>e q. expr_ok e)"
proof -
  assume a: "label_ok f" "labels_ok ls"
  have "sat False (case f of (i, None) \<Rightarrow> mPostfix R (IndexExpr L (IdentExpr L nm) i) p
      | (lo, Some hi) \<Rightarrow> Some (SubstringExpr L (IdentExpr L nm) lo hi, p)) (\<lambda>e q. expr_ok e)"
    using a(1) by (cases f; cases "snd f") (auto simp: label_ok_def expr_in_any intro!: wPostfix sat_return)
  then show ?thesis unfolding index_or_set_def Let_def using a
    by (intro sat_if) (assumption | rule wPostfix sat_return foldl_index | simp)+
qed

lemma parseStructuredValueOrIndex: "sat False (parseStructuredValueOrIndex R nm L p) (\<lambda>e q. expr_ok e)"
  unfolding parseStructuredValueOrIndex_def
  by (assumption | rule wf_rules parseOneLabel [THEN sat_yield] index_or_set | simp)+

subsection \<open>Factors and operators\<close>

lemma factor_int: "sat False (Some (factor_int p)) (\<lambda>e q. expr_ok e)"
  using int_literal_ok by (intro sat_Some) (auto simp: factor_int_def split: prod.split)

lemma plain_factors:
  "sat False (Some (factor_real p)) (\<lambda>e q. expr_ok e)" "sat False (Some (factor_unexpected p)) (\<lambda>e q. expr_ok e)"
  by (simp_all add: sat_def factor_real_def factor_unexpected_def Let_def INT64_MIN_def INT64_MAX_def)

lemma factor_parts:
  "sat False (type_cast R L nm p) (\<lambda>e q. expr_ok e)" "sat False (parseSizeHighLowArg R nm p) (\<lambda>e q. expr_ok e)"
  "sat False (factor_set R L p) (\<lambda>e q. expr_ok e)" "sat False (factor_inherited R L p) (\<lambda>e q. expr_ok e)"
  "sat False (factor_paren R p) (\<lambda>e q. expr_ok e)"
  unfolding type_cast_def parseSizeHighLowArg_def factor_set_def factor_inherited_def factor_paren_def
  by (assumption | rule wf_rules parseOneLabel [THEN sat_yield] parse_args [THEN sat_yield] | simp)+

lemma factor_names:
  "sat False (factor_keyword R L p) (\<lambda>e q. expr_ok e)" "sat False (factor_identifier R L p) (\<lambda>e q. expr_ok e)"
  unfolding factor_keyword_def factor_identifier_def Let_def
  by (assumption | rule sat_split wf_rules factor_parts [THEN sat_yield] parseStructuredValueOrIndex
      | simp add: INT64_MIN_def INT64_MAX_def)+

lemma parseFactor: "sat False (parseFactor R p) (\<lambda>e q. expr_ok e)"
  unfolding parseFactor_def factor_switch_def Let_def
  by (assumption | rule sat_split sat_if sat_bind factor_int [THEN sat_yield] plain_factors [THEN sat_yield] factor_parts [THEN sat_yield]
      factor_names [THEN sat_yield] wf_calls sat_return | simp add: INT64_MIN_def INT64_MAX_def unary_operator_def)+

lemma drain_any: "sat False r (\<lambda>x q. True)"
  by (simp add: sat_def split: option.split)

lemma parsePower: "sat False (parsePower R p) (\<lambda>e q. expr_ok e)"
  unfolding parsePower_def power_right_def Let_def
  by (assumption | rule sat_if sat_bind sat_split parseFactor [THEN sat_yield] wPower [THEN sat_yield] wFactor [THEN sat_yield]
      drain_any [THEN sat_yield] sat_return | simp add: binary_operator_def)+

lemma mulop_loop: "expr_ok l \<Longrightarrow> sat False (mulop_loop R l p) (\<lambda>e q. expr_ok e)"
  unfolding mulop_loop_def Let_def by (assumption | rule sat_split wf_rules | simp add: two_words_ok)+

lemma parseTerm: "sat False (parseTerm R p) (\<lambda>e q. expr_ok e)"
  unfolding parseTerm_def by (assumption | rule sat_bind parsePower [THEN sat_yield] wf_calls | simp)+

lemma addop_loop: "expr_ok l \<Longrightarrow> sat False (addop_loop R l p) (\<lambda>e q. expr_ok e)"
  unfolding addop_loop_def Let_def by (assumption | rule sat_split sat_if sat_bind parseTerm [THEN sat_yield] wf_calls sat_return | simp add: two_words_ok)+

lemma parseSimpleExpr: "sat False (parseSimpleExpr R p) (\<lambda>e q. expr_ok e)"
  unfolding parseSimpleExpr_def Let_def
  by (assumption | rule sat_if sat_bind parseTerm [THEN sat_yield] wf_calls sat_return | (auto simp: unary_operator_def check_def)[1])+

lemma parseExpression: "sat False (parseExpression R p) (\<lambda>e q. expr_ok e)"
  unfolding parseExpression_def Let_def
  by (assumption | rule sat_if sat_bind parseSimpleExpr [THEN sat_yield] sat_return | simp add: binary_operator_def)+

end

subsection \<open>Every level\<close>

lemma wf_level_at: "wf_level (methods_at n)"
proof (induction n)
  case 0
  show ?case by (rule wf_level.intro) (simp_all add: sat_def)
next
  case (Suc n)
  show ?case
    by (rule wf_level.intro)
      (simp_all add: one_level_def wf_level.parseExpression [OF Suc] wf_level.parsePower [OF Suc] wf_level.parseFactor [OF Suc]
        wf_level.parseComponentValue [OF Suc] wf_level.addop_loop [OF Suc] wf_level.mulop_loop [OF Suc] wf_level.parsePostfix [OF Suc]
        wf_level.args_loop [OF Suc] wf_level.label_loop [OF Suc] wf_level.index_loop [OF Suc] wf_level.parseValueArms [OF Suc]
        wf_level.parseFieldListValue [OF Suc] wf_level.parseVariantPartValue [OF Suc] wf_level.arm_loop [OF Suc])
qed

interpretation shapes: wf_level "methods_at n" for n
  by (rule wf_level_at)

lemma expression_returns:
  assumes "4 * tokens_left p + 1 \<le> n"
  shows "\<exists>e q. parseExpression (methods_at n) p = Some (e, q)"
  using assms level.parseExpression [of n] unfolding meets_def sat_def by (auto split: option.splits dest!: spec [of _ p])

text \<open>C22. Every tree the expression parser hands on is well formed, the trees of erroneous input included: binary nodes
  carry one of the operators of the language and unary nodes one of four, an integer literal holds a value of 64 bits
  and is marked exactly when it is beyond the signed range, ranges stand only as elements, labels and subscripts, an
  arm has no labels exactly when it is the \<open>otherwise\<close> arm, and a field width occurs nowhere.\<close>

theorem parsed_expression_wellformed:
  assumes "parseExpression (methods_at n) p = Some (e, q)"
  shows "expr_in False e"
  using shapes.parseExpression [of n p] assms by (simp add: sat_def)

theorem parsed_expression_wellformed_witness:
  "\<exists>n e q. parseExpression (methods_at n) (parser_on ''a + [1..x, -2'' ISO7185) = Some (e, q) \<and> expr_in False e"
proof -
  let ?p = "parser_on ''a + [1..x, -2'' ISO7185"
  obtain n e q where r: "parseExpression (methods_at n) ?p = Some (e, q)"
    using expression_returns [OF order_refl] by blast
  show ?thesis using r parsed_expression_wellformed [OF r] by blast
qed

end
