(* ===== verification/Stmt_Parser.thy ===== *)
theory Stmt_Parser
  imports Expr_Parser
begin

text \<open>
  Parsing of statements, \<^verbatim>\<open>lib/Parse/ParseStmt.cpp\<close>, and the nodes of
  \<^verbatim>\<open>include/plang/AST/AstStmt.h\<close> as the parser fills them in.  A null pointer to a statement, the empty
  statement, is \<open>None\<close>.  The methods that are re-entered and the loops go through the record \<open>smethods\<close>, on
  top of the expression methods \<open>R\<close> of the same level.
\<close>

subsection \<open>Statements\<close>

datatype 'l Stmt =
    AssignStmt 'l "'l Expr" "'l Expr"
  | CompoundStmt 'l "'l Stmt list"
  | IfStmt 'l "'l Expr" "'l Stmt option" "'l Stmt option"
  | WhileStmt 'l "'l Expr" "'l Stmt option"
  | ForStmt 'l bytes "'l Expr" "'l Expr" bool "'l Stmt option"
  | ForInStmt 'l bytes "'l Expr" "'l Stmt option"
  | RepeatStmt 'l "'l Stmt list" "'l Expr"
  | CallStmt 'l bytes "'l Expr list"
  | MethodCallStmt 'l "'l Expr" bytes "'l Expr list"
  | InheritedCallStmt 'l bytes "'l Expr list"
  | IndirectCallStmt 'l "'l Expr" "'l Expr list"
  | WithStmt 'l "'l Expr list" "'l Stmt option"
  | GotoStmt 'l bytes
  | LabeledStmt 'l bytes "'l Stmt option"
  | CaseStmt 'l "'l Expr" "'l CaseArm list" "'l Stmt option" bool
and 'l CaseArm = CaseArm "('l Expr \<times> 'l Expr option) list" "'l Stmt option"

type_synonym stmt = "Token Stmt"
type_synonym case_label = "expr \<times> expr option"
type_synonym case_parts = "Token CaseArm list \<times> stmt option \<times> bool"

record smethods =
  sStatement :: "stmt option parse"
  sStmts :: "stmt list \<Rightarrow> stmt list parse"
  sRecords :: "expr list \<Rightarrow> expr list parse"
  sCallArgs :: "bool \<Rightarrow> expr list \<Rightarrow> expr list parse"
  sCaseLabels :: "case_label list \<Rightarrow> case_label list parse"
  sCaseArms :: "Token CaseArm list \<Rightarrow> case_parts parse"
  sFinish :: "expr \<Rightarrow> Token \<Rightarrow> stmt option parse"

definition MaxStmtDepth :: nat where "MaxStmtDepth = 500"

text \<open>The spelling of a label is its value; an identifier used as a label is lower-cased.\<close>

definition canonicalLabel :: "bytes \<Rightarrow> bytes" where
  "canonicalLabel S =
     (if \<not> list_all isdigit S then toLower S
      else let d = dropWhile (\<lambda>c. c = CHR ''0'') S in if d = [] then ''0'' else d)"

subsection \<open>Statement lists\<close>

text \<open>\<^verbatim>\<open>if (S) Node->Stmts.push_back(std::move(S))\<close>.\<close>

definition push_stmt :: "stmt option \<Rightarrow> stmt list \<Rightarrow> stmt list" where
  "push_stmt s ss = (case s of None \<Rightarrow> ss | Some x \<Rightarrow> ss @ [x])"

definition stmts_loop :: "smethods \<Rightarrow> stmt list \<Rightarrow> stmt list parse" where
  "stmts_loop S ss p =
     (case match_tok tkSemicolon p of (m, p1) \<Rightarrow>
        if m then do { (s, p2) \<leftarrow> sStatement S p1; sStmts S (push_stmt s ss) p2 } else Some (ss, p1))"

definition stmt_list :: "smethods \<Rightarrow> stmt list parse" where
  "stmt_list S p = do { (s, p1) \<leftarrow> sStatement S p; sStmts S (push_stmt s []) p1 }"

definition parseCompoundStmt :: "smethods \<Rightarrow> stmt parse" where
  "parseCompoundStmt S p =
     do { (ss, p1) \<leftarrow> stmt_list S (snd (expect tkBegin p));
          Some (CompoundStmt (Current p) ss,
                if StmtDepthLimitHit p1 then snd (match_tok tkEnd p1) else snd (expect tkEnd p1)) }"

definition parseRepeatStmt :: "methods \<Rightarrow> smethods \<Rightarrow> stmt parse" where
  "parseRepeatStmt R S p =
     do { (ss, p1) \<leftarrow> stmt_list S (snd (expect tkRepeat p));
          (c, p2) \<leftarrow> parseExpression R (snd (expect tkUntil p1));
          Some (RepeatStmt (Current p) ss c, p2) }"

subsection \<open>Conditions, loops and with\<close>

definition parseIfStmt :: "methods \<Rightarrow> smethods \<Rightarrow> stmt parse" where
  "parseIfStmt R S p =
     do { (c, p1) \<leftarrow> parseExpression R (snd (expect tkIf p));
          (t, p2) \<leftarrow> sStatement S (snd (expect tkThen p1));
          (case match_tok tkElse p2 of (m, p3) \<Rightarrow>
             if m then do { (e, p4) \<leftarrow> sStatement S p3; Some (IfStmt (Current p) c t e, p4) }
             else Some (IfStmt (Current p) c t None, p3)) }"

definition parseWhileStmt :: "methods \<Rightarrow> smethods \<Rightarrow> stmt parse" where
  "parseWhileStmt R S p =
     do { (c, p1) \<leftarrow> parseExpression R (snd (expect tkWhile p));
          (b, p2) \<leftarrow> sStatement S (snd (expect tkDo p1));
          Some (WhileStmt (Current p) c b, p2) }"

text \<open>\<open>to\<close> or \<open>downto\<close>: whether it is the latter.\<close>

definition for_direction :: "Parser \<Rightarrow> bool \<times> Parser" where
  "for_direction p =
     (case match_tok tkTo p of (up, p1) \<Rightarrow>
        if up then (False, p1)
        else case match_tok tkDownto p1 of (down, p2) \<Rightarrow>
          if down then (True, p2)
          else (False, parse_error (Loc (Current p2)) err_expected_to_or_downto [describe_kind p2 (Kind (Current p2))] p2))"

definition parseForStmt :: "methods \<Rightarrow> smethods \<Rightarrow> stmt parse" where
  "parseForStmt R S p =
     (case expect tkIdentifier (snd (expect tkFor p)) of (v, p1) \<Rightarrow>
        if check tkIn p1 then
          do { (s, p2) \<leftarrow> parseExpression R
                 (advance (if \<not> extendedPascal (POpts p1) then parse_error (Loc (Current p1)) err_ep_for_in [] p1 else p1));
               (b, p3) \<leftarrow> sStatement S (snd (expect tkDo p2));
               Some (ForInStmt (Current p) (Lexeme v) s b, p3) }
        else
          do { (from_expr, p2) \<leftarrow> parseExpression R (snd (expect tkAssign p1));
               (case for_direction p2 of (down, p3) \<Rightarrow>
                  do { (limit, p4) \<leftarrow> parseExpression R p3;
                       (b, p5) \<leftarrow> sStatement S (snd (expect tkDo p4));
                       Some (ForStmt (Current p) (Lexeme v) from_expr limit down b, p5) }) })"

definition records_loop :: "methods \<Rightarrow> smethods \<Rightarrow> expr list \<Rightarrow> expr list parse" where
  "records_loop R S rs p =
     (case match_tok tkComma p of (m, p1) \<Rightarrow>
        if m then do { (r, p2) \<leftarrow> parseFactor R p1; sRecords S (rs @ [r]) p2 } else Some (rs, p1))"

definition parseWithStmt :: "methods \<Rightarrow> smethods \<Rightarrow> stmt parse" where
  "parseWithStmt R S p =
     do { (r, p1) \<leftarrow> parseFactor R (snd (expect tkWith p));
          (rs, p2) \<leftarrow> sRecords S [r] p1;
          (b, p3) \<leftarrow> sStatement S (snd (expect tkDo p2));
          Some (WithStmt (Current p) rs b, p3) }"

subsection \<open>Case statements\<close>

definition parseCaseLabel :: "methods \<Rightarrow> case_label parse" where
  "parseCaseLabel R p =
     do { (lo, p1) \<leftarrow> parseCaseConstant R p;
          if check tkDotDot p1 then
            do { (hi, p2) \<leftarrow> parseCaseConstant R (advance (arm_caret
                   (if \<not> has_feature (POpts p1) CaseConstantRanges
                    then parse_error (Loc (Current p1)) err_ep_case_range [] p1 else p1)));
                 Some ((lo, Some hi), p2) }
          else Some ((lo, None), p1) }"

definition case_labels_loop :: "methods \<Rightarrow> smethods \<Rightarrow> case_label list \<Rightarrow> case_label list parse" where
  "case_labels_loop R S ls p =
     (if check tkComma p then do { (l, p1) \<leftarrow> parseCaseLabel R (advance (arm_caret p)); sCaseLabels S (ls @ [l]) p1 }
      else Some (ls, p))"

text \<open>The part behind \<open>else\<close> or \<open>otherwise\<close>: under Turbo a statement list.\<close>

definition case_default :: "smethods \<Rightarrow> Token CaseArm list \<Rightarrow> case_parts parse" where
  "case_default S arms p =
     (let p1 = advance (if \<not> has_feature (POpts p) CaseDefaultArm
                        then parse_error (Loc (Current p)) err_ep_case_otherwise [] p else p) in
      if turbo (POpts p1) then
        do { (ss, p2) \<leftarrow> stmt_list S p1; Some ((arms, Some (CompoundStmt (Current p1) ss), True), p2) }
      else do { (s, p2) \<leftarrow> sStatement S p1; Some ((arms, s, True), snd (match_tok tkSemicolon p2)) })"

definition case_arms_loop :: "methods \<Rightarrow> smethods \<Rightarrow> Token CaseArm list \<Rightarrow> case_parts parse" where
  "case_arms_loop R S arms p =
     (if check tkEnd p \<or> check tkEof p then Some ((arms, None, False), p)
      else if check tkElse p \<or> check tkOtherwise p then case_default S arms p
      else
        do { (l, p1) \<leftarrow> parseCaseLabel R p;
             (ls, p2) \<leftarrow> sCaseLabels S [l] p1;
             (b, p3) \<leftarrow> sStatement S (snd (expect tkColon p2));
             if check tkSemicolon p3 then sCaseArms S (arms @ [CaseArm ls b]) (advance (arm_caret p3))
             else if check tkOtherwise p3 \<or> check tkElse p3 then sCaseArms S (arms @ [CaseArm ls b]) p3
             else Some ((arms @ [CaseArm ls b], None, False), p3) })"

definition parseCaseStmt :: "methods \<Rightarrow> smethods \<Rightarrow> stmt parse" where
  "parseCaseStmt R S p =
     do { (sel, p1) \<leftarrow> parseExpression R (snd (expect tkCase p));
          (parts, p2) \<leftarrow> sCaseArms S [] (snd (expect tkOf (arm_caret p1)));
          Some (case parts of (arms, els, hasElse) \<Rightarrow> CaseStmt (Current p) sel arms els hasElse, snd (expect tkEnd p2)) }"

subsection \<open>Calls and assignments\<close>

definition parseWriteArg :: "methods \<Rightarrow> expr parse" where
  "parseWriteArg R p =
     do { (v, p1) \<leftarrow> parseExpression R p;
          if \<not> check tkColon p1 then Some (v, p1)
          else
            do { (w, p2) \<leftarrow> parseExpression R (advance p1);
                 (case match_tok tkColon p2 of (m, p3) \<Rightarrow>
                    if m then do { (d, p4) \<leftarrow> parseExpression R p3; Some (WriteParam (expr_loc v) v w (Some d), p4) }
                    else Some (WriteParam (expr_loc v) v w None, p3)) } }"

definition isWriteProc :: "bytes \<Rightarrow> bool" where
  "isWriteProc Name \<longleftrightarrow> map c_tolower Name \<in> {''write'', ''writeln'', ''writestr'', ''str''}"

definition call_arg :: "methods \<Rightarrow> bool \<Rightarrow> expr parse" where
  "call_arg R isWrite p = (if isWrite then parseWriteArg R p else parseExpression R p)"

definition call_args_loop :: "methods \<Rightarrow> smethods \<Rightarrow> bool \<Rightarrow> expr list \<Rightarrow> expr list parse" where
  "call_args_loop R S isWrite as p =
     (case match_tok tkComma p of (m, p1) \<Rightarrow>
        if m then do { (a, p2) \<leftarrow> call_arg R isWrite p1; sCallArgs S isWrite (as @ [a]) p2 } else Some (as, p1))"

definition call_args :: "methods \<Rightarrow> smethods \<Rightarrow> bool \<Rightarrow> expr list parse" where
  "call_args R S isWrite p =
     do { (as, p1) \<leftarrow> (if \<not> check tkRightParen p
                        then do { (a, q) \<leftarrow> call_arg R isWrite p; sCallArgs S isWrite [a] q } else Some ([], p));
          Some (as, snd (expect tkRightParen p1)) }"

definition assign_to :: "methods \<Rightarrow> expr \<Rightarrow> stmt option parse" where
  "assign_to R lv p = do { (v, p1) \<leftarrow> parseExpression R (advance p); Some (Some (AssignStmt (expr_loc lv) lv v), p1) }"

definition finishLvalueStatement :: "methods \<Rightarrow> smethods \<Rightarrow> expr \<Rightarrow> Token \<Rightarrow> stmt option parse" where
  "finishLvalueStatement R S lv L p =
     (if check tkAssign p then assign_to R lv p
      else case lv of
        IdentExpr l Name \<Rightarrow>
          if check tkColon p then
            do { (s, p1) \<leftarrow> sStatement S (advance p); Some (Some (LabeledStmt L (canonicalLabel (Lexeme L)) s), p1) }
          else
            do { (as, p2) \<leftarrow> (case match_tok tkLeftParen p of (m, p1) \<Rightarrow>
                   if m then call_args R S (isWriteProc Name) p1 else Some ([], p1));
                 if check tkDot p2 \<or> check tkCaret p2 \<or> check tkLeftBracket p2 then
                   do { (e, p3) \<leftarrow> parsePostfix R (CallExpr L Name as) p2; sFinish S e L p3 }
                 else Some (Some (CallStmt L Name as), p2) }
      | MethodCallExpr l r m as \<Rightarrow> Some (Some (MethodCallStmt l r m as), p)
      | FieldExpr l r f \<Rightarrow> Some (Some (MethodCallStmt l r f []), p)
      | IndirectCallExpr l c as \<Rightarrow> Some (Some (IndirectCallStmt l c as), p)
      | _ \<Rightarrow> Some (None, parse_error (Loc (expr_loc lv)) err_expected_assign_after_var [] p))"

subsection \<open>The statement\<close>

text \<open>The operand of a typecast from behind its left parenthesis, and the selectors behind it.\<close>

definition lvalue_cast :: "methods \<Rightarrow> Token \<Rightarrow> expr parse" where
  "lvalue_cast R L p =
     do { (e, p1) \<leftarrow> parseExpression R p; parsePostfix R (TypeCastExpr L (Lexeme L) e) (snd (expect tkRightParen p1)) }"

definition stmt_goto :: "Parser \<Rightarrow> stmt option \<times> Parser" where
  "stmt_goto p =
     (let p1 = advance p in
      if check tkIntLit p1 \<or> check tkIdentifier p1
      then (Some (GotoStmt (Current p) (canonicalLabel (Lexeme (Current p1)))), advance p1)
      else (Some (GotoStmt (Current p) []),
            parse_error (Loc (Current p1)) err_expected_goto_label [describe_kind p1 (Kind (Current p1))] p1))"

definition stmt_label :: "smethods \<Rightarrow> stmt option parse" where
  "stmt_label S p =
     (case match_tok tkColon (advance p) of (m, p1) \<Rightarrow>
        if m then
          do { (s, p2) \<leftarrow> sStatement S p1; Some (Some (LabeledStmt (Current p) (canonicalLabel (Lexeme (Current p))) s), p2) }
        else Some (None, parse_error (Loc (Current p)) err_unexpected_int_literal [] p1))"

definition stmt_keyword :: "methods \<Rightarrow> stmt option parse" where
  "stmt_keyword R p =
     (if \<not> turbo (POpts p) then Some (None, p)
      else
        let p1 = advance p in
        if \<not> check tkLeftParen p1 then Some (None, p1)
        else
          do { (lv, p2) \<leftarrow> lvalue_cast R (Current p) (advance p1);
               if check tkAssign p2 then assign_to R lv p2
               else Some (None, parse_error (Loc (expr_loc lv)) err_expected_assign_after_var [] p2) })"

definition stmt_identifier :: "methods \<Rightarrow> smethods \<Rightarrow> stmt option parse" where
  "stmt_identifier R S p =
     (let L = Current p; p1 = advance p; Lower = toLower (Lexeme L);
          NamesAType = (turbo (POpts p1) \<and> Lower \<in> TypeNames p1 \<and> Lower \<notin> VarNames p1) in
      do { (lv, p2) \<leftarrow> (if NamesAType \<and> check tkLeftParen p1 then lvalue_cast R L (advance p1)
                         else case qualified_name (Lexeme L) p1 of (Name, q) \<Rightarrow> parsePostfix R (IdentExpr L Name) q);
           finishLvalueStatement R S lv L p2 })"

definition stmt_inherited :: "methods \<Rightarrow> stmt option parse" where
  "stmt_inherited R p =
     (let p1 = advance p in
      if check tkIdentifier p1 then
        (case match_tok tkLeftParen (advance p1) of (m, p2) \<Rightarrow>
           do { (as, p3) \<leftarrow> (if m then parse_args R p2 else Some ([], p2));
                Some (Some (InheritedCallStmt (Current p) (Lexeme (Current p1)) as), p3) })
      else Some (Some (InheritedCallStmt (Current p) [] []), p1))"

text \<open>A result that is a statement for certain.\<close>

definition some_stmt :: "stmt parse \<Rightarrow> stmt option parse" where
  "some_stmt f p = do { (s, p1) \<leftarrow> f p; Some (Some s, p1) }"

definition statement_switch :: "methods \<Rightarrow> smethods \<Rightarrow> stmt option parse" where
  "statement_switch R S p =
     (let k = Kind (Current p) in
      if k = tkBegin then some_stmt (parseCompoundStmt S) p
      else if k = tkIf then some_stmt (parseIfStmt R S) p
      else if k = tkWhile then some_stmt (parseWhileStmt R S) p
      else if k = tkFor then some_stmt (parseForStmt R S) p
      else if k = tkRepeat then some_stmt (parseRepeatStmt R S) p
      else if k = tkWith then some_stmt (parseWithStmt R S) p
      else if k = tkCase then some_stmt (parseCaseStmt R S) p
      else if k = tkGoto then Some (stmt_goto p)
      else if k = tkIntLit then stmt_label S p
      else if isTypeKeyword k then stmt_keyword R p
      else if k = tkIdentifier then stmt_identifier R S p
      else if k = tkInherited then stmt_inherited R p
      else Some (None, p))"

text \<open>\<^verbatim>\<open>StmtDepth > MaxStmtDepth || stackNearlyExhausted(StackBaseline)\<close>, inside the guard.\<close>

definition stmtTooDeep :: "Parser \<Rightarrow> bool \<times> Parser" where
  "stmtTooDeep p = (if StmtDepth p > MaxStmtDepth then (True, p) else stackNearlyExhausted p)"

definition parseStatement :: "methods \<Rightarrow> smethods \<Rightarrow> stmt option parse" where
  "parseStatement R S p =
     do { (s, q) \<leftarrow> (case stmtTooDeep (enterStmt p) of (deep, p1) \<Rightarrow>
            if deep then
              Some (None, if \<not> StmtDepthLimitHit p1
                          then parse_error (Loc (Current p1)) err_stmt_too_deeply_nested [] (p1\<lparr>StmtDepthLimitHit := True\<rparr>)
                          else p1)
            else statement_switch R S p1);
          Some (s, leaveStmt q) }"

subsection \<open>The knot\<close>

definition stmt_level :: "methods \<Rightarrow> smethods \<Rightarrow> smethods" where
  "stmt_level R S =
     \<lparr>sStatement = parseStatement R S, sStmts = stmts_loop S, sRecords = records_loop R S, sCallArgs = call_args_loop R S,
      sCaseLabels = case_labels_loop R S, sCaseArms = case_arms_loop R S, sFinish = finishLvalueStatement R S\<rparr>"

primrec stmts_at :: "nat \<Rightarrow> smethods" where
  "stmts_at 0 =
     \<lparr>sStatement = (\<lambda>p. None), sStmts = (\<lambda>ss p. None), sRecords = (\<lambda>rs p. None), sCallArgs = (\<lambda>w as p. None),
      sCaseLabels = (\<lambda>ls p. None), sCaseArms = (\<lambda>arms p. None), sFinish = (\<lambda>e L p. None)\<rparr>"
| "stmts_at (Suc n) = stmt_level (methods_at n) (stmts_at n)"

end
