(* ===== verification/Decl_Nodes.thy ===== *)
theory Decl_Nodes
  imports Stmt_Parser
begin

text \<open>
  The nodes of types and declarations, \<^verbatim>\<open>include/plang/AST/AstType.h\<close> and \<^verbatim>\<open>AstDecl.h\<close>, as the parser
  fills them in.  What every type denoter carries, its location, \<open>Bindable\<close> and the initial state, is the
  record \<open>TypeAttrs\<close>.  A pointer that may be null is an option.  The method of an object type is a heading,
  a \<open>ProcDecl\<close> whose body is null.
\<close>

record IndexSpec =
  SpecLo :: bytes
  SpecHi :: bytes
  SpecOrdType :: bytes

text \<open>The part of a \<open>ParamGroup\<close> and of a \<open>ProcDecl\<close> that is not recursive.\<close>

record ParamHead =
  IsVar :: bool
  IsProtected :: bool
  IsConst :: bool
  ParamNames :: "bytes list"
  ParamNameLocs :: "SourceLocation list"
  ParamLoc :: SourceLocation

record ProcHead =
  ProcLoc :: Token
  IsFunction :: bool
  IsForward :: bool
  IsVirtual :: bool
  IsAbstract :: bool
  IsConstructor :: bool
  IsDestructor :: bool
  OwnerType :: bytes
  ProcName :: bytes
  ResultName :: bytes

datatype MemberVisibility = Public | Private

record TypeAttrs =
  TypeLoc :: Token
  Bindable :: bool
  InitialState :: "expr option"

datatype TypeNode =
    NamedTypeNode TypeAttrs bytes bool
  | ArrayTypeNode TypeAttrs "expr option" "expr option" "TypeNode option" TypeNode bool
  | SubrangeTypeNode TypeAttrs expr expr
  | EnumTypeNode TypeAttrs "bytes list"
  | RecordTypeNode TypeAttrs "FieldDecl list" "VariantPart option" bool
  | SetTypeNode TypeAttrs TypeNode bool
  | FileTypeNode TypeAttrs "TypeNode option" "TypeNode option"
  | PackedTypeNode TypeAttrs TypeNode
  | PointerTypeNode TypeAttrs TypeNode
  | StringTypeNode TypeAttrs expr bool
  | TypeOfNode TypeAttrs bytes
  | ConformantArrayTypeNode TypeAttrs "IndexSpec list" TypeNode bool bool
  | ProcedureTypeNode TypeAttrs bool "ParamGroup list" "TypeNode option"
  | SchemaTypeNode TypeAttrs bytes "expr list"
  | ObjectTypeNode TypeAttrs bytes "ObjectMember list"
and FieldDecl = FieldDecl "bytes list" TypeNode
and VariantCase = VariantCase "expr list" "FieldDecl list" "VariantPart option"
and VariantPart = VariantPart bytes TypeNode "VariantCase list"
and ParamGroup = ParamGroup ParamHead "TypeNode option"
and ObjectMember =
    ObjectField MemberVisibility FieldDecl
  | ObjectMethod MemberVisibility ProcHead "ParamGroup list" "TypeNode option"

text \<open>A denoter as it is made, and \<^verbatim>\<open>Node->Bindable = true\<close> and \<^verbatim>\<open>Node.InitialState = ...\<close> on one.\<close>

definition at_loc :: "Token \<Rightarrow> TypeAttrs" where
  "at_loc L = \<lparr>TypeLoc = L, Bindable = False, InitialState = None\<rparr>"

fun map_attrs :: "(TypeAttrs \<Rightarrow> TypeAttrs) \<Rightarrow> TypeNode \<Rightarrow> TypeNode" where
  "map_attrs f (NamedTypeNode a n r) = NamedTypeNode (f a) n r"
| "map_attrs f (ArrayTypeNode a lo hi ix e pk) = ArrayTypeNode (f a) lo hi ix e pk"
| "map_attrs f (SubrangeTypeNode a lo hi) = SubrangeTypeNode (f a) lo hi"
| "map_attrs f (EnumTypeNode a vs) = EnumTypeNode (f a) vs"
| "map_attrs f (RecordTypeNode a fs v pk) = RecordTypeNode (f a) fs v pk"
| "map_attrs f (SetTypeNode a b pk) = SetTypeNode (f a) b pk"
| "map_attrs f (FileTypeNode a e ix) = FileTypeNode (f a) e ix"
| "map_attrs f (PackedTypeNode a t) = PackedTypeNode (f a) t"
| "map_attrs f (PointerTypeNode a t) = PointerTypeNode (f a) t"
| "map_attrs f (StringTypeNode a c s) = StringTypeNode (f a) c s"
| "map_attrs f (TypeOfNode a v) = TypeOfNode (f a) v"
| "map_attrs f (ConformantArrayTypeNode a ss e pk op) = ConformantArrayTypeNode (f a) ss e pk op"
| "map_attrs f (ProcedureTypeNode a fn ps r) = ProcedureTypeNode (f a) fn ps r"
| "map_attrs f (SchemaTypeNode a n as) = SchemaTypeNode (f a) n as"
| "map_attrs f (ObjectTypeNode a an ms) = ObjectTypeNode (f a) an ms"

definition set_bindable :: "TypeNode \<Rightarrow> TypeNode" where
  "set_bindable t = map_attrs (\<lambda>a. a\<lparr>Bindable := True\<rparr>) t"

definition set_initial :: "expr option \<Rightarrow> TypeNode \<Rightarrow> TypeNode" where
  "set_initial v t = (case v of None \<Rightarrow> t | Some e \<Rightarrow> map_attrs (\<lambda>a. a\<lparr>InitialState := Some e\<rparr>) t)"

record ConstDef =
  ConstName :: bytes
  ConstValue :: expr
  ConstType :: "TypeNode option"

record TypeDef =
  TypeDefName :: bytes
  SchemaParams :: "(bytes list \<times> bytes) list"
  IsBindable :: bool
  DefType :: TypeNode

record VarGroup =
  VarGroupNames :: "bytes list"
  VarNameLocs :: "SourceLocation list"
  VarType :: TypeNode
  InitExpr :: "expr option"
  AbsoluteExpr :: "expr option"

datatype ProcDecl = ProcDecl ProcHead "ParamGroup list" "TypeNode option" "BlockNode option"
and BlockNode = BlockNode Token "bytes list" "ConstDef list" "TypeDef list" "VarGroup list" "ProcDecl list" "stmt option"

end
