(* ===== verification/Type_Parser.thy ===== *)
theory Type_Parser
  imports Decl_Nodes
begin

text \<open>
  Parsing of type denoters, \<^verbatim>\<open>lib/Parse/ParseType.cpp\<close>, and of the parameter lists of
  \<^verbatim>\<open>lib/Parse/ParseDecl.cpp\<close> that procedural types share with declarations.  The methods that are re-entered
  and the loops go through the record \<open>tmethods\<close>, on top of the expression methods \<open>R\<close> of the same level.
\<close>

type_synonym vfields = "FieldDecl list \<times> VariantPart option"
type_synonym idents = "bytes list \<times> SourceLocation list"

record tmethods =
  tTypeExpr :: "TypeNode parse"
  tIdents :: "idents \<Rightarrow> idents parse"
  tActuals :: "expr list \<Rightarrow> expr list parse"
  tIndices :: "TypeNode list \<Rightarrow> TypeNode list parse"
  tSpecs :: "IndexSpec list \<Rightarrow> IndexSpec list parse"
  tConformant :: "bool \<Rightarrow> TypeNode parse"
  tFields :: "FieldDecl list \<Rightarrow> FieldDecl list parse"
  tVariantPart :: "VariantPart parse"
  tVariantLabels :: "expr list \<Rightarrow> expr list parse"
  tVariantFields :: "FieldDecl list \<Rightarrow> vfields parse"
  tVariantCases :: "VariantCase list \<Rightarrow> VariantCase list parse"
  tMembers :: "MemberVisibility \<Rightarrow> ObjectMember list \<Rightarrow> ObjectMember list parse"
  tDirectives :: "ProcHead \<Rightarrow> ProcHead parse"
  tParamList :: "ParamGroup list parse"
  tParams :: "ParamGroup list \<Rightarrow> ParamGroup list parse"

definition MaxTypeDepth :: nat where "MaxTypeDepth = 500"

definition error_type :: "Token \<Rightarrow> TypeNode" where
  "error_type L = NamedTypeNode (at_loc L) ''<error>'' False"

subsection \<open>Lists of names\<close>

text \<open>\<^verbatim>\<open>Names.push_back(expect(Identifier).Lexeme); while (match(Comma)) ...\<close>, with the places of the names, which
  some callers keep.\<close>

definition idents_loop :: "tmethods \<Rightarrow> idents \<Rightarrow> idents parse" where
  "idents_loop T ns p =
     (case match_tok tkComma p of (m, p1) \<Rightarrow>
        if m then (case expect tkIdentifier p1 of (t, p2) \<Rightarrow> tIdents T (fst ns @ [Lexeme t], snd ns @ [Loc t]) p2)
        else Some (ns, p1))"

definition ident_list :: "tmethods \<Rightarrow> idents parse" where
  "ident_list T p = (case expect tkIdentifier p of (t, p1) \<Rightarrow> tIdents T ([Lexeme t], [Loc t]) p1)"

text \<open>\<^verbatim>\<open>for (const auto& N : Names) VarNames_.insert(toLower(N))\<close>.\<close>

definition add_var_names :: "bytes list \<Rightarrow> Parser \<Rightarrow> Parser" where
  "add_var_names ns p = p\<lparr>VarNames := VarNames p \<union> toLower ` set ns\<rparr>"

subsection \<open>Bounds and array types\<close>

definition parseSubrangeBound :: "methods \<Rightarrow> expr parse" where
  "parseSubrangeBound R p =
     (if has_feature (POpts p) SubrangeBoundExprs then parseSimpleExpr R p
      else if check tkPlus p then parseFactor R (advance p)
      else if check tkMinus p then
        do { (e, p1) \<leftarrow> parseFactor R (advance p); Some (UnaryExpr (Current p) tkMinus e, p1) }
      else parseFactor R p)"

definition startsOrdinalTypeOnly :: "TokenKind \<Rightarrow> bool" where
  "startsOrdinalTypeOnly k \<longleftrightarrow> k \<in> {tkLeftParen, tkBoolean, tkChar, tkInteger, tkReal, tkString}"

definition parseArrayIndexType :: "methods \<Rightarrow> tmethods \<Rightarrow> TypeNode parse" where
  "parseArrayIndexType R T p =
     (let L = Current p in
      if startsOrdinalTypeOnly (Kind L) then tTypeExpr T p
      else
        do { (first, p1) \<leftarrow> parseExpression R p;
             (case match_tok tkDotDot p1 of (m, p2) \<Rightarrow>
                if m then do { (hi, p3) \<leftarrow> parseExpression R p2; Some (SubrangeTypeNode (at_loc L) first hi, p3) }
                else case first of
                  IdentExpr l Name \<Rightarrow> Some (NamedTypeNode (at_loc L) Name False, p2)
                | _ \<Rightarrow> Some (error_type L,
                         parse_error (Loc L) err_expected_type_expr [describe_kind p2 (Kind (Current p2))] p2)) })"

definition indices_loop :: "methods \<Rightarrow> tmethods \<Rightarrow> TypeNode list \<Rightarrow> TypeNode list parse" where
  "indices_loop R T ixs p =
     do { (ix, p1) \<leftarrow> parseArrayIndexType R T p;
          (case match_tok tkComma p1 of (m, p2) \<Rightarrow>
             if m then tIndices T (ixs @ [ix]) p2 else Some (ixs @ [ix], p2)) }"

definition array_dim :: "Token \<Rightarrow> bool \<Rightarrow> TypeNode \<Rightarrow> TypeNode \<Rightarrow> TypeNode" where
  "array_dim L pk ix inner =
     (case ix of
        SubrangeTypeNode a lo hi \<Rightarrow> ArrayTypeNode (at_loc L) (Some lo) (Some hi) None inner pk
      | _ \<Rightarrow> ArrayTypeNode (at_loc L) None None (Some ix) inner pk)"

definition parseArrayType :: "methods \<Rightarrow> tmethods \<Rightarrow> bool \<Rightarrow> TypeNode parse" where
  "parseArrayType R T pk p =
     do { (ixs, p1) \<leftarrow> indices_loop R T [] (snd (expect tkLeftBracket (snd (expect tkArray p))));
          (elem, p2) \<leftarrow> tTypeExpr T (snd (expect tkOf (snd (expect tkRightBracket p1))));
          Some (foldr (array_dim (Current p) pk) ixs elem, p2) }"

subsection \<open>Conformant arrays\<close>

definition consumeTypeName :: "Parser \<Rightarrow> bytes \<times> Parser" where
  "consumeTypeName p =
     (if Lexeme (Current p) = [] then spelling (Kind (Current p)) else Lexeme (Current p), advance p)"

definition specs_loop :: "tmethods \<Rightarrow> IndexSpec list \<Rightarrow> IndexSpec list parse" where
  "specs_loop T ss p =
     (case match_tok tkSemicolon p of (m, p1) \<Rightarrow>
        if \<not> m then Some (ss, p1)
        else
          (case expect tkIdentifier p1 of (lo, p2) \<Rightarrow>
           case expect tkIdentifier (snd (expect tkDotDot p2)) of (hi, p3) \<Rightarrow>
           case consumeTypeName (snd (expect tkColon p3)) of (ot, p4) \<Rightarrow>
             tSpecs T (ss @ [\<lparr>SpecLo = Lexeme lo, SpecHi = Lexeme hi, SpecOrdType = ot\<rparr>]) p4))"

text \<open>\<^verbatim>\<open>']' 'of' type\<close>, the end of an array that is an ordinary one after all.\<close>

definition rest_of_array ::
  "tmethods \<Rightarrow> Token \<Rightarrow> bool \<Rightarrow> expr option \<Rightarrow> expr option \<Rightarrow> TypeNode option \<Rightarrow> TypeNode parse" where
  "rest_of_array T L pk lo hi ix p =
     do { (elem, p1) \<leftarrow> tTypeExpr T (snd (expect tkOf (snd (expect tkRightBracket p))));
          Some (ArrayTypeNode (at_loc L) lo hi ix elem pk, p1) }"

text \<open>A packed type from behind \<open>packed\<close>.  The first argument reads an array.\<close>

definition packed_tail :: "TypeNode parse \<Rightarrow> tmethods \<Rightarrow> TypeNode parse \<Rightarrow> Token \<Rightarrow> TypeNode parse" where
  "packed_tail arr T rec L p =
     (if check tkArray p then arr p
      else if check tkRecord p then rec p
      else if check tkSet p then
        do { (b, p1) \<leftarrow> tTypeExpr T (snd (expect tkOf (advance p))); Some (SetTypeNode (at_loc L) b True, p1) }
      else do { (t, p1) \<leftarrow> tTypeExpr T p; Some (PackedTypeNode (at_loc L) t, p1) })"

subsection \<open>Records and variants\<close>

text \<open>One group of fields, up to its type.\<close>

definition field_group :: "tmethods \<Rightarrow> FieldDecl parse" where
  "field_group T p =
     do { (ns, p1) \<leftarrow> ident_list T p;
          (t, p2) \<leftarrow> tTypeExpr T (snd (expect tkColon (add_var_names (fst ns) p1)));
          Some (FieldDecl (fst ns) t, p2) }"

text \<open>\<^verbatim>\<open>if (Fd.Type) parseInitialState(*Fd.Type)\<close>.\<close>

definition with_initial :: "methods \<Rightarrow> FieldDecl \<Rightarrow> FieldDecl parse" where
  "with_initial R f p =
     do { (v, p1) \<leftarrow> parseInitialState R p;
          Some (case f of FieldDecl ns t \<Rightarrow> FieldDecl ns (set_initial v t), p1) }"

definition fields_loop :: "methods \<Rightarrow> tmethods \<Rightarrow> FieldDecl list \<Rightarrow> FieldDecl list parse" where
  "fields_loop R T fs p =
     (if check tkEnd p \<or> check tkCase p \<or> check tkEof p then Some (fs, p)
      else
        do { (f, p1) \<leftarrow> field_group T p;
             (f', p2) \<leftarrow> with_initial R f p1;
             (case match_tok tkSemicolon p2 of (m, p3) \<Rightarrow>
                if m then tFields T (fs @ [f']) p3 else Some (fs @ [f'], p3)) })"

definition variant_labels_loop :: "methods \<Rightarrow> tmethods \<Rightarrow> expr list \<Rightarrow> expr list parse" where
  "variant_labels_loop R T ls p =
     (if check tkComma p then
        do { (l, p1) \<leftarrow> parseCaseConstant R (advance (arm_caret p)); tVariantLabels T (ls @ [l]) p1 }
      else Some (ls, p))"

definition variant_fields_loop :: "tmethods \<Rightarrow> FieldDecl list \<Rightarrow> vfields parse" where
  "variant_fields_loop T fs p =
     (if check tkRightParen p \<or> check tkEof p then Some ((fs, None), p)
      else if check tkCase p then do { (v, p1) \<leftarrow> tVariantPart T p; Some ((fs, Some v), p1) }
      else
        do { (f, p1) \<leftarrow> field_group T p;
             (case match_tok tkSemicolon p1 of (m, p2) \<Rightarrow>
                if m then tVariantFields T (fs @ [f]) p2 else Some ((fs @ [f], None), p2)) })"

definition variant_cases_loop :: "methods \<Rightarrow> tmethods \<Rightarrow> VariantCase list \<Rightarrow> VariantCase list parse" where
  "variant_cases_loop R T cs p =
     (if check tkEnd p \<or> check tkEof p then Some (cs, p)
      else
        do { (l, p1) \<leftarrow> parseCaseConstant R p;
             (ls, p2) \<leftarrow> tVariantLabels T [l] p1;
             (vf, p3) \<leftarrow> tVariantFields T [] (snd (expect tkLeftParen (snd (expect tkColon p2))));
             let p4 = snd (expect tkRightParen p3); cs' = cs @ [VariantCase ls (fst vf) (snd vf)] in
             if check tkSemicolon p4 then
               (let p5 = advance (arm_caret p4) in if check tkEnd p5 then Some (cs', p5) else tVariantCases T cs' p5)
             else Some (cs', p4) })"

text \<open>The tag field and its type.\<close>

definition variant_tag :: "methods \<Rightarrow> tmethods \<Rightarrow> (bytes \<times> TypeNode) parse" where
  "variant_tag R T p =
     (if check tkIdentifier p then
        (let L = Current p in
         case match_tok tkColon (advance p) of (m, p1) \<Rightarrow>
           if m then do { (t, p2) \<leftarrow> tTypeExpr T p1; Some ((Lexeme L, t), p2) }
           else if check tkDotDot p1 then
             do { (hi, p2) \<leftarrow> parseCaseConstant R (advance p1);
                  Some (([], SubrangeTypeNode (at_loc L) (IdentExpr L (Lexeme L)) hi), p2) }
           else Some (([], NamedTypeNode (at_loc L) (Lexeme L) False), p1))
      else do { (t, p1) \<leftarrow> tTypeExpr T p; Some (([], t), p1) })"

definition parseVariantPart :: "methods \<Rightarrow> tmethods \<Rightarrow> VariantPart parse" where
  "parseVariantPart R T p =
     do { (tag, p1) \<leftarrow> variant_tag R T (snd (expect tkCase p));
          (cs, p2) \<leftarrow> tVariantCases T [] (snd (expect tkOf (arm_caret p1)));
          Some (VariantPart (fst tag) (snd tag) cs, p2) }"

text \<open>The closing \<open>end\<close> of a record or an object, silently when the nesting ceiling was hit below.\<close>

definition close_type :: "Parser \<Rightarrow> Parser" where
  "close_type p = (if TypeDepthLimitHit p then snd (match_tok tkEnd p) else snd (expect tkEnd p))"

definition parseRecordType :: "methods \<Rightarrow> tmethods \<Rightarrow> bool \<Rightarrow> TypeNode parse" where
  "parseRecordType R T pk p =
     do { (fs, p1) \<leftarrow> fields_loop R T [] (snd (expect tkRecord p));
          (v, p3) \<leftarrow> (if check tkCase p1
                       then do { (v, p2) \<leftarrow> parseVariantPart R T p1; Some (Some v, snd (match_tok tkSemicolon p2)) }
                       else Some (None, p1));
          Some (RecordTypeNode (at_loc (Current p)) fs v pk, close_type p3) }"

definition parsePackedTypeTail :: "methods \<Rightarrow> tmethods \<Rightarrow> Token \<Rightarrow> bool \<Rightarrow> TypeNode parse" where
  "parsePackedTypeTail R T L conformantAllowed p =
     packed_tail (if conformantAllowed then tConformant T True else parseArrayType R T True) T (parseRecordType R T True) L p"

text \<open>The element type behind the index specifications of a conformant array.\<close>

definition conformant_element :: "methods \<Rightarrow> tmethods \<Rightarrow> TypeNode parse" where
  "conformant_element R T p =
     (if check tkArray p then tConformant T False p
      else if check tkPacked p then parsePackedTypeTail R T (Current p) True (advance p)
      else tTypeExpr T p)"

definition conformant_dim :: "Token \<Rightarrow> bool \<Rightarrow> IndexSpec \<Rightarrow> TypeNode \<Rightarrow> TypeNode" where
  "conformant_dim L pk spec inner = ConformantArrayTypeNode (at_loc L) [spec] inner pk False"

text \<open>From the colon behind \<open>lo..hi\<close>.\<close>

definition conformant_specs :: "methods \<Rightarrow> tmethods \<Rightarrow> Token \<Rightarrow> bool \<Rightarrow> bytes \<Rightarrow> bytes \<Rightarrow> TypeNode parse" where
  "conformant_specs R T L pk lo hi p =
     (case consumeTypeName (advance p) of (ot, p1) \<Rightarrow>
        do { (ss, p2) \<leftarrow> tSpecs T [\<lparr>SpecLo = lo, SpecHi = hi, SpecOrdType = ot\<rparr>] p1;
             (elem, p3) \<leftarrow> conformant_element R T (snd (expect tkOf (snd (expect tkRightBracket p2))));
             Some (foldr (conformant_dim L pk) ss elem,
                   if pk \<and> length ss > 1 then parse_error (Loc L) err_packed_conformant_shape [] p3 else p3) })"

text \<open>From behind an identifier that stands first in the brackets.\<close>

definition conformant_ident :: "methods \<Rightarrow> tmethods \<Rightarrow> Token \<Rightarrow> bool \<Rightarrow> Token \<Rightarrow> TypeNode parse" where
  "conformant_ident R T L pk lo p =
     (if \<not> check tkDotDot p then rest_of_array T L pk None None (Some (NamedTypeNode (at_loc lo) (Lexeme lo) False)) p
      else
        let p1 = advance p; loE = IdentExpr lo (Lexeme lo) in
        if \<not> check tkIdentifier p1 then
          do { (hi, p2) \<leftarrow> parseExpression R p1; rest_of_array T L pk (Some loE) (Some hi) None p2 }
        else
          let hi = Current p1; p2 = advance p1 in
          if check tkColon p2 then conformant_specs R T L pk (Lexeme lo) (Lexeme hi) p2
          else rest_of_array T L pk (Some loE) (Some (IdentExpr hi (Lexeme hi))) None p2)"

definition parseConformantOrRegular :: "methods \<Rightarrow> tmethods \<Rightarrow> bool \<Rightarrow> TypeNode parse" where
  "parseConformantOrRegular R T pk p =
     (let L = Current p; p1 = snd (expect tkLeftBracket (snd (expect tkArray p))) in
      if check tkIdentifier p1 then conformant_ident R T L pk (Current p1) (advance p1)
      else if startsOrdinalTypeOnly (Kind (Current p1)) then
        do { (ix, p2) \<leftarrow> parseArrayIndexType R T p1; rest_of_array T L pk None None (Some ix) p2 }
      else
        do { (lo, p2) \<leftarrow> parseExpression R p1;
             (hi, p3) \<leftarrow> parseExpression R (snd (expect tkDotDot p2));
             rest_of_array T L pk (Some lo) (Some hi) None p3 })"

definition parseTurboOpenArrayParamType :: "methods \<Rightarrow> tmethods \<Rightarrow> TypeNode parse" where
  "parseTurboOpenArrayParamType R T p =
     (let L = Current p; p1 = snd (expect tkArray p) in
      if check tkLeftBracket p1 then
        parseConformantOrRegular R T False (parse_error (Loc (Current p1)) err_turbo_conformant_array [] p1)
      else
        do { (elem, p2) \<leftarrow> tTypeExpr T (snd (expect tkOf p1));
             Some (ConformantArrayTypeNode (at_loc L) [\<lparr>SpecLo = [], SpecHi = [], SpecOrdType = ''integer''\<rparr>] elem False True, p2) })"

subsection \<open>Parameters\<close>

definition parseProcedureParamGroup :: "tmethods \<Rightarrow> ParamGroup parse" where
  "parseProcedureParamGroup T p =
     (let isF = check tkFunction p in
      case expect tkIdentifier (advance p) of (t, p1) \<Rightarrow>
        do { (ps, p2) \<leftarrow> tParamList T p1;
             (ret, p3) \<leftarrow> (if isF then do { (r, q) \<leftarrow> tTypeExpr T (snd (expect tkColon p2)); Some (Some r, q) } else Some (None, p2));
             Some (ParamGroup \<lparr>IsVar = False, IsProtected = False, IsConst = False, ParamNames = [Lexeme t],
                     ParamNameLocs = [Loc t], ParamLoc = 0\<rparr>
                     (Some (ProcedureTypeNode (at_loc (Current p)) isF ps ret)), p3) })"

text \<open>The modifiers in front of the names: what they say and whether it is \<open>var\<close>.\<close>

definition param_modifiers :: "Parser \<Rightarrow> (bool \<times> bool \<times> bool) \<times> Parser" where
  "param_modifiers p =
     (let prot = (extendedPascal (POpts p) \<and> check tkProtected p); p1 = (if prot then advance p else p);
          cst = (turbo (POpts p1) \<and> check tkConst p1); p2 = (if cst then advance p1 else p1) in
      if cst \<and> check tkVar p2
      then ((False, prot, cst), advance (parse_error (Loc (Current p2)) err_const_var_combined [] p2))
      else (case match_tok tkVar p2 of (v, p3) \<Rightarrow> ((v, prot, cst), p3)))"

definition param_type :: "methods \<Rightarrow> tmethods \<Rightarrow> TypeNode parse" where
  "param_type R T p =
     (if check tkArray p then
        (if turbo (POpts p) then parseTurboOpenArrayParamType R T p else parseConformantOrRegular R T False p)
      else if check tkPacked p then parsePackedTypeTail R T (Current p) True (advance p)
      else tTypeExpr T p)"

definition parseParamGroup :: "methods \<Rightarrow> tmethods \<Rightarrow> ParamGroup parse" where
  "parseParamGroup R T p =
     (if check tkProcedure p \<or> check tkFunction p then parseProcedureParamGroup T p
      else
        case param_modifiers p of ((v, prot, cst), p1) \<Rightarrow>
          do { (ns, p2) \<leftarrow> ident_list T p1;
               let p3 = add_var_names (fst ns) p2;
                   h = \<lparr>IsVar = v, IsProtected = prot, IsConst = cst, ParamNames = fst ns, ParamNameLocs = snd ns,
                        ParamLoc = Loc (Current p)\<rparr> in
               if turbo (POpts p3) \<and> v \<and> \<not> check tkColon p3 then Some (ParamGroup h None, p3)
               else do { (t, p4) \<leftarrow> param_type R T (snd (expect tkColon p3)); Some (ParamGroup h (Some t), p4) } })"

definition params_loop :: "methods \<Rightarrow> tmethods \<Rightarrow> ParamGroup list \<Rightarrow> ParamGroup list parse" where
  "params_loop R T gs p =
     (case match_tok tkSemicolon p of (m, p1) \<Rightarrow>
        if m then do { (g, p2) \<leftarrow> parseParamGroup R T p1; tParams T (gs @ [g]) p2 } else Some (gs, p1))"

definition parseParamList :: "methods \<Rightarrow> tmethods \<Rightarrow> ParamGroup list parse" where
  "parseParamList R T p =
     (case match_tok tkLeftParen p of (m, p1) \<Rightarrow>
        if \<not> m then Some ([], p1)
        else
          do { (gs, p3) \<leftarrow> (if \<not> check tkRightParen p1
                              then do { (g, p2) \<leftarrow> parseParamGroup R T p1; tParams T [g] p2 } else Some ([], p1));
               Some (gs, snd (expect tkRightParen p3)) })"

subsection \<open>Object types\<close>

definition directives_loop :: "tmethods \<Rightarrow> ProcHead \<Rightarrow> ProcHead parse" where
  "directives_loop T h p =
     (case match_tok tkVirtual p of (v, p1) \<Rightarrow>
        if v then tDirectives T (h\<lparr>IsVirtual := True\<rparr>) (snd (expect tkSemicolon p1))
        else case match_tok tkAbstract p1 of (a, p2) \<Rightarrow>
          if a then tDirectives T (h\<lparr>IsAbstract := True\<rparr>) (snd (expect tkSemicolon p2))
          else Some (h, p2))"

text \<open>The word a method heading starts with.\<close>

definition method_word :: "Token \<Rightarrow> Parser \<Rightarrow> ProcHead \<times> Parser" where
  "method_word L p =
     (let h = \<lparr>ProcLoc = L, IsFunction = False, IsForward = True, IsVirtual = False, IsAbstract = False,
               IsConstructor = False, IsDestructor = False, OwnerType = [], ProcName = [], ResultName = []\<rparr> in
      if check tkConstructor p then (h\<lparr>IsConstructor := True\<rparr>, advance p)
      else if check tkDestructor p then (h\<lparr>IsDestructor := True\<rparr>, advance p)
      else if check tkFunction p then (h\<lparr>IsFunction := True\<rparr>, advance p)
      else (h, snd (expect tkProcedure p)))"

definition parseObjectMethodHeading :: "methods \<Rightarrow> tmethods \<Rightarrow> (ProcHead \<times> ParamGroup list \<times> TypeNode option) parse" where
  "parseObjectMethodHeading R T p =
     (case method_word (Current p) p of (h0, p0) \<Rightarrow>
      case expect tkIdentifier p0 of (t, p1) \<Rightarrow>
        do { (ps, p2) \<leftarrow> parseParamList R T p1;
             (ret, p4) \<leftarrow> (case (if IsFunction h0 then match_tok tkColon p2 else (False, p2)) of (m, p3) \<Rightarrow>
                if m then do { (r, q) \<leftarrow> tTypeExpr T p3; Some (Some r, q) } else Some (None, p3));
             (h, p5) \<leftarrow> tDirectives T (h0\<lparr>ProcName := Lexeme t\<rparr>) (snd (expect tkSemicolon p4));
             Some ((h, ps, ret), p5) })"

definition members_loop :: "methods \<Rightarrow> tmethods \<Rightarrow> MemberVisibility \<Rightarrow> ObjectMember list \<Rightarrow> ObjectMember list parse" where
  "members_loop R T vis ms p =
     (if check tkEnd p \<or> check tkEof p then Some (ms, p)
      else if check tkPrivate p then tMembers T Private ms (advance p)
      else if check tkPublic p then tMembers T Public ms (advance p)
      else if check tkProcedure p \<or> check tkFunction p \<or> check tkConstructor p \<or> check tkDestructor p then
        do { (h, p1) \<leftarrow> parseObjectMethodHeading R T p;
             tMembers T vis (ms @ [case h of (hdr, ps, ret) \<Rightarrow> ObjectMethod vis hdr ps ret]) p1 }
      else
        do { (f, p1) \<leftarrow> field_group T p;
             (case match_tok tkSemicolon p1 of (m, p2) \<Rightarrow>
                if m then tMembers T vis (ms @ [ObjectField vis f]) p2 else Some (ms @ [ObjectField vis f], p2)) })"

definition parseObjectType :: "methods \<Rightarrow> tmethods \<Rightarrow> TypeNode parse" where
  "parseObjectType R T p =
     (case match_tok tkLeftParen (snd (expect tkObject p)) of (m, p1) \<Rightarrow>
        let (anc, p3) = (if m then (case expect tkIdentifier p1 of (t, p2) \<Rightarrow> (Lexeme t, snd (expect tkRightParen p2))) else ([], p1)) in
        do { (ms, p4) \<leftarrow> tMembers T Public [] p3;
             Some (ObjectTypeNode (at_loc (Current p)) anc ms, close_type p4) })"

subsection \<open>Type denoters\<close>

definition type_restricted :: "Token \<Rightarrow> Parser \<Rightarrow> TypeNode \<times> Parser" where
  "type_restricted L p =
     (if Kind (Current p) = tkIdentifier \<or> isTypeKeyword (Kind (Current p))
      then (NamedTypeNode (at_loc L) (Lexeme (Current p)) True, advance p)
      else (NamedTypeNode (at_loc L) ''integer'' True, parse_error (Loc (Current p)) err_restricted_needs_type_name [] p))"

definition type_string :: "methods \<Rightarrow> TypeNode parse" where
  "type_string R p =
     (let L = Current p in
      case match_tok tkLeftParen (advance p) of (m, p1) \<Rightarrow>
        if m then
          do { (c, p2) \<leftarrow> parseSimpleExpr R p1; Some (StringTypeNode (at_loc L) c False, snd (expect tkRightParen p2)) }
        else if turbo (POpts p1) \<and> check tkLeftBracket p1 then
          do { (c, p2) \<leftarrow> parseSimpleExpr R (advance p1); Some (StringTypeNode (at_loc L) c True, snd (expect tkRightBracket p2)) }
        else Some (NamedTypeNode (at_loc L) ''string'' False, p1))"

definition actuals_loop :: "methods \<Rightarrow> tmethods \<Rightarrow> expr list \<Rightarrow> expr list parse" where
  "actuals_loop R T as p =
     (case match_tok tkComma p of (m, p1) \<Rightarrow>
        if m then do { (a, p2) \<leftarrow> parseSimpleExpr R p1; tActuals T (as @ [a]) p2 } else Some (as, p1))"

definition type_identifier :: "methods \<Rightarrow> tmethods \<Rightarrow> TypeNode parse" where
  "type_identifier R T p =
     (let L = Current p in
      case qualified_name (Lexeme L) (advance p) of (Name, p1) \<Rightarrow>
        if check tkDotDot p1 then
          do { (hi, p2) \<leftarrow> parseSubrangeBound R (advance p1);
               Some (SubrangeTypeNode (at_loc L) (IdentExpr L Name) hi, p2) }
        else if extendedPascal (POpts p1) \<and> check tkLeftParen p1 then
          do { (a, p2) \<leftarrow> parseSimpleExpr R (advance p1);
               (as, p3) \<leftarrow> tActuals T [a] p2;
               Some (SchemaTypeNode (at_loc L) Name as, snd (expect tkRightParen p3)) }
        else Some (NamedTypeNode (at_loc L) Name False, p1))"

definition type_subrange :: "methods \<Rightarrow> TypeNode parse" where
  "type_subrange R p =
     do { (lo, p1) \<leftarrow> parseSubrangeBound R p;
          (hi, p2) \<leftarrow> parseSubrangeBound R (snd (expect tkDotDot p1));
          Some (SubrangeTypeNode (at_loc (Current p)) lo hi, p2) }"

definition type_set :: "tmethods \<Rightarrow> TypeNode parse" where
  "type_set T p =
     do { (b, p1) \<leftarrow> tTypeExpr T (snd (expect tkOf (advance p))); Some (SetTypeNode (at_loc (Current p)) b False, p1) }"

definition type_file :: "tmethods \<Rightarrow> TypeNode parse" where
  "type_file T p =
     (let p1 = advance p in
      do { (ix, p3) \<leftarrow> (if extendedPascal (POpts p1) \<and> check tkLeftBracket p1
                         then do { (t, p2) \<leftarrow> tTypeExpr T (advance p1); Some (Some t, snd (expect tkRightBracket p2)) }
                         else Some (None, p1));
           (case match_tok tkOf p3 of (m, p4) \<Rightarrow>
              if m then do { (e, p5) \<leftarrow> tTypeExpr T p4; Some (FileTypeNode (at_loc (Current p)) (Some e) ix, p5) }
              else Some (FileTypeNode (at_loc (Current p)) None ix, p4)) })"

definition type_pointer :: "tmethods \<Rightarrow> TypeNode parse" where
  "type_pointer T p = do { (b, p1) \<leftarrow> tTypeExpr T (advance p); Some (PointerTypeNode (at_loc (Current p)) b, p1) }"

definition type_enum :: "tmethods \<Rightarrow> TypeNode parse" where
  "type_enum T p =
     do { (ns, p1) \<leftarrow> ident_list T (advance p); Some (EnumTypeNode (at_loc (Current p)) (fst ns), snd (expect tkRightParen p1)) }"

text \<open>A token no type starts with: it is reported and consumed.\<close>

definition type_unexpected :: "Parser \<Rightarrow> TypeNode \<times> Parser" where
  "type_unexpected p =
     (error_type (Current p),
      advance (parse_error (Loc (Current p)) err_expected_type_expr [describe_kind p (Kind (Current p))] p))"

definition type_of_variable :: "Parser \<Rightarrow> TypeNode \<times> Parser" where
  "type_of_variable p =
     (case expect tkIdentifier (snd (expect tkOf (advance p))) of (t, p1) \<Rightarrow> (TypeOfNode (at_loc (Current p)) (Lexeme t), p1))"

definition type_procedure :: "methods \<Rightarrow> tmethods \<Rightarrow> TypeNode parse" where
  "type_procedure R T p =
     (let isF = check tkFunction p in
      do { (ps, p1) \<leftarrow> parseParamList R T (advance p);
           (ret, p2) \<leftarrow> (if isF then do { (r, q) \<leftarrow> tTypeExpr T (snd (expect tkColon p1)); Some (Some r, q) } else Some (None, p1));
           Some (ProcedureTypeNode (at_loc (Current p)) isF ps ret, p2) })"

text \<open>\<^verbatim>\<open>switch (Current.Kind)\<close>.\<close>

definition type_switch :: "methods \<Rightarrow> tmethods \<Rightarrow> TypeNode parse" where
  "type_switch R T p =
     (let L = Current p; k = Kind L in
      if k = tkInteger \<or> k = tkReal \<or> k = tkBoolean \<or> k = tkChar then Some (NamedTypeNode (at_loc L) (Lexeme L) False, advance p)
      else if k = tkString then type_string R p
      else if k = tkIdentifier then type_identifier R T p
      else if k = tkIntLit \<or> k = tkStringLit \<or> k = tkTrue \<or> k = tkFalse \<or> k = tkMinus \<or> k = tkPlus then type_subrange R p
      else if k = tkArray then parseArrayType R T False p
      else if k = tkRecord then parseRecordType R T False p
      else if k = tkObject then parseObjectType R T p
      else if k = tkSet then type_set T p
      else if k = tkFile then type_file T p
      else if k = tkCaret then type_pointer T p
      else if k = tkLeftParen then type_enum T p
      else if k = tkType \<and> extendedPascal (POpts p) then Some (type_of_variable p)
      else if (k = tkProcedure \<or> k = tkFunction) \<and> turbo (POpts p) then type_procedure R T p
      else Some (type_unexpected p))"

definition type_denoter :: "methods \<Rightarrow> tmethods \<Rightarrow> TypeNode parse" where
  "type_denoter R T p =
     (let L = Current p in
      if extendedPascal (POpts p) \<and> check tkBindable p then
        do { (t, p1) \<leftarrow> tTypeExpr T (advance p); Some (set_bindable t, p1) }
      else if check tkPacked p then parsePackedTypeTail R T L False (advance p)
      else if extendedPascal (POpts p) \<and> check tkRestricted p then Some (type_restricted L (advance p))
      else type_switch R T p)"

definition parseTypeExpr :: "methods \<Rightarrow> tmethods \<Rightarrow> TypeNode parse" where
  "parseTypeExpr R T p =
     (if TypeDepth p \<ge> MaxTypeDepth then
        Some (error_type (Current p),
              if \<not> TypeDepthLimitHit p
              then parse_error (Loc (Current p)) err_type_too_deeply_nested [] (p\<lparr>TypeDepthLimitHit := True\<rparr>)
              else p)
      else do { (t, q) \<leftarrow> type_denoter R T (enterType p); Some (t, leaveType q) })"

subsection \<open>The knot\<close>

definition one_type_level :: "methods \<Rightarrow> tmethods \<Rightarrow> tmethods" where
  "one_type_level R T =
     \<lparr>tTypeExpr = parseTypeExpr R T, tIdents = idents_loop T, tActuals = actuals_loop R T, tIndices = indices_loop R T,
      tSpecs = specs_loop T, tConformant = parseConformantOrRegular R T, tFields = fields_loop R T,
      tVariantPart = parseVariantPart R T, tVariantLabels = variant_labels_loop R T, tVariantFields = variant_fields_loop T,
      tVariantCases = variant_cases_loop R T, tMembers = members_loop R T, tDirectives = directives_loop T,
      tParamList = parseParamList R T, tParams = params_loop R T\<rparr>"

primrec types_at :: "nat \<Rightarrow> tmethods" where
  "types_at 0 =
     \<lparr>tTypeExpr = (\<lambda>p. None), tIdents = (\<lambda>ns p. None), tActuals = (\<lambda>as p. None), tIndices = (\<lambda>ixs p. None),
      tSpecs = (\<lambda>ss p. None), tConformant = (\<lambda>pk p. None), tFields = (\<lambda>fs p. None),
      tVariantPart = (\<lambda>p. None), tVariantLabels = (\<lambda>ls p. None), tVariantFields = (\<lambda>fs p. None),
      tVariantCases = (\<lambda>cs p. None), tMembers = (\<lambda>vis ms p. None), tDirectives = (\<lambda>h p. None),
      tParamList = (\<lambda>p. None), tParams = (\<lambda>gs p. None)\<rparr>"
| "types_at (Suc n) = one_type_level (methods_at n) (types_at n)"

end
