(* ===== verification/Decl_Parser.thy ===== *)
theory Decl_Parser
  imports Type_Parser
begin

text \<open>
  Parsing of blocks and their declarations, \<^verbatim>\<open>lib/Parse/ParseDecl.cpp\<close>: label, constant, type and variable
  sections, typed constants and procedures, on top of the expression, statement and type methods \<open>R\<close>, \<open>S\<close> and
  \<open>T\<close> of one level.  The declarations of a block are gathered in the record \<open>Decls\<close>.
\<close>

record Decls =
  Labels :: "bytes list"
  Consts :: "ConstDef list"
  Types :: "TypeDef list"
  Vars :: "VarGroup list"
  Procs :: "ProcDecl list"

definition no_decls :: Decls where
  "no_decls = \<lparr>Labels = [], Consts = [], Types = [], Vars = [], Procs = []\<rparr>"

definition block_of :: "Token \<Rightarrow> Decls \<Rightarrow> stmt option \<Rightarrow> BlockNode" where
  "block_of L d body = BlockNode L (Labels d) (Consts d) (Types d) (Vars d) (Procs d) body"

fun block_types :: "BlockNode \<Rightarrow> TypeDef list" where
  "block_types (BlockNode L ls cs ts vs ps b) = ts"

datatype Section = LabelSection | ConstSection | TypeSection | VarSection | ProcSection

record dmethods =
  dBlock :: "BlockNode parse"
  dSections :: "Section list \<Rightarrow> bool \<Rightarrow> bool \<Rightarrow> Decls \<Rightarrow> Decls parse"
  dLabels :: "bytes list \<Rightarrow> bytes list parse"
  dConsts :: "ConstDef list \<Rightarrow> ConstDef list parse"
  dConstValue :: "expr parse"
  dConstArms :: "bool \<Rightarrow> arm list \<Rightarrow> arm list parse"
  dTypes :: "TypeDef list \<Rightarrow> TypeDef list parse"
  dSchemas :: "(bytes list \<times> bytes) list \<Rightarrow> (bytes list \<times> bytes) list parse"
  dVars :: "VarGroup list \<Rightarrow> VarGroup list parse"

definition MaxBlockDepth :: nat where "MaxBlockDepth = 500"
definition MaxTurboConstValueDepth :: nat where "MaxTurboConstValueDepth = 500"

subsection \<open>Labels\<close>

definition label_id :: "bytes list \<Rightarrow> Parser \<Rightarrow> bytes list \<times> Parser" where
  "label_id ls p =
     (if check tkIntLit p \<or> check tkIdentifier p then (ls @ [canonicalLabel (Lexeme (Current p))], advance p)
      else (ls, advance (parse_error (Loc (Current p)) err_expected_label [describe_kind p (Kind (Current p))] p)))"

definition labels_loop :: "dmethods \<Rightarrow> bytes list \<Rightarrow> bytes list parse" where
  "labels_loop D ls p =
     (case match_tok tkComma p of (m, p1) \<Rightarrow>
        if m then (case label_id ls p1 of (ls', p2) \<Rightarrow> dLabels D ls' p2) else Some (ls, p1))"

definition parseLabelSection :: "dmethods \<Rightarrow> Decls \<Rightarrow> Decls parse" where
  "parseLabelSection D d p =
     (case label_id (Labels d) (snd (expect tkLabel p)) of (ls, p1) \<Rightarrow>
        do { (ls', p2) \<leftarrow> dLabels D ls p1; Some (d\<lparr>Labels := ls'\<rparr>, snd (expect tkSemicolon p2)) })"

subsection \<open>Typed constants\<close>

text \<open>One arm, with whether it is a record arm \<open>name : value\<close>.\<close>

definition const_arm :: "methods \<Rightarrow> dmethods \<Rightarrow> (bool \<times> arm) parse" where
  "const_arm R D p =
     (if check tkIdentifier p then
        do { (e, p1) \<leftarrow> parseExpression R p;
             if check tkColon p1 \<and> is_IdentExpr e then
               do { (v, p2) \<leftarrow> dConstValue D (advance p1);
                    Some ((True, StructuredValueArm False [IdentExpr (Current p) (Lexeme (Current p))] v), p2) }
             else Some ((False, StructuredValueArm False [] e), p1) }
      else do { (v, p1) \<leftarrow> dConstValue D p; Some ((False, StructuredValueArm False [] v), p1) })"

definition const_arms_loop :: "methods \<Rightarrow> dmethods \<Rightarrow> bool \<Rightarrow> arm list \<Rightarrow> arm list parse" where
  "const_arms_loop R D isField as p =
     (case match_tok (if isField then tkSemicolon else tkComma) p of (m, p1) \<Rightarrow>
        if m then do { (a, p2) \<leftarrow> const_arm R D p1; dConstArms D isField (as @ [snd a]) p2 } else Some (as, p1))"

definition const_value_body :: "methods \<Rightarrow> dmethods \<Rightarrow> expr parse" where
  "const_value_body R D p =
     (case match_tok tkRightParen (advance p) of (m, p1) \<Rightarrow>
        if m then Some (StructuredValueExpr (Current p) [] [], p1)
        else
          do { (a, p2) \<leftarrow> const_arm R D p1;
               (as, p3) \<leftarrow> dConstArms D (fst a) [snd a] p2;
               Some (StructuredValueExpr (Current p) [] as, snd (expect tkRightParen p3)) })"

definition parseTurboConstValue :: "methods \<Rightarrow> dmethods \<Rightarrow> expr parse" where
  "parseTurboConstValue R D p =
     (if \<not> check tkLeftParen p then parseExpression R p
      else if TurboConstValueDepth p \<ge> MaxTurboConstValueDepth then
        Some (IntLitExpr (Current p) 0 False,
              if \<not> TurboConstValueDepthLimitHit p
              then parse_error (Loc (Current p)) err_value_too_deeply_nested [] (p\<lparr>TurboConstValueDepthLimitHit := True\<rparr>)
              else p)
      else do { (e, q) \<leftarrow> const_value_body R D (enterConstValue p); Some (e, leaveConstValue q) })"

subsection \<open>Constants\<close>

definition parseConstDef :: "methods \<Rightarrow> tmethods \<Rightarrow> dmethods \<Rightarrow> ConstDef parse" where
  "parseConstDef R T D p =
     (case expect tkIdentifier p of (t, p1) \<Rightarrow>
        if turbo (POpts p1) \<and> check tkColon p1 then
          do { (ty, p2) \<leftarrow> tTypeExpr T (advance p1);
               (v, p3) \<leftarrow> dConstValue D (snd (expect tkEqual (arm_caret p2)));
               Some (\<lparr>ConstName = Lexeme t, ConstValue = v, ConstType = Some ty\<rparr>, snd (expect tkSemicolon p3)) }
        else
          let p2 = snd (expect tkEqual (arm_caret p1)) in
          do { (v, p3) \<leftarrow> (if has_feature (POpts p2) ConstantExpressions then parseExpression R p2 else parseSimpleExpr R p2);
               Some (\<lparr>ConstName = Lexeme t, ConstValue = v, ConstType = None\<rparr>, snd (expect tkSemicolon p3)) })"

text \<open>\<^verbatim>\<open>do { ... } while (check(Identifier))\<close>: the loop behind the first definition.\<close>

definition consts_loop :: "methods \<Rightarrow> tmethods \<Rightarrow> dmethods \<Rightarrow> ConstDef list \<Rightarrow> ConstDef list parse" where
  "consts_loop R T D cs p =
     (if check tkIdentifier p then do { (c, p1) \<leftarrow> parseConstDef R T D p; dConsts D (cs @ [c]) p1 } else Some (cs, p))"

definition parseConstSection :: "methods \<Rightarrow> tmethods \<Rightarrow> dmethods \<Rightarrow> Decls \<Rightarrow> Decls parse" where
  "parseConstSection R T D d p =
     do { (c, p1) \<leftarrow> parseConstDef R T D (snd (expect tkConst p));
          (cs, p2) \<leftarrow> dConsts D (Consts d @ [c]) p1;
          Some (d\<lparr>Consts := cs\<rparr>, p2) }"

subsection \<open>Type definitions\<close>

definition schema_spec :: "tmethods \<Rightarrow> (bytes list \<times> bytes) parse" where
  "schema_spec T p =
     do { (ns, p1) \<leftarrow> ident_list T p;
          let p2 = snd (expect tkColon p1) in Some ((fst ns, Lexeme (Current p2)), advance p2) }"

definition schemas_loop :: "tmethods \<Rightarrow> dmethods \<Rightarrow> (bytes list \<times> bytes) list \<Rightarrow> (bytes list \<times> bytes) list parse" where
  "schemas_loop T D ss p =
     (case match_tok tkSemicolon p of (m, p1) \<Rightarrow>
        if m then do { (s, p2) \<leftarrow> schema_spec T p1; dSchemas D (ss @ [s]) p2 } else Some (ss, p1))"

definition schema_params :: "tmethods \<Rightarrow> dmethods \<Rightarrow> (bytes list \<times> bytes) list parse" where
  "schema_params T D p =
     (case (if extendedPascal (POpts p) then match_tok tkLeftParen p else (False, p)) of (m, p1) \<Rightarrow>
        if m then
          do { (s, p2) \<leftarrow> schema_spec T p1; (ss, p3) \<leftarrow> dSchemas D [s] p2; Some (ss, snd (expect tkRightParen p3)) }
        else Some ([], p1))"

definition add_type_name :: "bytes \<Rightarrow> Parser \<Rightarrow> Parser" where
  "add_type_name n p = p\<lparr>TypeNames := insert (toLower n) (TypeNames p)\<rparr>"

definition parseTypeDef :: "methods \<Rightarrow> tmethods \<Rightarrow> dmethods \<Rightarrow> TypeDef parse" where
  "parseTypeDef R T D p =
     (case expect tkIdentifier p of (t, p1) \<Rightarrow>
        do { (ss, p2) \<leftarrow> schema_params T D (add_type_name (Lexeme t) p1);
             let p3 = snd (expect tkEqual p2); b = (extendedPascal (POpts p3) \<and> check tkBindable p3) in
             do { (ty, p4) \<leftarrow> tTypeExpr T (if b then advance p3 else p3);
                  (v, p5) \<leftarrow> parseInitialState R p4;
                  Some (\<lparr>TypeDefName = Lexeme t, SchemaParams = ss, IsBindable = b,
                         DefType = set_initial v (if b then set_bindable ty else ty)\<rparr>, snd (expect tkSemicolon p5)) } })"

definition types_loop :: "methods \<Rightarrow> tmethods \<Rightarrow> dmethods \<Rightarrow> TypeDef list \<Rightarrow> TypeDef list parse" where
  "types_loop R T D ts p =
     (if check tkIdentifier p then do { (t, p1) \<leftarrow> parseTypeDef R T D p; dTypes D (ts @ [t]) p1 } else Some (ts, p))"

definition parseTypeSection :: "methods \<Rightarrow> tmethods \<Rightarrow> dmethods \<Rightarrow> Decls \<Rightarrow> Decls parse" where
  "parseTypeSection R T D d p =
     do { (t, p1) \<leftarrow> parseTypeDef R T D (snd (expect tkType p));
          (ts, p2) \<leftarrow> dTypes D (Types d @ [t]) p1;
          Some (d\<lparr>Types := ts\<rparr>, p2) }"

subsection \<open>Variables\<close>

text \<open>The contextual directive \<open>absolute\<close>, recognised by its spelling.\<close>

definition absolute_clause :: "methods \<Rightarrow> expr option parse" where
  "absolute_clause R p =
     (if turbo (POpts p) \<and> check tkIdentifier p \<and> toLower (Lexeme (Current p)) = ''absolute'' then
        (case expect tkIdentifier (advance p) of (t, p1) \<Rightarrow>
           do { (e, p2) \<leftarrow> parsePostfix R (IdentExpr t (Lexeme t)) p1; Some (Some e, p2) })
      else Some (None, p))"

definition parseVarGroup :: "methods \<Rightarrow> tmethods \<Rightarrow> VarGroup parse" where
  "parseVarGroup R T p =
     do { (ns, p1) \<leftarrow> ident_list T p;
          (ty, p2) \<leftarrow> tTypeExpr T (snd (expect tkColon (add_var_names (fst ns) p1)));
          (init, p3) \<leftarrow> parseInitialState R p2;
          (ab, p4) \<leftarrow> absolute_clause R p3;
          Some (\<lparr>VarGroupNames = fst ns, VarNameLocs = snd ns, VarType = ty, InitExpr = init, AbsoluteExpr = ab\<rparr>,
                snd (expect tkSemicolon p4)) }"

definition vars_loop :: "methods \<Rightarrow> tmethods \<Rightarrow> dmethods \<Rightarrow> VarGroup list \<Rightarrow> VarGroup list parse" where
  "vars_loop R T D vs p =
     (if check tkIdentifier p then do { (v, p1) \<leftarrow> parseVarGroup R T p; dVars D (vs @ [v]) p1 } else Some (vs, p))"

definition parseVarSection :: "methods \<Rightarrow> tmethods \<Rightarrow> dmethods \<Rightarrow> Decls \<Rightarrow> Decls parse" where
  "parseVarSection R T D d p =
     do { (v, p1) \<leftarrow> parseVarGroup R T (snd (expect tkVar p));
          (vs, p2) \<leftarrow> dVars D (Vars d @ [v]) p1;
          Some (d\<lparr>Vars := vs\<rparr>, p2) }"

subsection \<open>Procedures and functions\<close>

definition proc_word :: "bool \<Rightarrow> Parser \<Rightarrow> ProcHead \<times> Parser" where
  "proc_word isF p =
     (let h = \<lparr>ProcLoc = Current p, IsFunction = isF, IsForward = False, IsVirtual = False, IsAbstract = False,
               IsConstructor = False, IsDestructor = False, OwnerType = [], ProcName = [], ResultName = []\<rparr> in
      if isF then (h, snd (expect tkFunction p))
      else if turbo (POpts p) \<and> check tkConstructor p then (h\<lparr>IsConstructor := True\<rparr>, advance p)
      else if turbo (POpts p) \<and> check tkDestructor p then (h\<lparr>IsDestructor := True\<rparr>, advance p)
      else (h, snd (expect tkProcedure p)))"

text \<open>The name, with the owning type of a method's body.\<close>

definition proc_name :: "ProcHead \<Rightarrow> Parser \<Rightarrow> ProcHead \<times> Parser" where
  "proc_name h p =
     (case expect tkIdentifier p of (t, p1) \<Rightarrow>
        if turbo (POpts p1) \<and> check tkDot p1 then
          (case expect tkIdentifier (advance p1) of (t2, p2) \<Rightarrow> (h\<lparr>OwnerType := Lexeme t, ProcName := Lexeme t2\<rparr>, p2))
        else (h\<lparr>ProcName := Lexeme t\<rparr>, p1))"

text \<open>The result variable of Extended Pascal, read in every dialect and reported in the others.\<close>

definition result_name :: "ProcHead \<Rightarrow> Parser \<Rightarrow> ProcHead \<times> Parser" where
  "result_name h p =
     (case match_tok tkEqual p of (m, p1) \<Rightarrow>
        if m then
          (case expect tkIdentifier
                  (if \<not> extendedPascal (POpts p1) then parse_error (Loc (Current p1)) err_ep_named_result [] p1 else p1) of
             (t, p2) \<Rightarrow> (h\<lparr>ResultName := Lexeme t\<rparr>, p2))
        else (h, p1))"

definition proc_result :: "tmethods \<Rightarrow> ProcHead \<Rightarrow> (ProcHead \<times> TypeNode option) parse" where
  "proc_result T h p =
     (if IsFunction h then
        (case result_name h p of (h1, p1) \<Rightarrow>
         case match_tok tkColon p1 of (m, p2) \<Rightarrow>
           if m then do { (t, p3) \<leftarrow> tTypeExpr T p2; Some ((h1, Some t), p3) } else Some ((h1, None), p2))
      else Some ((h, None), p))"

definition proc_rest :: "dmethods \<Rightarrow> bool \<Rightarrow> ProcHead \<Rightarrow> ParamGroup list \<Rightarrow> TypeNode option \<Rightarrow> ProcDecl parse" where
  "proc_rest D HeadingOnly h ps ret p =
     (case match_tok tkForward p of (m, p1) \<Rightarrow>
        if m then Some (ProcDecl (h\<lparr>IsForward := True\<rparr>) ps ret None, snd (expect tkSemicolon p1))
        else if HeadingOnly then Some (ProcDecl (h\<lparr>IsForward := True\<rparr>) ps ret None, p1)
        else
          do { (b, p2) \<leftarrow> dBlock D p1;
               Some (ProcDecl h ps ret (Some b),
                     if BlockDepthLimitHit p2 then snd (match_tok tkSemicolon p2) else snd (expect tkSemicolon p2)) })"

definition proc_decl :: "methods \<Rightarrow> tmethods \<Rightarrow> dmethods \<Rightarrow> bool \<Rightarrow> bool \<Rightarrow> ProcDecl parse" where
  "proc_decl R T D isF HeadingOnly p =
     (case proc_word isF p of (h0, p0) \<Rightarrow>
      case proc_name h0 p0 of (h1, p1) \<Rightarrow>
        do { (ps, p2) \<leftarrow> parseParamList R T p1;
             (hr, p3) \<leftarrow> proc_result T h1 p2;
             proc_rest D HeadingOnly (fst hr) ps (snd hr) (snd (expect tkSemicolon p3)) })"

text \<open>With its \<open>NameScopeGuard\<close>.\<close>

definition restore_names :: "Parser \<Rightarrow> Parser \<Rightarrow> Parser" where
  "restore_names p q = q\<lparr>TypeNames := TypeNames p, VarNames := VarNames p\<rparr>"

definition parseProcDecl :: "methods \<Rightarrow> tmethods \<Rightarrow> dmethods \<Rightarrow> bool \<Rightarrow> bool \<Rightarrow> ProcDecl parse" where
  "parseProcDecl R T D isF HeadingOnly p =
     do { (d, q) \<leftarrow> proc_decl R T D isF HeadingOnly p; Some (d, restore_names p q) }"

subsection \<open>Blocks\<close>

text \<open>The section the current token opens; methods of objects are looked for where \<open>objects\<close> says so.\<close>

definition section_here :: "bool \<Rightarrow> Parser \<Rightarrow> Section option" where
  "section_here objects p =
     (if check tkLabel p then Some LabelSection
      else if check tkConst p then Some ConstSection
      else if check tkType p then Some TypeSection
      else if check tkVar p then Some VarSection
      else if check tkProcedure p \<or> check tkFunction p
              \<or> objects \<and> turbo (POpts p) \<and> (check tkConstructor p \<or> check tkDestructor p) then Some ProcSection
      else None)"

definition parse_section :: "methods \<Rightarrow> tmethods \<Rightarrow> dmethods \<Rightarrow> bool \<Rightarrow> Section \<Rightarrow> Decls \<Rightarrow> Decls parse" where
  "parse_section R T D HeadingsOnly s d p =
     (case s of
        LabelSection \<Rightarrow> parseLabelSection D d p
      | ConstSection \<Rightarrow> parseConstSection R T D d p
      | TypeSection \<Rightarrow> parseTypeSection R T D d p
      | VarSection \<Rightarrow> parseVarSection R T D d p
      | ProcSection \<Rightarrow>
          do { (pd, p1) \<leftarrow> parseProcDecl R T D (check tkFunction p) HeadingsOnly p; Some (d\<lparr>Procs := Procs d @ [pd]\<rparr>, p1) })"

text \<open>The sections of the kinds in \<open>kinds\<close>, in any order, as often as they come.\<close>

definition sections_loop ::
  "methods \<Rightarrow> tmethods \<Rightarrow> dmethods \<Rightarrow> Section list \<Rightarrow> bool \<Rightarrow> bool \<Rightarrow> Decls \<Rightarrow> Decls parse" where
  "sections_loop R T D kinds objects HeadingsOnly d p =
     (case section_here objects p of
        None \<Rightarrow> Some (d, p)
      | Some s \<Rightarrow>
          if List.member kinds s
          then do { (d1, p1) \<leftarrow> parse_section R T D HeadingsOnly s d p; dSections D kinds objects HeadingsOnly d1 p1 }
          else Some (d, p))"

definition any_section :: "Section list" where
  "any_section = [LabelSection, ConstSection, TypeSection, VarSection, ProcSection]"

definition block_sections :: "dmethods \<Rightarrow> Decls parse" where
  "block_sections D p =
     (if has_feature (POpts p) FreeDeclarationOrder then dSections D any_section True False no_decls p
      else
        do { (d1, p1) \<leftarrow> dSections D [LabelSection] True False no_decls p;
             (d2, p2) \<leftarrow> dSections D [ConstSection] True False d1 p1;
             (d3, p3) \<leftarrow> dSections D [TypeSection] True False d2 p2;
             (d4, p4) \<leftarrow> dSections D [VarSection] True False d3 p3;
             dSections D [ProcSection] True False d4 p4 })"

definition block_body :: "smethods \<Rightarrow> dmethods \<Rightarrow> BlockNode parse" where
  "block_body S D p =
     do { (d, p1) \<leftarrow> block_sections D p;
          (b, p2) \<leftarrow> parseCompoundStmt S p1;
          Some (block_of (Current p) d (Some b), p2) }"

definition parseBlock :: "smethods \<Rightarrow> dmethods \<Rightarrow> BlockNode parse" where
  "parseBlock S D p =
     (if BlockDepth p \<ge> MaxBlockDepth then
        Some (block_of (Current p) no_decls None,
              if \<not> BlockDepthLimitHit p
              then parse_error (Loc (Current p)) err_proc_too_deeply_nested [] (p\<lparr>BlockDepthLimitHit := True\<rparr>)
              else p)
      else do { (b, q) \<leftarrow> block_body S D (enterBlock p); Some (b, leaveBlock q) })"

subsection \<open>The knot\<close>

definition one_decl_level :: "methods \<Rightarrow> smethods \<Rightarrow> tmethods \<Rightarrow> dmethods \<Rightarrow> dmethods" where
  "one_decl_level R S T D =
     \<lparr>dBlock = parseBlock S D, dSections = sections_loop R T D, dLabels = labels_loop D, dConsts = consts_loop R T D,
      dConstValue = parseTurboConstValue R D, dConstArms = const_arms_loop R D, dTypes = types_loop R T D,
      dSchemas = schemas_loop T D, dVars = vars_loop R T D\<rparr>"

primrec decls_at :: "nat \<Rightarrow> dmethods" where
  "decls_at 0 =
     \<lparr>dBlock = (\<lambda>p. None), dSections = (\<lambda>ks ob ho d p. None), dLabels = (\<lambda>ls p. None), dConsts = (\<lambda>cs p. None),
      dConstValue = (\<lambda>p. None), dConstArms = (\<lambda>f as p. None), dTypes = (\<lambda>ts p. None), dSchemas = (\<lambda>ss p. None),
      dVars = (\<lambda>vs p. None)\<rparr>"
| "decls_at (Suc n) = one_decl_level (methods_at n) (stmts_at n) (types_at n) (decls_at n)"

end
