(* ===== verification/Program_Parser.thy ===== *)
theory Program_Parser
  imports Decl_Parser Parse_Contract
begin

text \<open>
  Whole files: programs (the head of \<^verbatim>\<open>lib/Parse/ParseDecl.cpp\<close>), the modules of Extended Pascal
  (\<^verbatim>\<open>lib/Parse/ParseModule.cpp\<close>), the units of Turbo (\<^verbatim>\<open>lib/Parse/ParseUnit.cpp\<close>) and the entry point
  \<^verbatim>\<open>Parser::parse()\<close>.  A \<open>uses\<close> clause parses the units it names with a parser of its own, for the names
  of their types.  That nested parser has the harvest switched off, so the definitions come in two rounds: they
  take the harvest as an argument \<open>H\<close>, the nested parse is the one that does nothing there, and
  \<open>harvestImportedTypeNames\<close> is defined with it.  The nested parse runs on the levels its own tokens need.
\<close>

record ExportItem =
  ExportLoc :: SourceLocation
  ExportName :: bytes
  Alias :: bytes
  RangeEnd :: bytes
  Protected :: bool

record ImportClause =
  ImportLoc :: SourceLocation
  ModuleName :: bytes
  Qualified :: bool
  Selective :: bool
  ImportNames :: "bytes list"
  Renames :: "(bytes \<times> bytes) list"

record UsedUnit =
  UsedLoc :: SourceLocation
  UsedName :: bytes

record ModuleNode =
  ModLoc :: Token
  ModName :: bytes
  ModParams :: "bytes list"
  IsInterface :: bool
  IsImplementation :: bool
  Exports :: "ExportItem list"
  ModImports :: "ImportClause list"
  ModBody :: "BlockNode option"
  InitStmt :: "stmt option"
  FinalStmt :: "stmt option"

record UnitNode =
  UnitLoc :: Token
  UnitName :: bytes
  InterfaceUses :: "UsedUnit list"
  InterfaceBlock :: BlockNode
  ImplementationUses :: "UsedUnit list"
  ImplementationBlock :: BlockNode
  InitBody :: "stmt option"

record ProgramNode =
  ProgLoc :: Token
  ProgName :: bytes
  FileParams :: "bytes list"
  ProgImports :: "ImportClause list"
  ProgUses :: "UsedUnit list"
  Modules :: "ModuleNode list"
  ProgBlock :: BlockNode
  BareUnit :: "UnitNode option"

record umethods =
  uImportNames :: "ImportClause \<Rightarrow> ImportClause parse"
  uQualifiers :: "ImportClause \<Rightarrow> ImportClause parse"
  uImportSpecs :: "ImportClause list \<Rightarrow> ImportClause list parse"
  uImports :: "ImportClause list \<Rightarrow> ImportClause list parse"
  uExportItems :: "ExportItem list \<Rightarrow> ExportItem list parse"
  uExportParts :: "ExportItem list \<Rightarrow> ExportItem list parse"
  uOldExports :: "ExportItem list \<Rightarrow> ExportItem list parse"
  uToParts :: "stmt option \<times> stmt option \<Rightarrow> (stmt option \<times> stmt option) parse"
  uModules :: "ModuleNode list \<Rightarrow> ModuleNode list parse"
  uUses :: "UsedUnit list \<Rightarrow> UsedUnit list parse"

type_synonym harvest = "bytes \<Rightarrow> Parser \<Rightarrow> Parser"

subsection \<open>Imports\<close>

text \<open>One import-clause \<^verbatim>\<open>identifier ['=>' identifier]\<close> of a list.\<close>

definition import_name :: "ImportClause \<Rightarrow> Parser \<Rightarrow> ImportClause \<times> Parser" where
  "import_name c p =
     (case expect tkIdentifier p of (t, p1) \<Rightarrow>
        let c1 = c\<lparr>ImportNames := ImportNames c @ [Lexeme t]\<rparr> in
        if check tkEqual p1 then
          (case expect tkIdentifier (snd (expect tkGreaterThan (advance p1))) of (a, p2) \<Rightarrow>
             (c1\<lparr>Renames := Renames c @ [(Lexeme t, Lexeme a)]\<rparr>, p2))
        else (c1, p1))"

definition import_names_loop :: "umethods \<Rightarrow> ImportClause \<Rightarrow> ImportClause parse" where
  "import_names_loop U c p =
     (case match_tok tkComma p of (m, p1) \<Rightarrow>
        if m then (case import_name c p1 of (c1, p2) \<Rightarrow> uImportNames U c1 p2) else Some (c, p1))"

definition parseImportList :: "umethods \<Rightarrow> ImportClause \<Rightarrow> ImportClause parse" where
  "parseImportList U c p =
     (if check tkRightParen p then Some (c, p) else case import_name c p of (c1, p1) \<Rightarrow> uImportNames U c1 p1)"

definition add_qualified :: "bytes \<Rightarrow> Parser \<Rightarrow> Parser" where
  "add_qualified n p = p\<lparr>QualifiedModules := insert (toLower n) (QualifiedModules p)\<rparr>"

definition qualifiers_loop :: "umethods \<Rightarrow> ImportClause \<Rightarrow> ImportClause parse" where
  "qualifiers_loop U c p =
     (if check tkQualified p then uQualifiers U (c\<lparr>Qualified := True\<rparr>) (add_qualified (ModuleName c) (advance p))
      else if check tkOnly p then
        (case match_tok tkLeftParen (advance p) of (m, p1) \<Rightarrow>
           do { (c1, p2) \<leftarrow> parseImportList U (c\<lparr>Selective := True\<rparr>) p1;
                uQualifiers U c1 (if m then snd (expect tkRightParen p2) else p2) })
      else
        (case match_tok tkLeftParen p of (m, p1) \<Rightarrow>
           if m then do { (c1, p2) \<leftarrow> parseImportList U c p1; uQualifiers U c1 (snd (expect tkRightParen p2)) }
           else Some (c, p1)))"

definition import_spec :: "umethods \<Rightarrow> ImportClause parse" where
  "import_spec U p =
     (case expect tkIdentifier p of (t, p1) \<Rightarrow>
        do { (c, p2) \<leftarrow> uQualifiers U \<lparr>ImportLoc = Loc (Current p), ModuleName = Lexeme t, Qualified = False, Selective = False,
                             ImportNames = [], Renames = []\<rparr> p1;
             Some (c, snd (expect tkSemicolon p2)) })"

definition import_specs_loop :: "umethods \<Rightarrow> ImportClause list \<Rightarrow> ImportClause list parse" where
  "import_specs_loop U cs p =
     (if check tkIdentifier p then do { (c, p1) \<leftarrow> import_spec U p; uImportSpecs U (cs @ [c]) p1 } else Some (cs, p))"

definition imports_loop :: "umethods \<Rightarrow> ImportClause list \<Rightarrow> ImportClause list parse" where
  "imports_loop U cs p =
     (if check tkImport p then
        do { (c, p1) \<leftarrow> import_spec U (advance p);
             (cs1, p2) \<leftarrow> uImportSpecs U (cs @ [c]) p1;
             uImports U cs1 p2 }
      else Some (cs, p))"

definition parseImportClauses :: "umethods \<Rightarrow> ImportClause list parse" where
  "parseImportClauses U p = uImports U [] p"

subsection \<open>Exports\<close>

definition new_export :: "Token \<Rightarrow> bytes \<Rightarrow> ExportItem" where
  "new_export L n = \<lparr>ExportLoc = Loc L, ExportName = n, Alias = [], RangeEnd = [], Protected = False\<rparr>"

definition parseExportRename :: "ExportItem \<Rightarrow> Parser \<Rightarrow> ExportItem \<times> Parser" where
  "parseExportRename it p =
     (case expect tkIdentifier (snd (expect tkGreaterThan (advance p))) of (t, p1) \<Rightarrow> (it\<lparr>Alias := Lexeme t\<rparr>, p1))"

definition export_clause :: "Parser \<Rightarrow> ExportItem \<times> Parser" where
  "export_clause p =
     (let prot = check tkProtected p; p0 = (if prot then advance p else p) in
      case expect tkIdentifier p0 of (t, p1) \<Rightarrow>
      case match_tok tkDotDot p1 of (m, p2) \<Rightarrow>
        let it = (new_export (Current p0) (Lexeme t))\<lparr>Protected := prot\<rparr> in
        if m then (case expect tkIdentifier p2 of (e, p3) \<Rightarrow> (it\<lparr>RangeEnd := Lexeme e\<rparr>, p3))
        else if check tkEqual p2 then parseExportRename it p2
        else (it, p2))"

definition export_items_loop :: "umethods \<Rightarrow> ExportItem list \<Rightarrow> ExportItem list parse" where
  "export_items_loop U its p =
     (case match_tok tkComma p of (m, p1) \<Rightarrow>
        if m then (case export_clause p1 of (it, p2) \<Rightarrow> uExportItems U (its @ [it]) p2) else Some (its, p1))"

definition parseExportList :: "umethods \<Rightarrow> ExportItem list \<Rightarrow> ExportItem list parse" where
  "parseExportList U its p =
     (if check tkRightParen p then Some (its, p) else case export_clause p of (it, p1) \<Rightarrow> uExportItems U (its @ [it]) p1)"

text \<open>\<^verbatim>\<open>expect(RightParen); expect(Semicolon)\<close>.\<close>

definition end_export_part :: "Parser \<Rightarrow> Parser" where
  "end_export_part p = snd (expect tkSemicolon (snd (expect tkRightParen p)))"

definition export_parts_loop :: "umethods \<Rightarrow> ExportItem list \<Rightarrow> ExportItem list parse" where
  "export_parts_loop U its p =
     (if check tkIdentifier p \<or> check tkExport p then
        do { (its1, p1) \<leftarrow> parseExportList U its
               (snd (expect tkLeftParen (snd (expect tkEqual (snd (expect tkIdentifier (snd (match_tok tkExport p))))))));
             uExportParts U its1 (end_export_part p1) }
      else Some (its, p))"

text \<open>The older spelling, a list of names.\<close>

definition old_export :: "Parser \<Rightarrow> ExportItem \<times> Parser" where
  "old_export p =
     (case expect tkIdentifier p of (t, p1) \<Rightarrow>
        let it = new_export (Current p) (Lexeme t) in if check tkEqual p1 then parseExportRename it p1 else (it, p1))"

definition old_exports_loop :: "umethods \<Rightarrow> ExportItem list \<Rightarrow> ExportItem list parse" where
  "old_exports_loop U its p =
     (case match_tok tkComma p of (m, p1) \<Rightarrow>
        if m then (case old_export p1 of (it, p2) \<Rightarrow> uOldExports U (its @ [it]) p2) else Some (its, p1))"

text \<open>What the older spelling does with its first name, from behind the \<open>=\<close> the caller may have consumed.\<close>

definition old_export_first :: "Token \<Rightarrow> Parser \<Rightarrow> ExportItem \<times> Parser" where
  "old_export_first t p =
     (case match_tok tkGreaterThan p of (m, p1) \<Rightarrow>
        if m then (case expect tkIdentifier p1 of (a, p2) \<Rightarrow> ((new_export t (Lexeme t))\<lparr>Alias := Lexeme a\<rparr>, p2))
        else (new_export t (Lexeme t), p1))"

definition parseExportSection :: "umethods \<Rightarrow> ExportItem list parse" where
  "parseExportSection U p =
     (if \<not> check tkIdentifier p then Some ([], p)
      else
        case match_tok tkEqual (advance p) of (eq, p1) \<Rightarrow>
        case (if eq then match_tok tkLeftParen p1 else (False, p1)) of (l, p2) \<Rightarrow>
          if l then do { (its, p3) \<leftarrow> parseExportList U [] p2; uExportParts U its (end_export_part p3) }
          else
            case old_export_first (Current p) p2 of (it, p3) \<Rightarrow>
              do { (its, p4) \<leftarrow> uOldExports U [it] p3; Some (its, snd (match_tok tkSemicolon p4)) })"

subsection \<open>Modules\<close>

definition parseModuleDeclarations :: "dmethods \<Rightarrow> bool \<Rightarrow> BlockNode parse" where
  "parseModuleDeclarations D HeadingsOnly p =
     do { (d, p1) \<leftarrow> dSections D any_section False HeadingsOnly no_decls p; Some (block_of (Current p) d None, p1) }"

definition to_parts_loop :: "smethods \<Rightarrow> umethods \<Rightarrow> stmt option \<times> stmt option \<Rightarrow> (stmt option \<times> stmt option) parse" where
  "to_parts_loop S U ss p =
     (if check tkTo p then
        (let p1 = advance p in
         if check tkBegin p1 then
           do { (s, p2) \<leftarrow> sStatement S (snd (expect tkDo (advance p1))); uToParts U (s, snd ss) (snd (match_tok tkSemicolon p2)) }
         else if check tkEnd p1 then
           do { (s, p2) \<leftarrow> sStatement S (snd (expect tkDo (advance p1))); uToParts U (fst ss, s) (snd (match_tok tkSemicolon p2)) }
         else Some (ss, parse_error (Loc (Current p1)) err_module_to_needs_begin_or_end [] p1))
      else Some (ss, p))"

definition parseModuleBlock :: "dmethods \<Rightarrow> umethods \<Rightarrow> ModuleNode \<Rightarrow> ModuleNode parse" where
  "parseModuleBlock D U m p =
     do { (is, p1) \<leftarrow> parseImportClauses U p;
          (b, p2) \<leftarrow> parseModuleDeclarations D False p1;
          (ss, p3) \<leftarrow> uToParts U (InitStmt m, FinalStmt m) p2;
          Some (m\<lparr>ModImports := is, ModBody := Some b, InitStmt := fst ss, FinalStmt := snd ss\<rparr>,
                snd (expect tkDot (snd (expect tkEnd p3)))) }"

definition new_module :: "Token \<Rightarrow> bytes \<Rightarrow> ModuleNode" where
  "new_module L n = \<lparr>ModLoc = L, ModName = n, ModParams = [], IsInterface = False, IsImplementation = False, Exports = [],
     ModImports = [], ModBody = None, InitStmt = None, FinalStmt = None\<rparr>"

text \<open>The directive, the parameters and, when there was no directive, \<open>interface\<close> once more.\<close>

definition module_directive :: "ModuleNode \<Rightarrow> Parser \<Rightarrow> ModuleNode \<times> Parser" where
  "module_directive m p =
     (if check tkInterface p then (m\<lparr>IsInterface := True\<rparr>, advance p)
      else if check tkIdentifier p \<and> toLower (Lexeme (Current p)) = ''implementation''
      then (m\<lparr>IsImplementation := True\<rparr>, advance p)
      else (m, p))"

definition names_in_parens :: "tmethods \<Rightarrow> bytes list parse" where
  "names_in_parens T p =
     (case match_tok tkLeftParen p of (l, p1) \<Rightarrow>
        if l then do { (ns, p2) \<leftarrow> ident_list T p1; Some (fst ns, snd (expect tkRightParen p2)) } else Some ([], p1))"

definition late_interface :: "ModuleNode \<Rightarrow> Parser \<Rightarrow> ModuleNode \<times> Parser" where
  "late_interface m p =
     (if \<not> IsInterface m \<and> \<not> IsImplementation m \<and> check tkInterface p then (m\<lparr>IsInterface := True\<rparr>, advance p) else (m, p))"

definition interface_rest :: "dmethods \<Rightarrow> umethods \<Rightarrow> ModuleNode \<Rightarrow> ModuleNode list parse" where
  "interface_rest D U m p =
     do { (is, p1) \<leftarrow> parseImportClauses U p;
          (ex, p2) \<leftarrow> (if check tkExport p1 then parseExportSection U (advance p1) else Some ([], p1));
          (b, p3) \<leftarrow> parseModuleDeclarations D True p2;
          let m1 = m\<lparr>ModImports := is, Exports := ex, ModBody := Some b\<rparr> in
          (case match_tok tkSemicolon (snd (expect tkEnd p3)) of (sc, p4) \<Rightarrow>
             if sc then
               do { (impl, p5) \<leftarrow> parseModuleBlock D U ((new_module (Current p4) (ModName m))\<lparr>IsImplementation := True\<rparr>) p4;
                    Some ([m1, impl], p5) }
             else Some ([m1], snd (expect tkDot p4))) }"

definition parseModuleDeclaration :: "tmethods \<Rightarrow> dmethods \<Rightarrow> umethods \<Rightarrow> ModuleNode list \<Rightarrow> ModuleNode list parse" where
  "parseModuleDeclaration T D U out p =
     (case expect tkIdentifier (snd (expect tkModule p)) of (t, p1) \<Rightarrow>
      case module_directive (new_module (Current p) (Lexeme t)) p1 of (m, p2) \<Rightarrow>
        do { (ps, p3) \<leftarrow> names_in_parens T p2;
             (case late_interface (m\<lparr>ModParams := ps\<rparr>) p3 of (m1, p4) \<Rightarrow>
                let p5 = snd (expect tkSemicolon p4) in
                if IsInterface m1 then do { (ms, p6) \<leftarrow> interface_rest D U m1 p5; Some (out @ ms, p6) }
                else do { (m2, p6) \<leftarrow> parseModuleBlock D U m1 p5; Some (out @ [m2], p6) }) })"

definition modules_loop :: "tmethods \<Rightarrow> dmethods \<Rightarrow> umethods \<Rightarrow> ModuleNode list \<Rightarrow> ModuleNode list parse" where
  "modules_loop T D U ms p =
     (if check tkModule p then do { (ms1, p1) \<leftarrow> parseModuleDeclaration T D U ms p; uModules U ms1 p1 } else Some (ms, p))"

subsection \<open>Uses clauses\<close>

definition used_unit :: "harvest \<Rightarrow> UsedUnit list \<Rightarrow> Parser \<Rightarrow> UsedUnit list \<times> Parser" where
  "used_unit H us p =
     (case expect tkIdentifier p of (t, p1) \<Rightarrow>
        let p2 = add_qualified (Lexeme t) p1 in
        (us @ [\<lparr>UsedLoc = Loc (Current p), UsedName = Lexeme t\<rparr>],
         if turbo (POpts p2) \<and> HarvestImportedTypeNames p2 then H (Lexeme t) p2 else p2))"

definition uses_loop :: "harvest \<Rightarrow> umethods \<Rightarrow> UsedUnit list \<Rightarrow> UsedUnit list parse" where
  "uses_loop H U us p =
     (case match_tok tkComma p of (m, p1) \<Rightarrow>
        if m then (case used_unit H us p1 of (us1, p2) \<Rightarrow> uUses U us1 p2) else Some (us, p1))"

definition parseUsesClause :: "harvest \<Rightarrow> umethods \<Rightarrow> UsedUnit list parse" where
  "parseUsesClause H U p =
     (case used_unit H [] (snd (expect tkUses p)) of (us, p1) \<Rightarrow>
        do { (us1, p2) \<leftarrow> uUses U us p1; Some (us1, snd (expect tkSemicolon p2)) })"

definition opt_uses :: "harvest \<Rightarrow> umethods \<Rightarrow> bool \<Rightarrow> UsedUnit list parse" where
  "opt_uses H U allowed p = (if allowed \<and> check tkUses p then parseUsesClause H U p else Some ([], p))"

subsection \<open>Programs and units\<close>

text \<open>The heading: a name and the file parameters.\<close>

definition program_heading :: "tmethods \<Rightarrow> (bytes \<times> bytes list) parse" where
  "program_heading T p =
     (if turbo (POpts p) \<and> \<not> check tkProgram p then Some ((''<program>'', []), p)
      else
        case expect tkIdentifier (snd (expect tkProgram p)) of (t, p1) \<Rightarrow>
          do { (ns, p2) \<leftarrow> names_in_parens T p1; Some ((Lexeme t, ns), snd (expect tkSemicolon p2)) })"

definition parseProgram :: "harvest \<Rightarrow> smethods \<Rightarrow> tmethods \<Rightarrow> dmethods \<Rightarrow> umethods \<Rightarrow> ProgramNode parse" where
  "parseProgram H S T D U p =
     do { (h, p1) \<leftarrow> program_heading T p;
          (is, p2) \<leftarrow> (if extendedPascal (POpts p1) \<and> check tkImport p1 then parseImportClauses U p1 else Some ([], p1));
          (us, p3) \<leftarrow> opt_uses H U (turbo (POpts p2)) p2;
          (b, p4) \<leftarrow> parseBlock S D p3;
          Some (\<lparr>ProgLoc = Current p, ProgName = fst h, FileParams = snd h, ProgImports = is, ProgUses = us, Modules = [],
                 ProgBlock = b, BareUnit = None\<rparr>, snd (expect tkEof (snd (expect tkDot p4)))) }"

definition parseMultiUnitFile :: "harvest \<Rightarrow> smethods \<Rightarrow> tmethods \<Rightarrow> dmethods \<Rightarrow> umethods \<Rightarrow> ProgramNode parse" where
  "parseMultiUnitFile H S T D U p =
     do { (ms, p1) \<leftarrow> uModules U [] p;
          if ms \<noteq> [] \<and> check tkEof p1 then
            Some (\<lparr>ProgLoc = Current p1, ProgName = ''__module_only__'', FileParams = [], ProgImports = [], ProgUses = [],
                   Modules = ms, ProgBlock = block_of (Current p1) no_decls None, BareUnit = None\<rparr>, p1)
          else do { (pr, p2) \<leftarrow> parseProgram H S T D U p1; Some (pr\<lparr>Modules := ms\<rparr>, p2) } }"

definition parseUnitDeclarations :: "dmethods \<Rightarrow> bool \<Rightarrow> BlockNode parse" where
  "parseUnitDeclarations D HeadingsOnly p =
     do { (d, p1) \<leftarrow> dSections D any_section True HeadingsOnly no_decls p; Some (block_of (Current p) d None, p1) }"

definition parseUnitFile :: "harvest \<Rightarrow> smethods \<Rightarrow> dmethods \<Rightarrow> umethods \<Rightarrow> ProgramNode parse" where
  "parseUnitFile H S D U p =
     (case expect tkIdentifier (snd (expect tkUnit p)) of (t, p1) \<Rightarrow>
        do { (us, p2) \<leftarrow> opt_uses H U True (snd (expect tkInterface (snd (expect tkSemicolon p1))));
             (ib, p3) \<leftarrow> parseUnitDeclarations D True p2;
             (us2, p4) \<leftarrow> opt_uses H U True (snd (expect tkImplementation p3));
             (mb, p5) \<leftarrow> parseUnitDeclarations D False p4;
             (b, p6) \<leftarrow> (if check tkBegin p5 then do { (c, q) \<leftarrow> parseCompoundStmt S p5; Some (Some c, q) }
                          else Some (None, snd (expect tkEnd p5)));
             let u = \<lparr>UnitLoc = Current p, UnitName = Lexeme t, InterfaceUses = us, InterfaceBlock = ib,
                      ImplementationUses = us2, ImplementationBlock = mb, InitBody = b\<rparr> in
             Some (\<lparr>ProgLoc = Current p, ProgName = Lexeme t, FileParams = [], ProgImports = [], ProgUses = [], Modules = [],
                    ProgBlock = block_of (Current p) no_decls None, BareUnit = Some u\<rparr>,
                   snd (expect tkEof (snd (expect tkDot p6)))) })"

subsection \<open>The knot and the entry point\<close>

definition one_unit_level :: "harvest \<Rightarrow> smethods \<Rightarrow> tmethods \<Rightarrow> dmethods \<Rightarrow> umethods \<Rightarrow> umethods" where
  "one_unit_level H S T D U =
     \<lparr>uImportNames = import_names_loop U, uQualifiers = qualifiers_loop U, uImportSpecs = import_specs_loop U,
      uImports = imports_loop U, uExportItems = export_items_loop U, uExportParts = export_parts_loop U,
      uOldExports = old_exports_loop U, uToParts = to_parts_loop S U, uModules = modules_loop T D U, uUses = uses_loop H U\<rparr>"

primrec units_at :: "harvest \<Rightarrow> nat \<Rightarrow> umethods" where
  "units_at H 0 =
     \<lparr>uImportNames = (\<lambda>c p. None), uQualifiers = (\<lambda>c p. None), uImportSpecs = (\<lambda>cs p. None), uImports = (\<lambda>cs p. None),
      uExportItems = (\<lambda>its p. None), uExportParts = (\<lambda>its p. None), uOldExports = (\<lambda>its p. None),
      uToParts = (\<lambda>ss p. None), uModules = (\<lambda>ms p. None), uUses = (\<lambda>us p. None)\<rparr>"
| "units_at H (Suc n) = one_unit_level H (stmts_at n) (types_at n) (decls_at n) (units_at H n)"

text \<open>The file the parser is on, and the verdict: no tree when an error was counted.\<close>

definition parse_file :: "harvest \<Rightarrow> nat \<Rightarrow> ProgramNode parse" where
  "parse_file H n p =
     (if extendedPascal (POpts p) \<and> check tkModule p
      then parseMultiUnitFile H (stmts_at n) (types_at n) (decls_at n) (units_at H n) p
      else if turbo (POpts p) \<and> check tkUnit p then parseUnitFile H (stmts_at n) (decls_at n) (units_at H n) p
      else parseProgram H (stmts_at n) (types_at n) (decls_at n) (units_at H n) p)"

definition parse_with :: "harvest \<Rightarrow> nat \<Rightarrow> ProgramNode option parse" where
  "parse_with H n p = do { (pr, q) \<leftarrow> parse_file H n p; Some (if ErrorCount q > 0 then None else Some pr, q) }"

subsection \<open>Harvesting the type names of a unit\<close>

definition findExact :: "FileSystem \<Rightarrow> bytes \<Rightarrow> bytes \<Rightarrow> bytes option" where
  "findExact fs Dir Name = (let c = Dir @ ''/'' @ Name in if path_exists fs c then Some c else None)"

text \<open>\<^verbatim>\<open>llvm::sys::path::filename\<close> of a directory entry: what follows the last slash.\<close>

definition path_filename :: "bytes \<Rightarrow> bytes" where
  "path_filename p = rev (takeWhile (\<lambda>c. c \<noteq> CHR ''/'') (rev p))"

definition findCaseInsensitive :: "FileSystem \<Rightarrow> bytes \<Rightarrow> bytes \<Rightarrow> bytes option" where
  "findCaseInsensitive fs Key Dir =
     (let Fast = Dir @ ''/'' @ Key @ ''.pas'' in
      if path_exists fs Fast then Some Fast else find (\<lambda>e. eqCI (path_filename e) (Key @ ''.pas'')) (directory fs Dir))"

fun find_unit :: "FileSystem \<Rightarrow> bytes \<Rightarrow> bytes list \<Rightarrow> bytes option" where
  "find_unit fs Key [] = None"
| "find_unit fs Key (Dir # ds) =
     (case findExact fs Dir (Key @ ''.tui'') of
        Some f \<Rightarrow> Some f
      | None \<Rightarrow> (case findCaseInsensitive fs Key Dir of Some f \<Rightarrow> Some f | None \<Rightarrow> find_unit fs Key ds))"

definition SearchDirs :: "LangOptions \<Rightarrow> bytes list" where
  "SearchDirs opts = ModuleSearchPaths opts @ [''.''] @ UnitSearchPaths opts"

text \<open>The parser on a unit's text; its measurements of the stack come where the outer parser's left off.\<close>

definition unit_parser :: "bytes \<Rightarrow> bytes \<Rightarrow> Parser \<Rightarrow> Parser" where
  "unit_parser Path tx p =
     (let opts = (POpts p)\<lparr>Std := Turbo\<rparr> in
      (newParser (Outside p) (scannerOfBuffer emptySourceManager (''<'' @ Path @ ''>'') tx opts) opts)
        \<lparr>StackProbes := StackProbes p, HarvestImportedTypeNames := False\<rparr>)"

definition parse_unit :: "Parser \<Rightarrow> (ProgramNode option \<times> Parser) option" where
  "parse_unit up = parse_with (\<lambda>n p. p) (4 * tokens_left up + 3) up"

definition harvestImportedTypeNames :: harvest where
  "harvestImportedTypeNames name p =
     (let Key = toLower name; fs = Files (Outside p) in
      if Key = ''system'' then p
      else case find_unit fs Key (SearchDirs (POpts p)) of
          None \<Rightarrow> p
        | Some Path \<Rightarrow>
            (case file_contents fs Path of
               None \<Rightarrow> p
             | Some tx \<Rightarrow>
                 (case parse_unit (unit_parser Path tx p) of
                    None \<Rightarrow> p
                  | Some (pr, up) \<Rightarrow>
                      (case Option.bind pr BareUnit of
                         None \<Rightarrow> p\<lparr>StackProbes := StackProbes up\<rparr>
                       | Some u \<Rightarrow>
                           p\<lparr>StackProbes := StackProbes up,
                             TypeNames := TypeNames p \<union> set (map (\<lambda>d. toLower (TypeDefName d)) (block_types (InterfaceBlock u)))\<rparr>))))"

definition parse :: "nat \<Rightarrow> ProgramNode option parse" where
  "parse = parse_with harvestImportedTypeNames"

end
