(* ===== verification/Stmt_Parser_Props.thy ===== *)
theory Stmt_Parser_Props
  imports Stmt_Parser Expr_Parser_Props "HOL-Library.Code_Target_Nat"
begin

text \<open>
  The statement parser on the contract of the expression parser: \<open>statement_level\<close> extends \<open>parser_level\<close> by
  the methods of one level of statements, and is interpreted on \<open>stmts_at n\<close>.
\<close>

text \<open>More than \<open>c\<close> tokens are gone.\<close>

definition beyond :: "Adds \<Rightarrow> nat \<Rightarrow> Parser \<Rightarrow> Parser \<Rightarrow> bool" where
  "beyond g c p q \<longleftrightarrow> (\<exists>d\<ge>c. stp g (Suc d) p q)"

lemma beyondI: "stp g (Suc d) p q \<Longrightarrow> c \<le> d \<Longrightarrow> beyond g c p q"
  unfolding beyond_def by blast

locale statement_level = parser_level +
  fixes S :: smethods
  assumes sStatement: "meets n 1 (sStatement S)"
    and sStmts: "meets n 1 (sStmts S ss)"
    and sRecords: "meets n 1 (sRecords S rs)"
    and sCallArgs: "meets n 1 (sCallArgs S w as)"
    and sCaseLabels: "meets n 1 (sCaseLabels S ls)"
    and sCaseArms: "meets n 2 (sCaseArms S arms)"
    and sCaseDefault: "k \<in> {tkElse, tkOtherwise} \<Longrightarrow>
      meets n 1 (\<lambda>p. if Kind (Current p) = k then sCaseArms S arms p else Some ((arms, None, False), p))"
    and sFinish: "meets n 1 (sFinish S e L)"
begin

lemma default_call:
  assumes "check tkOtherwise q \<or> check tkElse q" "stp g c p q" "1 < 4 * c + r" "\<And>x q'. stp g c p q' \<Longrightarrow> Q x q'"
  shows "sat (4 * tokens_left p + r \<le> Suc n) (sCaseArms S arms q) Q"
  using sat_call [OF sCaseDefault [of "Kind (Current q)" arms] assms(2-4)] assms(1) by (auto simp: check_def)

lemmas stmt_calls = sat_call [OF sStatement] sat_call [OF sStmts] sat_call [OF sRecords] sat_call [OF sCallArgs]
  sat_call [OF sCaseLabels] sat_call [OF sCaseArms] sat_call [OF sFinish]
  sat_inline [OF parseExpression] sat_inline [OF parseFactor] sat_inline [OF parsePostfix] sat_inline [OF parse_args]

lemma stmts_loop: "meets (Suc n) 1 (stmts_loop S ss)"
  unfolding stmts_loop_def by (rule meetsI) (assumption | rule sat_intro stmt_calls stp_intro | simp)+

lemma stmt_list: "meets (Suc n) 2 (stmt_list S)"
  unfolding stmt_list_def by (rule meetsI) (assumption | rule sat_intro stmt_calls stp_intro | simp)+

lemma records_loop: "meets (Suc n) 1 (records_loop R S rs)"
  unfolding records_loop_def by (rule meetsI) (assumption | rule sat_intro stmt_calls stp_intro | simp)+

lemma parseCompoundStmt: "at_token AddsNothing tkBegin (Suc n) 1 (parseCompoundStmt S)"
  unfolding parseCompoundStmt_def
  by (rule at_tokenI, simp only: expect_hit check_def snd_conv)
    (assumption | rule sat_intro sat_inline [OF stmt_list] stp_intro | simp)+

lemma parseRepeatStmt: "at_token AddsNothing tkRepeat (Suc n) 1 (parseRepeatStmt R S)"
  unfolding parseRepeatStmt_def
  by (rule at_tokenI, simp only: expect_hit check_def snd_conv)
    (assumption | rule sat_intro sat_inline [OF stmt_list] stmt_calls stp_intro | simp)+

lemma parseIfStmt: "at_token AddsNothing tkIf (Suc n) 1 (parseIfStmt R S)"
  unfolding parseIfStmt_def
  by (rule at_tokenI, simp only: expect_hit check_def snd_conv)
    (assumption | rule sat_intro stmt_calls stp_intro | simp)+

lemma parseWhileStmt: "at_token AddsNothing tkWhile (Suc n) 1 (parseWhileStmt R S)"
  unfolding parseWhileStmt_def
  by (rule at_tokenI, simp only: expect_hit check_def snd_conv)
    (assumption | rule sat_intro stmt_calls stp_intro | simp)+

lemma parseWithStmt: "at_token AddsNothing tkWith (Suc n) 1 (parseWithStmt R S)"
  unfolding parseWithStmt_def
  by (rule at_tokenI, simp only: expect_hit check_def snd_conv)
    (assumption | rule sat_intro stmt_calls stp_intro | simp)+

lemma stp_direction [stp_intro]: "stp g c p q \<Longrightarrow> stp g c p (snd (for_direction q))"
  unfolding for_direction_def
  by (auto simp: match_tok_def intro!: stp_error intro: stp_then [OF _ stp_advance_0])

lemma parseForStmt: "at_token AddsNothing tkFor (Suc n) 1 (parseForStmt R S)"
  unfolding parseForStmt_def
  by (rule at_tokenI, simp only: expect_hit check_def snd_conv)
    (assumption | rule sat_intro sat_split stmt_calls stp_intro | simp add: parse_error_def)+

lemma parseCaseConstant: "meets (Suc n) 2 (parseCaseConstant R)"
  unfolding parseCaseConstant_def Let_def
  by (rule meetsI) (assumption | rule sat_intro stmt_calls stp_intro | simp add: check_def)+

lemma arm_current [simp]: "Current (arm_caret p) = Current p" "Kind (Current (parse_error l d as p)) = Kind (Current p)"
  by (simp_all add: arm_caret_def parse_error_def)

lemma parseCaseLabel: "meets (Suc n) 2 (parseCaseLabel R)"
  unfolding parseCaseLabel_def
  by (rule meetsI) (assumption | rule sat_intro sat_inline [OF parseCaseConstant] stp_intro | simp add: check_def)+

lemma case_labels_loop: "meets (Suc n) 1 (case_labels_loop R S ls)"
  unfolding case_labels_loop_def
  by (rule meetsI) (assumption | rule sat_intro sat_inline [OF parseCaseLabel] stmt_calls stp_intro | simp add: check_def)+

lemma case_default: "k \<in> {tkElse, tkOtherwise} \<Longrightarrow> at_token AddsNothing k (Suc n) 1 (case_default S arms)"
  unfolding case_default_def Let_def
  by (rule at_tokenI) (assumption | rule sat_intro sat_inline [OF stmt_list] stmt_calls stp_intro | simp | (auto)[1])+

lemma default_inline:
  assumes "check tkElse q \<or> check tkOtherwise q" "stp g c p q" "1 \<le> 4 * c + r" "\<And>x q'. stp g c p q' \<Longrightarrow> Q x q'"
  shows "sat (4 * tokens_left p + r \<le> Suc n) (case_default S arms q) Q"
  using sat_at [OF case_default [of "Kind (Current q)" arms] refl assms(2-4)] assms(1) by (auto simp: check_def)

lemma case_arms_loop: "meets (Suc n) 2 (case_arms_loop R S arms)"
  unfolding case_arms_loop_def
  by (rule meetsI) (assumption | rule sat_intro default_inline default_call sat_inline [OF parseCaseLabel] stmt_calls stp_intro
      | simp add: check_def)+

lemma case_arms_default:
  assumes "k \<in> {tkElse, tkOtherwise}"
  shows "meets (Suc n) 1 (\<lambda>p. if Kind (Current p) = k then case_arms_loop R S arms p else Some ((arms, None, False), p))"
proof (rule meetsI, rule sat_if)
  show "sat (4 * tokens_left p + 1 \<le> Suc n) (case_arms_loop R S arms p) (\<lambda>x q. moved AddsNothing p q)" if "Kind (Current p) = k" for p
  proof -
    have "case_arms_loop R S arms p = case_default S arms p" using that assms by (auto simp: case_arms_loop_def check_def)
    then show ?thesis using sat_at [OF case_default [OF assms, of arms] that stp_refl, of 1] by (simp add: moved_iff)
  qed
qed (assumption | rule sat_intro stp_intro)+

lemma parseCaseStmt: "at_token AddsNothing tkCase (Suc n) 1 (parseCaseStmt R S)"
  unfolding parseCaseStmt_def
  by (rule at_tokenI, simp only: expect_hit check_def snd_conv)
    (assumption | rule sat_intro stmt_calls stp_intro | simp)+

subsection \<open>Calls and assignments\<close>

lemma parseWriteArg: "meets (Suc n) 2 (parseWriteArg R)"
  unfolding parseWriteArg_def
  by (rule meetsI) (assumption | rule sat_intro stmt_calls stp_intro | simp add: check_def)+

lemma call_arg: "meets (Suc n) 2 (call_arg R w)"
  unfolding call_arg_def
  by (rule meetsI) (assumption | rule sat_intro sat_inline [OF parseWriteArg] stmt_calls stp_intro | simp)+

lemma call_args_loop: "meets (Suc n) 1 (call_args_loop R S w as)"
  unfolding call_args_loop_def
  by (rule meetsI) (assumption | rule sat_intro sat_inline [OF call_arg] stmt_calls stp_intro | simp)+

lemma call_args: "meets (Suc n) 2 (call_args R S w)"
  unfolding call_args_def
  by (rule meetsI) (assumption | rule sat_intro sat_inline [OF call_arg] stmt_calls stp_intro | simp)+

lemma assign_to: "at_token AddsNothing tkAssign (Suc n) 1 (assign_to R lv)"
  unfolding assign_to_def by (rule at_tokenI) (assumption | rule sat_intro stmt_calls stp_intro | simp)+

text \<open>A selector is there, so the selectors read at least one token.\<close>

lemma postfix_moves:
  assumes "check tkDot q \<or> check tkCaret q \<or> check tkLeftBracket q" "stp g c p q" "1 \<le> r"
  shows "sat (4 * tokens_left p + r \<le> Suc n) (parsePostfix R e q) (\<lambda>x. beyond g c p)"
  unfolding parsePostfix_def Let_def using assms
  by (intro sat_if) (assumption | rule sat_intro sat_split sat_call [OF mIndex] sat_call [OF mPostfix] sat_inline [OF parse_args] beyondI stp_intro
      | simp add: check_def)+

lemma postfix_progress:
  assumes "check tkDot q \<or> check tkCaret q \<or> check tkLeftBracket q" "stp g c p q" "1 \<le> r" "\<And>x q'. stp g (Suc c) p q' \<Longrightarrow> Q x q'"
  shows "sat (4 * tokens_left p + r \<le> Suc n) (parsePostfix R e q) Q"
  using postfix_moves [OF assms(1-3)] by (rule sat_mono) (auto simp: beyond_def intro: assms(4) stp_weaken)

lemma finishLvalueStatement: "meets (Suc n) 1 (finishLvalueStatement R S lv L)"
  unfolding finishLvalueStatement_def
proof (rule meetsI, rule sat_if)
  show "sat (4 * tokens_left p + 1 \<le> Suc n) (assign_to R lv p) (\<lambda>x. moved AddsNothing p)" if "check tkAssign p" for p
    using that by (intro sat_at [OF assign_to]) (assumption | rule movedI stp_intro | simp add: check_def)+
qed (cases lv; simp only: Expr.case;
     (assumption | rule sat_intro postfix_progress sat_inline [OF call_args] stmt_calls stp_intro | simp add: check_def)+)

lemma lvalue_cast: "meets (Suc n) 2 (lvalue_cast R L)"
  unfolding lvalue_cast_def by (rule meetsI) (assumption | rule sat_intro stmt_calls stp_intro | simp)+

subsection \<open>The statement\<close>

lemma stmt_goto: "Kind (Current p) = tkGoto \<Longrightarrow> stp g 0 p (snd (stmt_goto p))"
  unfolding stmt_goto_def Let_def
  by (auto simp: check_def intro!: stp_error intro: stp_advance_0 stp_then [OF stp_advance_0 stp_advance_0])

lemma stmt_label: "at_token AddsNothing tkIntLit (Suc n) 1 (stmt_label S)"
  unfolding stmt_label_def by (rule at_tokenI) (assumption | rule sat_intro stmt_calls stp_intro | simp)+

lemma stmt_keyword: "isTypeKeyword k \<Longrightarrow> at_token AddsNothing k (Suc n) 1 (stmt_keyword R)"
  unfolding stmt_keyword_def Let_def
  by (rule at_tokenI) (assumption | rule sat_intro sat_inline [OF lvalue_cast] sat_at [OF assign_to] stp_intro
      | simp add: check_def | (auto dest: typeKeyword)[1])+

lemma stmt_identifier: "at_token AddsNothing tkIdentifier (Suc n) 1 (stmt_identifier R S)"
  unfolding stmt_identifier_def Let_def
  by (rule at_tokenI) (assumption | rule sat_intro sat_split sat_inline [OF lvalue_cast] sat_inline [OF finishLvalueStatement]
      stmt_calls stp_intro | simp add: check_def)+

lemma stmt_inherited: "at_token AddsNothing tkInherited (Suc n) 1 (stmt_inherited R)"
  unfolding stmt_inherited_def Let_def
  by (rule at_tokenI) (assumption | rule sat_intro stmt_calls stp_intro | simp add: check_def)+

lemma some_stmt: "at_token AddsNothing k (Suc n) r f \<Longrightarrow> at_token AddsNothing k (Suc n) r (some_stmt f)"
  unfolding some_stmt_def by (rule at_tokenI) (assumption | rule sat_intro sat_at stp_intro | simp)+

lemmas statement_arms = sat_at [OF some_stmt [OF parseCompoundStmt]] sat_at [OF some_stmt [OF parseIfStmt]]
  sat_at [OF some_stmt [OF parseWhileStmt]] sat_at [OF some_stmt [OF parseForStmt]] sat_at [OF some_stmt [OF parseRepeatStmt]]
  sat_at [OF some_stmt [OF parseWithStmt]] sat_at [OF some_stmt [OF parseCaseStmt]]
  sat_at [OF stmt_label] sat_at [OF stmt_keyword refl] sat_at [OF stmt_identifier] sat_at [OF stmt_inherited]

lemma sat_goto: "Kind (Current p) = tkGoto \<Longrightarrow> sat b (Some (stmt_goto p)) (\<lambda>x. moved AddsNothing p)"
  using stmt_goto [of p] by (intro sat_Some) (rule movedI)

lemma statement_switch: "meets (Suc n) 1 (statement_switch R S)"
  unfolding statement_switch_def Let_def
  by (rule meetsI) (assumption | rule sat_goto statement_arms sat_intro stp_intro | simp)+

lemma stp_stmtTooDeep [stp_intro]: "stp g c p q \<Longrightarrow> stp g c p (snd (stmtTooDeep q))"
  by (simp add: stmtTooDeep_def stp_intro)

lemma parseStatement_scoped:
  "sat (4 * tokens_left (enterStmt p) + 1 \<le> Suc n) (parseStatement R S p) (\<lambda>x. scoped AddsNothing leaveStmt (enterStmt p))"
  unfolding parseStatement_def
  by (assumption | rule sat_bind sat_split sat_if sat_inline [OF statement_switch] sat_return scopedI stp_limit_stmt stp_stmtTooDeep stp_refl
      | simp)+

lemma parseStatement: "meets (Suc n) 1 (parseStatement R S)"
  by (rule meetsI, rule sat_enter(4)) (rule parseStatement_scoped)

end

subsection \<open>Every level\<close>

lemma statement_level_Suc:
  assumes "statement_level n R S"
  shows "statement_level (Suc n) (one_level R) (stmt_level R S)"
proof (rule statement_level.intro)
  show "parser_level (Suc n) (one_level R)" using assms by (intro parser_level_Suc) (rule statement_level.axioms)
  show "statement_level_axioms (Suc n) (stmt_level R S)"
    by (rule statement_level_axioms.intro)
      (simp_all only: stmt_level_def smethods.simps statement_level.parseStatement [OF assms] statement_level.stmts_loop [OF assms]
        statement_level.records_loop [OF assms] statement_level.call_args_loop [OF assms] statement_level.case_labels_loop [OF assms]
        statement_level.case_arms_loop [OF assms] statement_level.case_arms_default [OF assms]
        statement_level.finishLvalueStatement [OF assms])
qed

lemma statement_level_at: "statement_level n (methods_at n) (stmts_at n)"
proof (induction n)
  case 0
  show ?case
    by (rule statement_level.intro [OF parser_level_at], unfold_locales) (simp_all add: meets_def sat_def stp_refl)
next
  case (Suc n)
  then show ?case by (simp add: statement_level_Suc)
qed

interpretation statements: statement_level n "methods_at n" "stmts_at n" for n
  by (rule statement_level_at)

subsection \<open>Enough is enough\<close>

locale smethods_le = methods_le +
  fixes S S' :: smethods
  assumes sStatement: "le_opt (sStatement S p) (sStatement S' p)"
    and sStmts: "le_opt (sStmts S ss p) (sStmts S' ss p)"
    and sRecords: "le_opt (sRecords S rs p) (sRecords S' rs p)"
    and sCallArgs: "le_opt (sCallArgs S w as p) (sCallArgs S' w as p)"
    and sCaseLabels: "le_opt (sCaseLabels S ls p) (sCaseLabels S' ls p)"
    and sCaseArms: "le_opt (sCaseArms S arms p) (sCaseArms S' arms p)"
    and sFinish: "le_opt (sFinish S e L p) (sFinish S' e L p)"
begin

lemmas stmt_le_calls = sStatement sStmts sRecords sCallArgs sCaseLabels sCaseArms sFinish
  parseExpression_le parseFactor_le labels_le(3) lists_le(2)

lemma loops_le:
  "le_opt (stmts_loop S ss p) (stmts_loop S' ss p)" "le_opt (stmt_list S p) (stmt_list S' p)"
  "le_opt (records_loop R S rs p) (records_loop R' S' rs p)" "le_opt (parseCaseConstant R p) (parseCaseConstant R' p)"
  "le_opt (call_arg R w p) (call_arg R' w p)"
  unfolding stmts_loop_def stmt_list_def records_loop_def parseCaseConstant_def call_arg_def parseWriteArg_def Let_def
  by (rule stmt_le_calls sat_intro)+

lemma arms_le:
  "le_opt (call_args_loop R S w as p) (call_args_loop R' S' w as p)" "le_opt (call_args R S w p) (call_args R' S' w p)"
  "le_opt (case_labels_loop R S ls p) (case_labels_loop R' S' ls p)" "le_opt (case_arms_loop R S arms p) (case_arms_loop R' S' arms p)"
  "le_opt (assign_to R lv p) (assign_to R' lv p)" "le_opt (lvalue_cast R L p) (lvalue_cast R' L p)"
  unfolding call_args_loop_def call_args_def case_labels_loop_def parseCaseLabel_def case_arms_loop_def case_default_def assign_to_def
    lvalue_cast_def Let_def by (rule stmt_le_calls loops_le sat_intro)+

lemma finish_le: "le_opt (finishLvalueStatement R S lv L p) (finishLvalueStatement R' S' lv L p)"
  unfolding finishLvalueStatement_def by (cases lv; simp only: Expr.case; (rule stmt_le_calls arms_le sat_intro)+)

lemma parseStatement_le: "le_opt (parseStatement R S p) (parseStatement R' S' p)"
  unfolding parseStatement_def statement_switch_def some_stmt_def parseCompoundStmt_def parseIfStmt_def parseWhileStmt_def
    parseForStmt_def parseRepeatStmt_def parseWithStmt_def parseCaseStmt_def stmt_label_def stmt_keyword_def stmt_identifier_def
    stmt_inherited_def Let_def
  by (rule stmt_le_calls loops_le arms_le finish_le sat_intro)+

end

lemma smethods_le_level:
  assumes "smethods_le R R' S S'"
  shows "smethods_le (one_level R) (one_level R') (stmt_level R S) (stmt_level R' S')"
proof (rule smethods_le.intro)
  show "methods_le (one_level R) (one_level R')" using assms by (intro methods_le_level) (rule smethods_le.axioms)
  show "smethods_le_axioms (stmt_level R S) (stmt_level R' S')"
    by (rule smethods_le_axioms.intro)
      (simp_all only: stmt_level_def smethods.simps smethods_le.parseStatement_le [OF assms] smethods_le.loops_le [OF assms]
        smethods_le.arms_le [OF assms] smethods_le.finish_le [OF assms])
qed

lemma smethods_le_Suc: "smethods_le (methods_at n) (methods_at (Suc n)) (stmts_at n) (stmts_at (Suc n))"
proof (induction n)
  case 0
  show ?case by (rule smethods_le.intro [OF methods_le_Suc], unfold_locales) (simp_all add: le_opt_def)
next
  case (Suc n)
  then show ?case using smethods_le_level [OF Suc] by simp
qed

interpretation statement_levels: smethods_le "methods_at n" "methods_at (Suc n)" "stmts_at n" "stmts_at (Suc n)" for n
  by (rule smethods_le_Suc)

lemma statement_stable:
  assumes "n \<le> m" "parseStatement (methods_at n) (stmts_at n) p = Some r"
  shows "parseStatement (methods_at m) (stmts_at m) p = Some r"
  using assms(1)
proof (induction rule: dec_induct)
  case base
  show ?case by (rule assms(2))
next
  case (step k)
  then show ?case using statement_levels.parseStatement_le [of k p] by (simp add: le_opt_def)
qed

subsection \<open>Correctness\<close>

lemma statement_returns:
  assumes "4 * tokens_left p \<le> n"
  shows "\<exists>s q. parseStatement (methods_at n) (stmts_at n) p = Some (s, q) \<and> stp AddsNothing 0 p q"
  using assms statements.parseStatement [of n] unfolding meets_def sat_def by (auto split: option.splits dest!: spec [of _ p])

text \<open>Parsing a statement always comes to an end, whatever the tokens are: nested statements, loops over lists, arms and
  labels included, a number of nested entries proportional to the tokens left is enough, and more make no
  difference to the tree or to the state.\<close>

theorem statement_parser_terminates:
  assumes "4 * tokens_left p \<le> n"
  shows "\<exists>s q. (\<forall>m\<ge>n. parseStatement (methods_at m) (stmts_at m) p = Some (s, q)) \<and> tokens_left q \<le> tokens_left p"
proof -
  obtain s q where "parseStatement (methods_at n) (stmts_at n) p = Some (s, q)" "stp AddsNothing 0 p q" using statement_returns [OF assms] by blast
  then show ?thesis using statement_stable by (intro exI [of _ s] exI [of _ q]) (auto simp: stp_def)
qed

theorem statement_parser_terminates_witness:
  "\<exists>s q. \<forall>m \<ge> 4 * tokens_left (parser_on ''case x of ^a1x:'' Turbo).
     parseStatement (methods_at m) (stmts_at m) (parser_on ''case x of ^a1x:'' Turbo) = Some (s, q)"
  using statement_parser_terminates [of "parser_on ''case x of ^a1x:'' Turbo" "4 * tokens_left (parser_on ''case x of ^a1x:'' Turbo)"]
  by blast

text \<open>What parsing a statement keeps: the scanner's invariant, the options, the sets of names and all four depth
  counters, on every path; reports are only added, each counted once, and no silencing flag is set in a parse that
  has reported nothing.\<close>

theorem statement_parser_keeps:
  assumes "scanner_ok (Lex p)" "flags_sound p" "parseStatement (methods_at n) (stmts_at n) p = Some (s, q)"
  shows "scanner_ok (Lex q) \<and> flags_sound q \<and> POpts q = POpts p \<and> TypeNames q = TypeNames p \<and> VarNames q = VarNames p
    \<and> ExprDepth q = ExprDepth p \<and> PowerDepth q = PowerDepth p \<and> ValueDepth q = ValueDepth p \<and> StmtDepth q = StmtDepth p
    \<and> (\<exists>ds. PDiags q = PDiags p @ ds \<and> ErrorCount q = ErrorCount p + length ds)"
proof -
  have "stp AddsNothing 0 p q" using statements.parseStatement [of n] assms(3) by (auto simp: meets_def sat_def dest!: spec [of _ p])
  then show ?thesis using assms(1,2) by (auto simp: stp_def same_setting_def same_depths_def more_reports_def keeps_def)
qed

lemma parser_on_ok: "scanner_ok (Lex (parser_on tx std))" "flags_sound (parser_on tx std)"
  unfolding parser_on_def using scanner_ok_new [OF scanner_ok_scannerOfBuffer [OF sm_ok_empty]] flags_sound_new by blast+

theorem statement_parser_keeps_witness:
  "\<exists>s q. parseStatement (methods_at (4 * tokens_left (parser_on ''if a then begin'' ISO7185)))
        (stmts_at (4 * tokens_left (parser_on ''if a then begin'' ISO7185))) (parser_on ''if a then begin'' ISO7185) = Some (s, q)
     \<and> StmtDepth q = StmtDepth (parser_on ''if a then begin'' ISO7185)"
proof -
  let ?p = "parser_on ''if a then begin'' ISO7185"
  obtain s q where r: "parseStatement (methods_at (4 * tokens_left ?p)) (stmts_at (4 * tokens_left ?p)) ?p = Some (s, q)"
    using statement_returns [OF order_refl] by blast
  show ?thesis using statement_parser_keeps [OF parser_on_ok r] r by blast
qed

text \<open>The ceiling on nested statements speaks once: however many statements are nested beyond it, and however often the
  stack is found short, one outermost statement makes at most one report of it, and its flag is down again
  afterwards.\<close>

theorem stmt_ceiling_reported_once:
  assumes "StmtDepth p = 0" "\<not> StmtDepthLimitHit p" "parseStatement (methods_at n) (stmts_at n) p = Some (s, q)"
  shows "deep_reports q \<le> deep_reports p + 1 \<and> \<not> StmtDepthLimitHit q"
proof -
  have "scoped AddsNothing leaveStmt (enterStmt p) q" using statements.parseStatement_scoped [of p n] assms(3) by (simp add: sat_def)
  then obtain q' where q': "stp AddsNothing 0 (enterStmt p) q'" "q = leaveStmt q'" by (auto simp: scoped_def moved_iff)
  moreover have "StmtDepth q' = 1" using q'(1) assms(1) by (simp add: stp_def same_depths_def enterStmt_def)
  ultimately show ?thesis using assms(2)
    by (auto simp: stp_def ceiling_once_def deep_reports_def enterStmt_def leaveStmt_def split: if_splits)
qed

theorem stmt_ceiling_reported_once_witness:
  "\<exists>s q. parseStatement (methods_at (4 * tokens_left (parser_on ''begin'' ISO7185)))
        (stmts_at (4 * tokens_left (parser_on ''begin'' ISO7185))) (parser_on ''begin'' ISO7185) = Some (s, q)
     \<and> deep_reports q \<le> deep_reports (parser_on ''begin'' ISO7185) + 1"
proof -
  let ?p = "parser_on ''begin'' ISO7185"
  obtain s q where r: "parseStatement (methods_at (4 * tokens_left ?p)) (stmts_at (4 * tokens_left ?p)) ?p = Some (s, q)"
    using statement_returns [OF order_refl] by blast
  have "StmtDepth ?p = 0" "\<not> StmtDepthLimitHit ?p" by (simp_all add: parser_on_def newParser_def advance_def split: prod.split)
  then show ?thesis using stmt_ceiling_reported_once [OF _ _ r] r by blast
qed

text \<open>Under Turbo a statement that starts with one of the five type keywords and goes on with anything but a left
  parenthesis is dropped without a word: the keyword is consumed, the statement counts as empty, and nothing is
  reported, neither by this method nor, the keyword being gone, by its callers.\<close>

theorem turbo_type_keyword_dropped:
  assumes "turbo (POpts p)" "Kind (Current p) \<in> {tkInteger, tkReal, tkBoolean, tkChar, tkString}"
    and "Kind (Current (advance p)) \<noteq> tkLeftParen"
    and "StmtDepth p < MaxStmtDepth" "\<not> StackLow (Outside p) (StackProbes p)"
  shows "\<exists>q. parseStatement R S p = Some (None, q) \<and> Current q = Current (advance p) \<and> Lex q = Lex (advance p)
    \<and> PDiags q = PDiags p \<and> ErrorCount q = ErrorCount p"
proof -
  let ?p = "(enterStmt p)\<lparr>StackProbes := Suc (StackProbes p)\<rparr>"
  have "stmtTooDeep (enterStmt p) = (False, ?p)"
    using assms(4,5) by (simp add: stmtTooDeep_def stackNearlyExhausted_def enterStmt_def)
  moreover have a: "advance ?p = (advance p)\<lparr>StmtDepth := Suc (StmtDepth p), StackProbes := Suc (StackProbes p)\<rparr>"
    by (simp add: advance_def enterStmt_def split: prod.split)
  moreover have "statement_switch R S ?p = Some (None, advance ?p)"
    using assms(1-3) a by (auto simp: statement_switch_def stmt_keyword_def isTypeKeyword_def check_def Let_def enterStmt_def)
  ultimately have "parseStatement R S p = Some (None, leaveStmt (advance ?p))" by (simp add: parseStatement_def)
  then show ?thesis unfolding a by (auto simp: leaveStmt_def Let_def advance_def split: prod.split)
qed

definition kinds_from :: "Parser \<Rightarrow> TokenKind \<times> TokenKind" where
  "kinds_from p = (Kind (Current p), Kind (Current (advance p)))"

lemma keyword_sample:
  "Kind (Current (parser_on ''real;'' Turbo)) = tkReal" "Kind (Current (advance (parser_on ''real;'' Turbo))) = tkSemicolon"
proof -
  have "kinds_from (parser_on ''real;'' Turbo) = (tkReal, tkSemicolon)" by code_simp
  then show "Kind (Current (parser_on ''real;'' Turbo)) = tkReal" "Kind (Current (advance (parser_on ''real;'' Turbo))) = tkSemicolon"
    by (simp_all add: kinds_from_def)
qed

theorem turbo_type_keyword_dropped_witness:
  "\<exists>q. parseStatement (methods_at 0) (stmts_at 0) (parser_on ''real;'' Turbo) = Some (None, q) \<and> Kind (Current q) = tkSemicolon
    \<and> PDiags q = PDiags (parser_on ''real;'' Turbo)"
proof -
  let ?p = "parser_on ''real;'' Turbo"
  have "turbo (POpts ?p)" "StmtDepth ?p < MaxStmtDepth" "\<not> StackLow (Outside ?p) (StackProbes ?p)"
    by (auto simp: parser_on_def newParser_def advance_def plain_opts_def turbo_def MaxStmtDepth_def split: prod.split)
  then show ?thesis using turbo_type_keyword_dropped [of ?p "methods_at 0" "stmts_at 0"] keyword_sample by auto
qed

end
