(* ===== verification/Type_Parser_Props.thy ===== *)
theory Type_Parser_Props
  imports Type_Parser Stmt_Parser_Props
begin

text \<open>
  The type parser on the same contract, as methods that may add to the sets of names (\<open>adds\<close>): \<open>types_level\<close>
  extends \<open>parser_level\<close> by the methods of one level of types, and is interpreted on \<open>types_at n\<close>.
\<close>

lemma stp_add_var_names [stp_intro]: "stp g c p q \<Longrightarrow> g \<noteq> AddsNothing \<Longrightarrow> stp g c p (add_var_names ns q)"
  by (rule stp_then, assumption) (auto simp: stp_unfold add_var_names_def)

lemma stp_consumeTypeName [stp_intro]: "stp g c p q \<Longrightarrow> stp g c p (snd (consumeTypeName q))"
  by (rule stp_then, assumption) (simp add: consumeTypeName_def stp_advance_any)

lemma stp_close_type [stp_intro]: "stp g c p q \<Longrightarrow> stp g c p (close_type q)"
  by (simp add: close_type_def stp_intro)

lemma stp_param_modifiers [stp_intro]: "stp g c p q \<Longrightarrow> stp g c p (snd (param_modifiers q))"
proof -
  have a: "stp g 0 r (if b then advance r else r)" for b r by (simp add: stp_advance_any stp_refl)
  have m: "stp g 0 r (snd (match_tok tkVar r))" for r by (intro stp_match stp_refl) simp
  assume "stp g c p q"
  then show ?thesis unfolding param_modifiers_def Let_def
    by (simp add: case_prod_beta)
      (blast intro: stp_then [OF _ a] stp_then [OF _ m] stp_then [OF _ stp_advance_any] stp_error)
qed

locale types_level = parser_level +
  fixes T :: tmethods
  assumes tTypeExpr: "adds n 2 (tTypeExpr T)"
    and tIdents: "adds n 1 (tIdents T ns)"
    and tActuals: "adds n 1 (tActuals T as)"
    and tIndices: "adds n 3 (tIndices T ixs)"
    and tSpecs: "adds n 1 (tSpecs T ss)"
    and tConformant: "adds n 3 (tConformant T pk)"
    and tFields: "adds n 3 (tFields T fs)"
    and tVariantPart: "adds n 1 (\<lambda>p. if check tkCase p then tVariantPart T p else Some (v, p))"
    and tVariantLabels: "adds n 1 (tVariantLabels T ls)"
    and tVariantFields: "adds n 3 (tVariantFields T fs)"
    and tVariantCases: "adds n 4 (tVariantCases T cs)"
    and tMembers: "adds n 3 (tMembers T vis ms)"
    and tDirectives: "adds n 1 (tDirectives T h)"
    and tParamList: "adds n 1 (tParamList T)"
    and tParams: "adds n 1 (tParams T gs)"
begin

lemma parseCaseConstant: "meets (Suc n) 2 (parseCaseConstant R)"
  unfolding parseCaseConstant_def Let_def
  by (rule meetsI) (assumption | rule sat_intro sat_inline [OF parseFactor] stp_intro | simp add: check_def)+

lemma variant_part_call:
  assumes "check tkCase q" "stp AddsVars c p q" "1 < 4 * c + r" "\<And>x q'. stp AddsVars c p q' \<Longrightarrow> Q x q'"
  shows "sat (4 * tokens_left p + r \<le> Suc n) (tVariantPart T q) Q"
  using sat_call_adds [OF tVariantPart [of undefined] assms(2-4)] assms(1) by simp

lemmas type_calls = sat_call_adds [OF tTypeExpr] sat_call_adds [OF tIdents] sat_call_adds [OF tActuals]
  sat_call_adds [OF tIndices] sat_call_adds [OF tSpecs] sat_call_adds [OF tConformant] sat_call_adds [OF tFields]
  sat_call_adds [OF tVariantLabels] sat_call_adds [OF tVariantFields] sat_call_adds [OF tVariantCases]
  sat_call_adds [OF tMembers] sat_call_adds [OF tDirectives] sat_call_adds [OF tParamList] sat_call_adds [OF tParams]
  variant_part_call sat_inline [OF parseExpression] sat_inline [OF parseSimpleExpr] sat_inline [OF parseFactor]
  sat_inline [OF parseCaseConstant]

lemma idents_loop: "adds (Suc n) 1 (idents_loop T ns)"
  unfolding idents_loop_def by (rule addsI) (assumption | rule sat_intro sat_split type_calls stp_intro | simp)+

lemma ident_list: "adds (Suc n) 2 (ident_list T)"
  unfolding ident_list_def by (rule addsI) (assumption | rule sat_intro sat_split type_calls stp_intro | simp)+

lemma actuals_loop: "adds (Suc n) 1 (actuals_loop R T as)"
  unfolding actuals_loop_def by (rule addsI) (assumption | rule sat_intro type_calls stp_intro | simp)+

lemma parseSubrangeBound: "meets (Suc n) 2 (parseSubrangeBound R)"
  unfolding parseSubrangeBound_def
  by (rule meetsI) (assumption | rule sat_intro sat_inline [OF parseSimpleExpr] sat_inline [OF parseFactor] stp_intro | simp add: check_def)+

lemma parseArrayIndexType: "adds (Suc n) 3 (parseArrayIndexType R T)"
proof -
  have "sat b (case e of IdentExpr l Name \<Rightarrow> Some (NamedTypeNode a Name False, q) | _ \<Rightarrow> Some (t, parse_error l' err_expected_type_expr as q))
      (\<lambda>x. moved AddsVars p)" if "stp AddsVars c p q" for b c e a t p q l' as
    using that by (cases e) (auto intro!: sat_return movedI stp_error)
  then show ?thesis unfolding parseArrayIndexType_def Let_def
    by (intro addsI) (assumption | rule sat_if sat_bind sat_match type_calls sat_return movedI stp_intro | simp)+
qed

lemma indices_loop: "adds (Suc n) 3 (indices_loop R T ixs)"
  unfolding indices_loop_def
  by (rule addsI) (assumption | rule sat_intro sat_inline_adds [OF parseArrayIndexType] type_calls stp_intro | simp)+

lemma parseArrayType: "at_token AddsVars tkArray (Suc n) 1 (parseArrayType R T pk)"
  unfolding parseArrayType_def
  by (rule at_tokenI, simp only: expect_hit check_def snd_conv)
    (assumption | rule sat_intro sat_inline_adds [OF indices_loop] type_calls stp_intro | simp)+

lemma specs_loop: "adds (Suc n) 1 (specs_loop T ss)"
  unfolding specs_loop_def by (rule addsI) (assumption | rule sat_intro sat_split type_calls stp_intro | simp)+

lemma rest_of_array: "adds (Suc n) 3 (rest_of_array T L pk lo hi ix)"
  unfolding rest_of_array_def by (rule addsI) (assumption | rule sat_intro type_calls stp_intro | simp)+

subsection \<open>Records and variants\<close>

lemma field_group: "adds (Suc n) 3 (field_group T)"
  unfolding field_group_def
  by (rule addsI) (assumption | rule sat_intro sat_inline_adds [OF ident_list] type_calls stp_intro | simp)+

lemma with_initial: "meets (Suc n) 1 (with_initial R f)"
  unfolding with_initial_def parseInitialState_def
  by (rule meetsI) (assumption | rule sat_intro sat_inline [OF parseComponentValue] stp_intro | simp)+

lemma fields_loop: "adds (Suc n) 3 (fields_loop R T fs)"
  unfolding fields_loop_def
  by (rule addsI) (assumption | rule sat_intro sat_inline_adds [OF field_group] sat_inline [OF with_initial] type_calls stp_intro | simp)+

lemma variant_labels_loop: "adds (Suc n) 1 (variant_labels_loop R T ls)"
  unfolding variant_labels_loop_def
  by (rule addsI) (assumption | rule sat_intro type_calls stp_intro | simp add: check_def)+

lemma variant_fields_loop: "adds (Suc n) 3 (variant_fields_loop T fs)"
  unfolding variant_fields_loop_def
  by (rule addsI) (assumption | rule sat_intro sat_inline_adds [OF field_group] type_calls stp_intro | simp)+

lemma variant_cases_loop: "adds (Suc n) 4 (variant_cases_loop R T cs)"
  unfolding variant_cases_loop_def Let_def
  by (rule addsI) (assumption | rule sat_intro type_calls stp_intro | simp add: check_def)+

lemma variant_tag: "adds (Suc n) 3 (variant_tag R T)"
  unfolding variant_tag_def Let_def
  by (rule addsI) (assumption | rule sat_intro type_calls stp_intro | simp add: check_def)+

lemma parseVariantPart: "at_token AddsVars tkCase (Suc n) 1 (parseVariantPart R T)"
  unfolding parseVariantPart_def
  by (rule at_tokenI, simp only: expect_hit check_def snd_conv)
    (assumption | rule sat_intro sat_inline_adds [OF variant_tag] type_calls stp_intro | simp)+

lemma variant_part_guarded: "adds (Suc n) 1 (\<lambda>p. if check tkCase p then parseVariantPart R T p else Some (v, p))"
  by (rule addsI) (assumption | rule sat_if sat_at_grows [OF parseVariantPart] sat_return movedI stp_refl | simp add: check_def)+

lemma parseRecordType: "at_token AddsVars tkRecord (Suc n) 1 (parseRecordType R T pk)"
  unfolding parseRecordType_def
  by (rule at_tokenI, simp only: expect_hit check_def snd_conv)
    (assumption | rule sat_intro sat_inline_adds [OF fields_loop] sat_at_grows [OF parseVariantPart] type_calls stp_intro | simp)+

lemma parsePackedTypeTail: "adds (Suc n) 4 (parsePackedTypeTail R T L c)"
proof -
  have "sat (4 * tokens_left p + 4 \<le> Suc n) ((if c then tConformant T True else parseArrayType R T True) p) (\<lambda>x. moved AddsVars p)"
    if "check tkArray p" for p
    using sat_call_adds [OF tConformant [of True] stp_refl, where Q = "\<lambda>x. moved AddsVars p" and r = 4]
      sat_at_grows [OF parseArrayType [of True] _ stp_refl, where Q = "\<lambda>x. moved AddsVars p" and r = 4] that
    by (cases c) (simp_all only: if_True if_False check_def, simp_all add: moved_iff)
  then show ?thesis unfolding parsePackedTypeTail_def packed_tail_def
    by (intro addsI) (assumption | rule sat_intro sat_at_grows [OF parseRecordType] type_calls stp_intro | simp add: check_def)+
qed

subsection \<open>Conformant arrays and parameters\<close>

lemma conformant_element: "adds (Suc n) 4 (conformant_element R T)"
  unfolding conformant_element_def
  by (rule addsI) (assumption | rule sat_intro sat_inline_adds [OF parsePackedTypeTail] type_calls stp_intro | simp add: check_def)+

lemma conformant_specs: "at_token AddsVars tkColon (Suc n) 1 (conformant_specs R T L pk lo hi)"
  unfolding conformant_specs_def
  by (rule at_tokenI) (assumption | rule sat_intro sat_split sat_inline_adds [OF conformant_element] type_calls stp_intro | simp)+

lemma conformant_ident: "adds (Suc n) 3 (conformant_ident R T L pk lo)"
  unfolding conformant_ident_def Let_def
  by (rule addsI) (assumption | rule sat_intro sat_inline_adds [OF rest_of_array] sat_at_grows [OF conformant_specs] type_calls stp_intro
      | simp add: check_def)+

lemma parseConformantOrRegular: "adds (Suc n) 3 (parseConformantOrRegular R T pk)"
  unfolding parseConformantOrRegular_def Let_def
  by (rule addsI) (assumption | rule sat_intro sat_inline_adds [OF conformant_ident] sat_inline_adds [OF rest_of_array]
      sat_inline_adds [OF parseArrayIndexType] type_calls stp_intro | simp add: check_def)+

lemma conformant_body:
  "sat (4 * tokens_left p + 3 \<le> Suc n)
    (if check tkIdentifier p then conformant_ident R T L pk (Current p) (advance p)
     else if startsOrdinalTypeOnly (Kind (Current p)) then
       parseArrayIndexType R T p \<bind> (\<lambda>(ix, p2). rest_of_array T L pk None None (Some ix) p2)
     else parseExpression R p \<bind> (\<lambda>(lo, p2). parseExpression R (snd (expect tkDotDot p2)) \<bind>
       (\<lambda>(hi, p3). rest_of_array T L pk (Some lo) (Some hi) None p3))) (\<lambda>x. moved AddsVars p)"
  by (assumption | rule sat_intro sat_inline_adds [OF conformant_ident] sat_inline_adds [OF rest_of_array]
      sat_inline_adds [OF parseArrayIndexType] type_calls stp_intro | simp add: check_def)+

lemma parseTurboOpenArrayParamType: "at_token AddsVars tkArray (Suc n) 1 (parseTurboOpenArrayParamType R T)"
  unfolding parseTurboOpenArrayParamType_def Let_def
  by (rule at_tokenI, simp only: expect_hit check_def snd_conv)
    (assumption | rule sat_intro sat_inline_adds [OF parseConformantOrRegular] type_calls stp_intro | simp)+

lemma parseProcedureParamGroup:
  "k \<in> {tkProcedure, tkFunction} \<Longrightarrow> at_token AddsVars k (Suc n) 1 (parseProcedureParamGroup T)"
  unfolding parseProcedureParamGroup_def Let_def
  by (rule at_tokenI) (assumption | rule sat_intro sat_split type_calls stp_intro | simp | (auto)[1])+

lemma param_type: "adds (Suc n) 3 (param_type R T)"
  unfolding param_type_def
  by (rule addsI) (assumption | rule sat_intro sat_inline_adds [OF parsePackedTypeTail] sat_at_grows [OF parseTurboOpenArrayParamType]
      sat_inline_adds [OF parseConformantOrRegular] type_calls stp_intro | simp add: check_def)+

lemma proc_param_inline:
  assumes "check tkProcedure q \<or> check tkFunction q" "stp AddsVars c p q" "1 \<le> 4 * c + r" "\<And>x q'. stp AddsVars c p q' \<Longrightarrow> Q x q'"
  shows "sat (4 * tokens_left p + r \<le> Suc n) (parseProcedureParamGroup T q) Q"
  using sat_at_grows [OF parseProcedureParamGroup [of "Kind (Current q)"] refl assms(2-4)] assms(1) by (auto simp: check_def)

lemma parseParamGroup: "adds (Suc n) 3 (parseParamGroup R T)"
  unfolding parseParamGroup_def Let_def
  by (rule addsI) (assumption | rule sat_if proc_param_inline sat_bind sat_return movedI sat_split sat_inline_adds [OF ident_list]
      sat_inline_adds [OF param_type] type_calls stp_intro | simp)+

lemma params_loop: "adds (Suc n) 1 (params_loop R T gs)"
  unfolding params_loop_def
  by (rule addsI) (assumption | rule sat_intro sat_inline_adds [OF parseParamGroup] type_calls stp_intro | simp)+

lemma parseParamList: "adds (Suc n) 1 (parseParamList R T)"
  unfolding parseParamList_def
  by (rule addsI) (assumption | rule sat_intro sat_inline_adds [OF parseParamGroup] type_calls stp_intro | simp)+

subsection \<open>Object types and denoters\<close>

lemma directives_loop: "adds (Suc n) 1 (directives_loop T h)"
  unfolding directives_loop_def
  by (rule addsI) (assumption | rule sat_intro type_calls stp_intro | simp)+

lemma method_word_moves:
  "Kind (Current q) \<in> {tkProcedure, tkFunction, tkConstructor, tkDestructor} \<Longrightarrow> stp g c p q \<Longrightarrow> stp g (Suc c) p (snd (method_word L q))"
  unfolding method_word_def Let_def
  by (auto simp: check_def expect_def intro: stp_advance)

text \<open>\<^verbatim>\<open>if (b && match(k))\<close>.\<close>

lemma sat_and_match:
  "(b \<Longrightarrow> Kind (Current q) = k \<Longrightarrow> sat a (f True (advance q)) Q) \<Longrightarrow> sat a (f False q) Q \<Longrightarrow>
   sat a (case (if b then match_tok k q else (False, q)) of (m, q') \<Rightarrow> f m q') Q"
  by (simp add: match_tok_def)

lemma heading_moves:
  assumes "Kind (Current q) \<in> {tkProcedure, tkFunction, tkConstructor, tkDestructor}" "stp AddsVars c p q" "1 \<le> r"
  shows "sat (4 * tokens_left p + r \<le> Suc n) (parseObjectMethodHeading R T q) (\<lambda>x. beyond AddsVars c p)"
  unfolding parseObjectMethodHeading_def using assms
  by - (assumption | rule sat_bind sat_and_match sat_if sat_match sat_return sat_split method_word_moves sat_inline_adds [OF parseParamList]
      type_calls beyondI stp_intro | simp)+

lemma heading_inline:
  assumes "check tkProcedure q \<or> check tkFunction q \<or> check tkConstructor q \<or> check tkDestructor q" "stp AddsVars c p q" "1 \<le> r"
    and "\<And>x q'. stp AddsVars (Suc c) p q' \<Longrightarrow> Q x q'"
  shows "sat (4 * tokens_left p + r \<le> Suc n) (parseObjectMethodHeading R T q) Q"
proof (rule sat_mono [OF heading_moves [OF _ assms(2,3)]])
  show "Kind (Current q) \<in> {tkProcedure, tkFunction, tkConstructor, tkDestructor}" using assms(1) by (auto simp: check_def)
qed (auto simp: beyond_def intro: assms(4) stp_weaken)

lemma members_loop: "adds (Suc n) 3 (members_loop R T vis ms)"
  unfolding members_loop_def
  by (rule addsI) (assumption | rule sat_if heading_inline sat_bind sat_match sat_return movedI sat_inline_adds [OF field_group]
      type_calls stp_intro | simp add: check_def)+

lemma stp_ancestor:
  "stp g c p q \<Longrightarrow> stp g c p (snd (if m then case expect tkIdentifier q of (t, p2) \<Rightarrow> (Lexeme t, snd (expect tkRightParen p2)) else ([], q)))"
  by (auto simp: case_prod_beta intro!: stp_expect)

lemma parseObjectType: "at_token AddsVars tkObject (Suc n) 1 (parseObjectType R T)"
  unfolding parseObjectType_def Let_def
  by (rule at_tokenI, simp only: expect_hit check_def snd_conv)
    (assumption | rule sat_match sat_split sat_bind type_calls sat_return movedI stp_ancestor stp_intro | simp)+

lemma type_denoters:
  "at_token AddsVars tkString (Suc n) 1 (type_string R)"
  "at_token AddsVars tkIdentifier (Suc n) 1 (type_identifier R T)"
  "at_token AddsVars tkSet (Suc n) 1 (type_set T)"
  "at_token AddsVars tkFile (Suc n) 1 (type_file T)"
  "at_token AddsVars tkCaret (Suc n) 1 (type_pointer T)"
  "at_token AddsVars tkLeftParen (Suc n) 1 (type_enum T)"
proof -
  show "at_token AddsVars tkString (Suc n) 1 (type_string R)" unfolding type_string_def Let_def
    by (rule at_tokenI) (assumption | rule sat_intro type_calls stp_intro | simp add: check_def)+
  show "at_token AddsVars tkIdentifier (Suc n) 1 (type_identifier R T)" unfolding type_identifier_def Let_def
    by (rule at_tokenI) (assumption | rule sat_intro sat_split sat_inline [OF parseSubrangeBound] type_calls stp_intro | simp add: check_def)+
  show "at_token AddsVars tkSet (Suc n) 1 (type_set T)" unfolding type_set_def
    by (rule at_tokenI) (assumption | rule sat_intro type_calls stp_intro | simp)+
  show "at_token AddsVars tkFile (Suc n) 1 (type_file T)" unfolding type_file_def Let_def
    by (rule at_tokenI) (assumption | rule sat_intro type_calls stp_intro | simp add: check_def)+
  show "at_token AddsVars tkCaret (Suc n) 1 (type_pointer T)" unfolding type_pointer_def
    by (rule at_tokenI) (assumption | rule sat_intro type_calls stp_intro | simp)+
  show "at_token AddsVars tkLeftParen (Suc n) 1 (type_enum T)" unfolding type_enum_def
    by (rule at_tokenI) (assumption | rule sat_intro sat_inline_adds [OF ident_list] type_calls stp_intro | simp)+
qed

lemma type_subrange: "adds (Suc n) 2 (type_subrange R)"
  unfolding type_subrange_def
  by (rule addsI) (assumption | rule sat_intro sat_inline [OF parseSubrangeBound] stp_intro | simp)+

lemma type_procedure: "Kind (Current q) \<in> {tkProcedure, tkFunction} \<Longrightarrow> stp AddsVars c p q \<Longrightarrow> 1 \<le> r \<Longrightarrow>
    sat (4 * tokens_left p + r \<le> Suc n) (type_procedure R T q) (\<lambda>x. moved AddsVars p)"
  unfolding type_procedure_def Let_def
  by (assumption | rule sat_intro sat_inline_adds [OF parseParamList] type_calls stp_intro | simp | (auto)[1])+

lemma plain_denoters [stp_intro]:
  "stp g c p q \<Longrightarrow> stp g c p (snd (type_restricted L q))"
  "stp g c p q \<Longrightarrow> stp g c p (snd (type_of_variable q))"
  "stp g c p q \<Longrightarrow> stp g c p (snd (type_unexpected q))"
proof -
  show "stp g c p q \<Longrightarrow> stp g c p (snd (type_restricted L q))"
    by (auto simp: type_restricted_def intro: stp_error stp_then [OF _ stp_advance_any])
  show "stp g c p q \<Longrightarrow> stp g c p (snd (type_of_variable q))"
    by (auto simp: type_of_variable_def case_prod_beta intro!: stp_expect stp_then [OF _ stp_advance_any])
  show "stp g c p q \<Longrightarrow> stp g c p (snd (type_unexpected q))"
    by (auto simp: type_unexpected_def intro: stp_error stp_then [OF _ stp_advance_any])
qed

lemma type_switch: "adds (Suc n) 2 (type_switch R T)"
  unfolding type_switch_def Let_def
  by (rule addsI) (assumption | rule sat_if type_denoters [THEN sat_at_grows] sat_at_grows [OF parseArrayType] sat_at_grows [OF parseRecordType]
      sat_at_grows [OF parseObjectType] sat_inline_adds [OF type_subrange] type_procedure sat_Some movedI stp_intro | simp | (auto)[1])+

lemma type_denoter: "adds (Suc n) 2 (type_denoter R T)"
  unfolding type_denoter_def Let_def
  by (rule addsI) (assumption | rule sat_if sat_bind sat_inline_adds [OF type_switch] sat_inline_adds [OF parsePackedTypeTail] type_calls
      sat_return sat_Some movedI stp_intro | simp add: check_def)+

lemma parseTypeExpr: "adds (Suc n) 2 (parseTypeExpr R T)"
proof (rule addsI)
  fix p
  show "sat (4 * tokens_left p + 2 \<le> Suc n) (parseTypeExpr R T p) (\<lambda>x. moved AddsVars p)"
  proof (cases "TypeDepth p \<ge> MaxTypeDepth")
    case True
    then show ?thesis unfolding parseTypeExpr_def
      by (simp only: if_True) (rule sat_return, rule movedI, rule stp_limit(4), simp, rule stp_refl)
  next
    case False
    then show ?thesis unfolding parseTypeExpr_def
      by (simp only: if_False, intro sat_enter(5))
        (assumption | rule sat_bind sat_inline_adds [OF type_denoter] sat_return scopedI stp_refl | simp)+
  qed
qed

end

subsection \<open>Every level of types\<close>

lemma types_level_Suc:
  assumes "types_level n R T"
  shows "types_level (Suc n) (one_level R) (one_type_level R T)"
proof (rule types_level.intro)
  show "parser_level (Suc n) (one_level R)" using assms by (intro parser_level_Suc) (rule types_level.axioms)
  show "types_level_axioms (Suc n) (one_type_level R T)"
    by (rule types_level_axioms.intro)
      (simp_all only: one_type_level_def tmethods.simps types_level.parseTypeExpr [OF assms] types_level.idents_loop [OF assms]
        types_level.actuals_loop [OF assms] types_level.indices_loop [OF assms] types_level.specs_loop [OF assms]
        types_level.parseConformantOrRegular [OF assms] types_level.fields_loop [OF assms] types_level.variant_part_guarded [OF assms]
        types_level.variant_labels_loop [OF assms] types_level.variant_fields_loop [OF assms] types_level.variant_cases_loop [OF assms]
        types_level.members_loop [OF assms] types_level.directives_loop [OF assms] types_level.parseParamList [OF assms]
        types_level.params_loop [OF assms])
qed

lemma types_level_at: "types_level n (methods_at n) (types_at n)"
proof (induction n)
  case 0
  show ?case
    by (rule types_level.intro [OF parser_level_at], unfold_locales) (simp_all add: adds_def sat_def stp_refl)
next
  case (Suc n)
  then show ?case by (simp add: types_level_Suc)
qed

interpretation types: types_level n "methods_at n" "types_at n" for n
  by (rule types_level_at)

subsection \<open>Enough types are enough\<close>

locale tmethods_le = methods_le +
  fixes T T' :: tmethods
  assumes tTypeExpr: "le_opt (tTypeExpr T p) (tTypeExpr T' p)"
    and tIdents: "le_opt (tIdents T ns p) (tIdents T' ns p)"
    and tActuals: "le_opt (tActuals T as p) (tActuals T' as p)"
    and tIndices: "le_opt (tIndices T ixs p) (tIndices T' ixs p)"
    and tSpecs: "le_opt (tSpecs T ss p) (tSpecs T' ss p)"
    and tConformant: "le_opt (tConformant T pk p) (tConformant T' pk p)"
    and tFields: "le_opt (tFields T fs p) (tFields T' fs p)"
    and tVariantPart: "le_opt (tVariantPart T p) (tVariantPart T' p)"
    and tVariantLabels: "le_opt (tVariantLabels T ls p) (tVariantLabels T' ls p)"
    and tVariantFields: "le_opt (tVariantFields T fs p) (tVariantFields T' fs p)"
    and tVariantCases: "le_opt (tVariantCases T cs p) (tVariantCases T' cs p)"
    and tMembers: "le_opt (tMembers T vis ms p) (tMembers T' vis ms p)"
    and tDirectives: "le_opt (tDirectives T h p) (tDirectives T' h p)"
    and tParamList: "le_opt (tParamList T p) (tParamList T' p)"
    and tParams: "le_opt (tParams T gs p) (tParams T' gs p)"
begin

lemmas type_le_calls = tTypeExpr tIdents tActuals tIndices tSpecs tConformant tFields tVariantPart tVariantLabels tVariantFields
  tVariantCases tMembers tDirectives tParamList tParams parseExpression_le parseFactor_le operators_le(5) values_le(5)

lemma bounds_le:
  "le_opt (parseSubrangeBound R p) (parseSubrangeBound R' p)" "le_opt (ident_list T p) (ident_list T' p)"
  "le_opt (parseCaseConstant R p) (parseCaseConstant R' p)" "le_opt (idents_loop T ns p) (idents_loop T' ns p)"
  "le_opt (specs_loop T ss p) (specs_loop T' ss p)" "le_opt (rest_of_array T L pk lo hi ix p) (rest_of_array T' L pk lo hi ix p)"
  unfolding parseSubrangeBound_def ident_list_def parseCaseConstant_def idents_loop_def specs_loop_def rest_of_array_def Let_def
  by (rule type_le_calls sat_intro)+

lemma arrays_le:
  "le_opt (parseArrayIndexType R T p) (parseArrayIndexType R' T' p)" "le_opt (indices_loop R T ixs p) (indices_loop R' T' ixs p)"
  "le_opt (parseArrayType R T pk p) (parseArrayType R' T' pk p)" "le_opt (actuals_loop R T as p) (actuals_loop R' T' as p)"
  unfolding parseArrayIndexType_def indices_loop_def parseArrayType_def actuals_loop_def Let_def
  by (rule type_le_calls sat_intro)+

lemma fields_le:
  "le_opt (field_group T p) (field_group T' p)" "le_opt (with_initial R f p) (with_initial R' f p)"
  "le_opt (variant_labels_loop R T ls p) (variant_labels_loop R' T' ls p)"
  "le_opt (variant_cases_loop R T cs p) (variant_cases_loop R' T' cs p)" "le_opt (variant_tag R T p) (variant_tag R' T' p)"
  unfolding field_group_def with_initial_def parseInitialState_def variant_labels_loop_def variant_cases_loop_def variant_tag_def Let_def
  by (rule type_le_calls bounds_le sat_intro)+

lemma records_le:
  "le_opt (fields_loop R T fs p) (fields_loop R' T' fs p)" "le_opt (variant_fields_loop T fs p) (variant_fields_loop T' fs p)"
  "le_opt (parseVariantPart R T p) (parseVariantPart R' T' p)"
  unfolding fields_loop_def variant_fields_loop_def parseVariantPart_def by (rule type_le_calls fields_le sat_intro)+

lemma record_le: "le_opt (parseRecordType R T pk p) (parseRecordType R' T' pk p)"
  unfolding parseRecordType_def by (rule type_le_calls records_le sat_intro)+

lemma packed_le: "le_opt (parsePackedTypeTail R T L c p) (parsePackedTypeTail R' T' L c p)"
proof -
  have "le_opt ((if c then tConformant T True else parseArrayType R T True) q) ((if c then tConformant T' True else parseArrayType R' T' True) q)" for q
    by (simp add: tConformant arrays_le(3))
  then show ?thesis unfolding parsePackedTypeTail_def packed_tail_def by (intro sat_intro type_le_calls record_le)
qed

lemma conformant_le:
  "le_opt (parseConformantOrRegular R T pk p) (parseConformantOrRegular R' T' pk p)"
  "le_opt (parseTurboOpenArrayParamType R T p) (parseTurboOpenArrayParamType R' T' p)"
  unfolding parseTurboOpenArrayParamType_def parseConformantOrRegular_def conformant_ident_def conformant_specs_def conformant_element_def Let_def
  by (rule type_le_calls bounds_le arrays_le packed_le sat_intro)+

lemma params_le:
  "le_opt (parseParamGroup R T p) (parseParamGroup R' T' p)" "le_opt (params_loop R T gs p) (params_loop R' T' gs p)"
  "le_opt (parseParamList R T p) (parseParamList R' T' p)"
  unfolding params_loop_def parseParamList_def parseParamGroup_def parseProcedureParamGroup_def param_type_def Let_def
  by (rule type_le_calls bounds_le conformant_le packed_le sat_intro)+

lemma members_le:
  "le_opt (directives_loop T h p) (directives_loop T' h p)" "le_opt (members_loop R T vis ms p) (members_loop R' T' vis ms p)"
  "le_opt (parseObjectType R T p) (parseObjectType R' T' p)"
  unfolding directives_loop_def members_loop_def parseObjectMethodHeading_def parseObjectType_def Let_def
  by (rule type_le_calls params_le fields_le sat_intro)+

lemma parseTypeExpr_le: "le_opt (parseTypeExpr R T p) (parseTypeExpr R' T' p)"
  unfolding parseTypeExpr_def type_denoter_def type_switch_def type_string_def type_identifier_def type_subrange_def type_set_def
    type_file_def type_pointer_def type_enum_def type_procedure_def Let_def
  by (rule type_le_calls bounds_le arrays_le record_le packed_le params_le members_le sat_intro)+

end

lemma tmethods_le_level:
  assumes "tmethods_le R R' T T'"
  shows "tmethods_le (one_level R) (one_level R') (one_type_level R T) (one_type_level R' T')"
proof (rule tmethods_le.intro)
  show "methods_le (one_level R) (one_level R')" using assms by (intro methods_le_level) (rule tmethods_le.axioms)
  show "tmethods_le_axioms (one_type_level R T) (one_type_level R' T')"
    by (rule tmethods_le_axioms.intro)
      (simp_all only: one_type_level_def tmethods.simps tmethods_le.parseTypeExpr_le [OF assms] tmethods_le.bounds_le [OF assms]
        tmethods_le.arrays_le [OF assms] tmethods_le.conformant_le [OF assms] tmethods_le.records_le [OF assms]
        tmethods_le.fields_le [OF assms] tmethods_le.members_le [OF assms] tmethods_le.params_le [OF assms])
qed

lemma tmethods_le_Suc: "tmethods_le (methods_at n) (methods_at (Suc n)) (types_at n) (types_at (Suc n))"
proof (induction n)
  case 0
  show ?case by (rule tmethods_le.intro [OF methods_le_Suc], unfold_locales) (simp_all add: le_opt_def)
next
  case (Suc n)
  then show ?case using tmethods_le_level [OF Suc] by simp
qed

interpretation type_levels: tmethods_le "methods_at n" "methods_at (Suc n)" "types_at n" "types_at (Suc n)" for n
  by (rule tmethods_le_Suc)

lemma type_stable:
  assumes "n \<le> m" "parseTypeExpr (methods_at n) (types_at n) p = Some r"
  shows "parseTypeExpr (methods_at m) (types_at m) p = Some r"
  using assms(1)
proof (induction rule: dec_induct)
  case base
  show ?case by (rule assms(2))
next
  case (step k)
  then show ?case using type_levels.parseTypeExpr_le [of k p] by (simp add: le_opt_def)
qed

lemma type_returns:
  assumes "4 * tokens_left p + 1 \<le> n"
  shows "\<exists>t q. parseTypeExpr (methods_at n) (types_at n) p = Some (t, q) \<and> stp AddsVars 0 p q"
  using assms types.parseTypeExpr [of n] unfolding adds_def sat_def by (auto split: option.splits dest!: spec [of _ p])

subsection \<open>Correctness of types\<close>

text \<open>The reading of a Turbo parameter type that has brackets after all.\<close>

lemma conformant_reports_prefix:
  assumes "parseConformantOrRegular (methods_at n) (types_at n) pk p = Some (t, q)" "Kind (Current p) = tkLeftBracket"
  shows "\<exists>ds. PDiags q = PDiags p @ (Loc (Current p), err_expected_token, [describe_kind p tkArray, describe_kind p tkLeftBracket]) # ds"
proof -
  let ?e = "snd (expect tkArray p)" and ?r = "(Loc (Current p), err_expected_token, [describe_kind p tkArray, describe_kind p tkLeftBracket])"
  have e: "PDiags ?e = PDiags p @ [?r]" "Kind (Current ?e) = tkLeftBracket"
    using assms(2) by (simp_all add: expect_def parse_error_def hasFixedSpelling_def fixed_rows_def punct_rows_def)
  let ?q = "snd (expect tkLeftBracket ?e)"
  have "PDiags ?q = PDiags p @ [?r]" using e(1) by (simp add: expect_hit [of tkLeftBracket ?e] check_def e(2)) (simp add: advance_def split: prod.split)
  moreover have "stp AddsVars 0 ?q q"
    using types.conformant_body [of ?q n "Current p" pk] assms(1) unfolding parseConformantOrRegular_def Let_def
    by (simp add: sat_def moved_iff)
  ultimately show ?thesis by (auto simp: stp_def more_reports_def)
qed

text \<open>A Turbo open-array parameter written with brackets is reported twice: after the report that the dialect has no
  conformant arrays the word \<open>array\<close> is already consumed, and the method handed the rest asks for it again.\<close>

theorem turbo_conformant_reported_twice:
  assumes "parseTurboOpenArrayParamType (methods_at n) (types_at n) p = Some (t, q)"
    and "Kind (Current p) = tkArray" "Kind (Current (advance p)) = tkLeftBracket"
  shows "\<exists>ds. PDiags q = PDiags p @ [(Loc (Current (advance p)), err_turbo_conformant_array, []),
      (Loc (Current (advance p)), err_expected_token, [describe_kind p tkArray, describe_kind p tkLeftBracket])] @ ds"
proof -
  let ?a = "parse_error (Loc (Current (advance p))) err_turbo_conformant_array [] (advance p)"
  have "parseConformantOrRegular (methods_at n) (types_at n) False ?a = Some (t, q)"
    using assms by (simp add: parseTurboOpenArrayParamType_def expect_def check_def Let_def)
  from conformant_reports_prefix [OF this] show ?thesis
    using assms(3) by (auto simp: parse_error_def describe_kind_def advance_def split: prod.splits)
qed

lemma array_sample:
  "Kind (Current (parser_on ''array['' Turbo)) = tkArray" "Kind (Current (advance (parser_on ''array['' Turbo))) = tkLeftBracket"
proof -
  have "kinds_from (parser_on ''array['' Turbo) = (tkArray, tkLeftBracket)" by code_simp
  then show "Kind (Current (parser_on ''array['' Turbo)) = tkArray" "Kind (Current (advance (parser_on ''array['' Turbo))) = tkLeftBracket"
    by (simp_all add: kinds_from_def)
qed

theorem turbo_conformant_reported_twice_witness:
  "\<exists>n t q. parseTurboOpenArrayParamType (methods_at n) (types_at n) (parser_on ''array['' Turbo) = Some (t, q) \<and> length (PDiags q) \<ge> 2"
proof -
  let ?p = "parser_on ''array['' Turbo"
  obtain n t q where r: "parseTurboOpenArrayParamType (methods_at n) (types_at n) ?p = Some (t, q)"
    using types.parseTurboOpenArrayParamType [of "4 * tokens_left ?p"] array_sample(1)
    unfolding at_token_def sat_def by (force split: option.splits dest!: spec [of _ ?p])
  obtain d1 d2 ds where "PDiags q = PDiags ?p @ [d1, d2] @ ds" using turbo_conformant_reported_twice [OF r array_sample] by blast
  then have "length (PDiags q) \<ge> 2" by simp
  then show ?thesis using r by blast
qed

end
