(* ===== verification/Decl_Parser_Props.thy ===== *)
theory Decl_Parser_Props
  imports Decl_Parser Type_Parser_Props
begin

text \<open>
  Declarations on the contract of the parser: \<open>decls_level\<close> joins the levels of statements and of types and adds
  the methods of declarations; \<open>eats\<close> is the contract of a method that is entered at a token it consumes.
\<close>

subsection \<open>Methods that consume a token\<close>

definition eats :: "Adds \<Rightarrow> (Parser \<Rightarrow> bool) \<Rightarrow> nat \<Rightarrow> nat \<Rightarrow> 'a parse \<Rightarrow> bool" where
  "eats g P n r f \<longleftrightarrow> (\<forall>p. P p \<longrightarrow> sat (4 * tokens_left p + r \<le> n) (f p) (\<lambda>x q. stp g 1 p q))"

lemma beyond_iff: "beyond g c p = stp g (Suc c) p"
  by (auto simp: fun_eq_iff beyond_def intro: stp_weaken)

lemma eatsI: "(\<And>p. P p \<Longrightarrow> sat (4 * tokens_left p + r \<le> n) (f p) (\<lambda>x. beyond g 0 p)) \<Longrightarrow> eats g P n r f"
  by (simp add: eats_def beyond_iff)

lemma sat_eats:
  assumes "eats g P (Suc n) r' f" "P q" "stp g c p q" "r' \<le> 4 * c + r" "\<And>x q'. stp g (Suc c) p q' \<Longrightarrow> Q x q'"
  shows "sat (4 * tokens_left p + r \<le> Suc n) (f q) Q"
proof (rule sat_mono)
  show "sat (4 * tokens_left q + r' \<le> Suc n) (f q) (\<lambda>x q'. stp g 1 q q')" using assms(1,2) by (simp add: eats_def)
  show "4 * tokens_left p + r \<le> Suc n \<Longrightarrow> 4 * tokens_left q + r' \<le> Suc n" using assms(3,4) by (simp add: stp_def)
  show "Q x q'" if "stp g 1 q q'" for x q' using stp_trans [OF assms(3) that] by (intro assms(5)) simp
qed

subsection \<open>The primitives\<close>

lemma stp_expect_any: "stp g c p q \<Longrightarrow> stp g c p (snd (expect k q))"
  by (rule stp_then, assumption) (auto simp: expect_def intro: stp_advance_any stp_error stp_refl)

lemma stp_skip: "stp g c p q \<Longrightarrow> stp g c p (advance q)"
  by (rule stp_then [OF _ stp_advance_any])

lemma stp_label_id [stp_intro]: "stp g c p q \<Longrightarrow> stp g c p (snd (label_id ls q))"
  by (auto simp: label_id_def intro!: stp_skip stp_error)

lemma stp_add_type_name [stp_intro]: "stp AddsNames c p q \<Longrightarrow> stp AddsNames c p (add_type_name n q)"
  by (rule stp_then, assumption) (auto simp: stp_unfold add_type_name_def)

lemma stp_restore_names: "stp AddsNames c p q \<Longrightarrow> stp AddsNames c p (restore_names p q)"
proof -
  have "tokens_left (restore_names p q) = tokens_left q" by (simp add: restore_names_def tokens_left_def)
  moreover have "more_reports p (restore_names p q) = more_reports p q" "ceiling_once p (restore_names p q) = ceiling_once p q"
    "eof_ok (restore_names p q) = eof_ok q"
    by (simp_all add: more_reports_def flags_sound_def ceiling_once_def deep_reports_def restore_names_def eof_ok_def)
  ultimately show "stp AddsNames c p q \<Longrightarrow> stp AddsNames c p (restore_names p q)"
    by (simp add: stp_def same_setting_def same_depths_def) (simp add: restore_names_def)
qed

lemma stp_proc_name [stp_intro]: "stp g c p q \<Longrightarrow> stp g c p (snd (proc_name h q))"
  by (simp add: proc_name_def case_prod_beta) (auto intro!: stp_expect_any stp_skip)

lemma stp_result_name [stp_intro]: "stp g c p q \<Longrightarrow> stp g c p (snd (result_name h q))"
  by (auto simp: result_name_def match_tok_def case_prod_beta intro!: stp_expect_any stp_error stp_skip)

lemma section_starts:
  "section_here ob q = Some s \<Longrightarrow>
     Kind (Current q) \<in> (case s of LabelSection \<Rightarrow> {tkLabel} | ConstSection \<Rightarrow> {tkConst} | TypeSection \<Rightarrow> {tkType} | VarSection \<Rightarrow> {tkVar}
       | ProcSection \<Rightarrow> {tkProcedure, tkFunction} \<union> (if turbo (POpts q) then {tkConstructor, tkDestructor} else {}))"
  by (auto simp: section_here_def check_def split: if_splits)

lemma proc_word_moves:
  "section_here ob q = Some ProcSection \<Longrightarrow> stp g c p q \<Longrightarrow> stp g (Suc c) p (snd (proc_word (check tkFunction q) q))"
  by (drule section_starts) (auto simp: proc_word_def Let_def check_def expect_def intro!: stp_advance split: if_splits)

locale decls_level = types_level n R T + statement_level n R S for n R T S +
  fixes D :: dmethods
  assumes dBlock: "grows n 2 (dBlock D)"
    and dSections: "grows n 1 (dSections D ks ob ho d)"
    and dLabels: "adds n 1 (dLabels D ls)"
    and dConsts: "adds n 1 (dConsts D cs)"
    and dConstValue: "adds n 2 (dConstValue D)"
    and dConstArms: "adds n 1 (dConstArms D f arms)"
    and dTypes: "grows n 1 (dTypes D ts)"
    and dSchemas: "adds n 1 (dSchemas D sps)"
    and dVars: "adds n 1 (dVars D vs)"
begin

text \<open>The calls of a method that adds variables, and of one that adds names of any kind.\<close>

lemmas var_calls = sat_call_adds [OF dLabels] sat_call_adds [OF dConsts] sat_call_adds [OF dConstValue] sat_call_adds [OF dConstArms]
  sat_call_adds [OF dSchemas] sat_call_adds [OF dVars] type_calls

lemmas decl_calls = sat_call_grows [OF dBlock] sat_call_grows [OF dSections] sat_call_grows [OF dTypes]
  sat_call_grows [OF adds_grows [OF dLabels]] sat_call_grows [OF adds_grows [OF dConsts]] sat_call_grows [OF adds_grows [OF dVars]]
  sat_call_grows [OF adds_grows [OF tTypeExpr]] sat_inline [OF parseExpression] sat_inline [OF parseSimpleExpr]

subsection \<open>Constants, types and variables\<close>

lemma labels_loop: "adds (Suc n) 1 (labels_loop D ls)"
  unfolding labels_loop_def by (rule addsI) (assumption | rule sat_intro sat_split var_calls stp_intro | simp)+

lemma const_arm: "adds (Suc n) 3 (const_arm R D)"
  unfolding const_arm_def by (rule addsI) (assumption | rule sat_intro var_calls stp_intro | simp add: check_def)+

lemma const_arms_loop: "adds (Suc n) 1 (const_arms_loop R D f as)"
  unfolding const_arms_loop_def
  by (rule addsI) (assumption | rule sat_intro sat_inline_adds [OF const_arm] var_calls stp_intro | simp split: if_splits)+

lemma const_value_body: "at_token AddsVars tkLeftParen (Suc n) 1 (const_value_body R D)"
  unfolding const_value_body_def
  by (rule at_tokenI) (assumption | rule sat_intro sat_inline_adds [OF const_arm] var_calls stp_intro | simp)+

lemma parseTurboConstValue: "adds (Suc n) 2 (parseTurboConstValue R D)"
proof (rule addsI)
  fix p
  let ?b = "4 * tokens_left p + 2 \<le> Suc n"
  consider "\<not> check tkLeftParen p" | "check tkLeftParen p" "TurboConstValueDepth p \<ge> MaxTurboConstValueDepth"
    | "check tkLeftParen p" "\<not> TurboConstValueDepth p \<ge> MaxTurboConstValueDepth" by blast
  then show "sat ?b (parseTurboConstValue R D p) (\<lambda>x. moved AddsVars p)"
  proof cases
    case 1
    then show ?thesis unfolding parseTurboConstValue_def
      by (simp only: if_True not_False_eq_True) (assumption | rule var_calls movedI stp_refl | simp)+
  next
    case 2
    then show ?thesis unfolding parseTurboConstValue_def
      by (simp only: if_True if_False not_True_eq_False) (rule sat_return, rule movedI, rule stp_limit(6), simp, rule stp_refl)
  next
    case 3
    then have "Kind (Current (enterConstValue p)) = tkLeftParen" by (simp add: check_def enterConstValue_def)
    then show ?thesis using 3 unfolding parseTurboConstValue_def
      by (simp only: if_False not_True_eq_False, intro sat_enter(7))
        (assumption | rule sat_bind sat_at_grows [OF const_value_body] sat_return scopedI stp_refl | simp)+
  qed
qed

lemma parseConstDef: "adds (Suc n) 2 (parseConstDef R T D)"
  unfolding parseConstDef_def Let_def by (rule addsI) (assumption | rule sat_intro sat_split var_calls stp_intro | simp add: check_def)+

lemma schema_spec: "adds (Suc n) 2 (schema_spec T)"
  unfolding schema_spec_def Let_def
  by (rule addsI) (assumption | rule sat_intro sat_inline_adds [OF ident_list] stp_expect stp_skip stp_refl | simp)+

lemma schemas_loop: "adds (Suc n) 1 (schemas_loop T D ss)"
  unfolding schemas_loop_def by (rule addsI) (assumption | rule sat_intro sat_inline_adds [OF schema_spec] var_calls stp_intro | simp)+

lemma schema_params: "adds (Suc n) 1 (schema_params T D)"
  unfolding schema_params_def
  by (rule addsI) (assumption | rule sat_and_match sat_if sat_bind sat_return movedI sat_inline_adds [OF schema_spec] var_calls stp_intro
      | simp)+

lemma parseInitialState: "meets (Suc n) 1 (parseInitialState R)"
  unfolding parseInitialState_def by (rule meetsI) (assumption | rule sat_intro sat_inline [OF parseComponentValue] stp_intro | simp)+

lemma parseTypeDef: "grows (Suc n) 3 (parseTypeDef R T D)"
  unfolding parseTypeDef_def Let_def
  by (rule growsI) (assumption | rule sat_bind sat_split sat_return movedI sat_inline_grows [OF adds_grows [OF schema_params]] sat_inline [OF parseInitialState]
      decl_calls stp_if stp_skip stp_intro | simp)+

lemma absolute_clause: "meets (Suc n) 1 (absolute_clause R)"
  unfolding absolute_clause_def
  by (rule meetsI) (assumption | rule sat_intro sat_split sat_inline [OF parsePostfix] stp_intro | simp add: check_def)+

lemma parseVarGroup: "adds (Suc n) 3 (parseVarGroup R T)"
  unfolding parseVarGroup_def
  by (rule addsI) (assumption | rule sat_intro sat_inline_adds [OF ident_list] sat_inline [OF parseInitialState] sat_inline [OF absolute_clause]
      var_calls stp_intro | simp)+

subsection \<open>The lists of a section\<close>

lemma at_name:
  "eats AddsVars (check tkIdentifier) (Suc n) 1 (parseConstDef R T D)"
  "eats AddsNames (check tkIdentifier) (Suc n) 1 (parseTypeDef R T D)"
  "eats AddsVars (check tkIdentifier) (Suc n) 1 (parseVarGroup R T)"
proof -
  show "eats AddsVars (check tkIdentifier) (Suc n) 1 (parseConstDef R T D)"
    unfolding parseConstDef_def Let_def
    by (rule eatsI, simp only: expect_hit prod.case)
      (assumption | rule sat_if sat_bind sat_return var_calls beyondI stp_intro | simp add: check_def)+
  show "eats AddsNames (check tkIdentifier) (Suc n) 1 (parseTypeDef R T D)"
    unfolding parseTypeDef_def Let_def
    by (rule eatsI, simp only: expect_hit prod.case)
      (assumption | rule sat_bind sat_return sat_inline_grows [OF adds_grows [OF schema_params]] sat_inline [OF parseInitialState]
        decl_calls beyondI stp_if stp_skip stp_intro | simp add: check_def)+
  show "eats AddsVars (check tkIdentifier) (Suc n) 1 (parseVarGroup R T)"
    unfolding parseVarGroup_def ident_list_def
    by (rule eatsI, simp only: expect_hit prod.case)
      (assumption | rule sat_bind sat_return sat_inline [OF parseInitialState] sat_inline [OF absolute_clause]
        var_calls beyondI stp_intro | simp add: check_def)+
qed

lemmas name_calls = at_name [THEN sat_eats]

lemma consts_loop: "adds (Suc n) 1 (consts_loop R T D cs)"
  unfolding consts_loop_def by (rule addsI) (assumption | rule sat_intro name_calls var_calls stp_intro | simp)+

lemma types_loop: "grows (Suc n) 1 (types_loop R T D ts)"
  unfolding types_loop_def by (rule growsI) (assumption | rule sat_intro name_calls decl_calls stp_intro | simp)+

lemma vars_loop: "adds (Suc n) 1 (vars_loop R T D vs)"
  unfolding vars_loop_def by (rule addsI) (assumption | rule sat_intro name_calls var_calls stp_intro | simp)+

subsection \<open>Procedures and blocks\<close>

lemma proc_result: "adds (Suc n) 1 (proc_result T h)"
  unfolding proc_result_def by (rule addsI) (assumption | rule sat_if sat_match sat_split sat_bind sat_return movedI var_calls stp_intro | simp)+

lemma proc_rest: "grows (Suc n) 3 (proc_rest D ho h ps ret)"
  unfolding proc_rest_def by (rule growsI) (assumption | rule sat_intro decl_calls stp_intro | simp)+

lemma parseProcDecl: "eats AddsNames (\<lambda>p. section_here ob p = Some ProcSection) (Suc n) 1 (\<lambda>p. parseProcDecl R T D (check tkFunction p) ho p)"
  unfolding parseProcDecl_def proc_decl_def
  by (rule eatsI) (assumption | rule sat_bind sat_return sat_split proc_word_moves sat_inline_grows [OF adds_grows [OF parseParamList]]
      sat_inline_grows [OF adds_grows [OF proc_result]] sat_inline_grows [OF proc_rest] stp_restore_names beyondI stp_intro | simp)+

lemma sections:
  "eats AddsNames (check tkLabel) (Suc n) 1 (parseLabelSection D d)"
  "eats AddsNames (check tkConst) (Suc n) 1 (parseConstSection R T D d)"
  "eats AddsNames (check tkType) (Suc n) 1 (parseTypeSection R T D d)"
  "eats AddsNames (check tkVar) (Suc n) 1 (parseVarSection R T D d)"
  unfolding parseLabelSection_def parseConstSection_def parseTypeSection_def parseVarSection_def
  by (rule eatsI, simp only: expect_hit snd_conv,
      (assumption | rule sat_bind sat_return sat_split sat_inline_grows [OF adds_grows [OF parseConstDef]] sat_inline_grows [OF parseTypeDef]
        sat_inline_grows [OF adds_grows [OF parseVarGroup]] decl_calls beyondI stp_intro | simp add: check_def)+)+

lemma parse_section: "eats AddsNames (\<lambda>p. section_here ob p = Some s) (Suc n) 1 (parse_section R T D ho s d)"
proof (cases s)
  case ProcSection
  then show ?thesis unfolding parse_section_def
    by (simp only: Section.case, intro eatsI)
      (assumption | rule sat_bind sat_eats [OF parseProcDecl] sat_return beyondI stp_refl | simp)+
qed (use sections in \<open>auto simp: parse_section_def eats_def dest!: section_starts simp: check_def\<close>)

lemma sections_loop: "grows (Suc n) 1 (sections_loop R T D ks ob ho d)"
  unfolding sections_loop_def
  by (rule growsI) (assumption | rule sat_option sat_if sat_bind sat_return sat_eats [OF parse_section] movedI decl_calls stp_intro | simp)+

lemma block_sections: "grows (Suc n) 2 (block_sections D)"
  unfolding block_sections_def by (rule growsI) (assumption | rule sat_intro decl_calls stp_intro | simp)+

lemma compound_anywhere: "meets (Suc n) 2 (parseCompoundStmt S)"
  unfolding parseCompoundStmt_def stmt_list_def by (rule meetsI) (assumption | rule sat_intro stmt_calls stp_intro | simp)+

lemma block_body: "grows (Suc n) 2 (block_body S D)"
  unfolding block_body_def
  by (rule growsI) (assumption | rule sat_intro sat_inline_grows [OF block_sections] sat_inline [OF compound_anywhere] stp_intro | simp)+

lemma parseBlock: "grows (Suc n) 2 (parseBlock S D)"
proof (rule growsI)
  fix p
  show "sat (4 * tokens_left p + 2 \<le> Suc n) (parseBlock S D p) (\<lambda>x. moved AddsNames p)"
  proof (cases "BlockDepth p \<ge> MaxBlockDepth")
    case True
    then show ?thesis unfolding parseBlock_def
      by (simp only: if_True) (rule sat_return, rule movedI, rule stp_limit(5), simp, rule stp_refl)
  next
    case False
    then show ?thesis unfolding parseBlock_def
      by (simp only: if_False, intro sat_enter(6))
        (assumption | rule sat_bind sat_inline_grows [OF block_body] sat_return scopedI stp_refl | simp)+
  qed
qed

end

subsection \<open>Every level of declarations\<close>

lemma decls_level_Suc:
  assumes "decls_level n R T S D"
  shows "decls_level (Suc n) (one_level R) (one_type_level R T) (stmt_level R S) (one_decl_level R S T D)"
proof (rule decls_level.intro)
  show "types_level (Suc n) (one_level R) (one_type_level R T)" using assms by (intro types_level_Suc) (rule decls_level.axioms)
  show "statement_level (Suc n) (one_level R) (stmt_level R S)" using assms by (intro statement_level_Suc) (rule decls_level.axioms)
  show "decls_level_axioms (Suc n) (one_decl_level R S T D)"
    by (rule decls_level_axioms.intro)
      (simp_all only: one_decl_level_def dmethods.simps decls_level.parseBlock [OF assms] decls_level.sections_loop [OF assms]
        decls_level.labels_loop [OF assms] decls_level.consts_loop [OF assms] decls_level.parseTurboConstValue [OF assms]
        decls_level.const_arms_loop [OF assms] decls_level.types_loop [OF assms] decls_level.schemas_loop [OF assms]
        decls_level.vars_loop [OF assms])
qed

lemma decls_level_at: "decls_level n (methods_at n) (types_at n) (stmts_at n) (decls_at n)"
proof (induction n)
  case 0
  show ?case
    by (rule decls_level.intro [OF types_level_at statement_level_at], unfold_locales) (simp_all add: grows_def adds_def sat_def)
next
  case (Suc n)
  then show ?case by (simp add: decls_level_Suc)
qed

interpretation decls: decls_level n "methods_at n" "types_at n" "stmts_at n" "decls_at n" for n
  by (rule decls_level_at)

subsection \<open>Enough declarations are enough\<close>

locale dmethods_le = tmethods_le R R' T T' + smethods_le R R' S S' for R R' T T' S S' +
  fixes D D' :: dmethods
  assumes dBlock: "le_opt (dBlock D p) (dBlock D' p)"
    and dSections: "le_opt (dSections D ks ob ho d p) (dSections D' ks ob ho d p)"
    and dLabels: "le_opt (dLabels D ls p) (dLabels D' ls p)"
    and dConsts: "le_opt (dConsts D cs p) (dConsts D' cs p)"
    and dConstValue: "le_opt (dConstValue D p) (dConstValue D' p)"
    and dConstArms: "le_opt (dConstArms D f arms p) (dConstArms D' f arms p)"
    and dTypes: "le_opt (dTypes D ts p) (dTypes D' ts p)"
    and dSchemas: "le_opt (dSchemas D sps p) (dSchemas D' sps p)"
    and dVars: "le_opt (dVars D vs p) (dVars D' vs p)"
begin

lemmas decl_le_calls = dBlock dSections dLabels dConsts dConstValue dConstArms dTypes dSchemas dVars type_le_calls bounds_le
  params_le labels_le(3)

lemma definitions_le:
  "le_opt (parseConstDef R T D p) (parseConstDef R' T' D' p)" "le_opt (const_arm R D p) (const_arm R' D' p)"
  "le_opt (schema_spec T p) (schema_spec T' p)" "le_opt (parseInitialState R p) (parseInitialState R' p)"
  "le_opt (absolute_clause R p) (absolute_clause R' p)"
  unfolding parseConstDef_def const_arm_def schema_spec_def parseInitialState_def absolute_clause_def Let_def
  by (rule decl_le_calls sat_intro)+

lemma groups_le:
  "le_opt (parseTypeDef R T D p) (parseTypeDef R' T' D' p)" "le_opt (parseVarGroup R T p) (parseVarGroup R' T' p)"
  "le_opt (parseTurboConstValue R D p) (parseTurboConstValue R' D' p)" "le_opt (const_arms_loop R D f arms p) (const_arms_loop R' D' f arms p)"
  "le_opt (schemas_loop T D sps p) (schemas_loop T' D' sps p)" "le_opt (labels_loop D ls p) (labels_loop D' ls p)"
  unfolding parseTypeDef_def schema_params_def parseVarGroup_def parseTurboConstValue_def const_value_body_def const_arms_loop_def
    schemas_loop_def labels_loop_def Let_def
  by (rule decl_le_calls definitions_le sat_intro)+

lemma name_loops_le:
  "le_opt (consts_loop R T D cs p) (consts_loop R' T' D' cs p)" "le_opt (types_loop R T D ts p) (types_loop R' T' D' ts p)"
  "le_opt (vars_loop R T D vs p) (vars_loop R' T' D' vs p)"
  unfolding consts_loop_def types_loop_def vars_loop_def by (rule decl_le_calls definitions_le groups_le sat_intro)+

lemma parse_proc_le: "le_opt (parseProcDecl R T D f ho p) (parseProcDecl R' T' D' f ho p)"
  unfolding parseProcDecl_def proc_decl_def proc_result_def proc_rest_def by (rule decl_le_calls sat_intro)+

lemma parse_section_le: "le_opt (parse_section R T D ho s d p) (parse_section R' T' D' ho s d p)"
  unfolding parse_section_def parseLabelSection_def parseConstSection_def parseTypeSection_def parseVarSection_def
  by (cases s; simp only: Section.case; (rule decl_le_calls definitions_le groups_le parse_proc_le sat_intro)+)

lemma sections_le: "le_opt (sections_loop R T D ks ob ho d p) (sections_loop R' T' D' ks ob ho d p)"
  unfolding sections_loop_def by (rule decl_le_calls parse_section_le sat_intro)+

lemma compound_le: "le_opt (parseCompoundStmt S p) (parseCompoundStmt S' p)"
  unfolding parseCompoundStmt_def by (rule loops_le sat_intro)+

lemma block_le: "le_opt (parseBlock S D p) (parseBlock S' D' p)"
  unfolding parseBlock_def block_body_def block_sections_def by (rule decl_le_calls compound_le sat_intro)+

end

lemma dmethods_le_level:
  assumes "dmethods_le R R' T T' S S' D D'"
  shows "dmethods_le (one_level R) (one_level R') (one_type_level R T) (one_type_level R' T') (stmt_level R S) (stmt_level R' S')
    (one_decl_level R S T D) (one_decl_level R' S' T' D')"
proof (rule dmethods_le.intro)
  show "tmethods_le (one_level R) (one_level R') (one_type_level R T) (one_type_level R' T')"
    using assms by (intro tmethods_le_level) (rule dmethods_le.axioms)
  show "smethods_le (one_level R) (one_level R') (stmt_level R S) (stmt_level R' S')"
    using assms by (intro smethods_le_level) (rule dmethods_le.axioms)
  show "dmethods_le_axioms (one_decl_level R S T D) (one_decl_level R' S' T' D')"
    by (rule dmethods_le_axioms.intro)
      (simp_all only: one_decl_level_def dmethods.simps dmethods_le.block_le [OF assms] dmethods_le.sections_le [OF assms]
        dmethods_le.groups_le [OF assms] dmethods_le.name_loops_le [OF assms])
qed

lemma dmethods_le_Suc:
  "dmethods_le (methods_at n) (methods_at (Suc n)) (types_at n) (types_at (Suc n)) (stmts_at n) (stmts_at (Suc n))
     (decls_at n) (decls_at (Suc n))"
proof (induction n)
  case 0
  show ?case by (rule dmethods_le.intro [OF tmethods_le_Suc smethods_le_Suc], unfold_locales) (simp_all add: le_opt_def)
next
  case (Suc n)
  then show ?case using dmethods_le_level [OF Suc] by simp
qed

interpretation decl_levels: dmethods_le "methods_at n" "methods_at (Suc n)" "types_at n" "types_at (Suc n)" "stmts_at n" "stmts_at (Suc n)"
  "decls_at n" "decls_at (Suc n)" for n
  by (rule dmethods_le_Suc)

subsection \<open>Names of types\<close>

definition type_names :: "TypeDef list \<Rightarrow> bytes set" where
  "type_names ts = (\<lambda>d. toLower (TypeDefName d)) ` set ts"

lemma type_names_simps [simp]: "type_names [] = {}" "type_names (ts @ [t]) = insert (toLower (TypeDefName t)) (type_names ts)"
  by (auto simp: type_names_def)

lemma TypeNames_frame [simp]:
  "TypeNames (advance p) = TypeNames p" "TypeNames (parse_error l d as p) = TypeNames p" "TypeNames (snd (expect k p)) = TypeNames p"
  "TypeNames (snd (match_tok k p)) = TypeNames p" "TypeNames (add_type_name nm p) = insert (toLower nm) (TypeNames p)"
  "TypeNames (restore_names p q) = TypeNames p" "TypeNames (enterBlock p) = TypeNames p" "TypeNames (leaveBlock p) = TypeNames p"
  "TypeNames (snd (label_id ls p)) = TypeNames p"
  by (simp_all add: advance_def parse_error_def expect_def match_tok_def add_type_name_def restore_names_def enterBlock_def leaveBlock_def
      label_id_def Let_def split: prod.split)

lemma same_TypeNames:
  "adds n r f \<Longrightarrow> f p = Some (x, q) \<Longrightarrow> TypeNames q = TypeNames p"
  "meets n r f \<Longrightarrow> f p = Some (x, q) \<Longrightarrow> TypeNames q = TypeNames p"
  by (auto simp: adds_def meets_def sat_def stp_def same_setting_def dest!: spec [of _ p])

text \<open>From type definitions already counted to all of them.\<close>

definition tally :: "TypeDef list \<Rightarrow> TypeDef list \<Rightarrow> Parser \<Rightarrow> Parser \<Rightarrow> bool" where
  "tally ts ts' p q \<longleftrightarrow> (type_names ts \<subseteq> TypeNames p \<longrightarrow> TypeNames q = TypeNames p \<union> type_names ts' \<and> type_names ts \<subseteq> type_names ts')"

lemma tally_same: "TypeNames q = TypeNames p \<Longrightarrow> tally ts ts p q"
  by (auto simp: tally_def)

lemma tally_then: "TypeNames r = insert (toLower (TypeDefName t)) (TypeNames p) \<Longrightarrow> tally (ts @ [t]) ts' r q \<Longrightarrow> tally ts ts' p q"
  by (auto simp: tally_def)

lemma tally_trans: "tally ts ts' p q \<Longrightarrow> tally ts' ts'' q r \<Longrightarrow> tally ts ts'' p r"
  by (auto simp: tally_def)

locale decl_names = decls_level n R T S D for n R T S D +
  assumes dTypes_names: "dTypes D ts p = Some (ts', q) \<Longrightarrow> tally ts ts' p q"
    and dSections_names: "dSections D ks ob ho d p = Some (d', q) \<Longrightarrow> tally (Types d) (Types d') p q"
begin

lemmas keep_TypeNames = same_TypeNames(1) [OF tTypeExpr] same_TypeNames(1) [OF dLabels] same_TypeNames(1) [OF dConsts]
  same_TypeNames(1) [OF dVars] same_TypeNames(1) [OF schema_params] same_TypeNames(1) [OF parseConstDef] same_TypeNames(1) [OF parseVarGroup]
  same_TypeNames(2) [OF parseInitialState] same_TypeNames(2) [OF compound_anywhere]

lemma parseTypeDef_names: "parseTypeDef R T D p = Some (d, q) \<Longrightarrow> TypeNames q = insert (toLower (TypeDefName d)) (TypeNames p)"
  by (auto simp: parseTypeDef_def case_prod_beta bind_eq_Some_conv Let_def dest!: keep_TypeNames split: if_splits)

lemma types_loop_names: "types_loop R T D ts p = Some (ts', q) \<Longrightarrow> tally ts ts' p q"
  by (auto simp: types_loop_def bind_eq_Some_conv dest!: parseTypeDef_names dTypes_names intro: tally_same tally_then split: if_splits)

lemma parse_section_names: "parse_section R T D ho s d p = Some (d', q) \<Longrightarrow> tally (Types d) (Types d') p q"
proof (cases s)
  case TypeSection
  assume "parse_section R T D ho s d p = Some (d', q)"
  then obtain t r ts where "parseTypeDef R T D (snd (expect tkType p)) = Some (t, r)" "dTypes D (Types d @ [t]) r = Some (ts, q)" "Types d' = ts"
    using TypeSection by (auto simp: parse_section_def parseTypeSection_def bind_eq_Some_conv)
  then show ?thesis using tally_then [of r t p "Types d" ts q] by (auto dest!: parseTypeDef_names dTypes_names)
qed (auto simp: parse_section_def parseLabelSection_def parseConstSection_def parseVarSection_def parseProcDecl_def
      case_prod_beta bind_eq_Some_conv dest!: keep_TypeNames intro!: tally_same)

lemma sections_loop_names: "sections_loop R T D ks ob ho d p = Some (d', q) \<Longrightarrow> tally (Types d) (Types d') p q"
  by (auto simp: sections_loop_def bind_eq_Some_conv dest!: parse_section_names dSections_names intro: tally_same tally_trans
      split: option.splits if_splits)

lemma parseBlock_names: "parseBlock S D p = Some (b, q) \<Longrightarrow> TypeNames q = TypeNames p \<union> type_names (block_types b)"
proof -
  have sections: "tally [] (Types d) r q" if "block_sections D r = Some (d, q)" for r d q
    using that by (auto simp: block_sections_def bind_eq_Some_conv no_decls_def split: if_splits dest!: dSections_names) (meson tally_trans)
  show "parseBlock S D p = Some (b, q) \<Longrightarrow> TypeNames q = TypeNames p \<union> type_names (block_types b)"
    by (auto simp: parseBlock_def block_body_def block_of_def no_decls_def bind_eq_Some_conv dest!: keep_TypeNames sections
        simp: tally_def split: if_splits)
qed

end

subsection \<open>Every level of names\<close>

lemma decl_names_at: "decl_names n (methods_at n) (types_at n) (stmts_at n) (decls_at n)"
proof (induction n)
  case 0
  show ?case by (rule decl_names.intro [OF decls_level_at], unfold_locales) simp_all
next
  case (Suc n)
  show ?case by (rule decl_names.intro [OF decls_level_at], unfold_locales)
      (simp_all add: one_decl_level_def decl_names.types_loop_names [OF Suc] decl_names.sections_loop_names [OF Suc])
qed

interpretation names: decl_names n "methods_at n" "types_at n" "stmts_at n" "decls_at n" for n
  by (rule decl_names_at)

subsection \<open>Correctness of scopes\<close>

lemma block_returns:
  assumes "4 * tokens_left p + 1 \<le> n"
  shows "\<exists>b q. parseBlock (stmts_at n) (decls_at n) p = Some (b, q)"
  using assms decls.parseBlock [of n] unfolding grows_def sat_def by (auto split: option.splits dest!: spec [of _ p])

text \<open>C18. The names the parser takes for types after a block are the ones before it and the types the block itself declares,
  no more and no fewer: the local types of its procedures and functions, at any depth, are out of scope again, on every
  path, errors and the nesting ceiling included.\<close>

theorem block_type_scope:
  assumes "parseBlock (stmts_at n) (decls_at n) p = Some (b, q)"
  shows "TypeNames q = TypeNames p \<union> (\<lambda>d. toLower (TypeDefName d)) ` set (block_types b)"
  using names.parseBlock_names [OF assms] by (simp add: type_names_def)

theorem block_type_scope_witness:
  "\<exists>n b q. parseBlock (stmts_at n) (decls_at n) (parser_on ''type t=u; procedure f; type v=w'' Turbo) = Some (b, q)
     \<and> TypeNames q = TypeNames (parser_on ''type t=u; procedure f; type v=w'' Turbo) \<union> (\<lambda>d. toLower (TypeDefName d)) ` set (block_types b)"
proof -
  let ?p = "parser_on ''type t=u; procedure f; type v=w'' Turbo"
  obtain n b q where r: "parseBlock (stmts_at n) (decls_at n) ?p = Some (b, q)" using block_returns [OF order_refl] by blast
  show ?thesis using r block_type_scope [OF r] by blast
qed

end
