(* ===== verification/Program_Parser_Props.thy ===== *)
theory Program_Parser_Props
  imports Program_Parser Decl_Parser_Props
begin

text \<open>
  Whole files on the contract of the parser: \<open>units_level\<close> extends the level of declarations by the loops over
  imports, exports, modules and used units, for any harvest that keeps the contract.  It is interpreted twice, on
  the nested parser, which harvests nothing, and on the outer one.
\<close>

subsection \<open>The primitives of units\<close>

lemma stp_import_name [stp_intro]: "stp g c p q \<Longrightarrow> stp g c p (snd (import_name i q))"
  by (simp add: import_name_def Let_def case_prod_beta) (auto intro!: stp_expect_any stp_skip)

lemma stp_add_qualified [stp_intro]: "stp AddsNames c p q \<Longrightarrow> stp AddsNames c p (add_qualified nm q)"
  by (rule stp_then, assumption) (auto simp: stp_unfold add_qualified_def)

lemma stp_rename [stp_intro]: "stp g c p q \<Longrightarrow> stp g c p (snd (parseExportRename it q))"
  by (simp add: parseExportRename_def case_prod_beta stp_expect_any stp_skip)

lemma stp_export_clause [stp_intro]: "stp g c p q \<Longrightarrow> stp g c p (snd (export_clause q))"
  by (simp add: export_clause_def Let_def case_prod_beta match_tok_def) (auto intro!: stp_expect_any stp_skip stp_rename)

lemma stp_end_export [stp_intro]: "stp g c p q \<Longrightarrow> stp g c p (end_export_part q)"
  by (simp add: end_export_part_def stp_expect_any)

lemma stp_old_export [stp_intro]:
  "stp g c p q \<Longrightarrow> stp g c p (snd (old_export q))" "stp g c p q \<Longrightarrow> stp g c p (snd (old_export_first t q))"
  by (auto simp: old_export_def old_export_first_def Let_def case_prod_beta match_tok_def intro!: stp_expect_any stp_skip stp_rename)

lemma stp_directive [stp_intro]:
  "stp g c p q \<Longrightarrow> stp g c p (snd (module_directive m q))" "stp g c p q \<Longrightarrow> stp g c p (snd (late_interface m q))"
  by (auto simp: module_directive_def late_interface_def intro!: stp_skip)

lemma stp_export_head:
  assumes "check tkIdentifier q \<or> check tkExport q" "stp g c p q"
  shows "stp g (Suc c) p (snd (expect tkIdentifier (snd (match_tok tkExport q))))"
  using assms by (auto simp: check_def match_tok_def expect_def intro!: stp_advance stp_expect_any stp_error intro: stp_skip)

definition closed :: "Parser \<Rightarrow> Parser \<Rightarrow> bool" where
  "closed p q \<longleftrightarrow> (\<exists>c r. stp AddsNames c p r \<and> (q = snd (expect tkEof r) \<or> q = r \<and> Kind (Current r) = tkEof))"

lemma closedI: "stp AddsNames c p r \<Longrightarrow> closed p (snd (expect tkEof r))"
  by (auto simp: closed_def)

lemma closed_here: "stp AddsNames c p q \<Longrightarrow> ms \<noteq> [] \<and> check tkEof q \<Longrightarrow> closed p q"
  by (auto simp: closed_def check_def)

lemma advance_at_eof: "Kind (Current p) = tkEof \<Longrightarrow> eof_ok p \<Longrightarrow> Kind (Current (advance p)) = tkEof \<and> at_end (Lex (advance p))"
  using next_token_at_end [of "Lex p" "Files (Outside p)"] by (simp add: eof_ok_def advance_def make_def)

lemma closed_quiet:
  assumes "closed p q" "eof_ok p" "ErrorCount q = 0"
  shows "Kind (Current q) = tkEof \<and> at_end (Lex q)"
proof -
  obtain c r where r: "stp AddsNames c p r" "q = snd (expect tkEof r) \<or> q = r \<and> Kind (Current r) = tkEof" using assms(1) by (auto simp: closed_def)
  then have "eof_ok r" using assms(2) by (simp add: stp_def)
  then show ?thesis using r(2) advance_at_eof [of r] assms(3)
    by (auto simp: expect_def eof_ok_def parse_error_def split: if_splits)
qed

locale units_level = decls_level n R T S D for n R T S D +
  fixes H :: harvest and U :: umethods
  assumes harvest_keeps: "stp AddsNames c p q \<Longrightarrow> stp AddsNames c p (H nm q)"
    and uImportNames: "grows n 1 (uImportNames U i)"
    and uQualifiers: "grows n 1 (uQualifiers U i)"
    and uImportSpecs: "grows n 1 (uImportSpecs U cls)"
    and uImports: "grows n 1 (uImports U cls)"
    and uExportItems: "grows n 1 (uExportItems U its)"
    and uExportParts: "grows n 1 (uExportParts U its)"
    and uOldExports: "grows n 1 (uOldExports U its)"
    and uToParts: "grows n 1 (uToParts U tos)"
    and uModules: "grows n 1 (uModules U ms)"
    and uUses: "grows n 1 (uUses U us)"
begin

lemmas unit_calls = sat_call_grows [OF uImportNames] sat_call_grows [OF uQualifiers] sat_call_grows [OF uImportSpecs]
  sat_call_grows [OF uImports] sat_call_grows [OF uExportItems] sat_call_grows [OF uExportParts] sat_call_grows [OF uOldExports]
  sat_call_grows [OF uToParts] sat_call_grows [OF uModules] sat_call_grows [OF uUses] decl_calls

lemma stp_used_unit [stp_intro]: "stp AddsNames c p q \<Longrightarrow> stp AddsNames c p (snd (used_unit H us q))"
  by (simp add: used_unit_def Let_def case_prod_beta) (auto intro!: harvest_keeps stp_add_qualified stp_expect_any)

subsection \<open>Imports and exports\<close>

lemma parseImportList: "grows (Suc n) 2 (parseImportList U i)"
  unfolding parseImportList_def by (rule growsI) (assumption | rule sat_intro sat_split unit_calls stp_intro | simp)+

lemma import_spec: "grows (Suc n) 2 (import_spec U)"
  unfolding import_spec_def by (rule growsI) (assumption | rule sat_intro sat_split unit_calls stp_intro | simp)+

lemma import_spec_eats: "eats AddsNames (check tkIdentifier) (Suc n) 1 (import_spec U)"
  unfolding import_spec_def
  by (rule eatsI, simp only: expect_hit prod.case) (assumption | rule sat_bind sat_return unit_calls beyondI stp_intro | simp add: check_def)+

lemma import_loops:
  "grows (Suc n) 1 (import_names_loop U i)" "grows (Suc n) 1 (qualifiers_loop U i)"
  "grows (Suc n) 1 (import_specs_loop U cls)" "grows (Suc n) 1 (imports_loop U cls)"
  unfolding import_names_loop_def qualifiers_loop_def import_specs_loop_def imports_loop_def
  by (rule growsI, (assumption | rule sat_if sat_match sat_split sat_bind sat_return movedI sat_eats [OF import_spec_eats]
      sat_inline_grows [OF import_spec] sat_inline_grows [OF parseImportList] unit_calls stp_if stp_intro | simp add: check_def)+)+

lemma parseImportClauses: "grows (Suc n) 2 (parseImportClauses U)"
  unfolding parseImportClauses_def by (rule growsI) (assumption | rule unit_calls movedI stp_intro | simp)+

lemma parseExportList: "grows (Suc n) 2 (parseExportList U its)"
  unfolding parseExportList_def by (rule growsI) (assumption | rule sat_intro sat_split unit_calls stp_intro | simp)+

lemma export_loops:
  "grows (Suc n) 1 (export_items_loop U its)" "grows (Suc n) 1 (old_exports_loop U its)" "grows (Suc n) 1 (export_parts_loop U its)"
  unfolding export_items_loop_def old_exports_loop_def export_parts_loop_def
  by (rule growsI, (assumption | rule sat_if sat_match sat_split sat_bind sat_return movedI stp_export_head
      sat_inline_grows [OF parseExportList] unit_calls stp_intro | simp)+)+

lemma parseExportSection: "grows (Suc n) 1 (parseExportSection U)"
  unfolding parseExportSection_def
  by (rule growsI) (assumption | rule sat_if sat_and_match sat_match sat_split sat_bind sat_return movedI
      sat_inline_grows [OF parseExportList] unit_calls stp_intro | simp add: check_def)+

subsection \<open>Modules and units\<close>

lemma declarations:
  "grows (Suc n) 2 (parseModuleDeclarations D ho)" "grows (Suc n) 2 (parseUnitDeclarations D ho)"
  unfolding parseModuleDeclarations_def parseUnitDeclarations_def
  by (rule growsI, (assumption | rule sat_intro unit_calls stp_intro | simp)+)+

lemma to_parts_loop: "grows (Suc n) 1 (to_parts_loop S U tos)"
  unfolding to_parts_loop_def Let_def
  by (rule growsI) (assumption | rule sat_intro sat_call [OF sStatement] unit_calls stp_skip stp_intro | simp add: check_def)+

lemma parseModuleBlock: "grows (Suc n) 2 (parseModuleBlock D U m)"
  unfolding parseModuleBlock_def
  by (rule growsI) (assumption | rule sat_intro sat_inline_grows [OF parseImportClauses] sat_inline_grows [OF declarations(1)] unit_calls stp_intro
      | simp)+

lemma names_in_parens: "grows (Suc n) 1 (names_in_parens T)"
  unfolding names_in_parens_def
  by (rule growsI) (assumption | rule sat_intro sat_inline_grows [OF adds_grows [OF ident_list]] stp_intro | simp)+

lemma interface_rest: "grows (Suc n) 2 (interface_rest D U m)"
  unfolding interface_rest_def Let_def
  by (rule growsI) (assumption | rule sat_intro sat_inline_grows [OF parseImportClauses] sat_inline_grows [OF declarations(1)]
      sat_inline_grows [OF parseExportSection] sat_inline_grows [OF parseModuleBlock] stp_skip stp_intro | simp)+

lemma parseModuleDeclaration: "eats AddsNames (check tkModule) (Suc n) 1 (parseModuleDeclaration T D U out)"
  unfolding parseModuleDeclaration_def Let_def
  by (rule eatsI, simp only: expect_hit snd_conv)
    (assumption | rule sat_split sat_bind sat_if sat_return sat_inline_grows [OF names_in_parens] sat_inline_grows [OF interface_rest]
      sat_inline_grows [OF parseModuleBlock] beyondI stp_intro | simp add: check_def)+

lemma modules_loop: "grows (Suc n) 1 (modules_loop T D U ms)"
  unfolding modules_loop_def
  by (rule growsI) (assumption | rule sat_intro sat_eats [OF parseModuleDeclaration] unit_calls stp_intro | simp)+

lemma uses_loop: "grows (Suc n) 1 (uses_loop H U us)"
  unfolding uses_loop_def by (rule growsI) (assumption | rule sat_intro sat_split unit_calls stp_intro | simp)+

lemma opt_uses: "grows (Suc n) 2 (opt_uses H U b)"
  unfolding opt_uses_def parseUsesClause_def by (rule growsI) (assumption | rule sat_intro sat_split unit_calls stp_intro | simp)+

lemma program_heading: "grows (Suc n) 1 (program_heading T)"
  unfolding program_heading_def
  by (rule growsI) (assumption | rule sat_intro sat_split sat_inline_grows [OF names_in_parens] stp_intro | simp)+

lemma parseProgram: "grows (Suc n) 2 (parseProgram H S T D U)"
  unfolding parseProgram_def
  by (rule growsI) (assumption | rule sat_intro sat_inline_grows [OF program_heading] sat_inline_grows [OF parseImportClauses]
      sat_inline_grows [OF opt_uses] sat_inline_grows [OF parseBlock] stp_expect_any stp_refl | simp)+

lemma parseMultiUnitFile: "grows (Suc n) 2 (parseMultiUnitFile H S T D U)"
  unfolding parseMultiUnitFile_def
  by (rule growsI) (assumption | rule sat_intro sat_inline_grows [OF parseProgram] unit_calls stp_refl | simp)+

lemma parseUnitFile: "grows (Suc n) 2 (parseUnitFile H S D U)"
  unfolding parseUnitFile_def Let_def
  by (rule growsI) (assumption | rule sat_intro sat_split sat_inline_grows [OF opt_uses] sat_inline_grows [OF declarations(2)]
      sat_inline [OF compound_anywhere] stp_expect_any stp_refl | simp)+

text \<open>A file ends where the end of file is expected or has been seen.\<close>

lemma parseProgram_closes:
  assumes "stp AddsNames c p q" "2 \<le> 4 * c + r" "\<And>x q'. closed p q' \<Longrightarrow> Q x q'"
  shows "sat (4 * tokens_left p + r \<le> Suc n) (parseProgram H S T D U q) Q"
  unfolding parseProgram_def using assms(1,2)
  by - (assumption | rule sat_bind sat_if sat_return assms(3) closedI sat_inline_grows [OF program_heading] sat_inline_grows [OF parseImportClauses]
      sat_inline_grows [OF opt_uses] sat_inline_grows [OF parseBlock] stp_expect_any | simp)+

lemma parseMultiUnitFile_closes: "sat (4 * tokens_left p + 2 \<le> Suc n) (parseMultiUnitFile H S T D U p) (\<lambda>x. closed p)"
  unfolding parseMultiUnitFile_def
  by (assumption | rule sat_bind sat_if sat_return closed_here parseProgram_closes unit_calls stp_refl | simp)+

lemma parseUnitFile_closes: "sat (4 * tokens_left p + 2 \<le> Suc n) (parseUnitFile H S D U p) (\<lambda>x. closed p)"
  unfolding parseUnitFile_def Let_def
  by (assumption | rule sat_split sat_bind sat_if sat_return closedI sat_inline_grows [OF opt_uses] sat_inline_grows [OF declarations(2)]
      sat_inline [OF compound_anywhere] stp_expect_any stp_refl | simp)+

end

subsection \<open>Every level of units\<close>

definition harvest_ok :: "harvest \<Rightarrow> bool" where
  "harvest_ok H \<longleftrightarrow> (\<forall>nm p. stp AddsNames 0 p (H nm p))"

lemma units_level_at:
  assumes "harvest_ok H"
  shows "units_level n (methods_at n) (types_at n) (stmts_at n) (decls_at n) H (units_at H n)"
proof -
  have h: "stp AddsNames c p q \<Longrightarrow> stp AddsNames c p (H nm q)" for c p q nm
    by (rule stp_then, assumption) (use assms in \<open>simp add: harvest_ok_def\<close>)
  show ?thesis
  proof (induction n)
    case 0
    show ?case
      by (rule units_level.intro [OF decls_level_at], rule units_level_axioms.intro, erule h) (simp_all add: grows_def sat_def)
  next
    case (Suc n)
    show ?case
      by (rule units_level.intro [OF decls_level_at], rule units_level_axioms.intro, erule h)
        (simp_all only: units_at.simps one_unit_level_def umethods.simps units_level.import_loops [OF Suc] units_level.export_loops [OF Suc]
          units_level.to_parts_loop [OF Suc] units_level.modules_loop [OF Suc] units_level.uses_loop [OF Suc])
  qed
qed

lemma parse_file_grows:
  assumes "harvest_ok H"
  shows "grows (Suc n) 2 (parse_file H n)"
proof -
  note l = units_level_at [OF assms, of n]
  show ?thesis unfolding parse_file_def using units_level.parseMultiUnitFile [OF l] units_level.parseUnitFile [OF l] units_level.parseProgram [OF l]
    by (simp add: grows_def)
qed

subsection \<open>Enough units are enough\<close>

locale umethods_le = dmethods_le R R' T T' S S' D D' for R R' T T' S S' D D' +
  fixes H :: harvest and U U' :: umethods
  assumes uImportNames: "le_opt (uImportNames U i p) (uImportNames U' i p)"
    and uQualifiers: "le_opt (uQualifiers U i p) (uQualifiers U' i p)"
    and uImportSpecs: "le_opt (uImportSpecs U cls p) (uImportSpecs U' cls p)"
    and uImports: "le_opt (uImports U cls p) (uImports U' cls p)"
    and uExportItems: "le_opt (uExportItems U its p) (uExportItems U' its p)"
    and uExportParts: "le_opt (uExportParts U its p) (uExportParts U' its p)"
    and uOldExports: "le_opt (uOldExports U its p) (uOldExports U' its p)"
    and uToParts: "le_opt (uToParts U tos p) (uToParts U' tos p)"
    and uModules: "le_opt (uModules U ms p) (uModules U' ms p)"
    and uUses: "le_opt (uUses U us p) (uUses U' us p)"
begin

lemmas unit_le_calls = uImportNames uQualifiers uImportSpecs uImports uExportItems uExportParts uOldExports uToParts uModules uUses
  decl_le_calls sStatement

lemma import_le:
  "le_opt (import_names_loop U i p) (import_names_loop U' i p)" "le_opt (qualifiers_loop U i p) (qualifiers_loop U' i p)"
  "le_opt (import_specs_loop U cls p) (import_specs_loop U' cls p)" "le_opt (imports_loop U cls p) (imports_loop U' cls p)"
  "le_opt (parseImportClauses U p) (parseImportClauses U' p)"
  unfolding import_names_loop_def qualifiers_loop_def import_specs_loop_def imports_loop_def import_spec_def parseImportList_def
    parseImportClauses_def by (rule unit_le_calls sat_intro)+

lemma export_le:
  "le_opt (export_items_loop U its p) (export_items_loop U' its p)" "le_opt (old_exports_loop U its p) (old_exports_loop U' its p)"
  "le_opt (export_parts_loop U its p) (export_parts_loop U' its p)" "le_opt (parseExportSection U p) (parseExportSection U' p)"
  unfolding export_items_loop_def old_exports_loop_def export_parts_loop_def parseExportSection_def parseExportList_def
  by (rule unit_le_calls sat_intro)+

lemma module_parts_le:
  "le_opt (to_parts_loop S U tos p) (to_parts_loop S' U' tos p)" "le_opt (parseModuleBlock D U m p) (parseModuleBlock D' U' m p)"
  "le_opt (interface_rest D U m p) (interface_rest D' U' m p)" "le_opt (names_in_parens T p) (names_in_parens T' p)"
  unfolding interface_rest_def to_parts_loop_def parseModuleBlock_def parseModuleDeclarations_def names_in_parens_def Let_def
  by (rule unit_le_calls import_le export_le sat_intro)+

lemma modules_le: "le_opt (modules_loop T D U ms p) (modules_loop T' D' U' ms p)"
  unfolding modules_loop_def parseModuleDeclaration_def Let_def by (rule unit_le_calls module_parts_le sat_intro)+

lemma uses_le: "le_opt (uses_loop H U us p) (uses_loop H U' us p)" "le_opt (opt_uses H U b p) (opt_uses H U' b p)"
  unfolding uses_loop_def opt_uses_def parseUsesClause_def by (rule unit_le_calls sat_intro)+

lemma files_le:
  "le_opt (parseProgram H S T D U p) (parseProgram H S' T' D' U' p)"
  "le_opt (parseMultiUnitFile H S T D U p) (parseMultiUnitFile H S' T' D' U' p)"
  "le_opt (parseUnitFile H S D U p) (parseUnitFile H S' D' U' p)"
  unfolding parseMultiUnitFile_def parseUnitFile_def parseProgram_def program_heading_def parseUnitDeclarations_def Let_def
  by (rule unit_le_calls uses_le import_le module_parts_le block_le compound_le sat_intro)+

end

lemma umethods_le_level:
  assumes "umethods_le R R' T T' S S' D D' U U'"
  shows "umethods_le_axioms (one_unit_level H S T D U) (one_unit_level H S' T' D' U')"
  by (rule umethods_le_axioms.intro)
    (simp_all only: one_unit_level_def umethods.simps umethods_le.import_le [OF assms] umethods_le.export_le [OF assms]
      umethods_le.module_parts_le [OF assms] umethods_le.modules_le [OF assms] umethods_le.uses_le [OF assms])

lemma umethods_le_Suc:
  "umethods_le (methods_at n) (methods_at (Suc n)) (types_at n) (types_at (Suc n)) (stmts_at n) (stmts_at (Suc n))
     (decls_at n) (decls_at (Suc n)) (units_at H n) (units_at H (Suc n))"
proof (induction n)
  case 0
  show ?case by (rule umethods_le.intro [OF dmethods_le_Suc], rule umethods_le_axioms.intro) (simp_all add: le_opt_def)
next
  case (Suc n)
  show ?case by (rule umethods_le.intro [OF dmethods_le_Suc]) (use umethods_le_level [OF Suc, of H] in \<open>simp only: units_at.simps(2)\<close>)
qed

interpretation unit_levels: umethods_le "methods_at n" "methods_at (Suc n)" "types_at n" "types_at (Suc n)" "stmts_at n" "stmts_at (Suc n)"
  "decls_at n" "decls_at (Suc n)" H "units_at H n" "units_at H (Suc n)" for n H
  by (rule umethods_le_Suc)

lemma parse_file_le: "le_opt (parse_file H n p) (parse_file H (Suc n) p)"
  unfolding parse_file_def by (rule unit_levels.files_le sat_intro)+

lemma parse_with_stable:
  assumes "n \<le> m" "parse_with H n p = Some r"
  shows "parse_with H m p = Some r"
  using assms(1)
proof (induction rule: dec_induct)
  case base
  show ?case by (rule assms(2))
next
  case (step k)
  have "le_opt (parse_with H k p) (parse_with H (Suc k) p)" unfolding parse_with_def by (rule parse_file_le sat_intro)+
  then show ?case using step by (simp add: le_opt_def)
qed

lemma parse_with_returns:
  assumes "harvest_ok H" "4 * tokens_left p + 1 \<le> n"
  shows "\<exists>pr q. parse_with H n p = Some (pr, q) \<and> stp AddsNames 0 p q"
proof -
  have "sat (4 * tokens_left p + 2 \<le> Suc n) (parse_file H n p) (\<lambda>x q. stp AddsNames 0 p q)"
    using parse_file_grows [OF assms(1), of n] by (simp add: grows_def)
  then show ?thesis using assms(2) by (auto simp: sat_def parse_with_def split: option.splits)
qed

lemma parse_with_keeps: "harvest_ok H \<Longrightarrow> parse_with H n p = Some (pr, q) \<Longrightarrow> stp AddsNames 0 p q"
  using parse_file_grows [of H n] by (auto simp: grows_def sat_def parse_with_def bind_eq_Some_conv dest!: spec [of _ p])

subsection \<open>The harvest\<close>



lemma harvest_adds: "\<exists>k ns. harvestImportedTypeNames nm p = p\<lparr>StackProbes := k, TypeNames := TypeNames p \<union> ns\<rparr>"
proof -
  have same: "\<exists>k ns. p = p\<lparr>StackProbes := k, TypeNames := TypeNames p \<union> ns\<rparr>"
    by (rule exI [of _ "StackProbes p"], rule exI [of _ "{}"]) simp
  have "\<exists>k ns. (case Option.bind pr BareUnit of None \<Rightarrow> p\<lparr>StackProbes := StackProbes up\<rparr>
      | Some u \<Rightarrow> p\<lparr>StackProbes := StackProbes up, TypeNames := TypeNames p \<union> X u\<rparr>) = p\<lparr>StackProbes := k, TypeNames := TypeNames p \<union> ns\<rparr>"
    for pr up and X :: "UnitNode \<Rightarrow> bytes set"
  proof (cases "Option.bind pr BareUnit")
    case None
    then show ?thesis by (intro exI [of _ "StackProbes up"] exI [of _ "{}"]) simp
  next
    case (Some u)
    then show ?thesis by auto
  qed
  then show ?thesis unfolding harvestImportedTypeNames_def Let_def
    by (intro option.split [where P = "\<lambda>r. \<exists>k ns. r = _ k ns", THEN iffD2] if_split [where P = "\<lambda>r. \<exists>k ns. r = _ k ns", THEN iffD2] conjI impI allI)
      (simp_all only: same prod.case_eq_if)
qed

lemma harvest_is_ok: "harvest_ok harvestImportedTypeNames"
proof -
  have "stp AddsNames 0 p (p\<lparr>StackProbes := k, TypeNames := TypeNames p \<union> ns\<rparr>)" for p k ns
    by (simp add: stp_unfold tokens_left_def)
  then show ?thesis unfolding harvest_ok_def using harvest_adds by metis
qed

interpretation files: units_level n "methods_at n" "types_at n" "stmts_at n" "decls_at n" harvestImportedTypeNames
  "units_at harvestImportedTypeNames n" for n
  by (rule units_level_at [OF harvest_is_ok])

lemma parse_file_closes:
  assumes "harvest_ok H" "parse_file H n p = Some (pr, q)"
  shows "closed p q"
proof -
  note l = units_level_at [OF assms(1), of n]
  have "sat (4 * tokens_left p + 2 \<le> Suc n) (parse_file H n p) (\<lambda>x. closed p)"
    unfolding parse_file_def
    by (intro sat_if units_level.parseMultiUnitFile_closes [OF l] units_level.parseUnitFile_closes [OF l]
        units_level.parseProgram_closes [OF l stp_refl]) simp_all
  then show ?thesis by (simp add: sat_def assms(2))
qed

subsection \<open>Correctness of the parser\<close>

text \<open>C1. Parsing ends on every input: from any state, whatever the file holds, whatever units it uses, however the stack is
  measured, a number of nested entries proportional to the tokens left is enough, and more change neither the tree nor
  the state.\<close>

theorem parser_terminates:
  "\<exists>pr q. (\<forall>n \<ge> 4 * tokens_left p + 1. parse n p = Some (pr, q)) \<and> tokens_left q \<le> tokens_left p"
proof -
  obtain pr q where r: "parse (4 * tokens_left p + 1) p = Some (pr, q)" "stp AddsNames 0 p q"
    using parse_with_returns [OF harvest_is_ok order_refl, of p] unfolding parse_def by blast
  then show ?thesis using parse_with_stable unfolding parse_def by (intro exI [of _ pr] exI [of _ q]) (auto simp: stp_def)
qed

theorem parser_terminates_witness:
  "\<exists>pr q. \<forall>n \<ge> 4 * tokens_left (parser_on ''unit u; interface uses v,'' Turbo) + 1.
     parse n (parser_on ''unit u; interface uses v,'' Turbo) = Some (pr, q)"
  using parser_terminates [of "parser_on ''unit u; interface uses v,'' Turbo"] by blast

text \<open>C2. The verdict of a parse: a tree is handed out exactly when the parser has reported nothing, and then the file has
  been read to its end: the last token is the end of file, no include and no conditional is open, every recursion
  guard is back where it started and no silencing flag is up but after a report.\<close>

theorem parse_verdict:
  assumes "parse n (newParser out sc opts) = Some (pr, q)"
  shows "(pr \<noteq> None \<longleftrightarrow> PDiags q = []) \<and> ErrorCount q = length (PDiags q)
    \<and> (pr \<noteq> None \<longrightarrow> Kind (Current q) = tkEof \<and> IncludeStack (Lex q) = [] \<and> CondStack (Lex q) = [])
    \<and> flags_sound q \<and> same_depths (newParser out sc opts) q"
proof -
  let ?p = "newParser out sc opts"
  obtain pr' where f: "parse_file harvestImportedTypeNames n ?p = Some (pr', q)" "pr = (if ErrorCount q > 0 then None else Some pr')"
    using assms by (auto simp: parse_def parse_with_def bind_eq_Some_conv)
  have s: "stp AddsNames 0 ?p q" using parse_with_keeps [OF harvest_is_ok] assms unfolding parse_def by blast
  have new: "PDiags ?p = []" "ErrorCount ?p = 0" "flags_sound ?p" "eof_ok ?p"
    by (simp_all add: flags_sound_new, simp_all add: newParser_def eof_ok_advance, simp_all add: advance_def split: prod.split)
  have c: "ErrorCount q = length (PDiags q)" "flags_sound q" using s new by (auto simp: stp_def more_reports_def)
  have e: "ErrorCount q = 0 \<Longrightarrow> Kind (Current q) = tkEof \<and> IncludeStack (Lex q) = [] \<and> CondStack (Lex q) = []"
    using closed_quiet [OF parse_file_closes [OF harvest_is_ok f(1)] new(4)] by (simp add: at_end_def)
  show ?thesis using f(2) c e s by (auto simp: stp_def)
qed

theorem parse_verdict_witness:
  "\<exists>n pr q. parse n (parser_on ''begin x end'' Turbo) = Some (pr, q) \<and> (pr \<noteq> None \<longleftrightarrow> PDiags q = [])"
proof -
  let ?p = "parser_on ''begin x end'' Turbo"
  obtain n pr q where r: "parse n ?p = Some (pr, q)"
    using parse_with_returns [OF harvest_is_ok order_refl, of ?p] unfolding parse_def by blast
  show ?thesis using r parse_verdict [OF r [unfolded parser_on_def]] by blast
qed



end
