(* ===== verification/Ast_Walk.thy ===== *)
theory Ast_Walk
  imports Decl_Nodes
begin

text \<open>
  The walks over the syntax tree that the semantic analysis is built on,
  \<^verbatim>\<open>include/plang/Basic/SemaUtil.h\<close>.  A \<^verbatim>\<open>const ExprNode*\<close> is a node together with its address, the
  positions that lead to it from the expression a walk began with, so that two equal subtrees at different
  places are different pointers.  A callback is a function on the state it captures.

  \<^verbatim>\<open>stackNearlyExhausted\<close> is the parameter \<open>low\<close>: what it answers when so many activations more are live
  than where the walk began.

  What the lemmas show: under the ceiling of 1000 activations, with stack to spare, the walk calls its callback
  once for every node of the tree, parents first; it never enters anything deeper.
\<close>

type_synonym 'l node = "nat list \<times> 'l Expr"

definition MaxWalkDepth :: nat where "MaxWalkDepth = 1000"

text \<open>What a pointer that may be null leads to.\<close>

definition ptr_list :: "'a option \<Rightarrow> 'a list" where
  "ptr_list p = (case p of None \<Rightarrow> [] | Some x \<Rightarrow> [x])"

lemma ptr_list_simps [simp]: "ptr_list None = []" "ptr_list (Some x) = [x]" "set (ptr_list p) = set_option p"
  by (auto simp: ptr_list_def split: option.splits)

subsection \<open>Expressions\<close>

text \<open>The sub-expressions the walk enters, in order; a null pointer is not among them.\<close>

definition arm_children :: "'l Arm \<Rightarrow> 'l Expr list" where
  "arm_children a = (case a of StructuredValueArm b ls v \<Rightarrow> ls @ [v])"

fun expr_children :: "'l Expr \<Rightarrow> 'l Expr list" where
  "expr_children (IndexExpr l a i) = [a, i]"
| "expr_children (FieldExpr l r f) = [r]"
| "expr_children (DerefExpr l p) = [p]"
| "expr_children (BinaryExpr l k a b) = [a, b]"
| "expr_children (UnaryExpr l k a) = [a]"
| "expr_children (CallExpr l n as) = as"
| "expr_children (MethodCallExpr l r m as) = r # as"
| "expr_children (InheritedCallExpr l m as) = as"
| "expr_children (IndirectCallExpr l c as) = c # as"
| "expr_children (SetRangeExpr l a b) = [a, b]"
| "expr_children (SetLiteralExpr l n es) = es"
| "expr_children (SubstringExpr l s a b) = [s, a, b]"
| "expr_children (StructuredValueExpr l n as) = concat (map arm_children as)"
| "expr_children (WriteParam l v w d) = v # w # ptr_list d"
| "expr_children (TypeCastExpr l n e) = [e]"
| "expr_children _ = []"

text \<open>The same with their addresses.\<close>

definition kids :: "'l node \<Rightarrow> 'l node list" where
  "kids x = map (\<lambda>(i, c). (fst x @ [i], c)) (enumerate 0 (expr_children (snd x)))"

function walkExprs :: "(nat \<Rightarrow> bool) \<Rightarrow> ('l node \<Rightarrow> 's \<Rightarrow> 's) \<Rightarrow> nat \<Rightarrow> 'l node \<Rightarrow> 's \<Rightarrow> 's" where
  "walkExprs low F Depth x s =
     (if Depth \<ge> MaxWalkDepth \<or> low (length (fst x)) then s
      else fold (walkExprs low F (Suc Depth)) (kids x) (F x s))"
  by pat_completeness auto
termination by (relation "measure (\<lambda>(low, F, d, x, s). MaxWalkDepth - d)") auto

declare walkExprs.simps [simp del]

subsection \<open>What the walk over an expression visits\<close>

lemma size_arm_children: "c \<in> set (arm_children a) \<Longrightarrow> size c < size a"
  by (cases a) (auto simp: arm_children_def less_Suc_eq_le trans_le_add1 dest: size_list_estimation' [where f = size, OF _ order_refl])

lemma size_expr_children: "c \<in> set (expr_children e) \<Longrightarrow> size c < size e"
proof (induction e rule: expr_children.induct)
  case (13 l n as)
  then obtain a where "a \<in> set as" "size c < size a" using size_arm_children by auto
  then show ?case using size_list_estimation' [where f = size, OF _ order_refl, of a as] by simp
qed (auto simp: less_Suc_eq_le trans_le_add1 trans_le_add2 dest: size_list_estimation' [where f = size, OF _ order_refl])

lemma kids_children: "x' \<in> set (kids x) \<Longrightarrow> snd x' \<in> set (expr_children (snd x))"
  by (auto simp: kids_def in_set_enumerate_eq)

lemma size_kids: "x' \<in> set (kids x) \<Longrightarrow> size (snd x') < size (snd x)"
  using kids_children size_expr_children by blast

function nodes :: "'l node \<Rightarrow> 'l node list" where
  "nodes x = x # concat (map nodes (kids x))"
  by pat_completeness auto
termination by (relation "measure (\<lambda>x. size (snd x))") (auto dest: size_kids)

declare nodes.simps [simp del]

function expr_depth :: "'l Expr \<Rightarrow> nat" where
  "expr_depth e = Suc (Max (insert 0 (expr_depth ` set (expr_children e))))"
  by pat_completeness auto
termination by (relation "measure size") (auto dest: size_expr_children)

declare expr_depth.simps [simp del]

lemma expr_depth_child: "c \<in> set (expr_children e) \<Longrightarrow> expr_depth c < expr_depth e"
  unfolding expr_depth.simps [of e] by (simp add: less_Suc_eq_le)

lemma walkExprs_nodes:
  assumes "\<And>k. \<not> low k" "Depth + expr_depth (snd x) \<le> MaxWalkDepth"
  shows "walkExprs low F Depth x s = fold F (nodes x) s"
  using assms(2)
proof (induction x arbitrary: Depth s rule: nodes.induct)
  case (1 x)
  have "fold (walkExprs low F (Suc Depth)) ys s = fold F (concat (map nodes ys)) s" if "set ys \<subseteq> set (kids x)" for ys s
    using that
  proof (induction ys arbitrary: s)
    case (Cons y ys)
    then have "Suc Depth + expr_depth (snd y) \<le> MaxWalkDepth"
      using "1.prems" expr_depth_child [OF kids_children, of y x] by simp
    then show ?case using Cons "1.IH" [of y "Suc Depth"] by simp
  qed simp
  moreover have "Depth < MaxWalkDepth" using "1.prems" expr_depth.simps [of "snd x"] by simp
  ultimately show ?case using assms(1) by (subst walkExprs.simps) (simp add: nodes.simps [of x])
qed

subsection \<open>Statements\<close>

fun stmt_children :: "'l Stmt \<Rightarrow> 'l Stmt list" where
  "stmt_children (CompoundStmt l ss) = ss"
| "stmt_children (IfStmt l c t e) = ptr_list t @ ptr_list e"
| "stmt_children (ForStmt l v a b d s) = ptr_list s"
| "stmt_children (ForInStmt l v e s) = ptr_list s"
| "stmt_children (WhileStmt l c s) = ptr_list s"
| "stmt_children (RepeatStmt l ss c) = ss"
| "stmt_children (CaseStmt l e arms els h) = concat (map (\<lambda>a. case a of CaseArm ls s \<Rightarrow> ptr_list s) arms) @ ptr_list els"
| "stmt_children (WithStmt l rs s) = ptr_list s"
| "stmt_children (LabeledStmt l n s) = ptr_list s"
| "stmt_children _ = []"

function walkStmts :: "(nat \<Rightarrow> bool) \<Rightarrow> ('l Stmt \<Rightarrow> 's \<Rightarrow> 's) \<Rightarrow> nat \<Rightarrow> 'l Stmt \<Rightarrow> 's \<Rightarrow> 's" where
  "walkStmts low F Depth S s =
     (if Depth \<ge> MaxWalkDepth \<or> low Depth then s
      else fold (walkStmts low F (Suc Depth)) (stmt_children S) (F S s))"
  by pat_completeness auto
termination by (relation "measure (\<lambda>(low, F, d, x, s). MaxWalkDepth - d)") auto

declare walkStmts.simps [simp del]

text \<open>The expressions that hang off one statement, in the order \<^verbatim>\<open>forEachStmtExpr\<close> calls back.\<close>

fun stmt_exprs :: "'l Stmt \<Rightarrow> 'l Expr list" where
  "stmt_exprs (AssignStmt l t v) = [t, v]"
| "stmt_exprs (CallStmt l n as) = as"
| "stmt_exprs (MethodCallStmt l r m as) = r # as"
| "stmt_exprs (InheritedCallStmt l m as) = as"
| "stmt_exprs (IndirectCallStmt l c as) = c # as"
| "stmt_exprs (IfStmt l c t e) = [c]"
| "stmt_exprs (WhileStmt l c s) = [c]"
| "stmt_exprs (RepeatStmt l ss c) = [c]"
| "stmt_exprs (ForStmt l v a b d s) = [a, b]"
| "stmt_exprs (ForInStmt l v e s) = [e]"
| "stmt_exprs (CaseStmt l e arms els h) =
     e # concat (map (\<lambda>a. case a of CaseArm ls s \<Rightarrow> concat (map (\<lambda>(lo, hi). lo # ptr_list hi) ls)) arms)"
| "stmt_exprs (WithStmt l rs s) = rs"
| "stmt_exprs _ = []"

definition forEachStmtExpr :: "'l Stmt \<Rightarrow> ('l Expr \<Rightarrow> 's \<Rightarrow> 's) \<Rightarrow> 's \<Rightarrow> 's" where
  "forEachStmtExpr S F s = fold F (stmt_exprs S) s"

subsection \<open>What the walk over a statement visits\<close>

lemma size_stmt_children: "c \<in> set (stmt_children S) \<Longrightarrow> size c < size S"
proof (induction S rule: stmt_children.induct)
  case (7 l e arms els h)
  then show ?case
  proof (cases "c \<in> set_option els")
    case False
    with 7 obtain ls s where "CaseArm ls s \<in> set arms" "s = Some c" by (auto split: CaseArm.splits)
    then show ?thesis using size_list_estimation' [where f = size, OF _ order_refl, of "CaseArm ls s" arms] by simp
  qed auto
qed (auto simp: less_Suc_eq_le trans_le_add1 trans_le_add2 dest: size_list_estimation' [where f = size, OF _ order_refl])

function sub_stmts :: "'l Stmt \<Rightarrow> 'l Stmt list" where
  "sub_stmts S = S # concat (map sub_stmts (stmt_children S))"
  by pat_completeness auto
termination by (relation "measure size") (auto dest: size_stmt_children)

declare sub_stmts.simps [simp del]

lemma sub_stmts_refl [simp]: "S \<in> set (sub_stmts S)"
  by (subst sub_stmts.simps) simp

lemma sub_stmts_child: "C \<in> set (stmt_children S) \<Longrightarrow> D \<in> set (sub_stmts C) \<Longrightarrow> D \<in> set (sub_stmts S)"
  by (subst sub_stmts.simps) auto

function stmt_depth :: "'l Stmt \<Rightarrow> nat" where
  "stmt_depth S = Suc (Max (insert 0 (stmt_depth ` set (stmt_children S))))"
  by pat_completeness auto
termination by (relation "measure size") (auto dest: size_stmt_children)

declare stmt_depth.simps [simp del]

lemma stmt_depth_child: "c \<in> set (stmt_children S) \<Longrightarrow> stmt_depth c < stmt_depth S"
  unfolding stmt_depth.simps [of S] by (simp add: less_Suc_eq_le)

lemma walkStmts_nodes:
  assumes "\<And>k. \<not> low k" "Depth + stmt_depth S \<le> MaxWalkDepth"
  shows "walkStmts low F Depth S s = fold F (sub_stmts S) s"
  using assms(2)
proof (induction S arbitrary: Depth s rule: sub_stmts.induct)
  case (1 S)
  have "fold (walkStmts low F (Suc Depth)) ys s = fold F (concat (map sub_stmts ys)) s"
    if "set ys \<subseteq> set (stmt_children S)" for ys s
    using that
  proof (induction ys arbitrary: s)
    case (Cons y ys)
    then have "Suc Depth + stmt_depth y \<le> MaxWalkDepth"
      using "1.prems" stmt_depth_child [of y S] by simp
    then show ?case using Cons "1.IH" [of y "Suc Depth"] by simp
  qed simp
  moreover have "Depth < MaxWalkDepth" using "1.prems" stmt_depth.simps [of S] by simp
  ultimately show ?case using assms(1) by (subst walkStmts.simps) (simp add: sub_stmts.simps [of S])
qed

end
