(* ===== verification/Sema_Types.thy ===== *)
theory Sema_Types
  imports Arith Lexer "HOL-Library.Monad_Syntax"
begin

text \<open>
  The semantic types, \<^verbatim>\<open>include/plang/Sema/Type.h\<close>.  A \<^verbatim>\<open>Type\<close> is one flat struct whose \<open>Kind\<close> says which of
  its members count, and a type refers to its components by \<^verbatim>\<open>shared_ptr\<close>, so that types are a graph: a record
  and a pointer to it refer to each other.  Here an object has an address, a store maps addresses to the objects,
  a \<^verbatim>\<open>shared_ptr\<close> is an optional address, and two references are to the same type when the addresses are equal.
  The members that only the code generator and the checks of methods and schema extents read are left out.

  The recursive questions about a type follow these references.  They carry fuel and answer \<open>None\<close> when it runs
  out; \<open>ranked\<close> says that no type contains itself by value, and then the rank of a type is fuel enough.
\<close>

subsection \<open>Types and the store\<close>

datatype TypeKind =
    TkError | TkUnresolved | TkNil | TkInteger | TkReal | TkComplex | TkBoolean | TkChar | TkString | TkVarString
  | TkShortString | TkEnum | TkSubrange | TkArray | TkRecord | TkObject | TkSet | TkFile | TkPointer | TkProcedure
  | TkFunction | TkConformantArray | TkSchemaInstance | TkSchema

type_synonym addr = nat
type_synonym shared = "addr option"

definition PlangMaxSetElements :: nat where "PlangMaxSetElements = 256"

record ConformantBound =
  LoBoundName :: bytes
  HiBoundName :: bytes
  OrdType :: shared

record Field =
  FieldName :: bytes
  FieldTy :: shared
  IsTagField :: bool
  IsPrivateField :: bool

record Param =
  ParamIsVar :: bool
  ParamName :: bytes
  ParamTy :: shared
  ParamIsConst :: bool
  IsUntyped :: bool

record VmtSlotEntry =
  MethodName :: bytes
  ImplementingType :: bytes

record SchemaDisc =
  DiscName :: bytes
  DiscValue :: int
  DiscTy :: shared

text \<open>
  The declaration of a record, as much of it as the layout reads: the fields of one denoter with the type it was
  resolved to, and the variant parts.  A pointer to a declaration is the declaration with its identity.
\<close>

type_synonym FieldGroup = "bytes list \<times> shared"

datatype RecCase = RecCase "FieldGroup list" "RecVariant option"
and RecVariant = RecVariant bytes "shared option" "RecCase list"

record RecordNode =
  NodeId :: nat
  NodeFields :: "FieldGroup list"
  NodeVariant :: "RecVariant option"
  NodePacked :: bool

record Type =
  TyKind :: TypeKind
  TyName :: bytes
  Width :: nat
  IsSigned :: bool
  IsLooseBool :: bool
  Anonymous :: bool
  EnumValues :: "bytes list"
  EnumDecl :: "nat option"
  StrCapacity :: int
  ExtentVaries :: bool
  SubBase :: shared
  SubLo :: int
  SubHi :: int
  RestrictedOf :: shared
  PointeeType :: shared
  IndexType :: shared
  ElemType :: shared
  TyPacked :: bool
  ArrayDecl :: "nat option"
  ConformantBounds :: "ConformantBound list"
  IsOpenArray :: bool
  RecordFields :: "Field list"
  RecordDecl :: "RecordNode option"
  TyParams :: "Param list"
  RetType :: shared
  TyParent :: shared
  VmtSlots :: "VmtSlotEntry list"
  SchemaName :: bytes
  SchemaDiscs :: "SchemaDisc list"
  SchemaBody :: shared
  SchemaBodyNode :: "nat option"

type_synonym Mem = "addr \<Rightarrow> Type"

definition newType :: Type where
  "newType = \<lparr>TyKind = TkError, TyName = [], Width = 64, IsSigned = True, IsLooseBool = False, Anonymous = False,
     EnumValues = [], EnumDecl = None, StrCapacity = 0, ExtentVaries = False, SubBase = None, SubLo = 0, SubHi = 0,
     RestrictedOf = None, PointeeType = None, IndexType = None, ElemType = None, TyPacked = False, ArrayDecl = None,
     ConformantBounds = [], IsOpenArray = False, RecordFields = [], RecordDecl = None, TyParams = [], RetType = None,
     TyParent = None, VmtSlots = [], SchemaName = [], SchemaDiscs = [], SchemaBody = None, SchemaBodyNode = None\<rparr>"

subsection \<open>The factories of the built-in types\<close>

text \<open>\<^verbatim>\<open>std::to_string\<close> of a signed value.\<close>

definition to_string_signed :: "int \<Rightarrow> bytes" where
  "to_string_signed v = (if v < 0 then CHR ''-'' # dec_digits (nat (- v)) else to_string v)"

definition makeInteger :: Type where "makeInteger = newType\<lparr>TyKind := TkInteger, TyName := ''integer''\<rparr>"
definition makeReal :: Type where "makeReal = newType\<lparr>TyKind := TkReal, TyName := ''real''\<rparr>"
definition makeComplex :: Type where "makeComplex = newType\<lparr>TyKind := TkComplex, TyName := ''complex''\<rparr>"
definition makeBoolean :: Type where
  "makeBoolean = newType\<lparr>TyKind := TkBoolean, TyName := ''boolean'', Width := 8, IsSigned := False\<rparr>"
definition makeChar :: Type where
  "makeChar = newType\<lparr>TyKind := TkChar, TyName := ''char'', Width := 8, IsSigned := False\<rparr>"
definition makeString :: Type where "makeString = newType\<lparr>TyKind := TkString, TyName := ''string''\<rparr>"
definition makeVarString :: "int \<Rightarrow> Type" where
  "makeVarString Cap = newType\<lparr>TyKind := TkVarString, TyName := ''string('' @ to_string_signed Cap @ '')'', StrCapacity := Cap\<rparr>"
definition makeShortString :: "int \<Rightarrow> Type" where
  "makeShortString Cap = newType\<lparr>TyKind := TkShortString, TyName := ''string['' @ to_string_signed Cap @ '']'', StrCapacity := Cap\<rparr>"
definition makeNil :: Type where "makeNil = newType\<lparr>TyKind := TkNil, TyName := ''nil''\<rparr>"
definition makeError :: Type where "makeError = newType\<lparr>TyKind := TkError, TyName := ''<error>''\<rparr>"

lemmas factories = makeInteger_def makeReal_def makeComplex_def makeBoolean_def makeChar_def makeString_def
  makeVarString_def makeShortString_def makeNil_def makeError_def newType_def

subsection \<open>Queries\<close>

definition isRestricted :: "Type \<Rightarrow> bool" where "isRestricted T \<longleftrightarrow> RestrictedOf T \<noteq> None"
definition isError :: "Type \<Rightarrow> bool" where "isError T \<longleftrightarrow> TyKind T = TkError"
definition isPredefinedText :: "Type \<Rightarrow> bool" where
  "isPredefinedText T \<longleftrightarrow> TyKind T = TkFile \<and> ElemType T = None \<and> TyName T = ''text''"
definition isOrdinal :: "Type \<Rightarrow> bool" where
  "isOrdinal T \<longleftrightarrow> TyKind T = TkInteger \<or> TyKind T = TkBoolean \<or> TyKind T = TkChar \<or> TyKind T = TkEnum \<or> TyKind T = TkSubrange"

fun isNumeric :: "nat \<Rightarrow> Mem \<Rightarrow> addr \<Rightarrow> bool option" where
  "isNumeric 0 H t = None"
| "isNumeric (Suc n) H t =
     (if TyKind (H t) = TkInteger \<or> TyKind (H t) = TkReal \<or> TyKind (H t) = TkComplex then Some True
      else case (TyKind (H t), SubBase (H t)) of (TkSubrange, Some b) \<Rightarrow> isNumeric n H b | _ \<Rightarrow> Some False)"

fun isIntegral :: "nat \<Rightarrow> Mem \<Rightarrow> addr \<Rightarrow> bool option" where
  "isIntegral 0 H t = None"
| "isIntegral (Suc n) H t =
     (if TyKind (H t) = TkInteger then Some True
      else case (TyKind (H t), SubBase (H t)) of (TkSubrange, Some b) \<Rightarrow> isIntegral n H b | _ \<Rightarrow> Some False)"

definition fieldByName :: "Type \<Rightarrow> bytes \<Rightarrow> Field option" where
  "fieldByName T N = find (\<lambda>F. eqCI (FieldName F) N) (RecordFields T)"

definition introducesVptr :: "Mem \<Rightarrow> Type \<Rightarrow> bool" where
  "introducesVptr H T \<longleftrightarrow> (case TyParent T of None \<Rightarrow> True | Some p \<Rightarrow> VmtSlots (H p) = []) \<and> VmtSlots T \<noteq> []"

definition isAnonymousNominal :: "Type \<Rightarrow> bool" where "isAnonymousNominal T = Anonymous T"

definition setBaseOffset :: "Type \<Rightarrow> int" where
  "setBaseOffset BaseTy = (if TyKind BaseTy = TkSubrange \<and> SubLo BaseTy < 0 then SubLo BaseTy else 0)"

definition setOffsetOf :: "Mem \<Rightarrow> Type \<Rightarrow> int" where
  "setOffsetOf H SetTy = (case ElemType SetTy of None \<Rightarrow> 0 | Some e \<Rightarrow> setBaseOffset (H e))"

definition isTextFile :: "Mem \<Rightarrow> Type \<Rightarrow> LangOptions \<Rightarrow> bool" where
  "isTextFile H T opts =
     (if TyKind T \<noteq> TkFile then False
      else case ElemType T of None \<Rightarrow> isPredefinedText T
      | Some e \<Rightarrow> if turbo opts then False else TyKind (H e) = TkChar)"

definition ordinalRange :: "Type \<Rightarrow> (int \<times> int) option" where
  "ordinalRange T = (case TyKind T of
     TkBoolean \<Rightarrow> if IsLooseBool T then None else Some (0, 1)
   | TkChar \<Rightarrow> Some (0, 255)
   | TkSubrange \<Rightarrow> Some (SubLo T, SubHi T)
   | TkEnum \<Rightarrow> if EnumValues T = [] then None else Some (0, int (length (EnumValues T)) - 1)
   | TkInteger \<Rightarrow>
       if Width T \<ge> 64 then None
       else if IsSigned T then (let Half = push_bit (Width T - 1) 1 in Some (- Half, Half - 1))
       else Some (0, push_bit (Width T) 1 - 1)
   | _ \<Rightarrow> None)"

definition ordinalBase :: "Mem \<Rightarrow> Type \<Rightarrow> Type" where
  "ordinalBase H T = (case (TyKind T, SubBase T) of (TkSubrange, Some b) \<Rightarrow> H b | _ \<Rightarrow> T)"

definition spellOrdinal :: "Mem \<Rightarrow> Type \<Rightarrow> int \<Rightarrow> bytes" where
  "spellOrdinal H T V = (let BaseTy = ordinalBase H T in case TyKind BaseTy of
     TkChar \<Rightarrow> if 32 \<le> V \<and> V < 127 then [CHR 0x27, char_of (nat V), CHR 0x27]
              else ''chr('' @ to_string_signed V @ '')''
   | TkEnum \<Rightarrow> if 0 \<le> V \<and> V < int (length (EnumValues BaseTy)) then EnumValues BaseTy ! nat V else to_string_signed V
   | TkBoolean \<Rightarrow> if V \<noteq> 0 then ''true'' else ''false''
   | _ \<Rightarrow> to_string_signed V)"

definition isCharStringType :: "Mem \<Rightarrow> Type \<Rightarrow> bool" where
  "isCharStringType H T \<longleftrightarrow> TyKind T = TkArray \<and> TyPacked T
     \<and> (case ElemType T of None \<Rightarrow> False | Some e \<Rightarrow> TyKind (H e) = TkChar)
     \<and> (case IndexType T of None \<Rightarrow> False | Some i \<Rightarrow> TyKind (H i) = TkSubrange \<and> SubLo (H i) = 1 \<and> SubHi (H i) > 1)"

definition charStringLength :: "Mem \<Rightarrow> Type \<Rightarrow> int" where
  "charStringLength H T = (if isCharStringType H T then case IndexType T of Some i \<Rightarrow> SubHi (H i) | None \<Rightarrow> 0 else 0)"

definition isCharPointerType :: "Mem \<Rightarrow> Type \<Rightarrow> bool" where
  "isCharPointerType H T \<longleftrightarrow> TyKind T = TkPointer \<and> (case PointeeType T of None \<Rightarrow> False | Some p \<Rightarrow> TyKind (H p) = TkChar)"

definition isCallable :: "Type \<Rightarrow> bool" where
  "isCallable T \<longleftrightarrow> TyKind T = TkProcedure \<or> TyKind T = TkFunction"

definition isStructuredForConstByRef :: "Type \<Rightarrow> bool" where
  "isStructuredForConstByRef T \<longleftrightarrow> TyKind T = TkRecord \<or> TyKind T = TkArray \<or> TyKind T = TkSet"

definition describeParam :: "Mem \<Rightarrow> Param \<Rightarrow> bytes" where
  "describeParam H P = (if ParamIsVar P then ''var '' else []) @ (if ParamIsConst P then ''const '' else [])
     @ (if IsUntyped P then ''untyped'' else case ParamTy P of Some t \<Rightarrow> TyName (H t) | None \<Rightarrow> ''?'')"

fun describeParams :: "Mem \<Rightarrow> Param list \<Rightarrow> bytes" where
  "describeParams H [] = []"
| "describeParams H [P] = describeParam H P"
| "describeParams H (P # Ps) = describeParam H P @ ''; '' @ describeParams H Ps"

definition describeCallable :: "Mem \<Rightarrow> Type \<Rightarrow> bytes" where
  "describeCallable H T = (if TyKind T = TkFunction then ''function('' else ''procedure('') @ describeParams H (TyParams T)
     @ '')'' @ (case RetType T of None \<Rightarrow> [] | Some r \<Rightarrow> '': '' @ TyName (H r))"

text \<open>Looking through schemas, sixteen steps at most.\<close>

fun schema_hops :: "nat \<Rightarrow> Mem \<Rightarrow> addr \<Rightarrow> addr" where
  "schema_hops 0 H t = t"
| "schema_hops (Suc n) H t =
     (if TyKind (H t) \<noteq> TkSchema \<and> TyKind (H t) \<noteq> TkSchemaInstance then t
      else case SchemaBody (H t) of None \<Rightarrow> t | Some b \<Rightarrow> schema_hops n H b)"

definition schemaUnderlying :: "Mem \<Rightarrow> addr \<Rightarrow> addr" where "schemaUnderlying H t = schema_hops 16 H t"

definition isVarStringLike :: "Mem \<Rightarrow> addr \<Rightarrow> bool" where
  "isVarStringLike H t \<longleftrightarrow> TyKind (H (schemaUnderlying H t)) = TkVarString"

definition isShortStringLike :: "Type \<Rightarrow> bool" where "isShortStringLike T \<longleftrightarrow> TyKind T = TkShortString"

subsection \<open>Containment by value\<close>

text \<open>Every type the recursive questions go on to from a type.  The domain of a pointer is not among them, nor the
  result of a callable type, which is compared by identity.\<close>

fun case_types :: "RecCase \<Rightarrow> addr list" and variant_types :: "RecVariant \<Rightarrow> addr list" where
  "case_types (RecCase fs None) = List.map_filter snd fs"
| "case_types (RecCase fs (Some v)) = List.map_filter snd fs @ variant_types v"
| "variant_types (RecVariant tag t cs) =
     (case t of Some (Some a) \<Rightarrow> [a] | _ \<Rightarrow> []) @ concat (map case_types cs)"

definition decl_types :: "RecordNode \<Rightarrow> addr list" where
  "decl_types d = List.map_filter snd (NodeFields d) @ (case NodeVariant d of None \<Rightarrow> [] | Some v \<Rightarrow> variant_types v)"

definition by_value :: "Type \<Rightarrow> addr list" where
  "by_value T = List.map_filter id [SubBase T, IndexType T, ElemType T, TyParent T, SchemaBody T]
     @ List.map_filter FieldTy (RecordFields T) @ (case RecordDecl T of None \<Rightarrow> [] | Some d \<Rightarrow> decl_types d)
     @ List.map_filter ParamTy (TyParams T) @ List.map_filter OrdType (ConformantBounds T)"

definition ranked :: "Mem \<Rightarrow> (addr \<Rightarrow> nat) \<Rightarrow> bool" where
  "ranked H r \<longleftrightarrow> (\<forall>a. \<forall>b\<in>set (by_value (H a)). r b < r a)"

lemma map_filter_set: "set (List.map_filter f xs) = {y. \<exists>x\<in>set xs. f x = Some y}"
  by (auto simp: List.map_filter_def image_iff) (metis option.sel)

lemma rankedD: "ranked H r \<Longrightarrow> b \<in> set (by_value (H a)) \<Longrightarrow> r b < r a"
  by (auto simp: ranked_def)

lemma by_value_intros [intro]:
  "SubBase T = Some b \<Longrightarrow> b \<in> set (by_value T)"
  "IndexType T = Some b \<Longrightarrow> b \<in> set (by_value T)"
  "ElemType T = Some b \<Longrightarrow> b \<in> set (by_value T)"
  "TyParent T = Some b \<Longrightarrow> b \<in> set (by_value T)"
  "SchemaBody T = Some b \<Longrightarrow> b \<in> set (by_value T)"
  "F \<in> set (RecordFields T) \<Longrightarrow> FieldTy F = Some b \<Longrightarrow> b \<in> set (by_value T)"
  "RecordDecl T = Some d \<Longrightarrow> b \<in> set (decl_types d) \<Longrightarrow> b \<in> set (by_value T)"
  "P \<in> set (TyParams T) \<Longrightarrow> ParamTy P = Some b \<Longrightarrow> b \<in> set (by_value T)"
  "C \<in> set (ConformantBounds T) \<Longrightarrow> OrdType C = Some b \<Longrightarrow> b \<in> set (by_value T)"
  by (auto simp: by_value_def map_filter_set simp del: List.map_filter_simps)

end
