(* ===== verification/Flow.thy ===== *)
theory Flow
  imports Ast_Walk Symbol_Table Sema_Types
begin

text \<open>
  The definite-assignment walk of the semantic analysis, \<^verbatim>\<open>lib/Sema/SemaFlow.cpp\<close>.  What is known at a point
  is the record \<open>FlowState\<close>; the members of \<^verbatim>\<open>Sema\<close> the walk reads and writes are the record \<open>Flow\<close>, with the
  warnings it gives.  What the walk takes from the rest of the analysis without changing it is \<open>flow_env\<close>: the
  dialect, the symbol table with the members of a symbol the walk asks for, what a type name was resolved to and
  the heading a forward procedure was declared with.

  A reference parameter of type \<^verbatim>\<open>FlowState&\<close> is passed in and returned.  Sets of names are sets of folded
  names.  The parameter \<open>low\<close> answers \<^verbatim>\<open>stackNearlyExhausted\<close>; see \<open>Ast_Walk\<close>.
\<close>

subsection \<open>What the walk takes from the analysis\<close>

text \<open>\<^verbatim>\<open>BuiltinID\<close>, with the rows of the table the walk does not ask for as one constructor.\<close>

datatype BuiltinID = BiNone | BiHalt | BiExit | BiBreak | BiContinue | BiRunError | BiOther bytes

fun builtinAlwaysTransfers :: "BuiltinID \<Rightarrow> bool" where
  "builtinAlwaysTransfers BiHalt = True"
| "builtinAlwaysTransfers BiExit = True"
| "builtinAlwaysTransfers BiBreak = True"
| "builtinAlwaysTransfers BiContinue = True"
| "builtinAlwaysTransfers BiRunError = True"
| "builtinAlwaysTransfers _ = False"

record flow_sym =
  SymIsBindable :: bool
  SymDeclType :: "TypeKind option"
  SymBuiltinKind :: BuiltinID
  SymParamIsVar :: "bool list"

record flow_env =
  EOpts :: LangOptions
  ESymtab :: "flow_sym SymbolTable"
  EDenotes :: "TypeNode \<Rightarrow> TypeNode option"
  EHeading :: "ProcDecl \<Rightarrow> ProcDecl"

datatype FlowDiag = warn_for_var_after_loop | warn_var_uninitialized | warn_result_not_always_set

record FlowState =
  Assigned :: "bytes set"
  UndefAfterFor :: "bytes set"
  ResultAssigned :: bool
  Dead :: bool

record Flow =
  FlowTracked :: "bytes set"
  FlowResultNames :: "bytes set"
  FlowReported :: "bytes set"
  FlowLoopBroke :: bool
  FlowResultMaybeUnset :: bool
  FlowDiags :: "(Token \<times> FlowDiag \<times> bytes list) list"

definition flow_warning :: "Token \<Rightarrow> FlowDiag \<Rightarrow> bytes list \<Rightarrow> Flow \<Rightarrow> Flow" where
  "flow_warning l d as F = F\<lparr>FlowDiags := FlowDiags F @ [(l, d, as)]\<rparr>"

subsection \<open>Accesses, types and names\<close>

fun rootVariable :: "nat list \<Rightarrow> 'l Expr \<Rightarrow> 'l node option" where
  "rootVariable p (IdentExpr l n) = Some (p, IdentExpr l n)"
| "rootVariable p (IndexExpr l a i) = rootVariable (p @ [0]) a"
| "rootVariable p (FieldExpr l r f) = rootVariable (p @ [0]) r"
| "rootVariable p (DerefExpr l q) = rootVariable (p @ [0]) q"
| "rootVariable p (SubstringExpr l s a b) = rootVariable (p @ [0]) s"
| "rootVariable p (TypeCastExpr l n e) = rootVariable (p @ [0]) e"
| "rootVariable p _ = None"

fun writesThroughDeref :: "'l Expr \<Rightarrow> bool" where
  "writesThroughDeref (DerefExpr l q) = True"
| "writesThroughDeref (IndexExpr l a i) = writesThroughDeref a"
| "writesThroughDeref (FieldExpr l r f) = writesThroughDeref r"
| "writesThroughDeref (SubstringExpr l s a b) = writesThroughDeref s"
| "writesThroughDeref (TypeCastExpr l n e) = writesThroughDeref e"
| "writesThroughDeref _ = False"

definition isSimpleValue :: "TypeKind option \<Rightarrow> bool" where
  "isSimpleValue T = (case T of None \<Rightarrow> False
     | Some k \<Rightarrow> k \<in> {TkInteger, TkReal, TkBoolean, TkChar, TkEnum, TkSubrange, TkPointer, TkComplex})"

text \<open>Whether the flow can be followed: the callback clears \<open>Ok\<close> at a goto or a label.\<close>

fun block_parts :: "BlockNode \<Rightarrow> bytes list \<times> VarGroup list \<times> ProcDecl list \<times> stmt option" where
  "block_parts (BlockNode l labels cs ts vs ps body) = (labels, vs, ps, body)"

fun is_jump :: "'l Stmt \<Rightarrow> bool" where
  "is_jump (GotoStmt l n) = True"
| "is_jump (LabeledStmt l n s) = True"
| "is_jump _ = False"

definition flowIsFollowable :: "(nat \<Rightarrow> bool) \<Rightarrow> BlockNode \<Rightarrow> bool" where
  "flowIsFollowable low Block = (case block_parts Block of (labels, vs, ps, body) \<Rightarrow>
     if labels \<noteq> [] then False
     else (case body of None \<Rightarrow> True | Some S \<Rightarrow> walkStmts low (\<lambda>S Ok. if is_jump S then False else Ok) 0 S True))"

text \<open>The names inside one statement, and those inside the procedures, the nested ones too.\<close>

definition insert_ident :: "'l node \<Rightarrow> bytes set \<Rightarrow> bytes set" where
  "insert_ident X Out = (case snd X of IdentExpr l n \<Rightarrow> insert (toLower n) Out | _ \<Rightarrow> Out)"

definition collect_stmt :: "(nat \<Rightarrow> bool) \<Rightarrow> 'l Stmt \<Rightarrow> bytes set \<Rightarrow> bytes set" where
  "collect_stmt low S Out =
     forEachStmtExpr S (\<lambda>E. walkExprs low insert_ident 0 ([], E))
       (case S of CallStmt l n as \<Rightarrow> insert (toLower n) Out | _ \<Rightarrow> Out)"

fun collectNamesUsedIn :: "(nat \<Rightarrow> bool) \<Rightarrow> ProcDecl list \<Rightarrow> bytes set \<Rightarrow> bytes set" where
  "collectNamesUsedIn low [] Out = Out"
| "collectNamesUsedIn low (ProcDecl h gs r None # Ps) Out = collectNamesUsedIn low Ps Out"
| "collectNamesUsedIn low (ProcDecl h gs r (Some (BlockNode l labels cs ts vs ps body)) # Ps) Out =
     (let Out1 = (case body of None \<Rightarrow> Out | Some S \<Rightarrow> walkStmts low (collect_stmt low) 0 S Out) in
      collectNamesUsedIn low Ps (collectNamesUsedIn low ps Out1))"

fun type_attrs :: "TypeNode \<Rightarrow> TypeAttrs" where
  "type_attrs (NamedTypeNode a n r) = a"
| "type_attrs (ArrayTypeNode a lo hi ix e pk) = a"
| "type_attrs (SubrangeTypeNode a lo hi) = a"
| "type_attrs (EnumTypeNode a vs) = a"
| "type_attrs (RecordTypeNode a fs v pk) = a"
| "type_attrs (SetTypeNode a b pk) = a"
| "type_attrs (FileTypeNode a e ix) = a"
| "type_attrs (PackedTypeNode a t) = a"
| "type_attrs (PointerTypeNode a t) = a"
| "type_attrs (StringTypeNode a c s) = a"
| "type_attrs (TypeOfNode a v) = a"
| "type_attrs (ConformantArrayTypeNode a ss e pk op) = a"
| "type_attrs (ProcedureTypeNode a fn ps r) = a"
| "type_attrs (SchemaTypeNode a n as) = a"
| "type_attrs (ObjectTypeNode a an ms) = a"

text \<open>At most so many hops from a type name to what it denotes.\<close>

fun written_loop :: "(TypeNode \<Rightarrow> TypeNode option) \<Rightarrow> nat \<Rightarrow> TypeNode \<Rightarrow> bool" where
  "written_loop denotes 0 TN = False"
| "written_loop denotes (Suc hops) TN =
     (if InitialState (type_attrs TN) \<noteq> None then True
      else (case TN of
              NamedTypeNode a n r \<Rightarrow>
                (case denotes TN of None \<Rightarrow> False
                 | Some D \<Rightarrow> if D = TN then False else written_loop denotes hops D)
            | _ \<Rightarrow> False))"

definition hasWrittenInitialState :: "flow_env \<Rightarrow> TypeNode \<Rightarrow> bool" where
  "hasWrittenInitialState E TN = written_loop (EDenotes E) 32 TN"

definition intersect :: "bytes set \<Rightarrow> bytes set \<Rightarrow> bytes set" where "intersect A B = A \<inter> B"

definition unite :: "bytes set \<Rightarrow> bytes set \<Rightarrow> bytes set" where "unite A B = A \<union> B"

definition mergeWith :: "FlowState \<Rightarrow> FlowState \<Rightarrow> FlowState" where
  "mergeWith this Other =
     (if Dead this \<and> \<not> Dead Other then Other
      else if Dead Other \<and> \<not> Dead this then this
      else \<lparr>Assigned = intersect (Assigned this) (Assigned Other),
            UndefAfterFor = unite (UndefAfterFor this) (UndefAfterFor Other),
            ResultAssigned = (ResultAssigned this \<and> ResultAssigned Other),
            Dead = (Dead this \<and> Dead Other)\<rparr>)"

subsection \<open>Reads and writes\<close>

text \<open>The nodes under an argument of \<open>SizeOf\<close>, \<open>High\<close> and \<open>Low\<close>, by address.\<close>

definition never_evaluates :: "bytes \<Rightarrow> bool" where
  "never_evaluates n \<longleftrightarrow> toLower n = ''sizeof'' \<or> toLower n = ''high'' \<or> toLower n = ''low''"

definition UnevaluatedOperands :: "(nat \<Rightarrow> bool) \<Rightarrow> 'l Expr \<Rightarrow> nat list set" where
  "UnevaluatedOperands low E =
     walkExprs low (\<lambda>X U. case snd X of
         CallExpr l n as \<Rightarrow>
           (if \<not> never_evaluates n then U
            else fold (walkExprs low (\<lambda>Y. insert (fst Y)) 0) (kids X) U)
       | _ \<Rightarrow> U) 0 ([], E) {}"

fun reads_root :: "'l Expr \<Rightarrow> bool" where
  "reads_root (IndexExpr l a i) = True"
| "reads_root (FieldExpr l r f) = True"
| "reads_root (DerefExpr l q) = True"
| "reads_root (SubstringExpr l s a b) = True"
| "reads_root (IdentExpr l n) = True"
| "reads_root _ = False"

text \<open>The callback of the read: the variable an access is of, and the report.\<close>

definition flow_read_node :: "FlowState \<Rightarrow> expr \<Rightarrow> Flow \<Rightarrow> Flow" where
  "flow_read_node St X F =
     (case (if reads_root X then rootVariable [] X else None) of
        Some (_, IdentExpr l n) \<Rightarrow>
          (let Key = toLower n in
           if Key \<notin> FlowTracked F then F
           else if Key \<in> Assigned St then F
           else if Key \<in> FlowReported F then F
           else (flow_warning l (if Key \<in> UndefAfterFor St then warn_for_var_after_loop else warn_var_uninitialized) [n] F)
                  \<lparr>FlowReported := insert Key (FlowReported F)\<rparr>)
      | _ \<Rightarrow> F)"

definition flowRead :: "(nat \<Rightarrow> bool) \<Rightarrow> expr \<Rightarrow> FlowState \<Rightarrow> Flow \<Rightarrow> Flow" where
  "flowRead low E St F =
     (let U = UnevaluatedOperands low E in
      walkExprs low (\<lambda>X F. if fst X \<in> U then F else flow_read_node St (snd X) F) 0 ([], E) F)"

definition flowWrite :: "(nat \<Rightarrow> bool) \<Rightarrow> expr \<Rightarrow> FlowState \<Rightarrow> Flow \<Rightarrow> FlowState \<times> Flow" where
  "flowWrite low E St F =
     (if writesThroughDeref E then (St, flowRead low E St F)
      else (case rootVariable [] E of
              Some (_, IdentExpr l n) \<Rightarrow>
                (let Key = toLower n in
                 if Key \<in> FlowResultNames F then (St\<lparr>ResultAssigned := True\<rparr>, F)
                 else if Key \<notin> FlowTracked F then (St, F)
                 else (St\<lparr>Assigned := insert Key (Assigned St), UndefAfterFor := UndefAfterFor St - {Key}\<rparr>, F))
            | _ \<Rightarrow> (St, F)))"

subsection \<open>The walk\<close>

text \<open>The variables a target is subscripted by: every identifier in it but the root.\<close>

definition flow_target :: "(nat \<Rightarrow> bool) \<Rightarrow> expr \<Rightarrow> FlowState \<Rightarrow> Flow \<Rightarrow> Flow" where
  "flow_target low T St F =
     (if is_IdentExpr T then F
      else (case rootVariable [] T of
              None \<Rightarrow> F
            | Some Root \<Rightarrow>
                (let F1 = walkExprs low (\<lambda>X F. if fst X = fst Root then F
                              else if \<not> is_IdentExpr (snd X) then F
                              else flowRead (\<lambda>k. low (length (fst X) + k)) (snd X) St F) 0 ([], T) F in
                 if writesThroughDeref T then flowRead low (snd Root) St F1 else F1)))"

definition builtinAssigns :: "bytes \<Rightarrow> nat \<Rightarrow> bool" where
  "builtinAssigns Lo I =
     (if Lo = ''read'' \<or> Lo = ''readln'' then True
      else if Lo = ''new'' then I = 0
      else if Lo = ''readstr'' then I \<ge> 1
      else if Lo = ''delete'' \<or> Lo = ''setlength'' then I = 0
      else if Lo = ''insert'' \<or> Lo = ''str'' then I = 1
      else if Lo = ''val'' then I = 1 \<or> I = 2
      else if Lo = ''blockread'' \<or> Lo = ''blockwrite'' then I = 3
      else if Lo = ''getmem'' then I = 0
      else False)"

definition callee_builtin :: "flow_env \<Rightarrow> bytes \<Rightarrow> BuiltinID option" where
  "callee_builtin E n = (case lookup n (ESymtab E) of
     Some Callee \<Rightarrow> if SymKind Callee = SkBuiltin then Some (SymBuiltinKind (SymRest Callee)) else None
   | None \<Rightarrow> None)"

definition passes_by_ref :: "flow_env \<Rightarrow> bytes \<Rightarrow> nat \<Rightarrow> bool" where
  "passes_by_ref E n I =
     (if callee_builtin E n \<noteq> None then builtinAssigns (toLower n) I
      else (case lookup n (ESymtab E) of
              Some Callee \<Rightarrow> if I < length (SymParamIsVar (SymRest Callee)) then SymParamIsVar (SymRest Callee) ! I else True
            | None \<Rightarrow> True))"

fun flow_args :: "flow_env \<Rightarrow> (nat \<Rightarrow> bool) \<Rightarrow> bytes \<Rightarrow> nat \<Rightarrow> expr list \<Rightarrow> FlowState \<Rightarrow> Flow \<Rightarrow> FlowState \<times> Flow" where
  "flow_args E low n I [] St F = (St, F)"
| "flow_args E low n I (A # As) St F =
     (case (if passes_by_ref E n I then flowWrite low A St F else (St, flowRead low A St F)) of
        (St1, F1) \<Rightarrow> flow_args E low n (Suc I) As St1 F1)"

definition flow_transfer :: "BuiltinID \<Rightarrow> FlowState \<Rightarrow> Flow \<Rightarrow> FlowState \<times> Flow" where
  "flow_transfer B St F =
     (if builtinAlwaysTransfers B then
        (St\<lparr>Dead := True\<rparr>,
         (case B of
            BiBreak \<Rightarrow> F\<lparr>FlowLoopBroke := True\<rparr>
          | BiContinue \<Rightarrow> F
          | _ \<Rightarrow> if FlowResultNames F \<noteq> {} \<and> \<not> ResultAssigned St then F\<lparr>FlowResultMaybeUnset := True\<rparr> else F))
      else (St, F))"

definition flow_call :: "flow_env \<Rightarrow> (nat \<Rightarrow> bool) \<Rightarrow> bytes \<Rightarrow> expr list \<Rightarrow> FlowState \<Rightarrow> Flow \<Rightarrow> FlowState \<times> Flow" where
  "flow_call E low n As St F =
     (case (callee_builtin E n, As) of
        (Some BiExit, A # _) \<Rightarrow>
          (St\<lparr>ResultAssigned := True, Dead := True\<rparr>, flowRead low A St F)
      | (B, _) \<Rightarrow>
          (case flow_args E low n 0 As St F of
             (St1, F1) \<Rightarrow> (case B of None \<Rightarrow> (St1, F1) | Some b \<Rightarrow> flow_transfer b St1 F1)))"

text \<open>What a for-statement starts its body with and leaves behind it.\<close>

definition enter_for :: "bytes \<Rightarrow> FlowState \<Rightarrow> FlowState" where
  "enter_for Key St = St\<lparr>Assigned := insert Key (Assigned St), UndefAfterFor := UndefAfterFor St - {Key}\<rparr>"

definition leave_for :: "bool \<Rightarrow> bytes \<Rightarrow> FlowState \<Rightarrow> FlowState \<Rightarrow> Flow \<Rightarrow> FlowState" where
  "leave_for kept Key St Body F =
     (let U = unite (UndefAfterFor St) (UndefAfterFor Body) in
      if kept \<and> Key \<in> FlowTracked F
      then St\<lparr>Assigned := insert Key (Assigned St), UndefAfterFor := U - {Key}\<rparr>
      else St\<lparr>Assigned := Assigned St - {Key},
              UndefAfterFor := (if Key \<in> FlowTracked F then insert Key U else U)\<rparr>)"

definition take_branch :: "FlowState \<Rightarrow> FlowState option \<Rightarrow> FlowState option" where
  "take_branch Br Merged = (case Merged of Some M \<Rightarrow> Some (mergeWith M Br) | None \<Rightarrow> Some Br)"

abbreviation (input) deeper :: "(nat \<Rightarrow> bool) \<Rightarrow> nat \<Rightarrow> bool" where
  "deeper low \<equiv> (\<lambda>k. low (Suc k))"

fun flowStmt :: "flow_env \<Rightarrow> (nat \<Rightarrow> bool) \<Rightarrow> stmt \<Rightarrow> FlowState \<Rightarrow> Flow \<Rightarrow> FlowState \<times> Flow"
and flowPtr :: "flow_env \<Rightarrow> (nat \<Rightarrow> bool) \<Rightarrow> stmt option \<Rightarrow> FlowState \<Rightarrow> Flow \<Rightarrow> FlowState \<times> Flow"
and flowSeq :: "flow_env \<Rightarrow> (nat \<Rightarrow> bool) \<Rightarrow> stmt list \<Rightarrow> FlowState \<Rightarrow> Flow \<Rightarrow> FlowState \<times> Flow"
and flowArms :: "flow_env \<Rightarrow> (nat \<Rightarrow> bool) \<Rightarrow> Token CaseArm list \<Rightarrow> FlowState \<Rightarrow> FlowState option \<Rightarrow> Flow \<Rightarrow> FlowState option \<times> Flow"
where
  "flowStmt E low (CompoundStmt l ss) St F = flowSeq E (deeper low) ss St F"
| "flowStmt E low (AssignStmt l T V) St F =
     flowWrite low T St (flow_target low T St (flowRead low V St F))"
| "flowStmt E low (CallStmt l n As) St F = flow_call E low n As St F"
| "flowStmt E low (IfStmt l C T e) St F =
     (case flowPtr E (deeper low) T St (flowRead low C St F) of (Then, F1) \<Rightarrow>
      case flowPtr E (deeper low) e St F1 of (Else, F2) \<Rightarrow> (mergeWith Then Else, F2))"
| "flowStmt E low (WhileStmt l C B) St F =
     (let F0 = flowRead low C St F in
      case flowPtr E (deeper low) B St (F0\<lparr>FlowLoopBroke := False\<rparr>) of (Body, F1) \<Rightarrow>
      (St\<lparr>UndefAfterFor := unite (UndefAfterFor St) (UndefAfterFor Body)\<rparr>, F1\<lparr>FlowLoopBroke := FlowLoopBroke F0\<rparr>))"
| "flowStmt E low (RepeatStmt l ss C) St F =
     (case flowSeq E (deeper low) ss St (F\<lparr>FlowLoopBroke := False\<rparr>) of (St1, F1) \<Rightarrow>
      (St1\<lparr>Dead := Dead St\<rparr>, (flowRead low C St1 F1)\<lparr>FlowLoopBroke := FlowLoopBroke F\<rparr>))"
| "flowStmt E low (ForStmt l V A B d S) St F =
     (let Key = toLower V;
          F0 = flowRead low B St (flowRead low A St F) in
      case flowPtr E (deeper low) S (enter_for Key St) (F0\<lparr>FlowLoopBroke := False\<rparr>) of (Body, F1) \<Rightarrow>
      (leave_for (FlowLoopBroke F1 \<or> turbo (EOpts E)) Key St Body F1, F1\<lparr>FlowLoopBroke := FlowLoopBroke F0\<rparr>))"
| "flowStmt E low (ForInStmt l V X S) St F =
     (let Key = toLower V;
          F0 = flowRead low X St F in
      case flowPtr E (deeper low) S (enter_for Key St) (F0\<lparr>FlowLoopBroke := False\<rparr>) of (Body, F1) \<Rightarrow>
      (leave_for (FlowLoopBroke F1) Key St Body F1, F1\<lparr>FlowLoopBroke := FlowLoopBroke F0\<rparr>))"
| "flowStmt E low (CaseStmt l X Arms e HasElse) St F =
     (case flowArms E (deeper low) Arms St None (flowRead low X St F) of (Merged, F1) \<Rightarrow>
      case (if HasElse then (case flowPtr E (deeper low) e St F1 of (Br, F2) \<Rightarrow> (take_branch Br Merged, F2))
            else if turbo (EOpts E) then (take_branch St Merged, F1)
            else (Merged, F1)) of (Merged2, F2) \<Rightarrow>
      (case Merged2 of Some M \<Rightarrow> M | None \<Rightarrow> St, F2))"
| "flowStmt E low (WithStmt l Rs S) St F =
     flowPtr E (deeper low) S St (fold (\<lambda>R. flowRead low R St) Rs F)"
| "flowStmt E low _ St F = (St, F)"
| "flowPtr E low None St F = (St, F)"
| "flowPtr E low (Some S) St F = flowStmt E low S St F"
| "flowSeq E low [] St F = (St, F)"
| "flowSeq E low (S # ss) St F = (case flowStmt E low S St F of (St1, F1) \<Rightarrow> flowSeq E low ss St1 F1)"
| "flowArms E low [] St Merged F = (Merged, F)"
| "flowArms E low (CaseArm ls S # Arms) St Merged F =
     (case flowPtr E low S St F of (Br, F1) \<Rightarrow> flowArms E low Arms St (take_branch Br Merged) F1)"

subsection \<open>The entry point\<close>

text \<open>
  The members of \<^verbatim>\<open>Sema\<close> the entry point reads: the procedure being checked, whether a frame is on the
  function stack and has its result, and whether an error was reported before.
\<close>

record flow_site =
  CurrentProc :: "ProcDecl option"
  ResultFrame :: "bool option"
  HasErrors :: bool

definition tracks :: "flow_env \<Rightarrow> bytes set \<Rightarrow> VarGroup \<Rightarrow> bytes \<Rightarrow> bool" where
  "tracks E Hidden Vg Nm \<longleftrightarrow> toLower Nm \<notin> Hidden
     \<and> (case lookup Nm (ESymtab E) of
          None \<Rightarrow> False
        | Some Sym \<Rightarrow> SymKind Sym = SkVar \<and> \<not> SymIsBindable (SymRest Sym) \<and> AbsoluteExpr Vg = None
            \<and> isSimpleValue (SymDeclType (SymRest Sym)))"

text \<open>The two sets the loop over the variable groups fills: the tracked names and those with a value already.\<close>

fun track_names :: "flow_env \<Rightarrow> bytes set \<Rightarrow> VarGroup \<Rightarrow> bytes list \<Rightarrow> bytes set \<times> bytes set \<Rightarrow> bytes set \<times> bytes set" where
  "track_names E Hidden Vg [] TP = TP"
| "track_names E Hidden Vg (Nm # Nms) (T, P) =
     (if \<not> tracks E Hidden Vg Nm then track_names E Hidden Vg Nms (T, P)
      else track_names E Hidden Vg Nms (insert (toLower Nm) T,
             if InitExpr Vg \<noteq> None \<or> hasWrittenInitialState E (VarType Vg) then insert (toLower Nm) P else P))"

definition track_vars :: "flow_env \<Rightarrow> bytes set \<Rightarrow> VarGroup list \<Rightarrow> bytes set \<times> bytes set" where
  "track_vars E Hidden Vs = fold (\<lambda>Vg. track_names E Hidden Vg (VarGroupNames Vg)) Vs ({}, {})"

fun proc_head :: "ProcDecl \<Rightarrow> ProcHead" where "proc_head (ProcDecl h gs r b) = h"
fun proc_body :: "ProcDecl \<Rightarrow> BlockNode option" where "proc_body (ProcDecl h gs r b) = b"

definition result_names :: "flow_env \<Rightarrow> ProcDecl \<Rightarrow> bytes set" where
  "result_names E P =
     (let RN = ResultName (proc_head (EHeading E P)) in
      insert (toLower (ProcName (proc_head P))) (if RN = [] then {} else {toLower RN}))"

text \<open>The names of the result when the block is the body of a function whose result no nested procedure names.\<close>

definition flow_results :: "flow_env \<Rightarrow> bytes set \<Rightarrow> flow_site \<Rightarrow> BlockNode \<Rightarrow> (ProcDecl \<times> bytes set) option" where
  "flow_results E Hidden site Block =
     (case CurrentProc site of
        None \<Rightarrow> None
      | Some P \<Rightarrow>
          if IsFunction (proc_head (EHeading E P)) \<and> proc_body P = Some Block \<and> result_names E P \<inter> Hidden = {}
          then Some (P, result_names E P) else None)"

definition initialFlowState :: "bytes set \<Rightarrow> FlowState" where
  "initialFlowState Pre = \<lparr>Assigned = Pre, UndefAfterFor = {}, ResultAssigned = False, Dead = False\<rparr>"

definition checkDefiniteAssignment :: "flow_env \<Rightarrow> (nat \<Rightarrow> bool) \<Rightarrow> flow_site \<Rightarrow> BlockNode \<Rightarrow> Flow \<Rightarrow> Flow" where
  "checkDefiniteAssignment E low site Block F =
     (case block_parts Block of (labels, Vs, Ps, BlockBody) \<Rightarrow>
      case BlockBody of
        None \<Rightarrow> F
      | Some Body \<Rightarrow>
          if HasErrors site then F
          else if \<not> flowIsFollowable low Block then F
          else
            (let Hidden = collectNamesUsedIn low Ps {};
                 Func = flow_results E Hidden site Block;
                 Names = (case Func of None \<Rightarrow> {} | Some (P, ns) \<Rightarrow> ns) in
             case track_vars E Hidden Vs of (Tracked, PreAssigned) \<Rightarrow>
             let F0 = F\<lparr>FlowTracked := Tracked, FlowResultNames := Names, FlowReported := {}, FlowResultMaybeUnset := False\<rparr>;
                 F2 = (if Tracked \<noteq> {} \<or> Func \<noteq> None
                       then (case flowStmt E low Body (initialFlowState PreAssigned) F0 of (St, F1) \<Rightarrow>
                             case Func of
                               None \<Rightarrow> F1
                             | Some (P, ns) \<Rightarrow>
                                 if (\<not> ResultAssigned St \<or> FlowResultMaybeUnset F1) \<and> ResultFrame site = Some True
                                 then flow_warning (ProcLoc (proc_head P)) warn_result_not_always_set [ProcName (proc_head P)] F1
                                 else F1)
                       else F0) in
             F2\<lparr>FlowTracked := FlowTracked F, FlowResultNames := FlowResultNames F, FlowReported := FlowReported F,
                FlowResultMaybeUnset := FlowResultMaybeUnset F\<rparr>))"

end
