(* ===== verification/Flow_Paths.thy ===== *)
theory Flow_Paths
  imports Flow
begin

text \<open>
  What the definite-assignment walk is about: the paths through a statement, as the traces of what happens to
  variables along them.  \<open>Get\<close> is a read, \<open>Put\<close> an assignment or a pass as a variable parameter, \<open>Step\<close> the
  value a for-statement gives its control variable before an iteration, \<open>Lose\<close> what ISO 7185 6.8.3.9 does to
  the control variable when the for-statement ends, and \<open>Give\<close> the value \<open>Exit\<close> gives the function it leaves.  Which
  branch is taken and how often a loop runs is left open, so the paths form regular languages over these events, one
  for every way a statement may end: \<open>Done\<close> at its end, \<open>Gone\<close> by \<open>Exit\<close>, \<open>Halt\<close> or \<open>RunError\<close>, \<open>Broke\<close> and \<open>Again\<close>
  by \<open>Break\<close> and \<open>Continue\<close>.  Events go by names, as the walk does: a field named in the body of a with-statement is
  taken for a variable of that name.

  A path is judged one variable at a time: \<open>holds\<close> says whether the variable has a value at the end, \<open>bad\<close>
  whether it is read without one on the way.  \<open>must\<close> and \<open>may\<close> are the same over all paths and over some path.
\<close>

subsection \<open>The variables an expression reads\<close>

text \<open>
  Every identifier of the expression is read, except under an argument of \<open>SizeOf\<close>, \<open>High\<close> or \<open>Low\<close>,
  which is never evaluated.
\<close>

fun is_unevaluating :: "'l Expr \<Rightarrow> bool" where
  "is_unevaluating (CallExpr l n as) = never_evaluates n"
| "is_unevaluating _ = False"

fun own_read :: "'l Expr \<Rightarrow> bytes list" where
  "own_read (IdentExpr l n) = [toLower n]"
| "own_read _ = []"

function reads :: "'l Expr \<Rightarrow> bytes list" where
  "reads e = own_read e @ (if is_unevaluating e then [] else concat (map reads (expr_children e)))"
  by pat_completeness auto
termination by (relation "measure size") (auto dest: size_expr_children)

declare reads.simps [simp del]

lemma reads_access [simp]:
  "reads (IdentExpr l n) = [toLower n]"
  "reads (IndexExpr l a i) = reads a @ reads i" "reads (FieldExpr l a f) = reads a" "reads (DerefExpr l a) = reads a"
  "reads (SubstringExpr l a b c) = reads a @ reads b @ reads c" "reads (TypeCastExpr l f a) = reads a"
  by (subst reads.simps; simp)+

text \<open>The variables the subscripts of a target read; the variable the target is of is not among them.\<close>

fun target_reads :: "'l Expr \<Rightarrow> bytes list" where
  "target_reads (IndexExpr l a i) = target_reads a @ reads i"
| "target_reads (FieldExpr l r f) = target_reads r"
| "target_reads (DerefExpr l q) = target_reads q"
| "target_reads (SubstringExpr l s a b) = target_reads s @ reads a @ reads b"
| "target_reads (TypeCastExpr l n e) = target_reads e"
| "target_reads _ = []"

subsection \<open>Traces\<close>

datatype event = Get bytes | Put bytes | Step bytes | Lose bytes | Give

fun after :: "bytes \<Rightarrow> event \<Rightarrow> bool \<Rightarrow> bool" where
  "after k (Get j) b = b"
| "after k (Put j) b = (j = k \<or> b)"
| "after k (Step j) b = (j = k \<or> b)"
| "after k (Lose j) b = (j \<noteq> k \<and> b)"
| "after k Give b = b"

fun holds :: "bytes \<Rightarrow> bool \<Rightarrow> event list \<Rightarrow> bool" where
  "holds k b [] = b"
| "holds k b (e # t) = holds k (after k e b) t"

fun bad :: "bytes \<Rightarrow> bool \<Rightarrow> event list \<Rightarrow> bool" where
  "bad k b [] = False"
| "bad k b (e # t) = (e = Get k \<and> \<not> b \<or> bad k (after k e b) t)"

lemma holds_append [simp]: "holds k b (x @ y) = holds k (holds k b x) y"
  by (induction x arbitrary: b) simp_all

lemma bad_append [simp]: "bad k b (x @ y) \<longleftrightarrow> bad k b x \<or> bad k (holds k b x) y"
  by (induction x arbitrary: b) simp_all

lemma after_mono: "b \<longrightarrow> c \<Longrightarrow> after k e b \<longrightarrow> after k e c"
  by (cases e) auto

lemma holds_mono: "b \<longrightarrow> c \<Longrightarrow> holds k b t \<Longrightarrow> holds k c t"
proof (induction t arbitrary: b c)
  case (Cons e t)
  then show ?case using Cons.IH [OF after_mono [of b c k e]] by simp
qed simp

lemma bad_antimono: "c \<longrightarrow> b \<Longrightarrow> bad k b t \<Longrightarrow> bad k c t"
proof (induction t arbitrary: b c)
  case (Cons e t)
  then show ?case using Cons.IH [OF after_mono [of c b k e]] by auto
qed simp

lemma holds_Gets [simp]: "holds k b (map Get ks) = b"
  by (induction ks) simp_all

lemma bad_Gets [simp]: "bad k b (map Get ks) \<longleftrightarrow> k \<in> set ks \<and> \<not> b"
  by (induction ks) auto

lemma after_True [simp]: "after k e True \<longleftrightarrow> e \<noteq> Lose k"
  by (cases e) auto

lemma holds_kept: "Lose k \<notin> set t \<Longrightarrow> holds k True t"
  by (induction t) auto

subsection \<open>Languages of traces\<close>

type_synonym lang = "event list set"

definition conc :: "lang \<Rightarrow> lang \<Rightarrow> lang" where
  "conc A B = {x @ y | x y. x \<in> A \<and> y \<in> B}"

inductive_set star :: "lang \<Rightarrow> lang" for A where
  star_nil: "[] \<in> star A"
| star_app: "x \<in> A \<Longrightarrow> y \<in> star A \<Longrightarrow> x @ y \<in> star A"

lemma conc_nonempty [simp]: "conc A B = {} \<longleftrightarrow> A = {} \<or> B = {}"
  by (auto simp: conc_def)

lemma star_nonempty [simp]: "star A \<noteq> {}"
  using star_nil by blast

lemma star_once: "x \<in> A \<Longrightarrow> x \<in> star A"
  using star_app [OF _ star_nil, of x A] by simp

definition must :: "bytes \<Rightarrow> bool \<Rightarrow> lang \<Rightarrow> bool" where
  "must k b L \<longleftrightarrow> (\<forall>t\<in>L. holds k b t)"

definition may :: "bytes \<Rightarrow> bool \<Rightarrow> lang \<Rightarrow> bool" where
  "may k b L \<longleftrightarrow> (\<exists>t\<in>L. bad k b t)"

text \<open>A path gives a function its result by an assignment to one of the names of the result or by \<open>Exit\<close>.\<close>

definition gives :: "bytes set \<Rightarrow> event list \<Rightarrow> bool" where
  "gives ns t \<longleftrightarrow> Give \<in> set t \<or> (\<exists>k\<in>ns. Put k \<in> set t)"

definition sets_one :: "bytes set \<Rightarrow> lang \<Rightarrow> bool" where
  "sets_one ns L \<longleftrightarrow> (\<forall>t\<in>L. gives ns t)"

definition keeps_all :: "bytes \<Rightarrow> lang \<Rightarrow> bool" where
  "keeps_all k L \<longleftrightarrow> (\<forall>t\<in>L. Lose k \<notin> set t)"

lemma conc_ball: "(\<forall>t\<in>conc A B. P t) \<longleftrightarrow> (\<forall>x\<in>A. \<forall>y\<in>B. P (x @ y))"
  unfolding conc_def by blast

lemma must_conc:
  assumes "A \<noteq> {}"
  shows "must k b (conc A B) \<longleftrightarrow> must k (must k b A) B"
proof
  obtain x where x: "x \<in> A" "holds k b x \<longrightarrow> must k b A" using assms by (auto simp: must_def)
  assume "must k b (conc A B)"
  then have "holds k (holds k b x) y" if "y \<in> B" for y using that x(1) by (simp add: must_def conc_ball)
  then show "must k (must k b A) B" using holds_mono [OF x(2)] by (auto simp: must_def [of k _ B])
next
  assume "must k (must k b A) B"
  moreover have "must k b A \<longrightarrow> holds k b x" if "x \<in> A" for x using that by (simp add: must_def)
  ultimately have "holds k (holds k b x) y" if "x \<in> A" "y \<in> B" for x y
    using that holds_mono [of "must k b A" "holds k b x"] by (auto simp: must_def [of k _ B])
  then show "must k b (conc A B)" by (simp add: must_def conc_ball)
qed

lemma may_conc:
  assumes "A \<noteq> {}" "B \<noteq> {}"
  shows "may k b (conc A B) \<longleftrightarrow> may k b A \<or> may k (must k b A) B"
proof
  assume "may k b (conc A B)"
  then obtain x y where xy: "x \<in> A" "y \<in> B" "bad k b x \<or> bad k (holds k b x) y" by (auto simp: may_def conc_def)
  moreover have "must k b A \<longrightarrow> holds k b x" using xy(1) by (simp add: must_def)
  ultimately have "bad k b x \<or> bad k (must k b A) y" using bad_antimono [of "must k b A" "holds k b x"] by blast
  then show "may k b A \<or> may k (must k b A) B" using xy by (auto simp: may_def)
next
  obtain x where x: "x \<in> A" "holds k b x \<longrightarrow> must k b A" using assms(1) by (auto simp: must_def)
  assume "may k b A \<or> may k (must k b A) B"
  then consider t where "t \<in> A" "bad k b t" | t where "t \<in> B" "bad k (must k b A) t" by (auto simp: may_def)
  then show "may k b (conc A B)"
  proof cases
    case 1
    then show ?thesis using assms(2) unfolding may_def conc_def by fastforce
  next
    case 2
    then have "bad k (holds k b x) t" using bad_antimono [OF x(2)] by blast
    then show ?thesis using x(1) 2(1) unfolding may_def conc_def by fastforce
  qed
qed

lemma gives_simps [simp]:
  "\<not> gives ns []" "gives ns (x @ y) \<longleftrightarrow> gives ns x \<or> gives ns y" "\<not> gives ns (map Get ks)"
  "gives ns (Give # t)" "gives ns (Put k # t) \<longleftrightarrow> k \<in> ns \<or> gives ns t" "gives ns (Get k # t) \<longleftrightarrow> gives ns t"
  "gives ns (Step k # t) \<longleftrightarrow> gives ns t" "gives ns (Lose k # t) \<longleftrightarrow> gives ns t"
  by (auto simp: gives_def)

lemma sets_one_empty [simp]: "sets_one ns {}"
  by (simp add: sets_one_def)

lemma sets_one_conc:
  assumes "A \<noteq> {}"
  shows "sets_one ns (conc A B) \<longleftrightarrow> sets_one ns A \<or> sets_one ns B"
  using assms unfolding sets_one_def conc_ball by auto

lemma keeps_all_conc [simp]: "keeps_all k A \<Longrightarrow> keeps_all k B \<Longrightarrow> keeps_all k (conc A B)"
  by (auto simp: keeps_all_def conc_def)

lemma keeps_all_star [simp]: "keeps_all k A \<Longrightarrow> keeps_all k (star A)"
proof -
  assume A: "keeps_all k A"
  have "Lose k \<notin> set t" if "t \<in> star A" for t
    using that A by (induction t rule: star.induct) (auto simp: keeps_all_def)
  then show ?thesis by (simp add: keeps_all_def)
qed

lemma keeps_all_Un [simp]: "keeps_all k (A \<union> B) \<longleftrightarrow> keeps_all k A \<and> keeps_all k B"
  by (auto simp: keeps_all_def)

lemma must_Un [simp]: "must k b (A \<union> B) \<longleftrightarrow> must k b A \<and> must k b B"
  by (auto simp: must_def)

lemma may_Un [simp]: "may k b (A \<union> B) \<longleftrightarrow> may k b A \<or> may k b B"
  by (auto simp: may_def)

lemma sets_one_Un [simp]: "sets_one ns (A \<union> B) \<longleftrightarrow> sets_one ns A \<and> sets_one ns B"
  by (auto simp: sets_one_def)

lemma must_kept: "keeps_all k A \<Longrightarrow> must k True A"
  by (auto simp: must_def keeps_all_def intro: holds_kept)

lemma must_star: "must k b (star A) \<Longrightarrow> b"
  unfolding must_def by (drule bspec [OF _ star_nil]) simp

lemma must_star_kept: "keeps_all k A \<Longrightarrow> must k b (star A) \<longleftrightarrow> b"
  using must_star [of k b A] must_kept [of k "star A"] by (cases b) auto

lemma may_star_once: "may k b A \<Longrightarrow> may k b (star A)"
  by (auto simp: may_def intro: star_once)

lemma may_star_kept:
  assumes "keeps_all k A"
  shows "may k b (star A) \<longleftrightarrow> may k b A"
proof
  have "bad k c t \<Longrightarrow> (b \<longrightarrow> c) \<Longrightarrow> may k b A" if "t \<in> star A" for t c
    using that
  proof (induction t arbitrary: c rule: star.induct)
    case (star_app x y)
    have "c \<longrightarrow> holds k c x" using holds_kept assms star_app(1) by (auto simp: keeps_all_def)
    then show ?case using star_app bad_antimono [of b c k x] by (auto simp: may_def)
  qed simp
  then show "may k b (star A) \<Longrightarrow> may k b A" by (auto simp: may_def)
qed (rule may_star_once)

lemma sets_one_star [simp]: "\<not> sets_one ns (star A)"
  using star_nil by (force simp: sets_one_def)

lemma conc_laws [simp]:
  "conc {} B = {}" "conc A {} = {}" "conc {[]} B = B" "conc A {[]} = A" "conc {x} {y} = {x @ y}"
  by (auto simp: conc_def)

lemma conc_Un: "conc (A \<union> B) C = conc A C \<union> conc B C" "conc A (B \<union> C) = conc A B \<union> conc A C"
  by (auto simp: conc_def)

lemma conc_UN: "conc A (\<Union>e\<in>I. f e) = (\<Union>e\<in>I. conc A (f e))"
  by (auto simp: conc_def)

lemma lang_insert [simp]:
  "must k b (insert t L) \<longleftrightarrow> holds k b t \<and> must k b L" "may k b (insert t L) \<longleftrightarrow> bad k b t \<or> may k b L"
  "sets_one ns (insert t L) \<longleftrightarrow> gives ns t \<and> sets_one ns L" "keeps_all k (insert t L) \<longleftrightarrow> Lose k \<notin> set t \<and> keeps_all k L"
  by (simp_all add: must_def may_def sets_one_def keeps_all_def)

lemma lang_empty [simp]: "must k b {}" "\<not> may k b {}" "keeps_all k {}"
  by (simp_all add: must_def may_def keeps_all_def)

subsection \<open>The ways a statement may end\<close>

datatype ending = Done | Gone | Broke | Again

type_synonym ways = "ending \<Rightarrow> lang"

definition ends :: "ending \<Rightarrow> lang \<Rightarrow> ways" where
  "ends e L = (\<lambda>e'. if e' = e then L else {})"

definition either :: "ways \<Rightarrow> ways \<Rightarrow> ways" where
  "either A B = (\<lambda>e. A e \<union> B e)"

definition andthen :: "ways \<Rightarrow> ways \<Rightarrow> ways" where
  "andthen A B = (\<lambda>e. (if e = Done then {} else A e) \<union> conc (A Done) (B e))"

text \<open>In a loop \<open>Continue\<close> goes on behind the body and \<open>Break\<close> behind the loop.\<close>

definition again :: "ways \<Rightarrow> ways" where
  "again A = (\<lambda>e. case e of Done \<Rightarrow> A Done \<union> A Again | Again \<Rightarrow> {} | _ \<Rightarrow> A e)"

definition iter :: "ways \<Rightarrow> event list \<Rightarrow> ways" where
  "iter A fin = (\<lambda>e. conc (star (A Done)) (if e = Done then {fin} else A e))"

definition caught :: "ways \<Rightarrow> ways" where
  "caught A = (\<lambda>e. case e of Done \<Rightarrow> A Done \<union> A Broke | Broke \<Rightarrow> {} | _ \<Rightarrow> A e)"

text \<open>All paths, and those that do not get to the end.\<close>

definition every :: "ways \<Rightarrow> lang" where "every A = A Done \<union> A Gone \<union> A Broke \<union> A Again"
definition elsewhere :: "ways \<Rightarrow> lang" where "elsewhere A = A Gone \<union> A Broke \<union> A Again"

lemma ways_at [simp]:
  "ends e L e = L" "e' \<noteq> e \<Longrightarrow> ends e L e' = {}"
  "either A B Done = A Done \<union> B Done" "either A B Gone = A Gone \<union> B Gone" "either A B Broke = A Broke \<union> B Broke"
  "either A B Again = A Again \<union> B Again"
  "andthen A B Done = conc (A Done) (B Done)" "e \<noteq> Done \<Longrightarrow> andthen A B e = A e \<union> conc (A Done) (B e)"
  "again A Done = A Done \<union> A Again" "again A Again = {}" "again A Gone = A Gone" "again A Broke = A Broke"
  "iter A fin Done = conc (star (A Done)) {fin}" "e \<noteq> Done \<Longrightarrow> iter A fin e = conc (star (A Done)) (A e)"
  "caught A Done = A Done \<union> A Broke" "caught A Broke = {}" "caught A Gone = A Gone" "caught A Again = A Again"
  by (simp_all add: ends_def either_def andthen_def again_def iter_def caught_def)

lemma every_split: "every A = A Done \<union> elsewhere A"
  by (auto simp: every_def elsewhere_def)

lemma every_simps [simp]:
  "every (ends e L) = L" "every (either A B) = every A \<union> every B" "every (again A) = every A" "every (caught A) = every A"
  by (cases e; auto simp: every_def)+

lemma every_seq [simp]:
  "every (andthen A B) = elsewhere A \<union> conc (A Done) (every B)"
  "every (iter A fin) = conc (star (A Done)) ({fin} \<union> elsewhere A)"
  by (simp add: every_def elsewhere_def conc_Un Un_ac, simp add: every_def elsewhere_def, auto simp: conc_def)

lemma elsewhere_simps [simp]: "elsewhere (ends Done L) = {}" "elsewhere (andthen A B) = elsewhere A \<union> conc (A Done) (elsewhere B)"
  by (auto simp: elsewhere_def conc_Un)

lemma andthen_skip [simp]: "andthen A (ends Done {[]}) = A" "andthen (ends Done {[]}) A = A"
  by (auto simp: andthen_def ends_def fun_eq_iff)

lemma either_none [simp]: "either (\<lambda>e. {}) A = A" "either A (\<lambda>e. {}) = A"
  by (simp_all add: either_def)

lemma again_whole: "A Again = {} \<Longrightarrow> again A = A"
  by (auto simp: again_def fun_eq_iff split: ending.splits)

subsection \<open>The paths through a statement\<close>

abbreviation gets :: "'l Expr \<Rightarrow> event list" where "gets e \<equiv> map Get (reads e)"

definition root_put :: "'l Expr \<Rightarrow> event list" where
  "root_put T = (case rootVariable [] T of Some (_, IdentExpr l n) \<Rightarrow> [Put (toLower n)] | _ \<Rightarrow> [])"

text \<open>
  An assignment through a pointer reads the pointer; any other gives the variable its target is of a value, after
  the subscripts are read.  A variable parameter is written without its subscripts being looked at.
\<close>

definition target_events :: "'l Expr \<Rightarrow> event list" where
  "target_events T = (if writesThroughDeref T then gets T
     else if root_put T = [] then [] else map Get (target_reads T) @ root_put T)"

definition ref_events :: "'l Expr \<Rightarrow> event list" where
  "ref_events A = (if writesThroughDeref A then gets A else root_put A)"

fun arg_events :: "flow_env \<Rightarrow> bytes \<Rightarrow> nat \<Rightarrow> 'l Expr list \<Rightarrow> event list" where
  "arg_events E n I [] = []"
| "arg_events E n I (A # As) = (if passes_by_ref E n I then ref_events A else gets A) @ arg_events E n (Suc I) As"

text \<open>How a call ends: \<open>Exit\<close> with an argument gives the function its result.\<close>

fun ending_of :: "BuiltinID \<Rightarrow> ending" where
  "ending_of BiBreak = Broke"
| "ending_of BiContinue = Again"
| "ending_of BiHalt = Gone"
| "ending_of BiExit = Gone"
| "ending_of BiRunError = Gone"
| "ending_of _ = Done"

definition call_ways :: "flow_env \<Rightarrow> bytes \<Rightarrow> 'l Expr list \<Rightarrow> ways" where
  "call_ways E n As = (case callee_builtin E n of
     None \<Rightarrow> ends Done {arg_events E n 0 As}
   | Some b \<Rightarrow> if b = BiExit \<and> As \<noteq> [] then ends Gone {gets (hd As) @ [Give]} else ends (ending_of b) {arg_events E n 0 As})"

text \<open>
  In Turbo Pascal the control variable keeps its last value, and so it does when \<open>Break\<close> leaves the loop.  A
  case-statement without an else part that no arm matches is an error that ends the program, except in Turbo Pascal,
  where it does nothing.
\<close>

fun paths :: "flow_env \<Rightarrow> stmt \<Rightarrow> ways"
and pathsPtr :: "flow_env \<Rightarrow> stmt option \<Rightarrow> ways"
and pathsSeq :: "flow_env \<Rightarrow> stmt list \<Rightarrow> ways"
and pathsArms :: "flow_env \<Rightarrow> Token CaseArm list \<Rightarrow> ways"
where
  "paths E (CompoundStmt l ss) = pathsSeq E ss"
| "paths E (AssignStmt l T V) = ends Done {gets V @ target_events T}"
| "paths E (CallStmt l n As) = call_ways E n As"
| "paths E (IfStmt l C T e) = andthen (ends Done {gets C}) (either (pathsPtr E T) (pathsPtr E e))"
| "paths E (WhileStmt l C B) =
     andthen (ends Done {gets C}) (caught (iter (andthen (again (pathsPtr E B)) (ends Done {gets C})) []))"
| "paths E (RepeatStmt l ss C) =
     (let once = andthen (again (pathsSeq E ss)) (ends Done {gets C}) in caught (andthen once (iter once [])))"
| "paths E (ForStmt l V A B d S) =
     andthen (ends Done {gets A @ gets B}) (caught (iter (andthen (ends Done {[Step (toLower V)]}) (again (pathsPtr E S)))
       (if turbo (EOpts E) then [] else [Lose (toLower V)])))"
| "paths E (ForInStmt l V X S) =
     andthen (ends Done {gets X}) (caught (iter (andthen (ends Done {[Step (toLower V)]}) (again (pathsPtr E S))) [Lose (toLower V)]))"
| "paths E (CaseStmt l X Arms e HasElse) =
     andthen (ends Done {gets X}) (either (pathsArms E Arms)
       (if HasElse then pathsPtr E e else if turbo (EOpts E) then ends Done {[]} else (\<lambda>e. {})))"
| "paths E (WithStmt l Rs S) = andthen (ends Done {concat (map gets Rs)}) (pathsPtr E S)"
| "paths E _ = ends Done {[]}"
| "pathsPtr E None = ends Done {[]}"
| "pathsPtr E (Some S) = paths E S"
| "pathsSeq E [] = ends Done {[]}"
| "pathsSeq E (S # ss) = andthen (paths E S) (pathsSeq E ss)"
| "pathsArms E [] = (\<lambda>e. {})"
| "pathsArms E (CaseArm ls S # Arms) = either (pathsPtr E S) (pathsArms E Arms)"

text \<open>
  The statements the walk follows: no goto and no label, no call of a method or through a value, no case-statement
  without an arm, no \<open>SizeOf\<close> in a target, no expression so deep that the walk over it stops, and no statement, and
  no condition of a repeat-statement, that nothing reaches because the statement before it always transfers.
\<close>

definition shallow :: "'l Expr \<Rightarrow> bool" where
  "shallow e \<longleftrightarrow> expr_depth e \<le> MaxWalkDepth"

definition evaluates_all :: "'l Expr \<Rightarrow> bool" where
  "evaluates_all e \<longleftrightarrow> (\<forall>X\<in>set (nodes ([], e)). \<not> is_unevaluating (snd X))"

fun reached :: "flow_env \<Rightarrow> stmt list \<Rightarrow> bool" where
  "reached E [] = True"
| "reached E (S # ss) = ((ss = [] \<or> paths E S Done \<noteq> {}) \<and> reached E ss)"

fun plain_kind :: "flow_env \<Rightarrow> stmt \<Rightarrow> bool" where
  "plain_kind E (CompoundStmt l ss) = reached E ss"
| "plain_kind E (RepeatStmt l ss C) = (reached E ss \<and> pathsSeq E ss Done \<noteq> {})"
| "plain_kind E (AssignStmt l T V) = evaluates_all T"
| "plain_kind E (MethodCallStmt l r m As) = False"
| "plain_kind E (InheritedCallStmt l m As) = False"
| "plain_kind E (IndirectCallStmt l c As) = False"
| "plain_kind E (GotoStmt l n) = False"
| "plain_kind E (LabeledStmt l n S) = False"
| "plain_kind E (CaseStmt l X Arms e HasElse) = (Arms \<noteq> [] \<or> HasElse)"
| "plain_kind E _ = True"

definition plain :: "flow_env \<Rightarrow> stmt \<Rightarrow> bool" where
  "plain E S \<longleftrightarrow> (\<forall>S'\<in>set (sub_stmts S). plain_kind E S' \<and> (\<forall>e\<in>set (stmt_exprs S'). shallow e))"

text \<open>
  What the walk knows behind a repeat-statement is what it knows at the end of the body: it forgets the paths that
  leave the body early.  So the walk is exact only where none does.
\<close>

fun whole_kind :: "flow_env \<Rightarrow> stmt \<Rightarrow> bool" where
  "whole_kind E (RepeatStmt l ss C) = (pathsSeq E ss Broke = {} \<and> pathsSeq E ss Again = {})"
| "whole_kind E _ = True"

definition whole :: "flow_env \<Rightarrow> stmt \<Rightarrow> bool" where
  "whole E S \<longleftrightarrow> (\<forall>S'\<in>set (sub_stmts S). whole_kind E S')"

fun own_control :: "'l Stmt \<Rightarrow> bytes set" where
  "own_control (ForStmt l V A B d S) = {toLower V}"
| "own_control (ForInStmt l V X S) = {toLower V}"
| "own_control _ = {}"

definition controls :: "'l Stmt \<Rightarrow> bytes set" where
  "controls S = (\<Union>S'\<in>set (sub_stmts S). own_control S')"

lemma plain_unfold: "plain E S \<longleftrightarrow> plain_kind E S \<and> (\<forall>e\<in>set (stmt_exprs S). shallow e) \<and> (\<forall>C\<in>set (stmt_children S). plain E C)"
  unfolding plain_def by (subst sub_stmts.simps) auto

lemma whole_unfold: "whole E S \<longleftrightarrow> whole_kind E S \<and> (\<forall>C\<in>set (stmt_children S). whole E C)"
  unfolding whole_def by (subst sub_stmts.simps) auto

lemma controls_unfold: "controls S = own_control S \<union> (\<Union>C\<in>set (stmt_children S). controls C)"
  unfolding controls_def by (subst sub_stmts.simps) auto

lemma plain_simps [simp]:
  "plain E (CompoundStmt l ss) \<longleftrightarrow> reached E ss \<and> (\<forall>S\<in>set ss. plain E S)"
  "plain E (AssignStmt l T V) \<longleftrightarrow> evaluates_all T \<and> shallow T \<and> shallow V"
  "plain E (IfStmt l C P e) \<longleftrightarrow> shallow C \<and> (\<forall>S\<in>set_option P. plain E S) \<and> (\<forall>S\<in>set_option e. plain E S)"
  by (subst plain_unfold; auto)+

lemma controls_simps [simp]:
  "controls (CompoundStmt l ss) = (\<Union>S\<in>set ss. controls S)" "controls (AssignStmt l T V) = {}"
  "controls (IfStmt l C P e) = (\<Union>S\<in>set_option P \<union> set_option e. controls S)"
  by (subst controls_unfold; auto)+

end
