(* ===== verification/Flow_Props.thy ===== *)
theory Flow_Props
  imports Flow_Paths "HOL-Library.Multiset"
begin

text \<open>
  What the warnings of the definite-assignment walk mean.
\<close>

subsection \<open>The nodes a read visits\<close>

text \<open>The nodes the walk reads at: those not under an argument that is never evaluated.\<close>

function evaluated :: "'l node \<Rightarrow> 'l node list" where
  "evaluated x = x # (if is_unevaluating (snd x) then [] else concat (map evaluated (kids x)))"
  by pat_completeness auto
termination by (relation "measure (\<lambda>x. size (snd x))") (auto dest: size_kids)

declare evaluated.simps [simp del]

definition unevaluated :: "'l node \<Rightarrow> nat list set" where
  "unevaluated x = (\<Union>X\<in>set (nodes x). if is_unevaluating (snd X) then \<Union>Y\<in>set (kids X). fst ` set (nodes Y) else {})"

lemma set_nodes: "set (nodes x) = insert x (\<Union>y\<in>set (kids x). set (nodes y))"
  by (subst nodes.simps) auto

lemma kid_address: "y \<in> set (kids x) \<Longrightarrow> \<exists>i. fst y = fst x @ [i]"
  by (auto simp: kids_def)

lemma kids_snd: "snd ` set (kids x) = set (expr_children (snd x))"
proof -
  have "map snd (kids x) = expr_children (snd x)" by (simp add: kids_def comp_def case_prod_unfold)
  then show ?thesis by (metis list.set_map)
qed

lemma kids_distinct: "y \<in> set (kids x) \<Longrightarrow> z \<in> set (kids x) \<Longrightarrow> fst y = fst z \<Longrightarrow> y = z"
  by (auto simp: kids_def in_set_enumerate_eq)

lemma node_address: "y \<in> set (nodes x) \<Longrightarrow> \<exists>q. fst y = fst x @ q"
proof (induction x rule: nodes.induct)
  case (1 x)
  then consider "y = x" | z where "z \<in> set (kids x)" "y \<in> set (nodes z)" by (auto simp: set_nodes [of x])
  then show ?case
  proof cases
    case 2
    then show ?thesis using "1.IH" kid_address [of z x] by fastforce
  qed auto
qed

lemma kid_node_address:
  assumes "y \<in> set (kids x)" "a \<in> set (nodes y)"
  shows "\<exists>q. fst a = fst y @ q" "fst a \<noteq> fst x"
proof -
  obtain q i where "fst a = fst y @ q" "fst y = fst x @ [i]" using assms node_address kid_address by blast
  then show "\<exists>q. fst a = fst y @ q" "fst a \<noteq> fst x" by auto
qed

lemma kid_nodes_apart:
  assumes "y \<in> set (kids x)" "z \<in> set (kids x)" "a \<in> set (nodes y)" "b \<in> set (nodes z)" "fst a = fst b"
  shows "y = z"
proof -
  obtain q r where "fst a = fst y @ q" "fst b = fst z @ r" using assms kid_node_address by meson
  then show ?thesis using assms kid_address [of y x] kid_address [of z x] kids_distinct by fastforce
qed

lemma unevaluated_below: "p \<in> unevaluated x \<Longrightarrow> \<exists>y\<in>set (kids x). \<exists>a\<in>set (nodes y). p = fst a"
proof -
  have sub: "set (nodes Y) \<subseteq> set (nodes X)" if "Y \<in> set (kids X)" for X Y :: "'a node"
    using that by (auto simp: set_nodes [of X])
  have trans: "set (nodes X) \<subseteq> set (nodes y)" if "X \<in> set (nodes y)" for X y :: "'a node"
    using that
  proof (induction y rule: nodes.induct)
    case (1 y)
    then consider "X = y" | z where "z \<in> set (kids y)" "X \<in> set (nodes z)" unfolding set_nodes [of y] by blast
    then show ?case
    proof cases
      case 2
      then show ?thesis using "1.IH" sub [of z y] by blast
    qed simp
  qed
  assume "p \<in> unevaluated x"
  then obtain X Y Z where *: "X \<in> set (nodes x)" "Y \<in> set (kids X)" "Z \<in> set (nodes Y)" "p = fst Z"
    by (auto simp: unevaluated_def split: if_splits)
  from *(1) consider "X = x" | y where "y \<in> set (kids x)" "X \<in> set (nodes y)" by (auto simp: set_nodes [of x])
  then show ?thesis
  proof cases
    case 2
    then have "Z \<in> set (nodes y)" using trans [OF 2(2)] sub [OF *(2)] *(3) by blast
    then show ?thesis using 2(1) *(4) by blast
  qed (use * in blast)
qed

lemma unevaluated_kids:
  assumes "\<not> is_unevaluating (snd x)"
  shows "unevaluated x = (\<Union>y\<in>set (kids x). unevaluated y)"
  unfolding unevaluated_def set_nodes [of x] UN_insert UN_UN_flatten using assms by simp

lemma evaluated_nodes: "set (evaluated x) = {Z \<in> set (nodes x). fst Z \<notin> unevaluated x}"
proof (induction x rule: evaluated.induct)
  case (1 x)
  have self: "fst x \<notin> unevaluated x" using unevaluated_below [of "fst x" x] kid_node_address(2) by metis
  show ?case
  proof (cases "is_unevaluating (snd x)")
    case True
    then have "fst Z \<in> unevaluated x" if "y \<in> set (kids x)" "Z \<in> set (nodes y)" for y Z
      using that by (force simp: unevaluated_def set_nodes [of x])
    then show ?thesis using self True by (subst evaluated.simps) (auto simp: set_nodes [of x])
  next
    case False
    have apart: "fst Z \<in> unevaluated x \<longleftrightarrow> fst Z \<in> unevaluated y" if y: "y \<in> set (kids x)" and Z: "Z \<in> set (nodes y)" for y Z
    proof -
      have "y = y'" if y': "y' \<in> set (kids x)" and U: "fst Z \<in> unevaluated y'" for y'
      proof -
        obtain z a where "z \<in> set (kids y')" "a \<in> set (nodes z)" "fst Z = fst a"
          using unevaluated_below [OF U] by blast
        then have "a \<in> set (nodes y')" by (auto simp: set_nodes [of y'])
        then show ?thesis using kid_nodes_apart [OF y y' Z] \<open>fst Z = fst a\<close> by blast
      qed
      then show ?thesis using y by (auto simp: unevaluated_kids [OF False])
    qed
    have "set (evaluated x) = insert x (\<Union>y\<in>set (kids x). {Z \<in> set (nodes y). fst Z \<notin> unevaluated y})"
      using "1.IH" [OF False] False by (subst evaluated.simps) auto
    also have "\<dots> = {Z \<in> set (nodes x). fst Z \<notin> unevaluated x}"
      using apart self by (auto simp: set_nodes [of x])
    finally show ?thesis .
  qed
qed

subsection \<open>What a read reports\<close>

abbreviation (input) roomy :: "nat \<Rightarrow> bool" where "roomy \<equiv> (\<lambda>k. False)"

lemma node_depth: "y \<in> set (nodes x) \<Longrightarrow> expr_depth (snd y) \<le> expr_depth (snd x)"
proof (induction x rule: nodes.induct)
  case (1 x)
  then consider "y = x" | z where "z \<in> set (kids x)" "y \<in> set (nodes z)" unfolding set_nodes [of x] by blast
  then show ?case
  proof cases
    case 2
    then show ?thesis using "1.IH" [OF 2] expr_depth_child [OF kids_children [OF 2(1)]] by simp
  qed simp
qed

lemma UnevaluatedOperands_eq:
  fixes E :: expr
  assumes "shallow E"
  shows "UnevaluatedOperands roomy E = unevaluated ([], E)"
proof -
  let ?G = "\<lambda>X U. case snd X of CallExpr l n as \<Rightarrow>
      (if \<not> never_evaluates n then U else fold (walkExprs roomy (\<lambda>Y. insert (fst Y)) 0) (kids X) U) | _ \<Rightarrow> U"
  let ?H = "\<lambda>X. if is_unevaluating (snd X) then \<Union>Y\<in>set (kids X). fst ` set (nodes Y) else {}"
  have ins: "fold (\<lambda>Y. insert (fst Y)) xs U = U \<union> fst ` set xs" for xs :: "Token node list" and U
    by (induction xs arbitrary: U) auto
  have kids: "fold (walkExprs roomy (\<lambda>Y. insert (fst Y)) 0) ys U = U \<union> (\<Union>Y\<in>set ys. fst ` set (nodes Y))"
    if "\<And>Y. Y \<in> set ys \<Longrightarrow> shallow (snd Y)" for ys :: "Token node list" and U
    using that by (induction ys arbitrary: U) (auto simp: walkExprs_nodes shallow_def ins)
  have "?G X U = U \<union> ?H X" if "shallow (snd X)" for X :: "Token node" and U
  proof -
    have "shallow (snd Y)" if "Y \<in> set (kids X)" for Y
      using that \<open>shallow (snd X)\<close> expr_depth_child [OF kids_children [OF that]] by (simp add: shallow_def)
    then show ?thesis using kids [of "kids X" U] by (cases "snd X") auto
  qed
  then have "fold ?G xs U = U \<union> (\<Union>X\<in>set xs. ?H X)" if "\<And>X. X \<in> set xs \<Longrightarrow> shallow (snd X)" for xs :: "Token node list" and U
    using that by (induction xs arbitrary: U) auto
  moreover have "shallow (snd X)" if "X \<in> set (nodes ([], E))" for X
    using node_depth [OF that] assms by (simp add: shallow_def)
  ultimately show ?thesis
    using assms by (simp add: UnevaluatedOperands_def unevaluated_def walkExprs_nodes shallow_def)
qed

text \<open>
  What every step of the walk leaves of the members of \<^verbatim>\<open>Sema\<close>: it appends one warning for every variable it
  reports, each a tracked variable not reported before.
\<close>

definition warned :: "Token \<times> FlowDiag \<times> bytes list \<Rightarrow> bytes" where
  "warned d = toLower (hd (snd (snd d)))"

definition fresh_warnings :: "Flow \<Rightarrow> (Token \<times> FlowDiag \<times> bytes list) list \<Rightarrow> bool" where
  "fresh_warnings F ds \<longleftrightarrow> distinct (map warned ds) \<and> (\<forall>(l, d, as)\<in>set ds. d \<noteq> warn_result_not_always_set \<and> length as = 1)
     \<and> FlowReported F \<inter> warned ` set ds = {} \<and> warned ` set ds \<subseteq> FlowTracked F"

definition reports :: "Flow \<Rightarrow> Flow \<Rightarrow> bool" where
  "reports F G \<longleftrightarrow> FlowTracked G = FlowTracked F \<and> FlowResultNames G = FlowResultNames F
     \<and> (\<exists>ds. FlowDiags G = FlowDiags F @ ds \<and> FlowReported G = FlowReported F \<union> warned ` set ds \<and> fresh_warnings F ds)"

lemma reports_refl [simp]: "reports F F"
  by (auto simp: reports_def fresh_warnings_def)

lemma fresh_warnings_append:
  assumes "fresh_warnings F ds" "fresh_warnings G es" "FlowReported G = FlowReported F \<union> warned ` set ds" "FlowTracked G = FlowTracked F"
  shows "fresh_warnings F (ds @ es)"
  using assms unfolding fresh_warnings_def by auto

lemma reports_trans [trans]:
  assumes "reports F G" "reports G H"
  shows "reports F H"
proof -
  obtain ds where ds: "FlowDiags G = FlowDiags F @ ds" "FlowReported G = FlowReported F \<union> warned ` set ds" "fresh_warnings F ds"
    using assms(1) unfolding reports_def by blast
  obtain es where es: "FlowDiags H = FlowDiags G @ es" "FlowReported H = FlowReported G \<union> warned ` set es" "fresh_warnings G es"
    using assms(2) unfolding reports_def by blast
  have same: "FlowTracked H = FlowTracked F" "FlowTracked G = FlowTracked F" "FlowResultNames H = FlowResultNames F"
    using assms by (simp_all add: reports_def)
  have "FlowDiags H = FlowDiags F @ (ds @ es)" "FlowReported H = FlowReported F \<union> warned ` set (ds @ es)"
    using ds es by (simp_all add: Un_assoc image_Un)
  then show ?thesis unfolding reports_def using fresh_warnings_append [OF ds(3) es(3) ds(2) same(2)] same by blast
qed

text \<open>Nothing else changes in a read.\<close>

definition only_reports :: "Flow \<Rightarrow> Flow \<Rightarrow> bool" where
  "only_reports F G \<longleftrightarrow> reports F G \<and> FlowLoopBroke G = FlowLoopBroke F \<and> FlowResultMaybeUnset G = FlowResultMaybeUnset F"

lemma only_reports_refl [simp]: "only_reports F F"
  by (simp add: only_reports_def)

lemma only_reports_trans [trans]: "only_reports F G \<Longrightarrow> only_reports G H \<Longrightarrow> only_reports F H"
  by (auto simp: only_reports_def intro: reports_trans)

lemma walk_closed:
  assumes "\<And>x F. R F (f x F)" "\<And>F. R F F" "\<And>F G H. R F G \<Longrightarrow> R G H \<Longrightarrow> R F H"
  shows "R F (walkExprs low f d x F)"
proof (induction low f\<equiv>f d x F rule: walkExprs.induct)
  case (1 low d x F)
  have "R F0 (fold (walkExprs low f (Suc d)) ys F0)"
    if "\<not> (d \<ge> MaxWalkDepth \<or> low (length (fst x)))" "set ys \<subseteq> set (kids x)" for ys F0
    using that(2)
  proof (induction ys arbitrary: F0)
    case (Cons y ys)
    then show ?case using "1.hyps" [OF that(1), of y] assms(3) by simp blast
  qed (simp add: assms(2))
  then show ?case using assms(1) [of F x] assms(2,3) by (subst walkExprs.simps) auto
qed

lemmas only_reports_walk = walk_closed [of only_reports, OF _ only_reports_refl only_reports_trans]

text \<open>The key a node is read by.\<close>

definition read_key :: "'l Expr \<Rightarrow> bytes set" where
  "read_key X = (case (if reads_root X then rootVariable [] X else None) of
     Some (_, IdentExpr l n) \<Rightarrow> {toLower n} | _ \<Rightarrow> {})"

lemma read_node_effect:
  "only_reports F (flow_read_node St X F)"
  "FlowReported (flow_read_node St X F) = FlowReported F \<union> (read_key X \<inter> FlowTracked F - Assigned St)"
  by (auto simp: flow_read_node_def read_key_def flow_warning_def only_reports_def reports_def fresh_warnings_def warned_def Let_def
      split: option.splits Expr.splits)

lemma flowRead_only_reports: "only_reports F (flowRead low e St F)"
  unfolding flowRead_def Let_def by (rule only_reports_walk) (simp add: read_node_effect)

lemma root_read: "rootVariable p e = Some (q, IdentExpr l n) \<Longrightarrow> toLower n \<in> set (reads e)"
  by (induction p e rule: rootVariable.induct) auto

lemma read_key_reads: "read_key e \<subseteq> set (reads e)"
  using root_read [of "[]" e] by (auto simp: read_key_def split: if_splits option.splits Expr.splits)

lemma evaluated_keys: "(\<Union>X\<in>set (evaluated x). read_key (snd X)) = set (reads (snd x))"
proof (induction x rule: evaluated.induct)
  case (1 x)
  have "set (reads (snd x)) = set (own_read (snd x)) \<union> (if is_unevaluating (snd x) then {} else \<Union>Y\<in>set (kids x). set (reads (snd Y)))"
    by (subst reads.simps) (simp add: image_image flip: kids_snd)
  moreover have "set (own_read (snd x)) \<subseteq> read_key (snd x)"
    by (cases "snd x") (auto simp: read_key_def)
  moreover have "(\<Union>X\<in>set (evaluated x). read_key (snd X))
      = read_key (snd x) \<union> (if is_unevaluating (snd x) then {} else \<Union>Y\<in>set (kids x). set (reads (snd Y)))"
    using "1.IH" by (subst evaluated.simps) auto
  ultimately show ?case using read_key_reads [of "snd x"] by auto
qed

lemma fold_read_nodes:
  "FlowReported (fold (\<lambda>X F. if fst X \<in> U then F else flow_read_node St (snd X) F) xs F)
     = FlowReported F \<union> ((\<Union>X\<in>{X \<in> set xs. fst X \<notin> U}. read_key (snd X)) \<inter> FlowTracked F - Assigned St)"
proof (induction xs arbitrary: F)
  case (Cons X xs)
  have "FlowTracked (flow_read_node St (snd X) F) = FlowTracked F"
    using read_node_effect(1) [of F St "snd X"] by (simp add: only_reports_def reports_def)
  then show ?case using Cons by (auto simp: read_node_effect(2))
qed simp

lemma flowRead_reported:
  assumes "shallow e"
  shows "FlowReported (flowRead roomy e St F) = FlowReported F \<union> (set (reads e) \<inter> FlowTracked F - Assigned St)"
  using assms evaluated_keys [of "([], e)"]
  by (simp add: flowRead_def walkExprs_nodes shallow_def fold_read_nodes UnevaluatedOperands_eq evaluated_nodes)

subsection \<open>One variable\<close>

text \<open>
  What one step of the walk may do to one variable, given the paths of what it walks over: \<open>a\<close> and \<open>a'\<close> say that
  the walk takes the variable to have a value before and after, \<open>r\<close> and \<open>r'\<close> that it is reported.  The walk never
  doubts a value all paths give and reports nothing no path reads; with \<open>exact\<close> it does no more either.
\<close>

definition reads_ok :: "bytes \<Rightarrow> bool \<Rightarrow> ways \<Rightarrow> bool \<Rightarrow> bool \<Rightarrow> bool \<Rightarrow> bool" where
  "reads_ok k exact P a r r' \<longleftrightarrow> (r' \<longrightarrow> r \<or> may k a (every P)) \<and> (r \<longrightarrow> r')
     \<and> (exact \<longrightarrow> keeps_all k (every P) \<and> (may k a (every P) \<longrightarrow> r'))"

definition key_ok :: "bytes \<Rightarrow> bool \<Rightarrow> ways \<Rightarrow> bool \<Rightarrow> bool \<Rightarrow> bool \<Rightarrow> bool \<Rightarrow> bool" where
  "key_ok k exact P a r a' r' \<longleftrightarrow> reads_ok k exact P a r r' \<and> (P Done \<noteq> {} \<longrightarrow> must k a (P Done) \<longrightarrow> a')
     \<and> (exact \<longrightarrow> P Done \<noteq> {} \<longrightarrow> a' \<longrightarrow> must k a (P Done))"

lemma must_mono: "b \<longrightarrow> c \<Longrightarrow> must k b L \<Longrightarrow> must k c L"
  unfolding must_def using holds_mono by blast

lemma may_antimono: "c \<longrightarrow> b \<Longrightarrow> may k b L \<Longrightarrow> may k c L"
  unfolding may_def using bad_antimono by blast

lemma key_okI:
  assumes "r \<Longrightarrow> r'" "r' \<Longrightarrow> \<not> r \<Longrightarrow> may k a (every P)" "P Done \<noteq> {} \<Longrightarrow> must k a (P Done) \<Longrightarrow> a'"
    and "exact \<Longrightarrow> keeps_all k (every P)" "exact \<Longrightarrow> may k a (every P) \<Longrightarrow> r'" "exact \<Longrightarrow> P Done \<noteq> {} \<Longrightarrow> a' \<Longrightarrow> must k a (P Done)"
  shows "key_ok k exact P a r a' r'"
  using assms unfolding key_ok_def reads_ok_def by blast

lemma key_okD:
  assumes "key_ok k exact P a r a' r'"
  shows "r \<Longrightarrow> r'" "r' \<Longrightarrow> \<not> r \<Longrightarrow> may k a (every P)" "P Done \<noteq> {} \<Longrightarrow> must k a (P Done) \<Longrightarrow> a'"
    "exact \<Longrightarrow> keeps_all k (every P)" "exact \<Longrightarrow> may k a (every P) \<Longrightarrow> r'" "exact \<Longrightarrow> P Done \<noteq> {} \<Longrightarrow> a' \<Longrightarrow> must k a (P Done)"
  using assms unfolding key_ok_def reads_ok_def by blast+

lemma key_ok_seq:
  assumes "key_ok k x A a r b s" "key_ok k x B b s c t" "A Done \<noteq> {}" "every B \<noteq> {}"
  shows "key_ok k x (andthen A B) a r c t"
proof (rule key_okI)
  note A = key_okD [OF assms(1)] and B = key_okD [OF assms(2)]
  let ?a = "must k a (A Done)"
  have b: "?a \<longrightarrow> b" and eq: "x \<Longrightarrow> b = ?a" using A(3,6) assms(3) by blast+
  have may: "may k a (every (andthen A B)) \<longleftrightarrow> may k a (every A) \<or> may k ?a (every B)"
    unfolding every_seq every_split [of A] may_Un may_conc [OF assms(3,4)] by blast
  show "t" if r using that A(1) B(1) by blast
  show "may k a (every (andthen A B))" if t "\<not> r" using that A(2) B(2) may_antimono [OF b] unfolding may by blast
  show "c" if "andthen A B Done \<noteq> {}" "must k a (andthen A B Done)"
    using that B(3) must_mono [OF b] by (simp add: must_conc)
  show "keeps_all k (every (andthen A B))" if x
    using A(4) B(4) that unfolding every_seq every_split [of A] by (auto intro: keeps_all_conc)
  show "t" if x "may k a (every (andthen A B))" using that A(5) B(1,5) eq unfolding may by blast
  show "must k a (andthen A B Done)" if x "andthen A B Done \<noteq> {}" c
    using that B(6) eq assms(3) by (simp add: must_conc)
qed

lemma key_ok_merge:
  assumes "key_ok k x A a r b s" "key_ok k x B a s c t"
    and "d = (if A Done = {} then c else if B Done = {} then b else b \<and> c)"
  shows "key_ok k x (either A B) a r d t"
proof (rule key_okI)
  note A = key_okD [OF assms(1)] and B = key_okD [OF assms(2)]
  show "t" if r using that A(1) B(1) by blast
  show "may k a (every (either A B))" if t "\<not> r" using that A(2) B(2) by auto
  show "d" if "either A B Done \<noteq> {}" "must k a (either A B Done)" using that A(3) B(3) unfolding assms(3) by auto
  show "keeps_all k (every (either A B))" if x using that A(4) B(4) by simp
  show "t" if x "may k a (every (either A B))" using that A(5) B(1,5) by auto
  show "must k a (either A B Done)" if x "either A B Done \<noteq> {}" d
    using that A(6) B(6) unfolding assms(3) by (auto split: if_splits)
qed

text \<open>The end of a loop that may run any number of times, for a variable its last event does not touch.\<close>

lemma may_loop:
  assumes "may k a (every B)"
  shows "may k a (every (caught (iter B fin)))"
proof -
  have "may k a (star (B Done)) \<or> may k (must k a (star (B Done))) (elsewhere B)"
    using assms may_star_once [of k a "B Done"] may_antimono [of "must k a (star (B Done))" a k "elsewhere B"] must_star [of k a "B Done"]
    by (auto simp: every_split)
  moreover have "{fin} \<union> elsewhere B \<noteq> {}" by simp
  ultimately show ?thesis unfolding every_simps(4) every_seq(2) by (subst may_conc [OF star_nonempty]) auto
qed

lemma key_ok_loop:
  assumes "reads_ok k x B a r s" "\<And>c. holds k c fin = c" "\<And>c. \<not> bad k c fin" "Lose k \<notin> set fin"
  shows "key_ok k x (caught (iter B fin)) a r a s"
proof -
  let ?D = "star (B Done)" and ?R = "{fin} \<union> elsewhere B" and ?W = "caught (iter B fin)"
  have all: "every ?W = conc ?D ?R" unfolding every_simps(4) every_seq(2) ..
  have keep: "keeps_all k (every ?W)" and less: "may k a (every ?W) \<Longrightarrow> may k a (every B)" if x
  proof -
    have kept: "keeps_all k (B Done)" "keeps_all k (elsewhere B)" using that assms(1) by (auto simp: reads_ok_def every_split)
    show "keeps_all k (every ?W)" unfolding all using kept assms(4) by (intro keeps_all_conc keeps_all_star) simp_all
    show "may k a (every B)" if "may k a (every ?W)"
      using that must_star_kept [OF kept(1)] may_star_kept [OF kept(1)] assms(3) may_conc [OF star_nonempty, of ?R k a "B Done"]
      unfolding all by (simp add: every_split)
  qed
  have dn: "must k a (?W Done) \<Longrightarrow> a"
    using assms(2) must_star [of k a "B Done"] by (auto simp: must_conc)
  have "must k True (?W Done)" if x
    using keep [OF that] by (intro must_kept) (simp only: every_split [of ?W] keeps_all_Un)
  then have up: "must k a (?W Done)" if x a using that by simp
  have B: "s \<Longrightarrow> \<not> r \<Longrightarrow> may k a (every B)" "r \<Longrightarrow> s" "x \<Longrightarrow> may k a (every B) \<Longrightarrow> s"
    using assms(1) unfolding reads_ok_def by blast+
  show ?thesis by (rule key_okI) (use B may_loop [of k a B fin] dn keep less up in blast)+
qed

lemma reads_ok_again: "reads_ok k x (again P) a r s = reads_ok k x P a r s"
  by (simp add: reads_ok_def)

lemma key_ok_while:
  assumes "key_ok k x (ends Done {map Get ks}) a r a s" "reads_ok k x B a s t"
  shows "key_ok k x (andthen (ends Done {map Get ks}) (caught (iter (andthen (again B) (ends Done {map Get ks})) []))) a r a t"
proof -
  define D where "D = again B Done"
  have all: "every B = D \<union> elsewhere (again B)" unfolding D_def every_split [symmetric] by simp
  have "may k a (conc D {map Get ks}) \<longleftrightarrow> D \<noteq> {} \<and> (may k a D \<or> k \<in> set ks \<and> \<not> must k a D)"
    by (cases "D = {}") (simp_all add: may_conc)
  moreover have "a \<Longrightarrow> must k a D" if x
    using that assms(2) must_kept [of k D] by (auto simp: reads_ok_def all)
  moreover have "keeps_all k (conc D {map Get ks})" if "keeps_all k D" using that by (intro keeps_all_conc) auto
  ultimately have "reads_ok k x (andthen (again B) (ends Done {map Get ks})) a s t"
    using assms unfolding key_ok_def reads_ok_def every_seq every_simps(1) all D_def [symmetric] by auto
  from key_ok_seq [OF assms(1) key_ok_loop [OF this]] show ?thesis by simp
qed

lemma key_ok_again:
  assumes "key_ok k x P a r b s" "P Done \<noteq> {}" "x \<Longrightarrow> P Again = {}"
  shows "key_ok k x (again P) a r b s"
proof (cases x)
  case True
  then show ?thesis using assms again_whole [of P] by simp
qed (use assms in \<open>auto simp: key_ok_def reads_ok_def\<close>)

lemma key_ok_repeat:
  assumes "key_ok k x P a r b s" "P Done \<noteq> {}" "x \<Longrightarrow> P Broke = {}"
  shows "key_ok k x (caught (andthen P (iter P []))) a r b s"
proof -
  let ?D = "P Done" and ?R = "elsewhere P" and ?W = "caught (andthen P (iter P []))"
  let ?b = "must k a ?D"
  have all: "every ?W = ?R \<union> conc ?D (conc (star ?D) ({[]} \<union> ?R))" by (simp del: Un_insert_left)
  have R: "{[]} \<union> ?R \<noteq> {}" "conc (star ?D) ({[]} \<union> ?R) \<noteq> {}" by auto
  have may: "may k a (every ?W) \<longleftrightarrow> may k a ?R \<or> may k a ?D \<or> may k ?b (star ?D) \<or> may k (must k ?b (star ?D)) ?R"
    unfolding all may_Un may_conc [OF assms(2) R(2)] may_conc [OF star_nonempty R(1)] by simp
  have "P Done \<subseteq> ?W Done"
  proof
    fix t assume "t \<in> P Done"
    then have "t @ [] \<in> conc (P Done) (star (P Done))" unfolding conc_def using star_nil by blast
    then show "t \<in> ?W Done" by simp
  qed
  then have low: "must k a (?W Done) \<Longrightarrow> ?b" by (auto simp: must_def)
  have kept: "keeps_all k ?D" "keeps_all k ?R" if x using that key_okD(4) [OF assms(1)] by (simp_all add: every_split)
  then have keep: "keeps_all k (every ?W)" if x
    using that unfolding all by (simp only: keeps_all_Un) (intro conjI keeps_all_conc keeps_all_star, simp_all)
  have eq: "must k a (?W Done) = ?b" "may k ?b (star ?D) = may k ?b ?D" "must k ?b (star ?D) = ?b" "a \<longrightarrow> ?b" if x
    using that assms(2,3) kept(1) must_kept [of k ?D] by (simp_all add: must_star_kept may_star_kept must_conc)
  note P = key_okD [OF assms(1)]
  show ?thesis
  proof (rule key_okI)
    show "may k a (every ?W)" if s "\<not> r" using P(2) [OF that] unfolding may every_split [of P] may_Un by blast
    show "s" if x "may k a (every ?W)"
    proof -
      have "may k a ?R \<or> may k a ?D \<or> may k ?b ?D \<or> may k ?b ?R" using that(2) eq(2,3) [OF that(1)] unfolding may by simp
      then have "may k a (every P)" using may_antimono [OF eq(4) [OF that(1)], of k] unfolding every_split [of P] may_Un by blast
      then show ?thesis by (rule P(5) [OF that(1)])
    qed
  qed (use P(1,3,6) assms(2) low keep eq(1) in blast)+
qed

text \<open>The control variable of a for-statement: nothing is claimed but that no report is unfounded.\<close>

lemma key_ok_for_control:
  assumes "reads_ok k x B True r s" "every B \<noteq> {}" "e = [] \<and> a' \<or> e = [Lose k]"
  shows "key_ok k False (caught (iter (andthen (ends Done {[Step k]}) (again B)) e)) a r a' s"
proof -
  let ?P = "andthen (ends Done {[Step k]}) (again B)"
  have all: "every ?P = conc {[Step k]} (every B)" by simp
  have "may k a (every ?P) = may k True (every B)" unfolding all using assms(2) by (simp add: may_conc)
  then have "reads_ok k False (caught (iter ?P e)) a r s"
    using assms(1) may_loop [of k a ?P e] unfolding reads_ok_def by blast
  moreover have "[Lose k] \<in> caught (iter ?P [Lose k]) Done" using conc_def star_nil by fastforce
  then have "\<not> must k a (caught (iter ?P [Lose k]) Done)" by (force simp: must_def simp del: ways_at)
  ultimately show ?thesis using assms(3) unfolding key_ok_def by blast
qed

subsection \<open>The result of a function\<close>

text \<open>
  The same for the result: \<open>a\<close> and \<open>a'\<close> say that the walk takes it to be given before and after, \<open>u\<close> and \<open>u'\<close> that
  some statement on the way leaves the function without it.  Where no path gets to the end, a result that is not given
  has been noticed at the statement that leaves, unless that is a \<open>Break\<close> or \<open>Continue\<close>.
\<close>

definition res_ok :: "bool \<Rightarrow> bytes set \<Rightarrow> ways \<Rightarrow> bool \<Rightarrow> bool \<Rightarrow> bool \<Rightarrow> bool \<Rightarrow> bool" where
  "res_ok exact ns P a u a' u' \<longleftrightarrow> (u \<longrightarrow> u') \<and> (u' \<longrightarrow> u \<or> \<not> a \<and> \<not> sets_one ns (P Gone))
     \<and> (P Done \<noteq> {} \<longrightarrow> a \<or> sets_one ns (P Done) \<longrightarrow> a')
     \<and> (P Done = {} \<longrightarrow> a' \<or> u' \<or> P Broke \<noteq> {} \<or> P Again \<noteq> {})
     \<and> (exact \<longrightarrow> (\<not> a \<and> \<not> sets_one ns (P Gone) \<longrightarrow> u') \<and> (P Done \<noteq> {} \<longrightarrow> a' \<longrightarrow> a \<or> sets_one ns (P Done)))"

lemma res_ok_step: "res_ok x ns (ends Done {t}) a u (a \<or> gives ns t) u"
  by (simp add: res_ok_def)

lemma res_ok_seq:
  assumes "res_ok x ns A a u b v" "res_ok x ns B b v c w" "A Done \<noteq> {}"
  shows "res_ok x ns (andthen A B) a u c w"
proof -
  have "sets_one ns (conc (A Done) L) \<longleftrightarrow> sets_one ns (A Done) \<or> sets_one ns L" for L by (rule sets_one_conc [OF assms(3)])
  then show ?thesis using assms by (cases "B Done = {}"; cases x; simp add: res_ok_def; blast)
qed

lemma res_ok_merge:
  assumes "res_ok x ns A a u b v" "res_ok x ns B a v c w"
    and "d = (if A Done = {} \<and> B Done \<noteq> {} then c else if B Done = {} \<and> A Done \<noteq> {} then b else b \<and> c)"
  shows "res_ok x ns (either A B) a u d w"
  using assms by (cases "A Done = {}"; cases "B Done = {}"; cases x; simp add: res_ok_def; blast)

lemma res_ok_loop:
  assumes "u \<longrightarrow> v" "v \<longrightarrow> u \<or> \<not> a \<and> \<not> sets_one ns (B Gone)" "x \<Longrightarrow> \<not> a \<and> \<not> sets_one ns (B Gone) \<longrightarrow> v" "\<not> gives ns fin"
  shows "res_ok x ns (caught (iter B fin)) a u a v"
proof -
  have "sets_one ns (conc (star (B Done)) L) \<longleftrightarrow> sets_one ns L" for L by (simp add: sets_one_conc)
  then show ?thesis using assms by (simp add: res_ok_def)
qed

lemma res_ok_repeat:
  assumes "res_ok x ns P a u b v" "P Done \<noteq> {}" "x \<Longrightarrow> P Broke = {}"
  shows "res_ok x ns (caught (andthen P (iter P []))) a u b v"
proof -
  have "sets_one ns (conc (P Done) L) \<longleftrightarrow> sets_one ns (P Done) \<or> sets_one ns L" for L by (rule sets_one_conc [OF assms(2)])
  moreover have "sets_one ns (conc (star (P Done)) L) \<longleftrightarrow> sets_one ns L" for L by (simp add: sets_one_conc)
  ultimately show ?thesis using assms by (cases x; simp add: res_ok_def; blast)
qed

lemma res_ok_again:
  assumes "res_ok x ns P a u b v" "P Done \<noteq> {}" "x \<Longrightarrow> P Again = {}"
  shows "res_ok x ns (again P) a u b v"
proof (cases x)
  case True
  then show ?thesis using assms again_whole [of P] by simp
qed (use assms in \<open>auto simp: res_ok_def\<close>)

subsection \<open>The whole state\<close>

text \<open>What a step leaves when it starts where some path arrives: exact for the variables in \<open>X\<close>, and for the result with \<open>x\<close>.\<close>

definition outcome :: "bool \<Rightarrow> bytes set \<Rightarrow> FlowState \<Rightarrow> Flow \<Rightarrow> FlowState \<Rightarrow> Flow \<Rightarrow> ways \<Rightarrow> bool" where
  "outcome x X St F St' F' P \<longleftrightarrow> (\<not> Dead St \<longrightarrow> (Dead St' \<longleftrightarrow> P Done = {}) \<and> reports F F' \<and> every P \<noteq> {}
     \<and> (FlowLoopBroke F' \<longleftrightarrow> FlowLoopBroke F \<or> P Broke \<noteq> {})
     \<and> (FlowResultNames F \<noteq> {} \<longrightarrow> res_ok x (FlowResultNames F) P (ResultAssigned St) (FlowResultMaybeUnset F)
          (ResultAssigned St') (FlowResultMaybeUnset F'))
     \<and> (\<forall>k\<in>FlowTracked F - FlowResultNames F.
          key_ok k (k \<in> X) P (k \<in> Assigned St) (k \<in> FlowReported F) (k \<in> Assigned St') (k \<in> FlowReported F')))"

lemma only_reports_same: "only_reports F G \<Longrightarrow> FlowTracked G = FlowTracked F \<and> FlowResultNames G = FlowResultNames F"
  by (simp add: only_reports_def reports_def)

lemma reports_same: "reports F G \<Longrightarrow> FlowTracked G = FlowTracked F \<and> FlowResultNames G = FlowResultNames F"
  by (simp add: reports_def)

lemma outcomeD:
  assumes "outcome x X St F St' F' P" "\<not> Dead St"
  shows "Dead St' \<longleftrightarrow> P Done = {}" "reports F F'" "every P \<noteq> {}" "FlowTracked F' = FlowTracked F" "FlowResultNames F' = FlowResultNames F"
    and "FlowLoopBroke F' \<longleftrightarrow> FlowLoopBroke F \<or> P Broke \<noteq> {}"
    and "FlowResultNames F \<noteq> {} \<Longrightarrow> res_ok x (FlowResultNames F) P (ResultAssigned St) (FlowResultMaybeUnset F)
           (ResultAssigned St') (FlowResultMaybeUnset F')"
    and "\<And>k. k \<in> FlowTracked F - FlowResultNames F \<Longrightarrow>
      key_ok k (k \<in> X) P (k \<in> Assigned St) (k \<in> FlowReported F) (k \<in> Assigned St') (k \<in> FlowReported F')"
  using assms reports_same [of F F'] by (simp_all add: outcome_def)

lemma outcomeI:
  assumes "\<not> Dead St \<Longrightarrow> Dead St' \<longleftrightarrow> P Done = {}" "\<not> Dead St \<Longrightarrow> reports F F'" "\<not> Dead St \<Longrightarrow> every P \<noteq> {}"
    and "\<not> Dead St \<Longrightarrow> FlowLoopBroke F' \<longleftrightarrow> FlowLoopBroke F \<or> P Broke \<noteq> {}"
    and "\<not> Dead St \<Longrightarrow> FlowResultNames F \<noteq> {} \<Longrightarrow> res_ok x (FlowResultNames F) P (ResultAssigned St) (FlowResultMaybeUnset F)
           (ResultAssigned St') (FlowResultMaybeUnset F')"
    and "\<And>k. \<not> Dead St \<Longrightarrow> k \<in> FlowTracked F - FlowResultNames F \<Longrightarrow>
      key_ok k (k \<in> X) P (k \<in> Assigned St) (k \<in> FlowReported F) (k \<in> Assigned St') (k \<in> FlowReported F')"
  shows "outcome x X St F St' F' P"
  using assms by (simp add: outcome_def)

text \<open>A step along one path, with the flags as they were.\<close>

lemma outcome_step:
  assumes "only_reports F F'" "Dead St' = Dead St" "FlowResultNames F \<noteq> {} \<Longrightarrow> ResultAssigned St' = (ResultAssigned St \<or> gives (FlowResultNames F) t)"
    and "\<And>k. k \<in> FlowTracked F - FlowResultNames F \<Longrightarrow> Lose k \<notin> set t \<and> (k \<in> Assigned St' \<longleftrightarrow> holds k (k \<in> Assigned St) t)
      \<and> (k \<in> FlowReported F' \<longleftrightarrow> k \<in> FlowReported F \<or> bad k (k \<in> Assigned St) t)"
  shows "outcome x X St F St' F' (ends Done {t})"
  using assms res_ok_step [of x "FlowResultNames F" t "ResultAssigned St" "FlowResultMaybeUnset F"]
  by (auto simp: outcome_def only_reports_def key_ok_def reads_ok_def)

lemma outcome_skip: "outcome x X St F St F (ends Done {[]})"
  by (rule outcome_step) simp_all

lemma outcome_seq:
  assumes "outcome x X St F St1 F1 A" "outcome x X St1 F1 St2 F2 B" "A Done \<noteq> {}"
  shows "outcome x X St F St2 F2 (andthen A B)"
proof (cases "Dead St")
  case False
  note 1 = outcomeD [OF assms(1) False]
  then have live: "\<not> Dead St1" using assms(3) by simp
  note 2 = outcomeD [OF assms(2) live]
  show ?thesis
  proof (rule outcomeI)
    show "reports F F2" using 1(2) 2(2) reports_trans by blast
    show "res_ok x (FlowResultNames F) (andthen A B) (ResultAssigned St) (FlowResultMaybeUnset F) (ResultAssigned St2) (FlowResultMaybeUnset F2)"
      if "FlowResultNames F \<noteq> {}" using res_ok_seq [OF 1(7) [OF that] _ assms(3)] 2(7) 1(5) that by simp
    show "key_ok k (k \<in> X) (andthen A B) (k \<in> Assigned St) (k \<in> FlowReported F) (k \<in> Assigned St2) (k \<in> FlowReported F2)"
      if "k \<in> FlowTracked F - FlowResultNames F" for k using key_ok_seq [OF 1(8) [OF that] _ assms(3) 2(3)] 2(8) 1(4,5) that by simp
  qed (use 1 2 assms(3) in \<open>auto simp: every_def conc_def\<close>)
qed (simp add: outcome_def)

lemma outcome_merge:
  assumes "outcome x X St F St1 F1 A" "outcome x X St F1 St2 F2 B"
  shows "outcome x X St F (mergeWith St1 St2) F2 (either A B)"
proof (cases "Dead St")
  case False
  note 1 = outcomeD [OF assms(1) False] and 2 = outcomeD [OF assms(2) False]
  show ?thesis
  proof (rule outcomeI)
    show "reports F F2" using 1(2) 2(2) reports_trans by blast
    show "res_ok x (FlowResultNames F) (either A B) (ResultAssigned St) (FlowResultMaybeUnset F) (ResultAssigned (mergeWith St1 St2)) (FlowResultMaybeUnset F2)"
      if "FlowResultNames F \<noteq> {}"
      by (rule res_ok_merge [OF 1(7) [OF that] 2(7) [unfolded 1(5), OF that]]) (simp add: mergeWith_def 1(1) 2(1))
    show "key_ok k (k \<in> X) (either A B) (k \<in> Assigned St) (k \<in> FlowReported F) (k \<in> Assigned (mergeWith St1 St2)) (k \<in> FlowReported F2)"
      if "k \<in> FlowTracked F - FlowResultNames F" for k
    proof -
      note m = key_ok_merge [OF 1(8) [OF that] 2(8) [unfolded 1(4,5), OF that]]
      show ?thesis
      proof (cases "A Done = {} \<and> B Done = {}")
        case True
        then show ?thesis using m [OF refl] by (simp add: key_ok_def)
      qed (rule m, auto simp: mergeWith_def intersect_def 1(1) 2(1))
    qed
  qed (use 1 2 in \<open>auto simp: mergeWith_def\<close>)
qed (simp add: outcome_def)

text \<open>What the branches of a statement leave is merged the same in whatever order they are taken.\<close>

interpretation flow_merge: semilattice mergeWith
proof
  fix a b c :: FlowState
  show "mergeWith (mergeWith a b) c = mergeWith a (mergeWith b c)"
    by (cases "Dead a"; cases "Dead b"; cases "Dead c") (simp_all add: mergeWith_def intersect_def unite_def Int_assoc Un_assoc)
  show "mergeWith a b = mergeWith b a"
    by (cases "Dead a"; cases "Dead b") (simp_all add: mergeWith_def intersect_def unite_def Int_commute Un_commute conj_commute)
  show "mergeWith a a = a" by (cases a) (simp add: mergeWith_def intersect_def unite_def)
qed

lemma merge_order: "mset Bs = mset Cs \<Longrightarrow> fold (\<lambda>B M. mergeWith M B) Bs M = fold (\<lambda>B M. mergeWith M B) Cs M"
  by (rule fold_multiset_equiv [THEN fun_cong]) (auto simp: fun_eq_iff flow_merge.assoc flow_merge.commute flow_merge.left_commute)

lemma outcome_Gets:
  assumes "only_reports F F'" "FlowReported F' = FlowReported F \<union> (set ks \<inter> FlowTracked F - Assigned St)"
  shows "outcome x X St F St F' (ends Done {map Get ks})"
  using assms by (intro outcome_step) auto

lemma outcome_read:
  assumes "shallow e"
  shows "outcome x X St F St (flowRead roomy e St F) (ends Done {gets e})"
  using flowRead_only_reports [of F roomy e St] by (intro outcome_Gets) (auto simp: flowRead_reported [OF assms])

lemma andthen_ends [simp]: "andthen (ends Done {s}) (ends Done {t}) = ends Done {s @ t}"
  by (auto simp: andthen_def ends_def fun_eq_iff)

lemma outcome_reads:
  assumes "list_all shallow Rs"
  shows "outcome x X St F St (fold (\<lambda>R. flowRead roomy R St) Rs F) (ends Done {concat (map gets Rs)})"
  using assms
proof (induction Rs arbitrary: F)
  case (Cons R Rs)
  then show ?case using outcome_seq [OF outcome_read [of R x X St F] Cons.IH] by simp
qed (simp add: outcome_skip)

subsection \<open>Targets and arguments\<close>

lemma kids_access:
  "kids (p, IndexExpr l a i) = [(p @ [0], a), (p @ [1], i)]" "kids (p, FieldExpr l a f) = [(p @ [0], a)]"
  "kids (p, DerefExpr l a) = [(p @ [0], a)]" "kids (p, SubstringExpr l a b c) = [(p @ [0], a), (p @ [1], b), (p @ [2], c)]"
  "kids (p, TypeCastExpr l f a) = [(p @ [0], a)]"
  by (simp_all add: kids_def numeral_2_eq_2)

lemma nodes_self [simp]: "x \<in> set (nodes x)"
  by (simp add: set_nodes [of x])

lemma nodes_kid: "y \<in> set (kids x) \<Longrightarrow> z \<in> set (nodes y) \<Longrightarrow> z \<in> set (nodes x)"
  by (auto simp: set_nodes [of x])

lemma nodes_first: "z \<in> set (nodes (p @ [0], a)) \<Longrightarrow> kids (p, e) = (p @ [0], a) # ys \<Longrightarrow> z \<in> set (nodes (p, e))"
  by (rule nodes_kid [of "(p @ [0], a)"]) simp_all

lemma root_node: "rootVariable p e = Some R \<Longrightarrow> R \<in> set (nodes (p, e)) \<and> is_IdentExpr (snd R)"
  by (induction p e rule: rootVariable.induct) (auto intro: nodes_first [OF _ kids_access(1)] nodes_first [OF _ kids_access(2)]
      nodes_first [OF _ kids_access(3)] nodes_first [OF _ kids_access(4)] nodes_first [OF _ kids_access(5)])

definition all_evaluated :: "'l node \<Rightarrow> bool" where
  "all_evaluated x \<longleftrightarrow> (\<forall>X\<in>set (nodes x). \<not> is_unevaluating (snd X))"

lemma all_evaluated_unfold: "all_evaluated x \<longleftrightarrow> \<not> is_unevaluating (snd x) \<and> (\<forall>y\<in>set (kids x). all_evaluated y)"
  by (auto simp: all_evaluated_def set_nodes [of x])

definition ident_reads :: "'l node set \<Rightarrow> bytes set" where
  "ident_reads S = (\<Union>X\<in>S. set (own_read (snd X)))"

lemma ident_reads_Un [simp]: "ident_reads (A \<union> B) = ident_reads A \<union> ident_reads B" "ident_reads {} = {}"
  by (auto simp: ident_reads_def)

lemma nodes_reads: "all_evaluated x \<Longrightarrow> ident_reads (set (nodes x)) = set (reads (snd x))"
proof (induction x rule: nodes.induct)
  case (1 x)
  then have ih: "\<And>y. y \<in> set (kids x) \<Longrightarrow> ident_reads (set (nodes y)) = set (reads (snd y))"
    and "\<not> is_unevaluating (snd x)"
    by (auto simp: all_evaluated_unfold [of x])
  then have "set (reads (snd x)) = set (own_read (snd x)) \<union> (\<Union>y\<in>set (kids x). set (reads (snd y)))"
    by (subst reads.simps) (simp add: image_image flip: kids_snd)
  moreover have "ident_reads (set (nodes x)) = set (own_read (snd x)) \<union> (\<Union>y\<in>set (kids x). ident_reads (set (nodes y)))"
    unfolding ident_reads_def set_nodes [of x] by auto
  ultimately show ?case using ih by simp
qed

lemma nodes_minus_apart:
  assumes "R \<in> set (nodes (p @ [i], e))" "i \<noteq> j"
  shows "{X \<in> set (nodes (p @ [j], f)). fst X \<noteq> fst R} = set (nodes (p @ [j], f))"
  using node_address [OF assms(1)] node_address [of _ "(p @ [j], f)"] assms(2) by fastforce

lemma nodes_minus_root:
  assumes "kids (p, e) = (p @ [0], a) # ys" "R \<in> set (nodes (p @ [0], a))" "own_read e = []"
    and "\<And>y. y \<in> set ys \<Longrightarrow> \<exists>j f. y = (p @ [Suc j], f)"
  shows "ident_reads {X \<in> set (nodes (p, e)). fst X \<noteq> fst R}
      = ident_reads {X \<in> set (nodes (p @ [0], a)). fst X \<noteq> fst R} \<union> (\<Union>y\<in>set ys. ident_reads (set (nodes y)))"
proof -
  have "{X \<in> set (nodes y). fst X \<noteq> fst R} = set (nodes y)" if "y \<in> set ys" for y
    using assms(4) [OF that] nodes_minus_apart [OF assms(2)] by auto
  then have "{X \<in> set (nodes (p, e)). fst X \<noteq> fst R} = {X. X = (p, e) \<and> fst X \<noteq> fst R}
      \<union> {X \<in> set (nodes (p @ [0], a)). fst X \<noteq> fst R} \<union> (\<Union>y\<in>set ys. set (nodes y))"
    unfolding set_nodes [of "(p, e)"] assms(1) by fastforce
  then show ?thesis using assms(3) by (auto simp: ident_reads_def)
qed

lemma target_nodes:
  assumes "rootVariable p T = Some R" "all_evaluated (p, T)"
  shows "ident_reads {X \<in> set (nodes (p, T)). fst X \<noteq> fst R} = set (target_reads T)"
  using assms
proof (induction p T rule: rootVariable.induct)
  case (1 p l n)
  have "set (nodes (p, IdentExpr l n)) = {(p, IdentExpr l n)}" by (subst set_nodes) (simp add: kids_def)
  then show ?case using 1 by (auto simp: ident_reads_def)
next
  case (2 p l a i)
  then show ?case using nodes_minus_root [OF kids_access(1), of R p a l i] root_node [of "p @ [0]" a R] nodes_reads [of "(p @ [1], i)"]
    by (auto simp: all_evaluated_unfold [of "(p, _)"] kids_access)
next
  case (3 p l r f)
  then show ?case using nodes_minus_root [OF kids_access(2), of R p r l f] root_node [of "p @ [0]" r R]
    by (auto simp: all_evaluated_unfold [of "(p, _)"] kids_access)
next
  case (4 p l q)
  then show ?case using nodes_minus_root [OF kids_access(3), of R p q l] root_node [of "p @ [0]" q R]
    by (auto simp: all_evaluated_unfold [of "(p, _)"] kids_access)
next
  case (5 p l s a b)
  then show ?case using nodes_minus_root [OF kids_access(4), of R p s l a b] root_node [of "p @ [0]" s R]
      nodes_reads [of "(p @ [1], a)"] nodes_reads [of "(p @ [2], b)"]
    by (auto simp: all_evaluated_unfold [of "(p, _)"] kids_access numeral_2_eq_2)
next
  case (6 p l n e)
  then show ?case using nodes_minus_root [OF kids_access(5), of R p e l n] root_node [of "p @ [0]" e R]
    by (auto simp: all_evaluated_unfold [of "(p, _)"] kids_access)
qed simp_all

lemma shallow_Ident [simp]: "shallow (IdentExpr l n)"
  unfolding shallow_def by (subst expr_depth.simps) (simp add: MaxWalkDepth_def)

lemma fold_read_idents:
  "only_reports F (fold (\<lambda>X F. if fst X = r then F else if \<not> is_IdentExpr (snd X) then F else flowRead roomy (snd X) St F) xs F)
   \<and> FlowReported (fold (\<lambda>X F. if fst X = r then F else if \<not> is_IdentExpr (snd X) then F else flowRead roomy (snd X) St F) xs F)
     = FlowReported F \<union> (ident_reads {X \<in> set xs. fst X \<noteq> r} \<inter> FlowTracked F - Assigned St)"
proof (induction xs arbitrary: F)
  case (Cons X xs)
  let ?F = "if fst X = r then F else if \<not> is_IdentExpr (snd X) then F else flowRead roomy (snd X) St F"
  have "shallow (snd X)" "reads (snd X) = own_read (snd X)" if "is_IdentExpr (snd X)"
    using that by (cases "snd X"; simp)+
  moreover have "own_read (snd X) = []" if "\<not> is_IdentExpr (snd X)" using that by (cases "snd X") simp_all
  ultimately have "FlowReported ?F = FlowReported F \<union> (ident_reads {Y \<in> {X}. fst Y \<noteq> r} \<inter> FlowTracked F - Assigned St)"
    by (auto simp: ident_reads_def flowRead_reported)
  moreover have "only_reports F ?F" by (simp add: flowRead_only_reports)
  moreover have "{Y \<in> set (X # xs). fst Y \<noteq> r} = {Y \<in> {X}. fst Y \<noteq> r} \<union> {Y \<in> set xs. fst Y \<noteq> r}" by auto
  ultimately show ?case using Cons [of ?F] only_reports_same [of F ?F] only_reports_trans [of F ?F]
    by (auto simp: Un_assoc simp del: ident_reads_Un) (auto simp: ident_reads_def)
qed (simp add: ident_reads_def)

lemma root_put_eq: "root_put T = (case rootVariable [] T of None \<Rightarrow> [] | Some R \<Rightarrow> map Put (own_read (snd R)))"
  using root_node [of "[]" T] by (auto simp: root_put_def split: option.splits Expr.splits)

lemma target_reads_sub: "rootVariable p T = Some R \<Longrightarrow> set (target_reads T) \<union> set (own_read (snd R)) \<subseteq> set (reads T)"
  by (induction p T rule: rootVariable.induct) auto

lemma flow_target_rooted:
  assumes "shallow T" "evaluates_all T" "rootVariable [] T = Some R" "\<not> is_IdentExpr T"
  shows "only_reports F (flow_target roomy T St F) \<and> FlowReported (flow_target roomy T St F)
      = FlowReported F \<union> ((set (target_reads T) \<union> (if writesThroughDeref T then set (own_read (snd R)) else {})) \<inter> FlowTracked F - Assigned St)"
proof -
  define F1 where "F1 = walkExprs roomy (\<lambda>X F. if fst X = fst R then F else if \<not> is_IdentExpr (snd X) then F
      else flowRead roomy (snd X) St F) 0 ([], T) F"
  have F1: "only_reports F F1" "FlowReported F1 = FlowReported F \<union> (set (target_reads T) \<inter> FlowTracked F - Assigned St)"
    using assms fold_read_idents [of F "fst R" St "nodes ([], T)"] target_nodes [OF assms(3)]
    by (simp_all add: F1_def walkExprs_nodes shallow_def all_evaluated_def evaluates_all_def)
  obtain l n where R: "snd R = IdentExpr l n" using root_node [OF assms(3)] by (cases "snd R") auto
  have "flow_target roomy T St F = (if writesThroughDeref T then flowRead roomy (snd R) St F1 else F1)"
    using assms(3,4) by (simp add: flow_target_def F1_def)
  then show ?thesis
    using F1 only_reports_trans [OF F1(1) flowRead_only_reports] only_reports_same [OF F1(1)]
    by (auto simp: R flowRead_reported)
qed

lemma flow_target_unrooted: "rootVariable [] T = None \<or> is_IdentExpr T \<Longrightarrow> flow_target low T St F = F"
  by (auto simp: flow_target_def)

lemma flowWrite_root:
  assumes "\<not> writesThroughDeref T"
  shows "outcome x X St F (fst (flowWrite low T St F)) (snd (flowWrite low T St F)) (ends Done {root_put T})"
  using assms by (intro outcome_step) (auto simp: flowWrite_def root_put_def Let_def split: option.splits Expr.splits)

lemma outcome_ref:
  assumes "shallow A"
  shows "outcome x X St F (fst (flowWrite roomy A St F)) (snd (flowWrite roomy A St F)) (ends Done {ref_events A})"
proof (cases "writesThroughDeref A")
  case True
  then show ?thesis using outcome_read [OF assms] by (simp add: flowWrite_def ref_events_def)
next
  case False
  then show ?thesis using flowWrite_root by (simp add: ref_events_def)
qed

lemma outcome_target:
  assumes "shallow T" "evaluates_all T"
  shows "outcome x X St F (fst (flowWrite roomy T St (flow_target roomy T St F)))
           (snd (flowWrite roomy T St (flow_target roomy T St F))) (ends Done {target_events T})"
proof -
  let ?F1 = "flow_target roomy T St F"
  consider (unrooted) "rootVariable [] T = None" "?F1 = F" | (ident) "is_IdentExpr T" "?F1 = F"
    | (rooted) R where "rootVariable [] T = Some R" "\<not> is_IdentExpr T"
    using flow_target_unrooted [of T] by (cases "rootVariable [] T") auto
  then show ?thesis
  proof cases
    case unrooted
    then show ?thesis using outcome_ref [OF assms(1), of x X St F]
      by (cases "writesThroughDeref T") (simp_all add: target_events_def ref_events_def root_put_def)
  next
    case ident
    then show ?thesis using outcome_ref [OF assms(1), of x X St F] by (cases T) (auto simp: target_events_def ref_events_def)
  next
    case (rooted R)
    note eff = flow_target_rooted [OF assms rooted, of F St]
    show ?thesis
    proof (cases "writesThroughDeref T")
      case True
      have "only_reports F (flowRead roomy T St ?F1)" using eff flowRead_only_reports only_reports_trans by blast
      moreover have "FlowReported (flowRead roomy T St ?F1) = FlowReported F \<union> (set (reads T) \<inter> FlowTracked F - Assigned St)"
        using eff only_reports_same [of F ?F1] target_reads_sub [OF rooted(1)] by (auto simp: flowRead_reported [OF assms(1)] True)
      ultimately show ?thesis using outcome_Gets True by (simp add: flowWrite_def target_events_def)
    next
      case False
      have "outcome x X St F St ?F1 (ends Done {map Get (target_reads T)})" using eff False by (simp add: outcome_Gets)
      from outcome_seq [OF this flowWrite_root [OF False]] show ?thesis
        using False root_node [OF rooted(1)] rooted(1) by (cases "snd R") (auto simp: target_events_def root_put_eq)
    qed
  qed
qed

lemma outcome_args:
  assumes "list_all shallow As"
  shows "outcome x X St F (fst (flow_args E roomy n I As St F)) (snd (flow_args E roomy n I As St F)) (ends Done {arg_events E n I As})"
  using assms
proof (induction E "roomy" n I As St F rule: flow_args.induct)
  case (2 E n I A As St F)
  obtain St1 F1 where 1: "(if passes_by_ref E n I then flowWrite roomy A St F else (St, flowRead roomy A St F)) = (St1, F1)"
    by (metis surj_pair)
  have "outcome x X St F St1 F1 (ends Done {if passes_by_ref E n I then ref_events A else gets A})"
    using 1 2(2) outcome_ref [of A x X St F] outcome_read [of A x X St F] by (cases "passes_by_ref E n I") auto
  from outcome_seq [OF this 2(1) [OF 1 [symmetric]]]
  have "outcome x X St F (fst (flow_args E roomy n (Suc I) As St1 F1)) (snd (flow_args E roomy n (Suc I) As St1 F1)) (ends Done {arg_events E n I (A # As)})"
    using 2(2) by simp
  moreover have "flow_args E roomy n I (A # As) St F = flow_args E roomy n (Suc I) As St1 F1"
    unfolding flow_args.simps 1 by simp
  ultimately show ?case by metis
qed (simp add: outcome_skip)

subsection \<open>Loops\<close>

text \<open>The body of a loop is walked with a flag of its own for \<open>Break\<close>.\<close>

lemma reports_flags [simp]:
  "reports (F\<lparr>FlowLoopBroke := b\<rparr>) G = reports F G" "reports F (G\<lparr>FlowLoopBroke := b\<rparr>) = reports F G"
  "reports F (G\<lparr>FlowResultMaybeUnset := b\<rparr>) = reports F G"
  by (simp_all add: reports_def fresh_warnings_def)

lemma outcome_while:
  assumes "outcome x X St F St F0 (ends Done {map Get ks})" "outcome x X St (F0\<lparr>FlowLoopBroke := False\<rparr>) Body F1 B"
  shows "outcome x X St F (St\<lparr>UndefAfterFor := U\<rparr>) (F1\<lparr>FlowLoopBroke := FlowLoopBroke F0\<rparr>)
    (andthen (ends Done {map Get ks}) (caught (iter (andthen (again B) (ends Done {map Get ks})) [])))" (is "outcome x X St F ?St ?F ?P")
proof (cases "Dead St")
  case False
  note 1 = outcomeD [OF assms(1) False] and 2 = outcomeD [OF assms(2) False]
  show ?thesis
  proof (rule outcomeI)
    show "reports F ?F" using 1(2) 2(2) reports_trans by simp
    show "res_ok x (FlowResultNames F) ?P (ResultAssigned St) (FlowResultMaybeUnset F) (ResultAssigned ?St) (FlowResultMaybeUnset ?F)"
      if "FlowResultNames F \<noteq> {}"
    proof -
      have "res_ok x (FlowResultNames F) B (ResultAssigned St) (FlowResultMaybeUnset F0) (ResultAssigned Body) (FlowResultMaybeUnset F1)"
        using 2(7) 1(5) that by simp
      then have "res_ok x (FlowResultNames F) (caught (iter (andthen (again B) (ends Done {map Get ks})) []))
          (ResultAssigned St) (FlowResultMaybeUnset F0) (ResultAssigned St) (FlowResultMaybeUnset F1)"
        by (intro res_ok_loop) (simp_all add: res_ok_def)
      from res_ok_seq [OF 1(7) [OF that] this] show ?thesis by simp
    qed
    show "key_ok k (k \<in> X) ?P (k \<in> Assigned St) (k \<in> FlowReported F) (k \<in> Assigned ?St) (k \<in> FlowReported ?F)"
      if "k \<in> FlowTracked F - FlowResultNames F" for k
    proof -
      have "key_ok k (k \<in> X) B (k \<in> Assigned St) (k \<in> FlowReported F0) (k \<in> Assigned Body) (k \<in> FlowReported F1)"
        using 2(8) [of k] 1(4,5) that by simp
      then have "reads_ok k (k \<in> X) B (k \<in> Assigned St) (k \<in> FlowReported F0) (k \<in> FlowReported F1)" unfolding key_ok_def by blast
      from key_ok_while [OF 1(8) [OF that] this] show ?thesis by simp
    qed
  qed (use 1 False in simp_all)
qed (simp add: outcome_def)

lemma outcome_repeat:
  assumes "outcome x X St (F\<lparr>FlowLoopBroke := False\<rparr>) St1 F1 B" "outcome x X St1 F1 St1 F2 (ends Done {t})" "B Done \<noteq> {}"
    and "X \<noteq> {} \<or> x \<Longrightarrow> B Broke = {} \<and> B Again = {}" "once = andthen (again B) (ends Done {t})"
  shows "outcome x X St F (St1\<lparr>Dead := Dead St\<rparr>) (F2\<lparr>FlowLoopBroke := FlowLoopBroke F\<rparr>) (caught (andthen once (iter once [])))"
    (is "outcome x X St F ?St ?F ?P")
proof (cases "Dead St")
  case False
  note 1 = outcomeD [OF assms(1) False]
  then have "\<not> Dead St1" using assms(3) by simp
  note 2 = outcomeD [OF assms(2) this]
  have once: "once Done \<noteq> {}" "again B Done \<noteq> {}" "once Broke = B Broke" using assms(3,5) by simp_all
  show ?thesis
  proof (rule outcomeI)
    show "reports F ?F" using 1(2) 2(2) reports_trans by simp
    show "res_ok x (FlowResultNames F) ?P (ResultAssigned St) (FlowResultMaybeUnset F) (ResultAssigned ?St) (FlowResultMaybeUnset ?F)"
      if "FlowResultNames F \<noteq> {}"
    proof -
      have "res_ok x (FlowResultNames F) (again B) (ResultAssigned St) (FlowResultMaybeUnset F) (ResultAssigned St1) (FlowResultMaybeUnset F1)"
        using 1(7) assms(4) that by (intro res_ok_again [where P = B]) (simp_all add: assms(3))
      moreover have "res_ok x (FlowResultNames F) (ends Done {t}) (ResultAssigned St1) (FlowResultMaybeUnset F1) (ResultAssigned St1) (FlowResultMaybeUnset F2)"
        using 2(7) 1(5) that by simp
      ultimately show ?thesis using assms(4) once by (intro res_ok_repeat) (auto simp: assms(5) intro: res_ok_seq)
    qed
    show "key_ok k (k \<in> X) ?P (k \<in> Assigned St) (k \<in> FlowReported F) (k \<in> Assigned ?St) (k \<in> FlowReported ?F)"
      if "k \<in> FlowTracked F - FlowResultNames F" for k
    proof -
      have "key_ok k (k \<in> X) (again B) (k \<in> Assigned St) (k \<in> FlowReported F) (k \<in> Assigned St1) (k \<in> FlowReported F1)"
        using 1(8) assms(4) that by (intro key_ok_again [where P = B]) (auto simp: assms(3))
      moreover have "key_ok k (k \<in> X) (ends Done {t}) (k \<in> Assigned St1) (k \<in> FlowReported F1) (k \<in> Assigned St1) (k \<in> FlowReported F2)"
        using 2(8) 1(4,5) that by simp
      ultimately have "key_ok k (k \<in> X) once (k \<in> Assigned St) (k \<in> FlowReported F) (k \<in> Assigned St1) (k \<in> FlowReported F2)"
        unfolding assms(5) using once(2) by (intro key_ok_seq) simp_all
      then have "key_ok k (k \<in> X) ?P (k \<in> Assigned St) (k \<in> FlowReported F) (k \<in> Assigned St1) (k \<in> FlowReported F2)"
        by (rule key_ok_repeat [where P = once]) (use assms(4) once in auto)
      then show ?thesis by simp
    qed
  qed (use 1 2 False once in \<open>auto simp: assms(5) every_def\<close>)
qed (simp add: outcome_def)

lemma reads_ok_step:
  assumes "reads_ok k x B a r s" "every B \<noteq> {}" "j \<noteq> k"
  shows "reads_ok k x (andthen (ends Done {[Step j]}) (again B)) a r s"
proof -
  have "every (andthen (ends Done {[Step j]}) (again B)) = conc {[Step j]} (every B)" by simp
  then show ?thesis using assms by (simp add: reads_ok_def may_conc del: every_seq)
qed

lemma outcome_for:
  assumes "outcome x X (enter_for Key St) (F\<lparr>FlowLoopBroke := False\<rparr>) Body F1 B" "Key \<notin> X"
    and "e = [] \<or> e = [Lose Key]" "kept \<or> e = [Lose Key]"
  shows "outcome x X St F (leave_for kept Key St Body F1) (F1\<lparr>FlowLoopBroke := FlowLoopBroke F\<rparr>)
    (caught (iter (andthen (ends Done {[Step Key]}) (again B)) e))" (is "outcome x X St F ?St ?F ?P")
proof (cases "Dead St")
  case False
  then have live: "\<not> Dead (enter_for Key St)" by (simp add: enter_for_def)
  note 1 = outcomeD [OF assms(1) live]
  show ?thesis
  proof (rule outcomeI)
    show "res_ok x (FlowResultNames F) ?P (ResultAssigned St) (FlowResultMaybeUnset F) (ResultAssigned ?St) (FlowResultMaybeUnset ?F)"
      if "FlowResultNames F \<noteq> {}"
    proof -
      have "res_ok x (FlowResultNames F) B (ResultAssigned St) (FlowResultMaybeUnset F) (ResultAssigned Body) (FlowResultMaybeUnset F1)"
        using 1(7) that by (simp add: enter_for_def)
      moreover have "\<not> gives (FlowResultNames F) e" using assms(3) by auto
      ultimately have "res_ok x (FlowResultNames F) ?P (ResultAssigned St) (FlowResultMaybeUnset F) (ResultAssigned St) (FlowResultMaybeUnset F1)"
        by (intro res_ok_loop) (simp_all add: res_ok_def sets_one_conc)
      moreover have "ResultAssigned ?St = ResultAssigned St" by (simp add: leave_for_def Let_def)
      ultimately show ?thesis by simp
    qed
    show "key_ok k (k \<in> X) ?P (k \<in> Assigned St) (k \<in> FlowReported F) (k \<in> Assigned ?St) (k \<in> FlowReported ?F)"
      if k: "k \<in> FlowTracked F - FlowResultNames F" for k
    proof (cases "k = Key")
      case True
      have "k \<in> FlowTracked F1" using 1(4) k by simp
      then have "e = [] \<and> k \<in> Assigned ?St \<or> e = [Lose k]" using assms(3,4) True by (cases kept) (auto simp: leave_for_def Let_def)
      moreover have "reads_ok k (k \<in> X) B True (k \<in> FlowReported F) (k \<in> FlowReported F1)"
        using 1(8) [of k] k True by (simp add: enter_for_def key_ok_def)
      ultimately show ?thesis using key_ok_for_control [OF _ 1(3)] assms(2) True by simp
    next
      case False
      then have "k \<in> Assigned ?St \<longleftrightarrow> k \<in> Assigned St" by (simp add: leave_for_def Let_def)
      moreover have "reads_ok k (k \<in> X) B (k \<in> Assigned St) (k \<in> FlowReported F) (k \<in> FlowReported F1)"
        using 1(8) [of k] k False by (simp add: enter_for_def key_ok_def)
      ultimately show ?thesis using key_ok_loop [OF reads_ok_step [OF _ 1(3)], of k _ _ _ _ Key e] False assms(3) by auto
    qed
  qed (use 1 False in \<open>simp_all add: leave_for_def Let_def\<close>)
qed (simp add: outcome_def)

subsection \<open>The walk over a statement\<close>

definition sound_on :: "bool \<Rightarrow> bytes set \<Rightarrow> flow_env \<Rightarrow> stmt \<Rightarrow> bool" where
  "sound_on x X E S \<longleftrightarrow> (\<forall>St F. outcome x X St F (fst (flowStmt E roomy S St F)) (snd (flowStmt E roomy S St F)) (paths E S))"

lemma sound_ptr:
  assumes "\<forall>S\<in>set_option P. sound_on x X E S"
  shows "outcome x X St F (fst (flowPtr E roomy P St F)) (snd (flowPtr E roomy P St F)) (pathsPtr E P)"
  using assms by (cases P) (simp_all add: outcome_skip sound_on_def)

lemma sound_seq:
  assumes "\<forall>S\<in>set ss. sound_on x X E S" "reached E ss"
  shows "outcome x X St F (fst (flowSeq E roomy ss St F)) (snd (flowSeq E roomy ss St F)) (pathsSeq E ss)"
  using assms
proof (induction ss arbitrary: St F)
  case (Cons S ss)
  then have "outcome x X St F (fst (flowStmt E roomy S St F)) (snd (flowStmt E roomy S St F)) (paths E S)"
    by (simp add: sound_on_def)
  from outcome_seq [OF this Cons.IH] this show ?case using Cons.prems by (cases "ss = []") (simp_all add: case_prod_unfold)
qed (simp add: outcome_skip)

text \<open>What the branches of a case-statement leave, merged: nothing before the first.\<close>

definition merged_ok :: "bool \<Rightarrow> bytes set \<Rightarrow> FlowState \<Rightarrow> Flow \<Rightarrow> FlowState option \<Rightarrow> Flow \<Rightarrow> ways \<Rightarrow> bool" where
  "merged_ok x X St F M G L = (case M of None \<Rightarrow> G = F \<and> L = (\<lambda>e. {}) | Some M' \<Rightarrow> outcome x X St F M' G L)"

lemma merged_branch:
  assumes "merged_ok x X St F M G L" "outcome x X St G Br H K"
  shows "merged_ok x X St F (take_branch Br M) H (either L K)"
  using assms outcome_merge [of x X St F _ G L Br H K]
  by (cases M) (auto simp: merged_ok_def take_branch_def)

lemma merged_arms:
  assumes "\<forall>A\<in>set Arms. \<forall>ls S. A = CaseArm ls (Some S) \<longrightarrow> sound_on x X E S" "merged_ok x X St F M G L"
  shows "merged_ok x X St F (fst (flowArms E roomy Arms St M G)) (snd (flowArms E roomy Arms St M G)) (either L (pathsArms E Arms))"
  using assms
proof (induction Arms arbitrary: M G L)
  case (Cons A Arms)
  obtain ls P where A: "A = CaseArm ls P" by (cases A)
  have "outcome x X St G (fst (flowPtr E roomy P St G)) (snd (flowPtr E roomy P St G)) (pathsPtr E P)"
    using Cons.prems(1) A by (intro sound_ptr) auto
  from Cons.IH [OF _ merged_branch [OF Cons.prems(2) this]] Cons.prems(1) show ?case
    by (simp add: A case_prod_unfold either_def Un_assoc)
qed simp

lemma take_branch_Some [simp]: "take_branch Br M \<noteq> None"
  by (simp add: take_branch_def split: option.splits)

lemma flowArms_None: "fst (flowArms E low Arms St M F) = None \<longleftrightarrow> M = None \<and> Arms = []"
proof (induction Arms arbitrary: M F)
  case (Cons A Arms)
  then show ?case by (cases A) (simp add: case_prod_unfold)
qed simp

lemma sound_case:
  assumes "\<forall>A\<in>set Arms. \<forall>ls S. A = CaseArm ls (Some S) \<longrightarrow> sound_on x X E S" "\<forall>S\<in>set_option e. sound_on x X E S"
    and "shallow C" "Arms \<noteq> [] \<or> HasElse"
  shows "sound_on x X E (CaseStmt l C Arms e HasElse)"
  unfolding sound_on_def
proof (intro allI)
  fix St F
  let ?F0 = "flowRead roomy C St F"
  let ?A = "flowArms E roomy Arms St None ?F0"
  have arms: "merged_ok x X St ?F0 (fst ?A) (snd ?A) (pathsArms E Arms)"
    using merged_arms [OF assms(1), of St ?F0 None ?F0 "\<lambda>e. {}"] by (simp add: merged_ok_def)
  let ?P = "flowPtr E roomy e St (snd ?A)"
  let ?M = "if HasElse then (take_branch (fst ?P) (fst ?A), snd ?P)
            else if turbo (EOpts E) then (take_branch St (fst ?A), snd ?A) else ?A"
  let ?L = "either (pathsArms E Arms) (if HasElse then pathsPtr E e else if turbo (EOpts E) then ends Done {[]} else (\<lambda>e. {}))"
  have M: "merged_ok x X St ?F0 (fst ?M) (snd ?M) ?L"
    using merged_branch [OF arms sound_ptr [OF assms(2)]] merged_branch [OF arms outcome_skip] arms by simp
  obtain M' where M': "fst ?M = Some M'" using assms(4) flowArms_None [of E roomy Arms St None ?F0] by (cases "fst ?M") (auto split: if_splits)
  have "outcome x X St ?F0 M' (snd ?M) ?L" using M unfolding M' merged_ok_def by simp
  from outcome_seq [OF outcome_read [OF assms(3), of x X St F] this]
  show "outcome x X St F (fst (flowStmt E roomy (CaseStmt l C Arms e HasElse) St F))
      (snd (flowStmt E roomy (CaseStmt l C Arms e HasElse) St F)) (paths E (CaseStmt l C Arms e HasElse))"
    using M' by (cases HasElse; cases "turbo (EOpts E)") (simp_all add: case_prod_unfold)
qed

text \<open>A call that transfers: nothing gets behind it.\<close>

lemma ending_transfers: "builtinAlwaysTransfers b \<longleftrightarrow> ending_of b \<noteq> Done"
  by (cases b) simp_all

lemma outcome_transfer:
  assumes "outcome x X St F St1 F1 (ends Done {t})"
  shows "outcome x X St F (fst (flow_transfer b St1 F1)) (snd (flow_transfer b St1 F1)) (ends (ending_of b) {t})"
proof (cases "Dead St \<or> ending_of b = Done")
  case True
  then show ?thesis using assms by (auto simp: flow_transfer_def ending_transfers outcome_def)
next
  case False
  then have live: "\<not> Dead St" by simp
  note 1 = outcomeD [OF assms live]
  have b: "b \<in> {BiBreak, BiContinue, BiHalt, BiExit, BiRunError}" using False by (cases b) auto
  show ?thesis
  proof (rule outcomeI)
    show "reports F (snd (flow_transfer b St1 F1))" using 1(2) b by (auto simp: flow_transfer_def)
    show "res_ok x (FlowResultNames F) (ends (ending_of b) {t}) (ResultAssigned St) (FlowResultMaybeUnset F)
        (ResultAssigned (fst (flow_transfer b St1 F1))) (FlowResultMaybeUnset (snd (flow_transfer b St1 F1)))" if "FlowResultNames F \<noteq> {}"
      using 1(7) [OF that] 1(5) that b unfolding insert_iff empty_iff simp_thms
      by (elim disjE; simp add: flow_transfer_def res_ok_def; blast?)
    show "key_ok k (k \<in> X) (ends (ending_of b) {t}) (k \<in> Assigned St) (k \<in> FlowReported F) (k \<in> Assigned (fst (flow_transfer b St1 F1)))
        (k \<in> FlowReported (snd (flow_transfer b St1 F1)))" if "k \<in> FlowTracked F - FlowResultNames F" for k
      using 1(8) [OF that] b unfolding insert_iff empty_iff simp_thms
      by (elim disjE) (simp_all add: flow_transfer_def key_ok_def reads_ok_def)
  qed (use 1 b in \<open>auto simp: flow_transfer_def\<close>)
qed

lemma outcome_exit:
  assumes "shallow A"
  shows "outcome x X St F (St\<lparr>ResultAssigned := True, Dead := True\<rparr>) (flowRead roomy A St F) (ends Gone {gets A @ [Give]})"
proof (cases "Dead St")
  case False
  note 1 = outcomeD [OF outcome_read [OF assms, of x X St F] False]
  show ?thesis
  proof (rule outcomeI)
    show "res_ok x (FlowResultNames F) (ends Gone {gets A @ [Give]}) (ResultAssigned St) (FlowResultMaybeUnset F)
        (ResultAssigned (St\<lparr>ResultAssigned := True, Dead := True\<rparr>)) (FlowResultMaybeUnset (flowRead roomy A St F))"
      using flowRead_only_reports [of F roomy A St] by (simp add: only_reports_def res_ok_def)
    show "key_ok k (k \<in> X) (ends Gone {gets A @ [Give]}) (k \<in> Assigned St) (k \<in> FlowReported F)
        (k \<in> Assigned (St\<lparr>ResultAssigned := True, Dead := True\<rparr>)) (k \<in> FlowReported (flowRead roomy A St F))"
      if "k \<in> FlowTracked F - FlowResultNames F" for k
      using 1(8) [OF that] by (auto simp: key_ok_def reads_ok_def)
  qed (use 1 in simp_all)
qed (simp add: outcome_def)

lemma sound_call:
  assumes "list_all shallow As"
  shows "sound_on x X E (CallStmt l n As)"
  unfolding sound_on_def
proof (intro allI)
  fix St F
  note args = outcome_args [OF assms, of x X St F E n 0]
  show "outcome x X St F (fst (flowStmt E roomy (CallStmt l n As) St F)) (snd (flowStmt E roomy (CallStmt l n As) St F)) (paths E (CallStmt l n As))"
  proof (cases "callee_builtin E n = Some BiExit \<and> As \<noteq> []")
    case True
    then obtain A Bs where "As = A # Bs" by (cases As) auto
    then show ?thesis using True assms outcome_exit [of A x X St F] by (simp add: flow_call_def call_ways_def)
  next
    case False
    then have "flow_call E roomy n As St F = (case callee_builtin E n of None \<Rightarrow> flow_args E roomy n 0 As St F
        | Some b \<Rightarrow> flow_transfer b (fst (flow_args E roomy n 0 As St F)) (snd (flow_args E roomy n 0 As St F)))"
      by (cases As) (auto simp: flow_call_def case_prod_unfold split: option.splits BuiltinID.splits)
    then show ?thesis using args outcome_transfer [OF args] False by (cases "callee_builtin E n") (auto simp: call_ways_def)
  qed
qed

theorem flow_sound_on:
  assumes "plain E S" "controls S \<inter> X = {}" "X \<noteq> {} \<or> x \<Longrightarrow> whole E S"
  shows "sound_on x X E S"
  using assms
proof (induction S rule: measure_induct_rule [where f = size])
  case (less S)
  have kid: "sound_on x X E C" if "C \<in> set (stmt_children S)" for C
    using less.IH [OF size_stmt_children [OF that]] less.prems that plain_unfold [of E S] controls_unfold [of S] whole_unfold [of E S] by blast
  have sh: "\<forall>e\<in>set (stmt_exprs S). shallow e" and pk: "plain_kind E S" using less.prems(1) plain_unfold by blast+
  have ctl: "own_control S \<inter> X = {}" using less.prems(2) controls_unfold [of S] by blast
  show ?case
  proof (cases S)
    case (AssignStmt l T V)
    then show ?thesis unfolding sound_on_def
      using sh pk outcome_seq [OF outcome_read outcome_target, of V T x X] by simp
  next
    case (CompoundStmt l ss)
    then show ?thesis unfolding sound_on_def using kid pk sound_seq [of ss x X E] by simp
  next
    case (IfStmt l C T e)
    then have T: "\<forall>S\<in>set_option T. sound_on x X E S" and e: "\<forall>S\<in>set_option e. sound_on x X E S" using kid by simp_all
    show ?thesis unfolding sound_on_def
      using IfStmt sh outcome_seq [OF outcome_read outcome_merge [OF sound_ptr [OF T] sound_ptr [OF e]], of C] by (simp add: case_prod_unfold)
  next
    case (WhileStmt l C P)
    then have P: "\<forall>S\<in>set_option P. sound_on x X E S" using kid by simp
    show ?thesis unfolding sound_on_def
      using WhileStmt sh outcome_while [OF outcome_read sound_ptr [OF P], of C] by (simp add: case_prod_unfold Let_def)
  next
    case (ForStmt l V A B d P)
    then have P: "\<forall>S\<in>set_option P. sound_on x X E S" using kid by simp
    have rd: "outcome x X St F St (flowRead roomy B St (flowRead roomy A St F)) (ends Done {gets A @ gets B})" for St F
      using sh ForStmt outcome_seq [OF outcome_read outcome_read, of A B x X St F] by simp
    show ?thesis unfolding sound_on_def
    proof (intro allI)
      fix St F
      show "outcome x X St F (fst (flowStmt E roomy S St F)) (snd (flowStmt E roomy S St F)) (paths E S)"
        using ForStmt ctl outcome_seq [OF rd [of St F] outcome_for [OF sound_ptr [OF P], where Key = "toLower V"
            and e = "if turbo (EOpts E) then [] else [Lose (toLower V)]"]]
        by (cases "turbo (EOpts E)") (simp_all add: case_prod_unfold Let_def)
    qed
  next
    case (ForInStmt l V C P)
    then have P: "\<forall>S\<in>set_option P. sound_on x X E S" using kid by simp
    show ?thesis unfolding sound_on_def
    proof (intro allI)
      fix St F
      show "outcome x X St F (fst (flowStmt E roomy S St F)) (snd (flowStmt E roomy S St F)) (paths E S)"
        using ForInStmt ctl sh outcome_seq [OF outcome_read [of C x X St F] outcome_for [OF sound_ptr [OF P], where Key = "toLower V" and e = "[Lose (toLower V)]"]]
        by (simp add: case_prod_unfold Let_def)
    qed
  next
    case (RepeatStmt l ss C)
    then have P: "\<forall>S\<in>set ss. sound_on x X E S" "reached E ss" "pathsSeq E ss Done \<noteq> {}" using kid pk by simp_all
    have w: "pathsSeq E ss Broke = {} \<and> pathsSeq E ss Again = {}" if "X \<noteq> {} \<or> x"
      using less.prems(3) [OF that] whole_unfold [of E S] RepeatStmt by simp
    show ?thesis unfolding sound_on_def
    proof (intro allI)
      fix St F
      have "shallow C" using sh RepeatStmt by simp
      from outcome_repeat [OF sound_seq [OF P(1,2)] outcome_read [OF this] P(3) w refl, of St F]
      show "outcome x X St F (fst (flowStmt E roomy S St F)) (snd (flowStmt E roomy S St F)) (paths E S)"
        using RepeatStmt by (simp add: case_prod_unfold Let_def)
    qed
  next
    case (CallStmt l n As)
    then show ?thesis using sh sound_call [of As x X E l n] by (simp add: list_all_iff)
  next
    case (WithStmt l Rs P)
    then have P: "\<forall>S\<in>set_option P. sound_on x X E S" using kid by simp
    show ?thesis unfolding sound_on_def
      using WithStmt sh outcome_seq [OF outcome_reads sound_ptr [OF P], of Rs] by (simp add: list_all_iff)
  next
    case (CaseStmt l C Arms e HasElse)
    then show ?thesis using kid sh pk sound_case [of Arms x X E e C HasElse l] by auto
  qed (use pk in simp_all)
qed

subsection \<open>Every walk, whatever it walks over\<close>

lemma reports_read [simp]: "reports F (flowRead low e St F)"
  using flowRead_only_reports by (simp add: only_reports_def)

lemma reports_write [simp]: "reports F (snd (flowWrite low e St F))"
  by (simp add: flowWrite_def Let_def split: option.splits Expr.splits)

lemma reports_target: "reports F (flow_target low T St F)"
proof -
  have "only_reports F (walkExprs low (\<lambda>X F. if fst X = r then F else if \<not> is_IdentExpr (snd X) then F
      else flowRead (\<lambda>k. low (length (fst X) + k)) (snd X) St F) 0 ([], T) F)" for r
    by (rule only_reports_walk) (simp add: flowRead_only_reports)
  then show ?thesis using reports_trans [OF _ reports_read]
    by (auto simp: flow_target_def Let_def only_reports_def split: option.splits)
qed

lemma reports_fold: "(\<And>x F. reports F (f x F)) \<Longrightarrow> reports F (fold f xs F)"
  by (induction xs arbitrary: F) (auto intro: reports_trans)

lemma reports_args: "reports F (snd (flow_args E low n I As St F))"
proof (induction E low n I As St F rule: flow_args.induct)
  case (2 E low n I A As St F)
  obtain St1 F1 where 1: "(if passes_by_ref E n I then flowWrite low A St F else (St, flowRead low A St F)) = (St1, F1)"
    by (metis surj_pair)
  then have "F1 = snd (if passes_by_ref E n I then flowWrite low A St F else (St, flowRead low A St F))" by simp
  then have "reports F F1" by simp
  then show ?case using 2 [OF 1 [symmetric]] unfolding flow_args.simps 1 by (auto intro: reports_trans)
qed simp

lemma reports_call: "reports F (snd (flow_call E low n As St F))"
proof -
  have "reports F (snd (flow_transfer b (fst P) (snd P)))" if "reports F (snd P)" for b P
    using that by (cases b) (simp_all add: flow_transfer_def)
  then show ?thesis using reports_args [of F E low n 0 As St]
    by (auto simp: flow_call_def case_prod_unfold split: option.splits list.splits BuiltinID.splits)
qed

lemma reports_flowStmt:
  "reports F (snd (flowStmt E low S St F))"
  "reports F (snd (flowPtr E low P St F))"
  "reports F (snd (flowSeq E low ss St F))"
  "reports F (snd (flowArms E low Arms St M F))"
proof (induction E low S St F and E low P St F and E low ss St F and E low Arms St M F rule: flowStmt_flowPtr_flowSeq_flowArms.induct)
  case (2 E low l T V St F)
  then show ?case by (auto intro: reports_trans [OF reports_trans [OF reports_read reports_target] reports_write])
next
  case (3 E low l n As St F)
  then show ?case by (simp add: reports_call)
next
  case (4 E low l C T e St F)
  then show ?case using 4(2) [OF prod.collapse]
    by (auto simp: case_prod_unfold intro: reports_trans [OF reports_trans [OF reports_read 4(1)]])
next
  case (7 E low l V A B d S St F)
  then show ?case by (auto simp: case_prod_unfold Let_def intro: reports_trans [OF reports_trans [OF reports_read reports_read]])
next
  case (9 E low l X Arms e HasElse St F)
  show ?case using 9(2) [OF prod.collapse]
    by (auto simp: case_prod_unfold intro: reports_trans [OF reports_read 9(1)] reports_trans [OF reports_trans [OF reports_read 9(1)]])
next
  case (10 E low l Rs S St F)
  then show ?case by (auto intro: reports_trans [OF reports_fold [of "\<lambda>R. flowRead low R St"]])
qed (auto simp: case_prod_unfold Let_def intro: reports_trans reports_trans [OF reports_read])

end
