(* ===== verification/Flow_Check.thy ===== *)
theory Flow_Check
  imports Flow_Props
begin

text \<open>
  The entry point of the definite-assignment analysis, \<^verbatim>\<open>Sema::checkDefiniteAssignment\<close>: what its warnings say
  about the paths through a block.
\<close>

subsection \<open>What is tracked\<close>

definition body_of_block :: "BlockNode \<Rightarrow> stmt option" where
  "body_of_block Block = (case block_parts Block of (labels, Vs, Ps, Body) \<Rightarrow> Body)"

definition labels_of_block :: "BlockNode \<Rightarrow> bytes list" where
  "labels_of_block Block = (case block_parts Block of (labels, Vs, Ps, Body) \<Rightarrow> labels)"

definition hidden_names :: "(nat \<Rightarrow> bool) \<Rightarrow> BlockNode \<Rightarrow> bytes set" where
  "hidden_names low Block = (case block_parts Block of (labels, Vs, Ps, Body) \<Rightarrow> collectNamesUsedIn low Ps {})"

definition tracked_vars :: "flow_env \<Rightarrow> (nat \<Rightarrow> bool) \<Rightarrow> BlockNode \<Rightarrow> bytes set" where
  "tracked_vars E low Block = (case block_parts Block of (labels, Vs, Ps, Body) \<Rightarrow> fst (track_vars E (hidden_names low Block) Vs))"

definition preset_vars :: "flow_env \<Rightarrow> (nat \<Rightarrow> bool) \<Rightarrow> BlockNode \<Rightarrow> bytes set" where
  "preset_vars E low Block = (case block_parts Block of (labels, Vs, Ps, Body) \<Rightarrow> snd (track_vars E (hidden_names low Block) Vs))"

definition block_function :: "flow_env \<Rightarrow> (nat \<Rightarrow> bool) \<Rightarrow> flow_site \<Rightarrow> BlockNode \<Rightarrow> (ProcDecl \<times> bytes set) option" where
  "block_function E low site Block = flow_results E (hidden_names low Block) site Block"

definition result_keys :: "flow_env \<Rightarrow> (nat \<Rightarrow> bool) \<Rightarrow> flow_site \<Rightarrow> BlockNode \<Rightarrow> bytes set" where
  "result_keys E low site Block = (case block_function E low site Block of None \<Rightarrow> {} | Some (P, ns) \<Rightarrow> ns)"

subsection \<open>The walk the entry point runs\<close>

definition walk_start :: "flow_env \<Rightarrow> (nat \<Rightarrow> bool) \<Rightarrow> flow_site \<Rightarrow> BlockNode \<Rightarrow> Flow \<Rightarrow> Flow" where
  "walk_start E low site Block F = F\<lparr>FlowTracked := tracked_vars E low Block, FlowResultNames := result_keys E low site Block,
     FlowReported := {}, FlowResultMaybeUnset := False\<rparr>"

definition walk_runs :: "flow_env \<Rightarrow> (nat \<Rightarrow> bool) \<Rightarrow> flow_site \<Rightarrow> BlockNode \<Rightarrow> bool" where
  "walk_runs E low site Block \<longleftrightarrow> \<not> HasErrors site \<and> flowIsFollowable low Block
     \<and> (tracked_vars E low Block \<noteq> {} \<or> block_function E low site Block \<noteq> None)"

definition walk_end :: "flow_env \<Rightarrow> (nat \<Rightarrow> bool) \<Rightarrow> flow_site \<Rightarrow> BlockNode \<Rightarrow> stmt \<Rightarrow> Flow \<Rightarrow> FlowState \<times> Flow" where
  "walk_end E low site Block Body F =
     flowStmt E low Body (initialFlowState (preset_vars E low Block)) (walk_start E low site Block F)"

definition result_warning :: "flow_env \<Rightarrow> (nat \<Rightarrow> bool) \<Rightarrow> flow_site \<Rightarrow> BlockNode \<Rightarrow> FlowState \<times> Flow \<Rightarrow> (Token \<times> FlowDiag \<times> bytes list) list" where
  "result_warning E low site Block out = (case block_function E low site Block of
     None \<Rightarrow> []
   | Some (P, ns) \<Rightarrow>
       if (\<not> ResultAssigned (fst out) \<or> FlowResultMaybeUnset (snd out)) \<and> ResultFrame site = Some True
       then [(ProcLoc (proc_head P), warn_result_not_always_set, [ProcName (proc_head P)])] else [])"

lemma check_members:
  "FlowTracked (checkDefiniteAssignment E low site Block F) = FlowTracked F"
  "FlowResultNames (checkDefiniteAssignment E low site Block F) = FlowResultNames F"
  "FlowReported (checkDefiniteAssignment E low site Block F) = FlowReported F"
  "FlowResultMaybeUnset (checkDefiniteAssignment E low site Block F) = FlowResultMaybeUnset F"
  by (simp_all add: checkDefiniteAssignment_def Let_def split: prod.splits option.splits)

lemma check_diags:
  "FlowDiags (checkDefiniteAssignment E low site Block F) =
     (case body_of_block Block of
        Some Body \<Rightarrow> if walk_runs E low site Block
          then FlowDiags (snd (walk_end E low site Block Body F)) @ result_warning E low site Block (walk_end E low site Block Body F)
          else FlowDiags F
      | None \<Rightarrow> FlowDiags F)"
  by (cases "block_parts Block")
    (auto simp: checkDefiniteAssignment_def body_of_block_def walk_runs_def walk_end_def walk_start_def result_warning_def result_keys_def
      block_function_def tracked_vars_def preset_vars_def hidden_names_def flow_warning_def Let_def case_prod_unfold split: option.splits)

text \<open>The warnings the walk itself appends.\<close>

lemma walk_reports:
  obtains ds where "FlowDiags (snd (walk_end E low site Block Body F)) = FlowDiags F @ ds"
    and "FlowReported (snd (walk_end E low site Block Body F)) = warned ` set ds" "distinct (map warned ds)"
    and "\<forall>(l, d, as)\<in>set ds. d \<noteq> warn_result_not_always_set \<and> length as = 1"
    and "warned ` set ds \<subseteq> tracked_vars E low Block"
proof -
  have "reports (walk_start E low site Block F) (snd (walk_end E low site Block Body F))"
    by (simp add: walk_end_def reports_flowStmt)
  then show ?thesis using that by (auto simp: reports_def fresh_warnings_def walk_start_def)
qed



subsection \<open>What the walk reports\<close>






subsection \<open>Blocks to try the walk on\<close>

text \<open>\<^verbatim>\<open>var x: integer; begin x := x end\<close>, as a program block, and the body of a function \<open>f\<close> that exits before it has a
  result: \<^verbatim>\<open>begin if x then exit; f := x end\<close>.\<close>

definition sample_token :: Token where
  "sample_token = \<lparr>Kind = tkEof, Lexeme = [], Loc = 0\<rparr>"

definition sample_sym :: "SymbolKind \<Rightarrow> bytes \<Rightarrow> BuiltinID \<Rightarrow> flow_sym Symbol" where
  "sample_sym k n b = \<lparr>SymKind = k, SymName = n, ScopeDepth = 0, IsRequiredIdentifier = False,
     SymRest = \<lparr>SymIsBindable = False, SymDeclType = Some TkInteger, SymBuiltinKind = b, SymParamIsVar = []\<rparr>\<rparr>"

definition sample_env :: flow_env where
  "sample_env = \<lparr>EOpts = plain_opts Turbo,
     ESymtab = snd (define_symbol (sample_sym SkVar ''x'' BiNone)
       (snd (define_symbol (sample_sym SkBuiltin ''exit'' BiExit) (pushScope True emptyTable)))),
     EDenotes = (\<lambda>t. None), EHeading = (\<lambda>p. p)\<rparr>"

definition sample_body :: stmt where
  "sample_body = AssignStmt sample_token (IdentExpr sample_token ''X'') (IdentExpr sample_token ''x'')"


definition sample_block :: "stmt \<Rightarrow> BlockNode" where
  "sample_block S = BlockNode sample_token [] [] []
     [\<lparr>VarGroupNames = [''x''], VarNameLocs = [0], VarType = NamedTypeNode (at_loc sample_token) ''integer'' False,
       InitExpr = None, AbsoluteExpr = None\<rparr>] [] (Some S)"


definition sample_flow :: Flow where
  "sample_flow = \<lparr>FlowTracked = {}, FlowResultNames = {}, FlowReported = {}, FlowLoopBroke = False,
     FlowResultMaybeUnset = False, FlowDiags = []\<rparr>"

definition sample_site :: "ProcDecl option \<Rightarrow> flow_site" where
  "sample_site P = \<lparr>CurrentProc = P, ResultFrame = Some True, HasErrors = False\<rparr>"

lemma evaluates_ident [simp]: "evaluates_all (IdentExpr l n)"
  by (simp add: evaluates_all_def set_nodes [of "([], IdentExpr l n)"] kids_def)







subsection \<open>The properties\<close>








text \<open>Whatever the block, and wherever the walk stops: one warning at most for every variable, none but the last
  about the result, none at all after an error or in a block with labels, and the members of the analysis the walk
  borrows are put back.\<close>

theorem flow_walk_frame:
  "\<exists>ds rs. FlowDiags (checkDefiniteAssignment E low site Block F) = FlowDiags F @ ds @ rs
     \<and> distinct (map warned ds) \<and> warned ` set ds \<subseteq> tracked_vars E low Block
     \<and> warn_result_not_always_set \<notin> (fst \<circ> snd) ` set ds \<and> (length rs \<le> 1 \<and> (fst \<circ> snd) ` set rs \<subseteq> {warn_result_not_always_set})
     \<and> (HasErrors site \<or> labels_of_block Block \<noteq> [] \<longrightarrow> ds @ rs = [])
     \<and> FlowTracked (checkDefiniteAssignment E low site Block F) = FlowTracked F
     \<and> FlowResultNames (checkDefiniteAssignment E low site Block F) = FlowResultNames F
     \<and> FlowReported (checkDefiniteAssignment E low site Block F) = FlowReported F
     \<and> FlowResultMaybeUnset (checkDefiniteAssignment E low site Block F) = FlowResultMaybeUnset F"
proof (cases "walk_runs E low site Block \<and> body_of_block Block \<noteq> None")
  case True
  then obtain Body where B: "body_of_block Block = Some Body" by auto
  obtain ws where ws: "FlowDiags (snd (walk_end E low site Block Body F)) = FlowDiags F @ ws"
      "distinct (map warned ws)" "\<forall>(l, d, as)\<in>set ws. d \<noteq> warn_result_not_always_set \<and> length as = 1"
      "warned ` set ws \<subseteq> tracked_vars E low Block"
    by (rule walk_reports)
  let ?rs = "result_warning E low site Block (walk_end E low site Block Body F)"
  have "labels_of_block Block = []" "\<not> HasErrors site"
    using True by (auto simp: walk_runs_def flowIsFollowable_def labels_of_block_def split: prod.splits if_splits)
  moreover have "length ?rs \<le> 1 \<and> (fst \<circ> snd) ` set ?rs \<subseteq> {warn_result_not_always_set}"
    by (auto simp: result_warning_def split: option.splits)
  moreover have "warn_result_not_always_set \<notin> (fst \<circ> snd) ` set ws" using ws(3) by force
  ultimately show ?thesis
    using True B ws by (intro exI [of _ ws] exI [of _ ?rs]) (simp add: check_diags check_members)
next
  case False
  then have "FlowDiags (checkDefiniteAssignment E low site Block F) = FlowDiags F" by (auto simp: check_diags split: option.splits)
  then show ?thesis by (intro exI [of _ "[]"]) (simp add: check_members)
qed

theorem flow_walk_frame_witness:
  "FlowDiags (checkDefiniteAssignment sample_env (\<lambda>k. False) ((sample_site None)\<lparr>HasErrors := True\<rparr>) (sample_block sample_body) sample_flow)
   = FlowDiags sample_flow"
  using flow_walk_frame [of sample_env "\<lambda>k. False" "(sample_site None)\<lparr>HasErrors := True\<rparr>" "sample_block sample_body" sample_flow] by auto

subsection \<open>Where the walk is off\<close>

lemma reports_grows: "reports F G \<Longrightarrow> FlowReported F \<subseteq> FlowReported G"
  by (auto simp: reports_def)

lemma shallow_lit [simp]: "shallow (IntLitExpr l v b)"
  unfolding shallow_def by (subst expr_depth.simps) (simp add: MaxWalkDepth_def)

lemma reads_lit [simp]: "reads (IntLitExpr l v b) = []"
  by (subst reads.simps) simp

text \<open>A copy of a variable that has no value is reported.\<close>

lemma copy_reported:
  assumes "toLower x \<in> FlowTracked F - Assigned St"
  shows "toLower x \<in> FlowReported (snd (flowStmt E roomy (AssignStmt a T (IdentExpr p x)) St F))"
proof -
  let ?F1 = "flowRead roomy (IdentExpr p x) St F"
  have "toLower x \<in> FlowReported ?F1" using assms by (simp add: flowRead_reported)
  moreover have "FlowReported ?F1 \<subseteq> FlowReported (snd (flowWrite roomy T St (flow_target roomy T St ?F1)))"
    by (rule reports_grows [OF reports_trans [OF reports_target reports_write]])
  ultimately show ?thesis by auto
qed

text \<open>
  The arguments of a method call are not looked at: a variable given its value by a \<open>var\<close> parameter of a method is
  reported when it is read next.  The same holds of a call through a procedural value.
\<close>

lemma method_argument_reported:
  assumes "toLower x \<in> FlowTracked F - Assigned St"
  shows "toLower x \<in> FlowReported (snd (flowSeq E roomy [MethodCallStmt a r m [IdentExpr p x], AssignStmt b T (IdentExpr q x)] St F))"
    and "toLower x \<in> FlowReported (snd (flowSeq E roomy [IndirectCallStmt a r [IdentExpr p x], AssignStmt b T (IdentExpr q x)] St F))"
  using copy_reported [OF assms] by (simp_all add: case_prod_unfold)

text \<open>
  Names are names: in the body of a with-statement a field called like a tracked variable is taken for the variable.
\<close>

lemma with_field_reported:
  assumes "toLower x \<in> FlowTracked F - Assigned St"
  shows "toLower x \<in> FlowReported (snd (flowStmt E roomy (WithStmt a [IdentExpr b r] (Some (AssignStmt c T (IdentExpr p x)))) St F))"
proof -
  have "FlowTracked (flowRead roomy (IdentExpr b r) St F) = FlowTracked F"
    using flowRead_only_reports only_reports_same by blast
  then show ?thesis using copy_reported [of x "flowRead roomy (IdentExpr b r) St F" St] assms by simp
qed

text \<open>
  One branch that does not assign is enough.  The comments over the walk say it warns only where no path to the read
  assigns the variable; here one does.
\<close>

lemma half_assigned_reported:
  assumes "toLower x \<in> FlowTracked F - Assigned St" "toLower x \<notin> FlowResultNames F" "\<not> Dead St"
    and "prog = [IfStmt a (IdentExpr p c) (Some (AssignStmt b (IdentExpr q x) (IntLitExpr r 1 w))) None, AssignStmt d (IdentExpr s y) (IdentExpr u x)]"
    and "toLower c \<noteq> toLower x" "toLower y \<noteq> toLower x"
  shows "[Get (toLower c), Put (toLower x), Get (toLower x), Put (toLower y)] \<in> pathsSeq E prog Done"
    and "toLower x \<in> FlowReported (snd (flowSeq E roomy prog St F))"
proof -
  have ev: "target_events (IdentExpr l n) = [Put (toLower n)]" for l :: Token and n by (simp add: target_events_def root_put_def)
  have paths: "pathsSeq E prog Done = {[Get (toLower c), Put (toLower x), Get (toLower x), Put (toLower y)], [Get (toLower c), Get (toLower x), Put (toLower y)]}"
    "elsewhere (pathsSeq E prog) = {}"
    by (auto simp: assms(4) ev conc_def elsewhere_def)
  then show "[Get (toLower c), Put (toLower x), Get (toLower x), Put (toLower y)] \<in> pathsSeq E prog Done" by simp
  have "plain E (CompoundStmt a prog)" by (simp add: assms(4))
  moreover have "controls (CompoundStmt a prog) = {}" by (simp add: assms(4))
  moreover have "whole E (CompoundStmt a prog)" unfolding whole_def assms(4) by (auto simp: sub_stmts.simps)
  ultimately have "outcome False {toLower x} St F (fst (flowSeq E roomy prog St F)) (snd (flowSeq E roomy prog St F)) (pathsSeq E prog)"
    using flow_sound_on [of E "CompoundStmt a prog" "{toLower x}" False] by (simp add: sound_on_def)
  note k = key_okD(5) [OF outcomeD(8) [OF this assms(3), of "toLower x"]]
  have "may (toLower x) (toLower x \<in> Assigned St) (every (pathsSeq E prog))" using assms(1,5) by (simp add: every_split paths)
  then show "toLower x \<in> FlowReported (snd (flowSeq E roomy prog St F))" using k assms(1,2) by simp
qed

text \<open>
  What stands behind a statement that always transfers is walked like anything else, and a read there is reported though
  nothing reaches it.
\<close>

lemma dead_read_reported:
  assumes "toLower x \<in> FlowTracked F - Assigned St" "callee_builtin E n = Some BiExit"
  shows "toLower x \<in> FlowReported (snd (flowSeq E roomy [CallStmt a n [], AssignStmt b T (IdentExpr q x)] St F))"
    and "pathsSeq E [CallStmt a n [], AssignStmt b T (IdentExpr q x)] = ends Gone {[]}"
proof -
  obtain St1 F1 where 1: "flow_call E roomy n [] St F = (St1, F1)" by (metis surj_pair)
  then have "Assigned St1 = Assigned St" "FlowTracked F1 = FlowTracked F"
    using assms(2) by (auto simp: flow_call_def flow_transfer_def split: if_splits)
  then show "toLower x \<in> FlowReported (snd (flowSeq E roomy [CallStmt a n [], AssignStmt b T (IdentExpr q x)] St F))"
    using copy_reported [of x F1 St1] assms(1) 1 by (simp add: case_prod_unfold)
  show "pathsSeq E [CallStmt a n [], AssignStmt b T (IdentExpr q x)] = ends Gone {[]}"
    by (simp add: call_ways_def assms(2) andthen_def ends_def fun_eq_iff)
qed

text \<open>
  A repeat-statement left by \<open>Break\<close>: the walk takes what holds at the end of the body, so a variable assigned only
  behind the \<open>Break\<close> is taken to have a value.
\<close>

lemma broken_repeat_trusted:
  assumes "toLower x \<in> FlowTracked F - FlowResultNames F" "\<not> Dead St" "callee_builtin E n = Some BiBreak"
    and "loop = RepeatStmt a [IfStmt b (IdentExpr p c) (Some (CallStmt d n [])) None, AssignStmt e (IdentExpr q x) (IntLitExpr r 1 w)] (IdentExpr s c)"
  shows "toLower x \<in> Assigned (fst (flowStmt E roomy loop St F))" and "[Get (toLower c)] \<in> paths E loop Done"
proof -
  have t: "FlowTracked (flowRead roomy e St' F') = FlowTracked F' \<and> FlowResultNames (flowRead roomy e St' F') = FlowResultNames F'" for e St' F'
    using flowRead_only_reports only_reports_same by blast
  show "toLower x \<in> Assigned (fst (flowStmt E roomy loop St F))"
    using assms(1,2) by (simp add: assms(3,4) flow_call_def flow_transfer_def mergeWith_def flowWrite_def flow_target_def t Let_def)
  have "[Get (toLower c)] \<in> andthen (again (pathsSeq E [IfStmt b (IdentExpr p c) (Some (CallStmt d n [])) None, AssignStmt e (IdentExpr q x) (IntLitExpr r 1 w)]))
      (ends Done {gets (IdentExpr s c)}) Broke"
    by (simp add: call_ways_def assms(3))
  then show "[Get (toLower c)] \<in> paths E loop Done" by (simp add: assms(4) Let_def)
qed

text \<open>The operand of \<open>SizeOf\<close>, \<open>High\<close> or \<open>Low\<close> is never evaluated, and an expression that names a variable only
  there does not read it; but when the call stands in a subscript of the target of an assignment, the walk reports the
  variable all the same.\<close>

theorem sizeof_subscript_reported:
  assumes "never_evaluates f" "toLower x \<in> FlowTracked F - Assigned St"
  shows "FlowReported (flowRead roomy (CallExpr p f [IdentExpr q x]) St F) = FlowReported F
    \<and> toLower x \<in> FlowReported (snd (flowStmt E roomy
        (AssignStmt a (IndexExpr b (IdentExpr c y) (CallExpr p f [IdentExpr q x])) (IntLitExpr d v w)) St F))"
proof -
  let ?C = "CallExpr p f [IdentExpr q x]" and ?T = "IndexExpr b (IdentExpr c y) (CallExpr p f [IdentExpr q x])"
  have depth: "expr_depth (IdentExpr l n) = 1" for l :: Token and n by (subst expr_depth.simps) simp
  have C: "expr_depth ?C = 2" by (subst expr_depth.simps) (simp add: depth)
  have T: "expr_depth ?T = 3" by (subst expr_depth.simps) (simp add: depth C)
  have "reads ?C = []" using assms(1) by (subst reads.simps) simp
  then have 1: "FlowReported (flowRead roomy ?C St F) = FlowReported F"
    using C by (simp add: flowRead_reported shallow_def MaxWalkDepth_def)
  let ?F0 = "flowRead roomy (IntLitExpr d v w) St F"
  have F0: "FlowTracked ?F0 = FlowTracked F" using flowRead_only_reports only_reports_same by blast
  have ns: "nodes ([], ?T) = [([], ?T), ([0], IdentExpr c y), ([1], ?C), ([1, 0], IdentExpr q x)]"
    by (simp add: nodes.simps kids_def)
  have "toLower x \<in> FlowReported (flow_target roomy ?T St ?F0)"
    using assms(2) T F0 by (simp add: flow_target_def walkExprs_nodes MaxWalkDepth_def ns flowRead_reported)
  then show ?thesis using 1 subsetD [OF reports_grows [OF reports_write]] by simp
qed

theorem sizeof_subscript_reported_witness:
  "''x'' \<in> FlowReported (snd (flowStmt sample_env roomy
     (AssignStmt sample_token (IndexExpr sample_token (IdentExpr sample_token ''a'') (CallExpr sample_token ''SizeOf'' [IdentExpr sample_token ''x'']))
       (IntLitExpr sample_token 0 False))
     (initialFlowState {}) (sample_flow\<lparr>FlowTracked := {''x''}\<rparr>)))"
proof -
  have "never_evaluates ''SizeOf''" "toLower ''x'' = ''x''" by code_simp+
  then show ?thesis
    using sizeof_subscript_reported [of "''SizeOf''" "''x''" "sample_flow\<lparr>FlowTracked := {''x''}\<rparr>" "initialFlowState {}"]
    by (simp add: initialFlowState_def)
qed

end
