(* ===== verification/Compat.thy ===== *)
theory Compat
  imports Sema_Types
begin

text \<open>
  The relations between types of \<^verbatim>\<open>lib/Sema/SemaExpr.cpp\<close>: identity, congruity of parameter lists, conformance to
  a conformant array, descent of objects, and assignment compatibility.  The address of a type is its identity, so
  \<^verbatim>\<open>&Dst == &Src\<close> compares addresses.  Every relation carries fuel and answers \<open>None\<close> when it runs out.
\<close>

subsection \<open>Helpers\<close>

fun all_m :: "('a \<Rightarrow> bool option) \<Rightarrow> 'a list \<Rightarrow> bool option" where
  "all_m f [] = Some True"
| "all_m f (x # xs) = do { b \<leftarrow> f x; if b then all_m f xs else Some False }"

fun any_m :: "('a \<Rightarrow> bool option) \<Rightarrow> 'a list \<Rightarrow> bool option" where
  "any_m f [] = Some False"
| "any_m f (x # xs) = do { b \<leftarrow> f x; if b then Some True else any_m f xs }"

text \<open>Two declarations that are both known and not the same.\<close>

definition differ :: "nat option \<Rightarrow> nat option \<Rightarrow> bool" where
  "differ a b \<longleftrightarrow> a \<noteq> None \<and> b \<noteq> None \<and> a \<noteq> b"

text \<open>A component of both types, where both have it.\<close>

definition both :: "shared \<Rightarrow> shared \<Rightarrow> (addr \<times> addr) option" where
  "both a b = (case (a, b) of (Some x, Some y) \<Rightarrow> Some (x, y) | _ \<Rightarrow> None)"

subsection \<open>Identity and files\<close>

definition identical :: "Mem \<Rightarrow> shared \<Rightarrow> shared \<Rightarrow> bool" where
  "identical H a b = (case both a b of None \<Rightarrow> False | Some (x, y) \<Rightarrow> isError (H x) \<or> isError (H y) \<or> x = y)"

definition isIdenticalType :: "Mem \<Rightarrow> shared \<Rightarrow> shared \<Rightarrow> bool" where
  "isIdenticalType H a b = identical H a b"

fun typeContainsFile :: "nat \<Rightarrow> Mem \<Rightarrow> addr \<Rightarrow> bool option" where
  "typeContainsFile 0 H t = None"
| "typeContainsFile (Suc n) H t = (case TyKind (H t) of
     TkFile \<Rightarrow> Some True
   | TkRecord \<Rightarrow> any_m (\<lambda>F. case FieldTy F of None \<Rightarrow> Some False | Some x \<Rightarrow> typeContainsFile n H x) (RecordFields (H t))
   | TkObject \<Rightarrow> any_m (\<lambda>F. case FieldTy F of None \<Rightarrow> Some False | Some x \<Rightarrow> typeContainsFile n H x) (RecordFields (H t))
   | TkArray \<Rightarrow> (case ElemType (H t) of None \<Rightarrow> Some False | Some x \<Rightarrow> typeContainsFile n H x)
   | TkSet \<Rightarrow> (case ElemType (H t) of None \<Rightarrow> Some False | Some x \<Rightarrow> typeContainsFile n H x)
   | TkConformantArray \<Rightarrow> (case ElemType (H t) of None \<Rightarrow> Some False | Some x \<Rightarrow> typeContainsFile n H x)
   | TkSchemaInstance \<Rightarrow> (case SchemaBody (H t) of None \<Rightarrow> Some False | Some x \<Rightarrow> typeContainsFile n H x)
   | TkSchema \<Rightarrow> (case SchemaBody (H t) of None \<Rightarrow> Some False | Some x \<Rightarrow> typeContainsFile n H x)
   | _ \<Rightarrow> Some False)"

subsection \<open>Congruity\<close>

definition schemaInstMatch :: "Type \<Rightarrow> Type \<Rightarrow> bool" where
  "schemaInstMatch A B \<longleftrightarrow> TyKind A = TkSchemaInstance \<and> TyKind B = TkSchemaInstance
     \<and> \<not> differ (SchemaBodyNode A) (SchemaBodyNode B) \<and> eqCI (SchemaName A) (SchemaName B)
     \<and> map DiscValue (SchemaDiscs A) = map DiscValue (SchemaDiscs B)"

definition outerIndexTypeOf :: "Type \<Rightarrow> shared" where
  "outerIndexTypeOf T = (if TyKind T = TkArray then IndexType T
     else if TyKind T = TkConformantArray \<and> ConformantBounds T \<noteq> [] then OrdType (hd (ConformantBounds T)) else None)"

text \<open>The walk behind both conformance and congruity.  The strict walk never asks \<open>cmp\<close>.\<close>

fun conformantStructuralWalk :: "nat \<Rightarrow> (addr \<Rightarrow> addr \<Rightarrow> bool option) \<Rightarrow> Mem \<Rightarrow> bool \<Rightarrow> addr \<Rightarrow> addr \<Rightarrow> bool option" where
  "conformantStructuralWalk 0 cmp H Strict l r = None"
| "conformantStructuralWalk (Suc n) cmp H Strict l r = (let L = H l; R = H r in
     if \<not> Strict \<and> TyPacked L \<noteq> TyPacked R then Some False
     else do {
       bounds \<leftarrow> (if Strict
          then Some (list_all2 (\<lambda>x y. isIdenticalType H (OrdType x) (OrdType y)) (ConformantBounds L) (ConformantBounds R))
          else if ConformantBounds L = [] then Some True
          else case both (OrdType (hd (ConformantBounds L))) (outerIndexTypeOf R) of
                 None \<Rightarrow> Some True
               | Some (f, i) \<Rightarrow> if \<not> isError (H f) \<and> \<not> isError (H i) then cmp f i else Some True);
       if \<not> bounds then Some False
       else case both (ElemType L) (ElemType R) of
         None \<Rightarrow> Some (\<not> Strict)
       | Some (x, y) \<Rightarrow>
           if Strict \<and> TyKind (H x) \<noteq> TyKind (H y) then Some False
           else if TyKind (H x) = TkConformantArray then
             (if \<not> Strict \<and> TyKind (H y) \<noteq> TkArray \<and> TyKind (H y) \<noteq> TkConformantArray then Some False
              else conformantStructuralWalk n cmp H Strict x y)
           else if Strict then Some (isIdenticalType H (Some x) (Some y)) else cmp x y })"

definition congruousConformant :: "nat \<Rightarrow> Mem \<Rightarrow> addr \<Rightarrow> addr \<Rightarrow> bool option" where
  "congruousConformant n H a b = conformantStructuralWalk n (\<lambda>_ _. None) H True a b"

definition same_param_type ::
  "(Type \<Rightarrow> Type \<Rightarrow> bool option) \<Rightarrow> (addr \<Rightarrow> addr \<Rightarrow> bool option) \<Rightarrow> Mem \<Rightarrow> shared \<Rightarrow> shared \<Rightarrow> bool option" where
  "same_param_type sign conf H A B = (case both A B of None \<Rightarrow> Some False
   | Some (x, y) \<Rightarrow>
       if TyKind (H x) \<noteq> TyKind (H y) then Some False
       else if isCallable (H x) then sign (H x) (H y)
       else if TyKind (H x) = TkConformantArray then conf x y
       else if TyKind (H x) = TkSchema then Some (toLower (SchemaName (H x)) = toLower (SchemaName (H y)))
       else if TyKind (H x) = TkSchemaInstance then Some (schemaInstMatch (H x) (H y))
       else Some (isIdenticalType H A B))"

definition congruous_params :: "(shared \<Rightarrow> shared \<Rightarrow> bool option) \<Rightarrow> Param \<times> Param \<Rightarrow> bool option" where
  "congruous_params same = (\<lambda>(P, Q).
     if ParamIsVar P \<noteq> ParamIsVar Q then Some False
     else if IsUntyped P \<noteq> IsUntyped Q then Some False
     else if IsUntyped P then Some True
     else same (ParamTy P) (ParamTy Q))"

primrec congruousSignature :: "nat \<Rightarrow> Mem \<Rightarrow> Type \<Rightarrow> Type \<Rightarrow> bool option" where
  "congruousSignature 0 H A B = None"
| "congruousSignature (Suc n) H A B =
     (if TyKind A \<noteq> TyKind B then Some False
      else if length (TyParams A) \<noteq> length (TyParams B) then Some False
      else do {
        ps \<leftarrow> all_m (congruous_params (same_param_type (congruousSignature n H) (congruousConformant n H) H)) (zip (TyParams A) (TyParams B));
        if \<not> ps then Some False
        else if (RetType A = None) \<noteq> (RetType B = None) then Some False
        else Some (RetType A = None \<or> isIdenticalType H (RetType A) (RetType B)) })"

definition sameParamType :: "nat \<Rightarrow> Mem \<Rightarrow> shared \<Rightarrow> shared \<Rightarrow> bool option" where
  "sameParamType n H = same_param_type (congruousSignature n H) (congruousConformant n H) H"

subsection \<open>Assignment compatibility\<close>

fun objectIsOrDescendsFrom :: "nat \<Rightarrow> Mem \<Rightarrow> addr \<Rightarrow> addr \<Rightarrow> bool option" where
  "objectIsOrDescendsFrom 0 H Cur Ancestor = None"
| "objectIsOrDescendsFrom (Suc n) H Cur Ancestor =
     (if Cur = Ancestor then Some True
      else case TyParent (H Cur) of None \<Rightarrow> Some False | Some p \<Rightarrow> objectIsOrDescendsFrom n H p Ancestor)"

definition zero_based_char_array :: "Mem \<Rightarrow> Type \<Rightarrow> bool" where
  "zero_based_char_array H T \<longleftrightarrow> TyKind T = TkArray \<and> (case ElemType T of None \<Rightarrow> False | Some e \<Rightarrow> TyKind (H e) = TkChar)
     \<and> (case IndexType T of None \<Rightarrow> False | Some i \<Rightarrow> TyKind (H i) = TkSubrange \<and> SubLo (H i) = 0)"

definition set_literal :: "Type \<Rightarrow> bool" where
  "set_literal T \<longleftrightarrow> TyName T = ''set literal'' \<or> TyName T = ''[]''"

definition declared_name_differs :: "Type \<Rightarrow> Type \<Rightarrow> bool" where
  "declared_name_differs Dst Src \<longleftrightarrow> (\<not> isAnonymousNominal Dst \<or> \<not> isAnonymousNominal Src) \<and> TyName Dst \<noteq> TyName Src"

type_synonym compat = "bool \<Rightarrow> nat \<Rightarrow> addr \<Rightarrow> addr \<Rightarrow> bool option"

definition compat_enum :: "Mem \<Rightarrow> addr \<Rightarrow> addr \<Rightarrow> bool" where
  "compat_enum H d s = (let Dst = H d; Src = H s in
     if isAnonymousNominal Dst \<or> isAnonymousNominal Src then d = s
     else if TyName Dst \<noteq> TyName Src then False
     else if differ (EnumDecl Dst) (EnumDecl Src) then False
     else EnumValues Dst = EnumValues Src)"

definition compat_array :: "compat \<Rightarrow> Type \<Rightarrow> Type \<Rightarrow> bool option" where
  "compat_array rec Dst Src = (case both (ElemType Dst) (ElemType Src) of None \<Rightarrow> Some False
   | Some (x, y) \<Rightarrow>
       if declared_name_differs Dst Src then Some False
       else if differ (ArrayDecl Dst) (ArrayDecl Src) then Some False
       else do {
         e \<leftarrow> rec True 0 x y;
         if \<not> e then Some False
         else case both (IndexType Dst) (IndexType Src) of None \<Rightarrow> Some True | Some (i, j) \<Rightarrow> rec True 0 i j })"

definition compat_record :: "compat \<Rightarrow> nat \<Rightarrow> Type \<Rightarrow> Type \<Rightarrow> bool option" where
  "compat_record rec Depth Dst Src =
     (if declared_name_differs Dst Src then Some False
      else case (if isAnonymousNominal Dst \<and> isAnonymousNominal Src then None
                 else case (RecordDecl Dst, RecordDecl Src) of (Some x, Some y) \<Rightarrow> Some (NodeId x = NodeId y) | _ \<Rightarrow> None) of
        Some same \<Rightarrow> Some same
      | None \<Rightarrow>
          if Depth > 16 then Some False
          else if TyPacked Dst \<noteq> TyPacked Src then Some False
          else if length (RecordFields Dst) \<noteq> length (RecordFields Src) then Some False
          else all_m (\<lambda>(F, G). case both (FieldTy F) (FieldTy G) of None \<Rightarrow> Some False | Some (x, y) \<Rightarrow> rec True (Suc Depth) x y)
                 (zip (RecordFields Dst) (RecordFields Src)))"

definition compat_pointer :: "nat \<Rightarrow> LangOptions \<Rightarrow> Mem \<Rightarrow> Type \<Rightarrow> Type \<Rightarrow> bool option" where
  "compat_pointer n opts H Dst Src = (case both (PointeeType Dst) (PointeeType Src) of None \<Rightarrow> Some True
   | Some (p, q) \<Rightarrow>
       if turbo opts \<and> isCharPointerType H Dst \<and> zero_based_char_array H (H q) then Some True
       else do {
         desc \<leftarrow> (if TyKind (H p) = TkObject \<and> TyKind (H q) = TkObject then objectIsOrDescendsFrom n H q p else Some False);
         Some (desc \<or> isIdenticalType H (Some p) (Some q) \<or> schemaInstMatch (H p) (H q)) })"

text \<open>The switch over two types of the same kind.\<close>

definition compat_same_kind :: "nat \<Rightarrow> compat \<Rightarrow> LangOptions \<Rightarrow> Mem \<Rightarrow> compat" where
  "compat_same_kind n rec opts H ExactBounds Depth d s = (let Dst = H d; Src = H s in case TyKind Dst of
     TkInteger \<Rightarrow> Some True | TkReal \<Rightarrow> Some True | TkBoolean \<Rightarrow> Some True | TkChar \<Rightarrow> Some True | TkString \<Rightarrow> Some True
   | TkNil \<Rightarrow> Some True | TkVarString \<Rightarrow> Some True | TkShortString \<Rightarrow> Some True
   | TkEnum \<Rightarrow> Some (compat_enum H d s)
   | TkSubrange \<Rightarrow>
       if ExactBounds \<and> (SubLo Dst \<noteq> SubLo Src \<or> SubHi Dst \<noteq> SubHi Src) then Some False
       else (case both (SubBase Dst) (SubBase Src) of None \<Rightarrow> Some True | Some (x, y) \<Rightarrow> rec ExactBounds 0 x y)
   | TkArray \<Rightarrow> compat_array rec Dst Src
   | TkRecord \<Rightarrow> compat_record rec Depth Dst Src
   | TkSet \<Rightarrow>
       if set_literal Src then Some True
       else (case both (ElemType Dst) (ElemType Src) of None \<Rightarrow> Some (TyName Dst = TyName Src) | Some (x, y) \<Rightarrow> rec False 0 x y)
   | TkPointer \<Rightarrow> compat_pointer n opts H Dst Src
   | TkProcedure \<Rightarrow> congruousSignature n H Dst Src
   | TkFunction \<Rightarrow> congruousSignature n H Dst Src
   | TkObject \<Rightarrow> objectIsOrDescendsFrom n H s d
   | _ \<Rightarrow> Some (TyName Dst = TyName Src))"

text \<open>The rules behind the subrange rule, between types of different kinds: strings, characters and Turbo pointers.\<close>

definition compat_strings :: "LangOptions \<Rightarrow> Mem \<Rightarrow> addr \<Rightarrow> addr \<Rightarrow> bool" where
  "compat_strings opts H d s = (let Dst = H d; Src = H s in
     if isVarStringLike H d \<and> isVarStringLike H s then True
     else if isVarStringLike H d \<and> TyKind Src = TkChar then True
     else if isVarStringLike H d \<and> TyKind Src = TkString then True
     else if TyKind Dst = TkString \<and> isVarStringLike H s then True
     else if isShortStringLike Dst \<and> TyKind Src = TkChar then True
     else if isShortStringLike Dst \<and> TyKind Src = TkString then True
     else if isCharStringType H Dst \<and> TyKind Src = TkString then True
     else if isCharStringType H Dst \<and> TyKind Src = TkVarString then ExtentVaries Src \<or> StrCapacity Src = charStringLength H Dst
     else if isVarStringLike H d \<and> isCharStringType H Src then True
     else if TyKind Dst = TkChar \<and> (isVarStringLike H s \<or> isCharStringType H Src \<or> TyKind Src = TkString) then True
     else if turbo opts \<and> isCharPointerType H Dst \<and> zero_based_char_array H Src then True
     else if turbo opts \<and> zero_based_char_array H Dst \<and> TyKind Src = TkString then True
     else turbo opts \<and> isCharPointerType H Dst \<and> TyKind Src = TkString)"

definition compat_mixed :: "compat \<Rightarrow> LangOptions \<Rightarrow> Mem \<Rightarrow> bool \<Rightarrow> addr \<Rightarrow> addr \<Rightarrow> bool option" where
  "compat_mixed rec opts H ExactBounds d s = (let Dst = H d; Src = H s in
     if TyKind Dst = TkReal \<and> TyKind Src = TkInteger then Some True
     else if TyKind Dst = TkComplex \<and> TyKind Src = TkReal then Some True
     else if TyKind Dst = TkComplex \<and> TyKind Src = TkInteger then Some True
     else if TyKind Dst = TkString \<and> TyKind Src = TkChar then Some True
     else if TyKind Dst = TkPointer \<and> TyKind Src = TkNil then Some True
     else if isCallable Dst \<and> TyKind Src = TkNil then Some True
     else case (if TyKind Dst = TkSubrange then SubBase Dst else None) of
       Some b \<Rightarrow> rec ExactBounds 0 b s
     | None \<Rightarrow> (case (if TyKind Src = TkSubrange then SubBase Src else None) of
         Some b \<Rightarrow> rec ExactBounds 0 d b
       | None \<Rightarrow> Some (compat_strings opts H d s)))"

definition same_schema :: "Type \<Rightarrow> Type \<Rightarrow> bool" where
  "same_schema Dst Src \<longleftrightarrow> eqCI (SchemaName Dst) (SchemaName Src) \<and> \<not> differ (SchemaBodyNode Dst) (SchemaBodyNode Src)
     \<and> map DiscValue (SchemaDiscs Dst) = map DiscValue (SchemaDiscs Src)"

definition schema_accepts :: "Type \<Rightarrow> Type \<Rightarrow> bool" where
  "schema_accepts Dst Src = (let Sch = (if TyKind Dst = TkSchema then Dst else Src);
                                 Other = (if TyKind Dst = TkSchema then Src else Dst) in
     (TyKind Other = TkSchema \<or> TyKind Other = TkSchemaInstance)
     \<and> eqCI (SchemaName Sch) (SchemaName Other) \<and> \<not> differ (SchemaBodyNode Sch) (SchemaBodyNode Other))"

definition schema_body :: "Type \<Rightarrow> shared" where
  "schema_body T = (if TyKind T = TkSchemaInstance then SchemaBody T else None)"

primrec isAssignCompatible :: "nat \<Rightarrow> LangOptions \<Rightarrow> Mem \<Rightarrow> compat" where
  "isAssignCompatible 0 opts H = (\<lambda>ExactBounds Depth d s. None)"
| "isAssignCompatible (Suc n) opts H = (\<lambda>ExactBounds Depth d s.
     let Dst = H d; Src = H s; rec = isAssignCompatible n opts H in
     if isError Dst \<or> isError Src then Some True
     else if isRestricted Dst \<or> isRestricted Src then Some False
     else if d = s then Some True
     else if isVarStringLike H d \<and> isVarStringLike H s \<and> (TyKind Dst = TkSchema \<or> TyKind Src = TkSchema) then Some True
     else if TyKind Dst = TkSchemaInstance \<and> TyKind Src = TkSchemaInstance then
       (if same_schema Dst Src then Some True
        else case both (SchemaBody Dst) (SchemaBody Src) of None \<Rightarrow> Some False | Some (x, y) \<Rightarrow> rec False 0 x y)
     else if TyKind Dst = TkSchema \<or> TyKind Src = TkSchema then Some (schema_accepts Dst Src)
     else case schema_body Dst of Some b \<Rightarrow> rec False 0 b s
     | None \<Rightarrow> (case schema_body Src of Some b \<Rightarrow> rec False 0 d b
     | None \<Rightarrow>
         if TyKind Dst = TkConformantArray then Some False
         else if TyKind Dst = TyKind Src then compat_same_kind n rec opts H ExactBounds Depth d s
         else compat_mixed rec opts H ExactBounds d s))"

definition isConformable :: "nat \<Rightarrow> LangOptions \<Rightarrow> Mem \<Rightarrow> addr \<Rightarrow> addr \<Rightarrow> addr \<Rightarrow> bool option" where
  "isConformable n opts H TyInt Formal Actual = (let F = H Formal; A = H Actual in
     if TyKind F \<noteq> TkConformantArray then Some False
     else if TyKind A = TkString then
       (if \<not> TyPacked F \<or> length (ConformantBounds F) \<noteq> 1
             \<or> (case ElemType F of None \<Rightarrow> True | Some e \<Rightarrow> TyKind (H e) \<noteq> TkChar) then Some False
        else case OrdType (hd (ConformantBounds F)) of None \<Rightarrow> Some False
             | Some o' \<Rightarrow> if isError (H o') then Some False else isAssignCompatible n opts H False 0 o' TyInt)
     else if TyKind A \<noteq> TkArray \<and> TyKind A \<noteq> TkConformantArray then Some False
     else conformantStructuralWalk n (isAssignCompatible n opts H False 0) H False Formal Actual)"

end
