(* ===== verification/Layout.thy ===== *)
theory Layout
  imports Sema_Types
begin

text \<open>
  The storage of a type, the end of \<^verbatim>\<open>lib/Sema/SemaType.cpp\<close>: the alignment of a type, its size, and the byte
  offsets of the fields of a record or an object, worked out without a data layout and later compared with what the
  code generator emits.  Sizes are \<^verbatim>\<open>uint64_t\<close> and their arithmetic wraps.

  \<^verbatim>\<open>byteSizeOf\<close> takes the list the offsets are appended to as an optional argument; here \<open>byteLayout\<close> answers the
  size together with what is appended, and \<open>byteSizeOf\<close> drops the second.
\<close>

subsection \<open>Definitions\<close>

function intBytes_loop :: "nat \<Rightarrow> nat \<Rightarrow> nat" where
  "intBytes_loop B P = (if P < B \<and> 0 < P then intBytes_loop B (P * 2) else P)"
  by auto
termination by (relation "measure (\<lambda>(B, P). B - P)") auto

declare intBytes_loop.simps [simp del]

definition intBytes :: "nat \<Rightarrow> 64 word" where
  "intBytes Bits = of_nat (intBytes_loop ((Bits + 7) div 8) 1)"

definition intAlign :: "nat \<Rightarrow> 64 word" where
  "intAlign Bits = min (intBytes Bits) 16"

definition roundUp :: "64 word \<Rightarrow> 64 word \<Rightarrow> 64 word" where
  "roundUp N A = (if A \<noteq> 0 then (N + A - 1) div A * A else N)"

definition variantBlobBytes :: "64 word \<Rightarrow> 64 word \<Rightarrow> 64 word" where
  "variantBlobBytes Size Align = roundUp Size
     (if Align \<ge> 16 then 16 else if Align \<ge> 8 then 8 else if Align \<ge> 4 then 4 else if Align \<ge> 2 then 2 else 1)"

definition UINT64_MAX :: "64 word" where "UINT64_MAX = - 1"

definition PlangFileNameCap :: nat where "PlangFileNameCap = 512"

text \<open>The widest alignment of a list of fields, starting from \<open>A\<close>.\<close>

fun max_align :: "(addr \<Rightarrow> 64 word option) \<Rightarrow> Field list \<Rightarrow> 64 word \<Rightarrow> 64 word option" where
  "max_align al [] A = Some A"
| "max_align al (F # Fs) A = (case FieldTy F of
      None \<Rightarrow> max_align al Fs A
    | Some t \<Rightarrow> do { B \<leftarrow> al t; max_align al Fs (max A B) })"

primrec byteAlignOf :: "nat \<Rightarrow> Mem \<Rightarrow> addr \<Rightarrow> 64 word option" where
  "byteAlignOf 0 H a = None"
| "byteAlignOf (Suc n) H a = (let T = H a; al = byteAlignOf n H in case TyKind T of
     TkInteger \<Rightarrow> Some (intAlign (Width T))
   | TkSubrange \<Rightarrow> Some (intAlign (Width T))
   | TkEnum \<Rightarrow> Some (intAlign (Width T))
   | TkBoolean \<Rightarrow> Some (intAlign (Width T))
   | TkChar \<Rightarrow> Some 1
   | TkReal \<Rightarrow> Some (of_nat (Width T div 8))
   | TkComplex \<Rightarrow> Some 8
   | TkSet \<Rightarrow> Some (intAlign PlangMaxSetElements)
   | TkString \<Rightarrow> Some (of_nat (Width T div 8))
   | TkPointer \<Rightarrow> Some (of_nat (Width T div 8))
   | TkNil \<Rightarrow> Some (of_nat (Width T div 8))
   | TkProcedure \<Rightarrow> Some (of_nat (Width T div 8))
   | TkFunction \<Rightarrow> Some (of_nat (Width T div 8))
   | TkVarString \<Rightarrow> Some 8
   | TkShortString \<Rightarrow> Some 1
   | TkFile \<Rightarrow> Some 8
   | TkArray \<Rightarrow> (case ElemType T of None \<Rightarrow> Some 1 | Some e \<Rightarrow> al e)
   | TkRecord \<Rightarrow> if TyPacked T then Some 1 else max_align al (RecordFields T) 1
   | TkSchemaInstance \<Rightarrow> if TyPacked T then Some 1 else max_align al (RecordFields T) 1
   | TkObject \<Rightarrow> do { A \<leftarrow> max_align al (RecordFields T) 1; Some (if VmtSlots T \<noteq> [] then max A 8 else A) }
   | _ \<Rightarrow> Some 1)"

text \<open>What the walk over the fields keeps: where the next field may start, the widest alignment so far, whether every
  field had a size, and the offsets it has handed out.\<close>

type_synonym FieldOffsets = "(bytes \<times> 64 word) list"

record Walk =
  Off :: "64 word"
  Algn :: "64 word"
  Ok :: bool
  Offsets :: FieldOffsets

definition place ::
  "(addr \<Rightarrow> 64 word option option) \<Rightarrow> (addr \<Rightarrow> 64 word option) \<Rightarrow> bool \<Rightarrow> shared \<Rightarrow> bytes \<Rightarrow> Walk \<Rightarrow> Walk option" where
  "place sz al Packed Ft Name L = (case Ft of
     None \<Rightarrow> Some (L\<lparr>Ok := False\<rparr>)
   | Some t \<Rightarrow> do {
       Sz \<leftarrow> sz t;
       case Sz of None \<Rightarrow> Some (L\<lparr>Ok := False\<rparr>)
       | Some S \<Rightarrow> do {
           A \<leftarrow> (if Packed then Some 1 else al t);
           let O1 = roundUp (Off L) A;
           Some (L\<lparr>Off := O1 + S, Algn := max (Algn L) A, Offsets := Offsets L @ [(Name, O1)]\<rparr>) } })"

text \<open>A step is \<open>place\<close> with its first three arguments fixed.\<close>

type_synonym step = "shared \<Rightarrow> bytes \<Rightarrow> Walk \<Rightarrow> Walk option"

fun place_names :: "step \<Rightarrow> shared \<Rightarrow> bytes list \<Rightarrow> Walk \<Rightarrow> Walk option" where
  "place_names pl Ft [] L = Some L"
| "place_names pl Ft (N # Ns) L = do { L' \<leftarrow> pl Ft N L; place_names pl Ft Ns L' }"

fun place_groups :: "step \<Rightarrow> FieldGroup list \<Rightarrow> Walk \<Rightarrow> Walk option" where
  "place_groups pl [] L = Some L"
| "place_groups pl ((Names, Ft) # Gs) L = do { L' \<leftarrow> place_names pl Ft Names L; place_groups pl Gs L' }"

definition place_tag :: "step \<Rightarrow> bytes \<Rightarrow> shared option \<Rightarrow> Walk \<Rightarrow> Walk option" where
  "place_tag pl TagField TagType L =
     (case TagType of Some t \<Rightarrow> if TagField \<noteq> [] then pl t TagField L else Some L | None \<Rightarrow> Some L)"

text \<open>The alternatives of one variant all start at \<open>Base\<close>, and what they reach is the farthest any of them does.\<close>

fun layoutVariantCase :: "step \<Rightarrow> RecCase \<Rightarrow> 64 word \<Rightarrow> Walk \<Rightarrow> Walk option"
and layout_cases :: "step \<Rightarrow> RecCase list \<Rightarrow> 64 word \<Rightarrow> 64 word \<Rightarrow> Walk \<Rightarrow> Walk option" where
  "layoutVariantCase pl (RecCase Fields None) Start L = place_groups pl Fields (L\<lparr>Off := Start\<rparr>)"
| "layoutVariantCase pl (RecCase Fields (Some (RecVariant TagField TagType Cases))) Start L = do {
     L1 \<leftarrow> place_groups pl Fields (L\<lparr>Off := Start\<rparr>);
     L2 \<leftarrow> place_tag pl TagField TagType L1;
     layout_cases pl Cases (Off L2) (Off L2) L2 }"
| "layout_cases pl [] At End L = Some (L\<lparr>Off := End\<rparr>)"
| "layout_cases pl (Inner # Cases) At End L = do {
     L' \<leftarrow> layoutVariantCase pl Inner At L;
     layout_cases pl Cases At (max End (Off L')) L' }"

definition layout_variant :: "step \<Rightarrow> bool \<Rightarrow> RecVariant option \<Rightarrow> Walk \<Rightarrow> Walk option" where
  "layout_variant pl Packed V L = (case V of None \<Rightarrow> Some L
   | Some (RecVariant TagField TagType Cases) \<Rightarrow> do {
       L1 \<leftarrow> place_tag pl TagField TagType L;
       let FirstVariantEntry = length (Offsets L1);
       L2 \<leftarrow> layout_cases pl Cases 0 0 (L1\<lparr>Off := 0, Algn := 1\<rparr>);
       let Size = Off L2;
       let BlobAlign = Algn L2;
       if Size > 0 then do {
         let Blob = variantBlobBytes Size (if Packed then 1 else BlobAlign);
         let A = (if Packed then 1 else BlobAlign);
         let O1 = roundUp (Off L1) A;
         Some (L2\<lparr>Off := O1 + Blob, Algn := max (Algn L1) A,
           Offsets := take FirstVariantEntry (Offsets L2)
             @ map (\<lambda>(N, o'). (N, o' + O1)) (drop FirstVariantEntry (Offsets L2))\<rparr>) }
       else Some (L2\<lparr>Off := Off L1, Algn := Algn L1\<rparr>) })"

definition first_walk :: Walk where
  "first_walk = \<lparr>Off = 0, Algn = 1, Ok = True, Offsets = []\<rparr>"

definition layout_record :: "(bool \<Rightarrow> step) \<Rightarrow> RecordNode \<Rightarrow> Walk option" where
  "layout_record pl RD = do {
     L \<leftarrow> place_groups (pl (NodePacked RD)) (NodeFields RD) first_walk;
     layout_variant (pl (NodePacked RD)) (NodePacked RD) (NodeVariant RD) L }"

text \<open>The fields an object adds to its ancestor's; the loop leaves at the first one without a size.\<close>

fun place_own :: "step \<Rightarrow> Field list \<Rightarrow> Walk \<Rightarrow> Walk option" where
  "place_own pl [] L = Some L"
| "place_own pl (F # Fs) L = do { L' \<leftarrow> pl (FieldTy F) (FieldName F) L; if Ok L' then place_own pl Fs L' else Some L' }"

definition file_size :: "64 word" where
  "file_size =
    (let O1 = 8 + 8 + 8 + 4 + 1 + 1 + 1 + of_nat PlangFileNameCap;
         O2 = roundUp O1 4 + 4;
         O3 = roundUp O2 8 + 8
     in roundUp O3 8)"

primrec byteLayout :: "nat \<Rightarrow> Mem \<Rightarrow> addr \<Rightarrow> (64 word option \<times> FieldOffsets) option" where
  "byteLayout 0 H a = None"
| "byteLayout (Suc n) H a =
    (let T = H a; sz = (\<lambda>t. map_option fst (byteLayout n H t)); al = byteAlignOf n H; plain = (\<lambda>s. Some (Some s, []))
     in case TyKind T of
     TkInteger \<Rightarrow> plain (intBytes (Width T))
   | TkSubrange \<Rightarrow> plain (intBytes (Width T))
   | TkEnum \<Rightarrow> plain (intBytes (Width T))
   | TkBoolean \<Rightarrow> plain (intBytes (Width T))
   | TkChar \<Rightarrow> plain 1
   | TkReal \<Rightarrow> plain (of_nat (Width T div 8))
   | TkComplex \<Rightarrow> plain 16
   | TkSet \<Rightarrow> plain (intBytes PlangMaxSetElements)
   | TkString \<Rightarrow> plain (of_nat (Width T div 8))
   | TkPointer \<Rightarrow> plain (of_nat (Width T div 8))
   | TkNil \<Rightarrow> plain (of_nat (Width T div 8))
   | TkProcedure \<Rightarrow> plain (of_nat (Width T div 8))
   | TkFunction \<Rightarrow> plain (of_nat (Width T div 8))
   | TkVarString \<Rightarrow> plain (roundUp (8 + (if StrCapacity T > 0 then word_of_int (StrCapacity T) else 255)) 8)
   | TkShortString \<Rightarrow> plain ((if StrCapacity T > 0 then word_of_int (StrCapacity T) else 255) + 1)
   | TkFile \<Rightarrow> plain file_size
   | TkArray \<Rightarrow> (case (IndexType T, ElemType T) of
       (Some i, Some e) \<Rightarrow>
         (case ordinalRangeCount (SubLo (H i)) (SubHi (H i)) of
            None \<Rightarrow> plain UINT64_MAX
          | Some Count \<Rightarrow>
              if Count = 0 then Some (None, [])
              else do { Elem \<leftarrow> sz e;
                        Some (case Elem of None \<Rightarrow> None
                              | Some E \<Rightarrow> Some (case checkedMul64 Count E of Some Size \<Rightarrow> Size | None \<Rightarrow> UINT64_MAX), []) })
     | _ \<Rightarrow> Some (None, []))
   | TkRecord \<Rightarrow> (case RecordDecl T of None \<Rightarrow> Some (None, [])
     | Some RD \<Rightarrow> do { L \<leftarrow> layout_record (place sz al) RD;
                       Some (if Ok L then Some (roundUp (Off L) (Algn L)) else None, Offsets L) })
   | TkObject \<Rightarrow> do {
       (P, pOffs) \<leftarrow> (case TyParent T of None \<Rightarrow> Some (Some 0, []) | Some p \<Rightarrow> byteLayout n H p);
       (case P of None \<Rightarrow> Some (None, pOffs)
        | Some pSize \<Rightarrow> do {
            A0 \<leftarrow> (case TyParent T of None \<Rightarrow> Some 1 | Some p \<Rightarrow> al p);
            let OwnStart = (case TyParent T of None \<Rightarrow> 0 | Some p \<Rightarrow> length (RecordFields (H p)));
            L \<leftarrow> place_own (place sz al False) (drop OwnStart (RecordFields T)) \<lparr>Off = pSize, Algn = A0, Ok = True, Offsets = pOffs\<rparr>;
            if \<not> Ok L then Some (None, Offsets L)
            else (let (o2, a2) = (if introducesVptr H T then (roundUp (Off L) 8 + 8, max (Algn L) 8) else (Off L, Algn L))
                  in Some (Some (roundUp o2 a2), Offsets L)) }) }
   | _ \<Rightarrow> Some (None, []))"

definition byteSizeOf :: "nat \<Rightarrow> Mem \<Rightarrow> addr \<Rightarrow> 64 word option option" where
  "byteSizeOf n H a = map_option fst (byteLayout n H a)"

end
