(* ===== verification/Layout_Props.thy ===== *)
theory Layout_Props
  imports Layout "HOL-Library.Sublist"
begin

text \<open>
  The layout of a record keeps apart every two fields that can hold a value at the same time.  A field is known by
  the alternatives it lies in, a path of case indices: two fields exist together when the path of one is a prefix of
  the path of the other.  The lemmas follow the walk with the predicate \<open>lies\<close>, that a list of placed fields lies
  in an interval, aligned and pairwise apart; it composes along the fields of one alternative, over the
  alternatives of a variant part, and under the shift of the shared run to its place.
\<close>

subsection \<open>Rounding\<close>

definition pow_align :: "nat set" where "pow_align = {1, 2, 4, 8, 16}"

lemma pow_align_max: "a \<in> pow_align \<Longrightarrow> b \<in> pow_align \<Longrightarrow> max a b \<in> pow_align \<and> a dvd max a b \<and> b dvd max a b"
  by (auto simp: pow_align_def)

lemma pow_align_bounds: "a \<in> pow_align \<Longrightarrow> 0 < a \<and> a \<le> 16"
  by (auto simp: pow_align_def)

lemma unat_max: "unat (max a b :: 64 word) = max (unat a) (unat b)"
  by (simp add: max_def word_le_nat_alt)

lemma unat_plus: "unat a + unat b < 2 ^ 64 \<Longrightarrow> unat (a + b :: 64 word) = unat a + unat b"
  by (simp add: unat_word_ariths)

lemma unat_roundUp:
  assumes "0 < unat A" "unat N + unat A \<le> 2 ^ 64"
  shows "unat (roundUp N A) = (unat N + unat A - 1) div unat A * unat A"
proof -
  have A: "A \<noteq> 0" using assms by auto
  have 1: "unat (A - 1) = unat A - 1" using A by (metis One_nat_def Suc_pred' assms(1) diff_Suc_1 unat_minus_one)
  have 2: "unat (N + A - 1) = unat N + unat A - 1"
  proof -
    have "unat (N + (A - 1)) = unat N + unat (A - 1)" using 1 assms by (intro unat_plus) linarith
    then show ?thesis using 1 assms by (simp add: algebra_simps)
  qed
  have "(unat N + unat A - 1) div unat A * unat A < 2 ^ 64"
    using assms by (intro le_less_trans [OF div_times_less_eq_dividend]) linarith
  moreover have "unat ((N + A - 1) div A) = (unat N + unat A - 1) div unat A" by (simp only: unat_div 2)
  ultimately have "unat ((N + A - 1) div A * A) = (unat N + unat A - 1) div unat A * unat A"
    by (simp only: unat_word_ariths(2)) simp
  then show ?thesis using A by (simp add: roundUp_def)
qed

lemma roundUp_nat:
  fixes N A :: nat
  assumes "0 < A"
  shows "N \<le> (N + A - 1) div A * A" "(N + A - 1) div A * A < N + A"
proof -
  have "(N + A - 1) div A * A + (N + A - 1) mod A = N + A - 1" by simp
  moreover have "(N + A - 1) mod A < A" using assms by simp
  ultimately show "N \<le> (N + A - 1) div A * A" "(N + A - 1) div A * A < N + A" using assms by linarith+
qed

lemma roundUp_bounds:
  assumes "unat A \<in> pow_align" "unat N + 16 \<le> 2 ^ 64"
  shows "unat N \<le> unat (roundUp N A)" "unat (roundUp N A) < unat N + 16" "unat A dvd unat (roundUp N A)"
proof -
  have A: "0 < unat A" "unat A \<le> 16" using pow_align_bounds [OF assms(1)] by auto
  then have e: "unat (roundUp N A) = (unat N + unat A - 1) div unat A * unat A"
    using assms(2) by (intro unat_roundUp) auto
  show "unat N \<le> unat (roundUp N A)" "unat A dvd unat (roundUp N A)" using e roundUp_nat(1) [OF A(1)] by auto
  show "unat (roundUp N A) < unat N + 16" using e roundUp_nat(2) [OF A(1), of "unat N"] A(2) by linarith
qed

subsection \<open>The fields of a declaration\<close>

type_synonym placed_field = "nat list \<times> bytes \<times> shared"

fun group_fields :: "nat list \<Rightarrow> FieldGroup list \<Rightarrow> placed_field list" where
  "group_fields p [] = []"
| "group_fields p ((Names, Ft) # Gs) = map (\<lambda>N. (p, N, Ft)) Names @ group_fields p Gs"

definition tag_fields :: "nat list \<Rightarrow> bytes \<Rightarrow> shared option \<Rightarrow> placed_field list" where
  "tag_fields p TagField TagType = (case TagType of Some t \<Rightarrow> if TagField \<noteq> [] then [(p, TagField, t)] else [] | None \<Rightarrow> [])"

fun case_fields :: "nat list \<Rightarrow> RecCase \<Rightarrow> placed_field list"
and cases_fields :: "nat list \<Rightarrow> nat \<Rightarrow> RecCase list \<Rightarrow> placed_field list" where
  "case_fields p (RecCase Fields None) = group_fields p Fields"
| "case_fields p (RecCase Fields (Some (RecVariant TagField TagType Cases))) =
     group_fields p Fields @ tag_fields p TagField TagType @ cases_fields p 0 Cases"
| "cases_fields p k [] = []"
| "cases_fields p k (C # Cs) = case_fields (p @ [k]) C @ cases_fields p (Suc k) Cs"

definition decl_fields :: "RecordNode \<Rightarrow> placed_field list" where
  "decl_fields RD = group_fields [] (NodeFields RD) @ (case NodeVariant RD of None \<Rightarrow> []
     | Some (RecVariant TagField TagType Cases) \<Rightarrow> tag_fields [] TagField TagType @ cases_fields [] 0 Cases)"

lemma group_fields_path: "f \<in> set (group_fields p Gs) \<Longrightarrow> fst f = p"
  by (induction p Gs rule: group_fields.induct) auto

lemma tag_fields_path: "f \<in> set (tag_fields p t T) \<Longrightarrow> fst f = p"
  by (auto simp: tag_fields_def split: option.splits if_splits)

lemma case_fields_path:
  "f \<in> set (case_fields p C) \<Longrightarrow> prefix p (fst f)"
  "f \<in> set (cases_fields p k Cs) \<Longrightarrow> \<exists>j\<ge>k. prefix (p @ [j]) (fst f)"
proof (induction p C and p k Cs arbitrary: f and f rule: case_fields_cases_fields.induct)
  case (2 p Fields TagField TagType Cases)
  have "prefix p (fst f)" if "f \<in> set (cases_fields p 0 Cases)" using 2(1) [OF that] append_prefixD by blast
  then show ?case using 2(2) by (auto dest: group_fields_path tag_fields_path)
next
  case (4 p k C Cs)
  from 4(3) consider "f \<in> set (case_fields (p @ [k]) C)" | "f \<in> set (cases_fields p (Suc k) Cs)" by auto
  then show ?case
  proof cases
    case 1
    then show ?thesis using 4(1) by blast
  next
    case 2
    then show ?thesis using 4(2) Suc_leD by blast
  qed
qed (auto dest: group_fields_path)

subsection \<open>Placed fields\<close>

text \<open>Path, size, alignment and offset of a placed field.\<close>

type_synonym item = "nat list \<times> nat \<times> nat \<times> nat"

definition together :: "nat list \<Rightarrow> nat list \<Rightarrow> bool" where
  "together p q \<longleftrightarrow> prefix p q \<or> prefix q p"

fun apart :: "item \<Rightarrow> item \<Rightarrow> bool" where
  "apart (p, s, a, x) (q, t, b, y) \<longleftrightarrow> together p q \<longrightarrow> s = 0 \<or> t = 0 \<or> x + s \<le> y \<or> y + t \<le> x"

fun inside :: "nat \<Rightarrow> nat \<Rightarrow> item \<Rightarrow> bool" where
  "inside lo hi (p, s, a, x) \<longleftrightarrow> (s = 0 \<or> lo \<le> x) \<and> x + s \<le> hi \<and> a dvd x"

definition lies :: "nat \<Rightarrow> nat \<Rightarrow> item list \<Rightarrow> bool" where
  "lies lo hi is \<longleftrightarrow> (\<forall>i\<in>set is. inside lo hi i) \<and> sorted_wrt apart is"

lemma inside_mono: "inside lo hi i \<Longrightarrow> lo' \<le> lo \<Longrightarrow> hi \<le> hi' \<Longrightarrow> inside lo' hi' i"
  by (cases i) auto

lemma lies_mono: "lies lo hi is \<Longrightarrow> lo' \<le> lo \<Longrightarrow> hi \<le> hi' \<Longrightarrow> lies lo' hi' is"
  by (auto simp: lies_def intro: inside_mono)

lemma lies_nth: "lies lo hi is \<Longrightarrow> i < length is \<Longrightarrow> inside lo hi (is ! i)"
  by (simp add: lies_def)

lemma lies_Nil [simp]: "lies lo hi []"
  by (simp add: lies_def)

lemma inside_apart: "inside lo mid i \<Longrightarrow> inside mid hi j \<Longrightarrow> apart i j"
  by (cases i; cases j) auto

lemma lies_append:
  assumes "lies lo mid is" "lies mid hi js" "lo \<le> mid" "mid \<le> hi"
  shows "lies lo hi (is @ js)"
  using assms by (auto simp: lies_def sorted_wrt_append intro: inside_mono inside_apart)

lemma lies_alternatives:
  assumes "lies lo hi is" "lies lo hi js" "\<And>i j. i \<in> set is \<Longrightarrow> j \<in> set js \<Longrightarrow> \<not> together (fst i) (fst j)"
  shows "lies lo hi (is @ js)"
proof -
  have "apart i j" if "i \<in> set is" "j \<in> set js" for i j using assms(3) [OF that] by (cases i; cases j) auto
  with assms(1,2) show ?thesis by (auto simp: lies_def sorted_wrt_append)
qed

definition shift :: "nat \<Rightarrow> item \<Rightarrow> item" where
  "shift d = (\<lambda>(p, s, a, x). (p, s, a, x + d))"

lemma apart_shift: "apart (shift d i) (shift d j) = apart i j"
  by (cases i; cases j) (auto simp: shift_def)

lemma lies_shift:
  assumes "lies lo hi is" "\<And>p s a x. (p, s, a, x) \<in> set is \<Longrightarrow> a dvd d"
  shows "lies (lo + d) (hi + d) (map (shift d) is)"
proof -
  have "inside (lo + d) (hi + d) (shift d i)" if "i \<in> set is" for i
    using assms that by (cases i) (fastforce simp: lies_def shift_def)
  with assms(1) show ?thesis by (auto simp: lies_def sorted_wrt_map apart_shift)
qed

lemma lies_empty_interval:
  assumes "lies 0 0 is"
  shows "lies lo hi is"
proof -
  have "inside lo hi i" if "i \<in> set is" for i using assms that by (cases i) (fastforce simp: lies_def)
  with assms show ?thesis by (auto simp: lies_def)
qed

subsection \<open>The walk\<close>

definition fsize :: "(addr \<Rightarrow> 64 word option option) \<Rightarrow> shared \<Rightarrow> nat" where
  "fsize sz Ft = (case Ft of None \<Rightarrow> 0 | Some t \<Rightarrow> (case sz t of Some (Some S) \<Rightarrow> unat S | _ \<Rightarrow> 0))"

definition falign :: "(addr \<Rightarrow> 64 word option) \<Rightarrow> bool \<Rightarrow> shared \<Rightarrow> nat" where
  "falign al Packed Ft = (if Packed then 1 else case Ft of None \<Rightarrow> 1 | Some t \<Rightarrow> (case al t of Some A \<Rightarrow> unat A | None \<Rightarrow> 1))"

definition room :: "(addr \<Rightarrow> 64 word option option) \<Rightarrow> placed_field list \<Rightarrow> nat" where
  "room sz fs = (\<Sum>f\<leftarrow>fs. fsize sz (snd (snd f)) + 16)"

definition item_of ::
  "(addr \<Rightarrow> 64 word option option) \<Rightarrow> (addr \<Rightarrow> 64 word option) \<Rightarrow> bool \<Rightarrow> placed_field \<Rightarrow> bytes \<times> 64 word \<Rightarrow> item" where
  "item_of sz al Packed f x = (fst f, fsize sz (snd (snd f)), falign al Packed (snd (snd f)), unat (snd x))"

text \<open>From \<open>L\<close> to \<open>L'\<close> the walk notes the fields \<open>fs\<close>, and they lie between \<open>lo\<close> and \<open>hi\<close>.\<close>

definition noted ::
  "(addr \<Rightarrow> 64 word option option) \<Rightarrow> (addr \<Rightarrow> 64 word option) \<Rightarrow> bool \<Rightarrow> placed_field list \<Rightarrow> nat \<Rightarrow> nat \<Rightarrow> Walk \<Rightarrow> Walk \<Rightarrow> bool" where
  "noted sz al Packed fs lo hi L L' \<longleftrightarrow> (\<exists>new. Offsets L' = Offsets L @ new \<and> map fst new = map (fst \<circ> snd) fs
     \<and> lies lo hi (map2 (item_of sz al Packed) fs new) \<and> (\<forall>f\<in>set fs. falign al Packed (snd (snd f)) dvd unat (Algn L'))
     \<and> unat (Algn L') \<in> pow_align \<and> unat (Algn L) dvd unat (Algn L'))"

definition aligned_types :: "(addr \<Rightarrow> 64 word option) \<Rightarrow> bool" where
  "aligned_types al \<longleftrightarrow> (\<forall>t A. al t = Some A \<longrightarrow> unat A \<in> pow_align)"

lemma room_simps [simp]:
  "room sz [] = 0" "room sz (f # fs) = fsize sz (snd (snd f)) + 16 + room sz fs" "room sz (fs @ gs) = room sz fs + room sz gs"
  by (simp_all add: room_def)

lemma noted_Nil: "unat (Algn L) \<in> pow_align \<Longrightarrow> Offsets L' = Offsets L \<Longrightarrow> Algn L' = Algn L \<Longrightarrow> noted sz al Packed [] lo hi L L'"
  by (simp add: noted_def)

lemma noted_pow: "noted sz al Packed fs lo hi L L' \<Longrightarrow> unat (Algn L') \<in> pow_align"
  by (auto simp: noted_def)

lemma noted_mono: "noted sz al Packed fs lo hi L L' \<Longrightarrow> lo' \<le> lo \<Longrightarrow> hi \<le> hi' \<Longrightarrow> noted sz al Packed fs lo' hi' L L'"
  unfolding noted_def using lies_mono by blast

lemma map2_append: "length xs = length us \<Longrightarrow> map2 f (xs @ ys) (us @ vs) = map2 f xs us @ map2 f ys vs"
  by (simp add: zip_append)

lemma noted_combine:
  assumes 1: "noted sz al Packed fs lo1 hi1 L L1" and 2: "noted sz al Packed gs lo2 hi2 L1 L2"
    and c: "\<And>is js. lies lo1 hi1 is \<Longrightarrow> lies lo2 hi2 js \<Longrightarrow> fst ` set is \<subseteq> fst ` set fs \<Longrightarrow> fst ` set js \<subseteq> fst ` set gs \<Longrightarrow> lies lo hi (is @ js)"
  shows "noted sz al Packed (fs @ gs) lo hi L L2"
proof -
  obtain n1 where n1: "Offsets L1 = Offsets L @ n1" "map fst n1 = map (fst \<circ> snd) fs"
      "lies lo1 hi1 (map2 (item_of sz al Packed) fs n1)" "\<forall>f\<in>set fs. falign al Packed (snd (snd f)) dvd unat (Algn L1)"
      "unat (Algn L) dvd unat (Algn L1)" using 1 by (auto simp: noted_def)
  obtain n2 where n2: "Offsets L2 = Offsets L1 @ n2" "map fst n2 = map (fst \<circ> snd) gs"
      "lies lo2 hi2 (map2 (item_of sz al Packed) gs n2)" "\<forall>f\<in>set gs. falign al Packed (snd (snd f)) dvd unat (Algn L2)"
      "unat (Algn L1) dvd unat (Algn L2)" "unat (Algn L2) \<in> pow_align" using 2 by (auto simp: noted_def)
  have len: "length fs = length n1" using n1(2) by (metis length_map)
  have sub: "fst ` set (map2 (item_of sz al Packed) xs ns) \<subseteq> fst ` set xs" for xs ns
    by (auto simp: item_of_def dest!: set_zip_leftD intro: image_eqI [rotated])
  have "lies lo hi (map2 (item_of sz al Packed) (fs @ gs) (n1 @ n2))"
    unfolding map2_append [OF len] by (rule c [OF n1(3) n2(3) sub sub])
  then show ?thesis using n1 n2 unfolding noted_def
    by (intro exI [of _ "n1 @ n2"]) (auto intro: dvd_trans)
qed

lemma noted_append:
  assumes "noted sz al Packed fs lo mid L L1" "noted sz al Packed gs mid hi L1 L2" "lo \<le> mid" "mid \<le> hi"
  shows "noted sz al Packed (fs @ gs) lo hi L L2"
  using assms(1,2) by (rule noted_combine) (rule lies_append [OF _ _ assms(3,4)])

lemma noted_alternatives:
  assumes "noted sz al Packed fs lo hi L L1" "noted sz al Packed gs lo hi L1 L2"
    and "\<And>f g. f \<in> set fs \<Longrightarrow> g \<in> set gs \<Longrightarrow> \<not> together (fst f) (fst g)"
  shows "noted sz al Packed (fs @ gs) lo hi L L2"
  using assms(1,2)
proof (rule noted_combine)
  fix xs ys assume A: "lies lo hi xs" "lies lo hi ys" "fst ` set xs \<subseteq> fst ` set fs" "fst ` set ys \<subseteq> fst ` set gs"
  have "\<not> together (fst i) (fst j)" if "i \<in> set xs" "j \<in> set ys" for i j
  proof -
    have "fst i \<in> fst ` set fs" "fst j \<in> fst ` set gs" using A(3,4) that by blast+
    then show ?thesis using assms(3) by force
  qed
  with A(1,2) show "lies lo hi (xs @ ys)" by (rule lies_alternatives)
qed

text \<open>The walk takes a list of fields one after the other.\<close>

definition goes ::
  "(addr \<Rightarrow> 64 word option option) \<Rightarrow> (addr \<Rightarrow> 64 word option) \<Rightarrow> bool \<Rightarrow> placed_field list \<Rightarrow> Walk \<Rightarrow> Walk \<Rightarrow> bool" where
  "goes sz al Packed fs L L' \<longleftrightarrow> Ok L \<and> unat (Off L) \<le> unat (Off L') \<and> unat (Off L') \<le> unat (Off L) + room sz fs
     \<and> noted sz al Packed fs (unat (Off L)) (unat (Off L')) L L'"

lemma goes_append: "goes sz al Packed fs L L1 \<Longrightarrow> goes sz al Packed gs L1 L2 \<Longrightarrow> goes sz al Packed (fs @ gs) L L2"
  by (auto simp: goes_def intro: noted_append)

lemma place_goes:
  assumes "place sz al Packed Ft N L = Some L'" "Ok L'" "aligned_types al" "unat (Algn L) \<in> pow_align"
    and "unat (Off L) + room sz [(p, N, Ft)] < 2 ^ 64"
  shows "goes sz al Packed [(p, N, Ft)] L L'"
proof -
  obtain t S A where t: "Ft = Some t" "sz t = Some (Some S)" "(if Packed then Some 1 else al t) = Some A"
      "L' = L\<lparr>Off := roundUp (Off L) A + S, Algn := max (Algn L) A, Offsets := Offsets L @ [(N, roundUp (Off L) A)]\<rparr>"
    using assms(1,2) by (auto simp: place_def Let_def split: option.splits Option.bind_splits)
  have s: "fsize sz Ft = unat S" and a: "falign al Packed Ft = unat A"
    using t(1,2,3) by (auto simp: fsize_def falign_def split: if_splits)
  have A: "unat A \<in> pow_align" using t(3) assms(3) by (auto simp: aligned_types_def pow_align_def split: if_splits)
  have fit: "unat (Off L) + 16 \<le> 2 ^ 64" using assms(5) by simp
  note r = roundUp_bounds [OF A fit]
  have O': "unat (Off L') = unat (roundUp (Off L) A) + unat S"
    using r(2) assms(5) s t(4) by (simp add: unat_plus)
  have "lies (unat (Off L)) (unat (Off L')) [item_of sz al Packed (p, N, Ft) (N, roundUp (Off L) A)]"
    using r O' s a by (simp add: lies_def item_of_def)
  moreover have "unat (Algn L') \<in> pow_align \<and> unat (Algn L) dvd unat (Algn L') \<and> unat A dvd unat (Algn L')"
    using pow_align_max [OF assms(4) A] t(4) by (simp add: unat_max)
  moreover have "Ok L" using t(4) assms(2) by simp
  ultimately show ?thesis using r O' s a t(4) by (auto simp: goes_def noted_def)
qed

text \<open>What every step of the walk below assumes of where it starts.\<close>

definition starts :: "(addr \<Rightarrow> 64 word option option) \<Rightarrow> (addr \<Rightarrow> 64 word option) \<Rightarrow> placed_field list \<Rightarrow> nat \<Rightarrow> Walk \<Rightarrow> bool" where
  "starts sz al fs lo L \<longleftrightarrow> aligned_types al \<and> unat (Algn L) \<in> pow_align \<and> lo + room sz fs < 2 ^ 64"

lemma starts_split:
  "starts sz al (fs @ gs) (unat (Off L)) L \<Longrightarrow> starts sz al fs (unat (Off L)) L"
  "starts sz al (fs @ gs) (unat (Off L)) L \<Longrightarrow> goes sz al Packed fs L L1 \<Longrightarrow> starts sz al gs (unat (Off L1)) L1"
  by (auto simp: starts_def goes_def dest: noted_pow)

lemma goes_Ok: "goes sz al Packed fs L L' \<Longrightarrow> Ok L"
  by (simp add: goes_def)

lemma place_goes': "place sz al Packed Ft N L = Some L' \<Longrightarrow> Ok L' \<Longrightarrow> starts sz al [(p, N, Ft)] (unat (Off L)) L
    \<Longrightarrow> goes sz al Packed [(p, N, Ft)] L L'"
  unfolding starts_def by (blast intro: place_goes)

lemma goes_Nil: "Ok L \<Longrightarrow> starts sz al [] (unat (Off L)) L \<Longrightarrow> goes sz al Packed [] L L"
  by (simp add: goes_def starts_def noted_Nil)

text \<open>Once a field has no size the walk stays off.\<close>

lemma place_Ok: "place sz al Packed Ft N L = Some L' \<Longrightarrow> Ok L' \<Longrightarrow> Ok L"
  by (auto simp: place_def Let_def split: option.splits Option.bind_splits)

lemma place_names_Ok: "place_names (place sz al Packed) Ft Ns L = Some L' \<Longrightarrow> Ok L' \<Longrightarrow> Ok L"
  by (induction Ns arbitrary: L) (auto split: Option.bind_splits dest: place_Ok)

lemma place_groups_Ok: "place_groups (place sz al Packed) Gs L = Some L' \<Longrightarrow> Ok L' \<Longrightarrow> Ok L"
proof (induction Gs arbitrary: L)
  case (Cons G Gs)
  then obtain L1 where "place_names (place sz al Packed) (snd G) (fst G) L = Some L1" "Ok L1"
    by (cases G) (auto split: Option.bind_splits)
  then show ?case by (rule place_names_Ok)
qed simp

lemma place_tag_Ok: "place_tag (place sz al Packed) Tag TagTy L = Some L' \<Longrightarrow> Ok L' \<Longrightarrow> Ok L"
  by (auto simp: place_tag_def split: option.splits if_splits dest: place_Ok)

lemma place_names_goes:
  "place_names (place sz al Packed) Ft Ns L = Some L' \<Longrightarrow> Ok L'
   \<Longrightarrow> starts sz al (map (\<lambda>N. (p, N, Ft)) Ns) (unat (Off L)) L \<Longrightarrow> goes sz al Packed (map (\<lambda>N. (p, N, Ft)) Ns) L L'"
proof (induction Ns arbitrary: L)
  case Nil
  then show ?case by (simp add: goes_Nil)
next
  case (Cons N Ns)
  let ?f = "\<lambda>N. (p, N, Ft)"
  obtain L1 where L1: "place sz al Packed Ft N L = Some L1" "place_names (place sz al Packed) Ft Ns L1 = Some L'"
    using Cons.prems(1) by (auto split: Option.bind_splits)
  have S: "starts sz al ([?f N] @ map ?f Ns) (unat (Off L)) L" using Cons.prems(3) by simp
  have g: "goes sz al Packed [?f N] L L1"
    by (rule place_goes' [OF L1(1) place_names_Ok [OF L1(2) Cons.prems(2)] starts_split(1) [OF S]])
  have "goes sz al Packed (map ?f Ns) L1 L'"
    by (rule Cons.IH [OF L1(2) Cons.prems(2) starts_split(2) [OF S g]])
  from goes_append [OF g this] show ?case by simp
qed

lemma place_groups_goes:
  "place_groups (place sz al Packed) Gs L = Some L' \<Longrightarrow> Ok L'
   \<Longrightarrow> starts sz al (group_fields p Gs) (unat (Off L)) L \<Longrightarrow> goes sz al Packed (group_fields p Gs) L L'"
proof (induction Gs arbitrary: L)
  case Nil
  then show ?case by (simp add: goes_Nil)
next
  case (Cons G Gs)
  obtain Ns Ft where G: "G = (Ns, Ft)" by (cases G)
  obtain L1 where L1: "place_names (place sz al Packed) Ft Ns L = Some L1" "place_groups (place sz al Packed) Gs L1 = Some L'"
    using Cons.prems(1) by (auto simp: G split: Option.bind_splits)
  note S = Cons.prems(3) [unfolded G group_fields.simps]
  have g: "goes sz al Packed (map (\<lambda>N. (p, N, Ft)) Ns) L L1"
    by (rule place_names_goes [OF L1(1) place_groups_Ok [OF L1(2) Cons.prems(2)] starts_split(1) [OF S]])
  have "goes sz al Packed (group_fields p Gs) L1 L'"
    by (rule Cons.IH [OF L1(2) Cons.prems(2) starts_split(2) [OF S g]])
  from goes_append [OF g this] show ?case by (simp add: G)
qed

lemma place_tag_goes:
  "place_tag (place sz al Packed) Tag TagTy L = Some L' \<Longrightarrow> Ok L'
   \<Longrightarrow> starts sz al (tag_fields p Tag TagTy) (unat (Off L)) L \<Longrightarrow> goes sz al Packed (tag_fields p Tag TagTy) L L'"
  by (auto simp: place_tag_def tag_fields_def goes_Nil split: option.splits if_splits intro: place_goes')

lemma layout_cases_Ok:
  "layoutVariantCase (place sz al Packed) C Start L = Some L' \<Longrightarrow> Ok L' \<Longrightarrow> Ok L"
  "layout_cases (place sz al Packed) Cs At End L = Some L' \<Longrightarrow> Ok L' \<Longrightarrow> Ok L"
proof (induction "place sz al Packed" C Start L and "place sz al Packed" Cs At End L arbitrary: L' and L'
    rule: layoutVariantCase_layout_cases.induct)
  case (1 Fields Start L)
  then show ?case by (auto dest: place_groups_Ok)
next
  case (2 Fields TagField TagType Cases Start L)
  obtain L1 L2 where L: "place_groups (place sz al Packed) Fields (L\<lparr>Off := Start\<rparr>) = Some L1"
      "place_tag (place sz al Packed) TagField TagType L1 = Some L2"
      "layout_cases (place sz al Packed) Cases (Off L2) (Off L2) L2 = Some L'"
    using 2(2) by (auto split: Option.bind_splits)
  have "Ok L2" by (rule 2(1) [OF L 2(3)])
  from place_groups_Ok [OF L(1) place_tag_Ok [OF L(2) this]] show ?case by simp
next
  case (4 Inner Cases At End L)
  then show ?case by (auto split: Option.bind_splits)
qed auto

text \<open>Two alternatives of one variant part never exist together.\<close>

lemma alternatives_apart:
  assumes "f \<in> set (case_fields (p @ [k]) C)" "g \<in> set (cases_fields p (Suc k) Cs)"
  shows "\<not> together (fst f) (fst g)"
proof
  assume t: "together (fst f) (fst g)"
  obtain j where j: "Suc k \<le> j" "prefix (p @ [j]) (fst g)" using case_fields_path(2) [OF assms(2)] by blast
  have "prefix (p @ [k]) (fst f)" by (rule case_fields_path(1) [OF assms(1)])
  then have "prefix (p @ [k]) (p @ [j]) \<or> prefix (p @ [j]) (p @ [k])"
    using t j(2) unfolding together_def by (meson prefix_order.trans prefix_same_cases)
  then show False using j(1) by auto
qed

lemma noted_reset: "noted sz al Packed fs lo hi (L\<lparr>Off := x\<rparr>) L' = noted sz al Packed fs lo hi L L'"
  "noted sz al Packed fs lo hi L (L'\<lparr>Off := x\<rparr>) = noted sz al Packed fs lo hi L L'"
  by (simp_all add: noted_def)

lemma layout_cases_noted:
  "layoutVariantCase (place sz al Packed) C Start L = Some L' \<Longrightarrow> Ok L' \<Longrightarrow> starts sz al (case_fields p C) (unat Start) L
   \<Longrightarrow> unat Start \<le> unat (Off L') \<and> unat (Off L') \<le> unat Start + room sz (case_fields p C)
     \<and> noted sz al Packed (case_fields p C) (unat Start) (unat (Off L')) L L'"
  "layout_cases (place sz al Packed) Cs At End L = Some L' \<Longrightarrow> Ok L' \<Longrightarrow> starts sz al (cases_fields p k Cs) (unat At) L
   \<Longrightarrow> unat At \<le> unat End
   \<Longrightarrow> unat End \<le> unat (Off L') \<and> unat (Off L') \<le> max (unat End) (unat At + room sz (cases_fields p k Cs))
     \<and> noted sz al Packed (cases_fields p k Cs) (unat At) (unat (Off L')) L L'"
proof (induction "place sz al Packed" C Start L and "place sz al Packed" Cs At End L arbitrary: L' p and L' p k
    rule: layoutVariantCase_layout_cases.induct)
  case (1 Fields Start L)
  have "goes sz al Packed (group_fields p Fields) (L\<lparr>Off := Start\<rparr>) L'"
    using 1 by (intro place_groups_goes) (simp_all add: starts_def)
  then show ?case by (simp add: goes_def noted_reset)
next
  case (2 Fields TagField TagType Cases Start L)
  let ?L = "L\<lparr>Off := Start\<rparr>" and ?g = "group_fields p Fields" and ?t = "tag_fields p TagField TagType"
  obtain L1 L2 where L: "place_groups (place sz al Packed) Fields ?L = Some L1"
      "place_tag (place sz al Packed) TagField TagType L1 = Some L2"
      "layout_cases (place sz al Packed) Cases (Off L2) (Off L2) L2 = Some L'"
    using 2(2) by (auto split: Option.bind_splits)
  have S: "starts sz al ((?g @ ?t) @ cases_fields p 0 Cases) (unat (Off ?L)) ?L" using 2(4) by (simp add: starts_def)
  note S' = starts_split(1) [OF S]
  have ok2: "Ok L2" by (rule layout_cases_Ok(2) [OF L(3) 2(3)])
  have g: "goes sz al Packed ?g ?L L1"
    by (rule place_groups_goes [OF L(1) place_tag_Ok [OF L(2) ok2] starts_split(1) [OF S']])
  have t: "goes sz al Packed ?t L1 L2"
    by (rule place_tag_goes [OF L(2) ok2 starts_split(2) [OF S' g]])
  note gt = goes_append [OF g t]
  note c = 2(1) [OF L 2(3) starts_split(2) [OF S gt] order_refl]
  have n: "noted sz al Packed (?g @ ?t) (unat Start) (unat (Off L2)) ?L L2" using gt by (simp add: goes_def)
  have "noted sz al Packed ((?g @ ?t) @ cases_fields p 0 Cases) (unat Start) (unat (Off L')) ?L L'"
    using gt c by (intro noted_append [OF n]) (simp_all add: goes_def)
  moreover have "unat Start \<le> unat (Off L2)" "unat (Off L2) \<le> unat Start + room sz (?g @ ?t)"
    using gt by (auto simp: goes_def)
  ultimately show ?case using c by (auto simp: noted_reset max_def split: if_splits)
next
  case (3 At End L)
  then show ?case by (auto simp: starts_def noted_Nil)
next
  case (4 Inner Cases At End L)
  let ?f = "case_fields (p @ [k]) Inner" and ?r = "cases_fields p (Suc k) Cases"
  obtain L1 where L: "layoutVariantCase (place sz al Packed) Inner At L = Some L1"
      "layout_cases (place sz al Packed) Cases At (max End (Off L1)) L1 = Some L'"
    using 4(3) by (auto split: Option.bind_splits)
  have ok1: "Ok L1" by (rule layout_cases_Ok(2) [OF L(2) 4(4)])
  have S: "starts sz al ?f (unat At) L" using 4(5) by (simp add: starts_def)
  note f = 4(1) [OF L(1) ok1 S]
  have S1: "starts sz al ?r (unat At) L1" using 4(5) f by (auto simp: starts_def dest: noted_pow)
  have "unat At \<le> unat (max End (Off L1))" using 4(6) by (simp add: unat_max)
  note r = 4(2) [OF L 4(4) S1 this]
  have "noted sz al Packed (?f @ ?r) (unat At) (unat (Off L')) L L'"
  proof (rule noted_alternatives)
    show "noted sz al Packed ?f (unat At) (unat (Off L')) L L1"
      using f r by (auto simp: unat_max intro: noted_mono)
    show "noted sz al Packed ?r (unat At) (unat (Off L')) L1 L'" using r by simp
  qed (rule alternatives_apart)
  then show ?case using f r by (auto simp: unat_max)
qed

subsection \<open>The shared run of a variant part\<close>

lemma variantBlobBytes_pow: "unat A \<in> pow_align \<Longrightarrow> variantBlobBytes Size A = roundUp Size A"
proof -
  assume "unat A \<in> pow_align"
  then have "A \<in> {1, 2, 4, 8, 16}" by (auto simp: pow_align_def word_unat_eq_iff)
  then show ?thesis by (auto simp: variantBlobBytes_def word_le_nat_alt)
qed

text \<open>The alternatives are laid out from zero and then moved, as one, to an offset every one of them may start at.\<close>

lemma shift_items:
  assumes "lies lo hi (map2 (item_of sz al Packed) fs new)" "length fs = length new" "hi + unat d < 2 ^ 64"
  shows "map2 (item_of sz al Packed) fs (map (\<lambda>(N, x). (N, x + d)) new)
         = map (shift (unat d)) (map2 (item_of sz al Packed) fs new)"
proof (rule nth_equalityI, simp add: assms(2))
  fix i assume "i < length (map2 (item_of sz al Packed) fs (map (\<lambda>(N, x). (N, x + d)) new))"
  then have i: "i < length fs" "i < length new" using assms(2) by simp_all
  have "inside lo hi (item_of sz al Packed (fs ! i) (new ! i))"
    using assms(1) i unfolding lies_def by (metis (no_types, lifting) length_map length_zip min_less_iff_conj nth_map nth_mem nth_zip prod.simps(2))
  then have "unat (snd (new ! i)) \<le> hi" by (simp add: item_of_def)
  then have "unat (snd (new ! i) + d) = unat (snd (new ! i)) + unat d" using assms(3) by (intro unat_plus) linarith
  then show "map2 (item_of sz al Packed) fs (map (\<lambda>(N, x). (N, x + d)) new) ! i
      = map (shift (unat d)) (map2 (item_of sz al Packed) fs new) ! i"
    using i by (cases "new ! i") (simp add: item_of_def shift_def)
qed

lemma noted_shift:
  assumes "noted sz al Packed fs 0 hi L0 L2" "Offsets L0 = Offsets L1" "hi + unat d < 2 ^ 64"
    and "unat (if Packed then 1 else Algn L2) dvd unat d" "unat (Algn L1) \<in> pow_align"
  shows "noted sz al Packed fs (unat d) (hi + unat d) L1
    (L2\<lparr>Off := o', Algn := max (Algn L1) (if Packed then 1 else Algn L2),
        Offsets := take (length (Offsets L1)) (Offsets L2) @ map (\<lambda>(N, x). (N, x + d)) (drop (length (Offsets L1)) (Offsets L2))\<rparr>)"
proof -
  let ?A = "if Packed then 1 else Algn L2"
  obtain new where n: "Offsets L2 = Offsets L1 @ new" "map fst new = map (fst \<circ> snd) fs"
      "lies 0 hi (map2 (item_of sz al Packed) fs new)" "\<forall>f\<in>set fs. falign al Packed (snd (snd f)) dvd unat (Algn L2)"
      "unat (Algn L2) \<in> pow_align"
    using assms(1,2) by (auto simp: noted_def)
  have A: "unat ?A \<in> pow_align" using n(5) by (auto simp: pow_align_def)
  have len: "length fs = length new" using n(2) by (metis length_map)
  have dv: "falign al Packed (snd (snd f)) dvd unat ?A" if "f \<in> set fs" for f
    using n(4) that by (auto simp: falign_def)
  have "lies (0 + unat d) (hi + unat d) (map (shift (unat d)) (map2 (item_of sz al Packed) fs new))"
  proof (rule lies_shift [OF n(3)])
    fix p s a x assume "(p, s, a, x) \<in> set (map2 (item_of sz al Packed) fs new)"
    then obtain f where "f \<in> set fs" "a = falign al Packed (snd (snd f))" by (auto simp: item_of_def dest: set_zip_leftD)
    then show "a dvd unat d" using dv assms(4) dvd_trans by blast
  qed
  then have "lies (unat d) (hi + unat d) (map2 (item_of sz al Packed) fs (map (\<lambda>(N, x). (N, x + d)) new))"
    unfolding shift_items [OF n(3) len assms(3)] by simp
  moreover have "map fst (map (\<lambda>(N, x). (N, x + d)) new) = map fst new" by (induction new) auto
  moreover note pow_align_max [OF assms(5) A]
  ultimately show ?thesis using n(1,2) dv unfolding noted_def
    by (intro exI [of _ "map (\<lambda>(N, x). (N, x + d)) new"]) (auto simp: unat_max intro: dvd_trans)
qed

definition variant_fields :: "RecVariant option \<Rightarrow> placed_field list" where
  "variant_fields V = (case V of None \<Rightarrow> []
     | Some (RecVariant TagField TagType Cases) \<Rightarrow> tag_fields [] TagField TagType @ cases_fields [] 0 Cases)"

lemma lies_sizes:
  assumes "lies 0 0 (map2 (item_of sz al Packed) fs new)" "length fs = length new" "f \<in> set fs"
  shows "fsize sz (snd (snd f)) = 0"
proof -
  obtain x where "(f, x) \<in> set (zip fs new)" using assms(2,3) by (metis in_set_impl_in_set_zip1)
  then have "inside 0 0 (item_of sz al Packed f x)" using assms(1) by (auto simp: lies_def)
  then show ?thesis by (simp add: item_of_def)
qed

lemma layout_variant_noted:
  assumes "layout_variant (place sz al Packed) Packed V L = Some L'" "Ok L'"
    and S: "starts sz al (variant_fields V) (unat (Off L) + 32) L"
    and Z: "\<forall>f\<in>set (variant_fields V). fsize sz (snd (snd f)) = 0 \<longrightarrow> falign al Packed (snd (snd f)) = 1"
  shows "Ok L \<and> unat (Off L) \<le> unat (Off L') \<and> unat (Off L') \<le> unat (Off L) + room sz (variant_fields V) + 32
    \<and> noted sz al Packed (variant_fields V) (unat (Off L)) (unat (Off L')) L L'"
proof (cases V)
  case None
  then show ?thesis using assms by (auto simp: layout_variant_def variant_fields_def starts_def noted_Nil)
next
  case (Some v)
  obtain TagField TagType Cases where v: "v = RecVariant TagField TagType Cases" by (cases v)
  let ?t = "tag_fields [] TagField TagType" and ?c = "cases_fields [] 0 Cases"
  obtain L1 L2 where L: "place_tag (place sz al Packed) TagField TagType L = Some L1"
      "layout_cases (place sz al Packed) Cases 0 0 (L1\<lparr>Off := 0, Algn := 1\<rparr>) = Some L2"
    using assms(1) by (auto simp: layout_variant_def Some v Let_def split: Option.bind_splits)
  let ?A = "if Packed then 1 else Algn L2" and ?L0 = "L1\<lparr>Off := 0, Algn := 1\<rparr>"
  have F: "variant_fields V = ?t @ ?c" by (simp add: variant_fields_def Some v)
  have ok2: "Ok L2" using assms(1,2) L by (auto simp: layout_variant_def Some v Let_def split: if_splits)
  then have ok1: "Ok L1" using layout_cases_Ok(2) [OF L(2)] by simp
  have t: "goes sz al Packed ?t L L1"
    using S F by (intro place_tag_goes [OF L(1) ok1]) (simp add: starts_def)
  then have p1: "unat (Algn L1) \<in> pow_align" by (auto simp: goes_def dest: noted_pow)
  have c: "unat (Off L2) \<le> room sz ?c" "noted sz al Packed ?c 0 (unat (Off L2)) ?L0 L2"
    using layout_cases_noted(2) [OF L(2) ok2, of "[]" 0] S F by (auto simp: starts_def pow_align_def)
  have t': "unat (Off L) \<le> unat (Off L1)" "unat (Off L1) \<le> unat (Off L) + room sz ?t"
      "noted sz al Packed ?t (unat (Off L)) (unat (Off L1)) L L1" "Ok L"
    using t by (auto simp: goes_def)
  have bound: "unat (Off L) + room sz ?t + room sz ?c + 32 < 2 ^ 64" using S F by (simp add: starts_def)
  have "unat (Off L1) \<le> unat (Off L') \<and> unat (Off L') \<le> unat (Off L1) + room sz ?c + 32
    \<and> noted sz al Packed ?c (unat (Off L1)) (unat (Off L')) L1 L'"
  proof (cases "Off L2 = 0")
    case True
    have L': "L' = L2\<lparr>Off := Off L1, Algn := Algn L1\<rparr>"
      using assms(1) L True by (simp add: layout_variant_def Some v Let_def)
    obtain new where n: "Offsets L2 = Offsets L1 @ new" "map fst new = map (fst \<circ> snd) ?c"
        "lies 0 0 (map2 (item_of sz al Packed) ?c new)"
      using c(2) True by (auto simp: noted_def)
    have len: "length ?c = length new" using n(2) by (metis length_map)
    have "falign al Packed (snd (snd f)) = 1" if "f \<in> set ?c" for f
      using Z F lies_sizes [OF n(3) len that] that by auto
    then show ?thesis using n L' p1 lies_empty_interval [OF n(3)] by (auto simp: noted_def)
  next
    case False
    then have pos: "Off L2 > 0" by (simp add: word_gt_0)
    have A: "unat ?A \<in> pow_align" using noted_pow [OF c(2)] by (auto simp: pow_align_def)
    let ?d = "roundUp (Off L1) ?A" and ?B = "roundUp (Off L2) ?A"
    have L': "L' = L2\<lparr>Off := ?d + ?B, Algn := max (Algn L1) ?A,
        Offsets := take (length (Offsets L1)) (Offsets L2) @ map (\<lambda>(N, x). (N, x + ?d)) (drop (length (Offsets L1)) (Offsets L2))\<rparr>"
      using assms(1) L pos variantBlobBytes_pow [OF A] by (simp add: layout_variant_def Some v Let_def split: if_splits)
    have "unat (Off L1) + 16 \<le> 2 ^ 64" "unat (Off L2) + 16 \<le> 2 ^ 64" using t'(2) c(1) bound by linarith+
    note d = roundUp_bounds [OF A this(1)] and B = roundUp_bounds [OF A this(2)]
    have o': "unat (Off L') = unat ?d + unat ?B" using L' d(2) B(2) t'(2) c(1) bound by (simp add: unat_plus)
    have "noted sz al Packed ?c (unat ?d) (unat (Off L2) + unat ?d) L1 L'"
      unfolding L' using d B t'(2) c(1) bound p1 by (intro noted_shift [OF c(2)]) auto
    then have "noted sz al Packed ?c (unat (Off L1)) (unat (Off L')) L1 L'"
      using d(1) B(1) o' by (auto intro: noted_mono)
    then show ?thesis using o' d B c(1) by auto
  qed
  then show ?thesis using t' F noted_append [OF t'(3)] by auto
qed

subsection \<open>Alignments\<close>

text \<open>The widths types are given: eight to sixty-four bits for an ordinal, one or two words of thirty-two for a real, a
  pointer or an entry point.\<close>

definition widths_ok :: "Mem \<Rightarrow> bool" where
  "widths_ok H \<longleftrightarrow> (\<forall>a. (TyKind (H a) \<in> {TkInteger, TkSubrange, TkEnum, TkBoolean} \<longrightarrow> Width (H a) \<le> 64)
     \<and> (TyKind (H a) \<in> {TkReal, TkString, TkPointer, TkNil, TkProcedure, TkFunction} \<longrightarrow> Width (H a) = 32 \<or> Width (H a) = 64))"

lemma intBytes_loop_pow: "\<exists>k. intBytes_loop B (2 ^ j) = 2 ^ k"
proof (induction "B - 2 ^ j" arbitrary: j rule: less_induct)
  case less
  show ?case
  proof (cases "2 ^ j < B")
    case True
    then have "B - 2 ^ Suc j < B - 2 ^ j" by (simp add: diff_less_mono2)
    from less [OF this] True show ?thesis by (subst intBytes_loop.simps) (simp add: mult.commute)
  next
    case False
    then show ?thesis by (subst intBytes_loop.simps) auto
  qed
qed

lemma intBytes_loop_bound: "0 < P \<Longrightarrow> intBytes_loop B P \<le> max P (2 * B)"
proof (induction "B - P" arbitrary: P rule: less_induct)
  case less
  show ?case
  proof (cases "P < B")
    case True
    then have "B - P * 2 < B - P" using less.prems by simp
    from less.hyps [OF this] less.prems True show ?thesis by (subst intBytes_loop.simps) auto
  next
    case False
    then show ?thesis by (subst intBytes_loop.simps) simp
  qed
qed

lemma intBytes_pow:
  assumes "Bits \<le> 256"
  shows "\<exists>k\<le>6. unat (intBytes Bits) = 2 ^ k"
proof -
  obtain k where k: "intBytes_loop ((Bits + 7) div 8) 1 = 2 ^ k" using intBytes_loop_pow [of _ 0] by auto
  have "(Bits + 7) div 8 \<le> 32" using div_le_mono [of "Bits + 7" 263 8] assms by simp
  then have "intBytes_loop ((Bits + 7) div 8) 1 \<le> 64" using intBytes_loop_bound [of 1 "(Bits + 7) div 8"] by simp
  then have "(2 :: nat) ^ k \<le> 2 ^ 6" using k by simp
  then have "k \<le> 6" by (rule power_le_imp_le_exp [rotated]) simp
  moreover have "unat (intBytes Bits) = 2 ^ k"
    using \<open>(2 :: nat) ^ k \<le> 2 ^ 6\<close> unfolding intBytes_def k unat_of_nat by simp
  ultimately show ?thesis by blast
qed

lemma intAlign_pow: "Bits \<le> 256 \<Longrightarrow> unat (intAlign Bits) \<in> pow_align"
proof -
  assume "Bits \<le> 256"
  then obtain k where "k \<le> 6" "unat (intBytes Bits) = 2 ^ k" using intBytes_pow by blast
  moreover have "unat (min x y :: 64 word) = min (unat x) (unat y)" for x y by (simp add: min_def word_le_nat_alt)
  moreover have "k \<in> {0, 1, 2, 3, 4, 5, 6}" using \<open>k \<le> 6\<close> by auto
  ultimately show ?thesis by (auto simp: intAlign_def pow_align_def)
qed

lemma max_align_pow:
  "max_align al Fs A = Some B \<Longrightarrow> aligned_types al \<Longrightarrow> unat A \<in> pow_align \<Longrightarrow> unat B \<in> pow_align"
proof (induction Fs arbitrary: A)
  case (Cons F Fs)
  then show ?case
    by (cases "FieldTy F") (auto simp: aligned_types_def unat_max pow_align_max split: Option.bind_splits)
qed simp

lemma byteAlignOf_pow:
  assumes "widths_ok H"
  shows "byteAlignOf n H a = Some A \<Longrightarrow> unat A \<in> pow_align"
proof (induction n arbitrary: a A)
  case (Suc n)
  then have al: "aligned_types (byteAlignOf n H)" by (simp add: aligned_types_def)
  have w: "Width (H a) = 32 \<or> Width (H a) = 64 \<Longrightarrow> unat (of_nat (Width (H a) div 8) :: 64 word) \<in> pow_align"
    by (auto simp: pow_align_def)
  have i: "unat (intAlign PlangMaxSetElements) \<in> pow_align" by (intro intAlign_pow) (simp add: PlangMaxSetElements_def)
  have m: "max_align (byteAlignOf n H) Fs 1 = Some B \<Longrightarrow> unat B \<in> pow_align" for Fs B
    by (rule max_align_pow [OF _ al]) (auto simp: pow_align_def)
  have v: "unat B \<in> pow_align \<Longrightarrow> unat (max B 8) \<in> pow_align" for B :: "64 word"
    by (simp add: unat_max pow_align_max) (auto simp: pow_align_def)
  have k: "(1 :: nat) \<in> pow_align" "(8 :: nat) \<in> pow_align" by (simp_all add: pow_align_def)
  note wa = assms [unfolded widths_ok_def, rule_format, of a]
  show ?case
    using Suc.prems Suc.IH wa w i m v k
    by (cases "TyKind (H a)")
       (auto simp: Let_def split: option.splits if_splits Option.bind_splits intro!: intAlign_pow)
qed simp

subsection \<open>Records\<close>

text \<open>The bytes a field occupies, and the alternatives it lies in.\<close>

definition field_bytes :: "nat \<Rightarrow> Mem \<Rightarrow> RecordNode \<Rightarrow> FieldOffsets \<Rightarrow> nat \<Rightarrow> nat set" where
  "field_bytes n H RD offs i =
     {unat (snd (offs ! i)) ..< unat (snd (offs ! i)) + fsize (byteSizeOf n H) (snd (snd (decl_fields RD ! i)))}"

definition field_align :: "nat \<Rightarrow> Mem \<Rightarrow> RecordNode \<Rightarrow> nat \<Rightarrow> nat" where
  "field_align n H RD i = falign (byteAlignOf n H) (NodePacked RD) (snd (snd (decl_fields RD ! i)))"

definition coexist :: "RecordNode \<Rightarrow> nat \<Rightarrow> nat \<Rightarrow> bool" where
  "coexist RD i j \<longleftrightarrow> together (fst (decl_fields RD ! i)) (fst (decl_fields RD ! j))"

text \<open>The record is small enough for 64 bits, padding included, and a field without bytes needs no alignment.\<close>

definition record_fits :: "nat \<Rightarrow> Mem \<Rightarrow> RecordNode \<Rightarrow> bool" where
  "record_fits n H RD \<longleftrightarrow> room (byteSizeOf n H) (decl_fields RD) + 48 < 2 ^ 64
     \<and> (\<forall>f\<in>set (decl_fields RD). fsize (byteSizeOf n H) (snd (snd f)) = 0
          \<longrightarrow> falign (byteAlignOf n H) (NodePacked RD) (snd (snd f)) = 1)"

lemma decl_fields_split: "decl_fields RD = group_fields [] (NodeFields RD) @ variant_fields (NodeVariant RD)"
  by (simp add: decl_fields_def variant_fields_def split: option.splits)

lemma byteLayout_record:
  assumes "byteLayout (Suc n) H a = Some (Some s, offs)" "TyKind (H a) = TkRecord" "RecordDecl (H a) = Some RD"
  obtains L where "layout_record (place (byteSizeOf n H) (byteAlignOf n H)) RD = Some L" "Ok L"
    "s = roundUp (Off L) (Algn L)" "offs = Offsets L"
proof -
  have e: "byteSizeOf n H = (\<lambda>t. map_option fst (byteLayout n H t))" by (simp add: byteSizeOf_def fun_eq_iff)
  show thesis using assms that unfolding e by (auto split: Option.bind_splits if_splits)
qed

lemma record_walk:
  assumes "layout_record (place sz al) RD = Some L" "Ok L" "aligned_types al"
    and R: "room sz (decl_fields RD) + 48 < 2 ^ 64"
    and Z: "\<forall>f\<in>set (decl_fields RD). fsize sz (snd (snd f)) = 0 \<longrightarrow> falign al (NodePacked RD) (snd (snd f)) = 1"
  shows "noted sz al (NodePacked RD) (decl_fields RD) 0 (unat (Off L)) first_walk L \<and> unat (Off L) + 16 \<le> 2 ^ 64"
proof -
  let ?P = "NodePacked RD" and ?g = "group_fields [] (NodeFields RD)" and ?v = "variant_fields (NodeVariant RD)"
  obtain L1 where L1: "place_groups (place sz al ?P) (NodeFields RD) first_walk = Some L1"
      "layout_variant (place sz al ?P) ?P (NodeVariant RD) L1 = Some L"
    using assms(1) by (auto simp: layout_record_def split: Option.bind_splits)
  have R': "room sz ?g + room sz ?v + 48 < 2 ^ 64" using R by (simp add: decl_fields_split)
  have ok1: "Ok L1" using L1(2) assms(2)
    by (auto simp: layout_variant_def Let_def split: option.splits RecVariant.splits Option.bind_splits if_splits
        dest!: place_tag_Ok layout_cases_Ok(2))
  have "starts sz al ?g (unat (Off first_walk)) first_walk"
    using R' assms(3) by (simp add: starts_def first_walk_def pow_align_def)
  from place_groups_goes [OF L1(1) ok1 this]
  have g: "unat (Off L1) \<le> room sz ?g" "noted sz al ?P ?g 0 (unat (Off L1)) first_walk L1"
    by (auto simp: goes_def first_walk_def)
  have "starts sz al ?v (unat (Off L1) + 32) L1" using g R' assms(3) by (auto simp: starts_def dest: noted_pow)
  from layout_variant_noted [OF L1(2) assms(2) this] Z
  have v: "unat (Off L1) \<le> unat (Off L)" "unat (Off L) \<le> unat (Off L1) + room sz ?v + 32"
      "noted sz al ?P ?v (unat (Off L1)) (unat (Off L)) L1 L"
    by (auto simp: decl_fields_split)
  show ?thesis using noted_append [OF g(2) v(3)] v g R' by (simp add: decl_fields_split)
qed

text \<open>C3. The layout of a record is sound, variant parts and packed records included: the offsets are those of the
  declared fields in order, every field lies aligned and within the size of the record, the size is a multiple of every
  alignment, so that an array of such records keeps them aligned, and no two fields that can hold a value at the same
  time share a byte.\<close>

theorem record_fields_apart:
  assumes "byteLayout (Suc n) H a = Some (Some s, offs)" "TyKind (H a) = TkRecord" "RecordDecl (H a) = Some RD"
    and "widths_ok H" "record_fits n H RD"
  shows "map fst offs = map (fst \<circ> snd) (decl_fields RD)
    \<and> (\<forall>i<length offs. field_align n H RD i dvd unat (snd (offs ! i)) \<and> field_align n H RD i dvd unat s
         \<and> field_bytes n H RD offs i \<subseteq> {..<unat s})
    \<and> (\<forall>i<length offs. \<forall>j<length offs. i \<noteq> j \<longrightarrow> coexist RD i j \<longrightarrow> field_bytes n H RD offs i \<inter> field_bytes n H RD offs j = {})"
proof -
  obtain L where L: "layout_record (place (byteSizeOf n H) (byteAlignOf n H)) RD = Some L" "Ok L"
      "s = roundUp (Off L) (Algn L)" "offs = Offsets L"
    using byteLayout_record [OF assms(1-3)] .
  have al: "aligned_types (byteAlignOf n H)" using byteAlignOf_pow [OF assms(4)] by (auto simp: aligned_types_def)
  let ?it = "\<lambda>i. item_of (byteSizeOf n H) (byteAlignOf n H) (NodePacked RD) (decl_fields RD ! i) (offs ! i)"
  obtain N: "map fst offs = map (fst \<circ> snd) (decl_fields RD)"
    "lies 0 (unat (Off L)) (map2 (item_of (byteSizeOf n H) (byteAlignOf n H) (NodePacked RD)) (decl_fields RD) offs)"
    "\<forall>f\<in>set (decl_fields RD). falign (byteAlignOf n H) (NodePacked RD) (snd (snd f)) dvd unat (Algn L)"
    "unat (Algn L) \<in> pow_align" and fit: "unat (Off L) + 16 \<le> 2 ^ 64"
    using record_walk [OF L(1,2) al] assms(5) L(4) by (auto simp: record_fits_def noted_def first_walk_def)
  note r = roundUp_bounds [OF N(4) fit]
  have len: "length (decl_fields RD) = length offs" using N(1) by (metis length_map)
  have ins: "inside 0 (unat (Off L)) (?it i)" if "i < length offs" for i
    using lies_nth [OF N(2), of i] that len by simp
  have apart: "apart (?it i) (?it j)" if "i < j" "j < length offs" for i j
    using N(2) that len unfolding lies_def by (auto simp: sorted_wrt_iff_nth_less)
  have one: "field_align n H RD i dvd unat (snd (offs ! i)) \<and> field_align n H RD i dvd unat s
      \<and> field_bytes n H RD offs i \<subseteq> {..<unat s}" if "i < length offs" for i
  proof -
    have "field_align n H RD i dvd unat (Algn L)" using N(3) that len by (simp add: field_align_def)
    then have "field_align n H RD i dvd unat s" using r(3) L(3) by (metis dvd_trans)
    then show ?thesis using ins [OF that] r(1) L(3) by (auto simp: item_of_def field_align_def field_bytes_def)
  qed
  have dis: "field_bytes n H RD offs i \<inter> field_bytes n H RD offs j = {}" if "i < j" "j < length offs" "coexist RD i j" for i j
    using apart [OF that(1,2)] that(3) by (auto simp: item_of_def field_bytes_def coexist_def)
  have "field_bytes n H RD offs i \<inter> field_bytes n H RD offs j = {}"
    if "i < length offs" "j < length offs" "i \<noteq> j" "coexist RD i j" for i j
  proof (cases "i < j")
    case False
    then have "field_bytes n H RD offs j \<inter> field_bytes n H RD offs i = {}"
      using that by (intro dis) (auto simp: coexist_def together_def)
    then show ?thesis by blast
  qed (use dis that in blast)
  with N(1) one show ?thesis by blast
qed

text \<open>\<^verbatim>\<open>record x: integer; case b: boolean of true: (c: char; r: real); false: (i: integer) end\<close>.\<close>

definition sample_decl :: RecordNode where
  "sample_decl = \<lparr>NodeId = 1, NodeFields = [([''x''], Some 1)],
     NodeVariant = Some (RecVariant ''b'' (Some (Some 4))
       [RecCase [([''c''], Some 2), ([''r''], Some 3)] None, RecCase [([''i''], Some 1)] None]), NodePacked = False\<rparr>"

definition sample_mem :: Mem where
  "sample_mem a = (if a = 1 then makeInteger else if a = 2 then makeChar else if a = 3 then makeReal
     else if a = 4 then makeBoolean else if a = 5 then newType\<lparr>TyKind := TkRecord, RecordDecl := Some sample_decl\<rparr> else makeError)"

lemma sample_layout:
  "byteLayout 2 sample_mem 5 = Some (Some 32, [(''x'', 0), (''b'', 8), (''c'', 16), (''r'', 24), (''i'', 16)])"
  by code_simp

lemma sample_sizes:
  "byteSizeOf 1 sample_mem 1 = Some (Some 8)" "byteSizeOf 1 sample_mem 2 = Some (Some 1)"
  "byteSizeOf 1 sample_mem 3 = Some (Some 8)" "byteSizeOf 1 sample_mem 4 = Some (Some 1)"
  by code_simp+

lemma sample_fields:
  "decl_fields sample_decl = [([], ''x'', Some 1), ([], ''b'', Some 4), ([0], ''c'', Some 2), ([0], ''r'', Some 3), ([1], ''i'', Some 1)]"
  by (simp add: decl_fields_def sample_decl_def tag_fields_def)

lemma sample_widths: "widths_ok sample_mem"
  by (simp add: widths_ok_def sample_mem_def factories)

lemma sample_fits: "record_fits 1 sample_mem sample_decl"
  by (simp add: record_fits_def sample_fields fsize_def sample_sizes [unfolded One_nat_def])

theorem record_fields_apart_witness:
  "field_bytes 1 sample_mem sample_decl [(''x'', 0), (''b'', 8), (''c'', 16), (''r'', 24), (''i'', 16)] 2
   \<inter> field_bytes 1 sample_mem sample_decl [(''x'', 0), (''b'', 8), (''c'', 16), (''r'', 24), (''i'', 16)] 3 = {}"
proof -
  have L: "byteLayout (Suc 1) sample_mem 5 = Some (Some 32, [(''x'', 0), (''b'', 8), (''c'', 16), (''r'', 24), (''i'', 16)])"
    using sample_layout by (simp add: numeral_2_eq_2)
  have "TyKind (sample_mem 5) = TkRecord" "RecordDecl (sample_mem 5) = Some sample_decl"
    by (simp_all add: sample_mem_def newType_def)
  from record_fields_apart [OF L this sample_widths sample_fits]
  have "\<forall>i<5. \<forall>j<5. i \<noteq> j \<longrightarrow> coexist sample_decl i j \<longrightarrow>
      field_bytes 1 sample_mem sample_decl [(''x'', 0), (''b'', 8), (''c'', 16), (''r'', 24), (''i'', 16)] i
      \<inter> field_bytes 1 sample_mem sample_decl [(''x'', 0), (''b'', 8), (''c'', 16), (''r'', 24), (''i'', 16)] j = {}"
    by simp
  moreover have "coexist sample_decl 2 3" by (simp add: coexist_def sample_fields together_def)
  ultimately show ?thesis by simp
qed

end
