(* ===== verification/Layout_Total.thy ===== *)
theory Layout_Total
  imports Layout_Props
begin

text \<open>
  That the questions about the storage of a type are answered: the recursion of \<open>byteAlignOf\<close> and \<open>byteSizeOf\<close> over
  types ends wherever containment by value is well founded.  Then the sizes of arrays, the layout of objects, whose
  ancestor's storage is an unchanged prefix, and the limit of one GiB on a variable.
\<close>

subsection \<open>The walks come to an end\<close>

text \<open>Two steps agree, and answer, on the types of a set; then so do the walks made of them.\<close>

definition agree :: "step \<Rightarrow> step \<Rightarrow> addr set \<Rightarrow> bool" where
  "agree pl pl' T \<longleftrightarrow> (\<forall>ft N L. set_option ft \<subseteq> T \<longrightarrow> pl ft N L = pl' ft N L \<and> pl ft N L \<noteq> None)"

lemma agreeD: "agree pl pl' T \<Longrightarrow> set_option ft \<subseteq> T \<Longrightarrow> \<exists>L'. pl ft N L = Some L' \<and> pl' ft N L = Some L'"
  unfolding agree_def by (metis option.exhaust)

lemma agree_place:
  assumes "\<And>t. t \<in> T \<Longrightarrow> sz t = sz' t \<and> sz t \<noteq> None \<and> al t = al' t \<and> al t \<noteq> None"
  shows "agree (place sz al Packed) (place sz' al' Packed) T"
proof -
  have "place sz al Packed ft N L = place sz' al' Packed ft N L \<and> place sz al Packed ft N L \<noteq> None"
    if "set_option ft \<subseteq> T" for ft N L
  proof (cases ft)
    case None
    then show ?thesis by (simp add: place_def)
  next
    case (Some t)
    then have "t \<in> T" using that by simp
    from assms [OF this] obtain S A where "sz t = Some S" "sz' t = Some S" "al t = Some A" "al' t = Some A" by (metis not_None_eq)
    then show ?thesis using Some by (simp add: place_def Let_def split: option.split)
  qed
  then show ?thesis unfolding agree_def by blast
qed

lemma place_names_agree:
  "agree pl pl' T \<Longrightarrow> set_option ft \<subseteq> T \<Longrightarrow> \<exists>L'. place_names pl ft Ns L = Some L' \<and> place_names pl' ft Ns L = Some L'"
proof (induction Ns arbitrary: L)
  case (Cons N Ns)
  obtain L1 where "pl ft N L = Some L1" "pl' ft N L = Some L1" using agreeD [OF Cons.prems] by blast
  with Cons.IH [OF Cons.prems] show ?case by simp
qed simp

lemma place_groups_agree:
  "agree pl pl' T \<Longrightarrow> set (List.map_filter snd Gs) \<subseteq> T
   \<Longrightarrow> \<exists>L'. place_groups pl Gs L = Some L' \<and> place_groups pl' Gs L = Some L'"
proof (induction Gs arbitrary: L)
  case (Cons G Gs)
  obtain Ns ft where G: "G = (Ns, ft)" by (cases G)
  have sub: "set_option ft \<subseteq> T" "set (List.map_filter snd Gs) \<subseteq> T"
    using Cons.prems(2) by (auto simp: G List.map_filter_simps split: option.splits)
  obtain L1 where "place_names pl ft Ns L = Some L1" "place_names pl' ft Ns L = Some L1"
    using place_names_agree [OF Cons.prems(1) sub(1)] by blast
  with Cons.IH [OF Cons.prems(1) sub(2)] show ?case by (simp add: G)
qed simp

lemma place_tag_agree:
  "agree pl pl' T \<Longrightarrow> set (case t of Some (Some a) \<Rightarrow> [a] | _ \<Rightarrow> []) \<subseteq> T
   \<Longrightarrow> \<exists>L'. place_tag pl Tag t L = Some L' \<and> place_tag pl' Tag t L = Some L'"
proof (cases t)
  case (Some ft)
  assume A: "agree pl pl' T" "set (case t of Some (Some a) \<Rightarrow> [a] | _ \<Rightarrow> []) \<subseteq> T"
  then have "set_option ft \<subseteq> T" using Some by (cases ft) auto
  from agreeD [OF A(1) this, of Tag L] show ?thesis using Some by (auto simp: place_tag_def)
qed (simp add: place_tag_def)

lemma layout_cases_agree:
  "agree pl pl' T \<Longrightarrow> set (case_types C) \<subseteq> T
   \<Longrightarrow> \<exists>L'. layoutVariantCase pl C Start L = Some L' \<and> layoutVariantCase pl' C Start L = Some L'"
  "agree pl pl' T \<Longrightarrow> set (concat (map case_types Cs)) \<subseteq> T
   \<Longrightarrow> \<exists>L'. layout_cases pl Cs At End L = Some L' \<and> layout_cases pl' Cs At End L = Some L'"
proof (induction pl C Start L and pl Cs At End L rule: layoutVariantCase_layout_cases.induct)
  case (1 pl Fields Start L)
  then show ?case by (auto intro!: place_groups_agree)
next
  case (2 pl Fields TagField TagType Cases Start L)
  let ?L = "L\<lparr>Off := Start\<rparr>"
  obtain L1 where L1: "place_groups pl Fields ?L = Some L1" "place_groups pl' Fields ?L = Some L1"
    using place_groups_agree [OF 2(2), of Fields ?L] 2(3) by auto
  obtain L2 where L2: "place_tag pl TagField TagType L1 = Some L2" "place_tag pl' TagField TagType L1 = Some L2"
    using place_tag_agree [OF 2(2), where t = TagType and Tag = TagField and L = L1] 2(3) by auto
  have "set (concat (map case_types Cases)) \<subseteq> T" using 2(3) by simp
  from 2(1) [OF L1(1) L2(1) 2(2) this] show ?case using L1 L2 by auto
next
  case (4 pl Inner Cases At End L)
  obtain L1 where "layoutVariantCase pl Inner At L = Some L1" "layoutVariantCase pl' Inner At L = Some L1"
    using 4(1,3,4) by auto
  with 4(2) [of L1] 4(3,4) show ?case by auto
qed auto

lemma layout_record_agree:
  assumes "\<And>Packed. agree (pl Packed) (pl' Packed) T" "set (decl_types RD) \<subseteq> T"
  shows "\<exists>L'. layout_record pl RD = Some L' \<and> layout_record pl' RD = Some L'"
proof -
  let ?P = "NodePacked RD"
  have sub: "set (List.map_filter snd (NodeFields RD)) \<subseteq> T"
      "case NodeVariant RD of None \<Rightarrow> True | Some v \<Rightarrow> set (variant_types v) \<subseteq> T"
    using assms(2) by (auto simp: decl_types_def split: option.splits)
  obtain L where L: "place_groups (pl ?P) (NodeFields RD) first_walk = Some L" "place_groups (pl' ?P) (NodeFields RD) first_walk = Some L"
    using place_groups_agree [OF assms(1) sub(1)] by blast
  show ?thesis
  proof (cases "NodeVariant RD")
    case None
    then show ?thesis using L by (simp add: layout_record_def layout_variant_def)
  next
    case (Some v)
    obtain Tag t Cs where v: "v = RecVariant Tag t Cs" by (cases v)
    obtain L1 where L1: "place_tag (pl ?P) Tag t L = Some L1" "place_tag (pl' ?P) Tag t L = Some L1"
      using place_tag_agree [OF assms(1) [of ?P], where t = t and Tag = Tag and L = L] sub(2) Some v by auto
    have "set (concat (map case_types Cs)) \<subseteq> T" using sub(2) Some v by simp
    from layout_cases_agree(2) [OF assms(1) this]
    obtain L2 where "layout_cases (pl ?P) Cs 0 0 (L1\<lparr>Off := 0, Algn := 1\<rparr>) = Some L2"
        "layout_cases (pl' ?P) Cs 0 0 (L1\<lparr>Off := 0, Algn := 1\<rparr>) = Some L2" by blast
    then show ?thesis using L L1 by (simp add: layout_record_def layout_variant_def Some v Let_def)
  qed
qed

lemma place_own_agree:
  "agree pl pl' T \<Longrightarrow> set (List.map_filter FieldTy Fs) \<subseteq> T \<Longrightarrow> \<exists>L'. place_own pl Fs L = Some L' \<and> place_own pl' Fs L = Some L'"
proof (induction Fs arbitrary: L)
  case (Cons F Fs)
  have sub: "set_option (FieldTy F) \<subseteq> T" "set (List.map_filter FieldTy Fs) \<subseteq> T"
    using Cons.prems(2) by (auto simp: List.map_filter_simps split: option.splits)
  obtain L1 where "pl (FieldTy F) (FieldName F) L = Some L1" "pl' (FieldTy F) (FieldName F) L = Some L1"
    using agreeD [OF Cons.prems(1) sub(1)] by blast
  with Cons.IH [OF Cons.prems(1) sub(2)] show ?case by simp
qed simp

lemma max_align_agree:
  "(\<And>t. t \<in> set (List.map_filter FieldTy Fs) \<Longrightarrow> al t = al' t \<and> al t \<noteq> None)
   \<Longrightarrow> \<exists>B. max_align al Fs A = Some B \<and> max_align al' Fs A = Some B"
proof (induction Fs arbitrary: A)
  case (Cons F Fs)
  have IH: "\<exists>B. max_align al Fs A = Some B \<and> max_align al' Fs A = Some B" for A
    by (rule Cons.IH) (rule Cons.prems, auto simp: List.map_filter_simps split: option.splits)
  show ?case
  proof (cases "FieldTy F")
    case None
    then show ?thesis using IH by simp
  next
    case (Some t)
    then have "t \<in> set (List.map_filter FieldTy (F # Fs))" by (simp add: List.map_filter_simps)
    from Cons.prems [OF this] obtain B where "al t = Some B" "al' t = Some B" by (metis not_None_eq)
    then show ?thesis using IH Some by simp
  qed
qed simp

lemma byteAlignOf_agree:
  assumes "ranked H r"
  shows "r a < n \<Longrightarrow> r a < m \<Longrightarrow> byteAlignOf n H a = byteAlignOf m H a \<and> byteAlignOf n H a \<noteq> None"
proof (induction "r a" arbitrary: a n m rule: less_induct)
  case less
  obtain n' m' where nm: "n = Suc n'" "m = Suc m'" using less.prems by (metis less_imp_Suc_add)
  have IH: "byteAlignOf n' H t = byteAlignOf m' H t \<and> byteAlignOf n' H t \<noteq> None" if "t \<in> set (by_value (H a))" for t
  proof (rule less.hyps [OF rankedD [OF assms that]])
    show "r t < n'" "r t < m'" using rankedD [OF assms that] less.prems nm by simp_all
  qed
  have "\<exists>B. max_align (byteAlignOf n' H) (RecordFields (H a)) 1 = Some B \<and> max_align (byteAlignOf m' H) (RecordFields (H a)) 1 = Some B"
    by (rule max_align_agree) (rule IH, auto simp: by_value_def)
  then obtain B where B: "max_align (byteAlignOf n' H) (RecordFields (H a)) 1 = Some B"
      "max_align (byteAlignOf m' H) (RecordFields (H a)) 1 = Some B" by blast
  have E: "\<exists>A. byteAlignOf n' H e = Some A \<and> byteAlignOf m' H e = Some A" if "ElemType (H a) = Some e" for e
    using IH [OF by_value_intros(3) [OF that]] by (metis not_None_eq)
  show ?case
  proof (cases "TyKind (H a) = TkArray")
    case True
    then show ?thesis using E by (cases "ElemType (H a)") (auto simp: nm Let_def)
  next
    case False
    then show ?thesis using B by (cases "TyKind (H a)") (simp_all add: nm Let_def)
  qed
qed

lemma byteLayout_agree:
  assumes "ranked H r"
  shows "r a < n \<Longrightarrow> r a < m \<Longrightarrow> byteLayout n H a = byteLayout m H a \<and> byteLayout n H a \<noteq> None"
proof (induction "r a" arbitrary: a n m rule: less_induct)
  case less
  obtain n' m' where nm: "n = Suc n'" "m = Suc m'" using less.prems by (metis less_imp_Suc_add)
  let ?T = "set (by_value (H a))"
  let ?sz = "\<lambda>k t. map_option fst (byteLayout k H t)"
  have rt: "r t < n'" "r t < m'" if "t \<in> ?T" for t using rankedD [OF assms that] less.prems nm by simp_all
  have IH: "byteLayout n' H t = byteLayout m' H t \<and> byteLayout n' H t \<noteq> None" if "t \<in> ?T" for t
    using less.hyps [OF rankedD [OF assms that]] rt [OF that] by blast
  have AL: "byteAlignOf n' H t = byteAlignOf m' H t \<and> byteAlignOf n' H t \<noteq> None" if "t \<in> ?T" for t
    using byteAlignOf_agree [OF assms] rt [OF that] by blast
  have ag: "agree (place (?sz n') (byteAlignOf n' H) Packed) (place (?sz m') (byteAlignOf m' H) Packed) ?T" for Packed
    by (rule agree_place) (use IH AL in fastforce)
  have rec: "\<exists>L. layout_record (place (?sz n') (byteAlignOf n' H)) RD = Some L \<and> layout_record (place (?sz m') (byteAlignOf m' H)) RD = Some L"
    if "RecordDecl (H a) = Some RD" for RD
    by (rule layout_record_agree [OF ag]) (use that in auto)
  have own: "\<exists>L. place_own (place (?sz n') (byteAlignOf n' H) False) (drop k (RecordFields (H a))) W = Some L
      \<and> place_own (place (?sz m') (byteAlignOf m' H) False) (drop k (RecordFields (H a))) W = Some L" for k W
    by (rule place_own_agree [OF ag]) (auto simp: map_filter_set dest!: in_set_dropD)
  show ?case
  proof (cases "TyKind (H a)")
    case TkArray
    have "\<exists>v. byteLayout n' H e = Some v \<and> byteLayout m' H e = Some v" if "ElemType (H a) = Some e" for e
      using IH [OF by_value_intros(3) [OF that]] by (metis not_None_eq)
    then show ?thesis unfolding nm using TkArray by (fastforce simp: Let_def split: option.split)
  next
    case TkRecord
    then show ?thesis unfolding nm using rec by (cases "RecordDecl (H a)") (fastforce simp: Let_def)+
  next
    case TkObject
    show ?thesis
    proof (cases "TyParent (H a)")
      case None
      then show ?thesis unfolding nm
        using TkObject own [of 0 "\<lparr>Off = 0, Algn = 1, Ok = True, Offsets = []\<rparr>"] by (auto simp: Let_def split: if_splits)
    next
      case (Some p)
      then have p: "p \<in> ?T" by auto
      obtain P offs where P: "byteLayout n' H p = Some (P, offs)" "byteLayout m' H p = Some (P, offs)"
        using IH [OF p] by (metis not_None_eq surj_pair)
      obtain A where A: "byteAlignOf n' H p = Some A" "byteAlignOf m' H p = Some A" using AL [OF p] by (metis not_None_eq)
      show ?thesis
      proof (cases P)
        case None
        then show ?thesis unfolding nm using TkObject Some P by (simp add: Let_def)
      next
        case (Some s)
        then show ?thesis unfolding nm using TkObject \<open>TyParent (H a) = Some p\<close> P A
            own [of "length (RecordFields (H p))" "\<lparr>Off = s, Algn = A, Ok = True, Offsets = offs\<rparr>"]
          by (auto simp: Let_def split: if_splits)
      qed
    qed
  qed (auto simp: nm Let_def)
qed

text \<open>C17. Where no type contains itself by value the recursion over types comes to an end: past the rank of a type the
  alignment, the size and the offsets are there and do not depend on the fuel.\<close>

theorem layout_terminates:
  assumes "ranked H r"
  shows "\<exists>A v. \<forall>n>r a. byteAlignOf n H a = Some A \<and> byteLayout n H a = Some v"
proof -
  obtain A v where "byteAlignOf (Suc (r a)) H a = Some A" "byteLayout (Suc (r a)) H a = Some v"
    using byteAlignOf_agree [OF assms, of a "Suc (r a)" "Suc (r a)"] byteLayout_agree [OF assms, of a "Suc (r a)" "Suc (r a)"] by auto
  then have "\<forall>n>r a. byteAlignOf n H a = Some A \<and> byteLayout n H a = Some v"
    using byteAlignOf_agree [OF assms, of a _ "Suc (r a)"] byteLayout_agree [OF assms, of a _ "Suc (r a)"] by simp
  then show ?thesis by blast
qed

lemma sample_ranked: "ranked sample_mem (\<lambda>a. if a = 5 then 1 else 0)"
  by (auto simp: ranked_def sample_mem_def factories by_value_def List.map_filter_simps sample_decl_def decl_types_def split: if_splits)

theorem layout_terminates_witness:
  "byteLayout 2 sample_mem 5 \<noteq> None \<and> byteLayout 7 sample_mem 5 = byteLayout 2 sample_mem 5"
proof -
  obtain A v where "\<forall>n>(if (5 :: nat) = 5 then 1 else 0). byteAlignOf n sample_mem 5 = Some A \<and> byteLayout n sample_mem 5 = Some v"
    using layout_terminates [OF sample_ranked, of 5] by auto
  then show ?thesis by (simp del: byteLayout.simps)
qed

subsection \<open>Arrays\<close>

text \<open>C21. The size of an array is exact: the number of the values of its index times the size of an element, and the
  largest 64-bit value where that product does not fit, whatever the bounds.\<close>

theorem array_size_exact:
  assumes "TyKind (H a) = TkArray" "IndexType (H a) = Some i" "ElemType (H a) = Some e"
    and "in64 (SubLo (H i))" "in64 (SubHi (H i))" "SubLo (H i) \<le> SubHi (H i)" "byteSizeOf n H e = Some (Some E)" "E \<noteq> 0"
  shows "\<exists>s. byteSizeOf (Suc n) H a = Some (Some s)
     \<and> uint s = min (2 ^ 64 - 1) ((SubHi (H i) - SubLo (H i) + 1) * uint E)"
proof -
  let ?N = "SubHi (H i) - SubLo (H i) + 1"
  have M: "uint UINT64_MAX = 2 ^ 64 - 1" by (simp add: UINT64_MAX_def unsigned_minus_1_eq_mask mask_eq_exp_minus_1)
  have E: "1 \<le> uint E" using assms(8) by (metis linorder_not_less uint_ge_0 unsigned_eq_0_iff zless_imp_add1_zle add_0 antisym)
  have N: "1 \<le> ?N" using assms(6) by simp
  obtain b where e: "byteLayout n H e = Some (Some E, b)" using assms(7) by (auto simp: byteSizeOf_def)
  show ?thesis
  proof (cases "ordinalRangeCount (SubLo (H i)) (SubHi (H i))")
    case None
    then have "?N = 2 ^ 64" using ordinalRangeCount_exact [OF assms(4,5)] by simp
    then have "2 ^ 64 \<le> ?N * uint E" using E by simp
    then show ?thesis using None assms M by (auto simp: byteSizeOf_def Let_def)
  next
    case (Some c)
    then have c: "uint c = ?N" using ordinalRangeCount_exact [OF assms(4,5)] N by simp
    then have c0: "c \<noteq> 0" using N by auto
    have sz: "byteSizeOf (Suc n) H a = Some (Some (case checkedMul64 c E of Some s \<Rightarrow> s | None \<Rightarrow> UINT64_MAX))"
      using Some c0 e assms by (simp add: byteSizeOf_def Let_def)
    show ?thesis
    proof (cases "checkedMul64 c E")
      case None
      then show ?thesis using checkedMul64_exact [of c E] sz c M by simp
    next
      case (Some s)
      then have "uint s = ?N * uint E" using checkedMul64_exact [of c E] c by simp
      moreover have "uint s \<le> 2 ^ 64 - 1" using uint_lt2p [of s] by simp
      ultimately show ?thesis using sz Some by (simp add: min_absorb2)
    qed
  qed
qed

definition array_mem :: Mem where
  "array_mem a = (if a = 1 then makeChar else if a = 2 then newType\<lparr>TyKind := TkSubrange, SubLo := - INT64_MAX, SubHi := INT64_MAX\<rparr>
     else if a = 3 then newType\<lparr>TyKind := TkArray, IndexType := Some 2, ElemType := Some 1\<rparr> else makeError)"

theorem array_size_exact_witness: "\<exists>s. byteSizeOf 2 array_mem 3 = Some (Some s) \<and> uint s = 2 ^ 64 - 1"
proof -
  have "byteSizeOf 1 array_mem 1 = Some (Some 1)" by code_simp
  from array_size_exact [of array_mem 3 2 1 1 1] this show ?thesis
    by (simp add: array_mem_def newType_def int64_simps in64_def numeral_2_eq_2)
qed

subsection \<open>Objects\<close>

definition own_fields :: "Mem \<Rightarrow> addr \<Rightarrow> placed_field list" where
  "own_fields H a = map (\<lambda>F. ([], FieldName F, FieldTy F))
     (drop (case TyParent (H a) of None \<Rightarrow> 0 | Some p \<Rightarrow> length (RecordFields (H p))) (RecordFields (H a)))"

lemma place_own_goes:
  "place_own (place sz al False) Fs L = Some L' \<Longrightarrow> Ok L' \<Longrightarrow> Ok L
   \<Longrightarrow> starts sz al (map (\<lambda>F. ([], FieldName F, FieldTy F)) Fs) (unat (Off L)) L
   \<Longrightarrow> goes sz al False (map (\<lambda>F. ([], FieldName F, FieldTy F)) Fs) L L'"
proof (induction Fs arbitrary: L)
  case Nil
  then show ?case by (simp add: goes_Nil)
next
  case (Cons F Fs)
  let ?f = "\<lambda>F. ([], FieldName F, FieldTy F)"
  obtain L1 where L1: "place sz al False (FieldTy F) (FieldName F) L = Some L1" "if Ok L1 then place_own (place sz al False) Fs L1 = Some L' else L1 = L'"
    using Cons.prems(1) by (auto split: Option.bind_splits if_splits)
  then have ok: "Ok L1" using Cons.prems(2) by (auto split: if_splits)
  have S: "starts sz al ([?f F] @ map ?f Fs) (unat (Off L)) L" using Cons.prems(4) by simp
  have g: "goes sz al False [?f F] L L1" by (rule place_goes' [OF L1(1) ok starts_split(1) [OF S]])
  have "goes sz al False (map ?f Fs) L1 L'"
    using L1(2) ok by (intro Cons.IH [OF _ Cons.prems(2) ok starts_split(2) [OF S g]]) simp
  from goes_append [OF g this] show ?case by simp
qed

text \<open>The fields an object adds, placed from \<open>pSize\<close> on: each behind the ancestor, aligned, and apart from the others.\<close>

definition own_placed :: "nat \<Rightarrow> Mem \<Rightarrow> addr \<Rightarrow> nat \<Rightarrow> nat \<Rightarrow> FieldOffsets \<Rightarrow> bool" where
  "own_placed n H a lo hi own \<longleftrightarrow> map fst own = map (fst \<circ> snd) (own_fields H a)
     \<and> lies lo hi (map2 (item_of (byteSizeOf n H) (byteAlignOf n H) False) (own_fields H a) own)"

lemma object_walk:
  assumes L: "place_own (place (byteSizeOf n H) (byteAlignOf n H) False)
        (drop (case TyParent (H a) of None \<Rightarrow> 0 | Some p \<Rightarrow> length (RecordFields (H p))) (RecordFields (H a)))
        \<lparr>Off = ps, Algn = A0, Ok = True, Offsets = po\<rparr> = Some L" "Ok L"
    and "widths_ok H" "unat A0 \<in> pow_align" "unat ps + room (byteSizeOf n H) (own_fields H a) + 48 < 2 ^ 64"
  shows "\<exists>own. Offsets L = po @ own \<and> own_placed n H a (unat ps) (unat (Off L)) own
     \<and> unat ps \<le> unat (Off L) \<and> unat (Off L) + 48 < 2 ^ 64 \<and> unat (Algn L) \<in> pow_align"
proof -
  have al: "aligned_types (byteAlignOf n H)" using byteAlignOf_pow [OF assms(3)] by (auto simp: aligned_types_def)
  have "goes (byteSizeOf n H) (byteAlignOf n H) False (own_fields H a) \<lparr>Off = ps, Algn = A0, Ok = True, Offsets = po\<rparr> L"
    unfolding own_fields_def using al assms(4,5)
    by (intro place_own_goes [OF L]) (simp_all add: starts_def own_fields_def)
  then show ?thesis using assms(5) by (auto simp: goes_def noted_def own_placed_def)
qed

text \<open>C19. Whatever a descendant adds, the storage of its ancestor is an untouched prefix of its own: the offsets of the
  inherited fields are those of the ancestor, the new fields lie behind it, aligned and apart, and where the type is the
  first of its line to have a virtual method the pointer to the table has eight aligned bytes behind the fields, within
  the size.\<close>

theorem object_extends_ancestor:
  assumes "byteLayout (Suc n) H a = Some (Some s, offs)" "TyKind (H a) = TkObject" "TyParent (H a) = Some p"
    and "byteLayout n H p = Some (Some ps, po)" "widths_ok H"
    and "unat ps + room (byteSizeOf n H) (own_fields H a) + 48 < 2 ^ 64"
  shows "\<exists>own hi. offs = po @ own \<and> own_placed n H a (unat ps) hi own \<and> hi \<le> unat s \<and> unat ps \<le> unat s
     \<and> (introducesVptr H (H a) \<longrightarrow> (\<exists>v. 8 dvd v \<and> hi \<le> v \<and> v + 8 \<le> unat s))"
proof -
  have e: "byteSizeOf n H = (\<lambda>t. map_option fst (byteLayout n H t))" by (simp add: byteSizeOf_def fun_eq_iff)
  let ?k = "case TyParent (H a) of None \<Rightarrow> 0 | Some p \<Rightarrow> length (RecordFields (H p))"
  obtain A0 L where A0: "byteAlignOf n H p = Some A0"
    and L: "place_own (place (byteSizeOf n H) (byteAlignOf n H) False) (drop ?k (RecordFields (H a)))
              \<lparr>Off = ps, Algn = A0, Ok = True, Offsets = po\<rparr> = Some L" "Ok L" "offs = Offsets L"
    and s: "s = (if introducesVptr H (H a) then roundUp (roundUp (Off L) 8 + 8) (max (Algn L) 8) else roundUp (Off L) (Algn L))"
    using assms(1-4) unfolding e by (auto simp: Let_def split: Option.bind_splits if_splits)
  obtain own where own: "Offsets L = po @ own" "own_placed n H a (unat ps) (unat (Off L)) own"
      "unat ps \<le> unat (Off L)" "unat (Off L) + 48 < 2 ^ 64" "unat (Algn L) \<in> pow_align"
    using object_walk [OF L(1,2) assms(5) byteAlignOf_pow [OF assms(5) A0] assms(6)] by blast
  have p8: "unat (8 :: 64 word) \<in> pow_align" "unat (max (Algn L) 8) \<in> pow_align"
    using pow_align_max [OF own(5), of 8] by (simp_all add: unat_max pow_align_def)
  have fit: "unat (Off L) + 16 \<le> 2 ^ 64" using own(4) by simp
  note r8 = roundUp_bounds [OF p8(1) fit] and r = roundUp_bounds [OF own(5) fit]
  have o2: "unat (roundUp (Off L) 8 + 8) = unat (roundUp (Off L) 8) + 8" using r8(2) own(4) by (simp add: unat_plus)
  have "unat (roundUp (Off L) 8 + 8) + 16 \<le> 2 ^ 64" using o2 r8(2) own(4) by simp
  note rv = roundUp_bounds [OF p8(2) this]
  show ?thesis
  proof (cases "introducesVptr H (H a)")
    case True
    then have "unat (roundUp (Off L) 8) + 8 \<le> unat s" using s rv(1) o2 by simp
    then show ?thesis using own(1,2,3) L(3) r8 by (intro exI [of _ own] exI [of _ "unat (Off L)"]) auto
  next
    case False
    then show ?thesis using own(1,2,3) L(3) r(1) s by (intro exI [of _ own] exI [of _ "unat (Off L)"]) auto
  qed
qed

text \<open>An object with two fields, and a descendant that adds one and a virtual method.\<close>

definition object_mem :: Mem where
  "object_mem a = (if a = 1 then makeInteger else if a = 2 then makeChar
     else if a = 3 then newType\<lparr>TyKind := TkObject, RecordFields := [
         \<lparr>FieldName = ''x'', FieldTy = Some 1, IsTagField = False, IsPrivateField = False\<rparr>,
         \<lparr>FieldName = ''c'', FieldTy = Some 2, IsTagField = False, IsPrivateField = False\<rparr>]\<rparr>
     else if a = 4 then newType\<lparr>TyKind := TkObject, TyParent := Some 3, VmtSlots := [\<lparr>MethodName = ''M'', ImplementingType = ''T''\<rparr>],
       RecordFields := [
         \<lparr>FieldName = ''x'', FieldTy = Some 1, IsTagField = False, IsPrivateField = False\<rparr>,
         \<lparr>FieldName = ''c'', FieldTy = Some 2, IsTagField = False, IsPrivateField = False\<rparr>,
         \<lparr>FieldName = ''d'', FieldTy = Some 2, IsTagField = False, IsPrivateField = False\<rparr>]\<rparr>
     else makeError)"

lemma object_sample:
  "byteLayout 2 object_mem 3 = Some (Some 16, [(''x'', 0), (''c'', 8)])"
  "byteLayout 3 object_mem 4 = Some (Some 32, [(''x'', 0), (''c'', 8), (''d'', 16)])"
  "byteSizeOf 2 object_mem 2 = Some (Some 1)"
  by code_simp+

theorem object_extends_ancestor_witness:
  "\<exists>own hi. [(''x'', 0), (''c'', 8), (''d'', 16)] = [(''x'', 0), (''c'', 8)] @ own
     \<and> own_placed 2 object_mem 4 16 hi own \<and> (\<exists>v. 8 dvd v \<and> hi \<le> v \<and> v + 8 \<le> (32 :: nat))"
proof -
  have O: "byteLayout (Suc 2) object_mem 4 = Some (Some 32, [(''x'', 0), (''c'', 8), (''d'', 16)])"
    using object_sample(2) by (simp add: eval_nat_numeral)
  have k: "TyKind (object_mem 4) = TkObject" "TyParent (object_mem 4) = Some 3" by (simp_all add: object_mem_def newType_def)
  have w: "widths_ok object_mem" by (simp add: widths_ok_def object_mem_def factories)
  have f: "own_fields object_mem 4 = [([], ''d'', Some 2)]" by (simp add: own_fields_def object_mem_def factories)
  have v: "introducesVptr object_mem (object_mem 4)" by (simp add: introducesVptr_def object_mem_def newType_def)
  have "unat (16 :: 64 word) + room (byteSizeOf 2 object_mem) (own_fields object_mem 4) + 48 < 2 ^ 64"
    by (simp add: f fsize_def object_sample(3))
  from object_extends_ancestor [OF O k object_sample(1) w this] v
  show ?thesis by auto
qed

subsection \<open>The limit on a variable\<close>

text \<open>The test \<^verbatim>\<open>checkBlock\<close> makes of every variable, and likewise the headings of every value parameter and result.\<close>

definition VarByteLimit :: "64 word" where "VarByteLimit = push_bit 30 1"

definition var_too_large :: "64 word option \<Rightarrow> bool" where
  "var_too_large Sz = (case Sz of Some S \<Rightarrow> S > VarByteLimit | None \<Rightarrow> False)"

definition refuses :: "nat \<Rightarrow> Mem \<Rightarrow> addr \<Rightarrow> bool" where
  "refuses n H a = (\<exists>Sz. byteSizeOf n H a = Some Sz \<and> var_too_large Sz)"

lemma packed_pair_size:
  assumes "TyKind (H a) = TkRecord" "RecordDecl (H a) = Some RD" "NodePacked RD" "NodeVariant RD = None"
    and "NodeFields RD = [([n1], Some t1), ([n2], Some t2)]"
    and "byteSizeOf n H t1 = Some (Some S1)" "byteSizeOf n H t2 = Some (Some S2)"
  shows "byteSizeOf (Suc n) H a = Some (Some (S1 + S2))"
proof -
  obtain b1 b2 where b: "byteLayout n H t1 = Some (Some S1, b1)" "byteLayout n H t2 = Some (Some S2, b2)"
    using assms(6,7) by (auto simp: byteSizeOf_def)
  show ?thesis using assms(1-5)
    by (simp add: byteSizeOf_def Let_def layout_record_def layout_variant_def place_def b first_walk_def roundUp_def)
qed

text \<open>C35. The sum of the sizes of the fields is not checked, and wraps: a packed record of an array that is refused as a
  variable, its size being the largest there is, and of one more byte counts as a record of no bytes and is admitted.\<close>

theorem record_size_wraps:
  assumes "TyKind (H a) = TkRecord" "RecordDecl (H a) = Some RD" "NodePacked RD" "NodeVariant RD = None"
    and "NodeFields RD = [([n1], Some t1), ([n2], Some t2)]"
    and "byteSizeOf n H t1 = Some (Some UINT64_MAX)" "byteSizeOf n H t2 = Some (Some 1)"
  shows "refuses n H t1 \<and> \<not> refuses (Suc n) H a \<and> byteSizeOf (Suc n) H a = Some (Some 0)"
  using packed_pair_size [OF assms] assms(6)
  by (simp add: refuses_def var_too_large_def VarByteLimit_def UINT64_MAX_def word_less_nat_alt word_le_nat_alt push_bit_eq_mult
      unsigned_minus_1_eq_mask mask_eq_exp_minus_1)

definition wrap_mem :: Mem where
  "wrap_mem = array_mem (4 := newType\<lparr>TyKind := TkRecord, TyPacked := True, RecordDecl := Some
     \<lparr>NodeId = 1, NodeFields = [([''a''], Some 3), ([''b''], Some 1)], NodeVariant = None, NodePacked = True\<rparr>\<rparr>)"

theorem record_size_wraps_witness: "\<not> refuses 3 wrap_mem 4 \<and> refuses 2 wrap_mem 3"
proof -
  have "byteSizeOf 2 wrap_mem 3 = Some (Some UINT64_MAX)" "byteSizeOf 2 wrap_mem 1 = Some (Some 1)" by code_simp+
  from record_size_wraps [of wrap_mem 4 _ _ 3 _ 1 2, OF _ _ _ _ _ this] show ?thesis
    by (simp add: wrap_mem_def newType_def eval_nat_numeral)
qed

end
