(* ===== verification/Compat_Props.thy ===== *)
theory Compat_Props
  imports Compat Layout_Total
begin

text \<open>
  What the relations between types promise, and where assignment compatibility does not keep the sizes of two
  types equal.
\<close>

subsection \<open>Answers\<close>

text \<open>From \<open>k\<close> units of fuel on there is an answer, always the same.\<close>

definition answers :: "(nat \<Rightarrow> 'a option) \<Rightarrow> nat \<Rightarrow> bool" where
  "answers f k \<longleftrightarrow> (\<exists>v. \<forall>n\<ge>k. f n = Some v)"

lemma answersI: "(\<And>n. n \<ge> k \<Longrightarrow> f n = Some v) \<Longrightarrow> answers f k"
  by (auto simp: answers_def)

lemma answers_const [simp]: "answers (\<lambda>n. Some v) k"
  by (auto simp: answers_def)

lemma answers_mono: "answers f k \<Longrightarrow> k \<le> k' \<Longrightarrow> answers f k'"
  unfolding answers_def by (meson order_trans)

lemma answers_Suc:
  assumes "answers (\<lambda>n. f (Suc n)) k"
  shows "answers f (Suc k)"
proof -
  obtain v where "\<forall>n\<ge>k. f (Suc n) = Some v" using assms by (auto simp: answers_def)
  then have "f n = Some v" if "n \<ge> Suc k" for n using that by (cases n) auto
  then show ?thesis by (rule answersI)
qed

lemma answers_if: "(b \<Longrightarrow> answers f k) \<Longrightarrow> (\<not> b \<Longrightarrow> answers g k) \<Longrightarrow> answers (\<lambda>n. if b then f n else g n) k"
  by (cases b) auto

lemma answers_bind:
  assumes "answers f k" "\<And>x. answers (\<lambda>n. g x n) k"
  shows "answers (\<lambda>n. f n \<bind> (\<lambda>x. g x n)) k"
proof -
  obtain x where x: "\<forall>n\<ge>k. f n = Some x" using assms(1) by (auto simp: answers_def)
  obtain v where "\<forall>n\<ge>k. g x n = Some v" using assms(2) by (auto simp: answers_def)
  then show ?thesis using x by (intro answersI [of k _ v]) simp
qed

lemma answers_all_m: "(\<And>x. x \<in> set xs \<Longrightarrow> answers (\<lambda>n. f n x) k) \<Longrightarrow> answers (\<lambda>n. all_m (f n) xs) k"
  by (induction xs) (auto intro!: answers_bind answers_if)

lemma answers_any_m: "(\<And>x. x \<in> set xs \<Longrightarrow> answers (\<lambda>n. f n x) k) \<Longrightarrow> answers (\<lambda>n. any_m (f n) xs) k"
  by (induction xs) (auto intro!: answers_bind answers_if)

lemma answers_both:
  assumes "answers f k" "\<And>x y. a = Some x \<Longrightarrow> b = Some y \<Longrightarrow> answers (\<lambda>n. g n (x, y)) k"
  shows "answers (\<lambda>n. case both a b of None \<Rightarrow> f n | Some p \<Rightarrow> g n p) k"
  using assms by (auto simp: both_def split: option.splits)

lemma answers_option:
  "answers f k \<Longrightarrow> (\<And>x. a = Some x \<Longrightarrow> answers (\<lambda>n. g n x) k) \<Longrightarrow> answers (\<lambda>n. case a of None \<Rightarrow> f n | Some x \<Rightarrow> g n x) k"
  by (cases a) auto

lemmas answers_intros = answers_const answers_if answers_bind answers_all_m answers_any_m answers_both answers_option

subsection \<open>The relations are decided\<close>

lemma typeContainsFile_answers:
  assumes "ranked H r"
  shows "answers (\<lambda>n. typeContainsFile n H t) (Suc (r t))"
proof (induction "r t" arbitrary: t rule: less_induct)
  case less
  have IH: "answers (\<lambda>n. typeContainsFile n H x) (r t)" if "x \<in> set (by_value (H t))" for x
    using less [OF rankedD [OF assms that]] rankedD [OF assms that] by (auto intro: answers_mono)
  show ?case
    by (rule answers_Suc, cases "TyKind (H t)") (auto intro!: answers_any_m answers_option IH)
qed

lemma descends_answers:
  assumes "ranked H r"
  shows "answers (\<lambda>n. objectIsOrDescendsFrom n H t u) (Suc (r t))"
proof (induction "r t" arbitrary: t rule: less_induct)
  case less
  have IH: "answers (\<lambda>n. objectIsOrDescendsFrom n H x u) (r t)" if "TyParent (H t) = Some x" for x
  proof -
    have "x \<in> set (by_value (H t))" using that by auto
    from less [OF rankedD [OF assms this]] rankedD [OF assms this] show ?thesis by (auto intro: answers_mono)
  qed
  show ?case by (rule answers_Suc) (auto intro!: answers_if answers_option IH)
qed

lemma congruousConformant_answers:
  assumes "ranked H r"
  shows "answers (\<lambda>n. congruousConformant n H a b) (Suc (r a))"
proof (induction "r a" arbitrary: a b rule: less_induct)
  case less
  have IH: "answers (\<lambda>n. conformantStructuralWalk n (\<lambda>_ _. None) H True x y) (r a)" if "ElemType (H a) = Some x" for x y
  proof -
    have x: "r x < r a" using that by (intro rankedD [OF assms]) auto
    from less [OF x] have "answers (\<lambda>n. congruousConformant n H x y) (Suc (r x))" .
    with x show ?thesis by (auto simp: congruousConformant_def elim!: answers_mono)
  qed
  show ?case unfolding congruousConformant_def
    by (rule answers_Suc) (auto simp: Let_def intro!: answers_if answers_both IH)
qed

lemma congruousSignature_answers:
  assumes "ranked H r"
  shows "(\<And>t. t \<in> set (by_value A) \<Longrightarrow> r t < k) \<Longrightarrow> answers (\<lambda>n. congruousSignature n H A B) (Suc k)"
proof (induction k arbitrary: A B rule: less_induct)
  case (less k)
  have sign: "answers (\<lambda>n. congruousSignature n H (H x) (H y)) k"
    and conf: "answers (\<lambda>n. congruousConformant n H x y) k"
    if "P \<in> set (TyParams A)" "ParamTy P = Some x" for P x y
  proof -
    have x: "r x < k" using that by (intro less.prems) auto
    have "answers (\<lambda>n. congruousSignature n H (H x) (H y)) (Suc (r x))"
      by (rule less.IH [OF x]) (rule rankedD [OF assms])
    then show "answers (\<lambda>n. congruousSignature n H (H x) (H y)) k" using x by (auto intro: answers_mono)
    show "answers (\<lambda>n. congruousConformant n H x y) k"
      using congruousConformant_answers [OF assms, of x y] x by (auto intro: answers_mono)
  qed
  have par: "answers (\<lambda>n. congruous_params (same_param_type (congruousSignature n H) (congruousConformant n H) H) PQ) k"
    if "PQ \<in> set (zip (TyParams A) (TyParams B))" for PQ
  proof -
    obtain P Q where PQ: "PQ = (P, Q)" by (cases PQ)
    then have P: "P \<in> set (TyParams A)" using that by (auto dest: set_zip_leftD)
    show ?thesis unfolding PQ congruous_params_def same_param_type_def prod.case
      by (auto intro!: answers_if answers_both sign [OF P] conf [OF P])
  qed
  show ?case by (rule answers_Suc) (auto intro!: answers_if answers_bind answers_all_m par)
qed

text \<open>C16. Assignment compatibility is decided for any two types: where no type contains itself by value and the ranks
  are bounded, the recursion through components, schema bodies, parameter lists and ancestors ends, and the answer does
  not depend on the fuel.  A cycle through pointers does not matter, because a pointer is compared by the identity of
  its domain.\<close>

theorem compatibility_decided:
  assumes "ranked H r" "\<forall>a. r a \<le> M"
  shows "\<exists>b. \<forall>n\<ge>r d + r s + M + 2. isAssignCompatible n opts H ExactBounds Depth d s = Some b"
proof -
  have "answers (\<lambda>n. isAssignCompatible n opts H ExactBounds Depth d s) (Suc (r d + r s + Suc M))"
  proof (induction "r d + r s" arbitrary: d s ExactBounds Depth rule: less_induct)
    case less
    define k where "k = r d + r s + Suc M"
    have rec: "answers (\<lambda>n. isAssignCompatible n opts H E D x y) k" if "r x + r y < r d + r s" for E D x y
      using less [OF that, of E D] that by (auto simp: k_def elim!: answers_mono)
    have rd: "r x < r d" if "x \<in> set (by_value (H d))" for x by (rule rankedD [OF assms(1) that])
    have rs: "r x < r s" if "x \<in> set (by_value (H s))" for x by (rule rankedD [OF assms(1) that])
    have rec2: "answers (\<lambda>n. isAssignCompatible n opts H E D x y) k"
      if "x \<in> set (by_value (H d))" "y \<in> set (by_value (H s))" for E D x y
      using rd [OF that(1)] rs [OF that(2)] by (intro rec) simp
    have recd: "answers (\<lambda>n. isAssignCompatible n opts H E D x s) k" if "x \<in> set (by_value (H d))" for E D x
      using rd [OF that] by (intro rec) simp
    have recs: "answers (\<lambda>n. isAssignCompatible n opts H E D d y) k" if "y \<in> set (by_value (H s))" for E D y
      using rs [OF that] by (intro rec) simp
    have desc: "answers (\<lambda>n. objectIsOrDescendsFrom n H x y) k" for x y
      using descends_answers [OF assms(1), of x y] assms(2) [rule_format, of x] by (auto simp: k_def elim!: answers_mono)
    have sign: "answers (\<lambda>n. congruousSignature n H (H d) (H s)) k"
      using congruousSignature_answers [OF assms(1), of "H d" "r d" "H s"] rd by (auto simp: k_def elim!: answers_mono)
    have same: "answers (\<lambda>n. compat_same_kind n (isAssignCompatible n opts H) opts H ExactBounds Depth d s) k"
    proof (cases "TyKind (H d)")
      case TkArray
      then show ?thesis by (auto simp: Let_def compat_same_kind_def compat_array_def intro!: answers_both answers_if answers_bind rec2)
    next
      case TkRecord
      have "answers (\<lambda>n. case FG of (F, G) \<Rightarrow> case both (FieldTy F) (FieldTy G) of None \<Rightarrow> Some False
            | Some (x, y) \<Rightarrow> isAssignCompatible n opts H True (Suc Depth) x y) k"
        if "FG \<in> set (zip (RecordFields (H d)) (RecordFields (H s)))" for FG
      proof (cases FG)
        case (Pair F G)
        then show ?thesis using that by (auto intro!: answers_both rec2 dest: set_zip_leftD set_zip_rightD)
      qed
      then have "answers (\<lambda>n. all_m (\<lambda>FG. case FG of (F, G) \<Rightarrow> case both (FieldTy F) (FieldTy G) of None \<Rightarrow> Some False
            | Some (x, y) \<Rightarrow> isAssignCompatible n opts H True (Suc Depth) x y) (zip (RecordFields (H d)) (RecordFields (H s)))) k"
        by (rule answers_all_m)
      then show ?thesis using TkRecord
        by (auto simp: Let_def compat_same_kind_def compat_record_def intro!: answers_if split: option.split)
    next
      case TkPointer
      then show ?thesis by (auto simp: Let_def compat_same_kind_def compat_pointer_def intro!: answers_both answers_if answers_bind desc)
    qed (auto simp: Let_def compat_same_kind_def intro!: answers_both answers_if rec2 desc sign)
    have mixed: "answers (\<lambda>n. compat_mixed (isAssignCompatible n opts H) opts H ExactBounds d s) k"
      unfolding compat_mixed_def Let_def by (auto intro!: answers_if answers_option recd recs split: if_splits)
    show ?case unfolding k_def [symmetric]
      by (rule answers_Suc)
         (auto simp: Let_def schema_body_def intro!: answers_if answers_option answers_both rec2 recd recs same mixed split: if_splits)
  qed
  then show ?thesis by (simp add: answers_def)
qed

theorem compatibility_decided_witness: "\<forall>opts. isAssignCompatible 5 opts sample_mem False 0 5 1 \<noteq> None"
proof
  fix opts
  have bound: "\<forall>a. (if a = (5 :: nat) then 1 else 0) \<le> (1 :: nat)" by simp
  obtain b where "\<forall>n\<ge>(if (5 :: nat) = 5 then 1 else 0) + (if (1 :: nat) = 5 then 1 else 0) + 1 + 2.
      isAssignCompatible n opts sample_mem False 0 5 1 = Some b"
    using compatibility_decided [OF sample_ranked bound, of 5 1 opts False 0] by auto
  then show "isAssignCompatible 5 opts sample_mem False 0 5 1 \<noteq> None" by (simp del: isAssignCompatible.simps)
qed

subsection \<open>Files\<close>

text \<open>A type holds a file when one of the types its values are made of is a file.\<close>

inductive holds_file :: "Mem \<Rightarrow> addr \<Rightarrow> bool" for H where
  is_file: "TyKind (H t) = TkFile \<Longrightarrow> holds_file H t"
| in_field: "TyKind (H t) \<in> {TkRecord, TkObject} \<Longrightarrow> F \<in> set (RecordFields (H t)) \<Longrightarrow> FieldTy F = Some x \<Longrightarrow> holds_file H x \<Longrightarrow> holds_file H t"
| in_element: "TyKind (H t) \<in> {TkArray, TkSet, TkConformantArray} \<Longrightarrow> ElemType (H t) = Some x \<Longrightarrow> holds_file H x \<Longrightarrow> holds_file H t"
| in_body: "TyKind (H t) \<in> {TkSchemaInstance, TkSchema} \<Longrightarrow> SchemaBody (H t) = Some x \<Longrightarrow> holds_file H x \<Longrightarrow> holds_file H t"

inductive_cases holds_fileE: "holds_file H t"

lemma any_m_exact: "(\<And>x. x \<in> set xs \<Longrightarrow> f x = Some (P x)) \<Longrightarrow> any_m f xs = Some (\<exists>x\<in>set xs. P x)"
  by (induction xs) auto

text \<open>C20. \<^verbatim>\<open>typeContainsFile\<close> is exact: it says yes of a type if and only if a file lies somewhere among the fields,
  elements and schema bodies its values are made of, at whatever depth.\<close>

theorem typeContainsFile_exact:
  assumes "ranked H r" "n > r t"
  shows "typeContainsFile n H t = Some (holds_file H t)"
  using assms(2)
proof (induction "r t" arbitrary: t n rule: less_induct)
  case less
  obtain m where n: "n = Suc m" using less.prems by (cases n) auto
  have IH: "typeContainsFile m H x = Some (holds_file H x)" if "x \<in> set (by_value (H t))" for x
    using less.hyps [OF rankedD [OF assms(1) that]] rankedD [OF assms(1) that] less.prems n by simp
  let ?f = "\<lambda>F. case FieldTy F of None \<Rightarrow> Some False | Some x \<Rightarrow> typeContainsFile m H x"
  have "any_m ?f (RecordFields (H t)) = Some (\<exists>F\<in>set (RecordFields (H t)). \<exists>x. FieldTy F = Some x \<and> holds_file H x)"
    by (rule any_m_exact) (auto split: option.split intro!: IH)
  moreover have "typeContainsFile m H x = Some (holds_file H x)" if "ElemType (H t) = Some x \<or> SchemaBody (H t) = Some x" for x
    using that by (auto intro!: IH)
  ultimately have "typeContainsFile n H t = Some (
      TyKind (H t) = TkFile
      \<or> TyKind (H t) \<in> {TkRecord, TkObject} \<and> (\<exists>F\<in>set (RecordFields (H t)). \<exists>x. FieldTy F = Some x \<and> holds_file H x)
      \<or> TyKind (H t) \<in> {TkArray, TkSet, TkConformantArray} \<and> (\<exists>x. ElemType (H t) = Some x \<and> holds_file H x)
      \<or> TyKind (H t) \<in> {TkSchemaInstance, TkSchema} \<and> (\<exists>x. SchemaBody (H t) = Some x \<and> holds_file H x))"
    unfolding n by (cases "TyKind (H t)") (simp_all split: option.split)
  then show ?case by (simp only: holds_file.simps [of H t] option.inject) blast
qed

theorem typeContainsFile_exact_witness: "typeContainsFile 2 sample_mem 5 = Some (holds_file sample_mem 5)"
  by (rule typeContainsFile_exact [OF sample_ranked]) simp

subsection \<open>Congruity\<close>

lemma both_swap: "both b a = map_option prod.swap (both a b)"
  by (auto simp: both_def split: option.splits)

lemma identical_sym: "identical H a b = identical H b a"
  by (auto simp: identical_def both_def split: option.splits)

lemma differ_sym: "differ a b = differ b a"
  by (auto simp: differ_def)

lemma schemaInstMatch_sym: "schemaInstMatch A B = schemaInstMatch B A"
  by (auto simp: schemaInstMatch_def differ_sym eqCI_toLower)

lemma congruousConformant_sym: "congruousConformant n H a b = congruousConformant n H b a"
proof (induction n arbitrary: a b)
  case (Suc n)
  have "list_all2 (\<lambda>x y. isIdenticalType H (OrdType x) (OrdType y)) (ConformantBounds (H a)) (ConformantBounds (H b))
      = list_all2 (\<lambda>x y. isIdenticalType H (OrdType x) (OrdType y)) (ConformantBounds (H b)) (ConformantBounds (H a))"
    by (auto simp: list_all2_conv_all_nth isIdenticalType_def identical_sym)
  then show ?case using Suc [unfolded congruousConformant_def]
    by (auto simp: congruousConformant_def Let_def both_def isIdenticalType_def identical_sym split: option.splits)
qed (simp add: congruousConformant_def)

text \<open>Congruity of two headings does not depend on which is which: a routine fits a procedural parameter or variable
  exactly when it would fit the other way round, through nested procedural parameters, conformant arrays and schemas.\<close>

theorem congruity_symmetric: "congruousSignature n H A B = congruousSignature n H B A"
proof (induction n arbitrary: A B)
  case (Suc n)
  let ?c = "congruous_params (same_param_type (congruousSignature n H) (congruousConformant n H) H)"
  have p: "?c (P, Q) = ?c (Q, P)" for P Q
    using Suc by (auto simp: congruous_params_def same_param_type_def both_def isCallable_def isIdenticalType_def
        identical_sym schemaInstMatch_sym congruousConformant_sym split: option.splits)
  have z: "all_m ?c (zip Ps Qs) = all_m ?c (zip Qs Ps)" for Ps Qs
  proof (induction Ps arbitrary: Qs)
    case IH: (Cons P Ps)
    show ?case
    proof (cases Qs)
      case (Cons Q Qs')
      then show ?thesis by (simp only: zip_Cons_Cons all_m.simps p [of P] IH [of Qs'])
    qed simp
  qed simp
  have r: "isIdenticalType H (RetType A) (RetType B) = isIdenticalType H (RetType B) (RetType A)"
    unfolding isIdenticalType_def by (rule identical_sym)
  show ?case unfolding congruousSignature.simps z [of "TyParams A"] r
    by (cases "RetType A"; cases "RetType B") (simp_all add: eq_commute [of "TyKind A"] eq_commute [of "length (TyParams A)"] split: Option.bind_split)
qed simp

subsection \<open>What an assignment may copy\<close>

text \<open>Where both types are of a structured kind the rules for schemas and strings are out of the way.\<close>

lemma isVarStringLike_plain:
  "TyKind (H t) \<noteq> TkSchema \<Longrightarrow> TyKind (H t) \<noteq> TkSchemaInstance \<Longrightarrow> isVarStringLike H t \<longleftrightarrow> TyKind (H t) = TkVarString"
  by (simp add: isVarStringLike_def schemaUnderlying_def eval_nat_numeral)

lemma compatible_structured:
  assumes "TyKind (H d) = K" "TyKind (H s) = K" "K \<in> {TkArray, TkRecord, TkObject}" "d \<noteq> s"
  shows "isAssignCompatible (Suc n) opts H E D d s =
     (if isRestricted (H d) \<or> isRestricted (H s) then Some False
      else compat_same_kind n (isAssignCompatible n opts H) opts H E D d s)"
  using assms by (auto simp: Let_def isError_def schema_body_def isVarStringLike_plain)

text \<open>C8. Two record types whose declarations are known, one of them named at least, may be assigned to each other only if
  both come from the same declaration: equal names and equal shapes are not enough.  So they are laid out alike, the
  size and the offset of every field, as long as a node identity stands for one declaration.\<close>

theorem declared_records_same_layout:
  assumes "isAssignCompatible (Suc n) opts H E D d s = Some True" "TyKind (H d) = TkRecord" "TyKind (H s) = TkRecord"
    and "\<not> Anonymous (H d) \<or> \<not> Anonymous (H s)" "RecordDecl (H d) = Some x" "RecordDecl (H s) = Some y"
    and "NodeId x = NodeId y \<longrightarrow> x = y"
  shows "NodeId x = NodeId y \<and> byteLayout m H d = byteLayout m H s"
proof (cases "d = s")
  case True
  then show ?thesis using assms(5,6) by simp
next
  case False
  have id: "NodeId x = NodeId y"
    using assms(1,4) compatible_structured [OF assms(2,3) _ False, of n opts E D] assms(5,6)
    by (auto simp: assms(2) compat_same_kind_def compat_record_def isAnonymousNominal_def Let_def split: if_splits)
  then have "RecordDecl (H d) = RecordDecl (H s)" using assms(5,6,7) by simp
  then show ?thesis using assms(2,3) id by (cases m) (simp_all add: Let_def)
qed

definition decl_mem :: Mem where
  "decl_mem = sample_mem (6 := newType\<lparr>TyKind := TkRecord, TyName := ''t'', RecordDecl := Some sample_decl\<rparr>,
                          7 := newType\<lparr>TyKind := TkRecord, TyName := ''t'', RecordDecl := Some sample_decl\<rparr>)"

theorem declared_records_same_layout_witness:
  "byteLayout 2 decl_mem 6 = byteLayout 2 decl_mem 7"
proof -
  have m: "decl_mem 6 = newType\<lparr>TyKind := TkRecord, TyName := ''t'', RecordDecl := Some sample_decl\<rparr>"
      "decl_mem 7 = newType\<lparr>TyKind := TkRecord, TyName := ''t'', RecordDecl := Some sample_decl\<rparr>"
    by (simp_all add: decl_mem_def)
  have k: "TyKind (decl_mem 6) = TkRecord" "TyKind (decl_mem 7) = TkRecord" by (simp_all add: m)
  have "isAssignCompatible (Suc 0) opts decl_mem False 0 6 7 = Some True" for opts
    by (subst compatible_structured [OF k])
       (simp_all add: m newType_def isRestricted_def compat_same_kind_def compat_record_def declared_name_differs_def
        isAnonymousNominal_def Let_def)
  from declared_records_same_layout [OF this k, where x = sample_decl and y = sample_decl] show ?thesis
    by (simp add: m newType_def del: byteLayout.simps)
qed

text \<open>The storage of the ancestors of an object fits its own.\<close>

definition objects_fit :: "Mem \<Rightarrow> (addr \<Rightarrow> nat) \<Rightarrow> bool" where
  "objects_fit H r \<longleftrightarrow> (\<forall>t p. TyKind (H t) = TkObject \<longrightarrow> TyParent (H t) = Some p \<longrightarrow> TyKind (H p) = TkObject
     \<and> (\<forall>ps po. byteLayout (r t) H p = Some (Some ps, po) \<longrightarrow> unat ps + room (byteSizeOf (r t) H) (own_fields H t) + 48 < 2 ^ 64))"

lemma descends_prefix:
  assumes "ranked H r" "widths_ok H" "objects_fit H r" "byteLayout (Suc (r d)) H d = Some (Some sd, od)"
  shows "objectIsOrDescendsFrom n H s d = Some True \<Longrightarrow> TyKind (H s) = TkObject \<Longrightarrow> byteLayout (Suc (r s)) H s = Some (Some ss, os)
    \<Longrightarrow> prefix od os \<and> unat sd \<le> unat ss"
proof (induction n arbitrary: s ss os)
  case (Suc n)
  show ?case
  proof (cases "s = d")
    case True
    then show ?thesis using Suc.prems(3) assms(4) by simp
  next
    case False
    then obtain p where p: "TyParent (H s) = Some p" "objectIsOrDescendsFrom n H p d = Some True"
      using Suc.prems(1) by (auto split: option.splits)
    have rp: "r p < r s" using p(1) by (intro rankedD [OF assms(1)]) auto
    obtain ps po where pl: "byteLayout (r s) H p = Some (Some ps, po)"
      using Suc.prems(2,3) p(1) by (auto simp: Let_def split: option.splits Option.bind_splits)
    then have pl': "byteLayout (Suc (r p)) H p = Some (Some ps, po)"
      using byteLayout_agree [OF assms(1), of p "Suc (r p)" "r s"] rp by simp
    have fit: "TyKind (H p) = TkObject" "unat ps + room (byteSizeOf (r s) H) (own_fields H s) + 48 < 2 ^ 64"
      using assms(3) Suc.prems(2) p(1) pl unfolding objects_fit_def by blast+
    have "prefix od po \<and> unat sd \<le> unat ps" by (rule Suc.IH [OF p(2) fit(1) pl'])
    moreover have "prefix po os \<and> unat ps \<le> unat ss"
      using object_extends_ancestor [OF Suc.prems(3,2) p(1) pl assms(2) fit(2)] by auto
    ultimately show ?thesis by (meson order_trans prefix_order.trans)
  qed
qed simp

text \<open>C7. An object may be assigned to a variable of an ancestor's type, and the value is cut off soundly: every field of
  the ancestor stands at the same offset in the descendant, and the ancestor is no larger.\<close>

theorem object_assignment_slices:
  assumes "isAssignCompatible (Suc n) opts H E D d s = Some True" "TyKind (H d) = TkObject" "TyKind (H s) = TkObject"
    and "ranked H r" "widths_ok H" "objects_fit H r"
    and "byteLayout (Suc (r d)) H d = Some (Some sd, od)" "byteLayout (Suc (r s)) H s = Some (Some ss, os)"
  shows "prefix od os \<and> unat sd \<le> unat ss"
proof (cases "d = s")
  case True
  then show ?thesis using assms(7,8) by simp
next
  case False
  then have "objectIsOrDescendsFrom n H s d = Some True"
    using assms(1) compatible_structured [OF assms(2,3), of n opts E D]
    by (auto simp: assms(2) compat_same_kind_def Let_def split: if_splits)
  then show ?thesis using descends_prefix [OF assms(4-7) _ assms(3,8)] by blast
qed

lemma object_ranked: "ranked object_mem (\<lambda>a. if a = 4 then 2 else if a = 3 then 1 else 0)"
  by (auto simp: ranked_def object_mem_def factories by_value_def List.map_filter_simps split: if_splits)

lemma object_widths: "widths_ok object_mem"
  by (simp add: widths_ok_def object_mem_def factories)

lemma object_fits: "objects_fit object_mem (\<lambda>a. if a = 4 then 2 else if a = 3 then 1 else 0)"
proof -
  have f: "own_fields object_mem 4 = [([], ''d'', Some 2)]" by (simp add: own_fields_def object_mem_def factories)
  have p: "p = 3 \<and> t = 4" if "TyParent (object_mem t) = Some p" for t p
    using that by (auto simp: object_mem_def factories split: if_splits)
  have k: "TyKind (object_mem 3) = TkObject" by (simp add: object_mem_def newType_def)
  show ?thesis unfolding objects_fit_def using p k
    by (auto dest!: p simp: f fsize_def object_sample simp del: byteLayout.simps)
qed

theorem object_assignment_slices_witness: "prefix [(''x'', 0 :: 64 word), (''c'', 8)] [(''x'', 0), (''c'', 8), (''d'', 16)] \<and> unat (16 :: 64 word) \<le> unat (32 :: 64 word)"
proof -
  have k: "TyKind (object_mem 3) = TkObject" "TyKind (object_mem 4) = TkObject" by (simp_all add: object_mem_def newType_def)
  have "isAssignCompatible (Suc 2) (plain_opts Turbo) object_mem False 0 3 4 = Some True" by code_simp
  from object_assignment_slices [OF this k object_ranked object_widths object_fits] object_sample
  show ?thesis by (simp add: eval_nat_numeral del: byteLayout.simps)
qed

text \<open>C34. Compatibility of two arrays compares their elements by compatibility, not by identity, and a subrange is
  compatible with its host type: an array of the characters of a range may be assigned to an array of char of the same
  index, although outside Turbo a value of the range takes eight bytes and a character one, so that the value is eight
  times the size of the variable.\<close>

theorem subrange_array_overruns:
  assumes d: "TyKind (H d) = TkArray" "Anonymous (H d)" "ElemType (H d) = Some c" "IndexType (H d) = Some i" "RestrictedOf (H d) = None"
    and s: "TyKind (H s) = TkArray" "Anonymous (H s)" "ElemType (H s) = Some e" "IndexType (H s) = Some i" "RestrictedOf (H s) = None"
    and c: "TyKind (H c) = TkChar" "RestrictedOf (H c) = None"
    and e: "TyKind (H e) = TkSubrange" "SubBase (H e) = Some c" "Width (H e) = 64" "RestrictedOf (H e) = None"
    and i: "TyKind (H i) = TkSubrange" "RestrictedOf (H i) = None"
    and N: "ordinalRangeCount (SubLo (H i)) (SubHi (H i)) = Some N" "N \<noteq> 0" "uint N < 2 ^ 61"
    and decl: "ArrayDecl (H d) = None"
  shows "isAssignCompatible (n + 3) opts H False 0 d s = Some True
    \<and> byteSizeOf (n + 2) H d = Some (Some N) \<and> byteSizeOf (n + 2) H s = Some (Some (8 * N))"
proof -
  have ne: "d \<noteq> s" "c \<noteq> e" using d s c e by auto
  have cc: "isAssignCompatible (Suc n) opts H True 0 c c = Some True" using c by (simp add: Let_def isRestricted_def isError_def)
  have ce: "isAssignCompatible (Suc (Suc n)) opts H True 0 c e = Some True"
    using c e ne cc
    by (subst isAssignCompatible.simps)
       (simp add: Let_def isError_def isRestricted_def isVarStringLike_plain schema_body_def compat_mixed_def isCallable_def del: isAssignCompatible.simps)
  have ii: "isAssignCompatible (Suc (Suc n)) opts H True 0 i i = Some True" using i by (simp add: Let_def isRestricted_def isError_def)
  have "isAssignCompatible (Suc (Suc (Suc n))) opts H False 0 d s = Some True"
    using d s ne decl ce ii
    by (subst compatible_structured [OF d(1) s(1)])
       (simp_all add: isRestricted_def compat_same_kind_def compat_array_def both_def declared_name_differs_def isAnonymousNominal_def
         differ_def Let_def del: isAssignCompatible.simps)
  moreover have "checkedMul64 N 1 = Some N" using checkedMul64_exact [of N 1] uint_lt2p [of N]
    by (auto simp: checkedMul64_def)
  moreover have "checkedMul64 N 8 = Some (8 * N)"
  proof (cases "checkedMul64 N 8")
    case None
    then show ?thesis using checkedMul64_exact [of N 8] N(3) by simp
  next
    case (Some p)
    then show ?thesis by (simp add: checkedMul64_def mult.commute split: if_splits)
  qed
  moreover have "intBytes 64 = 8" by code_simp
  ultimately show ?thesis using d s c e N(1,2)
    by (simp add: byteSizeOf_def Let_def numeral_3_eq_3 numeral_2_eq_2 del: isAssignCompatible.simps)
qed

text \<open>\<^verbatim>\<open>array [1..3] of char\<close> and \<^verbatim>\<open>array [1..3] of 'a'..'z'\<close>.\<close>

definition overrun_mem :: Mem where
  "overrun_mem a = (if a = 1 then makeChar
     else if a = 2 then newType\<lparr>TyKind := TkSubrange, SubLo := 1, SubHi := 3\<rparr>
     else if a = 3 then newType\<lparr>TyKind := TkSubrange, SubBase := Some 1, SubLo := 97, SubHi := 122\<rparr>
     else if a = 4 then newType\<lparr>TyKind := TkArray, Anonymous := True, ElemType := Some 1, IndexType := Some 2\<rparr>
     else if a = 5 then newType\<lparr>TyKind := TkArray, Anonymous := True, ElemType := Some 3, IndexType := Some 2\<rparr>
     else makeError)"

theorem subrange_array_overruns_witness:
  "(\<forall>opts. isAssignCompatible 3 opts overrun_mem False 0 4 5 = Some True)
   \<and> byteSizeOf 2 overrun_mem 4 = Some (Some 3) \<and> byteSizeOf 2 overrun_mem 5 = Some (Some 24)"
proof -
  have "ordinalRangeCount 1 3 = Some 3" by code_simp
  then show ?thesis
    using subrange_array_overruns [of overrun_mem 4 1 2 5 3 3 0]
    by (simp add: overrun_mem_def factories numeral_2_eq_2 [symmetric] del: isAssignCompatible.simps)
qed

end
