(* ===== verification/Type_Context.thy ===== *)
theory Type_Context
  imports Sema_Types
begin

text \<open>
  The canonical store of types, \<^verbatim>\<open>include/plang/AST/TypeContext.h\<close>: the singletons, the types interned by a key
  built from the addresses of their components, and the re-filing of a pointer whose domain was declared later.  The
  context owns the store; \<^verbatim>\<open>std::make_shared\<close> takes an address that was never used, because a type lives as long as
  its context.  The destructor, which only cuts cycles, is left out.
\<close>

subsection \<open>The context\<close>

record TypeContext =
  CtxMem :: Mem
  NextAddr :: addr
  DefaultIntWidth :: nat
  PointerWidthBits :: nat
  CtxTurbo :: bool
  TyInt :: addr
  TyReal :: addr
  TyCplx :: addr
  TyBool :: addr
  TyChar :: addr
  TyStr :: addr
  TyNil :: addr
  TyErr :: addr
  TyText :: addr
  TyPChar :: addr
  TyPointer :: addr
  TySingle :: addr
  IntCache :: "nat \<times> bool \<Rightarrow> addr option"
  LooseBoolCache :: "nat \<Rightarrow> addr option"
  SubrangeCache :: "bytes \<Rightarrow> addr option"
  ArrayCache :: "bytes \<Rightarrow> addr option"
  PointerCache :: "bytes \<Rightarrow> addr option"
  SetCache :: "bytes \<Rightarrow> addr option"
  FileCache :: "bytes \<Rightarrow> addr option"
  VarStringCache :: "int \<Rightarrow> addr option"
  ShortStringCache :: "int \<Rightarrow> addr option"
  ObjectRoots :: "addr list"

definition make_shared :: "Type \<Rightarrow> TypeContext \<Rightarrow> addr \<times> TypeContext" where
  "make_shared T C = (NextAddr C, C\<lparr>CtxMem := (CtxMem C)(NextAddr C := T), NextAddr := Suc (NextAddr C)\<rparr>)"

text \<open>\<^verbatim>\<open>auto& slot = Cache[k]; if (!slot) slot = ...; return slot\<close>.\<close>

definition intern :: "('k \<Rightarrow> addr option) \<Rightarrow> ((('k \<Rightarrow> addr option) \<Rightarrow> 'k \<Rightarrow> addr option) \<Rightarrow> TypeContext \<Rightarrow> TypeContext)
    \<Rightarrow> 'k \<Rightarrow> Type \<Rightarrow> TypeContext \<Rightarrow> addr \<times> TypeContext" where
  "intern cache upd k T C = (case cache k of Some a \<Rightarrow> (a, C)
     | None \<Rightarrow> (let (a, C') = make_shared T C in (a, upd (\<lambda>m. m(k \<mapsto> a)) C')))"

definition addrKey :: "shared \<Rightarrow> bytes" where
  "addrKey t = dec_digits (case t of None \<Rightarrow> 0 | Some a \<Rightarrow> a)"

subsection \<open>Ordinals and strings\<close>

fun sizedIntegerName :: "nat \<Rightarrow> bool \<Rightarrow> bytes option" where
  "sizedIntegerName Bits Signed =
     (if Bits = 8 then Some (if Signed then ''ShortInt'' else ''Byte'')
      else if Bits = 16 then Some (if Signed then ''Integer'' else ''Word'')
      else if Bits = 32 then Some (if Signed then ''LongInt'' else ''Cardinal'')
      else if Bits = 64 then Some (if Signed then ''Int64'' else ''QWord'')
      else None)"

definition looseBooleanName :: "nat \<Rightarrow> bytes" where
  "looseBooleanName Bits = (if Bits = 8 then ''ByteBool'' else if Bits = 16 then ''WordBool'' else if Bits = 32 then ''LongBool'' else ''boolean'')"

definition getInt :: "nat \<Rightarrow> bool \<Rightarrow> TypeContext \<Rightarrow> addr \<times> TypeContext" where
  "getInt Bits Signed C = intern (IntCache C) IntCache_update (Bits, Signed)
     (let T = makeInteger\<lparr>Width := Bits, IsSigned := Signed\<rparr> in
      if Bits \<noteq> DefaultIntWidth C \<or> \<not> Signed then
        (case sizedIntegerName Bits Signed of Some N \<Rightarrow> T\<lparr>TyName := N\<rparr> | None \<Rightarrow> T)
      else T) C"

definition getLooseBoolean :: "nat \<Rightarrow> TypeContext \<Rightarrow> addr \<times> TypeContext" where
  "getLooseBoolean Bits C = intern (LooseBoolCache C) LooseBoolCache_update Bits
     (newType\<lparr>TyKind := TkBoolean, Width := Bits, IsLooseBool := True, IsSigned := False, TyName := looseBooleanName Bits\<rparr>) C"

definition getVarString :: "int \<Rightarrow> TypeContext \<Rightarrow> addr \<times> TypeContext" where
  "getVarString capacity C = intern (VarStringCache C) VarStringCache_update capacity (makeVarString capacity) C"

definition getShortString :: "int \<Rightarrow> TypeContext \<Rightarrow> addr \<times> TypeContext" where
  "getShortString capacity C = intern (ShortStringCache C) ShortStringCache_update capacity (makeShortString capacity) C"

text \<open>The narrowest storage that holds both bounds, tried at 8, 16 and 32 bits, unsigned first.\<close>

fun narrowest :: "nat list \<Rightarrow> int \<Rightarrow> int \<Rightarrow> nat \<times> bool" where
  "narrowest [] Lo Hi = (64, True)"
| "narrowest (W # Ws) Lo Hi =
     (if Lo \<ge> 0 \<and> (word_of_int Hi :: 64 word) \<le> push_bit W 1 - 1 then (W, False)
      else let SMin = - push_bit (W - 1) 1; SMax = push_bit (W - 1) 1 - 1 in
           if Lo \<ge> SMin \<and> Hi \<le> SMax then (W, True) else narrowest Ws Lo Hi)"

definition narrowestStorage :: "int \<Rightarrow> int \<Rightarrow> nat \<times> bool" where
  "narrowestStorage Lo Hi = narrowest [8, 16, 32] Lo Hi"

definition subrange_storage :: "TypeContext \<Rightarrow> shared \<Rightarrow> int \<Rightarrow> int \<Rightarrow> nat \<times> bool" where
  "subrange_storage C base lo hi = (case base of
     Some b \<Rightarrow> let B = CtxMem C b in
       if TyKind B = TkInteger then (if CtxTurbo C then narrowestStorage lo hi else (Width B, IsSigned B))
       else if CtxTurbo C \<and> (TyKind B = TkChar \<or> TyKind B = TkBoolean \<or> TyKind B = TkEnum) then (Width B, False)
       else (DefaultIntWidth C, False)
   | None \<Rightarrow> (DefaultIntWidth C, False))"

definition subKey :: "shared \<Rightarrow> int \<Rightarrow> int \<Rightarrow> bytes" where
  "subKey base lo hi = ''sub:'' @ addrKey base @ '':'' @ to_string_signed lo @ '':'' @ to_string_signed hi"

definition getSubrange :: "shared \<Rightarrow> int \<Rightarrow> int \<Rightarrow> TypeContext \<Rightarrow> addr \<times> TypeContext" where
  "getSubrange base lo hi C = intern (SubrangeCache C) SubrangeCache_update (subKey base lo hi)
     (let Nm = to_string_signed lo @ ''..'' @ to_string_signed hi; W = subrange_storage C base lo hi in
      newType\<lparr>TyKind := TkSubrange,
        TyName := (case base of Some b \<Rightarrow> if TyKind (CtxMem C b) \<noteq> TkInteger \<and> TyName (CtxMem C b) \<noteq> []
                                          then TyName (CtxMem C b) @ '' '' @ Nm else Nm | None \<Rightarrow> Nm),
        Width := fst W, IsSigned := snd W, SubBase := base, SubLo := lo, SubHi := hi\<rparr>) C"

subsection \<open>Arrays, pointers, files and sets\<close>

definition arrKey :: "addr \<Rightarrow> addr \<Rightarrow> bool \<Rightarrow> bytes" where
  "arrKey idx elem packed = ''arr:'' @ addrKey (Some idx) @ '':'' @ addrKey (Some elem) @ '':'' @ (if packed then ''P'' else ''U'')"

definition buildArray :: "TypeContext \<Rightarrow> addr \<Rightarrow> addr \<Rightarrow> bool \<Rightarrow> Type" where
  "buildArray C idx elem packed = newType\<lparr>TyKind := TkArray, Anonymous := True,
     TyName := ''array['' @ to_string_signed (SubLo (CtxMem C idx)) @ ''..'' @ to_string_signed (SubHi (CtxMem C idx))
               @ ''] of '' @ TyName (CtxMem C elem),
     ElemType := Some elem, IndexType := Some idx, TyPacked := packed\<rparr>"

definition getArray :: "addr \<Rightarrow> addr \<Rightarrow> bool \<Rightarrow> TypeContext \<Rightarrow> addr \<times> TypeContext" where
  "getArray idx elem packed C = intern (ArrayCache C) ArrayCache_update (arrKey idx elem packed) (buildArray C idx elem packed) C"

definition makeArrayUncached :: "addr \<Rightarrow> addr \<Rightarrow> bool \<Rightarrow> TypeContext \<Rightarrow> addr \<times> TypeContext" where
  "makeArrayUncached idx elem packed C = make_shared (buildArray C idx elem packed) C"

definition ptrKey :: "shared \<Rightarrow> bytes" where "ptrKey t = ''ptr:'' @ addrKey t"

definition getPointer :: "addr \<Rightarrow> TypeContext \<Rightarrow> addr \<times> TypeContext" where
  "getPointer base C = intern (PointerCache C) PointerCache_update (ptrKey (Some base))
     (newType\<lparr>TyKind := TkPointer, TyName := ''^'' @ TyName (CtxMem C base), PointeeType := Some base, Width := PointerWidthBits C\<rparr>) C"

definition rebindPointer :: "addr \<Rightarrow> addr \<Rightarrow> TypeContext \<Rightarrow> TypeContext" where
  "rebindPointer ptr pointee C = (let P = CtxMem C ptr;
     C1 = C\<lparr>PointerCache := (PointerCache C)(ptrKey (PointeeType P) := None)\<rparr>;
     C2 = C1\<lparr>CtxMem := (CtxMem C1)(ptr := P\<lparr>TyName := ''^'' @ TyName (CtxMem C1 pointee), PointeeType := Some pointee\<rparr>)\<rparr>
     in C2\<lparr>PointerCache := (PointerCache C2)(ptrKey (Some pointee) \<mapsto> ptr)\<rparr>)"

definition fileKey :: "shared \<Rightarrow> shared \<Rightarrow> bytes" where
  "fileKey elem index = ''file:'' @ addrKey elem @ '':'' @ addrKey index"

definition getFile :: "shared \<Rightarrow> shared \<Rightarrow> TypeContext \<Rightarrow> addr \<times> TypeContext" where
  "getFile elem index C = intern (FileCache C) FileCache_update (fileKey elem index)
     (newType\<lparr>TyKind := TkFile, TyName := (case elem of Some e \<Rightarrow> ''file of '' @ TyName (CtxMem C e) | None \<Rightarrow> ''file''),
        ElemType := elem, IndexType := index\<rparr>) C"

definition setKey :: "addr \<Rightarrow> bool \<Rightarrow> bytes" where
  "setKey elem packed = ''set:'' @ addrKey (Some elem) @ '':'' @ (if packed then ''P'' else ''U'')"

definition describeOrdinal :: "Type \<Rightarrow> bytes" where "describeOrdinal T = TyName T"

definition getSet :: "addr \<Rightarrow> bool \<Rightarrow> TypeContext \<Rightarrow> addr \<times> TypeContext" where
  "getSet elem packed C = intern (SetCache C) SetCache_update (setKey elem packed)
     (newType\<lparr>TyKind := TkSet, TyName := ''set of '' @ describeOrdinal (CtxMem C elem), ElemType := Some elem, TyPacked := packed\<rparr>) C"

definition trackObjectType :: "addr \<Rightarrow> TypeContext \<Rightarrow> TypeContext" where
  "trackObjectType t C = C\<lparr>ObjectRoots := ObjectRoots C @ [t]\<rparr>"

subsection \<open>Construction\<close>

definition emptyContext :: "nat \<Rightarrow> nat \<Rightarrow> bool \<Rightarrow> TypeContext" where
  "emptyContext IntWidth PtrWidth Tb = \<lparr>CtxMem = (\<lambda>a. newType), NextAddr = 1, DefaultIntWidth = IntWidth, PointerWidthBits = PtrWidth,
     CtxTurbo = Tb, TyInt = 0, TyReal = 0, TyCplx = 0, TyBool = 0, TyChar = 0, TyStr = 0, TyNil = 0, TyErr = 0, TyText = 0,
     TyPChar = 0, TyPointer = 0, TySingle = 0, IntCache = Map.empty, LooseBoolCache = Map.empty, SubrangeCache = Map.empty,
     ArrayCache = Map.empty, PointerCache = Map.empty, SetCache = Map.empty, FileCache = Map.empty, VarStringCache = Map.empty,
     ShortStringCache = Map.empty, ObjectRoots = []\<rparr>"

definition newTypeContext :: "nat \<Rightarrow> nat \<Rightarrow> bool \<Rightarrow> TypeContext" where
  "newTypeContext IntWidth PtrWidth Tb = (let
     (a, C) = getInt IntWidth True (emptyContext IntWidth PtrWidth Tb); C = C\<lparr>TyInt := a\<rparr>;
     (a, C) = make_shared makeReal C; C = C\<lparr>TyReal := a\<rparr>;
     (a, C) = make_shared makeComplex C; C = C\<lparr>TyCplx := a\<rparr>;
     (a, C) = make_shared makeBoolean C; C = C\<lparr>TyBool := a\<rparr>;
     (a, C) = make_shared makeChar C; C = C\<lparr>TyChar := a\<rparr>;
     (a, C) = make_shared (makeString\<lparr>Width := PtrWidth\<rparr>) C; C = C\<lparr>TyStr := a\<rparr>;
     (a, C) = make_shared (makeNil\<lparr>Width := PtrWidth\<rparr>) C; C = C\<lparr>TyNil := a\<rparr>;
     (a, C) = make_shared (newType\<lparr>TyKind := TkPointer, TyName := ''PChar'', PointeeType := Some (TyChar C), Width := PtrWidth\<rparr>) C;
     C = C\<lparr>TyPChar := a\<rparr>;
     (a, C) = make_shared (newType\<lparr>TyKind := TkPointer, TyName := ''Pointer'', Width := PtrWidth\<rparr>) C; C = C\<lparr>TyPointer := a\<rparr>;
     (a, C) = make_shared (makeReal\<lparr>TyName := ''single'', Width := 32\<rparr>) C; C = C\<lparr>TySingle := a\<rparr>;
     (a, C) = make_shared makeError C; C = C\<lparr>TyErr := a\<rparr>;
     (a, C) = make_shared (newType\<lparr>TyKind := TkFile, TyName := ''text''\<rparr>) C
     in C\<lparr>TyText := a\<rparr>)"

subsection \<open>Arithmetic types\<close>

text \<open>\<^verbatim>\<open>Sema::commonIntType\<close> and \<^verbatim>\<open>Sema::numericResult\<close>.\<close>

definition common_int :: "Type \<Rightarrow> Type \<Rightarrow> nat \<times> bool" where
  "common_int L R =
     (if IsSigned L = IsSigned R then (max (Width L) (Width R), IsSigned L)
      else let Signed = (if IsSigned L then L else R); Unsigned = (if IsSigned L then R else L) in
        if Width Signed > Width Unsigned then (Width Signed, True)
        else let Promoted = Width Unsigned * 2 in
          if Promoted \<le> 64 then (Promoted, True) else (64, Width Signed = Width Unsigned))"

definition commonIntType :: "Type \<Rightarrow> Type \<Rightarrow> TypeContext \<Rightarrow> addr \<times> TypeContext" where
  "commonIntType L R C = (let (W, S) = common_int L R in getInt W S C)"

definition numericResult :: "Type \<Rightarrow> Type \<Rightarrow> TypeContext \<Rightarrow> addr \<times> TypeContext" where
  "numericResult L R C =
     (if TyKind L = TkComplex \<or> TyKind R = TkComplex then (TyCplx C, C)
      else if TyKind L = TkReal \<or> TyKind R = TkReal then (TyReal C, C)
      else commonIntType L R C)"

end
