(* ===== verification/Type_Context_Props.thy ===== *)
theory Type_Context_Props
  imports Type_Context Literals
begin

text \<open>
  Interning.  A call of the context is a value of \<open>ctx_op\<close>; the calls that intern, all but those for pointers, are the
  canonical ones, and \<open>cached\<close> is what the context answers to one.  The interface \<open>interner\<close> says that a canonical call
  finds its entry or makes one at a fresh address and touches no other; from that alone two calls, with any history
  between them, return the same type if and only if they are the same call.
\<close>

subsection \<open>The calls of the context\<close>

datatype ctx_op =
    OpInt nat bool
  | OpLooseBoolean nat
  | OpVarString int
  | OpShortString int
  | OpSubrange shared int int
  | OpArray addr addr bool
  | OpFile shared shared
  | OpSet addr bool
  | OpArrayUncached addr addr bool
  | OpPointer addr
  | OpRebind addr addr
  | OpTrack addr

fun perform :: "ctx_op \<Rightarrow> TypeContext \<Rightarrow> addr \<times> TypeContext" where
  "perform (OpInt w s) C = getInt w s C"
| "perform (OpLooseBoolean w) C = getLooseBoolean w C"
| "perform (OpVarString n) C = getVarString n C"
| "perform (OpShortString n) C = getShortString n C"
| "perform (OpSubrange b lo hi) C = getSubrange b lo hi C"
| "perform (OpArray i e p) C = getArray i e p C"
| "perform (OpFile e i) C = getFile e i C"
| "perform (OpSet e p) C = getSet e p C"
| "perform (OpArrayUncached i e p) C = makeArrayUncached i e p C"
| "perform (OpPointer b) C = getPointer b C"
| "perform (OpRebind p t) C = (p, rebindPointer p t C)"
| "perform (OpTrack t) C = (t, trackObjectType t C)"

definition run_ops :: "ctx_op list \<Rightarrow> TypeContext \<Rightarrow> TypeContext" where
  "run_ops ops C = fold (\<lambda>op C. snd (perform op C)) ops C"

text \<open>A reference is null or the address of an object, never the null address itself.\<close>

fun legal :: "ctx_op \<Rightarrow> bool" where
  "legal (OpSubrange b lo hi) \<longleftrightarrow> b \<noteq> Some 0"
| "legal (OpArray i e p) \<longleftrightarrow> i \<noteq> 0 \<and> e \<noteq> 0"
| "legal (OpFile e i) \<longleftrightarrow> e \<noteq> Some 0 \<and> i \<noteq> Some 0"
| "legal (OpSet e p) \<longleftrightarrow> e \<noteq> 0"
| "legal _ \<longleftrightarrow> True"

text \<open>The calls that intern.\<close>

fun canonical :: "ctx_op \<Rightarrow> bool" where
  "canonical (OpArrayUncached i e p) \<longleftrightarrow> False"
| "canonical (OpPointer b) \<longleftrightarrow> False"
| "canonical (OpRebind p t) \<longleftrightarrow> False"
| "canonical (OpTrack t) \<longleftrightarrow> False"
| "canonical op \<longleftrightarrow> legal op"

fun cached :: "TypeContext \<Rightarrow> ctx_op \<Rightarrow> addr option" where
  "cached C (OpInt w s) = IntCache C (w, s)"
| "cached C (OpLooseBoolean w) = LooseBoolCache C w"
| "cached C (OpVarString n) = VarStringCache C n"
| "cached C (OpShortString n) = ShortStringCache C n"
| "cached C (OpSubrange b lo hi) = SubrangeCache C (subKey b lo hi)"
| "cached C (OpArray i e p) = ArrayCache C (arrKey i e p)"
| "cached C (OpFile e i) = FileCache C (fileKey e i)"
| "cached C (OpSet e p) = SetCache C (setKey e p)"
| "cached C _ = None"

subsection \<open>Keys\<close>

lemma dec_digits_inj: "dec_digits m = dec_digits n \<longleftrightarrow> m = n"
  by (metis dec_digits_value of_nat_eq_iff)

lemma dec_digits_chars: "CHR '':'' \<notin> set (dec_digits n)" "CHR ''-'' \<notin> set (dec_digits n)"
  using dec_digits_digits [of "CHR '':''" n] dec_digits_digits [of "CHR ''-''" n] by (auto simp: isdigit_def code_of_def)

lemma to_string_signed_inj: "to_string_signed m = to_string_signed n \<longleftrightarrow> m = n"
proof
  assume A: "to_string_signed m = to_string_signed n"
  have h: "dec_digits k \<noteq> CHR ''-'' # xs" for k xs using dec_digits_chars(2) [of k] by (metis list.set_intros(1))
  show "m = n" using A h [symmetric] h
    by (cases "m < 0"; cases "n < 0") (auto simp: to_string_signed_def to_string_def dec_digits_inj)
qed simp

lemma to_string_signed_chars: "CHR '':'' \<notin> set (to_string_signed v)"
  using dec_digits_chars(1) by (auto simp: to_string_signed_def to_string_def)

lemma addrKey_inj: "a \<noteq> Some 0 \<Longrightarrow> b \<noteq> Some 0 \<Longrightarrow> addrKey a = addrKey b \<longleftrightarrow> a = b"
  by (auto simp: addrKey_def dec_digits_inj split: option.splits)

lemma addrKey_chars: "CHR '':'' \<notin> set (addrKey a)"
  by (simp add: addrKey_def dec_digits_chars)

lemma colon_split:
  "CHR '':'' \<notin> set xs \<Longrightarrow> CHR '':'' \<notin> set xs' \<Longrightarrow> xs @ CHR '':'' # ys = xs' @ CHR '':'' # ys' \<longleftrightarrow> xs = xs' \<and> ys = ys'"
  by (induction xs arbitrary: xs'; case_tac xs') auto

lemmas key_chars = addrKey_chars to_string_signed_chars

lemma subKey_inj: "b \<noteq> Some 0 \<Longrightarrow> b' \<noteq> Some 0 \<Longrightarrow> subKey b lo hi = subKey b' lo' hi' \<longleftrightarrow> b = b' \<and> lo = lo' \<and> hi = hi'"
  by (simp add: subKey_def colon_split key_chars addrKey_inj to_string_signed_inj)

lemma arrKey_inj: "i \<noteq> 0 \<Longrightarrow> e \<noteq> 0 \<Longrightarrow> i' \<noteq> 0 \<Longrightarrow> e' \<noteq> 0 \<Longrightarrow> arrKey i e p = arrKey i' e' p' \<longleftrightarrow> i = i' \<and> e = e' \<and> p = p'"
  by (simp add: arrKey_def colon_split key_chars addrKey_inj)

lemma fileKey_inj: "e \<noteq> Some 0 \<Longrightarrow> i \<noteq> Some 0 \<Longrightarrow> e' \<noteq> Some 0 \<Longrightarrow> i' \<noteq> Some 0 \<Longrightarrow> fileKey e i = fileKey e' i' \<longleftrightarrow> e = e' \<and> i = i'"
  by (simp add: fileKey_def colon_split key_chars addrKey_inj)

lemma setKey_inj: "e \<noteq> 0 \<Longrightarrow> e' \<noteq> 0 \<Longrightarrow> setKey e p = setKey e' p' \<longleftrightarrow> e = e' \<and> p = p'"
  by (simp add: setKey_def colon_split key_chars addrKey_inj)

lemma ptrKey_inj: "a \<noteq> Some 0 \<Longrightarrow> b \<noteq> Some 0 \<Longrightarrow> ptrKey a = ptrKey b \<longleftrightarrow> a = b"
  by (simp add: ptrKey_def addrKey_inj)

lemmas key_inj = subKey_inj arrKey_inj fileKey_inj setKey_inj

subsection \<open>The interface of an interning store\<close>

locale interner =
  fixes find :: "'s \<Rightarrow> 'k \<Rightarrow> addr option"
    and next_addr :: "'s \<Rightarrow> addr"
    and call :: "'k \<Rightarrow> 's \<Rightarrow> addr \<times> 's"
    and interns :: "'k \<Rightarrow> bool"
    and valid :: "'k \<Rightarrow> bool"
  assumes hit: "interns k \<Longrightarrow> find S k = Some a \<Longrightarrow> call k S = (a, S)"
    and miss: "interns k \<Longrightarrow> find S k = None \<Longrightarrow> fst (call k S) = next_addr S
      \<and> (\<forall>k'. interns k' \<longrightarrow> find (snd (call k S)) k' = (if k' = k then Some (next_addr S) else find S k'))
      \<and> next_addr S < next_addr (snd (call k S))"
    and other: "valid k \<Longrightarrow> \<not> interns k \<Longrightarrow> interns k' \<Longrightarrow> find (snd (call k S)) k' = find S k'"
    and interns_valid: "interns k \<Longrightarrow> valid k"
    and grows: "\<not> interns k \<Longrightarrow> next_addr S \<le> next_addr (snd (call k S))"
begin

text \<open>Entries are below the next address and no two calls share one.\<close>

definition sound :: "'s \<Rightarrow> bool" where
  "sound S \<longleftrightarrow> (\<forall>k a. interns k \<longrightarrow> find S k = Some a \<longrightarrow> a < next_addr S)
     \<and> (\<forall>k k' a. interns k \<longrightarrow> interns k' \<longrightarrow> find S k = Some a \<longrightarrow> find S k' = Some a \<longrightarrow> k = k')"

definition run :: "'k list \<Rightarrow> 's \<Rightarrow> 's" where
  "run ks S = fold (\<lambda>k S. snd (call k S)) ks S"

lemmas miss_result = miss [THEN conjunct1]
lemmas miss_find = miss [THEN conjunct2, THEN conjunct1, rule_format]
lemmas miss_grows = miss [THEN conjunct2, THEN conjunct2]

lemma call_sound: "valid k \<Longrightarrow> sound S \<Longrightarrow> sound (snd (call k S))"
proof -
  assume v: "valid k" and S: "sound S"
  consider a where "interns k" "find S k = Some a" | "interns k" "find S k = None" | "\<not> interns k" by (cases "find S k") auto
  then show ?thesis
  proof cases
    case 1
    then show ?thesis using S hit by simp
  next
    case 2
    let ?S = "snd (call k S)"
    have b: "\<And>j a. interns j \<Longrightarrow> find S j = Some a \<Longrightarrow> a < next_addr S"
      and i: "\<And>j j' a. interns j \<Longrightarrow> interns j' \<Longrightarrow> find S j = Some a \<Longrightarrow> find S j' = Some a \<Longrightarrow> j = j'"
      using S unfolding sound_def by blast+
    show ?thesis unfolding sound_def
    proof (intro conjI allI impI)
      fix j a assume "interns j" "find ?S j = Some a"
      then show "a < next_addr ?S" using miss_find [OF 2] miss_grows [OF 2] b [of j a] by (auto split: if_splits)
    next
      fix j j' a assume "interns j" "interns j'" "find ?S j = Some a" "find ?S j' = Some a"
      then show "j = j'" using miss_find [OF 2] b [of j a] b [of j' a] i [of j j' a] by (auto split: if_splits)
    qed
  next
    case 3
    then show ?thesis using S other [OF v 3] grows [OF 3, of S] unfolding sound_def by (metis less_le_trans)
  qed
qed

lemma call_keeps: "valid k \<Longrightarrow> interns k' \<Longrightarrow> find S k' = Some a \<Longrightarrow> find (snd (call k S)) k' = Some a"
  by (cases "interns k"; cases "find S k") (auto simp: hit other miss_find)

lemma call_files: "interns k \<Longrightarrow> find (snd (call k S)) k = Some (fst (call k S))"
  by (cases "find S k") (auto simp: hit miss_find miss_result)

lemma run_sound: "list_all valid ks \<Longrightarrow> sound S \<Longrightarrow> sound (run ks S)"
  by (induction ks arbitrary: S) (auto simp: run_def intro: call_sound)

lemma run_keeps: "list_all valid ks \<Longrightarrow> interns k \<Longrightarrow> find S k = Some a \<Longrightarrow> find (run ks S) k = Some a"
  by (induction ks arbitrary: S) (auto simp: run_def intro: call_keeps)

lemma same_type_iff:
  assumes "sound S" "interns k" "interns k'" "list_all valid ks"
  shows "fst (call k' (run ks (snd (call k S)))) = fst (call k S) \<longleftrightarrow> k' = k"
proof -
  let ?S = "run ks (snd (call k S))"
  have f: "find ?S k = Some (fst (call k S))" by (rule run_keeps [OF assms(4,2) call_files [OF assms(2)]])
  have f': "find (snd (call k' ?S)) k' = Some (fst (call k' ?S))" by (rule call_files [OF assms(3)])
  have fk: "find (snd (call k' ?S)) k = Some (fst (call k S))" by (rule call_keeps [OF interns_valid [OF assms(3)] assms(2) f])
  have "sound (snd (call k' ?S))" using assms interns_valid by (intro call_sound run_sound) auto
  then show ?thesis using f' fk assms(2,3) unfolding sound_def by (metis option.inject)
qed

end

subsection \<open>The context interns\<close>

lemmas ctx_defs = getInt_def getLooseBoolean_def getVarString_def getShortString_def getSubrange_def getArray_def getFile_def
  getSet_def intern_def make_shared_def

interpretation ctx: interner cached NextAddr perform canonical legal
proof
  show "canonical k \<Longrightarrow> cached C k = Some a \<Longrightarrow> perform k C = (a, C)" for k C a
    by (cases k) (auto simp: ctx_defs)
  show "canonical k \<Longrightarrow> cached C k = None \<Longrightarrow> fst (perform k C) = NextAddr C
      \<and> (\<forall>k'. canonical k' \<longrightarrow> cached (snd (perform k C)) k' = (if k' = k then Some (NextAddr C) else cached C k'))
      \<and> NextAddr C < NextAddr (snd (perform k C))" for k C
    by (cases k; clarsimp simp: ctx_defs; case_tac k'; auto simp: key_inj)
  show "legal k \<Longrightarrow> \<not> canonical k \<Longrightarrow> canonical k' \<Longrightarrow> cached (snd (perform k C)) k' = cached C k'" for k k' C
    by (cases k; cases k') (auto simp: makeArrayUncached_def make_shared_def getPointer_def intern_def rebindPointer_def trackObjectType_def Let_def
        split: option.splits)
  show "canonical k \<Longrightarrow> legal k" for k by (cases k) auto
  show "\<not> canonical k \<Longrightarrow> NextAddr C \<le> NextAddr (snd (perform k C))" for k C
    by (cases k) (auto simp: ctx_defs makeArrayUncached_def getPointer_def rebindPointer_def trackObjectType_def Let_def split: option.splits)
qed

lemma run_ops_run: "run_ops = ctx.run"
  by (simp add: fun_eq_iff run_ops_def ctx.run_def)

lemma new_context_sound: "ctx.sound (newTypeContext W P Tb)"
proof -
  have "cached (newTypeContext W P Tb) k = (if k = OpInt W True then Some 1 else None)" if "canonical k" for k
    using that by (cases k) (simp_all add: newTypeContext_def emptyContext_def ctx_defs)
  moreover have "1 < NextAddr (newTypeContext W P Tb)" by (simp add: newTypeContext_def emptyContext_def ctx_defs)
  ultimately show ?thesis by (auto simp: ctx.sound_def split: if_splits)
qed

text \<open>C6. Interned types are canonical.  After any sequence of calls on a new context, a canonical call (an integer, loose
  boolean, string, subrange, anonymous array, file or set type), any further calls and another canonical call return the
  same object if and only if the two calls name the same kind with the same components: no two types are merged, and
  none is made twice.
\<close>

theorem interning_canonical:
  assumes "list_all legal before" and "list_all legal between" and "canonical op" and "canonical op'"
  shows "let (a, C) = perform op (run_ops before (newTypeContext W P Tb)) in fst (perform op' (run_ops between C)) = a \<longleftrightarrow> op' = op"
  using ctx.same_type_iff [OF ctx.run_sound [OF assms(1) new_context_sound] assms(3,4,2)]
  by (simp add: run_ops_run case_prod_beta Let_def)

theorem interning_canonical_witness:
  "let (a, C) = perform (OpSubrange (Some 1) 1 3) (run_ops [OpPointer 1] (newTypeContext 64 64 False))
   in fst (perform (OpSubrange (Some 1) 1 3) (run_ops [OpSubrange (Some 1) 13 3, OpRebind 13 2] C)) = a"
  using interning_canonical [of "[OpPointer 1]" "[OpSubrange (Some 1) 13 3, OpRebind 13 2]" "OpSubrange (Some 1) 1 3"
      "OpSubrange (Some 1) 1 3" 64 64 False] by (simp add: case_prod_beta)

subsection \<open>Pointers\<close>

text \<open>A pointer type written between the declaration of its domain and the resolution of an earlier forward reference
  to it is orphaned: the forward pointer is re-filed over it, and the program then has two pointer types with one domain,
  of which only the first is found again.
\<close>

theorem forward_pointer_orphans:
  assumes "stub \<noteq> 0" "node \<noteq> 0" "stub \<noteq> node" "PointerCache C (ptrKey (Some stub)) = None" "PointerCache C (ptrKey (Some node)) = None"
    and "getPointer stub C = (fwd, C1)" "getPointer node C1 = (later, C2)" "rebindPointer fwd node C2 = C3"
  shows "fwd \<noteq> later \<and> PointeeType (CtxMem C3 fwd) = Some node \<and> PointeeType (CtxMem C3 later) = Some node
     \<and> getPointer node C3 = (fwd, C3)"
  using assms by (auto simp: getPointer_def intern_def make_shared_def rebindPointer_def ptrKey_inj Let_def)

definition sample_context :: TypeContext where
  "sample_context = newTypeContext 64 64 False"

theorem forward_pointer_orphans_witness:
  "let (fwd, C1) = getPointer 20 sample_context; (later, C2) = getPointer 21 C1 in fwd \<noteq> later"
proof -
  have e: "PointerCache sample_context k = None" for k
    by (simp add: sample_context_def newTypeContext_def emptyContext_def ctx_defs)
  have "fst (getPointer 20 sample_context) \<noteq> fst (getPointer 21 (snd (getPointer 20 sample_context)))"
    using forward_pointer_orphans [OF _ _ _ e e prod.collapse [symmetric] prod.collapse [symmetric] refl, of 20 21] by simp
  then show ?thesis by (simp add: case_prod_beta Let_def)
qed

subsection \<open>Widths\<close>

text \<open>The values of an integer type, and the types of the ladder.\<close>

fun int_range :: "nat \<times> bool \<Rightarrow> int set" where
  "int_range (W, S) = (if S then {- (2 ^ (W - 1)) .. 2 ^ (W - 1) - 1} else {0 .. 2 ^ W - 1})"

definition ladder :: "(nat \<times> bool) set" where
  "ladder = {8, 16, 32, 64} \<times> UNIV"

lemma ladder_cases:
  "T \<in> ladder \<longleftrightarrow> T = (8, True) \<or> T = (8, False) \<or> T = (16, True) \<or> T = (16, False) \<or> T = (32, True) \<or> T = (32, False)
     \<or> T = (64, True) \<or> T = (64, False)"
  by (cases T) (auto simp: ladder_def)

lemma ladder_ball:
  "(\<forall>T \<in> ladder. P T) \<longleftrightarrow> P (8, True) \<and> P (8, False) \<and> P (16, True) \<and> P (16, False) \<and> P (32, True) \<and> P (32, False)
     \<and> P (64, True) \<and> P (64, False)"
  unfolding Ball_def ladder_cases by blast

lemma ladder_bex:
  "(\<exists>T \<in> ladder. P T) \<longleftrightarrow> P (8, True) \<or> P (8, False) \<or> P (16, True) \<or> P (16, False) \<or> P (32, True) \<or> P (32, False)
     \<or> P (64, True) \<or> P (64, False)"
  unfolding Bex_def ladder_cases by blast

text \<open>The storage chosen for a subrange holds every value of the subrange, and no narrower type of the ladder holds them
  all.
\<close>

theorem narrowestStorage_exact:
  assumes "- (2 ^ 63) \<le> Lo" "Lo \<le> Hi" "Hi < 2 ^ 63"
  shows "narrowestStorage Lo Hi \<in> ladder \<and> {Lo .. Hi} \<subseteq> int_range (narrowestStorage Lo Hi)
     \<and> (\<forall>T \<in> ladder. {Lo .. Hi} \<subseteq> int_range T \<longrightarrow> fst (narrowestStorage Lo Hi) \<le> fst T)"
proof -
  have u: "(word_of_int Hi :: 64 word) \<le> w \<longleftrightarrow> Hi \<le> uint w" if "0 \<le> Lo" for w :: "64 word"
    using assms that by (simp add: word_le_def uint_word_of_int take_bit_int_eq_self)
  show ?thesis using assms unfolding narrowestStorage_def
    by (cases "0 \<le> Lo") (auto simp: ladder_cases u push_bit_eq_mult)
qed

theorem narrowestStorage_exact_witness: "narrowestStorage (- 100) 100 = (8, True)"
proof -
  have "fst (narrowestStorage (- 100) 100) \<le> 8"
    using narrowestStorage_exact [of "- 100" 100, unfolded ladder_ball] by simp
  then show ?thesis by (simp add: narrowestStorage_def push_bit_eq_mult)
qed

text \<open>The type of an arithmetic operation on two integers of the ladder holds the values of both operands and is the
  narrowest that does, whenever some type of the ladder holds them; otherwise, an unsigned 64-bit operand beside a signed
  one, it has 64 bits.
\<close>

theorem common_int_narrowest:
  assumes "(Width L, IsSigned L) \<in> ladder" "(Width R, IsSigned R) \<in> ladder"
  shows "common_int L R \<in> ladder \<and>
     (if \<exists>T \<in> ladder. int_range (Width L, IsSigned L) \<union> int_range (Width R, IsSigned R) \<subseteq> int_range T
      then int_range (Width L, IsSigned L) \<union> int_range (Width R, IsSigned R) \<subseteq> int_range (common_int L R)
         \<and> (\<forall>T \<in> ladder. int_range (Width L, IsSigned L) \<union> int_range (Width R, IsSigned R) \<subseteq> int_range T \<longrightarrow> fst (common_int L R) \<le> fst T)
      else fst (common_int L R) = 64)"
  using assms unfolding ladder_cases by (elim disjE; simp add: common_int_def ladder_ball ladder_bex)

theorem common_int_narrowest_witness:
  "let L = newType\<lparr>Width := 16, IsSigned := True\<rparr>; R = newType\<lparr>Width := 16, IsSigned := False\<rparr> in
   common_int L R = (32, True) \<and> int_range (16, True) \<union> int_range (16, False) \<subseteq> int_range (common_int L R)"
  using common_int_narrowest [of "newType\<lparr>Width := 16, IsSigned := True\<rparr>" "newType\<lparr>Width := 16, IsSigned := False\<rparr>"]
  by (simp add: ladder_cases ladder_bex common_int_def)

end
