(* ===== verification/Stdio.thy ===== *)
theory Stdio
  imports Io_Stream Lexer
begin

text \<open>
  The C library's files as far as \<^verbatim>\<open>runtime/plang_file.cpp\<close> uses them.  A file is a sequence of bytes with an identity
  that its names and its open streams share; a stream has a position, the mode it was opened in and an error indicator.
  Writes are visible at once, which is what every use is entitled to after \<^verbatim>\<open>fflush\<close> or \<^verbatim>\<open>fclose\<close>.  The sticky
  end-of-file indicator is left out: every operation of the runtime starts with \<^verbatim>\<open>clearerr\<close>, so that it never decides
  what a read answers.  What the operating system may refuse is part of the state: \<open>OpenRefused\<close> names the error an
  \<^verbatim>\<open>fopen\<close> would get, and \<open>NoTemp\<close> says that temporary files cannot be made.  Devices do not fail.
\<close>

definition EOF :: int where "EOF = - 1"

datatype fmode = ModeR | ModeW | ModeRP | ModeWP | ModeA

datatype whence = SEEK_SET | SEEK_CUR | SEEK_END

record stream =
  SFile :: nat
  SPos :: nat
  SMode :: fmode
  SErr :: bool
  SSeekable :: bool

record world =
  Names :: "bytes \<Rightarrow> nat option"
  Contents :: "nat \<Rightarrow> bytes"
  NextFile :: nat
  Streams :: "nat \<Rightarrow> stream option"
  NextStream :: nat
  Errno :: nat
  OpenRefused :: "bytes \<Rightarrow> fmode \<Rightarrow> nat option"
  IsDirectory :: "nat \<Rightarrow> bool"
  NoTemp :: bool

definition ENOENT :: nat where "ENOENT = 2"
definition EBADF :: nat where "EBADF = 9"
definition EINVAL :: nat where "EINVAL = 22"
definition ESPIPE :: nat where "ESPIPE = 29"

subsection \<open>Opening and closing\<close>

definition new_stream :: "nat \<Rightarrow> fmode \<Rightarrow> 'a world_scheme \<Rightarrow> nat \<times> 'a world_scheme" where
  "new_stream i M W = (NextStream W,
     W\<lparr>Streams := (Streams W)(NextStream W \<mapsto>
         \<lparr>SFile = i, SPos = (if M = ModeA then length (Contents W i) else 0), SMode = M, SErr = False, SSeekable = True\<rparr>),
       NextStream := Suc (NextStream W)\<rparr>)"

definition new_file :: "'a world_scheme \<Rightarrow> nat \<times> 'a world_scheme" where
  "new_file W = (NextFile W, W\<lparr>Contents := (Contents W)(NextFile W := []), NextFile := Suc (NextFile W)\<rparr>)"

definition fopen :: "bytes \<Rightarrow> fmode \<Rightarrow> 'a world_scheme \<Rightarrow> nat option \<times> 'a world_scheme" where
  "fopen Name M W = (case OpenRefused W Name M of
     Some e \<Rightarrow> (None, W\<lparr>Errno := e\<rparr>)
   | None \<Rightarrow> (case Names W Name of
       None \<Rightarrow>
         if M = ModeR \<or> M = ModeRP then (None, W\<lparr>Errno := ENOENT\<rparr>)
         else (let (i, W1) = new_file W; (h, W2) = new_stream i M (W1\<lparr>Names := (Names W1)(Name \<mapsto> i)\<rparr>) in (Some h, W2))
     | Some i \<Rightarrow>
         let W1 = (if M = ModeW \<or> M = ModeWP then W\<lparr>Contents := (Contents W)(i := [])\<rparr> else W); (h, W2) = new_stream i M W1
         in (Some h, W2)))"

definition tmpfile :: "'a world_scheme \<Rightarrow> nat option \<times> 'a world_scheme" where
  "tmpfile W = (if NoTemp W then (None, W) else let (i, W1) = new_file W; (h, W2) = new_stream i ModeWP W1 in (Some h, W2))"

definition fclose :: "nat \<Rightarrow> 'a world_scheme \<Rightarrow> 'a world_scheme" where
  "fclose h W = W\<lparr>Streams := (Streams W)(h := None)\<rparr>"

subsection \<open>Reading and writing\<close>

definition can_read :: "fmode \<Rightarrow> bool" where "can_read M \<longleftrightarrow> M = ModeR \<or> M = ModeRP \<or> M = ModeWP"
definition can_write :: "fmode \<Rightarrow> bool" where "can_write M \<longleftrightarrow> M \<noteq> ModeR"

definition put_stream :: "nat \<Rightarrow> stream \<Rightarrow> 'a world_scheme \<Rightarrow> 'a world_scheme" where
  "put_stream h s W = W\<lparr>Streams := (Streams W)(h \<mapsto> s)\<rparr>"

definition fail_stream :: "nat \<Rightarrow> stream \<Rightarrow> 'a world_scheme \<Rightarrow> 'a world_scheme" where
  "fail_stream h s W = (put_stream h (s\<lparr>SErr := True\<rparr>) W)\<lparr>Errno := EBADF\<rparr>"

text \<open>\<^verbatim>\<open>fread(Buf, 1, n, h)\<close>: the bytes read.\<close>

definition fread :: "nat \<Rightarrow> nat \<Rightarrow> 'a world_scheme \<Rightarrow> bytes \<times> 'a world_scheme" where
  "fread n h W = (case Streams W h of None \<Rightarrow> ([], W) | Some s \<Rightarrow>
     if n = 0 then ([], W)
     else if \<not> can_read (SMode s) then ([], fail_stream h s W)
     else let bs = take n (drop (SPos s) (Contents W (SFile s))) in (bs, put_stream h (s\<lparr>SPos := SPos s + length bs\<rparr>) W))"

definition fgetc :: "nat \<Rightarrow> 'a world_scheme \<Rightarrow> int \<times> 'a world_scheme" where
  "fgetc h W = (case fread 1 h W of (c # _, W1) \<Rightarrow> (int (code_of c), W1) | ([], W1) \<Rightarrow> (EOF, W1))"

text \<open>\<^verbatim>\<open>ungetc\<close> of the byte that was just read.\<close>

definition ungetc :: "nat \<Rightarrow> 'a world_scheme \<Rightarrow> 'a world_scheme" where
  "ungetc h W = (case Streams W h of None \<Rightarrow> W | Some s \<Rightarrow> put_stream h (s\<lparr>SPos := SPos s - 1\<rparr>) W)"

definition write_at :: "bytes \<Rightarrow> nat \<Rightarrow> bytes \<Rightarrow> bytes" where
  "write_at xs p bs = take p (xs @ replicate (p - length xs) (CHR 0x00)) @ bs @ drop (p + length bs) xs"

definition fwrite :: "bytes \<Rightarrow> nat \<Rightarrow> 'a world_scheme \<Rightarrow> nat \<times> 'a world_scheme" where
  "fwrite bs h W = (case Streams W h of None \<Rightarrow> (0, W) | Some s \<Rightarrow>
     if bs = [] then (0, W)
     else if \<not> can_write (SMode s) then (0, fail_stream h s W)
     else let p = (if SMode s = ModeA then length (Contents W (SFile s)) else SPos s) in
       (length bs, put_stream h (s\<lparr>SPos := p + length bs\<rparr>)
          (W\<lparr>Contents := (Contents W)(SFile s := write_at (Contents W (SFile s)) p bs)\<rparr>)))"

definition fputs :: "bytes \<Rightarrow> nat \<Rightarrow> 'a world_scheme \<Rightarrow> 'a world_scheme" where
  "fputs bs h W = snd (fwrite bs h W)"

subsection \<open>Positions and indicators\<close>

definition ftell :: "nat \<Rightarrow> 'a world_scheme \<Rightarrow> int" where
  "ftell h W = (case Streams W h of None \<Rightarrow> - 1 | Some s \<Rightarrow> if SSeekable s then int (SPos s) else - 1)"

definition fseek :: "nat \<Rightarrow> int \<Rightarrow> whence \<Rightarrow> 'a world_scheme \<Rightarrow> bool \<times> 'a world_scheme" where
  "fseek h off from W = (case Streams W h of None \<Rightarrow> (False, W) | Some s \<Rightarrow>
     if \<not> SSeekable s then (False, W\<lparr>Errno := ESPIPE\<rparr>)
     else let p = off + (case from of SEEK_SET \<Rightarrow> 0 | SEEK_CUR \<Rightarrow> int (SPos s) | SEEK_END \<Rightarrow> int (length (Contents W (SFile s)))) in
       if p < 0 then (False, W\<lparr>Errno := EINVAL\<rparr>) else (True, put_stream h (s\<lparr>SPos := nat p\<rparr>) W))"

definition clearerr :: "nat \<Rightarrow> 'a world_scheme \<Rightarrow> 'a world_scheme" where
  "clearerr h W = (case Streams W h of None \<Rightarrow> W | Some s \<Rightarrow> put_stream h (s\<lparr>SErr := False\<rparr>) W)"

definition ferror :: "nat \<Rightarrow> 'a world_scheme \<Rightarrow> bool" where
  "ferror h W = (case Streams W h of None \<Rightarrow> False | Some s \<Rightarrow> SErr s)"

definition rewind :: "nat \<Rightarrow> 'a world_scheme \<Rightarrow> 'a world_scheme" where
  "rewind h W = clearerr h (snd (fseek h 0 SEEK_SET W))"

text \<open>\<^verbatim>\<open>fstat(fileno(h))\<close> and \<^verbatim>\<open>S_ISDIR\<close>.\<close>

definition is_directory :: "nat \<Rightarrow> 'a world_scheme \<Rightarrow> bool" where
  "is_directory h W = (case Streams W h of None \<Rightarrow> False | Some s \<Rightarrow> IsDirectory W (SFile s))"

definition ftruncate :: "nat \<Rightarrow> nat \<Rightarrow> 'a world_scheme \<Rightarrow> bool \<times> 'a world_scheme" where
  "ftruncate h n W = (case Streams W h of None \<Rightarrow> (False, W) | Some s \<Rightarrow>
     if \<not> can_write (SMode s) \<or> \<not> SSeekable s then (False, W\<lparr>Errno := EINVAL\<rparr>)
     else (True, W\<lparr>Contents := (Contents W)(SFile s := take n (Contents W (SFile s) @ replicate n (CHR 0x00)))\<rparr>))"

text \<open>\<^verbatim>\<open>remove\<close>, \<^verbatim>\<open>rename\<close> and \<^verbatim>\<open>access(name, F_OK)\<close>.\<close>

definition remove_file :: "bytes \<Rightarrow> 'a world_scheme \<Rightarrow> bool \<times> 'a world_scheme" where
  "remove_file Name W = (case Names W Name of None \<Rightarrow> (False, W\<lparr>Errno := ENOENT\<rparr>)
     | Some i \<Rightarrow> (True, W\<lparr>Names := (Names W)(Name := None)\<rparr>))"

definition rename_file :: "bytes \<Rightarrow> bytes \<Rightarrow> 'a world_scheme \<Rightarrow> bool \<times> 'a world_scheme" where
  "rename_file Name New W = (case Names W Name of None \<Rightarrow> (False, W\<lparr>Errno := ENOENT\<rparr>)
     | Some i \<Rightarrow> (True, W\<lparr>Names := (Names W)(Name := None, New \<mapsto> i)\<rparr>))"

definition file_exists :: "bytes \<Rightarrow> 'a world_scheme \<Rightarrow> bool \<times> 'a world_scheme" where
  "file_exists Name W = (case Names W Name of None \<Rightarrow> (False, W\<lparr>Errno := ENOENT\<rparr>) | Some i \<Rightarrow> (True, W))"

subsection \<open>Numbers\<close>

text \<open>\<^verbatim>\<open>%lld\<close>, and a field of at least \<open>w\<close> characters filled with blanks on the left.\<close>

definition print_int :: "int \<Rightarrow> bytes" where
  "print_int v = (if v < 0 then CHR ''-'' # dec_digits (nat (- v)) else dec_digits (nat v))"

definition pad_left :: "int \<Rightarrow> bytes \<Rightarrow> bytes" where
  "pad_left w s = replicate (nat w - length s) (CHR '' '') @ s"

text \<open>
  \<^verbatim>\<open>strtoll\<close> and \<^verbatim>\<open>strtoull\<close>: leading white space, a sign, \<^verbatim>\<open>0x\<close> for base sixteen, digits.  The answer is the value, the
  text behind what was converted, and whether the value was out of range; nothing is converted when the rest is the text.
\<close>

definition digit_of :: "nat \<Rightarrow> char \<Rightarrow> bool" where
  "digit_of base c \<longleftrightarrow> isalnum c \<and> alnum_val c < int base"

fun digits_value :: "nat \<Rightarrow> bytes \<Rightarrow> int \<Rightarrow> int" where
  "digits_value base [] v = v"
| "digits_value base (c # cs) v = digits_value base cs (v * int base + alnum_val c)"

definition skip_0x :: "nat \<Rightarrow> bytes \<Rightarrow> bytes" where
  "skip_0x base s = (case s of
     z # x # d # cs \<Rightarrow> if base = 16 \<and> z = CHR ''0'' \<and> (x = CHR ''x'' \<or> x = CHR ''X'') \<and> digit_of 16 d then d # cs else s
   | _ \<Rightarrow> s)"

definition strto_parse :: "nat \<Rightarrow> bytes \<Rightarrow> (bool \<times> int \<times> bytes) option" where
  "strto_parse base s = (let
     s1 = dropWhile isspace s;
     neg = (case s1 of c # _ \<Rightarrow> c = CHR ''-'' | [] \<Rightarrow> False);
     s2 = (case s1 of c # cs \<Rightarrow> if c = CHR ''-'' \<or> c = CHR ''+'' then cs else s1 | [] \<Rightarrow> s1);
     s3 = skip_0x base s2;
     ds = takeWhile (digit_of base) s3
     in if ds = [] then None else Some (neg, digits_value base ds 0, dropWhile (digit_of base) s3))"

definition strtoll :: "nat \<Rightarrow> bytes \<Rightarrow> int \<times> bytes \<times> bool" where
  "strtoll base s = (case strto_parse base s of None \<Rightarrow> (0, s, False)
   | Some (neg, v, rest) \<Rightarrow>
       let r = (if neg then - v else v) in
       if r > INT64_MAX then (INT64_MAX, rest, True) else if r < INT64_MIN then (INT64_MIN, rest, True) else (r, rest, False))"

definition strtoull :: "nat \<Rightarrow> bytes \<Rightarrow> int \<times> bytes \<times> bool" where
  "strtoull base s = (case strto_parse base s of None \<Rightarrow> (0, s, False)
   | Some (neg, v, rest) \<Rightarrow>
       if v > 2 ^ 64 - 1 then (2 ^ 64 - 1, rest, True) else ((if neg then (- v) mod 2 ^ 64 else v), rest, False))"

end
