(* ===== verification/File_State.thy ===== *)
theory File_State
  imports Stdio
begin

text \<open>
  The state of the file runtime, \<^verbatim>\<open>runtime/plang_file.cpp\<close> and \<^verbatim>\<open>include/plang/Basic/PascalFileLayout.h\<close>, and the
  helpers every operation uses.  \<open>rt\<close> extends the C library's world by the program's file variables, found by address,
  and the static tables of the runtime.  An operation is a function of the state that answers a value and the new state,
  or the fatal error it ends the program with.
\<close>

subsection \<open>File variables\<close>

definition PlangFileUninit :: int where "PlangFileUninit = - 2"

datatype PlangBinding = PlangBindNone | PlangBindTemp | PlangBindStd

record PascalFile =
  Fp :: "nat option"
  Comp :: "bytes option"
  CompSize :: int
  FBuf :: int
  FBinding :: PlangBinding
  Readable :: int
  CompLoaded :: bool
  FName :: bytes
  FMode :: int
  RecSize :: int

definition new_var :: PascalFile where
  "new_var = \<lparr>Fp = None, Comp = None, CompSize = 0, FBuf = PlangFileUninit, FBinding = PlangBindNone, Readable = 0,
     CompLoaded = False, FName = [], FMode = 0, RecSize = 0\<rparr>"

record rt = world +
  Vars :: "nat \<Rightarrow> PascalFile"
  WritePathTable :: "(nat \<times> bytes) option list"
  BindingTable :: "(nat \<times> bytes) option list"
  InOutRes :: int
  TpFileMode :: int
  OutOfMemory :: bool
  Crt :: rt_stream

definition PLANG_MAX_BINDINGS :: nat where "PLANG_MAX_BINDINGS = 64"
definition PLANG_MAX_NAME_LEN :: nat where "PLANG_MAX_NAME_LEN = 512"

text \<open>The streams the program starts with.\<close>

definition stdin_stream :: nat where "stdin_stream = 0"
definition stdout_stream :: nat where "stdout_stream = 1"

datatype file_error =
    err_file_not_open bytes
  | err_file_wrong_mode bytes
  | err_cannot_open bytes
  | err_seek_failed bytes int
  | err_read_format bytes
  | err_read_int_range bytes bytes
  | err_field_width int
  | err_binding_table_full
  | err_bind_already_bound
  | err_out_of_memory
  | tp_runerror int

subsection \<open>Operations in sequence\<close>

type_synonym 'a run = "rt \<Rightarrow> file_error + 'a \<times> rt"

definition ret :: "'a \<Rightarrow> 'a run" where "ret x W = Inr (x, W)"
definition raise :: "file_error \<Rightarrow> 'a run" where "raise e W = Inl e"
definition upd :: "(rt \<Rightarrow> rt) \<Rightarrow> unit run" where "upd f W = Inr ((), f W)"
definition asks :: "(rt \<Rightarrow> 'a) \<Rightarrow> 'a run" where "asks f W = Inr (f W, W)"
definition doR :: "(rt \<Rightarrow> 'a \<times> rt) \<Rightarrow> 'a run" where "doR f W = Inr (f W)"

definition bindR :: "'a run \<Rightarrow> ('a \<Rightarrow> 'b run) \<Rightarrow> 'b run" where
  "bindR m f W = (case m W of Inl e \<Rightarrow> Inl e | Inr (x, W') \<Rightarrow> f x W')"

fun seqR :: "unit run list \<Rightarrow> unit run" where
  "seqR [] = ret ()"
| "seqR (m # ms) = bindR m (\<lambda>_. seqR ms)"

definition whenR :: "bool \<Rightarrow> unit run \<Rightarrow> unit run" where
  "whenR b m = (if b then m else ret ())"

lemma run_simps [simp]:
  "ret x W = Inr (x, W)" "raise e W = Inl e" "upd g W = Inr ((), g W)" "asks q W = Inr (q W, W)" "doR k W = Inr (k W)"
  by (simp_all add: ret_def raise_def upd_def asks_def doR_def)

lemma bindR_simps [simp]:
  "bindR (ret x) f = f x" "bindR (raise e) f1 = raise e" "bindR (upd g) f2 W = f2 () (g W)" "bindR (asks q) f3 W = f3 (q W) W"
  "bindR (doR k) f4 W = f4 (fst (k W)) (snd (k W))"
  by (simp_all add: fun_eq_iff bindR_def case_prod_beta)

lemma bindR_Inr: "m W = Inr (x, W') \<Longrightarrow> bindR m f W = f x W'"
  by (simp add: bindR_def)

lemma bindR_Inl: "m W = Inl e \<Longrightarrow> bindR m f W = Inl e"
  by (simp add: bindR_def)

definition setv :: "nat \<Rightarrow> (PascalFile \<Rightarrow> PascalFile) \<Rightarrow> rt \<Rightarrow> rt" where
  "setv F g W = W\<lparr>Vars := (Vars W)(F := g (Vars W F))\<rparr>"

subsection \<open>The window and the component\<close>

text \<open>The window holds the next byte of the file, which \<open>prime\<close> looks at without consuming it.\<close>

definition prime :: "nat \<Rightarrow> rt \<Rightarrow> rt" where
  "prime F W = (case Fp (Vars W F) of
     None \<Rightarrow> setv F (FBuf_update (\<lambda>_. EOF)) W
   | Some h \<Rightarrow> let (C, W1) = fgetc h W; W2 = (if C \<noteq> EOF then ungetc h W1 else W1) in setv F (FBuf_update (\<lambda>_. C)) W2)"

definition ensurePrimed :: "nat \<Rightarrow> rt \<Rightarrow> rt" where
  "ensurePrimed F W = (let v = Vars W F in
     if FBuf v = PlangFileUninit \<and> Readable v \<noteq> 0 \<and> Fp v \<noteq> None then prime F W else W)"

definition advanceF :: "nat \<Rightarrow> rt \<Rightarrow> int \<times> rt" where
  "advanceF F W = (let (C, W1) = (case Fp (Vars W F) of None \<Rightarrow> (EOF, W) | Some h \<Rightarrow> fgetc h W) in (C, prime F W1))"

definition unloadComponent :: "nat \<Rightarrow> rt \<Rightarrow> rt" where
  "unloadComponent F W = setv F (CompLoaded_update (\<lambda>_. False)) W"

definition forget_window :: "nat \<Rightarrow> rt \<Rightarrow> rt" where
  "forget_window F W = setv F (FBuf_update (\<lambda>_. PlangFileUninit)) W"

subsection \<open>Checks\<close>

definition abortIfClosed :: "nat \<Rightarrow> bytes \<Rightarrow> unit run" where
  "abortIfClosed F Opn W = (case Fp (Vars W F) of None \<Rightarrow> Inl (err_file_not_open Opn) | Some h \<Rightarrow> Inr ((), clearerr h W))"

definition stream_failed :: "nat \<Rightarrow> rt \<Rightarrow> bool" where
  "stream_failed F W = (case Fp (Vars W F) of None \<Rightarrow> False | Some h \<Rightarrow> ferror h W)"

definition trapOnStreamError :: "nat \<Rightarrow> bytes \<Rightarrow> unit run" where
  "trapOnStreamError F Opn W = (if stream_failed F W then Inl (err_file_wrong_mode Opn) else Inr ((), W))"

definition wrong_direction :: "PascalFile \<Rightarrow> bool \<Rightarrow> bool" where
  "wrong_direction v WantWrite \<longleftrightarrow> FBinding v = PlangBindTemp \<and> Readable v \<noteq> 2
     \<and> ((WantWrite \<and> Readable v = 1) \<or> (\<not> WantWrite \<and> Readable v = 0))"

definition trapOnWrongDirection :: "nat \<Rightarrow> bytes \<Rightarrow> bool \<Rightarrow> unit run" where
  "trapOnWrongDirection F Opn WantWrite W =
     (if wrong_direction (Vars W F) WantWrite then Inl (err_file_wrong_mode Opn) else Inr ((), W))"

definition setInOutResIfClear :: "int \<Rightarrow> rt \<Rightarrow> rt" where
  "setInOutResIfClear Code W = (if InOutRes W = 0 then W\<lparr>InOutRes := Code\<rparr> else W)"

definition tpSuppressedByPendingError :: "rt \<Rightarrow> bool" where
  "tpSuppressedByPendingError W \<longleftrightarrow> InOutRes W \<noteq> 0"

definition plang_tp_posix_to_run_error :: "nat \<Rightarrow> int" where
  "plang_tp_posix_to_run_error e =
     (if e = 2 then 2
      else if e = 36 then 3
      else if e = 23 \<or> e = 24 then 4
      else if e = 13 \<or> e = 30 \<or> e = 17 \<or> e = 39 \<or> e = 16 \<or> e = 20 \<or> e = 21 then 5
      else if e = 32 \<or> e = 4 \<or> e = 5 \<or> e = 11 \<or> e = 28 then 101
      else if e = 22 then 218
      else int e)"

definition tpTrapOnStreamError :: "nat \<Rightarrow> bool \<Rightarrow> rt \<Rightarrow> rt" where
  "tpTrapOnStreamError F WantWrite W =
     (if \<not> stream_failed F W then W
      else if Errno W = 0 \<or> Errno W = EBADF then setInOutResIfClear (if WantWrite then 105 else 104) W
      else setInOutResIfClear (plang_tp_posix_to_run_error (Errno W)) W)"

definition tpTrapOnWrongDirection :: "nat \<Rightarrow> bool \<Rightarrow> rt \<Rightarrow> rt" where
  "tpTrapOnWrongDirection F WantWrite W =
     (if wrong_direction (Vars W F) WantWrite then setInOutResIfClear (if WantWrite then 105 else 104) W else W)"

text \<open>\<^verbatim>\<open>tpFileReady\<close>: whether to go on, with the error recorded when not.\<close>

definition tpFileReady :: "nat \<Rightarrow> rt \<Rightarrow> bool \<times> rt" where
  "tpFileReady F W =
     (if tpSuppressedByPendingError W then (False, W)
      else case Fp (Vars W F) of None \<Rightarrow> (False, setInOutResIfClear 103 W) | Some h \<Rightarrow> (True, clearerr h W))"

subsection \<open>Reading bytes while they belong\<close>

datatype io_check = NoCheck | IsoCheck | TpCheck

fun stream_check :: "io_check \<Rightarrow> nat \<Rightarrow> unit run" where
  "stream_check NoCheck F W = Inr ((), W)"
| "stream_check IsoCheck F W = trapOnStreamError F ''read'' W"
| "stream_check TpCheck F W = Inr ((), tpTrapOnStreamError F False W)"

definition bytes_left :: "nat \<Rightarrow> rt \<Rightarrow> nat" where
  "bytes_left F W = (case Fp (Vars W F) of None \<Rightarrow> 0
     | Some h \<Rightarrow> (case Streams W h of None \<Rightarrow> 0 | Some s \<Rightarrow> length (Contents W (SFile s)) - SPos s))"

lemma put_same: "Streams W h = Some s \<Longrightarrow> put_stream h s W = W"
  by (simp add: put_stream_def fun_upd_idem)

lemma fgetc_stream:
  "Streams W h = Some s \<Longrightarrow> fgetc h W =
     (if \<not> can_read (SMode s) then (EOF, fail_stream h s W)
      else if SPos s < length (Contents W (SFile s))
      then (int (code_of (Contents W (SFile s) ! SPos s)), put_stream h (s\<lparr>SPos := Suc (SPos s)\<rparr>) W)
      else (EOF, W))"
  by (auto simp: fgetc_def fread_def put_same take_Suc_conv_app_nth hd_drop_conv_nth take_Suc split: list.splits)

lemma ungetc_put: "ungetc h (put_stream h (s\<lparr>SPos := Suc p\<rparr>) W) = put_stream h (s\<lparr>SPos := p\<rparr>) W"
  by (simp add: ungetc_def put_stream_def)

text \<open>The next byte of an open stream, the value of a primed window.\<close>

definition next_byte :: "stream \<Rightarrow> rt \<Rightarrow> int" where
  "next_byte s W = (if SPos s < length (Contents W (SFile s)) then int (code_of (Contents W (SFile s) ! SPos s)) else EOF)"

lemma byte_not_EOF [simp]: "int (code_of c) \<noteq> EOF" "EOF \<noteq> int (code_of c)"
  by (simp_all add: EOF_def)

lemma prime_stream:
  "Fp (Vars W F) = Some h \<Longrightarrow> Streams W h = Some s \<Longrightarrow> prime F W =
     setv F (FBuf_update (\<lambda>_. if can_read (SMode s) then next_byte s W else EOF)) (if can_read (SMode s) then W else fail_stream h s W)"
  by (simp add: prime_def fgetc_stream ungetc_put next_byte_def put_same)

lemma advanceF_stream:
  "Fp (Vars W F) = Some h \<Longrightarrow> Streams W h = Some s \<Longrightarrow> can_read (SMode s) \<Longrightarrow> SPos s < length (Contents W (SFile s)) \<Longrightarrow>
   advanceF F W = (int (code_of (Contents W (SFile s) ! SPos s)),
     let s' = s\<lparr>SPos := Suc (SPos s)\<rparr> in setv F (FBuf_update (\<lambda>_. next_byte s' W)) (put_stream h s' W))"
  by (simp add: advanceF_def fgetc_stream prime_stream put_stream_def next_byte_def Let_def)

lemma advanceF_end:
  "Fp (Vars W F) = Some h \<Longrightarrow> Streams W h = Some s \<Longrightarrow> can_read (SMode s) \<Longrightarrow> length (Contents W (SFile s)) \<le> SPos s \<Longrightarrow>
   advanceF F W = (EOF, setv F (FBuf_update (\<lambda>_. EOF)) W)"
  by (simp add: advanceF_def fgetc_stream prime_stream next_byte_def)

lemma advanceF_fail:
  "Fp (Vars W F) = Some h \<Longrightarrow> Streams W h = Some s \<Longrightarrow> \<not> can_read (SMode s) \<Longrightarrow>
   advanceF F W = (EOF, setv F (FBuf_update (\<lambda>_. EOF)) (fail_stream h s W))"
  by (simp add: advanceF_def fgetc_stream prime_stream fail_stream_def put_stream_def)

lemma advanceF_unread:
  "bytes_left F (snd (advanceF F W)) + (if FBuf (Vars (snd (advanceF F W)) F) = EOF then 0 else 1) < bytes_left F W + 1"
proof (cases "Fp (Vars W F)")
  case None
  then show ?thesis by (simp add: advanceF_def prime_def setv_def bytes_left_def)
next
  case F: (Some h)
  show ?thesis
  proof (cases "Streams W h")
    case None
    then show ?thesis using F by (simp add: advanceF_def prime_def fgetc_def fread_def setv_def bytes_left_def)
  next
    case S: (Some s)
    consider "\<not> can_read (SMode s)" | "can_read (SMode s)" "SPos s < length (Contents W (SFile s))"
      | "can_read (SMode s)" "length (Contents W (SFile s)) \<le> SPos s" by linarith
    then show ?thesis
    proof cases
      case 1
      then show ?thesis using F S by (simp add: advanceF_fail bytes_left_def setv_def fail_stream_def put_stream_def)
    next
      case 2
      then have "length (Contents W (SFile s)) - Suc (SPos s) < length (Contents W (SFile s)) - SPos s" by simp
      then show ?thesis using F S 2 by (simp add: advanceF_stream bytes_left_def setv_def put_stream_def Let_def)
    next
      case 3
      then show ?thesis using F S by (simp add: advanceF_end bytes_left_def setv_def)
    qed
  qed
qed

lemma tp_frame [simp]:
  "Vars (setInOutResIfClear c W) = Vars W" "Streams (setInOutResIfClear c W) = Streams W" "Contents (setInOutResIfClear c W) = Contents W"
  "Vars (tpTrapOnStreamError F b W) = Vars W" "Streams (tpTrapOnStreamError F b W) = Streams W"
  "Contents (tpTrapOnStreamError F b W) = Contents W"
  by (simp_all add: setInOutResIfClear_def tpTrapOnStreamError_def)

lemma stream_check_frame:
  "stream_check k F W = Inr (u, W') \<Longrightarrow> bytes_left F W' = bytes_left F W \<and> FBuf (Vars W' F) = FBuf (Vars W F)"
  by (cases k) (auto simp: trapOnStreamError_def bytes_left_def split: if_splits option.splits)

function read_while :: "io_check \<Rightarrow> (int \<Rightarrow> bool) \<Rightarrow> nat \<Rightarrow> int list \<Rightarrow> int list run" where
  "read_while k p F acc W =
     (if FBuf (Vars W F) \<noteq> EOF \<and> p (FBuf (Vars W F)) then
        (case advanceF F W of (C, W1) \<Rightarrow>
           (case stream_check k F W1 of Inl e \<Rightarrow> Inl e | Inr (u, W2) \<Rightarrow> read_while k p F (acc @ [C]) W2))
      else Inr (acc, W))"
  by auto
termination
proof (relation "measure (\<lambda>(k, p, F, acc, W). bytes_left F W + (if FBuf (Vars W F) = EOF then 0 else 1))", goal_cases)
  case (2 k p F acc W C W1 r u W2)
  then have "bytes_left F W2 + (if FBuf (Vars W2 F) = EOF then 0 else 1) < bytes_left F W + 1"
    using advanceF_unread [of F W] stream_check_frame [of k F W1 u W2] by (cases "advanceF F W") auto
  then show ?case using 2(1) by simp
qed simp

declare read_while.simps [simp del]

definition as_bytes :: "int list \<Rightarrow> bytes" where
  "as_bytes cs = map (\<lambda>c. char_of (nat c)) cs"

end
