(* ===== verification/File_Runtime.thy ===== *)
theory File_Runtime
  imports File_State
begin

text \<open>
  The file operations of ISO 7185 and Extended Pascal, \<^verbatim>\<open>runtime/plang_file.cpp\<close>: opening, the buffer variable,
  components, text and direct access.  Reading and writing of real numbers, which is a matter of their formatting, is
  left out.
\<close>

subsection \<open>The tables of paths and bindings\<close>

definition find_slot :: "(nat \<times> bytes) option list \<Rightarrow> nat \<Rightarrow> bytes option" where
  "find_slot t F = (case List.find (\<lambda>s. case s of Some (G, p) \<Rightarrow> G = F | None \<Rightarrow> False) t of Some (Some (G, p)) \<Rightarrow> Some p | _ \<Rightarrow> None)"

definition clear_slots :: "nat \<Rightarrow> (nat \<times> bytes) option list \<Rightarrow> (nat \<times> bytes) option list" where
  "clear_slots F t = map (\<lambda>s. case s of Some (G, p) \<Rightarrow> if G = F then None else s | None \<Rightarrow> None) t"

fun fill_slot :: "nat \<times> bytes \<Rightarrow> (nat \<times> bytes) option list \<Rightarrow> (nat \<times> bytes) option list option" where
  "fill_slot e [] = None"
| "fill_slot e (None # t) = Some (Some e # t)"
| "fill_slot e (Some s # t) = map_option (\<lambda>t'. Some s # t') (fill_slot e t)"

definition stored_name :: "bytes \<Rightarrow> bytes" where
  "stored_name Name = take (PLANG_MAX_NAME_LEN - 1) Name"

definition findWritePath :: "nat \<Rightarrow> rt \<Rightarrow> bytes option" where
  "findWritePath F W = find_slot (WritePathTable W) F"

definition clearWritePath :: "nat \<Rightarrow> rt \<Rightarrow> rt" where
  "clearWritePath F W = W\<lparr>WritePathTable := clear_slots F (WritePathTable W)\<rparr>"

definition setWritePath :: "nat \<Rightarrow> bytes \<Rightarrow> rt \<Rightarrow> rt" where
  "setWritePath F Name W = (let W1 = clearWritePath F W in
     if Name = [] then W1
     else case fill_slot (F, stored_name Name) (WritePathTable W1) of None \<Rightarrow> W1 | Some t \<Rightarrow> W1\<lparr>WritePathTable := t\<rparr>)"

definition findBinding :: "nat \<Rightarrow> rt \<Rightarrow> bytes option" where
  "findBinding F W = find_slot (BindingTable W) F"

definition clearBinding :: "nat \<Rightarrow> rt \<Rightarrow> rt" where
  "clearBinding F W = W\<lparr>BindingTable := clear_slots F (BindingTable W)\<rparr>"

definition setBinding :: "nat \<Rightarrow> bytes \<Rightarrow> unit run" where
  "setBinding F Name W =
     (if findBinding F W \<noteq> None then
        Inr ((), W\<lparr>BindingTable := map (\<lambda>s. case s of Some (G, p) \<Rightarrow> if G = F then Some (F, stored_name Name) else s | None \<Rightarrow> None)
                      (BindingTable W)\<rparr>)
      else case fill_slot (F, stored_name Name) (BindingTable W) of
        None \<Rightarrow> Inl err_binding_table_full | Some t \<Rightarrow> Inr ((), W\<lparr>BindingTable := t\<rparr>))"

definition PlangMaxBindingName :: nat where "PlangMaxBindingName = 255"

definition plang_bind :: "nat \<Rightarrow> bytes \<Rightarrow> unit run" where
  "plang_bind F Name W =
     (if findBinding F W \<noteq> None then Inl err_bind_already_bound
      else let W1 = clearBinding F W; N = take PlangMaxBindingName Name in
        if N = [] then Inr ((), W1) else setBinding F N W1)"

definition plang_unbind :: "nat \<Rightarrow> rt \<Rightarrow> rt" where "plang_unbind F W = clearBinding F W"

definition plang_binding :: "nat \<Rightarrow> rt \<Rightarrow> bool \<times> bytes" where
  "plang_binding F W = (let v = Vars W F; std = (Fp v \<noteq> None \<and> FBinding v = PlangBindStd) in
     case findBinding F W of Some Name \<Rightarrow> (True, take PlangMaxBindingName Name) | None \<Rightarrow> (std, []))"

subsection \<open>Opening and closing\<close>

definition closeStream :: "nat \<Rightarrow> rt \<Rightarrow> rt" where
  "closeStream F W = (let W1 = (case Fp (Vars W F) of
       Some h \<Rightarrow> if h \<noteq> stdin_stream \<and> h \<noteq> stdout_stream then fclose h W else W | None \<Rightarrow> W)
     in setv F (\<lambda>v. v\<lparr>Fp := None, FBinding := PlangBindNone\<rparr>) W1)"

definition openTemp :: "nat \<Rightarrow> bytes \<Rightarrow> unit run" where
  "openTemp F Opn W = (case tmpfile W of
     (None, W1) \<Rightarrow> Inl (err_cannot_open (''cannot create temporary file in '' @ [CHR 0x27] @ Opn @ [CHR 0x27]))
   | (Some h, W1) \<Rightarrow> Inr ((), setv F (\<lambda>v. v\<lparr>Fp := Some h, FBinding := PlangBindTemp\<rparr>) W1))"

text \<open>A text file put together without a final line marker gets one.\<close>

definition ends_open :: "int \<Rightarrow> bool" where "ends_open Last \<longleftrightarrow> Last \<noteq> 10 \<and> Last \<noteq> EOF"

definition closeFinalLine :: "nat \<Rightarrow> rt \<Rightarrow> rt" where
  "closeFinalLine F W = (case Fp (Vars W F) of None \<Rightarrow> W | Some h \<Rightarrow>
     if Readable (Vars W F) \<noteq> 0 then W
     else if ftell h W \<le> 0 then W
     else case findWritePath F W of
       Some Path \<Rightarrow> (case fopen Path ModeR W of
           (None, W1) \<Rightarrow> W1
         | (Some Peek, W1) \<Rightarrow>
             let (ok, W2) = fseek Peek (- 1) SEEK_END W1;
                 (Last, W3) = (if ok then fgetc Peek W2 else (EOF, W2));
                 W4 = fclose Peek W3
             in if ends_open Last then fputs [CHR 0x0A] h W4 else W4)
     | None \<Rightarrow>
         let (ok, W1) = fseek h (- 1) SEEK_CUR W in
         if \<not> ok then W1
         else let (Last, W2) = fgetc h W1; W3 = (if ends_open Last then fputs [CHR 0x0A] h W2 else W2) in clearerr h W3)"

text \<open>The name an opening is for: the one given, or the one the file variable is bound to.\<close>

definition effective_name :: "nat \<Rightarrow> bytes \<Rightarrow> rt \<Rightarrow> bytes" where
  "effective_name F Name W = (if Name \<noteq> [] then Name else case findBinding F W of Some n \<Rightarrow> n | None \<Rightarrow> [])"

definition open_named :: "nat \<Rightarrow> bytes \<Rightarrow> fmode \<Rightarrow> bytes \<Rightarrow> unit run" where
  "open_named F Name M why W = (case fopen Name M W of
     (None, W1) \<Rightarrow> Inl (err_cannot_open (take 511 (''cannot open '' @ [CHR 0x27] @ Name @ [CHR 0x27] @ '' for '' @ why)))
   | (Some h, W1) \<Rightarrow> Inr ((), setv F (\<lambda>v. v\<lparr>Fp := Some h\<rparr>) W1))"

definition refuse_directory :: "nat \<Rightarrow> bytes \<Rightarrow> unit run" where
  "refuse_directory F Name W = (case Fp (Vars W F) of
     Some h \<Rightarrow> if is_directory h W then Inl (err_cannot_open (take 511 ([CHR 0x27] @ Name @ [CHR 0x27] @ '' is a directory, not a file''))) else Inr ((), W)
   | None \<Rightarrow> Inr ((), W))"

definition onFp :: "nat \<Rightarrow> (nat \<Rightarrow> rt \<Rightarrow> rt) \<Rightarrow> rt \<Rightarrow> rt" where
  "onFp F g W = (case Fp (Vars W F) of None \<Rightarrow> W | Some h \<Rightarrow> g h W)"

definition plang_reset :: "nat \<Rightarrow> bytes \<Rightarrow> bool \<Rightarrow> unit run" where
  "plang_reset F Name IsText = seqR [
     upd (if IsText then closeFinalLine F else id),
     bindR (asks (\<lambda>W. (effective_name F Name W, Vars W F))) (\<lambda>(N, v).
       if N = [] then
         (if FBinding v = PlangBindStd then ret ()
          else if Fp v \<noteq> None then upd (onFp F rewind)
          else openTemp F ''reset'')
       else seqR [upd (closeStream F), open_named F N ModeR ''reading'', refuse_directory F N, whenR (Name \<noteq> []) (setBinding F N)]),
     upd (setv F (Readable_update (\<lambda>_. 1))),
     upd (unloadComponent F),
     upd (prime F)]"

text \<open>What an opening for generation or update leaves behind.\<close>

definition facing :: "nat \<Rightarrow> int \<Rightarrow> rt \<Rightarrow> rt" where
  "facing F dir W = unloadComponent F (setv F (\<lambda>v. v\<lparr>FBuf := PlangFileUninit, Readable := dir\<rparr>) W)"

definition plang_rewrite :: "nat \<Rightarrow> bytes \<Rightarrow> bool \<Rightarrow> unit run" where
  "plang_rewrite F Name IsText = seqR [
     upd (if IsText then closeFinalLine F else id),
     bindR (asks (\<lambda>W. (effective_name F Name W, Vars W F))) (\<lambda>(N, v).
       if N = [] \<and> FBinding v = PlangBindStd then ret ()
       else if N = [] then seqR [upd (closeStream F), openTemp F ''rewrite'', upd (clearWritePath F)]
       else seqR [upd (closeStream F), open_named F N ModeW ''writing'', upd (setWritePath F N), whenR (Name \<noteq> []) (setBinding F N)]),
     upd (facing F 0)]"

text \<open>\<^verbatim>\<open>fopen\<close> for update, or else to create.\<close>

definition open_update :: "nat \<Rightarrow> bytes \<Rightarrow> bytes \<Rightarrow> unit run" where
  "open_update F Name why W = (case fopen Name ModeRP W of
     (Some h, W1) \<Rightarrow> Inr ((), setv F (\<lambda>v. v\<lparr>Fp := Some h\<rparr>) W1)
   | (None, W1) \<Rightarrow> open_named F Name ModeWP why W1)"

definition open_both :: "nat \<Rightarrow> bytes \<Rightarrow> bool \<Rightarrow> bytes \<Rightarrow> (nat \<Rightarrow> rt \<Rightarrow> rt) \<Rightarrow> unit run" where
  "open_both F Name IsText why place = seqR [
     upd (if IsText then closeFinalLine F else id),
     bindR (asks (\<lambda>W. (effective_name F Name W, Vars W F))) (\<lambda>(N, v).
       if N = [] then seqR [if Fp v \<noteq> None then upd (onFp F place) else openTemp F why, upd (clearWritePath F)]
       else seqR [upd (closeStream F), open_update F N why, upd (onFp F place), upd (setWritePath F N), whenR (Name \<noteq> []) (setBinding F N)]),
     upd (facing F 2)]"

definition plang_extend :: "nat \<Rightarrow> bytes \<Rightarrow> bool \<Rightarrow> unit run" where
  "plang_extend F Name IsText = open_both F Name IsText ''extend'' (\<lambda>h W. snd (fseek h 0 SEEK_END W))"

definition plang_update :: "nat \<Rightarrow> bytes \<Rightarrow> bool \<Rightarrow> unit run" where
  "plang_update F Name IsText = open_both F Name IsText ''update'' rewind"

definition plang_bind_std :: "nat \<Rightarrow> bool \<Rightarrow> rt \<Rightarrow> rt" where
  "plang_bind_std F IsInput W = setv F (\<lambda>v. v\<lparr>FBinding := PlangBindStd, Readable := (if IsInput then 1 else 0), CompLoaded := False,
     Fp := Some (if IsInput then stdin_stream else stdout_stream), FBuf := PlangFileUninit\<rparr>) (closeStream F W)"

definition plang_close :: "nat \<Rightarrow> bool \<Rightarrow> rt \<Rightarrow> rt" where
  "plang_close F IsText W = (let W1 = closeStream F (if IsText then closeFinalLine F W else W)
     in clearWritePath F (setv F (\<lambda>v. v\<lparr>FBuf := PlangFileUninit, Readable := 0, Comp := None, CompSize := 0, CompLoaded := False\<rparr>) W1))"

subsection \<open>The end of the file and of a line\<close>

definition plang_eof_file :: "nat \<Rightarrow> bool run" where
  "plang_eof_file F = bindR (abortIfClosed F ''eof'') (\<lambda>_ W.
     if Readable (Vars W F) = 0 then Inr (True, W)
     else let W1 = ensurePrimed F W in Inr (FBuf (Vars W1 F) = EOF, W1))"

definition plang_eoln_file :: "nat \<Rightarrow> bool run" where
  "plang_eoln_file F = bindR (abortIfClosed F ''eoln'') (\<lambda>_ W.
     let W1 = ensurePrimed F W; b = FBuf (Vars W1 F) in Inr (b = EOF \<or> b = 10, W1))"

subsection \<open>The buffer variable\<close>

definition zeros :: "int \<Rightarrow> bytes" where "zeros n = replicate (nat n) (CHR 0x00)"

definition set_comp :: "nat \<Rightarrow> bytes \<Rightarrow> rt \<Rightarrow> rt" where
  "set_comp F bs W = setv F (Comp_update (\<lambda>_. Some bs)) W"

text \<open>A component of one byte rides on the window; a longer one is read and the position put back.\<close>

definition load_byte :: "nat \<Rightarrow> bool \<Rightarrow> rt \<Rightarrow> rt" where
  "load_byte F IsText W = (let b = FBuf (Vars W F) in
     if IsText \<and> b = 10 then set_comp F '' '' W else if b \<ge> 0 then set_comp F [char_of (nat b)] W else W)"

definition load_record :: "nat \<Rightarrow> int \<Rightarrow> rt \<Rightarrow> rt" where
  "load_record F n W = (case Fp (Vars W F) of None \<Rightarrow> W | Some h \<Rightarrow>
     let Pos = ftell h W;
         (bs, W1) = fread (nat n) h W;
         W2 = clearerr h (if length bs = nat n then set_comp F bs W1 else W1);
         W3 = (if Pos \<ge> 0 then snd (fseek h Pos SEEK_SET W2) else W2)
     in prime F W3)"

definition load_component :: "nat \<Rightarrow> int \<Rightarrow> bool \<Rightarrow> rt \<Rightarrow> rt" where
  "load_component F n IsText W = (let W1 = set_comp F (zeros n) W;
       W2 = (if Readable (Vars W1 F) \<noteq> 0 then
               (let W2 = ensurePrimed F W1 in if n = 1 then load_byte F IsText W2 else load_record F n W2)
             else W1)
     in setv F (CompLoaded_update (\<lambda>_. True)) W2)"

definition plang_file_buffer :: "nat \<Rightarrow> int \<Rightarrow> bool \<Rightarrow> unit run" where
  "plang_file_buffer F ElemSize IsText = bindR (abortIfClosed F ''buffer variable'') (\<lambda>_ W.
     let n = (if ElemSize < 1 then 1 else ElemSize); fresh = (CompSize (Vars W F) \<noteq> n) in
     if fresh \<and> OutOfMemory W then Inl err_out_of_memory
     else let W1 = (if fresh then setv F (\<lambda>v. v\<lparr>Comp := Some (zeros n), CompSize := n, CompLoaded := False\<rparr>) W else W) in
       Inr ((), if CompLoaded (Vars W1 F) then W1 else load_component F n IsText W1))"

definition plang_get_file :: "nat \<Rightarrow> int \<Rightarrow> unit run" where
  "plang_get_file F ElemSize = seqR [abortIfClosed F ''get'',
     upd (\<lambda>W. if ElemSize > 1 then prime F (onFp F (\<lambda>h W. snd (fseek h ElemSize SEEK_CUR W)) W) else snd (advanceF F W)),
     upd (unloadComponent F)]"

definition emit :: "nat \<Rightarrow> bytes \<Rightarrow> unit run" where
  "emit F bs = upd (onFp F (fputs bs))"

definition plang_put_file :: "nat \<Rightarrow> int \<Rightarrow> unit run" where
  "plang_put_file F ElemSize = bindR (abortIfClosed F ''put'') (\<lambda>_ W. case Comp (Vars W F) of
     None \<Rightarrow> Inr ((), W)
   | Some bs \<Rightarrow> seqR [trapOnWrongDirection F ''put'' True, emit F (take (nat (if ElemSize < 1 then 1 else ElemSize)) bs),
       trapOnStreamError F ''put'', upd (unloadComponent F)] W)"

text \<open>What a program does with the address of the buffer variable: read it and store to it.\<close>

definition component :: "nat \<Rightarrow> rt \<Rightarrow> bytes" where
  "component F W = (case Comp (Vars W F) of None \<Rightarrow> [] | Some bs \<Rightarrow> bs)"

subsection \<open>Components\<close>

definition plang_read_binary :: "nat \<Rightarrow> int \<Rightarrow> bytes run" where
  "plang_read_binary F ElemSize = bindR (abortIfClosed F ''read'') (\<lambda>_. bindR (trapOnWrongDirection F ''read'' False) (\<lambda>_ W.
     let (bs, W1) = (case Fp (Vars W F) of None \<Rightarrow> ([], W) | Some h \<Rightarrow> fread (nat ElemSize) h W) in
     bindR (trapOnStreamError F ''read'') (\<lambda>_ W.
       Inr (bs @ replicate (nat ElemSize - length bs) (CHR 0x00), unloadComponent F (prime F W))) W1))"

definition plang_write_binary :: "nat \<Rightarrow> bytes \<Rightarrow> unit run" where
  "plang_write_binary F bs = seqR [abortIfClosed F ''write'', trapOnWrongDirection F ''write'' True, emit F bs,
     trapOnStreamError F ''write'', upd (forget_window F), upd (unloadComponent F)]"

subsection \<open>Text\<close>

definition plang_readln_file :: "nat \<Rightarrow> unit run" where
  "plang_readln_file F = bindR (abortIfClosed F ''readln'') (\<lambda>_. bindR (upd (ensurePrimed F)) (\<lambda>_.
     bindR (read_while NoCheck (\<lambda>b. b \<noteq> 10) F []) (\<lambda>_ W.
       Inr ((), unloadComponent F (if FBuf (Vars W F) = 10 then snd (advanceF F W) else W)))))"

definition write_iso :: "nat \<Rightarrow> bytes \<Rightarrow> bytes \<Rightarrow> unit run" where
  "write_iso F Opn bs = seqR [abortIfClosed F Opn, trapOnWrongDirection F Opn True, emit F bs, trapOnStreamError F Opn]"

definition plang_writeln_file :: "nat \<Rightarrow> unit run" where "plang_writeln_file F = write_iso F ''writeln'' [CHR 0x0A]"
definition plang_page_file :: "nat \<Rightarrow> unit run" where "plang_page_file F = write_iso F ''page'' [CHR 0x0C]"

definition is_blank :: "int \<Rightarrow> bool" where
  "is_blank b \<longleftrightarrow> b = 32 \<or> b = 9 \<or> b = 10 \<or> b = 13"

definition skipBlanksFile :: "nat \<Rightarrow> unit run" where
  "skipBlanksFile F = bindR (upd (\<lambda>W. if FBuf (Vars W F) = PlangFileUninit then prime F W else W)) (\<lambda>_.
     bindR (trapOnStreamError F ''read'') (\<lambda>_. bindR (read_while IsoCheck is_blank F []) (\<lambda>_. ret ())))"

definition is_digit_byte :: "int \<Rightarrow> bool" where "is_digit_byte b \<longleftrightarrow> 48 \<le> b \<and> b \<le> 57"

definition take_byte :: "nat \<Rightarrow> (int \<Rightarrow> bool) \<Rightarrow> int list run" where
  "take_byte F p W = (if p (FBuf (Vars W F)) then
      (case advanceF F W of (C, W1) \<Rightarrow> bindR (trapOnStreamError F ''read'') (\<lambda>_. ret [C]) W1)
    else Inr ([], W))"

definition is_sign :: "int \<Rightarrow> bool" where "is_sign b \<longleftrightarrow> b = 43 \<or> b = 45"

text \<open>\<^verbatim>\<open>scanNumberFile\<close>: the token of a number, and whether there was anything before the end of the file.\<close>

definition scan_fraction :: "nat \<Rightarrow> int list run" where
  "scan_fraction F = bindR (take_byte F (\<lambda>b. b = 46)) (\<lambda>dot.
     if dot = [] then ret [] else bindR (read_while IsoCheck is_digit_byte F []) (\<lambda>ds. ret (dot @ ds)))"

definition scan_exponent :: "nat \<Rightarrow> int list run" where
  "scan_exponent F = bindR (take_byte F (\<lambda>b. b = 101 \<or> b = 69)) (\<lambda>e.
     if e = [] then ret []
     else bindR (take_byte F is_sign) (\<lambda>sg. bindR (read_while IsoCheck is_digit_byte F []) (\<lambda>ds. ret (101 # sg @ ds))))"

definition scanNumberFile :: "nat \<Rightarrow> bool \<Rightarrow> (bytes \<times> bool) run" where
  "scanNumberFile F isReal = bindR (skipBlanksFile F) (\<lambda>_. bindR (asks (\<lambda>W. FBuf (Vars W F) \<noteq> EOF)) (\<lambda>SawAny.
     bindR (take_byte F is_sign) (\<lambda>sg. bindR (read_while IsoCheck is_digit_byte F []) (\<lambda>ds.
     if \<not> isReal then ret (as_bytes (sg @ ds), SawAny)
     else bindR (scan_fraction F) (\<lambda>fr. bindR (scan_exponent F) (\<lambda>ex. ret (as_bytes (sg @ ds @ fr @ ex), SawAny)))))))"

definition read_number :: "nat \<Rightarrow> (bytes \<Rightarrow> int run) \<Rightarrow> int run" where
  "read_number F convert = bindR (abortIfClosed F ''read'') (\<lambda>_. bindR (trapOnWrongDirection F ''read'' False) (\<lambda>_.
     bindR (scanNumberFile F False) (\<lambda>(Tok, SawAny). bindR (upd (unloadComponent F)) (\<lambda>_.
     if \<not> SawAny then ret 0 else convert Tok))))"

definition plang_read_file_i64 :: "nat \<Rightarrow> int run" where
  "plang_read_file_i64 F = read_number F (\<lambda>Tok. let (V, End, er) = strtoll 10 Tok in
     if End = Tok then raise (err_read_format ''read'') else if er then raise (err_read_int_range ''read'' Tok) else ret V)"

definition plang_read_file_u64 :: "nat \<Rightarrow> int run" where
  "plang_read_file_u64 F = read_number F (\<lambda>Tok. let (V, End, er) = strtoull 10 Tok in
     if take 1 Tok = ''-'' then raise (err_read_format ''read'')
     else if End = Tok then raise (err_read_format ''read'') else if er then raise (err_read_int_range ''read'' Tok) else ret V)"

definition plang_read_file_char :: "nat \<Rightarrow> int run" where
  "plang_read_file_char F = bindR (abortIfClosed F ''read'') (\<lambda>_. bindR (trapOnWrongDirection F ''read'' False) (\<lambda>_ W.
     let W1 = ensurePrimed F W in
     if FBuf (Vars W1 F) = EOF then Inr (0, W1)
     else case advanceF F W1 of (C, W2) \<Rightarrow>
       bindR (trapOnStreamError F ''read'') (\<lambda>_ W. Inr (if C = 10 then 32 else C, unloadComponent F W)) W2))"

text \<open>Reading a string takes the rest of the line and leaves its end.\<close>

definition read_line :: "nat \<Rightarrow> bytes run" where
  "read_line F = bindR (abortIfClosed F ''read'') (\<lambda>_. bindR (trapOnWrongDirection F ''read'' False) (\<lambda>_.
     bindR (upd (ensurePrimed F)) (\<lambda>_. bindR (read_while IsoCheck (\<lambda>b. b \<noteq> 10) F []) (\<lambda>cs. ret (as_bytes cs)))))"

definition plang_str_read_file :: "nat \<Rightarrow> int \<Rightarrow> bytes run" where
  "plang_str_read_file F Cap = bindR (read_line F) (\<lambda>cs. ret (take (nat Cap) cs))"

definition plang_str_read_fixed_file :: "nat \<Rightarrow> int \<Rightarrow> bytes run" where
  "plang_str_read_fixed_file F N = bindR (read_line F) (\<lambda>cs.
     ret (take (nat N) cs @ replicate (nat N - length cs) (CHR '' '')))"

subsection \<open>Formatted output\<close>

definition noPadIfNegative :: "int \<Rightarrow> int" where "noPadIfNegative w = (if w < 0 then 0 else w)"

definition checkedWidth :: "int \<Rightarrow> int run" where
  "checkedWidth w = (if noPadIfNegative w > INT32_MAX then raise (err_field_width (noPadIfNegative w)) else ret (noPadIfNegative w))"

definition write_field :: "nat \<Rightarrow> int \<Rightarrow> bytes \<Rightarrow> unit run" where
  "write_field F w s = seqR [abortIfClosed F ''write'', trapOnWrongDirection F ''write'' True,
     bindR (checkedWidth w) (\<lambda>n. emit F (pad_left n s)), trapOnStreamError F ''write'']"

definition bool_text :: "bool \<Rightarrow> bool \<Rightarrow> bytes" where
  "bool_text V Upper = (if Upper then (if V then ''TRUE'' else ''FALSE'') else (if V then ''true'' else ''false''))"

definition plang_write_file_i64 :: "nat \<Rightarrow> int \<Rightarrow> unit run" where "plang_write_file_i64 F V = write_iso F ''write'' (print_int V)"
definition plang_write_file_u64 :: "nat \<Rightarrow> int \<Rightarrow> unit run" where "plang_write_file_u64 F V = write_iso F ''write'' (print_int V)"
definition plang_write_file_bool :: "nat \<Rightarrow> bool \<Rightarrow> bool \<Rightarrow> unit run" where
  "plang_write_file_bool F V Upper = write_iso F ''write'' (bool_text V Upper)"
definition plang_write_file_char :: "nat \<Rightarrow> char \<Rightarrow> unit run" where "plang_write_file_char F c = write_iso F ''write'' [c]"
definition plang_write_file_str :: "nat \<Rightarrow> bytes \<Rightarrow> unit run" where "plang_write_file_str F s = write_iso F ''write'' s"
definition plang_write_file_i64_w :: "nat \<Rightarrow> int \<Rightarrow> int \<Rightarrow> unit run" where
  "plang_write_file_i64_w F V w = write_field F w (print_int V)"
definition plang_write_file_u64_w :: "nat \<Rightarrow> int \<Rightarrow> int \<Rightarrow> unit run" where
  "plang_write_file_u64_w F V w = write_field F w (print_int V)"

text \<open>A string in a field: cut to the field unless it must not be, whole when the width is negative.\<close>

definition writePadded :: "nat \<Rightarrow> bytes \<Rightarrow> int \<Rightarrow> bool \<Rightarrow> unit run" where
  "writePadded F s w NoTrunc =
     (if \<not> NoTrunc \<and> w = 0 then ret ()
      else seqR [trapOnWrongDirection F ''write'' True,
        (if w < 0 then emit F s
         else bindR (checkedWidth w) (\<lambda>n. emit F (replicate (nat n - length s) (CHR '' '') @ (if NoTrunc then s else take (nat n) s)))),
        trapOnStreamError F ''write''])"

definition plang_write_file_bool_w :: "nat \<Rightarrow> bool \<Rightarrow> int \<Rightarrow> bool \<Rightarrow> bool \<Rightarrow> unit run" where
  "plang_write_file_bool_w F V w Upper NoTrunc = seqR [abortIfClosed F ''write'', writePadded F (bool_text V Upper) w NoTrunc]"

definition plang_write_file_str_w :: "nat \<Rightarrow> bytes \<Rightarrow> int \<Rightarrow> bool \<Rightarrow> unit run" where
  "plang_write_file_str_w F s w NoTrunc = seqR [abortIfClosed F ''write'', writePadded F s w NoTrunc]"

definition plang_write_file_char_w :: "nat \<Rightarrow> char \<Rightarrow> int \<Rightarrow> bool \<Rightarrow> unit run" where
  "plang_write_file_char_w F c w AlwaysWrite = seqR [abortIfClosed F ''write'',
     whenR (\<not> (w = 0 \<and> \<not> AlwaysWrite)) (seqR [trapOnWrongDirection F ''write'' True,
       (if w < 0 then emit F [c] else bindR (checkedWidth w) (\<lambda>n. emit F (pad_left n [c]))), trapOnStreamError F ''write''])]"

definition plang_str_write_file :: "nat \<Rightarrow> bytes \<Rightarrow> unit run" where
  "plang_str_write_file F s = seqR [abortIfClosed F ''write'',
     whenR (s \<noteq> []) (seqR [trapOnWrongDirection F ''write'' True, emit F s, trapOnStreamError F ''write''])]"

definition plang_str_write_file_w :: "nat \<Rightarrow> bytes \<Rightarrow> int \<Rightarrow> unit run" where
  "plang_str_write_file_w F s w = seqR [abortIfClosed F ''write'', writePadded F s w False]"

subsection \<open>Direct access\<close>

definition seekOffset :: "int \<Rightarrow> int \<Rightarrow> int \<Rightarrow> int option" where
  "seekOffset N ElemSize IndexLow = (let Diff = N - IndexLow; Off = Diff * ElemSize in
     if Diff < INT64_MIN \<or> Diff > INT64_MAX then None else if Off < INT64_MIN \<or> Off > INT64_MAX then None else Some Off)"

definition seek_to :: "nat \<Rightarrow> bytes \<Rightarrow> int \<Rightarrow> int \<Rightarrow> int \<Rightarrow> unit run" where
  "seek_to F Opn N ElemSize IndexLow = bindR (abortIfClosed F Opn) (\<lambda>_ W. case (seekOffset N ElemSize IndexLow, Fp (Vars W F)) of
     (Some off, Some h) \<Rightarrow> (case fseek h off SEEK_SET W of (True, W1) \<Rightarrow> Inr ((), W1) | (False, W1) \<Rightarrow> Inl (err_seek_failed Opn N))
   | _ \<Rightarrow> Inl (err_seek_failed Opn N))"

definition plang_seekread :: "nat \<Rightarrow> int \<Rightarrow> int \<Rightarrow> int \<Rightarrow> unit run" where
  "plang_seekread F N ElemSize IndexLow = seqR [seek_to F ''SeekRead'' N ElemSize IndexLow,
     upd (setv F (Readable_update (\<lambda>_. 1))), upd (unloadComponent F), upd (prime F)]"

definition plang_seekwrite :: "nat \<Rightarrow> int \<Rightarrow> int \<Rightarrow> int \<Rightarrow> unit run" where
  "plang_seekwrite F N ElemSize IndexLow = seqR [seek_to F ''SeekWrite'' N ElemSize IndexLow, upd (facing F 0)]"

definition plang_seekupdate :: "nat \<Rightarrow> int \<Rightarrow> int \<Rightarrow> int \<Rightarrow> unit run" where
  "plang_seekupdate F N ElemSize IndexLow = seqR [seek_to F ''SeekUpdate'' N ElemSize IndexLow, upd (facing F 2)]"

definition plang_position :: "nat \<Rightarrow> int \<Rightarrow> int \<Rightarrow> int run" where
  "plang_position F ElemSize IndexLow = bindR (abortIfClosed F ''position'') (\<lambda>_ W.
     let pos = (case Fp (Vars W F) of None \<Rightarrow> - 1 | Some h \<Rightarrow> ftell h W) in
     Inr (if pos < 0 then IndexLow else IndexLow + (if ElemSize > 0 then pos div ElemSize else 0), W))"

text \<open>The end of the file in bytes, found by going there and back.\<close>

definition end_of :: "nat \<Rightarrow> rt \<Rightarrow> int \<times> rt" where
  "end_of F W = (case Fp (Vars W F) of None \<Rightarrow> (- 1, W) | Some h \<Rightarrow>
     let saved = ftell h W; W1 = snd (fseek h 0 SEEK_END W); e = ftell h W1;
         W2 = (if saved \<ge> 0 then snd (fseek h saved SEEK_SET W1) else W1) in (e, W2))"

definition plang_lastposition :: "nat \<Rightarrow> int \<Rightarrow> int \<Rightarrow> int run" where
  "plang_lastposition F ElemSize IndexLow = bindR (abortIfClosed F ''LastPosition'') (\<lambda>_. bindR (doR (end_of F)) (\<lambda>e.
     ret (if ElemSize \<le> 0 \<or> e \<le> 0 then IndexLow - 1 else IndexLow + e div ElemSize - 1)))"

definition plang_empty :: "nat \<Rightarrow> bool run" where
  "plang_empty F = bindR (abortIfClosed F ''empty'') (\<lambda>_. bindR (doR (end_of F)) (\<lambda>e. ret (e = 0)))"

end
