(* ===== verification/File_Props.thy ===== *)
theory File_Props
  imports File_Runtime
begin

text \<open>
  Files as sequences.  The standard describes a file by the components before and behind its position.  \<open>inspecting\<close> and
  \<open>generating\<close> relate the state of the runtime to that description, whatever the file is kept in; \<open>sequential_file\<close> is
  the interface a program that writes a file and reads it back relies on.
\<close>

subsection \<open>Programs that write a file and read it back\<close>

fun write_each :: "('b \<Rightarrow> 's \<Rightarrow> 'e + unit \<times> 's) \<Rightarrow> 'b list \<Rightarrow> 's \<Rightarrow> 'e + unit \<times> 's" where
  "write_each wr [] s = Inr ((), s)"
| "write_each wr (b # bs) s = (case wr b s of Inl e \<Rightarrow> Inl e | Inr (u, s') \<Rightarrow> write_each wr bs s')"

text \<open>\<^verbatim>\<open>while not eof(f) do read(f, x)\<close>, with at most \<open>k\<close> tests for the end.\<close>

fun read_until_end :: "nat \<Rightarrow> ('s \<Rightarrow> 'e + bool \<times> 's) \<Rightarrow> ('s \<Rightarrow> 'e + 'b \<times> 's) \<Rightarrow> 's \<Rightarrow> ('e + 'b list \<times> 's) option" where
  "read_until_end 0 fin rd s = None"
| "read_until_end (Suc k) fin rd s = (case fin s of
     Inl e \<Rightarrow> Some (Inl e)
   | Inr (True, s1) \<Rightarrow> Some (Inr ([], s1))
   | Inr (False, s1) \<Rightarrow> (case rd s1 of
       Inl e \<Rightarrow> Some (Inl e)
     | Inr (b, s2) \<Rightarrow> (case read_until_end k fin rd s2 of
         Some (Inr (bs, s3)) \<Rightarrow> Some (Inr (b # bs, s3)) | r \<Rightarrow> r)))"

locale sequential_file =
  fixes gen :: "'c list \<Rightarrow> 's \<Rightarrow> bool"
    and insp :: "'c list \<Rightarrow> 's \<Rightarrow> bool"
    and wr :: "'c \<Rightarrow> 's \<Rightarrow> 'e + unit \<times> 's"
    and reset :: "'s \<Rightarrow> 'e + unit \<times> 's"
    and rd :: "'s \<Rightarrow> 'e + 'c \<times> 's"
    and fin :: "'s \<Rightarrow> 'e + bool \<times> 's"
    and ok :: "'c \<Rightarrow> bool"
  assumes wr: "gen cs s \<Longrightarrow> ok c \<Longrightarrow> \<exists>s'. wr c s = Inr ((), s') \<and> gen (cs @ [c]) s'"
    and reset: "gen cs s \<Longrightarrow> \<exists>s'. reset s = Inr ((), s') \<and> insp cs s'"
    and rd: "insp (c # cs) s \<Longrightarrow> ok c \<Longrightarrow> \<exists>s'. rd s = Inr (c, s') \<and> insp cs s'"
    and fin: "insp cs s \<Longrightarrow> \<exists>s'. fin s = Inr (cs = [], s') \<and> insp cs s'"
begin

lemma write_each_gen: "gen cs s \<Longrightarrow> list_all ok ds \<Longrightarrow> \<exists>s'. write_each wr ds s = Inr ((), s') \<and> gen (cs @ ds) s'"
proof (induction ds arbitrary: cs s)
  case (Cons d ds)
  then obtain s1 where "wr d s = Inr ((), s1)" "gen (cs @ [d]) s1" using wr [of cs s d] by auto
  then show ?case using Cons.IH [of "cs @ [d]" s1] Cons.prems by auto
qed simp

lemma read_until_end_insp:
  "insp cs s \<Longrightarrow> list_all ok cs \<Longrightarrow> length cs < k \<Longrightarrow> \<exists>s'. read_until_end k fin rd s = Some (Inr (cs, s')) \<and> insp [] s'"
proof (induction cs arbitrary: s k)
  case Nil
  then obtain m where k: "k = Suc m" by (cases k) auto
  then show ?case using fin [OF Nil(1)] by auto
next
  case (Cons c cs)
  then obtain m where k: "k = Suc m" "length cs < m" by (cases k) auto
  obtain s1 where 1: "fin s = Inr (False, s1)" "insp (c # cs) s1" using fin [OF Cons.prems(1)] by auto
  then obtain s2 where 2: "rd s1 = Inr (c, s2)" "insp cs s2" using rd [of c cs s1] Cons.prems(2) by auto
  obtain s3 where "read_until_end m fin rd s2 = Some (Inr (cs, s3))" "insp [] s3" using Cons.IH [OF 2(2)] Cons.prems(2) k(2) by auto
  then show ?case using k(1) 1(1) 2(1) by auto
qed

theorem roundtrip:
  assumes "gen [] s" "list_all ok cs"
  shows "\<exists>s1 s2 s3. write_each wr cs s = Inr ((), s1) \<and> reset s1 = Inr ((), s2)
    \<and> read_until_end (Suc (length cs)) fin rd s2 = Some (Inr (cs, s3))"
proof -
  obtain s1 where 1: "write_each wr cs s = Inr ((), s1)" "gen cs s1" using write_each_gen [OF assms] by auto
  obtain s2 where 2: "reset s1 = Inr ((), s2)" "insp cs s2" using reset [OF 1(2)] by auto
  show ?thesis using 1(1) 2(1) read_until_end_insp [OF 2(2) assms(2), of "Suc (length cs)"] by auto
qed

end

subsection \<open>The state of a file variable\<close>

definition first :: "bytes \<Rightarrow> int" where
  "first r = (case r of [] \<Rightarrow> EOF | c # _ \<Rightarrow> int (code_of c))"

lemma first_simps [simp]: "first [] = EOF" "first (c # cs) = int (code_of c)"
  by (simp_all add: first_def)

lemma first_EOF [simp]: "first r = EOF \<longleftrightarrow> r = []" "EOF = first r \<longleftrightarrow> r = []"
  by (cases r; auto)+

lemma next_byte_first: "Contents W (SFile s) = l @ r \<Longrightarrow> SPos s = length l \<Longrightarrow> next_byte s W = first r"
  by (cases r) (auto simp: next_byte_def)

text \<open>The file of \<open>F\<close> is read: \<open>l\<close> is before its position and \<open>r\<close> behind it, and the window agrees.\<close>

definition inspecting :: "nat \<Rightarrow> bytes \<Rightarrow> bytes \<Rightarrow> rt \<Rightarrow> bool" where
  "inspecting F l r W \<longleftrightarrow> (\<exists>h s. Fp (Vars W F) = Some h \<and> Streams W h = Some s \<and> can_read (SMode s) \<and> SSeekable s
     \<and> Contents W (SFile s) = l @ r \<and> SPos s = length l \<and> Readable (Vars W F) \<noteq> 0
     \<and> (FBuf (Vars W F) = PlangFileUninit \<or> FBuf (Vars W F) = first r))"

text \<open>The file of \<open>F\<close> is written and holds \<open>xs\<close>; \<open>B\<close> is what it is attached to.\<close>

definition generating :: "nat \<Rightarrow> PlangBinding \<Rightarrow> bytes \<Rightarrow> rt \<Rightarrow> bool" where
  "generating F B xs W \<longleftrightarrow> (\<exists>h s. Fp (Vars W F) = Some h \<and> Streams W h = Some s \<and> SMode s = ModeWP \<and> SSeekable s
     \<and> Contents W (SFile s) = xs \<and> SPos s = length xs \<and> Readable (Vars W F) = 0 \<and> FBinding (Vars W F) = B)"

lemma uninit_not_byte [simp]: "first r \<noteq> PlangFileUninit" "PlangFileUninit \<noteq> first r"
  by (cases r; simp add: PlangFileUninit_def EOF_def)+

lemma write_at_end [simp]: "write_at xs (length xs) bs = xs @ bs"
  by (simp add: write_at_def)

lemma stream_upd [simp]:
  "s\<lparr>SErr := e, SPos := p\<rparr> = s\<lparr>SPos := p, SErr := e\<rparr>" "SPos s = p \<Longrightarrow> s\<lparr>SPos := p, SErr := e\<rparr> = s\<lparr>SErr := e\<rparr>"
  by (cases s; simp)+

lemma var_upd [simp]: "FBuf v = b \<Longrightarrow> v\<lparr>FBuf := b\<rparr> = v"
  by (cases v) simp

text \<open>Updates of a file variable in the order of its members.\<close>

lemma var_order [simp]:
  fixes v :: PascalFile
  shows "v\<lparr>CompSize := n, Comp := c\<rparr> = v\<lparr>Comp := c, CompSize := n\<rparr>" "v\<lparr>FBuf := b, Comp := c\<rparr> = v\<lparr>Comp := c, FBuf := b\<rparr>"
    "v\<lparr>FBuf := b, CompSize := n\<rparr> = v\<lparr>CompSize := n, FBuf := b\<rparr>" "v\<lparr>CompLoaded := l, Comp := c\<rparr> = v\<lparr>Comp := c, CompLoaded := l\<rparr>"
    "v\<lparr>CompLoaded := l, CompSize := n\<rparr> = v\<lparr>CompSize := n, CompLoaded := l\<rparr>"
    "v\<lparr>CompLoaded := l, FBuf := b\<rparr> = v\<lparr>FBuf := b, CompLoaded := l\<rparr>"
  by simp_all

lemmas world_defs = put_stream_def setv_def clearerr_def unloadComponent_def forget_window_def onFp_def

lemma not_wrong [simp]: "Readable v \<noteq> 0 \<Longrightarrow> \<not> wrong_direction v False" "Readable v \<noteq> 1 \<Longrightarrow> \<not> wrong_direction v True"
  by (auto simp: wrong_direction_def)

subsection \<open>A program before its first operation\<close>

text \<open>Standard input and output are open, nothing is bound and the file system is empty.\<close>

definition console :: "nat \<Rightarrow> fmode \<Rightarrow> stream" where
  "console i M = \<lparr>SFile = i, SPos = 0, SMode = M, SErr = False, SSeekable = False\<rparr>"

definition new_rt :: rt where
  "new_rt = \<lparr>Names = (\<lambda>_. None), Contents = (\<lambda>_. []), NextFile = 2,
     Streams = [stdin_stream \<mapsto> console 0 ModeR, stdout_stream \<mapsto> console 1 ModeW], NextStream = 2, Errno = 0, OpenRefused = (\<lambda>_ _. None),
     IsDirectory = (\<lambda>_. False), NoTemp = False, Vars = (\<lambda>_. new_var), WritePathTable = replicate PLANG_MAX_BINDINGS None,
     BindingTable = replicate PLANG_MAX_BINDINGS None, InOutRes = 0, TpFileMode = 2, OutOfMemory = False, 
     Crt = \<lparr>PlangInBuf = None, PlangInPos = 0, StdIn = [], StdOut = [], CapStack = [], CrtEsc = EscNormal, CrtCursorCol = 1, CrtCursorRow = 1\<rparr>\<rparr>"

lemma find_slot_none [simp]: "find_slot (replicate n None) F = None"
  by (induction n) (simp_all add: find_slot_def)

lemma new_rt_simps [simp]:
  "findBinding F new_rt = None" "findWritePath F new_rt = None" "Vars new_rt F = new_var" "\<not> NoTemp new_rt" "\<not> OutOfMemory new_rt"
  "InOutRes new_rt = 0" "Contents new_rt i = []"
  by (simp_all add: findBinding_def findWritePath_def new_rt_def)

text \<open>A state in which \<open>F\<close> is open on a file with the contents \<open>xs\<close>, at the position \<open>p\<close>.\<close>

definition open_rt :: "nat \<Rightarrow> fmode \<Rightarrow> int \<Rightarrow> bytes \<Rightarrow> nat \<Rightarrow> rt" where
  "open_rt F M dir xs p = setv F (\<lambda>v. v\<lparr>Fp := Some 2, Readable := dir\<rparr>)
     (new_rt\<lparr>Contents := (\<lambda>_. []) (2 := xs), Streams := [2 \<mapsto> \<lparr>SFile = 2, SPos = p, SMode = M, SErr = False, SSeekable = True\<rparr>]\<rparr>)"

subsection \<open>Components\<close>

lemma eof_inspecting: "inspecting F l r W \<Longrightarrow> \<exists>W'. plang_eof_file F W = Inr (r = [], W') \<and> inspecting F l r W'"
  apply (clarsimp simp: inspecting_def)
  subgoal for h s
    by (auto simp: plang_eof_file_def bindR_def abortIfClosed_def world_defs ensurePrimed_def prime_stream next_byte_first)
  done

lemma read_binary_inspecting:
  assumes "inspecting F l (b @ r) W" "length b = nat n" "0 < n"
  shows "\<exists>W'. plang_read_binary F n W = Inr (b, W') \<and> inspecting F (l @ b) r W'"
proof -
  obtain h s where "Fp (Vars W F) = Some h" "Streams W h = Some s" "can_read (SMode s)" "SSeekable s"
    "Contents W (SFile s) = l @ b @ r" "SPos s = length l" "Readable (Vars W F) \<noteq> 0"
    using assms(1) by (auto simp: inspecting_def)
  then show ?thesis using assms(2,3)
    by (simp add: inspecting_def plang_read_binary_def bindR_def abortIfClosed_def trapOnWrongDirection_def fread_def trapOnStreamError_def
        stream_failed_def ferror_def world_defs prime_stream next_byte_first [where l = "l @ b" and r = r])
qed

lemma write_binary_generating:
  assumes "generating F B xs W"
  shows "\<exists>W'. plang_write_binary F b W = Inr ((), W') \<and> generating F B (xs @ b) W' \<and> BindingTable W' = BindingTable W"
proof -
  obtain h s where "Fp (Vars W F) = Some h" "Streams W h = Some s" "SMode s = ModeWP" "SSeekable s"
    "Contents W (SFile s) = xs" "SPos s = length xs" "Readable (Vars W F) = 0" "FBinding (Vars W F) = B"
    using assms(1) by (auto simp: generating_def)
  then show ?thesis
    by (cases "b = []")
       (simp_all add: generating_def plang_write_binary_def bindR_def abortIfClosed_def trapOnWrongDirection_def emit_def fputs_def fwrite_def can_write_def
         trapOnStreamError_def stream_failed_def ferror_def world_defs)
qed

lemma reset_internal:
  assumes "generating F PlangBindTemp xs W" "findBinding F W = None"
  shows "\<exists>W'. plang_reset F [] False W = Inr ((), W') \<and> inspecting F [] xs W'"
proof -
  obtain h s where "Fp (Vars W F) = Some h" "Streams W h = Some s" "SMode s = ModeWP" "SSeekable s"
    "Contents W (SFile s) = xs" "FBinding (Vars W F) = PlangBindTemp"
    using assms(1) by (auto simp: generating_def)
  then show ?thesis using assms(2)
    by (simp add: inspecting_def plang_reset_def bindR_def effective_name_def rewind_def fseek_def can_read_def
        world_defs prime_stream next_byte_first [where l = "[]" and r = xs])
qed

lemma rewrite_internal:
  assumes "findBinding F W = None" "FBinding (Vars W F) \<noteq> PlangBindStd" "\<not> NoTemp W"
  shows "\<exists>W'. plang_rewrite F [] False W = Inr ((), W') \<and> generating F PlangBindTemp [] W' \<and> BindingTable W' = BindingTable W"
  using assms
  by (simp add: generating_def plang_rewrite_def bindR_def effective_name_def openTemp_def tmpfile_def new_file_def new_stream_def
      clearWritePath_def facing_def closeStream_def fclose_def findBinding_def world_defs Let_def split: option.splits)

definition internal_gen :: "nat \<Rightarrow> nat \<Rightarrow> bytes list \<Rightarrow> rt \<Rightarrow> bool" where
  "internal_gen F n cs W \<longleftrightarrow> generating F PlangBindTemp (concat cs) W \<and> findBinding F W = None \<and> (\<forall>c\<in>set cs. length c = n)"

definition rest_of :: "nat \<Rightarrow> nat \<Rightarrow> bytes list \<Rightarrow> rt \<Rightarrow> bool" where
  "rest_of F n cs W \<longleftrightarrow> (\<exists>l. inspecting F l (concat cs) W) \<and> (\<forall>c\<in>set cs. length c = n)"

interpretation internal: sequential_file "internal_gen F (Suc m)" "rest_of F (Suc m)" "plang_write_binary F" "plang_reset F [] False"
    "plang_read_binary F (int (Suc m))" "plang_eof_file F" "\<lambda>c. length c = Suc m" for F m
proof
  show "\<exists>W'. plang_write_binary F c W = Inr ((), W') \<and> internal_gen F (Suc m) (cs @ [c]) W'"
    if "internal_gen F (Suc m) cs W" "length c = Suc m" for cs W c
    using that write_binary_generating [of F PlangBindTemp "concat cs" W c] by (auto simp: internal_gen_def findBinding_def)
  show "\<exists>W'. plang_reset F [] False W = Inr ((), W') \<and> rest_of F (Suc m) cs W'" if "internal_gen F (Suc m) cs W" for cs W
    using that reset_internal [of F "concat cs" W] by (auto simp: internal_gen_def rest_of_def)
  show "\<exists>W'. plang_read_binary F (int (Suc m)) W = Inr (c, W') \<and> rest_of F (Suc m) cs W'"
    if R: "rest_of F (Suc m) (c # cs) W" and c: "length c = Suc m" for c cs W
  proof -
    obtain l where "inspecting F l (c @ concat cs) W" using R by (auto simp: rest_of_def)
    from read_binary_inspecting [OF this, of "int (Suc m)"] obtain W' where
      "plang_read_binary F (int (Suc m)) W = Inr (c, W')" "inspecting F (l @ c) (concat cs) W'" using c by (auto simp del: of_nat_Suc)
    then show ?thesis using R by (auto simp: rest_of_def)
  qed
  show "\<exists>W'. plang_eof_file F W = Inr (cs = [], W') \<and> rest_of F (Suc m) cs W'" if R: "rest_of F (Suc m) cs W" for cs W
  proof -
    obtain l where "inspecting F l (concat cs) W" using R by (auto simp: rest_of_def)
    moreover have "concat cs = [] \<longleftrightarrow> cs = []" using R by (cases cs) (auto simp: rest_of_def)
    ultimately show ?thesis using eof_inspecting [of F l "concat cs" W] R by (auto simp: rest_of_def)
  qed
qed

text \<open>C9. A file keeps what is written to it.  Whatever components of one size a program writes to an internal file after
  \<^verbatim>\<open>rewrite\<close>, after \<^verbatim>\<open>reset\<close> the loop \<^verbatim>\<open>while not eof(f) do read(f, x)\<close> reads exactly them and ends behind the last.\<close>

theorem internal_file_roundtrip:
  assumes "findBinding F W = None" "FBinding (Vars W F) \<noteq> PlangBindStd" "\<not> NoTemp W" "0 < n" "\<forall>c\<in>set cs. length c = n"
  shows "\<exists>W1 W2 W3 W4. plang_rewrite F [] False W = Inr ((), W1) \<and> write_each (plang_write_binary F) cs W1 = Inr ((), W2)
    \<and> plang_reset F [] False W2 = Inr ((), W3)
    \<and> read_until_end (Suc (length cs)) (plang_eof_file F) (plang_read_binary F (int n)) W3 = Some (Inr (cs, W4))"
proof -
  obtain m where n: "n = Suc m" using assms(4) by (cases n) auto
  obtain W1 where 1: "plang_rewrite F [] False W = Inr ((), W1)" "generating F PlangBindTemp [] W1" "BindingTable W1 = BindingTable W"
    using rewrite_internal [OF assms(1-3)] by auto
  then have "internal_gen F (Suc m) [] W1" using assms(1) by (simp add: internal_gen_def findBinding_def)
  from internal.roundtrip [OF this, of cs] show ?thesis using 1(1) assms(5) n by (auto simp: list_all_iff)
qed

theorem internal_file_roundtrip_witness:
  "\<exists>W1 W2 W3 W4. plang_rewrite 7 [] False new_rt = Inr ((), W1) \<and> write_each (plang_write_binary 7) [''ab'', ''cd'', ''ab''] W1 = Inr ((), W2)
    \<and> plang_reset 7 [] False W2 = Inr ((), W3)
    \<and> read_until_end 4 (plang_eof_file 7) (plang_read_binary 7 2) W3 = Some (Inr ([''ab'', ''cd'', ''ab''], W4))"
  using internal_file_roundtrip [of 7 new_rt 2 "[''ab'', ''cd'', ''ab'']"] by (simp add: new_var_def eval_nat_numeral)

subsection \<open>The buffer variable\<close>

lemma setv_setv: "setv F f (setv F g W) = setv F (\<lambda>v. f (g v)) W"
  by (simp add: setv_def)

lemma inspectingE:
  assumes "inspecting F l r W"
  obtains h s where "Fp (Vars W F) = Some h" "Streams W h = Some s" "can_read (SMode s)" "SSeekable s"
    "Contents W (SFile s) = l @ r" "SPos s = length l" "Readable (Vars W F) \<noteq> 0"
    "FBuf (Vars W F) = PlangFileUninit \<or> FBuf (Vars W F) = first r"
  using assms by (auto simp: inspecting_def)

lemma read_binary_world:
  assumes "Fp (Vars W F) = Some h" "Streams W h = Some s" "can_read (SMode s)" "Contents W (SFile s) = l @ b @ r" "SPos s = length l"
    "Readable (Vars W F) \<noteq> 0" "length b = nat n" "0 < n"
  shows "plang_read_binary F n W = Inr (b, setv F (\<lambda>v. v\<lparr>FBuf := first r, CompLoaded := False\<rparr>)
    (put_stream h (s\<lparr>SPos := length l + nat n, SErr := False\<rparr>) W))"
  using assms
  by (simp add: plang_read_binary_def bindR_def abortIfClosed_def trapOnWrongDirection_def fread_def trapOnStreamError_def
      stream_failed_def ferror_def world_defs prime_stream next_byte_first [where l = "l @ b" and r = r])

lemma ensurePrimed_world:
  assumes "Fp (Vars W F) = Some h" "Streams W h = Some s" "can_read (SMode s)" "Contents W (SFile s) = l @ r" "SPos s = length l"
    "Readable (Vars W F) \<noteq> 0" "FBuf (Vars W F) = PlangFileUninit \<or> FBuf (Vars W F) = first r"
  shows "ensurePrimed F W = setv F (FBuf_update (\<lambda>_. first r)) W"
  using assms by (auto simp: ensurePrimed_def prime_stream next_byte_first setv_def Let_def)

lemma load_record_world:
  assumes "Fp (Vars W F) = Some h" "Streams W h = Some s" "can_read (SMode s)" "SSeekable s" "Contents W (SFile s) = l @ b @ r" "SPos s = length l"
    "length b = nat n" "0 < n"
  shows "load_record F n W = setv F (\<lambda>v. v\<lparr>Comp := Some b, FBuf := first (b @ r)\<rparr>) (put_stream h (s\<lparr>SErr := False\<rparr>) W)"
  using assms
  by (simp add: load_record_def ftell_def fread_def set_comp_def fseek_def world_defs prime_stream Let_def
      next_byte_first [where l = l and r = "b @ r"])

lemma load_byte_world:
  assumes "FBuf (Vars W F) = first (b @ r)" "length b = 1"
  shows "load_byte F False W = setv F (Comp_update (\<lambda>_. Some b)) W"
  using assms by (cases b) (auto simp: load_byte_def set_comp_def Let_def)

lemma load_component_world:
  assumes W: "Fp (Vars W F) = Some h" "Streams W h = Some s" "can_read (SMode s)" "SSeekable s" "Contents W (SFile s) = l @ b @ r"
    "SPos s = length l" "Readable (Vars W F) \<noteq> 0" "FBuf (Vars W F) = PlangFileUninit \<or> FBuf (Vars W F) = first (b @ r)"
    and b: "length b = nat n" "0 < n" and e: "\<not> SErr s"
  shows "load_component F n False W = setv F (\<lambda>v. v\<lparr>Comp := Some b, FBuf := first (b @ r), CompLoaded := True\<rparr>) W"
proof -
  let ?W1 = "set_comp F (zeros n) W" and ?W2 = "setv F (\<lambda>v. v\<lparr>Comp := Some (zeros n), FBuf := first (b @ r)\<rparr>) W"
  have 2: "ensurePrimed F ?W1 = ?W2"
    using ensurePrimed_world [where W = "?W1" and F = F and h = h and s = s and l = l and r = "b @ r"] W by (simp add: set_comp_def setv_def)
  have 3: "(if n = 1 then load_byte F False ?W2 else load_record F n ?W2) = setv F (\<lambda>v. v\<lparr>Comp := Some b, FBuf := first (b @ r)\<rparr>) W"
  proof (cases "n = 1")
    case True
    then show ?thesis using load_byte_world [where W = ?W2 and b = b and r = r and F = F] b by (simp add: setv_def)
  next
    case False
    have "load_record F n ?W2 = setv F (\<lambda>v. v\<lparr>Comp := Some b, FBuf := first (b @ r)\<rparr>) (put_stream h (s\<lparr>SErr := False\<rparr>) ?W2)"
      by (rule load_record_world [where l = l]) (use W b in \<open>simp_all add: setv_def\<close>)
    moreover have "put_stream h (s\<lparr>SErr := False\<rparr>) ?W2 = ?W2" using W(2) e by (intro put_same) (simp add: setv_def)
    ultimately show ?thesis using False by (simp add: setv_def)
  qed
  have r: "Readable (Vars ?W1 F) \<noteq> 0" using W(7) by (simp add: set_comp_def setv_def)
  show ?thesis unfolding load_component_def Let_def 2 3 if_P [OF r] by (simp add: setv_def)
qed

lemma file_buffer_world:
  assumes W: "Fp (Vars W F) = Some h" "Streams W h = Some s" "can_read (SMode s)" "SSeekable s" "Contents W (SFile s) = l @ b @ r"
    "SPos s = length l" "Readable (Vars W F) \<noteq> 0" "FBuf (Vars W F) = PlangFileUninit \<or> FBuf (Vars W F) = first (b @ r)"
    and b: "length b = nat n" "0 < n" and c: "\<not> CompLoaded (Vars W F)" "\<not> OutOfMemory W"
  shows "plang_file_buffer F n False W = Inr ((), setv F (\<lambda>v. v\<lparr>Comp := Some b, CompSize := n, CompLoaded := True, FBuf := first (b @ r)\<rparr>)
    (put_stream h (s\<lparr>SErr := False\<rparr>) W))"
proof -
  let ?s = "s\<lparr>SErr := False\<rparr>"
  define V where "V = (if CompSize (Vars W F) \<noteq> n then setv F (\<lambda>v. v\<lparr>Comp := Some (zeros n), CompSize := n, CompLoaded := False\<rparr>)
    (put_stream h ?s W) else put_stream h ?s W)"
  have "plang_file_buffer F n False W = Inr ((), load_component F n False V)"
    using W(1,2) b(2) c by (simp add: plang_file_buffer_def bindR_def abortIfClosed_def clearerr_def V_def put_stream_def setv_def Let_def)
  also have "load_component F n False V = setv F (\<lambda>v. v\<lparr>Comp := Some b, FBuf := first (b @ r), CompLoaded := True\<rparr>) V"
    by (rule load_component_world [where s = ?s and l = l]) (use W b in \<open>auto simp: V_def put_stream_def setv_def\<close>)
  also have "\<dots> = setv F (\<lambda>v. v\<lparr>Comp := Some b, CompSize := n, CompLoaded := True, FBuf := first (b @ r)\<rparr>) (put_stream h ?s W)"
    by (auto simp: V_def setv_def put_stream_def)
  finally show ?thesis .
qed

lemma get_file_world:
  assumes "Fp (Vars W F) = Some h" "Streams W h = Some s" "can_read (SMode s)" "SSeekable s" "Contents W (SFile s) = l @ b @ r" "SPos s = length l"
    "length b = nat n" "0 < n"
  shows "plang_get_file F n W = Inr ((), setv F (\<lambda>v. v\<lparr>FBuf := first r, CompLoaded := False\<rparr>)
    (put_stream h (s\<lparr>SPos := length l + nat n, SErr := False\<rparr>) W))"
proof (cases "n = 1")
  case True
  then obtain c where "b = [c]" using assms(7) by (cases b) auto
  then show ?thesis using assms True
    by (simp add: plang_get_file_def bindR_def abortIfClosed_def world_defs Let_def
      advanceF_stream [where h = h and s = "s\<lparr>SErr := False\<rparr>"] next_byte_first [where l = "l @ b" and r = r])
next
  case False
  then show ?thesis using assms
    by (simp add: plang_get_file_def bindR_def abortIfClosed_def world_defs fseek_def prime_stream nat_add_distrib add.commute
      next_byte_first [where l = "l @ b" and r = r] Let_def)
qed

text \<open>C14. \<^verbatim>\<open>read(f, x)\<close> is what the standard defines it to be, \<^verbatim>\<open>x := f^; get(f)\<close>: looking at the buffer variable gives the
  component that is read, without moving the file, and after \<^verbatim>\<open>get\<close> the state is the one after the read, but for the storage
  of the buffer variable itself.\<close>

theorem read_is_buffer_and_get:
  assumes "inspecting F l (b @ r) W" "length b = nat n" "0 < n" "\<not> CompLoaded (Vars W F)" "\<not> OutOfMemory W"
  shows "\<exists>W1 W2 W3. plang_file_buffer F n False W = Inr ((), W1) \<and> component F W1 = b \<and> inspecting F l (b @ r) W1
    \<and> plang_get_file F n W1 = Inr ((), W2) \<and> plang_read_binary F n W = Inr (b, W3)
    \<and> W3 = setv F (\<lambda>v. v\<lparr>Comp := Comp (Vars W F), CompSize := CompSize (Vars W F)\<rparr>) W2"
proof -
  obtain h s where W: "Fp (Vars W F) = Some h" "Streams W h = Some s" "can_read (SMode s)" "SSeekable s"
    "Contents W (SFile s) = l @ b @ r" "SPos s = length l" "Readable (Vars W F) \<noteq> 0"
    "FBuf (Vars W F) = PlangFileUninit \<or> FBuf (Vars W F) = first (b @ r)"
    using assms(1) by (rule inspectingE)
  let ?s = "s\<lparr>SErr := False\<rparr>"
  let ?W1 = "setv F (\<lambda>v. v\<lparr>Comp := Some b, CompSize := n, CompLoaded := True, FBuf := first (b @ r)\<rparr>) (put_stream h ?s W)"
  have "plang_file_buffer F n False W = Inr ((), ?W1)" by (rule file_buffer_world [OF W assms(2-5)])
  moreover have "component F ?W1 = b" "inspecting F l (b @ r) ?W1" using W by (simp_all add: component_def inspecting_def world_defs)
  moreover have "plang_get_file F n ?W1 = Inr ((), setv F (\<lambda>v. v\<lparr>FBuf := first r, CompLoaded := False\<rparr>)
    (put_stream h (?s\<lparr>SPos := length l + nat n, SErr := False\<rparr>) ?W1))"
    by (rule get_file_world) (use W assms(2,3) in \<open>simp_all add: world_defs\<close>)
  ultimately show ?thesis using read_binary_world [OF W(1-3,5-7) assms(2,3)] assms(4) by (simp add: world_defs)
qed

theorem read_is_buffer_and_get_witness:
  "\<exists>W1 W2 W3. plang_file_buffer 7 2 False (open_rt 7 ModeR 1 ''abcdef'' 2) = Inr ((), W1) \<and> component 7 W1 = ''cd''
    \<and> plang_get_file 7 2 W1 = Inr ((), W2) \<and> plang_read_binary 7 2 (open_rt 7 ModeR 1 ''abcdef'' 2) = Inr (''cd'', W3)"
proof -
  have "inspecting 7 ''ab'' (''cd'' @ ''ef'') (open_rt 7 ModeR 1 ''abcdef'' 2)"
    by (simp add: inspecting_def open_rt_def setv_def new_var_def can_read_def)
  moreover have "\<not> CompLoaded (Vars (open_rt 7 ModeR 1 ''abcdef'' 2) 7)" "\<not> OutOfMemory (open_rt 7 ModeR 1 ''abcdef'' 2)"
    by (simp_all add: open_rt_def setv_def new_var_def)
  ultimately show ?thesis using read_is_buffer_and_get [of 7 "''ab''" "''cd''" "''ef''" "open_rt 7 ModeR 1 ''abcdef'' 2" 2] by auto
qed

text \<open>The file of \<open>F\<close> is open for update: both directions, at the same position.\<close>

definition updating :: "nat \<Rightarrow> bytes \<Rightarrow> bytes \<Rightarrow> rt \<Rightarrow> bool" where
  "updating F l r W \<longleftrightarrow> inspecting F l r W \<and> Readable (Vars W F) = 2
     \<and> (\<forall>h s. Fp (Vars W F) = Some h \<longrightarrow> Streams W h = Some s \<longrightarrow> SMode s = ModeRP)"

lemma write_over: "length x = length b \<Longrightarrow> write_at (l @ b) (length l) x = l @ x"
  by (simp add: write_at_def)

lemma put_file_world:
  assumes "Fp (Vars W F) = Some h" "Streams W h = Some s" "SMode s = ModeRP" "Contents W (SFile s) = l @ b" "SPos s = length l"
    "Readable (Vars W F) = 2" "Comp (Vars W F) = Some x" "length x = nat n" "length b = nat n" "0 < n"
  shows "plang_put_file F n W = Inr ((), setv F (CompLoaded_update (\<lambda>_. False))
    (put_stream h (s\<lparr>SPos := length l + nat n, SErr := False\<rparr>) (W\<lparr>Contents := (Contents W)(SFile s := l @ x)\<rparr>)))"
  using assms
  by (auto simp: plang_put_file_def bindR_def abortIfClosed_def trapOnWrongDirection_def emit_def fputs_def fwrite_def can_write_def
      trapOnStreamError_def stream_failed_def ferror_def world_defs write_over)

lemma write_binary_world:
  assumes "Fp (Vars W F) = Some h" "Streams W h = Some s" "SMode s = ModeRP" "Contents W (SFile s) = l @ b" "SPos s = length l"
    "Readable (Vars W F) = 2" "length x = nat n" "length b = nat n" "0 < n"
  shows "plang_write_binary F x W = Inr ((), setv F (\<lambda>v. v\<lparr>FBuf := PlangFileUninit, CompLoaded := False\<rparr>)
    (put_stream h (s\<lparr>SPos := length l + nat n, SErr := False\<rparr>) (W\<lparr>Contents := (Contents W)(SFile s := l @ x)\<rparr>)))"
  using assms
  by (auto simp: plang_write_binary_def bindR_def abortIfClosed_def trapOnWrongDirection_def emit_def fputs_def fwrite_def can_write_def
      trapOnStreamError_def stream_failed_def ferror_def world_defs write_over)

text \<open>C36. In a file that is updated, \<^verbatim>\<open>put\<close> leaves the window on the component it has overwritten.  Replacing the last component
  through the buffer variable and by \<^verbatim>\<open>write\<close> leaves the same file at the same position, its end, but after \<^verbatim>\<open>put\<close> the runtime
  denies that the end is reached.\<close>

theorem put_leaves_stale_window:
  assumes "updating F l b W" "length b = nat n" "length x = nat n" "0 < n" "\<not> CompLoaded (Vars W F)" "\<not> OutOfMemory W"
  shows "\<exists>W1 W2 W3 W4 W5. plang_file_buffer F n False W = Inr ((), W1) \<and> plang_put_file F n (set_comp F x W1) = Inr ((), W2)
    \<and> plang_write_binary F x W = Inr ((), W3) \<and> Contents W2 = Contents W3 \<and> Streams W2 = Streams W3
    \<and> plang_eof_file F W2 = Inr (False, W4) \<and> plang_eof_file F W3 = Inr (True, W5)"
proof -
  obtain h s where W: "Fp (Vars W F) = Some h" "Streams W h = Some s" "can_read (SMode s)" "SSeekable s"
    "Contents W (SFile s) = l @ b" "SPos s = length l" "Readable (Vars W F) \<noteq> 0"
    "FBuf (Vars W F) = PlangFileUninit \<or> FBuf (Vars W F) = first b"
    using assms(1) unfolding updating_def by (auto elim: inspectingE)
  have m: "SMode s = ModeRP" "Readable (Vars W F) = 2" using assms(1) W(1,2) by (auto simp: updating_def)
  let ?s = "s\<lparr>SErr := False\<rparr>" and ?e = "s\<lparr>SPos := length l + nat n, SErr := False\<rparr>"
  let ?W1 = "setv F (\<lambda>v. v\<lparr>Comp := Some b, CompSize := n, CompLoaded := True, FBuf := first b\<rparr>) (put_stream h ?s W)"
  let ?W2 = "setv F (CompLoaded_update (\<lambda>_. False)) (put_stream h (?s\<lparr>SPos := length l + nat n, SErr := False\<rparr>)
    ((set_comp F x ?W1)\<lparr>Contents := (Contents W)(SFile s := l @ x)\<rparr>))"
  let ?W3 = "setv F (\<lambda>v. v\<lparr>FBuf := PlangFileUninit, CompLoaded := False\<rparr>) (put_stream h ?e (W\<lparr>Contents := (Contents W)(SFile s := l @ x)\<rparr>))"
  have 1: "plang_file_buffer F n False W = Inr ((), ?W1)"
    using file_buffer_world [where l = l and r = "[]" and b = b and n = n, OF W(1-4)] W assms by simp
  have 2: "plang_put_file F n (set_comp F x ?W1) = Inr ((), ?W2)"
    using put_file_world [where W = "set_comp F x ?W1" and h = h and s = ?s and l = l and b = b and n = n and F = F and x = x] W m assms
    by (simp add: set_comp_def setv_def put_stream_def)
  have 3: "plang_write_binary F x W = Inr ((), ?W3)"
    using write_binary_world [where l = l and b = b and n = n] W m assms by simp
  have "b \<noteq> []" using assms(2,4) by auto
  then have 4: "\<exists>W4. plang_eof_file F ?W2 = Inr (False, W4)"
    using W m by (simp add: plang_eof_file_def bindR_def abortIfClosed_def ensurePrimed_def world_defs set_comp_def)
  have "inspecting F (l @ x) [] ?W3" using W m assms(3) by (simp add: inspecting_def world_defs)
  then have 5: "\<exists>W5. plang_eof_file F ?W3 = Inr (True, W5)" using eof_inspecting [of F "l @ x" "[]"] by auto
  have 6: "Contents ?W2 = Contents ?W3" "Streams ?W2 = Streams ?W3" by (simp_all add: world_defs set_comp_def)
  show ?thesis using 1 2 3 4 5 6 by blast
qed

theorem put_leaves_stale_window_witness:
  "\<exists>W1 W2 W3 W4 W5. plang_file_buffer 7 2 False (open_rt 7 ModeRP 2 ''abcd'' 2) = Inr ((), W1)
    \<and> plang_put_file 7 2 (set_comp 7 ''xy'' W1) = Inr ((), W2) \<and> plang_write_binary 7 ''xy'' (open_rt 7 ModeRP 2 ''abcd'' 2) = Inr ((), W3)
    \<and> Contents W2 = Contents W3 \<and> plang_eof_file 7 W2 = Inr (False, W4) \<and> plang_eof_file 7 W3 = Inr (True, W5)"
proof -
  have "updating 7 ''ab'' ''cd'' (open_rt 7 ModeRP 2 ''abcd'' 2)"
    by (simp add: updating_def inspecting_def open_rt_def setv_def new_var_def can_read_def)
  moreover have "\<not> CompLoaded (Vars (open_rt 7 ModeRP 2 ''abcd'' 2) 7)" "\<not> OutOfMemory (open_rt 7 ModeRP 2 ''abcd'' 2)"
    by (simp_all add: open_rt_def setv_def new_var_def)
  ultimately show ?thesis using put_leaves_stale_window [of 7 "''ab''" "''cd''" "open_rt 7 ModeRP 2 ''abcd'' 2" 2 "''xy''"] by auto
qed

subsection \<open>Text\<close>

lemma byte_EOF_simps [simp]: "int (code_of c) \<noteq> PlangFileUninit"
  by (simp add: PlangFileUninit_def)

lemma stream_check_ok: "Fp (Vars W F) = Some h \<Longrightarrow> Streams W h = Some s \<Longrightarrow> \<not> SErr s \<Longrightarrow> stream_check k F W = Inr ((), W)"
  by (cases k) (simp_all add: trapOnStreamError_def tpTrapOnStreamError_def stream_failed_def ferror_def)

lemma read_while_run:
  assumes "Fp (Vars W F) = Some h" "Streams W h = Some s" "can_read (SMode s)" "\<not> SErr s" "Contents W (SFile s) = l @ xs @ r"
    "SPos s = length l" "FBuf (Vars W F) = first (xs @ r)" "\<forall>c\<in>set xs. p (int (code_of c))" "r = [] \<or> \<not> p (first r)"
  shows "read_while k p F acc W = Inr (acc @ map (\<lambda>c. int (code_of c)) xs,
    setv F (FBuf_update (\<lambda>_. first r)) (put_stream h (s\<lparr>SPos := length l + length xs\<rparr>) W))"
  using assms
proof (induction xs arbitrary: l s W acc)
  case Nil
  moreover have "put_stream h (s\<lparr>SPos := length l\<rparr>) W = W" using Nil by (intro put_same) (cases s; simp)
  ultimately show ?case by (subst read_while.simps) (auto simp: setv_def)
next
  case (Cons c xs)
  let ?s = "s\<lparr>SPos := Suc (length l)\<rparr>"
  let ?W = "setv F (FBuf_update (\<lambda>_. first (xs @ r))) (put_stream h ?s W)"
  have a: "advanceF F W = (int (code_of c), ?W)"
    using Cons.prems advanceF_stream [of W F h s] next_byte_first [of W ?s "l @ [c]" "xs @ r"] by (simp add: Let_def)
  have k: "stream_check k F ?W = Inr ((), ?W)" using Cons.prems by (intro stream_check_ok [where h = h and s = ?s]) (simp_all add: setv_def put_stream_def)
  have u: "read_while k p F acc W = read_while k p F (acc @ [int (code_of c)]) ?W"
    using Cons.prems by (subst read_while.simps) (simp add: a k)
  have "read_while k p F (acc @ [int (code_of c)]) ?W = Inr ((acc @ [int (code_of c)]) @ map (\<lambda>c. int (code_of c)) xs,
    setv F (FBuf_update (\<lambda>_. first r)) (put_stream h (?s\<lparr>SPos := length (l @ [c]) + length xs\<rparr>) ?W))"
    by (rule Cons.IH) (use Cons.prems in \<open>simp_all add: setv_def put_stream_def\<close>)
  then show ?case unfolding u by (simp add: setv_def put_stream_def)
qed

lemma as_bytes_codes [simp]: "as_bytes (map (\<lambda>c. int (code_of c)) xs) = xs"
  by (induction xs) (simp_all add: as_bytes_def)

lemma newline_code: "code_of c = 10 \<longleftrightarrow> c = CHR 0x0A"
proof -
  have "code_of (CHR 0x0A) = 10" by code_simp
  then show ?thesis by (metis code_of_inject)
qed

lemma read_line_world:
  assumes W: "Fp (Vars W F) = Some h" "Streams W h = Some s" "can_read (SMode s)" "Contents W (SFile s) = l @ xs @ r" "SPos s = length l"
    "Readable (Vars W F) \<noteq> 0" "FBuf (Vars W F) = PlangFileUninit \<or> FBuf (Vars W F) = first (xs @ r)"
    and xs: "CHR 0x0A \<notin> set xs" "r = [] \<or> hd r = CHR 0x0A"
  shows "read_line F W = Inr (xs, setv F (FBuf_update (\<lambda>_. first r)) (put_stream h (s\<lparr>SPos := length l + length xs, SErr := False\<rparr>) W))"
proof -
  let ?s = "s\<lparr>SErr := False\<rparr>"
  let ?W = "put_stream h ?s W"
  let ?W' = "setv F (FBuf_update (\<lambda>_. first (xs @ r))) ?W"
  have a: "abortIfClosed F ''read'' W = Inr ((), ?W)" using W by (simp add: abortIfClosed_def clearerr_def)
  have b: "ensurePrimed F ?W = ?W'"
    by (rule ensurePrimed_world [where h = h and s = ?s and l = l]) (use W in \<open>simp_all add: put_stream_def\<close>)
  have x: "\<forall>c\<in>set xs. int (code_of c) \<noteq> 10" using xs(1) by (auto simp: newline_code)
  have y: "r = [] \<or> \<not> first r \<noteq> 10" using xs(2) by (cases r) (auto simp: newline_code)
  have "read_while IsoCheck (\<lambda>b. b \<noteq> 10) F [] ?W' = Inr ([] @ map (\<lambda>c. int (code_of c)) xs,
    setv F (FBuf_update (\<lambda>_. first r)) (put_stream h (?s\<lparr>SPos := length l + length xs\<rparr>) ?W'))"
    by (rule read_while_run [where l = l, OF _ _ _ _ _ _ _ x y]) (use W in \<open>simp_all add: setv_def put_stream_def\<close>)
  then show ?thesis using W by (simp add: read_line_def bindR_def a b [unfolded put_stream_def setv_def] trapOnWrongDirection_def put_stream_def setv_def)
qed

text \<open>C37. Reading a string leaves the buffer variable as it was.  After \<^verbatim>\<open>read(f, s)\<close> the file stands at the end of the line,
  but when \<^verbatim>\<open>f^\<close> was looked at before, it still holds the character it held then.\<close>

theorem string_read_keeps_component:
  assumes "inspecting F l (xs @ r) W" "CHR 0x0A \<notin> set xs" "r = [] \<or> hd r = CHR 0x0A"
    and "CompLoaded (Vars W F)" "CompSize (Vars W F) = 1" "Comp (Vars W F) = Some c"
  shows "\<exists>W1 W2. plang_str_read_file F Cap W = Inr (take (nat Cap) xs, W1) \<and> inspecting F (l @ xs) r W1
    \<and> plang_file_buffer F 1 True W1 = Inr ((), W2) \<and> component F W2 = c"
proof -
  obtain h s where W: "Fp (Vars W F) = Some h" "Streams W h = Some s" "can_read (SMode s)" "SSeekable s"
    "Contents W (SFile s) = l @ xs @ r" "SPos s = length l" "Readable (Vars W F) \<noteq> 0"
    "FBuf (Vars W F) = PlangFileUninit \<or> FBuf (Vars W F) = first (xs @ r)"
    using assms(1) by (rule inspectingE)
  let ?W = "setv F (FBuf_update (\<lambda>_. first r)) (put_stream h (s\<lparr>SPos := length l + length xs, SErr := False\<rparr>) W)"
  have "plang_str_read_file F Cap W = Inr (take (nat Cap) xs, ?W)"
    using read_line_world [OF W(1-3,5-8) assms(2,3)] by (simp add: plang_str_read_file_def bindR_def)
  moreover have "inspecting F (l @ xs) r ?W" using W by (simp add: inspecting_def setv_def put_stream_def)
  moreover have "\<exists>W2. plang_file_buffer F 1 True ?W = Inr ((), W2) \<and> component F W2 = c"
    using W assms by (simp add: plang_file_buffer_def bindR_def abortIfClosed_def component_def world_defs Let_def)
  ultimately show ?thesis by blast
qed

theorem string_read_keeps_component_witness:
  "\<exists>W1 W2. plang_str_read_file 7 80 (setv 7 (\<lambda>v. v\<lparr>Comp := Some ''a'', CompSize := 1, CompLoaded := True\<rparr>) (open_rt 7 ModeR 1 ''abc'' 0))
      = Inr (''abc'', W1) \<and> inspecting 7 ''abc'' [] W1 \<and> plang_file_buffer 7 1 True W1 = Inr ((), W2) \<and> component 7 W2 = ''a''"
proof -
  let ?W = "setv 7 (\<lambda>v. v\<lparr>Comp := Some ''a'', CompSize := 1, CompLoaded := True\<rparr>) (open_rt 7 ModeR 1 ''abc'' 0)"
  have "inspecting 7 [] (''abc'' @ []) ?W" by (simp add: inspecting_def open_rt_def setv_def new_var_def can_read_def)
  moreover have "CompLoaded (Vars ?W 7)" "CompSize (Vars ?W 7) = 1" "Comp (Vars ?W 7) = Some ''a''" by (simp_all add: setv_def)
  ultimately show ?thesis using string_read_keeps_component [of 7 "[]" "''abc''" "[]" ?W "''a''" 80] by (simp add: eval_nat_numeral)
qed

text \<open>A line is written and read.\<close>

definition write_line :: "nat \<Rightarrow> bytes \<Rightarrow> unit run" where
  "write_line F s = seqR [plang_write_file_str F s, plang_writeln_file F]"

definition take_line :: "nat \<Rightarrow> int \<Rightarrow> bytes run" where
  "take_line F Cap = bindR (plang_str_read_file F Cap) (\<lambda>s. bindR (plang_readln_file F) (\<lambda>_. ret s))"

lemma read_while_stop: "FBuf (Vars W F) = EOF \<or> \<not> p (FBuf (Vars W F)) \<Longrightarrow> read_while k p F acc W = Inr (acc, W)"
  by (subst read_while.simps) auto

lemma take_line_inspecting:
  assumes "inspecting F l (xs @ CHR 0x0A # r) W" "CHR 0x0A \<notin> set xs" "length xs \<le> nat Cap"
  shows "\<exists>W'. take_line F Cap W = Inr (xs, W') \<and> inspecting F (l @ xs @ [CHR 0x0A]) r W'"
proof -
  obtain h s where W: "Fp (Vars W F) = Some h" "Streams W h = Some s" "can_read (SMode s)" "SSeekable s"
    "Contents W (SFile s) = l @ xs @ CHR 0x0A # r" "SPos s = length l" "Readable (Vars W F) \<noteq> 0"
    "FBuf (Vars W F) = PlangFileUninit \<or> FBuf (Vars W F) = first (xs @ CHR 0x0A # r)"
    using assms(1) by (rule inspectingE)
  let ?s = "s\<lparr>SPos := length l + length xs, SErr := False\<rparr>"
  let ?W = "setv F (FBuf_update (\<lambda>_. first (CHR 0x0A # r))) (put_stream h ?s W)"
  have c: "code_of (CHR 0x0A) = 10" by (simp add: newline_code)
  have 1: "plang_str_read_file F Cap W = Inr (xs, ?W)"
    using read_line_world [OF W(1-3,5-8) assms(2)] assms(3) by (simp add: plang_str_read_file_def bindR_def)
  have e: "ensurePrimed F ?W = ?W" by (simp add: ensurePrimed_def setv_def put_stream_def Let_def)
  have k: "abortIfClosed F ''readln'' ?W = Inr ((), ?W)"
    using W by (simp add: abortIfClosed_def clearerr_def setv_def put_stream_def)
  have a: "advanceF F ?W = (10, setv F (FBuf_update (\<lambda>_. first r)) (put_stream h (?s\<lparr>SPos := Suc (length l + length xs)\<rparr>) ?W))"
    using W c advanceF_stream [of ?W F h ?s] next_byte_first [of ?W "?s\<lparr>SPos := Suc (length l + length xs)\<rparr>" "l @ xs @ [CHR 0x0A]" r]
    by (simp add: setv_def put_stream_def Let_def)
  have b: "FBuf (Vars ?W F) = 10" using c by (simp add: setv_def put_stream_def)
  have 2: "plang_readln_file F ?W = Inr ((), unloadComponent F (snd (advanceF F ?W)))"
    unfolding plang_readln_file_def using k e b by (simp add: bindR_def read_while_stop)
  have "inspecting F (l @ xs @ [CHR 0x0A]) r (unloadComponent F (snd (advanceF F ?W)))"
    unfolding a using W by (simp add: inspecting_def world_defs)
  then show ?thesis using 1 2 by (simp add: take_line_def bindR_def)
qed

lemma write_iso_generating:
  assumes "generating F B xs W"
  shows "\<exists>W'. write_iso F Opn b W = Inr ((), W') \<and> generating F B (xs @ b) W' \<and> BindingTable W' = BindingTable W
    \<and> WritePathTable W' = WritePathTable W"
proof -
  obtain h s where "Fp (Vars W F) = Some h" "Streams W h = Some s" "SMode s = ModeWP" "SSeekable s"
    "Contents W (SFile s) = xs" "SPos s = length xs" "Readable (Vars W F) = 0" "FBinding (Vars W F) = B"
    using assms(1) by (auto simp: generating_def)
  then show ?thesis
    by (cases "b = []")
       (simp_all add: generating_def write_iso_def bindR_def abortIfClosed_def trapOnWrongDirection_def emit_def fputs_def fwrite_def can_write_def
         trapOnStreamError_def stream_failed_def ferror_def world_defs)
qed

text \<open>A text that ends in the middle of a line gets a line marker when it is closed.\<close>

definition closed_text :: "bytes \<Rightarrow> bytes" where
  "closed_text xs = (if xs = [] \<or> last xs = CHR 0x0A then xs else xs @ [CHR 0x0A])"

lemma ends_open_code: "ends_open (int (code_of c)) \<longleftrightarrow> c \<noteq> CHR 0x0A"
  by (auto simp: ends_open_def newline_code)

lemma closeFinalLine_internal:
  assumes "generating F B xs W" "findWritePath F W = None"
  shows "generating F B (closed_text xs) (closeFinalLine F W) \<and> BindingTable (closeFinalLine F W) = BindingTable W"
proof -
  obtain h s where W: "Fp (Vars W F) = Some h" "Streams W h = Some s" "SMode s = ModeWP" "SSeekable s"
    "Contents W (SFile s) = xs" "SPos s = length xs" "Readable (Vars W F) = 0" "FBinding (Vars W F) = B"
    using assms(1) by (auto simp: generating_def)
  show ?thesis
  proof (cases xs rule: rev_cases)
    case Nil
    then show ?thesis using W assms(1) by (simp add: closeFinalLine_def ftell_def closed_text_def)
  next
    case (snoc ys c)
    let ?W = "put_stream h (s\<lparr>SPos := length ys\<rparr>) W"
    have f: "fseek h (- 1) SEEK_CUR W = (True, ?W)" using W snoc by (simp add: fseek_def Let_def)
    have g: "fgetc h ?W = (int (code_of c), put_stream h (s\<lparr>SPos := Suc (length ys)\<rparr>) ?W)"
      using W snoc by (subst fgetc_stream [where s = "s\<lparr>SPos := length ys\<rparr>"]) (simp_all add: put_stream_def can_read_def)
    show ?thesis using W snoc assms(2) f g
      by (auto simp: closeFinalLine_def ftell_def closed_text_def ends_open_code fputs_def fwrite_def can_write_def clearerr_def put_stream_def
          generating_def write_at_end [where xs = "ys @ [c]", simplified])
  qed
qed

lemma reset_internal_text:
  assumes "generating F PlangBindTemp xs W" "findBinding F W = None" "findWritePath F W = None"
  shows "\<exists>W'. plang_reset F [] True W = Inr ((), W') \<and> inspecting F [] (closed_text xs) W'"
proof -
  have g: "generating F PlangBindTemp (closed_text xs) (closeFinalLine F W)" "findBinding F (closeFinalLine F W) = None"
    using closeFinalLine_internal [OF assms(1,3)] assms(2) by (auto simp: findBinding_def)
  have "plang_reset F [] True W = plang_reset F [] False (closeFinalLine F W)" by (simp add: plang_reset_def)
  then show ?thesis using reset_internal [OF g] by simp
qed

lemma find_slot_clear: "find_slot (clear_slots F t) F = None"
proof -
  have "List.find (\<lambda>s. case s of Some (G, p) \<Rightarrow> G = F | None \<Rightarrow> False) (clear_slots F t) = None"
    by (auto simp: find_None_iff clear_slots_def split: option.splits prod.splits if_splits)
  then show ?thesis by (simp add: find_slot_def)
qed

lemma rewrite_internal_text:
  assumes "findBinding F W = None" "FBinding (Vars W F) \<noteq> PlangBindStd" "\<not> NoTemp W" "Fp (Vars W F) = None"
  shows "\<exists>W'. plang_rewrite F [] True W = Inr ((), W') \<and> generating F PlangBindTemp [] W' \<and> BindingTable W' = BindingTable W
    \<and> findWritePath F W' = None"
  using assms
  by (simp add: generating_def plang_rewrite_def bindR_def effective_name_def openTemp_def tmpfile_def new_file_def new_stream_def
      clearWritePath_def facing_def closeStream_def fclose_def findBinding_def findWritePath_def closeFinalLine_def world_defs Let_def find_slot_clear)

definition text_of :: "bytes list \<Rightarrow> bytes" where
  "text_of cs = concat (map (\<lambda>c. c @ [CHR 0x0A]) cs)"

lemma text_of_simps [simp]: "text_of [] = []" "text_of (c # cs) = c @ CHR 0x0A # text_of cs" "text_of (cs @ ds) = text_of cs @ text_of ds"
  by (simp_all add: text_of_def)

lemma text_of_Nil [simp]: "text_of cs = [] \<longleftrightarrow> cs = []"
  by (cases cs) auto

lemma closed_text_of [simp]: "closed_text (text_of cs) = text_of cs"
  by (cases cs rule: rev_cases) (auto simp: closed_text_def)

definition text_gen :: "nat \<Rightarrow> bytes list \<Rightarrow> rt \<Rightarrow> bool" where
  "text_gen F cs W \<longleftrightarrow> generating F PlangBindTemp (text_of cs) W \<and> findBinding F W = None \<and> findWritePath F W = None"

definition text_rest :: "nat \<Rightarrow> bytes list \<Rightarrow> rt \<Rightarrow> bool" where
  "text_rest F cs W \<longleftrightarrow> (\<exists>l. inspecting F l (text_of cs) W)"

lemma write_text:
  assumes "generating F B xs W" "findBinding F W = None" "findWritePath F W = None"
  shows "\<exists>W'. write_iso F Opn b W = Inr ((), W') \<and> generating F B (xs @ b) W' \<and> findBinding F W' = None \<and> findWritePath F W' = None"
  using write_iso_generating [OF assms(1), of Opn b] assms(2,3) by (auto simp: findBinding_def findWritePath_def)

definition is_line :: "int \<Rightarrow> bytes \<Rightarrow> bool" where
  "is_line Cap c \<longleftrightarrow> CHR 0x0A \<notin> set c \<and> length c \<le> nat Cap"

interpretation text_lines: sequential_file "text_gen F" "text_rest F" "write_line F" "plang_reset F [] True" "take_line F Cap" "plang_eof_file F"
    "is_line Cap" for F Cap
proof
  show "\<exists>W'. write_line F c W = Inr ((), W') \<and> text_gen F (cs @ [c]) W'" if T: "text_gen F cs W" for cs W c
  proof -
    obtain W1 where 1: "write_iso F ''write'' c W = Inr ((), W1)" "generating F PlangBindTemp (text_of cs @ c) W1"
      "findBinding F W1 = None" "findWritePath F W1 = None" using write_text T unfolding text_gen_def by blast
    then obtain W2 where "write_iso F ''writeln'' [CHR 0x0A] W1 = Inr ((), W2)" "generating F PlangBindTemp ((text_of cs @ c) @ [CHR 0x0A]) W2"
      "findBinding F W2 = None" "findWritePath F W2 = None" using write_text by blast
    then show ?thesis using 1 by (simp add: write_line_def plang_write_file_str_def plang_writeln_file_def bindR_def text_gen_def)
  qed
  show "\<exists>W'. plang_reset F [] True W = Inr ((), W') \<and> text_rest F cs W'" if "text_gen F cs W" for cs W
    using reset_internal_text [of F "text_of cs" W] that by (auto simp: text_gen_def text_rest_def)
  show "\<exists>W'. take_line F Cap W = Inr (c, W') \<and> text_rest F cs W'" if T: "text_rest F (c # cs) W" and c: "is_line Cap c" for c cs W
  proof -
    obtain l where "inspecting F l (c @ CHR 0x0A # text_of cs) W" using T by (auto simp: text_rest_def)
    from take_line_inspecting [OF this, of Cap] obtain W' where
      "take_line F Cap W = Inr (c, W')" "inspecting F (l @ c @ [CHR 0x0A]) (text_of cs) W'" using c by (auto simp: is_line_def)
    then show ?thesis by (auto simp: text_rest_def)
  qed
  show "\<exists>W'. plang_eof_file F W = Inr (cs = [], W') \<and> text_rest F cs W'" if T: "text_rest F cs W" for cs W
  proof -
    obtain l where "inspecting F l (text_of cs) W" using T by (auto simp: text_rest_def)
    from eof_inspecting [OF this] show ?thesis by (auto simp: text_rest_def)
  qed
qed

text \<open>C10. A text file keeps its lines.  What a program writes to an internal text file line by line, with a last line that
  it does not end, comes back line by line, the unfinished line included.\<close>

theorem text_file_roundtrip:
  assumes "findBinding F W = None" "FBinding (Vars W F) \<noteq> PlangBindStd" "\<not> NoTemp W" "Fp (Vars W F) = None"
    and "\<forall>c\<in>set cs. is_line Cap c" "is_line Cap tail"
  shows "\<exists>W1 W2 W3 W4 W5. plang_rewrite F [] True W = Inr ((), W1) \<and> write_each (write_line F) cs W1 = Inr ((), W2)
    \<and> plang_write_file_str F tail W2 = Inr ((), W3) \<and> plang_reset F [] True W3 = Inr ((), W4)
    \<and> read_until_end (length cs + 2) (plang_eof_file F) (take_line F Cap) W4 = Some (Inr (cs @ (if tail = [] then [] else [tail]), W5))"
proof -
  let ?cs = "cs @ (if tail = [] then [] else [tail])"
  obtain W1 where 1: "plang_rewrite F [] True W = Inr ((), W1)" "text_gen F [] W1"
    using rewrite_internal_text [OF assms(1-4)] assms(1) by (auto simp: text_gen_def findBinding_def)
  obtain W2 where 2: "write_each (write_line F) cs W1 = Inr ((), W2)" "text_gen F cs W2"
    using text_lines.write_each_gen [OF 1(2), of Cap cs] assms(5) by (auto simp: list_all_iff)
  obtain W3 where 3: "plang_write_file_str F tail W2 = Inr ((), W3)" "generating F PlangBindTemp (text_of cs @ tail) W3"
    "findBinding F W3 = None" "findWritePath F W3 = None"
    using write_text [of F PlangBindTemp "text_of cs" W2] 2(2) unfolding text_gen_def plang_write_file_str_def by blast
  obtain W4 where 4: "plang_reset F [] True W3 = Inr ((), W4)" "inspecting F [] (closed_text (text_of cs @ tail)) W4"
    using reset_internal_text [OF 3(2-4)] by auto
  have "closed_text (text_of cs @ tail) = text_of ?cs"
  proof (cases "tail = []")
    case False
    then have "last tail \<noteq> CHR 0x0A" using assms(6) last_in_set [OF False] unfolding is_line_def by metis
    then show ?thesis using False by (simp add: closed_text_def)
  qed simp
  then have "text_rest F ?cs W4" using 4(2) by (auto simp: text_rest_def)
  moreover have "list_all (is_line Cap) ?cs" using assms(5,6) by (auto simp: list_all_iff)
  ultimately show ?thesis using text_lines.read_until_end_insp [of F ?cs W4 Cap "length cs + 2"] 1(1) 2(1) 3(1) 4(1) by auto
qed

theorem text_file_roundtrip_witness:
  "\<exists>W1 W2 W3 W4 W5. plang_rewrite 7 [] True new_rt = Inr ((), W1) \<and> write_each (write_line 7) [''one'', [], ''two''] W1 = Inr ((), W2)
    \<and> plang_write_file_str 7 ''three'' W2 = Inr ((), W3) \<and> plang_reset 7 [] True W3 = Inr ((), W4)
    \<and> read_until_end 5 (plang_eof_file 7) (take_line 7 80) W4 = Some (Inr ([''one'', [], ''two'', ''three''], W5))"
  using text_file_roundtrip [of 7 new_rt "[''one'', [], ''two'']" 80 "''three''"]
  by (simp add: new_var_def is_line_def eval_nat_numeral)

end
