(* ===== verification/File_Numbers.thy ===== *)
theory File_Numbers
  imports File_Props Literals
begin

text \<open>Integers in text files: what is written in any field width is read back.\<close>

subsection \<open>Reading at a primed window\<close>

definition primed_at :: "nat \<Rightarrow> bytes \<Rightarrow> bytes \<Rightarrow> rt \<Rightarrow> bool" where
  "primed_at F l r W \<longleftrightarrow> (\<exists>h s. Fp (Vars W F) = Some h \<and> Streams W h = Some s \<and> can_read (SMode s) \<and> SSeekable s
     \<and> Contents W (SFile s) = l @ r \<and> SPos s = length l \<and> Readable (Vars W F) \<noteq> 0 \<and> FBuf (Vars W F) = first r \<and> \<not> SErr s)"

lemma primed_inspecting: "primed_at F l r W \<Longrightarrow> inspecting F l r (unloadComponent F W)"
  by (auto simp: primed_at_def inspecting_def unloadComponent_def setv_def)

lemma primed_check: "primed_at F l r W \<Longrightarrow> trapOnStreamError F Opn W = Inr ((), W)"
  by (auto simp: primed_at_def trapOnStreamError_def stream_failed_def ferror_def)

lemma primed_buf: "primed_at F l r W \<Longrightarrow> FBuf (Vars W F) = first r"
  by (auto simp: primed_at_def)

lemma start_primed:
  assumes "inspecting F l r W"
  shows "\<exists>W1. abortIfClosed F Opn W = Inr ((), W1) \<and> trapOnWrongDirection F Opn False W1 = Inr ((), W1)
    \<and> primed_at F l r (if FBuf (Vars W1 F) = PlangFileUninit then prime F W1 else W1)"
  using assms
proof (rule inspectingE)
  fix h s
  assume W: "Fp (Vars W F) = Some h" "Streams W h = Some s" "can_read (SMode s)" "SSeekable s" "Contents W (SFile s) = l @ r"
    "SPos s = length l" "Readable (Vars W F) \<noteq> 0" "FBuf (Vars W F) = PlangFileUninit \<or> FBuf (Vars W F) = first r"
  let ?W = "put_stream h (s\<lparr>SErr := False\<rparr>) W"
  have p: "prime F ?W = setv F (FBuf_update (\<lambda>_. first r)) ?W"
    using W by (simp add: prime_stream [where h = h and s = "s\<lparr>SErr := False\<rparr>"] put_stream_def next_byte_first [where l = l])
  have "primed_at F l r (if FBuf (Vars ?W F) = PlangFileUninit then prime F ?W else ?W)"
    unfolding p using W by (auto simp: primed_at_def put_stream_def setv_def)
  moreover have "abortIfClosed F Opn W = Inr ((), ?W)" "trapOnWrongDirection F Opn False ?W = Inr ((), ?W)"
    using W by (simp_all add: abortIfClosed_def clearerr_def trapOnWrongDirection_def put_stream_def)
  ultimately show ?thesis by blast
qed

lemma primed_while:
  assumes "primed_at F l (xs @ r) W" "\<forall>c\<in>set xs. p (int (code_of c))" "r = [] \<or> \<not> p (first r)"
  shows "\<exists>W'. read_while k p F acc W = Inr (acc @ map (\<lambda>c. int (code_of c)) xs, W') \<and> primed_at F (l @ xs) r W'"
proof -
  obtain h s where W: "Fp (Vars W F) = Some h" "Streams W h = Some s" "can_read (SMode s)" "SSeekable s" "Contents W (SFile s) = l @ xs @ r"
    "SPos s = length l" "Readable (Vars W F) \<noteq> 0" "FBuf (Vars W F) = first (xs @ r)" "\<not> SErr s"
    using assms(1) by (auto simp: primed_at_def)
  have "primed_at F (l @ xs) r (setv F (FBuf_update (\<lambda>_. first r)) (put_stream h (s\<lparr>SPos := length l + length xs\<rparr>) W))"
    using W by (simp add: primed_at_def setv_def put_stream_def)
  then show ?thesis using read_while_run [OF W(1-3,9,5,6,8) assms(2,3)] by blast
qed

lemma primed_take:
  assumes "primed_at F l (xs @ r) W" "xs = [c] \<and> p (int (code_of c)) \<or> xs = [] \<and> \<not> p (first r)"
  shows "\<exists>W'. take_byte F p W = Inr (map (\<lambda>c. int (code_of c)) xs, W') \<and> primed_at F (l @ xs) r W'"
proof (cases "xs = []")
  case True
  then show ?thesis using assms by (simp add: take_byte_def primed_buf)
next
  case False
  then have xs: "xs = [c]" "p (int (code_of c))" using assms(2) by auto
  obtain h s where W: "Fp (Vars W F) = Some h" "Streams W h = Some s" "can_read (SMode s)" "SSeekable s" "Contents W (SFile s) = l @ c # r"
    "SPos s = length l" "Readable (Vars W F) \<noteq> 0" "FBuf (Vars W F) = int (code_of c)" "\<not> SErr s"
    using assms(1) xs(1) by (auto simp: primed_at_def)
  let ?s = "s\<lparr>SPos := Suc (length l)\<rparr>"
  let ?W = "setv F (FBuf_update (\<lambda>_. first r)) (put_stream h ?s W)"
  have a: "advanceF F W = (int (code_of c), ?W)"
    using W advanceF_stream [of W F h s] next_byte_first [of W ?s "l @ [c]" r] by (simp add: Let_def)
  have p: "primed_at F (l @ xs) r ?W" using W xs(1) by (simp add: primed_at_def setv_def put_stream_def)
  then show ?thesis using a W(8) xs primed_check [OF p] by (simp add: take_byte_def bindR_def)
qed

subsection \<open>The text of an integer\<close>

definition sign_text :: "int \<Rightarrow> bytes" where "sign_text v = (if v < 0 then ''-'' else [])"

lemma print_int_split: "print_int v = sign_text v @ dec_digits (nat \<bar>v\<bar>)"
  by (simp add: print_int_def sign_text_def)

lemma dec_digits_nonempty [simp]: "dec_digits n \<noteq> []" "[] \<noteq> dec_digits n"
  by (subst dec_digits.simps; simp)+

lemma digit_of_10: "isdigit c \<Longrightarrow> digit_of 10 c"
  by (auto simp: digit_of_def alnum_val_def cclass)

lemma digits_value_decimal: "list_all isdigit ds \<Longrightarrow> digits_value 10 ds v = num_value 10 digit_val ds v"
  by (induction ds arbitrary: v) (simp_all add: alnum_val_def digit_val_def)

lemma dec_digits_all: "list_all isdigit (dec_digits n)"
  by (simp add: list_all_iff dec_digits_digits)

lemma strto_parse_print_int: "strto_parse 10 (print_int v) = Some (v < 0, \<bar>v\<bar>, [])"
proof -
  let ?ds = "dec_digits (nat \<bar>v\<bar>)"
  obtain d e where ds: "?ds = d # e" by (cases ?ds) auto
  have d: "isdigit d" using dec_digits_all [of "nat \<bar>v\<bar>"] ds by simp
  have m: "\<not> isspace (CHR ''-'')" "\<not> isdigit (CHR ''-'')" "\<not> isdigit (CHR ''+'')" by code_simp+
  then have n: "\<not> isspace d" "d \<noteq> CHR ''-''" "d \<noteq> CHR ''+''" using d by (auto simp: cclass)
  have t: "takeWhile (digit_of 10) ?ds = ?ds" "dropWhile (digit_of 10) ?ds = []"
    using dec_digits_all [of "nat \<bar>v\<bar>"] by (auto simp: list_all_iff digit_of_10)
  have v: "digits_value 10 ?ds 0 = \<bar>v\<bar>" by (simp add: digits_value_decimal dec_digits_all dec_digits_value)
  have x: "skip_0x 10 ?ds = ?ds" by (simp add: skip_0x_def split: list.splits)
  show ?thesis using m(1) n ds t v x unfolding print_int_split
    by (cases "v < 0") (simp_all add: strto_parse_def sign_text_def Let_def del: takeWhile_eq_all_conv)
qed

lemma strtoll_print_int: "in64 v \<Longrightarrow> strtoll 10 (print_int v) = (v, [], False)"
  by (simp add: strtoll_def strto_parse_print_int in64_def Let_def)

lemma print_int_nonempty [simp]: "print_int v \<noteq> []" "[] \<noteq> print_int v"
  using dec_digits_nonempty [of "nat v"] by (auto simp: print_int_def)

subsection \<open>Scanning it\<close>

lemma digit_byte: "is_digit_byte (int (code_of c)) \<longleftrightarrow> isdigit c"
  by (auto simp: is_digit_byte_def isdigit_def)

lemma scan_print_int:
  assumes "inspecting F l (bl @ print_int v @ r) W" "\<forall>c\<in>set bl. is_blank (int (code_of c))" "r = [] \<or> \<not> is_digit_byte (first r)"
  shows "\<exists>W1 W2. abortIfClosed F Opn W = Inr ((), W1) \<and> trapOnWrongDirection F Opn False W1 = Inr ((), W1)
    \<and> scanNumberFile F False W1 = Inr ((print_int v, True), W2) \<and> primed_at F (l @ bl @ print_int v) r W2"
proof -
  let ?ds = "dec_digits (nat \<bar>v\<bar>)"
  obtain d e where ds: "?ds = d # e" by (cases ?ds) auto
  have d: "isdigit d" using dec_digits_all [of "nat \<bar>v\<bar>"] ds by simp
  have m: "int (code_of (CHR ''-'')) = 45" by code_simp
  have f: "\<not> is_blank (first (print_int v @ r))" "first (print_int v @ r) \<noteq> EOF" "\<not> is_sign (first (?ds @ r))"
    using d ds m by (auto simp: print_int_split sign_text_def is_blank_def is_sign_def isdigit_def)
  obtain W1 where 1: "abortIfClosed F Opn W = Inr ((), W1)" "trapOnWrongDirection F Opn False W1 = Inr ((), W1)"
    "primed_at F l (bl @ print_int v @ r) (if FBuf (Vars W1 F) = PlangFileUninit then prime F W1 else W1)" (is "primed_at F l _ ?W1")
    using start_primed [OF assms(1)] by blast
  obtain W2 where 2: "read_while IsoCheck is_blank F [] ?W1 = Inr ([] @ map (\<lambda>c. int (code_of c)) bl, W2)" "primed_at F (l @ bl) (print_int v @ r) W2"
    using primed_while [OF 1(3) assms(2)] f(1) by blast
  have s: "sign_text v = [CHR ''-''] \<and> is_sign (int (code_of (CHR ''-''))) \<or> sign_text v = [] \<and> \<not> is_sign (first (?ds @ r))"
    using f(3) m by (simp add: sign_text_def is_sign_def)
  obtain W3 where 3: "take_byte F is_sign W2 = Inr (map (\<lambda>c. int (code_of c)) (sign_text v), W3)" "primed_at F ((l @ bl) @ sign_text v) (?ds @ r) W3"
    using primed_take [of F "l @ bl" "sign_text v" "?ds @ r" W2, OF _ s] 2(2) by (auto simp: print_int_split)
  have g: "\<forall>c\<in>set ?ds. is_digit_byte (int (code_of c))" using dec_digits_digits by (auto simp: digit_byte)
  obtain W4 where 4: "read_while IsoCheck is_digit_byte F [] W3 = Inr ([] @ map (\<lambda>c. int (code_of c)) ?ds, W4)"
    "primed_at F (((l @ bl) @ sign_text v) @ ?ds) r W4" using primed_while [OF 3(2) g assms(3)] by blast
  have "skipBlanksFile F W1 = Inr ((), W2)" using 2(1) primed_check [OF 1(3)] by (simp add: skipBlanksFile_def bindR_def)
  then have "scanNumberFile F False W1 = Inr ((as_bytes (map (\<lambda>c. int (code_of c)) (print_int v)), True), W4)"
    using 3(1) 4(1) f(2) primed_buf [OF 2(2)] by (simp add: scanNumberFile_def bindR_def print_int_split)
  then have "scanNumberFile F False W1 = Inr ((print_int v, True), W4)" by (simp only: as_bytes_codes)
  moreover have "primed_at F (l @ bl @ print_int v) r W4" using 4(2) by (simp add: print_int_split)
  ultimately show ?thesis using 1(1,2) by blast
qed

lemma read_print_int:
  assumes "inspecting F l (bl @ print_int v @ r) W" "\<forall>c\<in>set bl. is_blank (int (code_of c))" "r = [] \<or> \<not> is_digit_byte (first r)" "in64 v"
  shows "\<exists>W'. plang_read_file_i64 F W = Inr (v, W') \<and> inspecting F (l @ bl @ print_int v) r W'"
proof -
  obtain W1 W2 where W: "abortIfClosed F ''read'' W = Inr ((), W1)" "trapOnWrongDirection F ''read'' False W1 = Inr ((), W1)"
    "scanNumberFile F False W1 = Inr ((print_int v, True), W2)" "primed_at F (l @ bl @ print_int v) r W2"
    using scan_print_int [OF assms(1-3)] by blast
  have "plang_read_file_i64 F W = Inr (v, unloadComponent F W2)"
    using W(1-3) strtoll_print_int [OF assms(4)] by (simp add: plang_read_file_i64_def read_number_def bindR_def)
  then show ?thesis using primed_inspecting [OF W(4)] by blast
qed

subsection \<open>Numbers line by line\<close>

fun read_many :: "nat \<Rightarrow> ('s \<Rightarrow> 'e + 'b \<times> 's) \<Rightarrow> 's \<Rightarrow> 'e + 'b list \<times> 's" where
  "read_many 0 rd s = Inr ([], s)"
| "read_many (Suc k) rd s = (case rd s of Inl e \<Rightarrow> Inl e | Inr (b, s1) \<Rightarrow>
     (case read_many k rd s1 of Inl e \<Rightarrow> Inl e | Inr (bs, s2) \<Rightarrow> Inr (b # bs, s2)))"

text \<open>\<^verbatim>\<open>writeln(f, v : w)\<close>.\<close>

definition write_number :: "nat \<Rightarrow> int \<times> int \<Rightarrow> unit run" where
  "write_number F = (\<lambda>(v, w). seqR [plang_write_file_i64_w F v w, plang_writeln_file F])"

definition field :: "int \<times> int \<Rightarrow> bytes" where
  "field = (\<lambda>(v, w). pad_left (noPadIfNegative w) (print_int v))"

lemma write_number_line: "w \<le> INT32_MAX \<Longrightarrow> write_number F (v, w) = write_line F (field (v, w))"
proof -
  assume "w \<le> INT32_MAX"
  then have "checkedWidth w = ret (noPadIfNegative w)" by (auto simp: checkedWidth_def noPadIfNegative_def INT32_MAX_def)
  then show ?thesis
    by (simp add: write_number_def write_line_def plang_write_file_i64_w_def write_field_def plang_write_file_str_def write_iso_def field_def)
qed

lemma write_each_lines:
  "\<forall>(v, w)\<in>set ps. w \<le> INT32_MAX \<Longrightarrow> write_each (write_number F) ps W = write_each (write_line F) (map field ps) W"
  by (induction ps arbitrary: W) (auto simp: write_number_line split: sum.splits)

lemma field_no_newline: "CHR 0x0A \<notin> set (field p)"
proof -
  have "\<not> isdigit (CHR 0x0A)" by code_simp
  then have "CHR 0x0A \<notin> set (dec_digits n)" for n using dec_digits_digits by blast
  then show ?thesis by (cases p) (auto simp: field_def pad_left_def print_int_def)
qed

lemma read_numbers:
  "inspecting F l (bl @ text_of (map field ps)) W \<Longrightarrow> \<forall>c\<in>set bl. is_blank (int (code_of c)) \<Longrightarrow> \<forall>(v, w)\<in>set ps. in64 v \<Longrightarrow>
   \<exists>W'. read_many (length ps) (plang_read_file_i64 F) W = Inr (map fst ps, W')"
proof (induction ps arbitrary: l bl W)
  case (Cons p ps)
  obtain v w where p: "p = (v, w)" by force
  let ?pad = "replicate (nat (noPadIfNegative w) - length (print_int v)) (CHR '' '')"
  let ?r = "CHR 0x0A # text_of (map field ps)"
  have n: "is_blank (int (code_of (CHR 0x0A)))" "is_blank (int (code_of (CHR '' '')))" "\<not> is_digit_byte (int (code_of (CHR 0x0A)))" by code_simp+
  have "inspecting F l ((bl @ ?pad) @ print_int v @ ?r) W" using Cons.prems(1) p by (simp add: field_def pad_left_def)
  moreover have "\<forall>c\<in>set (bl @ ?pad). is_blank (int (code_of c))" using Cons.prems(2) n by auto
  moreover have "?r = [] \<or> \<not> is_digit_byte (first ?r)" using n by simp
  moreover have "in64 v" using Cons.prems(3) p by simp
  ultimately obtain W1 where 1: "plang_read_file_i64 F W = Inr (v, W1)" "inspecting F (l @ (bl @ ?pad) @ print_int v) ?r W1"
    using read_print_int by blast
  have "inspecting F (l @ (bl @ ?pad) @ print_int v) ([CHR 0x0A] @ text_of (map field ps)) W1" using 1(2) by simp
  from Cons.IH [OF this] obtain W2 where "read_many (length ps) (plang_read_file_i64 F) W1 = Inr (map fst ps, W2)"
    using n Cons.prems(3) by auto
  then show ?case using 1(1) p by simp
qed simp

text \<open>C13. Numbers survive a text file.  Integers of 64 bits that are written one to a line, each in a field of any width the runtime
  takes, wide or too narrow or negative, are the integers that are read back, in order.\<close>

theorem integer_text_roundtrip:
  assumes "findBinding F W = None" "FBinding (Vars W F) \<noteq> PlangBindStd" "\<not> NoTemp W" "Fp (Vars W F) = None"
    and "\<forall>(v, w)\<in>set ps. in64 v \<and> w \<le> INT32_MAX"
  shows "\<exists>W1 W2 W3 W4. plang_rewrite F [] True W = Inr ((), W1) \<and> write_each (write_number F) ps W1 = Inr ((), W2)
    \<and> plang_reset F [] True W2 = Inr ((), W3) \<and> read_many (length ps) (plang_read_file_i64 F) W3 = Inr (map fst ps, W4)"
proof -
  let ?cs = "map field ps"
  define Cap where "Cap = int (sum_list (map length ?cs))"
  have "list_all (is_line Cap) ?cs"
    using member_le_sum_list [of _ "map length ?cs"] by (auto simp: list_all_iff is_line_def field_no_newline Cap_def)
  moreover obtain W1 where 1: "plang_rewrite F [] True W = Inr ((), W1)" "text_gen F [] W1"
    using rewrite_internal_text [OF assms(1-4)] assms(1) by (auto simp: text_gen_def findBinding_def)
  ultimately obtain W2 where 2: "write_each (write_line F) ?cs W1 = Inr ((), W2)" "text_gen F ?cs W2"
    using text_lines.write_each_gen [OF 1(2), of Cap ?cs] by auto
  have "generating F PlangBindTemp (text_of ?cs) W2" "findBinding F W2 = None" "findWritePath F W2 = None" using 2(2) by (simp_all add: text_gen_def)
  from reset_internal_text [OF this] obtain W3 where 3: "plang_reset F [] True W2 = Inr ((), W3)" "inspecting F [] ([] @ text_of ?cs) W3" by auto
  have "\<forall>(v, w)\<in>set ps. in64 v" "\<forall>(v, w)\<in>set ps. w \<le> INT32_MAX" using assms(5) by auto
  then show ?thesis using read_numbers [OF 3(2)] 1(1) 2(1) 3(1) write_each_lines [of ps F W1] by auto
qed

theorem integer_text_roundtrip_witness:
  "\<exists>W1 W2 W3 W4. plang_rewrite 7 [] True new_rt = Inr ((), W1)
    \<and> write_each (write_number 7) [(- 9223372036854775808, 3), (42, 10), (0, - 1)] W1 = Inr ((), W2)
    \<and> plang_reset 7 [] True W2 = Inr ((), W3) \<and> read_many 3 (plang_read_file_i64 7) W3 = Inr ([- 9223372036854775808, 42, 0], W4)"
  using integer_text_roundtrip [of 7 new_rt "[(- 9223372036854775808, 3), (42, 10), (0, - 1)]"]
  by (simp add: new_var_def in64_def INT64_MIN_def INT64_MAX_def INT32_MAX_def eval_nat_numeral)

end
