(* ===== verification/File_Turbo.thy ===== *)
theory File_Turbo
  imports File_Runtime
begin

text \<open>
  The file operations of Turbo Pascal, \<^verbatim>\<open>runtime/plang_file.cpp\<close>.  They do not end the program: the first error is kept in
  \<open>InOutRes\<close>, and while it is pending every operation does nothing.  The only fatal errors left are a field too wide and a
  negative record size.
\<close>

definition PlangFmClosed :: int where "PlangFmClosed = 0xD7B0"
definition PlangFmInput :: int where "PlangFmInput = 0xD7B1"
definition PlangFmOutput :: int where "PlangFmOutput = 0xD7B2"

text \<open>Run the operation when the file is ready, answer \<open>x\<close> when it is not.\<close>

definition whenReady :: "nat \<Rightarrow> 'a \<Rightarrow> 'a run \<Rightarrow> 'a run" where
  "whenReady F x m W = (case tpFileReady F W of (False, W1) \<Rightarrow> Inr (x, W1) | (True, W1) \<Rightarrow> m W1)"

definition setError :: "rt \<Rightarrow> rt" where
  "setError W = setInOutResIfClear (plang_tp_posix_to_run_error (Errno W)) W"

subsection \<open>Assigning, opening and closing\<close>

definition tp_name :: "bytes \<Rightarrow> bytes" where "tp_name Name = take 511 Name"

definition plang_tp_assign :: "nat \<Rightarrow> bytes \<Rightarrow> rt \<Rightarrow> rt" where
  "plang_tp_assign F Name W = setv F (\<lambda>v. v\<lparr>FName := tp_name Name, FMode := PlangFmClosed\<rparr>) (closeStream F W)"

definition opened :: "nat \<Rightarrow> int \<Rightarrow> rt \<Rightarrow> rt" where
  "opened F M W = unloadComponent F (setv F (\<lambda>v. v\<lparr>FBuf := PlangFileUninit, FMode := M\<rparr>) W)"

definition attach :: "nat \<Rightarrow> nat \<Rightarrow> int \<Rightarrow> rt \<Rightarrow> rt" where
  "attach F h dir W = setv F (\<lambda>v. v\<lparr>Fp := Some h, Readable := dir\<rparr>) W"

definition attach_std :: "nat \<Rightarrow> nat \<Rightarrow> int \<Rightarrow> rt \<Rightarrow> rt" where
  "attach_std F h dir W = setv F (\<lambda>v. v\<lparr>Fp := Some h, FBinding := PlangBindStd, Readable := dir\<rparr>) W"

definition plang_tp_reset :: "nat \<Rightarrow> rt \<Rightarrow> rt" where
  "plang_tp_reset F W =
     (if tpSuppressedByPendingError W then W
      else let W1 = closeStream F W; v = Vars W1 F; Effective = (if RecSize v > 0 then TpFileMode W1 else 0) in
        if FName v = [] then opened F PlangFmInput (attach_std F stdin_stream 1 W1)
        else if Effective = 1 then
          (case Names W1 (FName v) of None \<Rightarrow> setError (W1\<lparr>Errno := ENOENT\<rparr>) | Some i \<Rightarrow>
             (case OpenRefused W1 (FName v) ModeW of Some e \<Rightarrow> setError (W1\<lparr>Errno := e\<rparr>) | None \<Rightarrow>
                if IsDirectory W1 i then setInOutResIfClear 5 W1
                else let (h, W2) = new_stream i ModeW W1 in opened F PlangFmInput (attach F h 0 W2)))
        else (case fopen (FName v) (if Effective = 2 then ModeRP else ModeR) W1 of
            (None, W2) \<Rightarrow> setError W2
          | (Some h, W2) \<Rightarrow>
              if is_directory h W2 then setInOutResIfClear 5 (fclose h W2)
              else opened F PlangFmInput (attach F h (if Effective = 2 then 2 else 1) W2)))"

definition plang_tp_rewrite :: "nat \<Rightarrow> rt \<Rightarrow> rt" where
  "plang_tp_rewrite F W =
     (if tpSuppressedByPendingError W then W
      else let W1 = closeStream F W; v = Vars W1 F; ReadWrite = (RecSize v > 0) in
        if FName v = [] then opened F PlangFmOutput (attach_std F stdout_stream 0 W1)
        else (case fopen (FName v) (if ReadWrite then ModeWP else ModeW) W1 of
            (None, W2) \<Rightarrow> setError W2
          | (Some h, W2) \<Rightarrow> opened F PlangFmOutput (attach F h (if ReadWrite then 2 else 0) W2)))"

definition plang_tp_append :: "nat \<Rightarrow> rt \<Rightarrow> rt" where
  "plang_tp_append F W =
     (if tpSuppressedByPendingError W then W
      else let W1 = closeStream F W; v = Vars W1 F in
        if FName v = [] then opened F PlangFmOutput (attach_std F stdout_stream 0 W1)
        else (case file_exists (FName v) W1 of (False, W2) \<Rightarrow> setError W2
          | (True, W2) \<Rightarrow> (case fopen (FName v) ModeA W2 of
              (None, W3) \<Rightarrow> setError W3
            | (Some h, W3) \<Rightarrow> opened F PlangFmOutput (attach F h 0 W3))))"

definition sized :: "nat \<Rightarrow> int \<Rightarrow> (nat \<Rightarrow> rt \<Rightarrow> rt) \<Rightarrow> rt \<Rightarrow> rt" where
  "sized F Rs op W =
     (if tpSuppressedByPendingError W then W
      else if Rs = 0 then setInOutResIfClear 2 (closeStream F W)
      else op F (setv F (RecSize_update (\<lambda>_. Rs)) W))"

definition plang_tp_reset_sized :: "nat \<Rightarrow> int \<Rightarrow> rt \<Rightarrow> rt" where "plang_tp_reset_sized F Rs W = sized F Rs plang_tp_reset W"
definition plang_tp_rewrite_sized :: "nat \<Rightarrow> int \<Rightarrow> rt \<Rightarrow> rt" where "plang_tp_rewrite_sized F Rs W = sized F Rs plang_tp_rewrite W"

definition plang_tp_close :: "nat \<Rightarrow> unit run" where
  "plang_tp_close F = whenReady F () (upd (\<lambda>W.
     unloadComponent F (setv F (\<lambda>v. v\<lparr>FBuf := PlangFileUninit, Readable := 0, FMode := PlangFmClosed\<rparr>) (closeStream F W))))"

subsection \<open>Positions\<close>

definition tell :: "nat \<Rightarrow> rt \<Rightarrow> int" where
  "tell F W = (case Fp (Vars W F) of None \<Rightarrow> - 1 | Some h \<Rightarrow> ftell h W)"

definition plang_tp_filepos :: "nat \<Rightarrow> int run" where
  "plang_tp_filepos F = whenReady F 0 (asks (\<lambda>W. let Pos = tell F W; Rs = RecSize (Vars W F) in
     if Pos < 0 \<or> Rs \<le> 0 then 0 else Pos div Rs))"

definition plang_tp_filesize :: "nat \<Rightarrow> int run" where
  "plang_tp_filesize F = whenReady F 0 (bindR (doR (end_of F)) (\<lambda>e W. let Rs = RecSize (Vars W F) in
     Inr (if e < 0 \<or> Rs \<le> 0 then 0 else e div Rs, W)))"

definition plang_tp_seek :: "nat \<Rightarrow> int \<Rightarrow> unit run" where
  "plang_tp_seek F N = whenReady F () (upd (\<lambda>W.
     let Rs = (if RecSize (Vars W F) > 0 then RecSize (Vars W F) else 1) in
     case (seekOffset N Rs 0, Fp (Vars W F)) of
       (Some off, Some h) \<Rightarrow> (case fseek h off SEEK_SET W of
           (False, W1) \<Rightarrow> setError W1
         | (True, W1) \<Rightarrow> unloadComponent F (forget_window F W1))
     | _ \<Rightarrow> setInOutResIfClear 218 W))"

definition plang_tp_truncate :: "nat \<Rightarrow> unit run" where
  "plang_tp_truncate F = whenReady F () (upd (\<lambda>W.
     if Readable (Vars W F) = 1 then setInOutResIfClear 103 W
     else case Fp (Vars W F) of None \<Rightarrow> W | Some h \<Rightarrow>
       if tell F W < 0 then setError W
       else case ftruncate h (nat (tell F W)) W of
         (False, W1) \<Rightarrow> setError W1
       | (True, W1) \<Rightarrow> unloadComponent F (forget_window F W1)))"

subsection \<open>Blocks and names\<close>

definition size_t_mul :: "int \<Rightarrow> int \<Rightarrow> nat" where "size_t_mul a b = nat ((a * b) mod 2 ^ 64)"

definition plang_tp_blockread :: "nat \<Rightarrow> int \<Rightarrow> bool \<Rightarrow> (int \<times> bytes) run" where
  "plang_tp_blockread F Count HasResult = whenReady F (0, []) (\<lambda>W. let Rs = RecSize (Vars W F) in
     if Count \<le> 0 then Inr ((0, []), W)
     else if Rs < 0 then Inl (tp_runerror 217)
     else if Rs = 0 then Inr ((0, []), W)
     else let (bs, W1) = (case Fp (Vars W F) of None \<Rightarrow> ([], W) | Some h \<Rightarrow> fread (size_t_mul Count Rs) h W);
              Actual = int (length bs) div Rs;
              W2 = unloadComponent F (forget_window F W1)
          in Inr ((Actual, bs), if \<not> HasResult \<and> Actual < Count then setInOutResIfClear 100 W2 else W2))"

text \<open>The bytes at \<^verbatim>\<open>Buf\<close> are the argument; as many of them are written as the product says.\<close>

definition plang_tp_blockwrite :: "nat \<Rightarrow> bytes \<Rightarrow> int \<Rightarrow> bool \<Rightarrow> int run" where
  "plang_tp_blockwrite F bs Count HasResult = whenReady F 0 (\<lambda>W. let Rs = RecSize (Vars W F) in
     if Count \<le> 0 then Inr (0, W)
     else if Rs < 0 then Inl (tp_runerror 217)
     else if Rs = 0 then Inr (0, W)
     else let W1 = tpTrapOnWrongDirection F True W;
              (Got, W2) = (case Fp (Vars W1 F) of None \<Rightarrow> (0, W1) | Some h \<Rightarrow> fwrite (take (size_t_mul Count Rs) bs) h W1);
              Actual = int Got div Rs;
              W3 = unloadComponent F (forget_window F (tpTrapOnStreamError F True W2))
          in Inr (Actual, if \<not> HasResult \<and> Actual < Count then setInOutResIfClear 101 W3 else W3))"

definition plang_tp_erase :: "nat \<Rightarrow> rt \<Rightarrow> rt" where
  "plang_tp_erase F W =
     (if tpSuppressedByPendingError W then W
      else if FMode (Vars W F) \<noteq> PlangFmClosed then setInOutResIfClear 102 W
      else case remove_file (FName (Vars W F)) W of (False, W1) \<Rightarrow> setError W1 | (True, W1) \<Rightarrow> W1)"

definition plang_tp_rename :: "nat \<Rightarrow> bytes \<Rightarrow> rt \<Rightarrow> rt" where
  "plang_tp_rename F NewName W =
     (if tpSuppressedByPendingError W then W
      else if FMode (Vars W F) \<noteq> PlangFmClosed then setInOutResIfClear 102 W
      else case rename_file (FName (Vars W F)) NewName W of
        (False, W1) \<Rightarrow> setError W1 | (True, W1) \<Rightarrow> setv F (FName_update (\<lambda>_. tp_name NewName)) W1)"

definition plang_tp_flush :: "nat \<Rightarrow> unit run" where
  "plang_tp_flush F = whenReady F () (upd (\<lambda>W. if Readable (Vars W F) = 1 then setInOutResIfClear 105 W else W))"

subsection \<open>The end of the file and of a line\<close>

definition at_line_end :: "int \<Rightarrow> bool" where "at_line_end b \<longleftrightarrow> b = EOF \<or> b = 10 \<or> b = 13"

definition plang_eof_file_turbo :: "nat \<Rightarrow> bool run" where
  "plang_eof_file_turbo F = whenReady F True (\<lambda>W.
     if Readable (Vars W F) = 0 then Inr (True, W)
     else if RecSize (Vars W F) > 0 then bindR (plang_tp_filepos F) (\<lambda>p. bindR (plang_tp_filesize F) (\<lambda>n. ret (p \<ge> n))) W
     else let W1 = ensurePrimed F W in Inr (FBuf (Vars W1 F) = EOF, W1))"

definition plang_eoln_file_turbo :: "nat \<Rightarrow> bool run" where
  "plang_eoln_file_turbo F = whenReady F True (\<lambda>W. let W1 = ensurePrimed F W in Inr (at_line_end (FBuf (Vars W1 F)), W1))"

definition skipTurboWhitespace :: "nat \<Rightarrow> bool \<Rightarrow> unit run" where
  "skipTurboWhitespace F CrossLines = bindR (upd (ensurePrimed F)) (\<lambda>_.
     bindR (read_while NoCheck (\<lambda>b. b = 32 \<or> b = 9 \<or> (CrossLines \<and> (b = 10 \<or> b = 13))) F []) (\<lambda>_. ret ()))"

definition plang_tp_seekeof :: "nat \<Rightarrow> bool run" where
  "plang_tp_seekeof F = whenReady F True (\<lambda>W. if Readable (Vars W F) = 0 then Inr (True, W)
     else bindR (skipTurboWhitespace F True) (\<lambda>_. asks (\<lambda>W. FBuf (Vars W F) = EOF)) W)"

definition plang_tp_seekeoln :: "nat \<Rightarrow> bool run" where
  "plang_tp_seekeoln F = whenReady F True (\<lambda>W. if Readable (Vars W F) = 0 then Inr (True, W)
     else bindR (skipTurboWhitespace F False) (\<lambda>_. asks (\<lambda>W. at_line_end (FBuf (Vars W F)))) W)"

subsection \<open>Text\<close>

definition step_over :: "nat \<Rightarrow> int \<Rightarrow> rt \<Rightarrow> rt" where
  "step_over F b W = (if FBuf (Vars W F) = b then snd (advanceF F W) else W)"

definition plang_readln_file_turbo :: "nat \<Rightarrow> unit run" where
  "plang_readln_file_turbo F = whenReady F () (bindR (upd (ensurePrimed F)) (\<lambda>_.
     bindR (read_while NoCheck (\<lambda>b. b \<noteq> 10 \<and> b \<noteq> 13) F []) (\<lambda>_. upd (\<lambda>W.
       unloadComponent F (if FBuf (Vars W F) = 13 then step_over F 10 (snd (advanceF F W)) else step_over F 10 W)))))"

text \<open>Output that is followed on the screen of the Crt unit when it goes to the console.\<close>

definition track :: "nat \<Rightarrow> bytes \<Rightarrow> rt \<Rightarrow> rt" where
  "track F bs W = (if Fp (Vars W F) = Some stdout_stream then W\<lparr>Crt := plangCrtTrackOutput bs (Crt W)\<rparr> else W)"

definition write_tp :: "nat \<Rightarrow> bytes \<Rightarrow> unit run" where
  "write_tp F bs = whenReady F () (seqR [upd (tpTrapOnWrongDirection F True), emit F bs, upd (tpTrapOnStreamError F True)])"

definition write_tp_tracked :: "nat \<Rightarrow> bytes \<Rightarrow> unit run" where
  "write_tp_tracked F bs = whenReady F ()
     (seqR [upd (tpTrapOnWrongDirection F True), emit F bs, upd (track F bs), upd (tpTrapOnStreamError F True)])"

definition plang_writeln_file_turbo :: "nat \<Rightarrow> unit run" where "plang_writeln_file_turbo F = write_tp_tracked F [CHR 0x0A]"
definition plang_write_file_i64_turbo :: "nat \<Rightarrow> int \<Rightarrow> unit run" where "plang_write_file_i64_turbo F V = write_tp F (print_int V)"
definition plang_write_file_u64_turbo :: "nat \<Rightarrow> int \<Rightarrow> unit run" where "plang_write_file_u64_turbo F V = write_tp F (print_int V)"
definition plang_write_file_bool_turbo :: "nat \<Rightarrow> bool \<Rightarrow> bool \<Rightarrow> unit run" where
  "plang_write_file_bool_turbo F V Upper = write_tp F (bool_text V Upper)"
definition plang_write_file_char_turbo :: "nat \<Rightarrow> char \<Rightarrow> unit run" where "plang_write_file_char_turbo F c = write_tp_tracked F [c]"
definition plang_write_file_str_turbo :: "nat \<Rightarrow> bytes \<Rightarrow> unit run" where "plang_write_file_str_turbo F s = write_tp_tracked F s"

text \<open>A width beyond 32 bits wraps.\<close>

definition wrapWidthTP :: "int \<Rightarrow> int" where
  "wrapWidthTP w = (if w > INT32_MAX \<or> w < - INT32_MAX - 1 then (w + 2 ^ 31) mod 2 ^ 32 - 2 ^ 31 else w)"

definition write_field_tp :: "nat \<Rightarrow> int \<Rightarrow> bytes \<Rightarrow> unit run" where
  "write_field_tp F w s = whenReady F () (seqR [upd (tpTrapOnWrongDirection F True),
     bindR (checkedWidth (wrapWidthTP w)) (\<lambda>n. emit F (pad_left n s)), upd (tpTrapOnStreamError F True)])"

definition plang_write_file_i64_w_turbo :: "nat \<Rightarrow> int \<Rightarrow> int \<Rightarrow> unit run" where
  "plang_write_file_i64_w_turbo F V w = write_field_tp F w (print_int V)"
definition plang_write_file_u64_w_turbo :: "nat \<Rightarrow> int \<Rightarrow> int \<Rightarrow> unit run" where
  "plang_write_file_u64_w_turbo F V w = write_field_tp F w (print_int V)"

definition tpWritePadded :: "nat \<Rightarrow> bytes \<Rightarrow> int \<Rightarrow> bool \<Rightarrow> unit run" where
  "tpWritePadded F s w0 NoTrunc = (let w = wrapWidthTP w0 in
     if \<not> NoTrunc \<and> w = 0 then ret ()
     else seqR [upd (tpTrapOnWrongDirection F True),
        (if w < 0 then emit F s
         else bindR (checkedWidth w) (\<lambda>n. emit F (replicate (nat n - length s) (CHR '' '') @ (if NoTrunc then s else take (nat n) s)))),
        upd (tpTrapOnStreamError F True)])"

definition plang_write_file_bool_w_turbo :: "nat \<Rightarrow> bool \<Rightarrow> int \<Rightarrow> bool \<Rightarrow> bool \<Rightarrow> unit run" where
  "plang_write_file_bool_w_turbo F V w Upper NoTrunc = whenReady F () (tpWritePadded F (bool_text V Upper) w NoTrunc)"
definition plang_write_file_str_w_turbo :: "nat \<Rightarrow> bytes \<Rightarrow> int \<Rightarrow> bool \<Rightarrow> unit run" where
  "plang_write_file_str_w_turbo F s w NoTrunc = whenReady F () (tpWritePadded F s w NoTrunc)"
definition plang_str_write_file_w_turbo :: "nat \<Rightarrow> bytes \<Rightarrow> int \<Rightarrow> unit run" where
  "plang_str_write_file_w_turbo F s w = whenReady F () (tpWritePadded F s w False)"
definition plang_sstr_write_file_w :: "nat \<Rightarrow> bytes \<Rightarrow> int \<Rightarrow> unit run" where
  "plang_sstr_write_file_w F s w = whenReady F () (tpWritePadded F s w False)"

definition plang_write_file_char_w_turbo :: "nat \<Rightarrow> char \<Rightarrow> int \<Rightarrow> bool \<Rightarrow> unit run" where
  "plang_write_file_char_w_turbo F c w0 AlwaysWrite = whenReady F () (let w = wrapWidthTP w0 in
     whenR (\<not> (w = 0 \<and> \<not> AlwaysWrite)) (seqR [upd (tpTrapOnWrongDirection F True),
       (if w < 0 then emit F [c] else bindR (checkedWidth w) (\<lambda>n. emit F (pad_left n [c]))), upd (tpTrapOnStreamError F True)]))"

text \<open>A string of either kind, nothing when it is empty.\<close>

definition write_string_tp :: "nat \<Rightarrow> bytes \<Rightarrow> unit run" where
  "write_string_tp F s = whenReady F ()
     (whenR (s \<noteq> []) (seqR [upd (tpTrapOnWrongDirection F True), emit F s, upd (tpTrapOnStreamError F True)]))"

definition plang_str_write_file_turbo :: "nat \<Rightarrow> bytes \<Rightarrow> unit run" where "plang_str_write_file_turbo F s = write_string_tp F s"
definition plang_sstr_write_file :: "nat \<Rightarrow> bytes \<Rightarrow> unit run" where "plang_sstr_write_file F s = write_string_tp F s"

definition read_line_tp :: "nat \<Rightarrow> bytes \<Rightarrow> (bytes \<Rightarrow> bytes) \<Rightarrow> bytes run" where
  "read_line_tp F unready f = whenReady F unready (bindR (upd (tpTrapOnWrongDirection F False)) (\<lambda>_.
     bindR (upd (ensurePrimed F)) (\<lambda>_. bindR (read_while TpCheck (\<lambda>b. b \<noteq> 10 \<and> b \<noteq> 13) F []) (\<lambda>cs. ret (f (as_bytes cs))))))"

definition plang_sstr_read_file :: "nat \<Rightarrow> int \<Rightarrow> bytes run" where
  "plang_sstr_read_file F Cap = read_line_tp F [] (take (nat (min Cap 255)))"

definition plang_str_read_fixed_file_turbo :: "nat \<Rightarrow> int \<Rightarrow> bytes run" where
  "plang_str_read_fixed_file_turbo F N = read_line_tp F (replicate (nat N) (CHR '' ''))
     (\<lambda>cs. take (nat N) cs @ replicate (nat N - length cs) (CHR '' ''))"

definition PlangTpEofChar :: int where "PlangTpEofChar = 26"

definition plang_read_file_char_turbo :: "nat \<Rightarrow> int run" where
  "plang_read_file_char_turbo F = whenReady F 0 (\<lambda>W0. let W = ensurePrimed F (tpTrapOnWrongDirection F False W0) in
     if FBuf (Vars W F) = EOF then Inr (PlangTpEofChar, W)
     else case advanceF F W of (C, W1) \<Rightarrow> Inr (C, unloadComponent F (tpTrapOnStreamError F False W1)))"

definition tpSkipBlanksFile :: "nat \<Rightarrow> unit run" where
  "tpSkipBlanksFile F = bindR (upd (\<lambda>W. tpTrapOnStreamError F False (if FBuf (Vars W F) = PlangFileUninit then prime F W else W))) (\<lambda>_.
     bindR (read_while TpCheck is_blank F []) (\<lambda>_. ret ()))"

definition scanTokenTurboFile :: "nat \<Rightarrow> (bytes \<times> bool) run" where
  "scanTokenTurboFile F = bindR (tpSkipBlanksFile F) (\<lambda>_. bindR (asks (\<lambda>W. FBuf (Vars W F) \<noteq> EOF)) (\<lambda>SawAny.
     bindR (read_while TpCheck (\<lambda>b. \<not> is_blank b) F []) (\<lambda>cs. ret (as_bytes cs, SawAny))))"

text \<open>The text up to the byte that ends a C string.\<close>

definition c_string :: "bytes \<Rightarrow> bytes" where "c_string s = takeWhile (\<lambda>c. c \<noteq> CHR 0x00) s"

fun turboRadixPrefixFile :: "bytes \<Rightarrow> nat \<times> bytes" where
  "turboRadixPrefixFile Tok =
     (if take 1 Tok = ''$'' then (16, drop 1 Tok)
      else if take 2 Tok = ''0x'' \<or> take 2 Tok = ''0X'' then (16, drop 2 Tok)
      else if take 1 Tok = ''&'' then (8, drop 1 Tok)
      else if take 1 Tok = ''%'' then (2, drop 1 Tok)
      else (10, Tok))"

definition turboSignedRadixPrefixFile :: "bytes \<Rightarrow> bool option" where
  "turboSignedRadixPrefixFile Tok =
     (case Tok of c # rest \<Rightarrow>
        if (c = CHR ''-'' \<or> c = CHR ''+'')
            \<and> (take 1 rest = ''$'' \<or> take 1 rest = ''&'' \<or> take 1 rest = ''%'' \<or> take 2 rest = ''0x'' \<or> take 2 rest = ''0X'')
        then Some (c = CHR ''-'') else None
      | [] \<Rightarrow> None)"

text \<open>A token as a signed number; \<open>None\<close> is run-time error 106.\<close>

definition tp_int :: "bytes \<Rightarrow> int option" where
  "tp_int Tok = (let sp = turboSignedRadixPrefixFile Tok; D1 = (if sp = None then Tok else drop 1 Tok);
      (Radix, D) = turboRadixPrefixFile D1; (V, End, er) = strtoll Radix D in
     if D = [] \<or> End \<noteq> [] \<or> er then None else Some (if sp = Some True then - V else V))"

definition tp_uint :: "bytes \<Rightarrow> int option" where
  "tp_uint Tok = (if take 1 Tok = ''-'' then None
     else let (Radix, D) = turboRadixPrefixFile Tok; (V, End, er) = strtoull Radix D in
       if D = [] \<or> End \<noteq> [] \<or> er then None else Some V)"

definition read_number_tp :: "nat \<Rightarrow> (bytes \<Rightarrow> int option) \<Rightarrow> int run" where
  "read_number_tp F convert = whenReady F 0 (bindR (upd (tpTrapOnWrongDirection F False)) (\<lambda>_.
     bindR (scanTokenTurboFile F) (\<lambda>(Tok, SawAny). bindR (upd (unloadComponent F)) (\<lambda>_.
       if \<not> SawAny then ret 0
       else case convert (c_string Tok) of Some V \<Rightarrow> ret V | None \<Rightarrow> bindR (upd (setInOutResIfClear 106)) (\<lambda>_. ret 0)))))"

definition plang_read_file_i64_turbo :: "nat \<Rightarrow> int run" where "plang_read_file_i64_turbo F = read_number_tp F tp_int"
definition plang_read_file_u64_turbo :: "nat \<Rightarrow> int run" where "plang_read_file_u64_turbo F = read_number_tp F tp_uint"

subsection \<open>Components\<close>

text \<open>Reading leaves the variable alone when the file is not ready, which is \<open>None\<close>.\<close>

definition plang_read_binary_turbo :: "nat \<Rightarrow> int \<Rightarrow> bytes option run" where
  "plang_read_binary_turbo F ElemSize = whenReady F None (\<lambda>W.
     let W1 = tpTrapOnWrongDirection F False W;
         (bs, W2) = (case Fp (Vars W1 F) of None \<Rightarrow> ([], W1) | Some h \<Rightarrow> fread (nat ElemSize) h W1);
         W3 = tpTrapOnStreamError F False W2;
         W4 = (if length bs < nat ElemSize \<or> ElemSize \<le> 0 then setInOutResIfClear 100 W3 else W3)
     in Inr (Some (bs @ replicate (nat ElemSize - length bs) (CHR 0x00)), prime F W4))"

definition plang_write_binary_turbo :: "nat \<Rightarrow> bytes \<Rightarrow> unit run" where
  "plang_write_binary_turbo F bs = whenReady F ()
     (seqR [upd (tpTrapOnWrongDirection F True), emit F bs, upd (tpTrapOnStreamError F True), upd (forget_window F)])"

end
