(* ===== verification/File_Turbo_Props.thy ===== *)
theory File_Turbo_Props
  imports File_Turbo File_Props
begin

text \<open>
  The Turbo Pascal view of files: a pending error stops everything, a typed file is a random-access sequence of records of
  its size, and what the number reader accepts.
\<close>

lemmas ready_defs = whenReady_def tpFileReady_def tpSuppressedByPendingError_def

subsection \<open>A pending error\<close>

lemma whenReady_pending [simp]: "InOutRes W \<noteq> 0 \<Longrightarrow> whenReady F x m W = Inr (x, W)"
  by (simp add: ready_defs)




subsection \<open>Typed files\<close>

text \<open>Records of \<open>n\<close> bytes have been written to the file called \<open>nm\<close>.\<close>

definition typed_gen :: "nat \<Rightarrow> bytes \<Rightarrow> nat \<Rightarrow> bytes list \<Rightarrow> rt \<Rightarrow> bool" where
  "typed_gen F nm n cs W \<longleftrightarrow> (\<exists>h s. Fp (Vars W F) = Some h \<and> Streams W h = Some s \<and> SMode s = ModeWP \<and> SSeekable s
     \<and> Contents W (SFile s) = concat cs \<and> SPos s = length (concat cs) \<and> Readable (Vars W F) = 2 \<and> RecSize (Vars W F) = int n
     \<and> FName (Vars W F) = nm \<and> FBinding (Vars W F) = PlangBindNone \<and> Names W nm = Some (SFile s) \<and> OpenRefused W nm ModeRP = None
     \<and> \<not> IsDirectory W (SFile s) \<and> InOutRes W = 0 \<and> TpFileMode W = 2) \<and> (\<forall>c\<in>set cs. length c = n)"

text \<open>A typed file is open, \<open>ls\<close> before its position and \<open>cs\<close> behind it.\<close>

definition typed_at :: "nat \<Rightarrow> nat \<Rightarrow> bytes list \<Rightarrow> bytes list \<Rightarrow> rt \<Rightarrow> bool" where
  "typed_at F n ls cs W \<longleftrightarrow> (\<exists>h s. Fp (Vars W F) = Some h \<and> Streams W h = Some s \<and> can_read (SMode s) \<and> SSeekable s
     \<and> Contents W (SFile s) = concat (ls @ cs) \<and> SPos s = length (concat ls) \<and> Readable (Vars W F) = 2 \<and> RecSize (Vars W F) = int n
     \<and> FBinding (Vars W F) = PlangBindNone \<and> InOutRes W = 0) \<and> (\<forall>c\<in>set (ls @ cs). length c = n)"

definition read_typed :: "nat \<Rightarrow> nat \<Rightarrow> bytes run" where
  "read_typed F n = bindR (plang_read_binary_turbo F (int n)) (\<lambda>b. ret (case b of None \<Rightarrow> [] | Some b \<Rightarrow> b))"

definition reopen :: "nat \<Rightarrow> unit run" where
  "reopen F = seqR [plang_tp_close F, upd (plang_tp_reset F)]"

lemma concat_uniform: "\<forall>c\<in>set cs. length c = n \<Longrightarrow> length (concat cs) = length cs * n"
  by (induction cs) auto

lemma no_wrong_direction [simp]: "FBinding (Vars W F) = PlangBindNone \<Longrightarrow> tpTrapOnWrongDirection F b W = W"
  by (simp add: tpTrapOnWrongDirection_def wrong_direction_def)

lemma typed_write:
  assumes "typed_gen F nm n cs W" "length c = n" "0 < n"
  shows "\<exists>W'. plang_write_binary_turbo F c W = Inr ((), W') \<and> typed_gen F nm n (cs @ [c]) W'"
proof -
  obtain h s where W: "Fp (Vars W F) = Some h" "Streams W h = Some s" "SMode s = ModeWP" "SSeekable s"
    "Contents W (SFile s) = concat cs" "SPos s = length (concat cs)" "Readable (Vars W F) = 2" "RecSize (Vars W F) = int n"
    "FName (Vars W F) = nm" "FBinding (Vars W F) = PlangBindNone" "Names W nm = Some (SFile s)" "OpenRefused W nm ModeRP = None"
    "\<not> IsDirectory W (SFile s)" "InOutRes W = 0" "TpFileMode W = 2" "\<forall>c\<in>set cs. length c = n"
    using assms(1) unfolding typed_gen_def by blast
  have "c \<noteq> []" using assms(2,3) by auto
  then show ?thesis using W assms(2)
    by (simp add: typed_gen_def plang_write_binary_turbo_def ready_defs bindR_def emit_def fputs_def fwrite_def can_write_def
        tpTrapOnWrongDirection_def wrong_direction_def tpTrapOnStreamError_def stream_failed_def ferror_def world_defs
        write_at_end [where xs = "concat cs", simplified])
qed

lemma typed_reopen:
  assumes "typed_gen F nm n cs W" "nm \<noteq> []" "0 < n"
  shows "\<exists>W'. reopen F W = Inr ((), W') \<and> typed_at F n [] cs W'"
  using assms
  by (auto simp: typed_gen_def typed_at_def reopen_def plang_tp_close_def ready_defs bindR_def closeStream_def fclose_def plang_tp_reset_def
      fopen_def new_stream_def is_directory_def opened_def attach_def can_read_def world_defs Let_def)

lemma typed_read:
  assumes "typed_at F n ls (c # cs) W" "0 < n"
  shows "\<exists>W'. read_typed F n W = Inr (c, W') \<and> typed_at F n (ls @ [c]) cs W'"
proof -
  obtain h s where W: "Fp (Vars W F) = Some h" "Streams W h = Some s" "can_read (SMode s)" "SSeekable s"
    "Contents W (SFile s) = concat ls @ c @ concat cs" "SPos s = length (concat ls)" "Readable (Vars W F) = 2" "RecSize (Vars W F) = int n"
    "FBinding (Vars W F) = PlangBindNone" "InOutRes W = 0" "\<forall>c\<in>set (ls @ c # cs). length c = n"
    using assms(1) unfolding typed_at_def by (auto simp: ball_Un)
  then show ?thesis using assms(2)
    by (simp add: typed_at_def read_typed_def plang_read_binary_turbo_def ready_defs bindR_def fread_def prime_stream Let_def
        tpTrapOnWrongDirection_def wrong_direction_def tpTrapOnStreamError_def stream_failed_def ferror_def world_defs)
qed

lemma typed_atE:
  assumes "typed_at F n ls cs W"
  obtains h s where "Fp (Vars W F) = Some h" "Streams W h = Some s" "can_read (SMode s)" "SSeekable s"
    "Contents W (SFile s) = concat (ls @ cs)" "SPos s = length ls * n" "Readable (Vars W F) = 2" "RecSize (Vars W F) = int n"
    "FBinding (Vars W F) = PlangBindNone" "InOutRes W = 0" "\<forall>c\<in>set (ls @ cs). length c = n"
  using assms concat_uniform [of ls n] unfolding typed_at_def by auto

lemma typed_at_put:
  assumes "typed_at F n ls cs W" "Fp (Vars W F) = Some h" "Streams W h = Some s" "ks @ ds = ls @ cs"
  shows "typed_at F n ks ds (put_stream h (s\<lparr>SPos := length ks * n, SErr := e\<rparr>) W)"
proof -
  have c: "concat ks @ concat ds = concat ls @ concat cs" using arg_cong [OF assms(4), of concat] by simp
  have s: "set ks \<union> set ds = set ls \<union> set cs" using arg_cong [OF assms(4), of set] by simp
  have "\<forall>c\<in>set ks. length c = n" using assms(1) s unfolding typed_at_def by auto
  then have "length (concat ks) = length ks * n" by (rule concat_uniform)
  then show ?thesis using assms(1-3) c s unfolding typed_at_def by (simp add: put_stream_def)
qed

lemma typed_at_clear: "typed_at F n ls cs W \<Longrightarrow> Fp (Vars W F) = Some h \<Longrightarrow> typed_at F n ls cs (clearerr h W)"
  by (auto simp: typed_at_def clearerr_def put_stream_def)

lemma product_nonneg [simp]: "\<not> int a * int b < 0" "\<not> int a * int b < - 9223372036854775808" "nat (int a * int b) = a * b"
  using of_nat_0_le_iff [of "a * b", where 'a = int] nat_int [of "a * b"] unfolding of_nat_mult by auto

lemma typed_filepos:
  assumes "typed_at F n ls cs W" "0 < n"
  shows "\<exists>W'. plang_tp_filepos F W = Inr (int (length ls), W') \<and> typed_at F n ls cs W'"
  using assms(1)
proof (rule typed_atE)
  fix h s
  assume W: "Fp (Vars W F) = Some h" "Streams W h = Some s" "SSeekable s" "SPos s = length ls * n" "RecSize (Vars W F) = int n" "InOutRes W = 0"
  then have "plang_tp_filepos F W = Inr (int (length ls), clearerr h W)"
    using assms(2) by (simp add: plang_tp_filepos_def ready_defs tell_def ftell_def clearerr_def put_stream_def Let_def)
  then show ?thesis using typed_at_clear [OF assms(1) W(1)] by blast
qed

lemma end_of_stream:
  "Fp (Vars W F) = Some h \<Longrightarrow> Streams W h = Some s \<Longrightarrow> SSeekable s \<Longrightarrow> end_of F W = (int (length (Contents W (SFile s))), W)"
  by (cases s) (simp add: end_of_def ftell_def fseek_def put_stream_def Let_def fun_upd_idem)

lemma typed_filesize:
  assumes "typed_at F n ls cs W" "0 < n"
  shows "\<exists>W'. plang_tp_filesize F W = Inr (int (length ls + length cs), W') \<and> typed_at F n ls cs W'"
  using assms(1)
proof (rule typed_atE)
  fix h s
  assume W: "Fp (Vars W F) = Some h" "Streams W h = Some s" "SSeekable s" "Contents W (SFile s) = concat (ls @ cs)"
    "RecSize (Vars W F) = int n" "InOutRes W = 0" "\<forall>c\<in>set (ls @ cs). length c = n"
  have e: "end_of F (clearerr h W) = (int ((length ls + length cs) * n), clearerr h W)" "Vars (clearerr h W) = Vars W"
    using W concat_uniform [OF W(7)] end_of_stream [of "clearerr h W" F h "s\<lparr>SErr := False\<rparr>"] by (simp_all add: clearerr_def put_stream_def)
  have "plang_tp_filesize F W = Inr (int (length ls + length cs), clearerr h W)"
    using W(1,5,6) assms(2) e by (simp add: plang_tp_filesize_def ready_defs bindR_def Let_def flip: of_nat_add)
  then show ?thesis using typed_at_clear [OF assms(1) W(1)] by blast
qed

lemma typed_eof:
  assumes "typed_at F n ls cs W" "0 < n"
  shows "\<exists>W'. plang_eof_file_turbo F W = Inr (cs = [], W') \<and> typed_at F n ls cs W'"
  using assms(1)
proof (rule typed_atE)
  fix h s
  assume W: "Fp (Vars W F) = Some h" "Streams W h = Some s" "Readable (Vars W F) = 2" "RecSize (Vars W F) = int n" "InOutRes W = 0"
  have t: "typed_at F n ls cs (clearerr h W)" by (rule typed_at_clear [OF assms(1) W(1)])
  obtain W1 where 1: "plang_tp_filepos F (clearerr h W) = Inr (int (length ls), W1)" "typed_at F n ls cs W1"
    using typed_filepos [OF t assms(2)] by blast
  obtain W2 where 2: "plang_tp_filesize F W1 = Inr (int (length ls + length cs), W2)" "typed_at F n ls cs W2"
    using typed_filesize [OF 1(2) assms(2)] by blast
  have v: "Vars (clearerr h W) = Vars W" using W(2) by (simp add: clearerr_def put_stream_def)
  have "plang_eof_file_turbo F W = Inr (cs = [], W2)"
    using W(1,3-5) assms(2) 1(1) 2(1) v by (simp add: plang_eof_file_turbo_def ready_defs bindR_def)
  then show ?thesis using 2(2) by blast
qed

lemma typed_seek:
  assumes "typed_at F n ls cs W" "0 < n" "ks @ ds = ls @ cs" "int (length ks * n) \<le> INT64_MAX"
  shows "\<exists>W'. plang_tp_seek F (int (length ks)) W = Inr ((), W') \<and> typed_at F n ks ds W'"
  using assms(1)
proof (rule typed_atE)
  fix h s
  assume W: "Fp (Vars W F) = Some h" "Streams W h = Some s" "SSeekable s" "RecSize (Vars W F) = int n" "InOutRes W = 0"
  let ?W = "put_stream h (s\<lparr>SPos := length ks * n, SErr := False\<rparr>) W"
  have "length ks \<le> length ks * n" using assms(2) by simp
  then have k: "int (length ks) \<le> INT64_MAX" using assms(4) by linarith
  have o: "seekOffset (int (length ks)) (int n) 0 = Some (int (length ks * n))"
    using k assms(4) by (simp add: seekOffset_def INT64_MIN_def Let_def)
  have "plang_tp_seek F (int (length ks)) W = Inr ((), unloadComponent F (forget_window F ?W))"
    using W assms(2) o by (simp add: plang_tp_seek_def ready_defs clearerr_def fseek_def put_stream_def Let_def)
  moreover have "typed_at F n ks ds ?W" by (rule typed_at_put [OF assms(1) W(1,2) assms(3)])
  then have "typed_at F n ks ds (unloadComponent F (forget_window F ?W))"
    by (auto simp: typed_at_def unloadComponent_def forget_window_def setv_def)
  ultimately show ?thesis by blast
qed

interpretation typed: sequential_file "typed_gen F (a # nm) (Suc m)" "\<lambda>cs W. \<exists>ls. typed_at F (Suc m) ls cs W" "plang_write_binary_turbo F"
    "reopen F" "read_typed F (Suc m)" "plang_eof_file_turbo F" "\<lambda>c. length c = Suc m" for F a nm m
proof
  show "\<exists>W'. plang_write_binary_turbo F c W = Inr ((), W') \<and> typed_gen F (a # nm) (Suc m) (cs @ [c]) W'"
    if "typed_gen F (a # nm) (Suc m) cs W" "length c = Suc m" for cs W c by (rule typed_write [OF that]) simp
  show "\<exists>W'. reopen F W = Inr ((), W') \<and> (\<exists>ls. typed_at F (Suc m) ls cs W')" if "typed_gen F (a # nm) (Suc m) cs W" for cs W
    using typed_reopen [OF that] by auto
  show "\<exists>W'. read_typed F (Suc m) W = Inr (c, W') \<and> (\<exists>ls. typed_at F (Suc m) ls cs W')"
    if "\<exists>ls. typed_at F (Suc m) ls (c # cs) W" for c cs W using that typed_read [of F "Suc m"] by blast
  show "\<exists>W'. plang_eof_file_turbo F W = Inr (cs = [], W') \<and> (\<exists>ls. typed_at F (Suc m) ls cs W')"
    if "\<exists>ls. typed_at F (Suc m) ls cs W" for cs W using that typed_eof [of F "Suc m"] by blast
qed

lemma typed_rewrite:
  assumes "InOutRes W = 0" "TpFileMode W = 2" "nm \<noteq> []" "length nm \<le> 511" "OpenRefused W nm = (\<lambda>_. None)"
    "\<forall>i. \<not> IsDirectory W i" "0 < n"
  shows "typed_gen F nm n [] (plang_tp_rewrite_sized F (int n) (plang_tp_assign F nm W))"
  using assms
  by (cases "Names W nm"; cases "Fp (Vars W F)")
     (simp_all add: typed_gen_def plang_tp_rewrite_sized_def sized_def plang_tp_assign_def plang_tp_rewrite_def tp_name_def tpSuppressedByPendingError_def
      closeStream_def fclose_def fopen_def new_file_def new_stream_def opened_def attach_def world_defs Let_def)

text \<open>C12. A Turbo Pascal typed file is a sequence of records.  After \<^verbatim>\<open>Assign\<close> and \<^verbatim>\<open>Rewrite\<close>, what is written, whether or not a
  file of that name existed, is what the loop to \<^verbatim>\<open>Eof\<close> reads after \<^verbatim>\<open>Close\<close> and \<^verbatim>\<open>Reset\<close>; \<^verbatim>\<open>FileSize\<close> is the number of
  records, and \<^verbatim>\<open>Seek\<close> to any of them makes it the one that \<^verbatim>\<open>FilePos\<close> names and the next \<^verbatim>\<open>Read\<close> gives.  No error is
  recorded.\<close>

theorem typed_file_random_access:
  assumes "InOutRes W = 0" "TpFileMode W = 2" "nm \<noteq> []" "length nm \<le> 511" "OpenRefused W nm = (\<lambda>_. None)" "\<forall>i. \<not> IsDirectory W i"
    and "0 < n" "\<forall>c\<in>set cs. length c = n" "i < length cs" "int (i * n) \<le> INT64_MAX"
  shows "\<exists>W1 W2 W3 W4 W5 W6 W7. write_each (plang_write_binary_turbo F) cs (plang_tp_rewrite_sized F (int n) (plang_tp_assign F nm W)) = Inr ((), W1)
    \<and> reopen F W1 = Inr ((), W2)
    \<and> read_until_end (Suc (length cs)) (plang_eof_file_turbo F) (read_typed F n) W2 = Some (Inr (cs, W3))
    \<and> plang_tp_filesize F W2 = Inr (int (length cs), W4) \<and> plang_tp_seek F (int i) W4 = Inr ((), W5)
    \<and> plang_tp_filepos F W5 = Inr (int i, W6) \<and> read_typed F n W6 = Inr (cs ! i, W7) \<and> InOutRes W3 = 0 \<and> InOutRes W7 = 0"
proof -
  obtain m a nm' where n: "n = Suc m" "nm = a # nm'" using assms(3,7) by (cases n; cases nm) auto
  have ok: "list_all (\<lambda>c. length c = Suc m) cs" using assms(8) n by (simp add: list_all_iff)
  have g: "typed_gen F (a # nm') (Suc m) [] (plang_tp_rewrite_sized F (int n) (plang_tp_assign F nm W))"
    using typed_rewrite [OF assms(1-7), of F] n by simp
  obtain W1 where 1: "write_each (plang_write_binary_turbo F) cs (plang_tp_rewrite_sized F (int n) (plang_tp_assign F nm W)) = Inr ((), W1)"
    "typed_gen F (a # nm') (Suc m) cs W1" using typed.write_each_gen [OF g ok] by auto
  obtain W2 where 2: "reopen F W1 = Inr ((), W2)" "typed_at F n [] cs W2" using typed_reopen [OF 1(2)] n by auto
  obtain W3 ls where 3: "read_until_end (Suc (length cs)) (plang_eof_file_turbo F) (read_typed F n) W2 = Some (Inr (cs, W3))" "typed_at F n ls [] W3"
    using typed.read_until_end_insp [OF exI, OF 2(2) [unfolded n(1)] ok, of "Suc (length cs)"] n(1) by auto
  obtain W4 where 4: "plang_tp_filesize F W2 = Inr (int (length cs), W4)" "typed_at F n [] cs W4" using typed_filesize [OF 2(2) assms(7)] by auto
  have split: "take i cs @ (cs ! i # drop (Suc i) cs) = [] @ cs" "length (take i cs) = i" using assms(9) by (simp_all add: id_take_nth_drop [symmetric])
  obtain W5 where 5: "plang_tp_seek F (int i) W4 = Inr ((), W5)" "typed_at F n (take i cs) (cs ! i # drop (Suc i) cs) W5"
    using typed_seek [OF 4(2) assms(7) split(1)] split(2) assms(10) by auto
  obtain W6 where 6: "plang_tp_filepos F W5 = Inr (int i, W6)" "typed_at F n (take i cs) (cs ! i # drop (Suc i) cs) W6"
    using typed_filepos [OF 5(2) assms(7)] split(2) by auto
  obtain W7 where 7: "read_typed F n W6 = Inr (cs ! i, W7)" "typed_at F n (take i cs @ [cs ! i]) (drop (Suc i) cs) W7"
    using typed_read [OF 6(2) assms(7)] by auto
  have "InOutRes W3 = 0" "InOutRes W7 = 0" using 3(2) 7(2) by (auto simp: typed_at_def)
  then show ?thesis using 1(1) 2(1) 3(1) 4(1) 5(1) 6(1) 7(1) by blast
qed

theorem typed_file_random_access_witness:
  "\<exists>W1 W2 W3 W4 W5 W6 W7.
      write_each (plang_write_binary_turbo 7) [''ab'', ''cd'', ''ef''] (plang_tp_rewrite_sized 7 2 (plang_tp_assign 7 ''db.dat'' new_rt)) = Inr ((), W1)
    \<and> reopen 7 W1 = Inr ((), W2)
    \<and> read_until_end 4 (plang_eof_file_turbo 7) (read_typed 7 2) W2 = Some (Inr ([''ab'', ''cd'', ''ef''], W3))
    \<and> plang_tp_filesize 7 W2 = Inr (3, W4) \<and> plang_tp_seek 7 1 W4 = Inr ((), W5)
    \<and> plang_tp_filepos 7 W5 = Inr (1, W6) \<and> read_typed 7 2 W6 = Inr (''cd'', W7) \<and> InOutRes W3 = 0 \<and> InOutRes W7 = 0"
  using typed_file_random_access [of new_rt "''db.dat''" 2 "[''ab'', ''cd'', ''ef'']" 1 7]
  by (simp add: new_rt_def INT64_MAX_def eval_nat_numeral)

subsection \<open>Numbers\<close>

lemma radix_mark_no_digit: "\<not> digit_of 16 (CHR ''x'')" "\<not> digit_of 16 (CHR ''X'')"
  by code_simp+

lemma digits_value_nonneg: "list_all (digit_of b) ds \<Longrightarrow> 0 \<le> v \<Longrightarrow> 0 \<le> digits_value b ds v"
proof (induction ds arbitrary: v)
  case (Cons d ds)
  then have "0 \<le> alnum_val d" using alnum_val_bounds [of d] by (simp add: digit_of_def)
  then show ?case using Cons by simp
qed simp

lemma strto_parse_negative:
  assumes "ds \<noteq> []" "list_all (digit_of 16) ds"
  shows "strto_parse 16 (CHR ''-'' # ds) = Some (True, digits_value 16 ds 0, [])"
proof -
  have "\<not> isspace (CHR ''-'')" by code_simp
  moreover have "takeWhile (digit_of 16) ds = ds" "dropWhile (digit_of 16) ds = []" using assms(2) by (auto simp: list_all_iff)
  moreover have "skip_0x 16 ds = ds" using assms(2) radix_mark_no_digit by (auto simp: skip_0x_def split: list.splits)
  ultimately show ?thesis using assms(1) by (simp add: strto_parse_def Let_def del: takeWhile_eq_all_conv)
qed

text \<open>C38. The digits behind a radix prefix may carry a sign of their own, in addition to one before the prefix.
  So \<^verbatim>\<open>-$-5\<close> reads as 5; a \<^verbatim>\<open>QWord\<close>, for which a leading minus sign is refused, takes \<^verbatim>\<open>$-5\<close> as its negative modulo
  \<open>2 ^ 64\<close>; and at \<open>2 ^ 63\<close> the negation at the end leaves the range of the integer it is computed in.\<close>

theorem second_sign_accepted:
  assumes "ds \<noteq> []" "list_all (digit_of 16) ds" "digits_value 16 ds 0 \<le> 2 ^ 63"
  shows "tp_int (''-$-'' @ ds) = Some (digits_value 16 ds 0) \<and> tp_int (''$-'' @ ds) = Some (- digits_value 16 ds 0)
    \<and> tp_uint (''$-'' @ ds) = Some ((- digits_value 16 ds 0) mod 2 ^ 64)"
proof -
  let ?v = "digits_value 16 ds 0"
  have v: "0 \<le> ?v" by (rule digits_value_nonneg [OF assms(2)]) simp
  have l: "strtoll 16 (CHR ''-'' # ds) = (- ?v, [], False)"
    using v assms(3) by (simp add: strtoll_def strto_parse_negative [OF assms(1,2)] INT64_MAX_def INT64_MIN_def Let_def)
  have u: "strtoull 16 (CHR ''-'' # ds) = ((- ?v) mod 2 ^ 64, [], False)"
    using v assms(3) by (simp add: strtoull_def strto_parse_negative [OF assms(1,2)])
  show ?thesis using l u by (simp add: tp_int_def tp_uint_def turboSignedRadixPrefixFile_def Let_def)
qed

theorem second_sign_accepted_witness:
  "tp_int ''-$-5'' = Some 5 \<and> tp_uint ''$-5'' = Some (2 ^ 64 - 5) \<and> tp_int ''-$-8000000000000000'' = Some (2 ^ 63)"
proof -
  have "digits_value 16 ''5'' 0 = 5" "list_all (digit_of 16) ''5''"
    "digits_value 16 ''8000000000000000'' 0 = 2 ^ 63" "list_all (digit_of 16) ''8000000000000000''" by code_simp+
  then show ?thesis using second_sign_accepted [of "''5''"] second_sign_accepted [of "''8000000000000000''"] by simp
qed

end
