(* ===== verification/Spec2Isabelle.thy ===== *)
theory Spec2Isabelle
  imports Math_Runtime Var_String Val_Parse Directive_Props Symbol_Table Expr_Roundtrip Expr_Wellformed Program_Parser_Props Flow_Check
    Compat_Props Type_Context_Props File_Numbers File_Turbo_Props
begin

text \<open>
  A verification development of the plang Pascal compiler and its runtime.

  plang compiles ISO 7185, Extended Pascal (ISO 10206) and Turbo Pascal to LLVM.  A source file is held by the
  \<^emph>\<open>source manager\<close>, which gives every byte of every file one 32-bit position; the \<^emph>\<open>scanner\<close> turns it into
  tokens, obeying the \<^emph>\<open>compiler directives\<close> in its comments (conditional compilation, includes, switches);
  the \<^emph>\<open>parser\<close> builds the tree; the \<^emph>\<open>semantic analysis\<close> resolves names through a scoped \<^emph>\<open>symbol table\<close> and
  checks types; the \<^emph>\<open>code generator\<close> emits LLVM IR that calls the \<^emph>\<open>runtime\<close> for strings, numbers and input
  and output.  Reports of every phase go to one diagnostics engine.

  \<^bold>\<open>Theories and what they model.\<close>  File names are below \<^verbatim>\<open>src/\<close>.  Mutable state is passed explicitly, a
  record per class; a run-time error or a failed call is a value of a sum or option type; a loop is a recursive
  function with its measure.

  \<^item> \<open>Prelude\<close>: bytes and their classes, 64-bit bounds, C++ division, the two bisections of the standard
    library, the scanning loop \<open>advance_while\<close>, \<open>memcpy\<close>.  The collections \<open>cclass\<close> and \<open>int64_simps\<close> unfold them.
  \<^item> \<open>Arith\<close>: \<^verbatim>\<open>include/plang/Basic/Arith.h\<close>, the arithmetic of constant folding.  Remainder, overflow-checked
    operations at every width, exponentiation by squaring, the size of an ordinal range: each equals its
    mathematical definition exactly where the type holds the result.  The locale \<open>ordinal_interval\<close> is
    interpreted at every width.
  \<^item> \<open>Math_Runtime\<close>: the integer functions and the random generator of \<^verbatim>\<open>runtime/plang_math.cpp\<close>; compiled code
    and folded constants agree.
  \<^item> \<open>String_Spec\<close>, \<open>Short_String\<close>, \<open>Var_String\<close>: \<^verbatim>\<open>runtime/plang_sstr.cpp\<close> and \<^verbatim>\<open>plang_str.cpp\<close>, the Turbo and
    the Extended Pascal strings, as two implementations of the interfaces \<open>bounded_string\<close> and
    \<open>byte_order\<close>.  A variable is its memory, so that a write out of bounds would show.  \<open>Io_Stream\<close> is the part of
    \<^verbatim>\<open>plang_stream.h\<close> and \<^verbatim>\<open>plang_io.cpp\<close> they write through.
  \<^item> \<open>Val_Parse\<close>: \<^verbatim>\<open>runtime/plang_val.cpp\<close>, exact against its grammar.
  \<^item> \<open>String_Util\<close>, \<open>Switch_Table\<close>, \<open>Source_Manager\<close>, \<open>Lang_Options\<close>: \<^verbatim>\<open>include/plang/Basic\<close> and
    \<^verbatim>\<open>lib/Basic/SourceManager.cpp\<close>.  Escaping of untrusted text, positional switches, the layout of the
    coordinate space and the way back from a position to file and line, dialects and keyword tables.
  \<^item> \<open>Scan_State\<close>, \<open>Directives\<close>, \<open>Scan_Contract\<close>, \<open>Lexer\<close>, \<open>Lexer_Props\<close>, \<open>Literals\<close>, \<open>Directive_Props\<close>:
    \<^verbatim>\<open>lib/Lex/Scanner.cpp\<close> and \<^verbatim>\<open>lib/Lex/Directives.cpp\<close>, whole.  Every step keeps the scanner's invariant and
    goes down in a lexicographic measure of free coordinate space and unread bytes, which is why even a file
    that includes itself comes to an end.  Literals mean what is written, comments end where the dialect says,
    and source that is not compiled has no effect.
  \<^item> \<open>Symbol_Table\<close>: \<^verbatim>\<open>lib/Sema/SymbolTable.cpp\<close>.  The locale \<open>scoped_env\<close> is what a processor of
    declarations relies on; its interpretation gives the block structure of Pascal.
  \<^item> \<open>Parse_State\<close>, \<open>Expr_Parser\<close>, \<open>Parse_Contract\<close>, \<open>Expr_Parser_Props\<close>, \<open>Expr_Wellformed\<close>, \<open>Expr_Roundtrip\<close>:
    \<^verbatim>\<open>lib/Parse/Parser.cpp\<close> (the token plumbing), \<^verbatim>\<open>ParseExpr.cpp\<close> and \<^verbatim>\<open>ParseInit.cpp\<close>.  The methods call one
    another through a record whose levels bound the depth of re-entry; \<open>parser_level\<close> is the contract of a level
    and \<open>methods_le\<close> the order between levels, both interpreted on \<open>methods_at n\<close>.  The contract is a small calculus:
    \<open>stp\<close> relates an earlier state to a later one, \<open>sat\<close> judges a method, and \<open>meets\<close>, \<open>adds\<close> and \<open>grows\<close> say which
    sets of names it may add to.  The trees are well formed, and what a printer writes with the fewest parentheses
    is read back as the same tree: precedence and associativity.
  \<^item> \<open>Stmt_Parser\<close>, \<open>Stmt_Parser_Props\<close>: \<^verbatim>\<open>ParseStmt.cpp\<close>, on the same contract; the locales
    \<open>statement_level\<close> and \<open>smethods_le\<close> extend those of the expressions.
  \<^item> \<open>Decl_Nodes\<close>, \<open>Type_Parser\<close>, \<open>Type_Parser_Props\<close>: the nodes of types and declarations and
    \<^verbatim>\<open>ParseType.cpp\<close>, with the parameter lists; \<open>types_level\<close> and \<open>tmethods_le\<close>.
  \<^item> \<open>Decl_Parser\<close>, \<open>Decl_Parser_Props\<close>: \<^verbatim>\<open>ParseDecl.cpp\<close>.  \<open>decls_level\<close> joins the levels of statements and
    types; \<open>decl_names\<close> counts the names of types, which gives the scope of a block exactly.
  \<^item> \<open>Program_Parser\<close>, \<open>Program_Parser_Props\<close>: \<^verbatim>\<open>ParseModule.cpp\<close>, \<^verbatim>\<open>ParseUnit.cpp\<close> and \<^verbatim>\<open>Parser::parse()\<close>.
    A \<open>uses\<close> clause runs a nested parse of the unit it names; \<open>units_level\<close> is proved for any harvest that keeps the
    contract, so once for the nested parser and once for the outer one.  The whole parser returns on every
    input, and hands out a tree exactly when it reported nothing and has read the file to its end.
  \<^item> \<open>Ast_Walk\<close>, \<open>Flow\<close>, \<open>Flow_Paths\<close>, \<open>Flow_Props\<close>, \<open>Flow_Check\<close>: \<^verbatim>\<open>include/plang/Basic/SemaUtil.h\<close> and
    \<^verbatim>\<open>lib/Sema/SemaFlow.cpp\<close>, the definite-assignment walk.  \<open>Flow_Paths\<close> is its specification: the paths through a
    statement as a regular language of reads and writes.  \<open>outcome\<close> relates a step of the walk to such a language
    and is closed under sequence, branching and the loops, so one induction over statements shows that the
    warnings are those of the paths: none is unfounded, and for variables that no for-statement controls none is
    missing.  States merge as a semilattice (\<open>flow_merge\<close>).
  \<^item> \<open>Sema_Types\<close>: \<^verbatim>\<open>include/plang/Sema/Type.h\<close>.  A type is an object in a store and a reference its address, so
    identity of types and the cycles through pointers are those of the code.
  \<^item> \<open>Layout\<close>, \<open>Layout_Props\<close>, \<open>Layout_Total\<close>: the storage of types, the end of \<^verbatim>\<open>lib/Sema/SemaType.cpp\<close>, in wrapping
    64-bit arithmetic.  Fields that can be present together are apart and aligned, with variant parts nested to any
    depth; a descendant's storage begins with its ancestor's; the sum of the sizes of the fields can wrap.
  \<^item> \<open>Compat\<close>, \<open>Compat_Props\<close>: the relations between types of \<^verbatim>\<open>lib/Sema/SemaExpr.cpp\<close> (identity, congruity,
    conformance, assignment compatibility), joined with the layout: what an accepted assignment copies.
  \<^item> \<open>Type_Context\<close>, \<open>Type_Context_Props\<close>: the canonical store of types, \<^verbatim>\<open>include/plang/AST/TypeContext.h\<close>.  The
    locale \<open>interner\<close> says what a call that interns does to a store; interpreted on the context it gives that two
    calls return one object exactly when they are the same call.
  \<^item> \<open>Stdio\<close>, \<open>File_State\<close>, \<open>File_Runtime\<close>, \<open>File_Turbo\<close>: \<^verbatim>\<open>runtime/plang_file.cpp\<close>, the files of ISO and Extended Pascal and
    those of Turbo Pascal, over a model of the C library's streams.  A file variable keeps a window, the next byte, and
    the storage of its buffer variable; the state also has the tables of names and the pending error.  \<open>File_Props\<close>
    relates the state to the standard's view of a file, what is before and behind its position; the locale
    \<open>sequential_file\<close> is what a program relies on that writes a file and reads it back, interpreted on internal files,
    on lines of text and, in \<open>File_Turbo_Props\<close>, on typed files.  \<open>File_Numbers\<close> is the way of an integer through a text
    file.  \<open>File_Turbo_Props\<close> also has what a pending error stops and what the number reader takes.

  \<^bold>\<open>Bounds.\<close>  The scanner's loops are total functions.  The parser's methods take a level: four times the
  tokens left, as counted by \<open>tokens_left\<close>, and one more is always enough, and the result is the same at every larger level, so the level
  is not part of what is modelled.  Nesting ceilings (500) are the code's own.  The questions about types follow
  references and carry fuel; where no type contains itself by value (\<open>ranked\<close>) the rank of the types asked about is
  enough, and more changes nothing.

  \<^bold>\<open>Parameters.\<close>  The file system, the measurements of the stack, the message catalogue, \<^verbatim>\<open>strtod\<close> and
  \<^verbatim>\<open>malloc\<close> are arguments of the definitions that use them, without assumptions.

  \<^bold>\<open>Not modelled.\<close>  The checks that apply the relations between types to every construct, and the resolution of
  type denoters, which are reporting and bookkeeping over the whole tree; the constant folder of the code generator;
  the formatting and reading of real and complex numbers, also in files, and the mathematical functions on them, calls
  of the C library; failing devices; the system, console, printer and time runtime, calls of the operating system;
  the generation of LLVM IR, whose meaning is outside the sources; rendering of
  diagnostics; the driver and the command-line tools.
\<close>

end
